(* ===== verification/Isle_Prelude.thy ===== *)
theory Isle_Prelude
  imports Main "HOL-Library.Multiset"
begin

text \<open>
  Shared vocabulary of the development.

  \<^item> \<open>poll\<close> is \<^verbatim>\<open>std::task::Poll\<close>; \<open>waker\<close> is \<^verbatim>\<open>std::task::Waker\<close>, compared
    by \<^verbatim>\<open>will_wake\<close> (equality of the task it wakes).
  \<^item> \<open>position\<close>, \<open>remove_nth\<close> are \<^verbatim>\<open>Iterator::position\<close> and \<^verbatim>\<open>VecDeque::remove\<close>;
    \<open>removeAll x\<close> is \<^verbatim>\<open>retain(|y| !Rc::ptr_eq(y, x))\<close> on a list of pointers.
  \<^item> \<open>show_nat\<close> is the decimal \<^verbatim>\<open>Display\<close> of an unsigned integer.
  \<^item> The locale \<open>machine\<close> is the one induction over runs that every component's
    invariant proof shares; the components interpret it on their own \<open>exec\<close>.
\<close>

section \<open>Lemma collections\<close>

named_theorems store_simps \<open>how the operations act on the fields of the channel store\<close>
named_theorems inv_intros \<open>introduction rules of the invariants\<close>
named_theorems list_mset \<open>multisets of updated lists\<close>

section \<open>Polls and wakers\<close>

datatype 'a poll = Ready 'a | Pending

fun is_ready :: "'a poll \<Rightarrow> bool" where
  "is_ready (Ready _) = True"
| "is_ready Pending = False"

datatype waker = NoopWaker | TaskWaker nat

section \<open>Lists as the code's vectors and queues\<close>

fun position :: "('a \<Rightarrow> bool) \<Rightarrow> 'a list \<Rightarrow> nat option" where
  "position P [] = None"
| "position P (x # xs) = (if P x then Some 0 else map_option Suc (position P xs))"

definition remove_nth :: "nat \<Rightarrow> 'a list \<Rightarrow> 'a list" where
  "remove_nth n xs = take n xs @ drop (Suc n) xs"

lemma position_None: "position P xs = None \<longleftrightarrow> (\<forall>x \<in> set xs. \<not> P x)"
  by (induction xs) auto

lemma position_Some:
  "position P xs = Some n \<Longrightarrow>
    n < length xs \<and> P (xs ! n) \<and> (\<forall>j < n. \<not> P (xs ! j))"
proof (induction xs arbitrary: n)
  case Nil
  then show ?case by simp
next
  case (Cons x xs)
  show ?case
  proof (cases "P x")
    case True
    with Cons.prems show ?thesis by simp
  next
    case False
    with Cons.prems obtain m where m: "position P xs = Some m" "n = Suc m"
      by auto
    from Cons.IH [OF m(1)] False m(2) show ?thesis
      by (auto simp: nth_Cons split: nat.splits)
  qed
qed

lemma position_nth_mem: "position P xs = Some n \<Longrightarrow> xs ! n \<in> set xs"
  by (auto dest: position_Some)

lemma remove_nth_set: "set (remove_nth n xs) \<subseteq> set xs"
  by (auto simp: remove_nth_def dest: in_set_takeD in_set_dropD)

lemma remove_nth_mset [list_mset]:
  "n < length xs \<Longrightarrow> mset xs = add_mset (xs ! n) (mset (remove_nth n xs))"
proof -
  assume n: "n < length xs"
  have "mset xs = mset (take n xs @ xs ! n # drop (Suc n) xs)"
    using n by (simp add: id_take_nth_drop [symmetric])
  then show ?thesis by (simp add: remove_nth_def)
qed

lemma remove_nth_distinct:
  assumes "distinct xs" and "n < length xs"
  shows "distinct (remove_nth n xs)" and "set (remove_nth n xs) = set xs - {xs ! n}"
proof -
  have split: "xs = take n xs @ xs ! n # drop (Suc n) xs"
    using assms(2) by (rule id_take_nth_drop)
  then have d: "distinct (take n xs @ xs ! n # drop (Suc n) xs)"
    using assms(1) by simp
  show "distinct (remove_nth n xs)"
    using d by (auto simp: remove_nth_def)
  have "set xs = insert (xs ! n) (set (remove_nth n xs))"
    by (subst split) (auto simp: remove_nth_def)
  moreover have "xs ! n \<notin> set (remove_nth n xs)"
    using d by (auto simp: remove_nth_def)
  ultimately show "set (remove_nth n xs) = set xs - {xs ! n}"
    by auto
qed

lemma find_Some_nth:
  "find P xs = Some x \<Longrightarrow> x \<in> set xs \<and> P x"
  by (induction xs) (auto split: if_splits)

lemma find_None: "find P xs = None \<longleftrightarrow> (\<forall>x \<in> set xs. \<not> P x)"
  by (induction xs) auto

section \<open>Decimal display\<close>

function show_nat :: "nat \<Rightarrow> string" where
  "show_nat n =
    (if n < 10 then [char_of (48 + n)]
     else show_nat (n div 10) @ [char_of (48 + n mod 10)])"
  by pat_completeness auto
termination
  by (relation "measure id") auto

declare show_nat.simps [simp del]

lemma show_nat_nonempty: "show_nat n \<noteq> []"
  by (subst show_nat.simps) simp

section \<open>Machines: one induction over runs\<close>

locale machine =
  fixes exec :: "'op \<Rightarrow> 's \<Rightarrow> 's"
    and ok :: "'s \<Rightarrow> bool"
  assumes ok_exec: "ok s \<Longrightarrow> ok (exec op s)"
begin

lemma ok_run: "ok s \<Longrightarrow> ok (fold exec ops s)"
  by (induction ops arbitrary: s) (auto intro: ok_exec)

end

end
