(* ===== verification/Isle_Error.thy ===== *)
theory Isle_Error
  imports Isle_Prelude
begin

text \<open>
  The error types of \<^verbatim>\<open>src/error.rs\<close>: \<open>isle_error\<close> (\<^verbatim>\<open>IsleError\<close>),
  \<open>lua_error_kind\<close> (\<^verbatim>\<open>LuaErrorKind\<close>) and \<open>lua_failure\<close> (\<^verbatim>\<open>LuaFailure\<close>), and the
  conversions between them and \<^verbatim>\<open>mlua::Error\<close>.

  \<^verbatim>\<open>mlua::Error\<close> itself is not under \<^verbatim>\<open>src/\<close>.  \<open>mlua_error\<close> has the variants the code
  matches on; the ones it does not look into are \<open>OtherMluaError\<close>.  Two functions of
  mlua are parameters: \<open>disp\<close> (its \<^verbatim>\<open>Display\<close>) and \<open>dc\<close> (\<^verbatim>\<open>Error::downcast_ref\<close>, as
  the payload the search ends at).  What the code relies on about them is
  \<open>mlua_display_ok\<close> and \<open>mlua_downcast_ok\<close>, the behaviour \<^verbatim>\<open>error.rs\<close> cites.

  The model is the build without the \<^verbatim>\<open>serde\<close> feature (no \<^verbatim>\<open>LuaFailure::value\<close>).
  Strings are byte strings, as \<^verbatim>\<open>str::find\<close> and slicing see them.
\<close>

section \<open>Error values\<close>

datatype lua_error_kind =
  KRuntime | KSyntax | KMemory | KCallback | KExternal | KConversion | KOther

record lua_failure =
  lf_kind :: lua_error_kind
  lf_message :: string
  lf_traceback :: "string option"

datatype isle_error =
    Shutdown
  | Cancelled
  | Lua lua_failure
  | Init lua_failure
  | NotFound string
  | ThreadPanic "string option"
  | ChannelFull
  | WrongIsle
  | RecvFailed
  | PoolExhausted nat
  | PoolPoisoned string

text \<open>What an \<^verbatim>\<open>mlua::Error::external\<close> carries: the \<^verbatim>\<open>Cancelled\<close> marker, an
  \<^verbatim>\<open>IsleError\<close>, or another error type (with its \<^verbatim>\<open>Display\<close>).\<close>

datatype payload = CancelledMark | IslePayload isle_error | OtherPayload string

datatype mlua_error =
    CallbackError string mlua_error
  | WithContext string mlua_error
  | BadArgument string mlua_error
  | RuntimeError string
  | SyntaxError string
  | MemoryError string
  | ExternalError payload
  | FromLuaConversionError string
  | OtherMluaError string

section \<open>Display\<close>

text \<open>\<^verbatim>\<open>impl Display for LuaFailure\<close> prints the message; the messages of \<^verbatim>\<open>IsleError\<close>
  are its \<^verbatim>\<open>#[error(..)]\<close> attributes.\<close>

definition failure_display :: "lua_failure \<Rightarrow> string" where
  "failure_display f = lf_message f"

fun isle_display :: "isle_error \<Rightarrow> string" where
  "isle_display Shutdown = ''isle shut down''"
| "isle_display Cancelled = ''cancelled''"
| "isle_display (Lua f) = ''lua error: '' @ failure_display f"
| "isle_display (Init f) = ''init error: '' @ failure_display f"
| "isle_display (NotFound n) = ''function '' @ [CHR 0x27] @ n @ [CHR 0x27] @ '' not found''"
| "isle_display (ThreadPanic m) =
    ''lua thread panicked'' @ (case m of None \<Rightarrow> [] | Some x \<Rightarrow> '': '' @ x)"
| "isle_display ChannelFull = ''channel full (backpressure)''"
| "isle_display WrongIsle = ''function handle belongs to another isle''"
| "isle_display RecvFailed = ''recv failed''"
| "isle_display (PoolExhausted n) = ''pool exhausted (max_size='' @ show_nat n @ '')''"
| "isle_display (PoolPoisoned m) = ''pool lock poisoned: '' @ m"

definition cancelled_display :: string where
  "cancelled_display = ''cancelled''"

fun payload_display :: "payload \<Rightarrow> string" where
  "payload_display CancelledMark = cancelled_display"
| "payload_display (IslePayload e) = isle_display e"
| "payload_display (OtherPayload m) = m"

section \<open>What is assumed of mlua\<close>

definition mlua_display_ok :: "(mlua_error \<Rightarrow> string) \<Rightarrow> bool" where
  "mlua_display_ok disp \<longleftrightarrow> (\<forall>p. disp (ExternalError p) = payload_display p)"

definition mlua_downcast_ok :: "(mlua_error \<Rightarrow> payload option) \<Rightarrow> bool" where
  "mlua_downcast_ok dc \<longleftrightarrow>
    (\<forall>p. dc (ExternalError p) = Some p) \<and>
    (\<forall>tb c. dc (CallbackError tb c) = dc c) \<and>
    (\<forall>ctx c. dc (WithContext ctx c) = dc c) \<and>
    (\<forall>m c. dc (BadArgument m c) = dc c) \<and>
    (\<forall>m. dc (RuntimeError m) = None) \<and>
    (\<forall>m. dc (SyntaxError m) = None) \<and>
    (\<forall>m. dc (MemoryError m) = None) \<and>
    (\<forall>m. dc (FromLuaConversionError m) = None) \<and>
    (\<forall>m. dc (OtherMluaError m) = None)"

section \<open>Building a failure\<close>

definition failure_new :: "lua_error_kind \<Rightarrow> string \<Rightarrow> lua_failure" where
  "failure_new k m = \<lparr>lf_kind = k, lf_message = m, lf_traceback = None\<rparr>"

definition tb_marker :: string where
  "tb_marker = CHR 0x0A # ''stack traceback:''"

text \<open>\<^verbatim>\<open>str::find\<close>: the first position where the pattern is a prefix.\<close>

fun str_find :: "string \<Rightarrow> string \<Rightarrow> nat option" where
  "str_find pat [] = (if pat = [] then Some 0 else None)"
| "str_find pat (c # cs) =
    (if take (length pat) (c # cs) = pat then Some 0
     else map_option Suc (str_find pat cs))"

definition split_traceback :: "string \<Rightarrow> string \<times> string option" where
  "split_traceback msg =
    (case str_find tb_marker msg of
       Some pos \<Rightarrow> (take pos msg, Some (drop (pos + 1) msg))
     | None \<Rightarrow> (msg, None))"

text \<open>The \<^verbatim>\<open>while let\<close> loop that walks to the innermost \<^verbatim>\<open>CallbackError\<close>.\<close>

fun innermost :: "mlua_error \<Rightarrow> string \<Rightarrow> mlua_error \<times> string" where
  "innermost (CallbackError inner_tb inner) tb = innermost inner inner_tb"
| "innermost e tb = (e, tb)"

lemma innermost_size: "size (fst (innermost e tb)) \<le> size e"
  by (induction e tb rule: innermost.induct) auto

function from_mlua :: "(mlua_error \<Rightarrow> string) \<Rightarrow> mlua_error \<Rightarrow> lua_failure" where
  "from_mlua disp (CallbackError tb cause) =
    (let (c, t) = innermost cause tb;
         inner = from_mlua disp c;
         f = failure_new KCallback (lf_message inner)
     in f\<lparr>lf_traceback := (if t \<noteq> [] then Some t else lf_traceback inner)\<rparr>)"
| "from_mlua disp (WithContext ctx cause) =
    (let f = from_mlua disp cause in f\<lparr>lf_message := ctx @ [CHR 0x0A] @ lf_message f\<rparr>)"
| "from_mlua disp (RuntimeError msg) =
    (let (message, tb) = split_traceback msg
     in (failure_new KRuntime message)\<lparr>lf_traceback := tb\<rparr>)"
| "from_mlua disp (SyntaxError m) = failure_new KSyntax m"
| "from_mlua disp (MemoryError m) = failure_new KMemory m"
| "from_mlua disp (ExternalError p) = failure_new KExternal (disp (ExternalError p))"
| "from_mlua disp (FromLuaConversionError m) =
    failure_new KConversion (disp (FromLuaConversionError m))"
| "from_mlua disp (BadArgument m c) = failure_new KConversion (disp (BadArgument m c))"
| "from_mlua disp (OtherMluaError m) = failure_new KOther (disp (OtherMluaError m))"
  by pat_completeness auto
termination
proof (relation "measure (\<lambda>(disp, e). size e)", goal_cases)
  case (2 disp tb cause x c t)
  then have "c = fst (innermost cause tb)" by (metis fst_conv)
  then show ?case using innermost_size [of cause tb] by (simp add: le_imp_less_Suc)
qed simp_all

section \<open>Cancellation and conversions\<close>

definition is_cancel :: "(mlua_error \<Rightarrow> payload option) \<Rightarrow> mlua_error \<Rightarrow> bool" where
  "is_cancel dc e \<longleftrightarrow> dc e = Some CancelledMark \<or> dc e = Some (IslePayload Cancelled)"

definition cancel_error :: mlua_error where
  "cancel_error = ExternalError CancelledMark"

definition isle_of_mlua ::
  "(mlua_error \<Rightarrow> string) \<Rightarrow> (mlua_error \<Rightarrow> payload option) \<Rightarrow> mlua_error \<Rightarrow> isle_error"
where
  "isle_of_mlua disp dc e = (if is_cancel dc e then Cancelled else Lua (from_mlua disp e))"

definition mlua_of_isle :: "isle_error \<Rightarrow> mlua_error" where
  "mlua_of_isle e = (case e of Cancelled \<Rightarrow> cancel_error | _ \<Rightarrow> ExternalError (IslePayload e))"

text \<open>\<^verbatim>\<open>panic_message\<close>: the payload of a panic is a \<^verbatim>\<open>&str\<close>, a \<^verbatim>\<open>String\<close> or anything.\<close>

datatype panic_payload = PanicStr string | PanicString string | PanicOther

fun panic_message :: "panic_payload \<Rightarrow> string option" where
  "panic_message (PanicStr s) = Some s"
| "panic_message (PanicString s) = Some s"
| "panic_message PanicOther = None"

end
