(* ===== verification/Isle_Error_Props.thy ===== *)
theory Isle_Error_Props
  imports Isle_Error
begin

text \<open>
  What the error conversions of \<^verbatim>\<open>src/error.rs\<close> promise: a cancel is recognised by value
  through any wrapping, an error that crosses Lua comes back with its message and the traceback
  of the call it came out of, and a traceback is cut off a message at its first marker.
\<close>

section \<open>Errors on their way through Lua\<close>

text \<open>
  What mlua and host code put around an error as it travels up: the \<^verbatim>\<open>CallbackError\<close> of a Lua
  call (with its traceback), a \<^verbatim>\<open>WithContext\<close>, a \<^verbatim>\<open>BadArgument\<close>.  The first is outermost.
\<close>

datatype wrapper = InCallback string | InContext string | InArgument string

fun wrap :: "wrapper list \<Rightarrow> mlua_error \<Rightarrow> mlua_error" where
  "wrap [] e = e"
| "wrap (InCallback tb # ws) e = CallbackError tb (wrap ws e)"
| "wrap (InContext ctx # ws) e = WithContext ctx (wrap ws e)"
| "wrap (InArgument m # ws) e = BadArgument m (wrap ws e)"

abbreviation callbacks :: "string list \<Rightarrow> mlua_error \<Rightarrow> mlua_error" where
  "callbacks tbs e \<equiv> wrap (map InCallback tbs) e"

text \<open>A concrete \<^verbatim>\<open>downcast_ref\<close> and \<^verbatim>\<open>Display\<close>, for the witnesses.\<close>

fun chain_payload :: "mlua_error \<Rightarrow> payload option" where
  "chain_payload (CallbackError _ c) = chain_payload c"
| "chain_payload (WithContext _ c) = chain_payload c"
| "chain_payload (BadArgument _ c) = chain_payload c"
| "chain_payload (ExternalError p) = Some p"
| "chain_payload _ = None"

fun chain_display :: "mlua_error \<Rightarrow> string" where
  "chain_display (ExternalError p) = payload_display p"
| "chain_display (CallbackError _ c) = chain_display c"
| "chain_display (WithContext ctx c) = ctx @ [CHR 0x0A] @ chain_display c"
| "chain_display (BadArgument m c) = ''bad argument '' @ m"
| "chain_display (RuntimeError m) = ''runtime error: '' @ m"
| "chain_display (SyntaxError m) = ''syntax error: '' @ m"
| "chain_display (MemoryError m) = ''memory error: '' @ m"
| "chain_display (FromLuaConversionError m) = m"
| "chain_display (OtherMluaError m) = m"

lemma chain_ok: "mlua_downcast_ok chain_payload" "mlua_display_ok chain_display"
  by (simp_all add: mlua_downcast_ok_def mlua_display_ok_def)

lemma downcast_wrap: "mlua_downcast_ok dc \<Longrightarrow> dc (wrap ws e) = dc e"
  by (induction ws e rule: wrap.induct) (simp_all add: mlua_downcast_ok_def)

lemma downcast_iff:
  assumes "mlua_downcast_ok dc"
  shows "dc e = Some p \<longleftrightarrow> (\<exists>ws. e = wrap ws (ExternalError p))"
proof
  show "dc e = Some p \<Longrightarrow> \<exists>ws. e = wrap ws (ExternalError p)"
  proof (induction e)
    case (CallbackError tb c)
    then obtain ws where "c = wrap ws (ExternalError p)" using assms by (auto simp: mlua_downcast_ok_def)
    then show ?case by (intro exI [of _ "InCallback tb # ws"]) simp
  next
    case (WithContext ctx c)
    then obtain ws where "c = wrap ws (ExternalError p)" using assms by (auto simp: mlua_downcast_ok_def)
    then show ?case by (intro exI [of _ "InContext ctx # ws"]) simp
  next
    case (BadArgument m c)
    then obtain ws where "c = wrap ws (ExternalError p)" using assms by (auto simp: mlua_downcast_ok_def)
    then show ?case by (intro exI [of _ "InArgument m # ws"]) simp
  next
    case (ExternalError q)
    then show ?case using assms by (intro exI [of _ "[]"]) (simp add: mlua_downcast_ok_def)
  qed (use assms in \<open>simp_all add: mlua_downcast_ok_def\<close>)
next
  assume "\<exists>ws. e = wrap ws (ExternalError p)"
  then show "dc e = Some p" using downcast_wrap [OF assms] assms by (auto simp: mlua_downcast_ok_def)
qed

text \<open>C22: A cancel is recognised by value, never by message: an mlua error becomes \<^verbatim>\<open>Cancelled\<close> exactly when it is the
  \<^verbatim>\<open>Cancelled\<close> marker or an \<^verbatim>\<open>IsleError::Cancelled\<close>, inside any number of Lua calls, contexts and argument errors; any
  other mlua error, whatever its message, becomes a \<^verbatim>\<open>Lua\<close> failure.  So an \<^verbatim>\<open>IsleError\<close> turned into an mlua error, wrapped
  and turned back is \<^verbatim>\<open>Cancelled\<close> exactly when it was.\<close>

theorem cancel_survives_lua:
  assumes "mlua_downcast_ok dc"
  shows "(isle_of_mlua disp dc e = Cancelled \<longleftrightarrow>
      (\<exists>ws. e = wrap ws (ExternalError CancelledMark) \<or> e = wrap ws (ExternalError (IslePayload Cancelled)))) \<and>
    isle_of_mlua disp dc e \<in> {Cancelled, Lua (from_mlua disp e)} \<and>
    (isle_of_mlua disp dc (wrap ws (mlua_of_isle i)) = Cancelled \<longleftrightarrow> i = Cancelled)"
proof (intro conjI)
  have "is_cancel dc e \<longleftrightarrow>
      (\<exists>ws. e = wrap ws (ExternalError CancelledMark) \<or> e = wrap ws (ExternalError (IslePayload Cancelled)))" for e
    unfolding is_cancel_def downcast_iff [OF assms] by blast
  then show "isle_of_mlua disp dc e = Cancelled \<longleftrightarrow>
      (\<exists>ws. e = wrap ws (ExternalError CancelledMark) \<or> e = wrap ws (ExternalError (IslePayload Cancelled)))"
    by (simp add: isle_of_mlua_def)
  show "isle_of_mlua disp dc e \<in> {Cancelled, Lua (from_mlua disp e)}" by (simp add: isle_of_mlua_def)
  have "is_cancel dc (wrap ws (mlua_of_isle i)) \<longleftrightarrow> i = Cancelled"
    using assms unfolding is_cancel_def downcast_wrap [OF assms]
    by (cases i) (simp_all add: mlua_of_isle_def cancel_error_def mlua_downcast_ok_def)
  then show "isle_of_mlua disp dc (wrap ws (mlua_of_isle i)) = Cancelled \<longleftrightarrow> i = Cancelled"
    by (simp add: isle_of_mlua_def)
qed

lemma message_is_no_cancel: "RuntimeError m \<noteq> wrap ws (ExternalError p)"
  by (induction ws "ExternalError p" rule: wrap.induct) simp_all

theorem cancel_survives_lua_witness:
  "isle_of_mlua chain_display chain_payload (wrap [InCallback ''a'', InContext ''b''] (ExternalError (IslePayload Cancelled))) = Cancelled \<and>
    isle_of_mlua chain_display chain_payload (RuntimeError ''cancelled'') =
      Lua (from_mlua chain_display (RuntimeError ''cancelled'')) \<and>
    isle_of_mlua chain_display chain_payload (wrap [InContext ''cancelled''] (mlua_of_isle Shutdown)) \<noteq> Cancelled"
proof -
  note C = cancel_survives_lua [OF chain_ok(1), of chain_display]
  have "isle_of_mlua chain_display chain_payload
      (wrap [InCallback ''a'', InContext ''b''] (ExternalError (IslePayload Cancelled))) = Cancelled" using C by blast
  moreover have "isle_of_mlua chain_display chain_payload (RuntimeError ''cancelled'') =
      Lua (from_mlua chain_display (RuntimeError ''cancelled''))"
    using C [of "RuntimeError ''cancelled''"] message_is_no_cancel [of "''cancelled''"] by blast
  moreover have "isle_of_mlua chain_display chain_payload (wrap [InContext ''cancelled''] (mlua_of_isle Shutdown)) \<noteq> Cancelled"
    using C [of _ "[InContext ''cancelled'']" Shutdown] by blast
  ultimately show ?thesis by blast
qed

text \<open>The walk to the innermost callback of a chain of Lua calls.\<close>

fun is_callback :: "mlua_error \<Rightarrow> bool" where
  "is_callback (CallbackError _ _) = True"
| "is_callback _ = False"

lemma innermost_leaf: "\<not> is_callback e \<Longrightarrow> innermost e tb = (e, tb)"
  by (cases e) simp_all

lemma innermost_callbacks:
  "\<not> is_callback e \<Longrightarrow> innermost (callbacks tbs e) tb = (e, last (tb # tbs))"
  by (induction tbs arbitrary: tb) (simp_all add: innermost_leaf)

lemma from_mlua_callbacks:
  assumes "\<not> is_callback e"
  shows "from_mlua disp (callbacks (tb # tbs) e) =
    \<lparr>lf_kind = KCallback, lf_message = lf_message (from_mlua disp e),
     lf_traceback = (if last (tb # tbs) \<noteq> [] then Some (last (tb # tbs))
       else lf_traceback (from_mlua disp e))\<rparr>"
  using innermost_callbacks [OF assms, of tbs tb]
  by (simp add: Let_def failure_new_def)

text \<open>an error that comes out of nested Lua calls is reported as a callback error with the message
  of its innermost cause and the traceback of the innermost call, or, when that traceback is
  empty, the one split off the cause itself.\<close>

theorem callback_failure_is_innermost:
  assumes "\<not> is_callback e" and "tbs \<noteq> []"
  shows "from_mlua disp (callbacks tbs e) =
    \<lparr>lf_kind = KCallback, lf_message = lf_message (from_mlua disp e),
     lf_traceback = (if last tbs \<noteq> [] then Some (last tbs) else lf_traceback (from_mlua disp e))\<rparr>"
  using from_mlua_callbacks [OF assms(1)] assms(2) by (cases tbs) simp_all

theorem callback_failure_is_innermost_witness:
  "from_mlua chain_display (callbacks [''outer'', ''inner''] (RuntimeError (''boom'' @ tb_marker @ '' x''))) =
    \<lparr>lf_kind = KCallback, lf_message = ''boom'', lf_traceback = Some ''inner''\<rparr>"
proof -
  have "lf_message (from_mlua chain_display (RuntimeError (''boom'' @ tb_marker @ '' x''))) = ''boom''"
    by (simp add: split_traceback_def tb_marker_def failure_new_def)
  then show ?thesis
    using callback_failure_is_innermost [of "RuntimeError (''boom'' @ tb_marker @ '' x'')"
        "[''outer'', ''inner'']" chain_display] by (simp del: from_mlua.simps)
qed

text \<open>C29: every other \<^verbatim>\<open>IsleError\<close> keeps its message across Lua: returned by a host function, passed
  up through any number of Lua calls and brought back to Rust, it is a Lua error whose message
  is the error's display, of kind \<^verbatim>\<open>External\<close> when it crossed no call and \<^verbatim>\<open>Callback\<close> otherwise.\<close>

theorem isle_error_round_trip:
  assumes "mlua_downcast_ok dc" and "mlua_display_ok disp" and "e \<noteq> Cancelled"
  shows "\<exists>f. isle_of_mlua disp dc (callbacks tbs (mlua_of_isle e)) = Lua f \<and>
    lf_message f = isle_display e \<and>
    lf_kind f = (if tbs = [] then KExternal else KCallback) \<and>
    lf_traceback f = (if tbs = [] \<or> last tbs = [] then None else Some (last tbs))"
proof -
  have m: "mlua_of_isle e = ExternalError (IslePayload e)"
    using assms(3) by (cases e) (simp_all add: mlua_of_isle_def)
  have "\<not> is_cancel dc (callbacks tbs (mlua_of_isle e))"
    using assms unfolding is_cancel_def downcast_wrap [OF assms(1)] m by (simp add: mlua_downcast_ok_def)
  then have "isle_of_mlua disp dc (callbacks tbs (mlua_of_isle e)) =
      Lua (from_mlua disp (callbacks tbs (ExternalError (IslePayload e))))"
    by (simp add: isle_of_mlua_def m)
  moreover have "disp (ExternalError (IslePayload e)) = isle_display e"
    using assms(2) by (simp add: mlua_display_ok_def)
  ultimately show ?thesis
    using from_mlua_callbacks [of "ExternalError (IslePayload e)" disp]
    by (cases tbs) (auto simp: failure_new_def simp del: from_mlua.simps(1))
qed

theorem isle_error_round_trip_witness:
  "\<exists>f. isle_of_mlua chain_display chain_payload
      (callbacks [''a'', ''b''] (mlua_of_isle (PoolExhausted 3))) = Lua f \<and>
    lf_message f = isle_display (PoolExhausted 3) \<and> lf_kind f = KCallback \<and> lf_traceback f = Some ''b''"
  using isle_error_round_trip [OF chain_ok, of "PoolExhausted 3" "[''a'', ''b'']"] by simp

section \<open>Splitting a traceback\<close>

lemma str_find_Some:
  "pat \<noteq> [] \<Longrightarrow> str_find pat s = Some n \<Longrightarrow>
    take (length pat) (drop n s) = pat \<and> (\<forall>k < n. take (length pat) (drop k s) \<noteq> pat)"
proof (induction s arbitrary: n)
  case Nil
  then show ?case by simp
next
  case (Cons c cs)
  show ?case
  proof (cases "take (length pat) (c # cs) = pat")
    case True
    with Cons.prems show ?thesis by simp
  next
    case False
    with Cons.prems obtain m where m: "str_find pat cs = Some m" "n = Suc m" by auto
    from Cons.IH [OF Cons.prems(1) m(1)] False show ?thesis
      by (auto simp: m(2) less_Suc_eq_0_disj)
  qed
qed

lemma str_find_None:
  "pat \<noteq> [] \<Longrightarrow> str_find pat s = None \<Longrightarrow> take (length pat) (drop k s) \<noteq> pat"
proof (induction s arbitrary: k)
  case Nil
  then show ?case by simp
next
  case (Cons c cs)
  then show ?case by (cases k) (auto split: if_splits)
qed

definition marker_at :: "string \<Rightarrow> nat \<Rightarrow> bool" where
  "marker_at msg k \<longleftrightarrow> take (length tb_marker) (drop k msg) = tb_marker"

text \<open>a message is cut at its first traceback marker and nowhere else: without a marker it is kept
  whole; with one, message, line break and traceback make up the original, the traceback begins
  at the marker, and no marker begins inside the message.\<close>

theorem split_traceback_spec:
  "case split_traceback msg of
     (m, None) \<Rightarrow> m = msg \<and> (\<nexists>k. marker_at msg k)
   | (m, Some tb) \<Rightarrow> msg = m @ CHR 0x0A # tb \<and> marker_at msg (length m) \<and>
       (\<nexists>k. k < length m \<and> marker_at msg k)"
proof (cases "str_find tb_marker msg")
  case None
  then show ?thesis
    using str_find_None [OF _ None] by (auto simp: split_traceback_def marker_at_def tb_marker_def)
next
  case (Some n)
  have ne: "tb_marker \<noteq> []" by (simp add: tb_marker_def)
  from str_find_Some [OF ne Some]
  have at: "take (length tb_marker) (drop n msg) = tb_marker"
    and before: "\<And>k. k < n \<Longrightarrow> \<not> marker_at msg k"
    by (simp_all add: marker_at_def)
  have len: "n < length msg"
    using at by (cases "n < length msg") (simp_all add: tb_marker_def)
  have "msg ! n = hd (drop n msg)" using len by (simp add: hd_drop_conv_nth)
  also have "\<dots> = hd (take (length tb_marker) (drop n msg))"
    using len by (cases "drop n msg") (simp_all add: tb_marker_def)
  also have "\<dots> = CHR 0x0A" unfolding at by (simp add: tb_marker_def)
  finally have nl: "msg ! n = CHR 0x0A" .
  then show ?thesis
    using at before len id_take_nth_drop [OF len]
    by (simp add: split_traceback_def Some marker_at_def min_def)
qed

text \<open>The payloads of a panic.\<close>

end
