(* ===== verification/Isle_Value.thy ===== *)
theory Isle_Value
  imports Isle_Error Complex_Main
begin

text \<open>
  Lua values as the code handles them (\<^verbatim>\<open>mlua::Value\<close>, by the variants the source
  matches on or builds; the others are \<open>VOther\<close>).  Tables, functions and userdata are
  references: their address is their identity.  A list of values is a
  \<^verbatim>\<open>mlua::MultiValue\<close>.

  A Lua number is an \<open>f64\<close>: not-a-number, an infinity (with its sign), or a finite
  value, kept as the rational it denotes.
\<close>

datatype f64 = FNan | FInf bool | FFin rat

datatype lua_value =
    VNil
  | VBoolean bool
  | VInteger int
  | VNumber f64
  | VString string
  | VTable nat
  | VFunction nat
  | VUserData nat
  | VError mlua_error
  | VOther nat

text \<open>\<^verbatim>\<open>Option<Value>::unwrap_or(Value::Nil)\<close>.\<close>

definition or_nil :: "lua_value option \<Rightarrow> lua_value" where
  "or_nil v = (case v of None \<Rightarrow> VNil | Some x \<Rightarrow> x)"

lemma or_nil_simps [simp]: "or_nil None = VNil" "or_nil (Some x) = x"
  by (simp_all add: or_nil_def)

text \<open>\<^verbatim>\<open>select::recv_values\<close> and \<^verbatim>\<open>select::send_values\<close>.\<close>

fun recv_values :: "lua_value option \<Rightarrow> lua_value list" where
  "recv_values (Some v) = [v, VBoolean True]"
| "recv_values None = [VNil, VBoolean False]"

definition send_values :: "bool \<Rightarrow> lua_value list" where
  "send_values sent = [VBoolean sent]"

end
