(* ===== verification/Isle_Chan.thy ===== *)
theory Isle_Chan
  imports Isle_Value
begin

text \<open>
  The channels of \<^verbatim>\<open>src/chan.rs\<close>: data and operations.

  Everything the code shares by \<^verbatim>\<open>Rc\<close> on the VM's thread lives in one \<open>chan_store\<close>:
  the channels (\<^verbatim>\<open>Rc<RefCell<ChanCore>>\<close>), the rendezvous offers (\<^verbatim>\<open>Rc<Offer>\<close>) and
  waiters (\<^verbatim>\<open>Rc<Waiter>\<close>), the select marks (\<^verbatim>\<open>Rc<SelectMark>\<close>) and the wakers of the
  senders waiting on a channel to the host (\<^verbatim>\<open>Rc<RefCell<Waker>>\<close>).  A pointer is a
  natural number, \<^verbatim>\<open>Rc::ptr_eq\<close> is equality, and \<open>st_fresh\<close> is the next unused
  address.  \<open>st_woken\<close> records every \<^verbatim>\<open>Waker::wake\<close>, in order.  A \<open>receiving\<close>
  (\<^verbatim>\<open>Receiving\<close>) and a \<open>sending\<close> (\<^verbatim>\<open>Sending\<close>) are owned by one future: they are passed
  and returned.

  Tokio's \<^verbatim>\<open>mpsc\<close> channel behind a host channel is not under \<^verbatim>\<open>src/\<close>: \<open>mpsc_env\<close> holds
  its operations as parameters, over an abstract state \<open>'q\<close> of one such channel and the
  host's value type \<open>'t\<close>, together with the conversions \<^verbatim>\<open>IntoLua\<close> and \<^verbatim>\<open>FromLua\<close> of that
  type.
\<close>

section \<open>Parameters: tokio's mpsc channel and the conversions\<close>

datatype 't rx_try = RxValue 't | RxEmpty | RxDisconnected

datatype tx_try = TxPermit nat | TxFull | TxClosed

record ('t, 'q) mpsc_env =
  rx_poll :: "'q \<Rightarrow> 't option poll \<times> 'q"
  rx_try_recv :: "'q \<Rightarrow> 't rx_try \<times> 'q"
  rx_close :: "'q \<Rightarrow> 'q"
  rx_is_closed :: "'q \<Rightarrow> bool"
  rx_len :: "'q \<Rightarrow> nat"
  mpsc_max_capacity :: "'q \<Rightarrow> nat"
  tx_reserve_owned :: "'q \<Rightarrow> nat \<times> 'q"
  tx_poll_reserve :: "nat \<Rightarrow> waker \<Rightarrow> 'q \<Rightarrow> nat option poll \<times> 'q"
  tx_drop_reserve :: "nat \<Rightarrow> 'q \<Rightarrow> 'q"
  tx_try_reserve :: "'q \<Rightarrow> tx_try \<times> 'q"
  tx_send :: "nat \<Rightarrow> 't \<Rightarrow> 'q \<Rightarrow> 'q"
  tx_drop_permit :: "nat \<Rightarrow> 'q \<Rightarrow> 'q"
  tx_drop_sender :: "'q \<Rightarrow> 'q"
  tx_is_closed :: "'q \<Rightarrow> bool"
  tx_capacity :: "'q \<Rightarrow> nat"
  into_lua :: "'t \<Rightarrow> mlua_error + lua_value"
  from_lua :: "lua_value \<Rightarrow> mlua_error + 't"

section \<open>Data\<close>

text \<open>\<^verbatim>\<open>OfferState\<close>, \<^verbatim>\<open>Offer\<close>, \<^verbatim>\<open>Waiter\<close>; a select mark is an address.\<close>

datatype offer_state = Open | Taken | Withdrawn

record offer =
  of_value :: "lua_value option"
  of_state :: offer_state
  of_waker :: waker
  of_select :: "nat option"

record waiter =
  wt_slot :: "lua_value option"
  wt_waker :: waker
  wt_select :: "nat option"

text \<open>\<^verbatim>\<open>HostRx\<close> (with its \<^verbatim>\<open>FanOut\<close>) and \<^verbatim>\<open>HostTx\<close>; \<open>ht_open\<close> is \<^verbatim>\<open>tx.is_some()\<close>.\<close>

record 'q host_rx =
  hr_rx :: 'q
  hr_fan :: "waker list"

record 'q host_tx =
  ht_open :: bool
  ht_chan :: 'q
  ht_cap :: nat

record 'q chan_core =
  cc_buf :: "lua_value list"
  cc_cap :: nat
  cc_closed :: bool
  cc_recv_wakers :: "waker list"
  cc_send_wakers :: "waker list"
  cc_source :: "'q host_rx option"
  cc_offers :: "nat list"
  cc_waiters :: "nat list"
  cc_ticker :: bool
  cc_sink :: "'q host_tx option"
  cc_sink_waiters :: "nat list"

record 'q chan_store =
  st_core :: "nat \<Rightarrow> 'q chan_core"
  st_offer :: "nat \<Rightarrow> offer"
  st_waiter :: "nat \<Rightarrow> waiter"
  st_claimed :: "nat \<Rightarrow> bool"
  st_cell :: "nat \<Rightarrow> waker"
  st_fresh :: nat
  st_woken :: "waker list"

datatype chan_closed = ChanClosed

datatype try_recv_result = TryValue lua_value | TryClosed | TryEmpty

record receiving =
  r_chan :: nat
  r_select :: "nat option"
  r_waiter :: "nat option"

record sending =
  s_chan :: nat
  s_value :: "lua_value option"
  s_select :: "nat option"
  s_offer :: "nat option"
  s_eager :: bool
  s_reserve :: "nat option"
  s_sink_wait :: "nat option"

section \<open>Store primitives\<close>

definition upd_core ::
  "nat \<Rightarrow> ('q chan_core \<Rightarrow> 'q chan_core) \<Rightarrow> 'q chan_store \<Rightarrow> 'q chan_store" where
  "upd_core ch f s = s\<lparr>st_core := (st_core s)(ch := f (st_core s ch))\<rparr>"

definition upd_offer :: "nat \<Rightarrow> (offer \<Rightarrow> offer) \<Rightarrow> 'q chan_store \<Rightarrow> 'q chan_store" where
  "upd_offer o' f s = s\<lparr>st_offer := (st_offer s)(o' := f (st_offer s o'))\<rparr>"

definition upd_waiter :: "nat \<Rightarrow> (waiter \<Rightarrow> waiter) \<Rightarrow> 'q chan_store \<Rightarrow> 'q chan_store" where
  "upd_waiter w f s = s\<lparr>st_waiter := (st_waiter s)(w := f (st_waiter s w))\<rparr>"

definition wake :: "waker \<Rightarrow> 'q chan_store \<Rightarrow> 'q chan_store" where
  "wake w s = s\<lparr>st_woken := st_woken s @ [w]\<rparr>"

definition wake_all :: "waker list \<Rightarrow> 'q chan_store \<Rightarrow> 'q chan_store" where
  "wake_all ws s = fold wake ws s"

definition register :: "waker list \<Rightarrow> waker \<Rightarrow> waker list" where
  "register ws w = (if w \<in> set ws then ws else ws @ [w])"

section \<open>Select marks\<close>

definition mark_new :: "'q chan_store \<Rightarrow> nat \<times> 'q chan_store" where
  "mark_new s =
    (st_fresh s,
     s\<lparr>st_claimed := (st_claimed s)(st_fresh s := False), st_fresh := Suc (st_fresh s)\<rparr>)"

definition claim :: "nat \<Rightarrow> 'q chan_store \<Rightarrow> 'q chan_store" where
  "claim m s = s\<lparr>st_claimed := (st_claimed s)(m := True)\<rparr>"

fun claim_opt :: "nat option \<Rightarrow> 'q chan_store \<Rightarrow> 'q chan_store" where
  "claim_opt None s = s"
| "claim_opt (Some m) s = claim m s"

fun claimed :: "'q chan_store \<Rightarrow> nat option \<Rightarrow> bool" where
  "claimed s None = False"
| "claimed s (Some m) = st_claimed s m"

fun same_select :: "nat option \<Rightarrow> nat option \<Rightarrow> bool" where
  "same_select (Some a) (Some b) = (a = b)"
| "same_select _ _ = False"

section \<open>Creating channels\<close>

definition with_cap :: "nat \<Rightarrow> 'q host_rx option \<Rightarrow> 'q chan_core" where
  "with_cap cap source =
    \<lparr>cc_buf = [], cc_cap = cap, cc_closed = False, cc_recv_wakers = [], cc_send_wakers = [],
     cc_source = source, cc_offers = [], cc_waiters = [], cc_ticker = False, cc_sink = None,
     cc_sink_waiters = []\<rparr>"

definition alloc_chan :: "'q chan_core \<Rightarrow> 'q chan_store \<Rightarrow> nat \<times> 'q chan_store" where
  "alloc_chan c s =
    (st_fresh s, s\<lparr>st_core := (st_core s)(st_fresh s := c), st_fresh := Suc (st_fresh s)\<rparr>)"

definition chan_new :: "nat \<Rightarrow> 'q chan_store \<Rightarrow> nat \<times> 'q chan_store" where
  "chan_new cap s = alloc_chan (with_cap cap None) s"

definition new_ticker :: "'q chan_store \<Rightarrow> nat \<times> 'q chan_store" where
  "new_ticker s = alloc_chan ((with_cap 1 None)\<lparr>cc_ticker := True\<rparr>) s"

definition new_host :: "('t, 'q) mpsc_env \<Rightarrow> 'q \<Rightarrow> 'q chan_store \<Rightarrow> nat \<times> 'q chan_store" where
  "new_host env rx s =
    alloc_chan (with_cap (mpsc_max_capacity env rx) (Some \<lparr>hr_rx = rx, hr_fan = []\<rparr>)) s"

definition new_to_host ::
  "('t, 'q) mpsc_env \<Rightarrow> 'q \<Rightarrow> 'q chan_store \<Rightarrow> nat \<times> 'q chan_store" where
  "new_to_host env tx s =
    (let cap = mpsc_max_capacity env tx
     in alloc_chan
          ((with_cap cap None)\<lparr>cc_sink := Some \<lparr>ht_open = True, ht_chan = tx, ht_cap = cap\<rparr>\<rparr>) s)"

definition send_only :: "'q chan_store \<Rightarrow> nat \<Rightarrow> string option" where
  "send_only s ch =
    (if cc_sink (st_core s ch) \<noteq> None then Some ''a channel to the host; the host receives''
     else None)"

definition receive_only :: "'q chan_store \<Rightarrow> nat \<Rightarrow> string option" where
  "receive_only s ch =
    (let c = st_core s ch in
     if cc_source c \<noteq> None then Some ''a host channel; the host sends''
     else if cc_ticker c then Some ''a ticker''
     else None)"

section \<open>The core: waiting receivers and offers\<close>

text \<open>\<^verbatim>\<open>ChanCore::receiver_wakers\<close>: takes the plain wakers, copies the waiters'.\<close>

definition receiver_wakers :: "nat \<Rightarrow> 'q chan_store \<Rightarrow> waker list \<times> 'q chan_store" where
  "receiver_wakers ch s =
    (let c = st_core s ch in
     (cc_recv_wakers c @ map (\<lambda>w. wt_waker (st_waiter s w)) (cc_waiters c),
      upd_core ch (cc_recv_wakers_update (\<lambda>_. [])) s))"

text \<open>\<^verbatim>\<open>ChanCore::fill_waiter\<close>: the waker of the receiver that got the value.\<close>

definition may_fill :: "'q chan_store \<Rightarrow> nat option \<Rightarrow> nat \<Rightarrow> bool" where
  "may_fill s me w \<longleftrightarrow>
    wt_slot (st_waiter s w) = None \<and> \<not> claimed s (wt_select (st_waiter s w)) \<and>
    \<not> same_select (wt_select (st_waiter s w)) me"

definition fill_waiter ::
  "nat \<Rightarrow> lua_value \<Rightarrow> nat option \<Rightarrow> 'q chan_store \<Rightarrow> waker option \<times> 'q chan_store" where
  "fill_waiter ch v me s =
    (case find (may_fill s me) (cc_waiters (st_core s ch)) of
       Some w \<Rightarrow> (Some (wt_waker (st_waiter s w)), upd_waiter w (wt_slot_update (\<lambda>_. Some v)) s)
     | None \<Rightarrow> (None, s))"

text \<open>\<^verbatim>\<open>ChanCore::take_offer\<close>.\<close>

definition may_take :: "'q chan_store \<Rightarrow> nat option \<Rightarrow> nat \<Rightarrow> bool" where
  "may_take s me o' \<longleftrightarrow>
    of_state (st_offer s o') = Open \<and> \<not> claimed s (of_select (st_offer s o')) \<and>
    \<not> same_select (of_select (st_offer s o')) me"

definition take_offer ::
  "nat \<Rightarrow> nat option \<Rightarrow> 'q chan_store \<Rightarrow> (lua_value \<times> waker) option \<times> 'q chan_store" where
  "take_offer ch me s =
    (case position (may_take s me) (cc_offers (st_core s ch)) of
       None \<Rightarrow> (None, s)
     | Some pos \<Rightarrow>
         let o' = cc_offers (st_core s ch) ! pos;
             off = st_offer s o';
             s1 = upd_core ch (cc_offers_update (remove_nth pos)) s;
             s2 = upd_offer o' (of_state_update (\<lambda>_. Taken)) s1;
             s3 = claim_opt (of_select off) s2;
             s4 = upd_offer o' (of_value_update (\<lambda>_. None)) s3
         in (Some (or_nil (of_value off), of_waker off), s4))"

section \<open>Host ends\<close>

text \<open>\<^verbatim>\<open>FanOut::wake\<close>: tokio wakes the receiver's one waker.\<close>

definition fan_wake :: "nat \<Rightarrow> 'q chan_store \<Rightarrow> 'q chan_store" where
  "fan_wake ch s =
    (case cc_source (st_core s ch) of
       None \<Rightarrow> s
     | Some hr \<Rightarrow>
         wake_all (hr_fan hr) (upd_core ch (cc_source_update (\<lambda>_. Some (hr\<lparr>hr_fan := []\<rparr>))) s))"

text \<open>\<^verbatim>\<open>HostRx::poll_take\<close> and \<^verbatim>\<open>HostRx::try_take\<close>.\<close>

definition poll_take_rx ::
  "('t, 'q) mpsc_env \<Rightarrow> waker \<Rightarrow> 'q host_rx \<Rightarrow>
    (mlua_error + lua_value option) poll \<times> 'q host_rx" where
  "poll_take_rx env w hr =
    (let fan = register (hr_fan hr) w;
         (got, q) = rx_poll env (hr_rx hr);
         hr' = \<lparr>hr_rx = q, hr_fan = fan\<rparr>
     in (case got of
           Ready (Some v) \<Rightarrow> Ready (map_sum id Some (into_lua env v))
         | Ready None \<Rightarrow> Ready (Inr None)
         | Pending \<Rightarrow> Pending, hr'))"

definition try_take_rx ::
  "('t, 'q) mpsc_env \<Rightarrow> 'q host_rx \<Rightarrow> (mlua_error + try_recv_result) \<times> 'q host_rx" where
  "try_take_rx env hr =
    (let (got, q) = rx_try_recv env (hr_rx hr)
     in (case got of
           RxValue v \<Rightarrow> map_sum id TryValue (into_lua env v)
         | RxEmpty \<Rightarrow> Inr TryEmpty
         | RxDisconnected \<Rightarrow> Inr TryClosed, hr\<lparr>hr_rx := q\<rparr>))"

text \<open>\<^verbatim>\<open>HostTx\<close>: \<^verbatim>\<open>reserve\<close>, \<^verbatim>\<open>try_reserve\<close>, \<^verbatim>\<open>close\<close>, \<^verbatim>\<open>is_closed\<close>, \<^verbatim>\<open>len\<close>.\<close>

definition sink_reserve ::
  "('t, 'q) mpsc_env \<Rightarrow> 'q host_tx \<Rightarrow> (chan_closed + nat) \<times> 'q host_tx" where
  "sink_reserve env tx =
    (if \<not> ht_open tx then (Inl ChanClosed, tx)
     else let (r, q) = tx_reserve_owned env (ht_chan tx) in (Inr r, tx\<lparr>ht_chan := q\<rparr>))"

definition sink_try_reserve ::
  "('t, 'q) mpsc_env \<Rightarrow> 'q host_tx \<Rightarrow> (chan_closed + nat option) \<times> 'q host_tx" where
  "sink_try_reserve env tx =
    (if \<not> ht_open tx then (Inl ChanClosed, tx)
     else let (r, q) = tx_try_reserve env (ht_chan tx)
          in (case r of
                TxPermit p \<Rightarrow> Inr (Some p)
              | TxFull \<Rightarrow> Inr None
              | TxClosed \<Rightarrow> Inl ChanClosed, tx\<lparr>ht_chan := q\<rparr>))"

definition sink_close :: "('t, 'q) mpsc_env \<Rightarrow> 'q host_tx \<Rightarrow> 'q host_tx" where
  "sink_close env tx =
    (if ht_open tx then tx\<lparr>ht_open := False, ht_chan := tx_drop_sender env (ht_chan tx)\<rparr> else tx)"

definition sink_is_closed :: "('t, 'q) mpsc_env \<Rightarrow> 'q host_tx \<Rightarrow> bool" where
  "sink_is_closed env tx \<longleftrightarrow> \<not> ht_open tx \<or> tx_is_closed env (ht_chan tx)"

definition sink_len :: "('t, 'q) mpsc_env \<Rightarrow> 'q host_tx \<Rightarrow> nat" where
  "sink_len env tx =
    (if ht_open tx then mpsc_max_capacity env (ht_chan tx) - tx_capacity env (ht_chan tx) else 0)"

text \<open>\<^verbatim>\<open>SinkPermit::send\<close>: convert, then send through the permit (or drop it).\<close>

definition permit_send ::
  "('t, 'q) mpsc_env \<Rightarrow> nat \<Rightarrow> lua_value \<Rightarrow> 'q host_tx \<Rightarrow> (mlua_error + unit) \<times> 'q host_tx" where
  "permit_send env p v tx =
    (case from_lua env v of
       Inl e \<Rightarrow> (Inl e, tx\<lparr>ht_chan := tx_drop_permit env p (ht_chan tx)\<rparr>)
     | Inr t \<Rightarrow> (Inr (), tx\<lparr>ht_chan := tx_send env p t (ht_chan tx)\<rparr>))"

definition set_sink :: "nat \<Rightarrow> 'q host_tx \<Rightarrow> 'q chan_store \<Rightarrow> 'q chan_store" where
  "set_sink ch tx = upd_core ch (cc_sink_update (\<lambda>_. Some tx))"

section \<open>Operations that do not wait, and the buffered waits\<close>

text \<open>\<^verbatim>\<open>poll_recv\<close>.\<close>

definition poll_recv ::
  "('t, 'q) mpsc_env \<Rightarrow> nat \<Rightarrow> waker \<Rightarrow> 'q chan_store \<Rightarrow>
    (mlua_error + lua_value option) poll \<times> 'q chan_store" where
  "poll_recv env ch w s =
    (let c = st_core s ch in
     case cc_buf c of
       v # rest \<Rightarrow>
         (Ready (Inr (Some v)),
          wake_all (cc_send_wakers c)
            (upd_core ch (\<lambda>c. c\<lparr>cc_buf := rest, cc_send_wakers := []\<rparr>) s))
     | [] \<Rightarrow>
         (case cc_source c of
            None \<Rightarrow>
              if cc_closed c then (Ready (Inr None), s)
              else (Pending, upd_core ch (cc_recv_wakers_update (\<lambda>ws. register ws w)) s)
          | Some hr \<Rightarrow>
              let (got, hr') = poll_take_rx env w hr
              in (got, upd_core ch (\<lambda>c. c\<lparr>cc_recv_wakers := register (cc_recv_wakers c) w,
                                          cc_source := Some hr'\<rparr>) s)))"

text \<open>\<^verbatim>\<open>try_recv\<close>.\<close>

definition try_recv ::
  "('t, 'q) mpsc_env \<Rightarrow> nat \<Rightarrow> 'q chan_store \<Rightarrow> (mlua_error + try_recv_result) \<times> 'q chan_store"
where
  "try_recv env ch s =
    (let c = st_core s ch in
     case cc_buf c of
       v # rest \<Rightarrow>
         (Inr (TryValue v),
          wake_all (cc_send_wakers c)
            (upd_core ch (\<lambda>c. c\<lparr>cc_buf := rest, cc_send_wakers := []\<rparr>) s))
     | [] \<Rightarrow>
         (case (if cc_cap c = 0 then take_offer ch None s else (None, s)) of
            (Some (v, wk), s1) \<Rightarrow> (Inr (TryValue v), wake wk s1)
          | (None, s1) \<Rightarrow>
              (case cc_source c of
                 Some hr \<Rightarrow>
                   let (got, hr') = try_take_rx env hr
                   in (got, upd_core ch (cc_source_update (\<lambda>_. Some hr')) s1)
               | None \<Rightarrow> (Inr (if cc_closed c then TryClosed else TryEmpty), s1))))"

text \<open>\<^verbatim>\<open>unrecv\<close>.\<close>

definition unrecv :: "nat \<Rightarrow> lua_value \<Rightarrow> 'q chan_store \<Rightarrow> 'q chan_store" where
  "unrecv ch v s =
    (let (ws, s1) = receiver_wakers ch (upd_core ch (cc_buf_update (\<lambda>b. v # b)) s)
     in wake_all ws s1)"

text \<open>\<^verbatim>\<open>poll_send\<close>; the slot is \<open>None\<close> once the value is pushed.\<close>

definition poll_send ::
  "nat \<Rightarrow> waker \<Rightarrow> lua_value option \<Rightarrow> 'q chan_store \<Rightarrow>
    (chan_closed + unit) poll \<times> lua_value option \<times> 'q chan_store" where
  "poll_send ch w slot s =
    (let c = st_core s ch in
     if cc_closed c then (Ready (Inl ChanClosed), slot, s)
     else if length (cc_buf c) < cc_cap c then
       (Ready (Inr ()), None,
        wake_all (cc_recv_wakers c)
          (upd_core ch (\<lambda>c. c\<lparr>cc_buf := cc_buf c @ (case slot of Some v \<Rightarrow> [v] | None \<Rightarrow> []),
                              cc_recv_wakers := []\<rparr>) s))
     else (Pending, slot, upd_core ch (cc_send_wakers_update (\<lambda>ws. register ws w)) s))"

text \<open>\<^verbatim>\<open>try_send\<close>.\<close>

definition try_send ::
  "('t, 'q) mpsc_env \<Rightarrow> nat \<Rightarrow> lua_value \<Rightarrow> 'q chan_store \<Rightarrow>
    (mlua_error + (chan_closed + bool)) \<times> 'q chan_store" where
  "try_send env ch v s =
    (let c = st_core s ch in
     if cc_closed c then (Inr (Inl ChanClosed), s)
     else case cc_sink c of
       Some tx \<Rightarrow>
         (case sink_try_reserve env tx of
            (Inr (Some p), tx1) \<Rightarrow>
              let (r, tx2) = permit_send env p v tx1
              in (map_sum id (\<lambda>_. Inr True) r, set_sink ch tx2 s)
          | (Inr None, tx1) \<Rightarrow> (Inr (Inr False), set_sink ch tx1 s)
          | (Inl e, tx1) \<Rightarrow> (Inr (Inl e), set_sink ch tx1 s))
     | None \<Rightarrow>
         if cc_cap c = 0 then
           (case fill_waiter ch v None s of
              (Some wk, s1) \<Rightarrow> (Inr (Inr True), wake wk s1)
            | (None, s1) \<Rightarrow> (Inr (Inr False), s1))
         else if cc_cap c \<le> length (cc_buf c) then (Inr (Inr False), s)
         else (Inr (Inr True),
               wake_all (cc_recv_wakers c)
                 (upd_core ch (\<lambda>c. c\<lparr>cc_buf := cc_buf c @ [v], cc_recv_wakers := []\<rparr>) s)))"

text \<open>\<^verbatim>\<open>close\<close>.\<close>

definition chan_close :: "('t, 'q) mpsc_env \<Rightarrow> nat \<Rightarrow> 'q chan_store \<Rightarrow> 'q chan_store" where
  "chan_close env ch s =
    (let c = st_core s ch in
     if cc_closed c then s
     else
       let s1 = upd_core ch (\<lambda>c. c\<lparr>cc_closed := True,
                  cc_source := map_option (\<lambda>hr. hr\<lparr>hr_rx := rx_close env (hr_rx hr)\<rparr>) (cc_source c)\<rparr>) s;
           (ws1, s2) = receiver_wakers ch s1;
           ws2 = cc_send_wakers c;
           ws3 = map (st_cell s) (cc_sink_waiters c);
           ws4 = map (\<lambda>o'. of_waker (st_offer s o')) (cc_offers c);
           s3 = upd_core ch (\<lambda>c. c\<lparr>cc_send_wakers := [], cc_offers := []\<rparr>) s2;
           s4 = fold (\<lambda>o'. upd_offer o' (of_state_update (\<lambda>_. Withdrawn))) (cc_offers c) s3;
           s5 = upd_core ch (cc_sink_update (map_option (sink_close env))) s4
       in wake_all (ws1 @ ws2 @ ws3 @ ws4) s5)"

definition chan_is_closed :: "('t, 'q) mpsc_env \<Rightarrow> 'q chan_store \<Rightarrow> nat \<Rightarrow> bool" where
  "chan_is_closed env s ch \<longleftrightarrow>
    (let c = st_core s ch in
     cc_closed c \<or>
     (case cc_source c of Some hr \<Rightarrow> rx_is_closed env (hr_rx hr) | None \<Rightarrow> False) \<or>
     (case cc_sink c of Some tx \<Rightarrow> sink_is_closed env tx | None \<Rightarrow> False))"

definition chan_len :: "('t, 'q) mpsc_env \<Rightarrow> 'q chan_store \<Rightarrow> nat \<Rightarrow> nat" where
  "chan_len env s ch =
    (let c = st_core s ch in
     length (cc_buf c)
     + (case cc_source c of Some hr \<Rightarrow> rx_len env (hr_rx hr) | None \<Rightarrow> 0)
     + (case cc_sink c of Some tx \<Rightarrow> sink_len env tx | None \<Rightarrow> 0))"

definition chan_cap :: "('t, 'q) mpsc_env \<Rightarrow> 'q chan_store \<Rightarrow> nat \<Rightarrow> nat" where
  "chan_cap env s ch =
    (let c = st_core s ch in
     case cc_source c of
       Some hr \<Rightarrow> mpsc_max_capacity env (hr_rx hr)
     | None \<Rightarrow> (case cc_sink c of Some tx \<Rightarrow> ht_cap tx | None \<Rightarrow> cc_cap c))"

text \<open>\<^verbatim>\<open>push_newest\<close>.\<close>

definition push_newest :: "nat \<Rightarrow> lua_value \<Rightarrow> 'q chan_store \<Rightarrow> bool \<times> 'q chan_store" where
  "push_newest ch v s =
    (let c = st_core s ch in
     if cc_closed c then (False, s)
     else
       let b = (if cc_cap c \<le> length (cc_buf c) then butlast (cc_buf c) else cc_buf c);
           (ws, s1) = receiver_wakers ch (upd_core ch (cc_buf_update (\<lambda>_. b @ [v])) s)
       in (True, wake_all ws s1))"

section \<open>Receiving\<close>

definition receiving_new :: "nat \<Rightarrow> nat option \<Rightarrow> receiving" where
  "receiving_new ch sel = \<lparr>r_chan = ch, r_select = sel, r_waiter = None\<rparr>"

text \<open>\<^verbatim>\<open>Receiving::forget\<close>, \<^verbatim>\<open>Receiving::poll\<close>, \<^verbatim>\<open>Receiving::withdraw\<close>.\<close>

definition forget_waiter ::
  "receiving \<Rightarrow> 'q chan_store \<Rightarrow> receiving \<times> 'q chan_store" where
  "forget_waiter r s =
    (case r_waiter r of
       None \<Rightarrow> (r, s)
     | Some w \<Rightarrow>
         (r\<lparr>r_waiter := None\<rparr>,
          upd_core (r_chan r) (cc_waiters_update (removeAll w)) s))"

definition take_slot ::
  "nat option \<Rightarrow> 'q chan_store \<Rightarrow> lua_value option \<times> 'q chan_store" where
  "take_slot wo s =
    (case wo of
       None \<Rightarrow> (None, s)
     | Some w \<Rightarrow> (wt_slot (st_waiter s w), upd_waiter w (wt_slot_update (\<lambda>_. None)) s))"

definition wait_recv :: "waker \<Rightarrow> receiving \<Rightarrow> 'q chan_store \<Rightarrow> receiving \<times> 'q chan_store" where
  "wait_recv wk r s =
    (case r_waiter r of
       Some w \<Rightarrow>
         (r, if wt_waker (st_waiter s w) = wk then s
             else upd_waiter w (wt_waker_update (\<lambda>_. wk)) s)
     | None \<Rightarrow>
         let w = st_fresh s;
             s1 = s\<lparr>st_waiter := (st_waiter s)(w := \<lparr>wt_slot = None, wt_waker = wk,
                                                    wt_select = r_select r\<rparr>),
                    st_fresh := Suc w\<rparr>
         in (r\<lparr>r_waiter := Some w\<rparr>, upd_core (r_chan r) (cc_waiters_update (\<lambda>ws. ws @ [w])) s1))"

definition receiving_poll ::
  "('t, 'q) mpsc_env \<Rightarrow> waker \<Rightarrow> receiving \<Rightarrow> 'q chan_store \<Rightarrow>
    (mlua_error + lua_value option) poll \<times> receiving \<times> 'q chan_store" where
  "receiving_poll env wk r s =
    (let ch = r_chan r; c = st_core s ch in
     if cc_cap c \<noteq> 0 \<or> cc_source c \<noteq> None then
       let (got, s') = poll_recv env ch wk s in (got, r, s')
     else
       case take_slot (r_waiter r) s of
         (Some v, s1) \<Rightarrow>
           let (r', s') = forget_waiter r s1 in (Ready (Inr (Some v)), r', s')
       | (None, s1) \<Rightarrow>
           (case cc_buf c of
              v # rest \<Rightarrow>
                let (r', s') = forget_waiter r (upd_core ch (cc_buf_update (\<lambda>_. rest)) s1)
                in (Ready (Inr (Some v)), r', s')
            | [] \<Rightarrow>
                (case take_offer ch (r_select r) s1 of
                   (Some (v, w), s2) \<Rightarrow>
                     let (r', s') = forget_waiter r s2
                     in (Ready (Inr (Some v)), r', wake w s')
                 | (None, s2) \<Rightarrow>
                     if cc_closed c then
                       let (r', s') = forget_waiter r s2 in (Ready (Inr None), r', s')
                     else let (r', s') = wait_recv wk r s2 in (Pending, r', s'))))"

definition receiving_withdraw :: "receiving \<Rightarrow> 'q chan_store \<Rightarrow> receiving \<times> 'q chan_store" where
  "receiving_withdraw r s =
    (case r_waiter r of
       None \<Rightarrow> (r, s)
     | Some w \<Rightarrow>
         let r' = r\<lparr>r_waiter := None\<rparr>;
             s1 = upd_core (r_chan r) (cc_waiters_update (removeAll w)) s
         in (case take_slot (Some w) s1 of
               (Some v, s2) \<Rightarrow> (r', unrecv (r_chan r) v s2)
             | (None, s2) \<Rightarrow> (r', s2)))"

definition receiving_drop :: "receiving \<Rightarrow> 'q chan_store \<Rightarrow> 'q chan_store" where
  "receiving_drop r s = snd (receiving_withdraw r s)"

section \<open>Sending\<close>

definition sending_new :: "nat \<Rightarrow> lua_value \<Rightarrow> nat option \<Rightarrow> sending" where
  "sending_new ch v sel =
    \<lparr>s_chan = ch, s_value = Some v, s_select = sel, s_offer = None, s_eager = False,
     s_reserve = None, s_sink_wait = None\<rparr>"

definition set_eager :: "sending \<Rightarrow> sending" where
  "set_eager sd = sd\<lparr>s_eager := True\<rparr>"

text \<open>\<^verbatim>\<open>Sending::withdraw\<close>.\<close>

definition drop_reserve ::
  "('t, 'q) mpsc_env \<Rightarrow> sending \<Rightarrow> 'q chan_store \<Rightarrow> sending \<times> 'q chan_store" where
  "drop_reserve env sd s =
    (sd\<lparr>s_reserve := None\<rparr>,
     (case (s_reserve sd, cc_sink (st_core s (s_chan sd))) of
        (Some rid, Some tx) \<Rightarrow>
          set_sink (s_chan sd) (tx\<lparr>ht_chan := tx_drop_reserve env rid (ht_chan tx)\<rparr>) s
      | _ \<Rightarrow> s))"

definition leave_sink_waiters :: "sending \<Rightarrow> 'q chan_store \<Rightarrow> sending \<times> 'q chan_store" where
  "leave_sink_waiters sd s =
    (case s_sink_wait sd of
       None \<Rightarrow> (sd, s)
     | Some w \<Rightarrow>
         (sd\<lparr>s_sink_wait := None\<rparr>,
          upd_core (s_chan sd) (cc_sink_waiters_update (removeAll w)) s))"

definition withdraw_offer :: "sending \<Rightarrow> 'q chan_store \<Rightarrow> sending \<times> 'q chan_store" where
  "withdraw_offer sd s =
    (case s_offer sd of
       None \<Rightarrow> (sd, s)
     | Some o' \<Rightarrow>
         if of_state (st_offer s o') \<noteq> Open then (sd, s)
         else
           (sd\<lparr>s_offer := None\<rparr>,
            upd_core (s_chan sd) (cc_offers_update (removeAll o'))
              (upd_offer o' (of_state_update (\<lambda>_. Withdrawn)) s)))"

definition sending_withdraw ::
  "('t, 'q) mpsc_env \<Rightarrow> sending \<Rightarrow> 'q chan_store \<Rightarrow> sending \<times> 'q chan_store" where
  "sending_withdraw env sd s =
    (let (sd1, s1) = drop_reserve env sd s;
         (sd2, s2) = leave_sink_waiters sd1 s1
     in withdraw_offer sd2 s2)"

definition sending_drop :: "('t, 'q) mpsc_env \<Rightarrow> sending \<Rightarrow> 'q chan_store \<Rightarrow> 'q chan_store" where
  "sending_drop env sd s = snd (sending_withdraw env sd s)"

text \<open>\<^verbatim>\<open>Sending::wait_sink\<close> and \<^verbatim>\<open>Sending::poll_sink\<close>.\<close>

definition wait_sink :: "waker \<Rightarrow> sending \<Rightarrow> 'q chan_store \<Rightarrow> sending \<times> 'q chan_store" where
  "wait_sink wk sd s =
    (case s_sink_wait sd of
       Some w \<Rightarrow> (sd, if st_cell s w = wk then s else s\<lparr>st_cell := (st_cell s)(w := wk)\<rparr>)
     | None \<Rightarrow>
         let w = st_fresh s;
             s1 = s\<lparr>st_cell := (st_cell s)(w := wk), st_fresh := Suc w\<rparr>
         in (sd\<lparr>s_sink_wait := Some w\<rparr>,
             upd_core (s_chan sd) (cc_sink_waiters_update (\<lambda>ws. ws @ [w])) s1))"

text \<open>The last step of \<^verbatim>\<open>poll_sink\<close>: take the value and send it through the permit.\<close>

definition send_permit ::
  "('t, 'q) mpsc_env \<Rightarrow> nat \<Rightarrow> sending \<Rightarrow> 'q chan_store \<Rightarrow>
    (mlua_error + (chan_closed + unit)) poll \<times> sending \<times> 'q chan_store" where
  "send_permit env p sd s =
    (case cc_sink (st_core s (s_chan sd)) of
       None \<Rightarrow> (Ready (Inr (Inr ())), sd, s)
     | Some tx \<Rightarrow>
         let (r, tx') = permit_send env p (or_nil (s_value sd)) tx
         in (Ready (map_sum id Inr r), sd\<lparr>s_value := None\<rparr>, set_sink (s_chan sd) tx' s))"

definition poll_sink ::
  "('t, 'q) mpsc_env \<Rightarrow> waker \<Rightarrow> sending \<Rightarrow> 'q host_tx \<Rightarrow> 'q chan_store \<Rightarrow>
    (mlua_error + (chan_closed + unit)) poll \<times> sending \<times> 'q chan_store" where
  "poll_sink env wk sd tx s =
    (let ch = s_chan sd in
     if cc_closed (st_core s ch) then
       let (sd', s') = sending_withdraw env sd s in (Ready (Inr (Inl ChanClosed)), sd', s')
     else if s_eager sd then
       (case sink_try_reserve env tx of
          (Inr (Some p), tx1) \<Rightarrow> send_permit env p sd (set_sink ch tx1 s)
        | (Inr None, tx1) \<Rightarrow> (Pending, sd, set_sink ch tx1 s)
        | (Inl e, tx1) \<Rightarrow> (Ready (Inr (Inl e)), sd, set_sink ch tx1 s))
     else
       (case (case s_reserve sd of Some rid \<Rightarrow> (Inr rid, tx) | None \<Rightarrow> sink_reserve env tx) of
          (Inl e, tx1) \<Rightarrow> (Ready (Inr (Inl e)), sd, set_sink ch tx1 s)
        | (Inr rid, tx1) \<Rightarrow>
            let sd1 = sd\<lparr>s_reserve := Some rid\<rparr>;
                (got, q) = tx_poll_reserve env rid wk (ht_chan tx1);
                s1 = set_sink ch (tx1\<lparr>ht_chan := q\<rparr>) s
            in (case got of
                  Pending \<Rightarrow> let (sd2, s2) = wait_sink wk sd1 s1 in (Pending, sd2, s2)
                | Ready po \<Rightarrow>
                    let (sd2, s2) = sending_withdraw env sd1 s1
                    in (case po of
                          None \<Rightarrow> (Ready (Inr (Inl ChanClosed)), sd2, s2)
                        | Some p \<Rightarrow> send_permit env p sd2 s2))))"

text \<open>\<^verbatim>\<open>Sending::poll_local\<close>.\<close>

definition post_offer :: "waker \<Rightarrow> sending \<Rightarrow> 'q chan_store \<Rightarrow> sending \<times> 'q chan_store" where
  "post_offer wk sd s =
    (let ch = s_chan sd;
         o' = st_fresh s;
         s1 = s\<lparr>st_offer := (st_offer s)(o' := \<lparr>of_value = s_value sd, of_state = Open,
                                               of_waker = wk, of_select = s_select sd\<rparr>),
                st_fresh := Suc o'\<rparr>;
         s2 = upd_core ch (cc_offers_update (\<lambda>os. os @ [o'])) s1;
         (ws, s3) = receiver_wakers ch s2
     in (sd\<lparr>s_value := None, s_offer := Some o'\<rparr>, wake_all ws s3))"

definition poll_local ::
  "waker \<Rightarrow> sending \<Rightarrow> 'q chan_store \<Rightarrow>
    (chan_closed + unit) poll \<times> sending \<times> 'q chan_store" where
  "poll_local wk sd s =
    (let ch = s_chan sd; c = st_core s ch in
     if cc_cap c \<noteq> 0 then
       let (r, slot, s') = poll_send ch wk (s_value sd) s in (r, sd\<lparr>s_value := slot\<rparr>, s')
     else case s_offer sd of
       Some o' \<Rightarrow>
         (case of_state (st_offer s o') of
            Taken \<Rightarrow> (Ready (Inr ()), sd, s)
          | Withdrawn \<Rightarrow> (Ready (Inl ChanClosed), sd, s)
          | Open \<Rightarrow>
              (Pending, sd,
               if of_waker (st_offer s o') = wk then s
               else upd_offer o' (of_waker_update (\<lambda>_. wk)) s))
     | None \<Rightarrow>
         if cc_closed c then (Ready (Inl ChanClosed), sd, s)
         else if s_eager sd then
           (case s_value sd of
              None \<Rightarrow> (Pending, sd, s)
            | Some v \<Rightarrow>
                (case fill_waiter ch v (s_select sd) s of
                   (Some w, s1) \<Rightarrow> (Ready (Inr ()), sd\<lparr>s_value := None\<rparr>, wake w s1)
                 | (None, s1) \<Rightarrow> (Pending, sd\<lparr>s_value := Some v\<rparr>, s1)))
         else let (sd', s') = post_offer wk sd s in (Pending, sd', s'))"

text \<open>\<^verbatim>\<open>Sending::poll\<close> and \<^verbatim>\<open>Sending::delivered\<close>.\<close>

definition sending_poll ::
  "('t, 'q) mpsc_env \<Rightarrow> waker \<Rightarrow> sending \<Rightarrow> 'q chan_store \<Rightarrow>
    (mlua_error + (chan_closed + unit)) poll \<times> sending \<times> 'q chan_store" where
  "sending_poll env wk sd s =
    (case cc_sink (st_core s (s_chan sd)) of
       Some tx \<Rightarrow> poll_sink env wk sd tx s
     | None \<Rightarrow> let (r, sd', s') = poll_local wk sd s in (map_poll Inr r, sd', s'))"

definition sending_delivered :: "'q chan_store \<Rightarrow> sending \<Rightarrow> bool" where
  "sending_delivered s sd \<longleftrightarrow>
    (case s_offer sd of None \<Rightarrow> False | Some o' \<Rightarrow> of_state (st_offer s o') = Taken)"

end
