(* ===== verification/Isle_Chan_Inv.thy ===== *)
theory Isle_Chan_Inv
  imports Isle_Chan
begin

text \<open>
  The invariants of the channel store, and their preservation by every operation.

  \<^item> \<open>queues_ok\<close>: the offer and waiter queues hold allocated addresses, without
    repetition, no address is in the queues of two channels, and a queued offer is
    \<open>Open\<close> (the comment on \<^verbatim>\<open>ChanCore::offers\<close>).
  \<^item> \<open>shape_ok\<close>: only a rendezvous channel (\<^verbatim>\<open>cap == 0\<close>, no host source) has waiters,
    only \<^verbatim>\<open>cap == 0\<close> has offers, a closed channel has no offer, and an address that is
    not allocated yet has neither.
  \<^item> \<open>claims_ok\<close>: at most one offer of a select is taken, and then its mark is claimed.
  \<^item> \<open>wakes_ok\<close>: on a channel without a host source no receiver sleeps while a value (or
    the close) is there for it, and no sender sleeps while there is room (or the close).
\<close>

section \<open>Fields under the store primitives\<close>

lemma upd_core_fields [simp]:
  "st_core (upd_core ch f s) = (st_core s)(ch := f (st_core s ch))"
  "st_offer (upd_core ch f s) = st_offer s"
  "st_waiter (upd_core ch f s) = st_waiter s"
  "st_claimed (upd_core ch f s) = st_claimed s"
  "st_cell (upd_core ch f s) = st_cell s"
  "st_fresh (upd_core ch f s) = st_fresh s"
  "st_woken (upd_core ch f s) = st_woken s"
  by (simp_all add: upd_core_def)

lemma upd_offer_fields [simp]:
  "st_core (upd_offer i f s) = st_core s"
  "st_offer (upd_offer i f s) = (st_offer s)(i := f (st_offer s i))"
  "st_waiter (upd_offer i f s) = st_waiter s"
  "st_claimed (upd_offer i f s) = st_claimed s"
  "st_cell (upd_offer i f s) = st_cell s"
  "st_fresh (upd_offer i f s) = st_fresh s"
  "st_woken (upd_offer i f s) = st_woken s"
  by (simp_all add: upd_offer_def)

lemma upd_waiter_fields [simp]:
  "st_core (upd_waiter i f s) = st_core s"
  "st_offer (upd_waiter i f s) = st_offer s"
  "st_waiter (upd_waiter i f s) = (st_waiter s)(i := f (st_waiter s i))"
  "st_claimed (upd_waiter i f s) = st_claimed s"
  "st_cell (upd_waiter i f s) = st_cell s"
  "st_fresh (upd_waiter i f s) = st_fresh s"
  "st_woken (upd_waiter i f s) = st_woken s"
  by (simp_all add: upd_waiter_def)

lemma claim_fields [simp]:
  "st_core (claim m s) = st_core s"
  "st_offer (claim m s) = st_offer s"
  "st_waiter (claim m s) = st_waiter s"
  "st_claimed (claim m s) = (st_claimed s)(m := True)"
  "st_cell (claim m s) = st_cell s"
  "st_fresh (claim m s) = st_fresh s"
  "st_woken (claim m s) = st_woken s"
  by (simp_all add: claim_def)

lemma claim_opt_fields [simp]:
  "st_core (claim_opt mo s) = st_core s"
  "st_offer (claim_opt mo s) = st_offer s"
  "st_waiter (claim_opt mo s) = st_waiter s"
  "st_claimed (claim_opt mo s) = (\<lambda>m. st_claimed s m \<or> mo = Some m)"
  "st_cell (claim_opt mo s) = st_cell s"
  "st_fresh (claim_opt mo s) = st_fresh s"
  "st_woken (claim_opt mo s) = st_woken s"
  by (cases mo; auto simp: fun_eq_iff)+

lemma wake_fields [simp]:
  "st_core (wake w s) = st_core s"
  "st_offer (wake w s) = st_offer s"
  "st_waiter (wake w s) = st_waiter s"
  "st_claimed (wake w s) = st_claimed s"
  "st_cell (wake w s) = st_cell s"
  "st_fresh (wake w s) = st_fresh s"
  "st_woken (wake w s) = st_woken s @ [w]"
  by (simp_all add: wake_def)

lemma wake_all_fields [simp]:
  "st_core (wake_all ws s) = st_core s"
  "st_offer (wake_all ws s) = st_offer s"
  "st_waiter (wake_all ws s) = st_waiter s"
  "st_claimed (wake_all ws s) = st_claimed s"
  "st_cell (wake_all ws s) = st_cell s"
  "st_fresh (wake_all ws s) = st_fresh s"
  "st_woken (wake_all ws s) = st_woken s @ ws"
  by (induction ws arbitrary: s) (simp_all add: wake_all_def)

lemma set_sink_fields [simp]:
  "st_core (set_sink ch tx s) = (st_core s)(ch := (st_core s ch)\<lparr>cc_sink := Some tx\<rparr>)"
  "st_offer (set_sink ch tx s) = st_offer s"
  "st_waiter (set_sink ch tx s) = st_waiter s"
  "st_claimed (set_sink ch tx s) = st_claimed s"
  "st_cell (set_sink ch tx s) = st_cell s"
  "st_fresh (set_sink ch tx s) = st_fresh s"
  "st_woken (set_sink ch tx s) = st_woken s"
  by (simp_all add: set_sink_def)

lemma register_nonempty [simp]: "register ws w \<noteq> []"
  by (auto simp: register_def)

lemma set_register [simp]: "set (register ws w) = insert w (set ws)"
  by (auto simp: register_def)

lemma claimed_iff: "claimed s mo \<longleftrightarrow> (\<exists>m. mo = Some m \<and> st_claimed s m)"
  by (cases mo) auto

lemma same_select_iff: "same_select a b \<longleftrightarrow> (\<exists>m. a = Some m \<and> b = Some m)"
  by (cases "(a, b)" rule: same_select.cases) auto

section \<open>The invariants\<close>

definition core_queues_ok :: "'q chan_store \<Rightarrow> 'q chan_core \<Rightarrow> bool" where
  "core_queues_ok s c \<longleftrightarrow>
    distinct (cc_offers c) \<and> distinct (cc_waiters c) \<and>
    (\<forall>i \<in> set (cc_offers c). i < st_fresh s \<and> of_state (st_offer s i) = Open) \<and>
    (\<forall>i \<in> set (cc_waiters c). i < st_fresh s)"

definition queues_ok :: "'q chan_store \<Rightarrow> bool" where
  "queues_ok s \<longleftrightarrow>
    (\<forall>ch. core_queues_ok s (st_core s ch)) \<and>
    (\<forall>a b i. i \<in> set (cc_offers (st_core s a)) \<and> i \<in> set (cc_offers (st_core s b)) \<longrightarrow> a = b) \<and>
    (\<forall>a b i. i \<in> set (cc_waiters (st_core s a)) \<and> i \<in> set (cc_waiters (st_core s b)) \<longrightarrow> a = b)"

definition shape_ok :: "'q chan_store \<Rightarrow> bool" where
  "shape_ok s \<longleftrightarrow> (\<forall>ch.
    (cc_cap (st_core s ch) \<noteq> 0 \<or> cc_source (st_core s ch) \<noteq> None \<longrightarrow>
      cc_waiters (st_core s ch) = []) \<and>
    (cc_cap (st_core s ch) \<noteq> 0 \<or> cc_closed (st_core s ch) \<longrightarrow> cc_offers (st_core s ch) = []) \<and>
    (st_fresh s \<le> ch \<longrightarrow> cc_waiters (st_core s ch) = [] \<and> cc_offers (st_core s ch) = []))"

definition claims_ok :: "'q chan_store \<Rightarrow> bool" where
  "claims_ok s \<longleftrightarrow>
    (\<forall>i m. of_select (st_offer s i) = Some m \<longrightarrow> m < st_fresh s) \<and>
    (\<forall>i m. of_state (st_offer s i) = Taken \<and> of_select (st_offer s i) = Some m \<longrightarrow>
      st_claimed s m \<and>
      (\<forall>j. of_state (st_offer s j) = Taken \<and> of_select (st_offer s j) = Some m \<longrightarrow> i = j))"

definition core_wakes_ok :: "'q chan_core \<Rightarrow> bool" where
  "core_wakes_ok c \<longleftrightarrow>
    (cc_source c = None \<and> (cc_buf c \<noteq> [] \<or> cc_closed c) \<longrightarrow> cc_recv_wakers c = []) \<and>
    (length (cc_buf c) < cc_cap c \<or> cc_closed c \<longrightarrow> cc_send_wakers c = [])"

definition wakes_ok :: "'q chan_store \<Rightarrow> bool" where
  "wakes_ok s \<longleftrightarrow> (\<forall>ch. core_wakes_ok (st_core s ch))"

definition store_ok :: "'q chan_store \<Rightarrow> bool" where
  "store_ok s \<longleftrightarrow> queues_ok s \<and> shape_ok s \<and> claims_ok s \<and> wakes_ok s"

definition store_init :: "'q chan_store" where
  "store_init =
    \<lparr>st_core = (\<lambda>_. with_cap 0 None),
     st_offer = (\<lambda>_. \<lparr>of_value = None, of_state = Withdrawn, of_waker = NoopWaker,
                      of_select = None\<rparr>),
     st_waiter = (\<lambda>_. \<lparr>wt_slot = None, wt_waker = NoopWaker, wt_select = None\<rparr>),
     st_claimed = (\<lambda>_. False), st_cell = (\<lambda>_. NoopWaker), st_fresh = 0, st_woken = []\<rparr>"

lemma store_ok_init: "store_ok store_init"
  by (simp add: store_ok_def queues_ok_def core_queues_ok_def shape_ok_def claims_ok_def
      wakes_ok_def core_wakes_ok_def store_init_def with_cap_def)

lemma queues_okD:
  assumes "queues_ok s"
  shows "distinct (cc_offers (st_core s ch))" and "distinct (cc_waiters (st_core s ch))"
    and "i \<in> set (cc_offers (st_core s ch)) \<Longrightarrow> i < st_fresh s"
    and "i \<in> set (cc_offers (st_core s ch)) \<Longrightarrow> of_state (st_offer s i) = Open"
    and "i \<in> set (cc_waiters (st_core s ch)) \<Longrightarrow> i < st_fresh s"
    and "i \<in> set (cc_offers (st_core s a)) \<Longrightarrow> i \<in> set (cc_offers (st_core s b)) \<Longrightarrow> a = b"
    and "i \<in> set (cc_waiters (st_core s a)) \<Longrightarrow> i \<in> set (cc_waiters (st_core s b)) \<Longrightarrow> a = b"
  using assms unfolding queues_ok_def core_queues_ok_def by blast+

section \<open>A change of one channel that leaves the queues alone\<close>

text \<open>
  Most operations change the buffer, the wakers and the host ends of one channel only.
  \<open>same_rest\<close> says that a step did no more than that.
\<close>

definition same_rest :: "nat \<Rightarrow> 'q chan_store \<Rightarrow> 'q chan_store \<Rightarrow> bool" where
  "same_rest ch s s' \<longleftrightarrow>
    (\<forall>x. x \<noteq> ch \<longrightarrow> st_core s' x = st_core s x) \<and>
    cc_offers (st_core s' ch) = cc_offers (st_core s ch) \<and>
    cc_waiters (st_core s' ch) = cc_waiters (st_core s ch) \<and>
    cc_cap (st_core s' ch) = cc_cap (st_core s ch) \<and>
    (cc_source (st_core s' ch) = None \<longleftrightarrow> cc_source (st_core s ch) = None) \<and>
    (cc_closed (st_core s' ch) \<longrightarrow> cc_closed (st_core s ch)) \<and>
    st_offer s' = st_offer s \<and> st_claimed s' = st_claimed s \<and> st_fresh s' = st_fresh s"

lemma same_rest_queues [inv_intros]: "same_rest ch s s' \<Longrightarrow> queues_ok s \<Longrightarrow> queues_ok s'"
  unfolding queues_ok_def core_queues_ok_def same_rest_def by metis

lemma same_rest_shape [inv_intros]: "same_rest ch s s' \<Longrightarrow> shape_ok s \<Longrightarrow> shape_ok s'"
  unfolding shape_ok_def same_rest_def by metis

lemma same_rest_claims [inv_intros]: "same_rest ch s s' \<Longrightarrow> claims_ok s \<Longrightarrow> claims_ok s'"
  unfolding claims_ok_def same_rest_def by simp

lemma same_rest_wakes [inv_intros]:
  "same_rest ch s s' \<Longrightarrow> core_wakes_ok (st_core s' ch) \<Longrightarrow> wakes_ok s \<Longrightarrow> wakes_ok s'"
  unfolding wakes_ok_def same_rest_def by metis

lemma same_rest_ok [inv_intros]:
  assumes "same_rest ch s s'" and "core_wakes_ok (st_core s' ch)" and "store_ok s"
  shows "store_ok s'"
  using assms unfolding store_ok_def by (blast intro: inv_intros)

section \<open>Operations on the buffer and the wakers of one channel\<close>

lemma same_rest_refl [simp]: "same_rest ch s s"
  by (simp add: same_rest_def)

lemma same_rest_trans: "same_rest ch s t \<Longrightarrow> same_rest ch t u \<Longrightarrow> same_rest ch s u"
  by (auto simp: same_rest_def)

lemma same_rest_wake [simp]:
  "same_rest ch s (wake w t) = same_rest ch s t"
  "same_rest ch s (wake_all ws t) = same_rest ch s t"
  by (simp_all add: same_rest_def)

lemma same_rest_upd_waiter [simp]: "same_rest ch s (upd_waiter w f t) = same_rest ch s t"
  by (simp add: same_rest_def)

lemma core_wakes_okD: "wakes_ok s \<Longrightarrow> core_wakes_ok (st_core s ch)"
  by (simp add: wakes_ok_def)

lemma receiver_wakers_eq:
  "receiver_wakers ch s =
    (cc_recv_wakers (st_core s ch) @ map (\<lambda>w. wt_waker (st_waiter s w)) (cc_waiters (st_core s ch)),
     upd_core ch (cc_recv_wakers_update (\<lambda>_. [])) s)"
  by (simp add: receiver_wakers_def Let_def)

lemma store_ok_wake [simp]: "store_ok (wake w s) = store_ok s"
  unfolding store_ok_def queues_ok_def core_queues_ok_def shape_ok_def claims_ok_def wakes_ok_def
  by (simp only: wake_fields)

lemma store_ok_wake_all [simp]: "store_ok (wake_all ws s) = store_ok s"
  unfolding store_ok_def queues_ok_def core_queues_ok_def shape_ok_def claims_ok_def wakes_ok_def
  by (simp only: wake_all_fields)

lemma store_okD:
  "store_ok s \<Longrightarrow> queues_ok s" "store_ok s \<Longrightarrow> shape_ok s"
  "store_ok s \<Longrightarrow> claims_ok s" "store_ok s \<Longrightarrow> wakes_ok s"
  "store_ok s \<Longrightarrow> core_wakes_ok (st_core s ch)"
  by (simp_all add: store_ok_def wakes_ok_def)

text \<open>Each of these steps is a \<open>same_rest\<close> step that keeps the channel's wakers right.\<close>

lemma poll_recv_step:
  assumes "wakes_ok s"
  shows "same_rest ch s (snd (poll_recv env ch w s)) \<and>
    core_wakes_ok (st_core (snd (poll_recv env ch w s)) ch)"
  using core_wakes_okD [OF assms, of ch]
  by (auto simp: poll_recv_def Let_def same_rest_def core_wakes_ok_def
      split: list.split option.split prod.split)

lemma poll_send_step:
  assumes "wakes_ok s"
  shows "same_rest ch s (snd (snd (poll_send ch w slot s))) \<and>
    core_wakes_ok (st_core (snd (snd (poll_send ch w slot s))) ch)"
  using core_wakes_okD [OF assms, of ch]
  by (auto simp: poll_send_def Let_def same_rest_def core_wakes_ok_def split: option.split)

lemma unrecv_step:
  assumes "wakes_ok s"
  shows "same_rest ch s (unrecv ch v s) \<and> core_wakes_ok (st_core (unrecv ch v s) ch)"
  using core_wakes_okD [OF assms, of ch]
  by (auto simp: unrecv_def Let_def same_rest_def core_wakes_ok_def receiver_wakers_eq)

lemma push_newest_step:
  assumes "wakes_ok s"
  shows "same_rest ch s (snd (push_newest ch v s)) \<and>
    core_wakes_ok (st_core (snd (push_newest ch v s)) ch)"
  using core_wakes_okD [OF assms, of ch]
  by (auto simp: push_newest_def Let_def same_rest_def core_wakes_ok_def receiver_wakers_eq)

lemma set_sink_step:
  assumes "wakes_ok s"
  shows "same_rest ch s (set_sink ch tx s) \<and> core_wakes_ok (st_core (set_sink ch tx s) ch)"
  using core_wakes_okD [OF assms, of ch]
  by (auto simp: set_sink_def same_rest_def core_wakes_ok_def)

lemma upd_waiter_step:
  assumes "wakes_ok s"
  shows "same_rest ch s (upd_waiter w f s) \<and> core_wakes_ok (st_core (upd_waiter w f s) ch)"
  using core_wakes_okD [OF assms, of ch] by simp

lemma step_ok:
  assumes "wakes_ok s \<Longrightarrow> same_rest ch s s' \<and> core_wakes_ok (st_core s' ch)" and "store_ok s"
  shows "store_ok s'"
  using assms same_rest_ok store_okD(4) by blast

lemma poll_recv_ok [inv_intros]: "store_ok s \<Longrightarrow> store_ok (snd (poll_recv env ch w s))"
  by (rule step_ok [OF poll_recv_step])

lemma poll_send_ok [inv_intros]: "store_ok s \<Longrightarrow> store_ok (snd (snd (poll_send ch w slot s)))"
  by (rule step_ok [OF poll_send_step])

lemma unrecv_ok [inv_intros]: "store_ok s \<Longrightarrow> store_ok (unrecv ch v s)"
  by (rule step_ok [OF unrecv_step])

lemma push_newest_ok [inv_intros]: "store_ok s \<Longrightarrow> store_ok (snd (push_newest ch v s))"
  by (rule step_ok [OF push_newest_step])

lemma set_sink_ok [inv_intros]: "store_ok s \<Longrightarrow> store_ok (set_sink ch tx s)"
  by (rule step_ok [OF set_sink_step])

lemma upd_waiter_ok [inv_intros]: "store_ok s \<Longrightarrow> store_ok (upd_waiter w f s)"
  by (rule step_ok [OF upd_waiter_step [where ch = 0]])

lemma claim_ok [inv_intros]:
  assumes "store_ok s"
  shows "store_ok (claim m s)"
proof -
  have "queues_ok (claim m s) = queues_ok s" "shape_ok (claim m s) = shape_ok s"
    "wakes_ok (claim m s) = wakes_ok s"
    unfolding queues_ok_def core_queues_ok_def shape_ok_def wakes_ok_def by (simp_all only: claim_fields)
  moreover have "claims_ok (claim m s)"
    using store_okD(3) [OF assms] by (simp add: claims_ok_def)
  ultimately show ?thesis using assms by (simp add: store_ok_def)
qed

lemma fill_waiter_ok [inv_intros]: "store_ok s \<Longrightarrow> store_ok (snd (fill_waiter ch v me s))"
  by (auto simp: fill_waiter_def intro: upd_waiter_ok split: option.split)

lemma take_slot_ok [inv_intros]: "store_ok s \<Longrightarrow> store_ok (snd (take_slot wo s))"
  by (auto simp: take_slot_def intro: upd_waiter_ok split: option.split)

section \<open>Operations on the queues\<close>

text \<open>A queue loses addresses, or an address that was in no queue is added to one.\<close>

lemma queues_okI:
  assumes "\<And>ch. core_queues_ok s (st_core s ch)"
    and "\<And>a b i. i \<in> set (cc_offers (st_core s a)) \<Longrightarrow> i \<in> set (cc_offers (st_core s b)) \<Longrightarrow> a = b"
    and "\<And>a b i. i \<in> set (cc_waiters (st_core s a)) \<Longrightarrow> i \<in> set (cc_waiters (st_core s b)) \<Longrightarrow> a = b"
  shows "queues_ok s"
  using assms unfolding queues_ok_def by blast

lemma queues_shrink:
  assumes q: "queues_ok s"
    and off: "\<And>ch. distinct (cc_offers (st_core s' ch)) \<and>
      set (cc_offers (st_core s' ch)) \<subseteq> set (cc_offers (st_core s ch))"
    and wt: "\<And>ch. distinct (cc_waiters (st_core s' ch)) \<and>
      set (cc_waiters (st_core s' ch)) \<subseteq> set (cc_waiters (st_core s ch))"
    and fr: "st_fresh s' = st_fresh s"
    and st: "\<And>ch i. i \<in> set (cc_offers (st_core s' ch)) \<Longrightarrow>
      of_state (st_offer s' i) = of_state (st_offer s i)"
  shows "queues_ok s'"
proof (rule queues_okI)
  show "core_queues_ok s' (st_core s' ch)" for ch
    using off [of ch] wt [of ch] st queues_okD [OF q] fr
    unfolding core_queues_ok_def by (metis subsetD)
  show "a = b" if "i \<in> set (cc_offers (st_core s' a))" "i \<in> set (cc_offers (st_core s' b))" for a b i
    using that off queues_okD(6) [OF q] by blast
  show "a = b" if "i \<in> set (cc_waiters (st_core s' a))" "i \<in> set (cc_waiters (st_core s' b))"
    for a b i
    using that wt queues_okD(7) [OF q] by blast
qed

lemma drop_waiter_ok [inv_intros]:
  assumes ok: "store_ok s"
  shows "store_ok (upd_core ch (cc_waiters_update (removeAll w)) s)"
proof -
  have "queues_ok (upd_core ch (cc_waiters_update (removeAll w)) s)"
    using store_okD(1) [OF ok]
    by (rule queues_shrink) (auto simp: queues_okD [OF store_okD(1) [OF ok]] distinct_removeAll)
  then show ?thesis
    using ok by (auto simp: store_ok_def shape_ok_def claims_ok_def wakes_ok_def core_wakes_ok_def)
qed

lemma forget_waiter_ok [inv_intros]: "store_ok s \<Longrightarrow> store_ok (snd (forget_waiter r s))"
  by (auto simp: forget_waiter_def intro: drop_waiter_ok split: option.split)

text \<open>Changes of one channel's host-sender wakers or buffer only.\<close>

lemma drop_cell_ok [inv_intros]:
  "store_ok s \<Longrightarrow> store_ok (upd_core ch (cc_sink_waiters_update f) s)"
  by (rule step_ok [of s ch]) (auto simp: same_rest_def dest: core_wakes_okD [of _ ch]
      simp: core_wakes_ok_def)

lemma pop_front_ok [inv_intros]:
  assumes "store_ok s" and "cc_cap (st_core s ch) = 0" and "cc_buf (st_core s ch) \<noteq> []"
  shows "store_ok (upd_core ch (cc_buf_update (\<lambda>_. rest)) s)"
  using assms(2,3) store_okD(5) [OF assms(1), of ch]
  by (intro step_ok [OF _ assms(1), of ch]) (auto simp: same_rest_def core_wakes_ok_def)

lemma take_offer_ok [inv_intros]:
  assumes ok: "store_ok s"
  shows "store_ok (snd (take_offer ch me s))"
proof (cases "position (may_take s me) (cc_offers (st_core s ch))")
  case None
  with ok show ?thesis by (simp add: take_offer_def)
next
  case (Some pos)
  let ?os = "cc_offers (st_core s ch)"
  let ?o = "?os ! pos"
  let ?s' = "snd (take_offer ch me s)"
  from position_Some [OF Some] have len: "pos < length ?os" and may: "may_take s me ?o"
    by auto
  have mem: "?o \<in> set ?os" using len by simp
  note q = store_okD(1) [OF ok]
  have rest: "distinct (remove_nth pos ?os)" "set (remove_nth pos ?os) = set ?os - {?o}"
    using remove_nth_distinct [OF queues_okD(1) [OF q] len] by auto
  have fields: "st_core ?s' = (st_core s)(ch := cc_offers_update (remove_nth pos) (st_core s ch))"
    "st_offer ?s' = (st_offer s)(?o := (st_offer s ?o)\<lparr>of_state := Taken, of_value := None\<rparr>)"
    "st_waiter ?s' = st_waiter s" "st_fresh ?s' = st_fresh s"
    "st_claimed ?s' = (\<lambda>m. st_claimed s m \<or> of_select (st_offer s ?o) = Some m)"
    by (simp_all add: take_offer_def Some Let_def)
  have out: "i \<noteq> ?o" if "i \<in> set (cc_offers (st_core ?s' x))" for i x
    using that rest(2) queues_okD(6) [OF q, of ?o x ch] mem by (auto simp: fields split: if_splits)
  have "queues_ok ?s'"
    using q by (rule queues_shrink)
      (use rest queues_okD [OF q] out in \<open>auto simp: fields split: if_splits\<close>)
  moreover have "shape_ok ?s'"
    using store_okD(2) [OF ok] mem unfolding shape_ok_def fields by (auto simp: remove_nth_def)
  moreover have "wakes_ok ?s'"
    using store_okD(4) [OF ok] unfolding wakes_ok_def core_wakes_ok_def fields by auto
  moreover have "\<not> st_claimed s m" if "of_select (st_offer s ?o) = Some m" for m
    using that may by (auto simp: may_take_def claimed_iff)
  then have "claims_ok ?s'"
    using store_okD(3) [OF ok] unfolding claims_ok_def fields by (auto split: if_splits)
  ultimately show ?thesis by (simp add: store_ok_def)
qed

section \<open>Futures that wait, and what other steps leave to them\<close>

text \<open>
  A waiting \<open>receiving\<close> owns its waiter, a waiting \<open>sending\<close> its offer.  \<open>frame W s s'\<close> says
  that a step from \<open>s\<close> to \<open>s'\<close> respects every future other than the one whose waiter is
  \<open>W\<close>: offers never leave a final state, an offer that is still open is still queued, and a
  waiter other than \<open>W\<close> is still queued.
\<close>

definition receiving_ok :: "'q chan_store \<Rightarrow> receiving \<Rightarrow> bool" where
  "receiving_ok s r \<longleftrightarrow>
    r_chan r < st_fresh s \<and> (\<forall>m. r_select r = Some m \<longrightarrow> m < st_fresh s) \<and>
    (\<forall>w. r_waiter r = Some w \<longrightarrow> w < st_fresh s \<and>
      w \<in> set (cc_waiters (st_core s (r_chan r))) \<and> wt_select (st_waiter s w) = r_select r)"

definition sending_ok :: "'q chan_store \<Rightarrow> sending \<Rightarrow> bool" where
  "sending_ok s sd \<longleftrightarrow>
    s_chan sd < st_fresh s \<and> (\<forall>m. s_select sd = Some m \<longrightarrow> m < st_fresh s) \<and>
    (\<forall>i. s_offer sd = Some i \<longrightarrow> i < st_fresh s \<and> of_select (st_offer s i) = s_select sd \<and>
      (of_state (st_offer s i) = Open \<longrightarrow> i \<in> set (cc_offers (st_core s (s_chan sd)))))"

definition frame :: "nat option \<Rightarrow> 'q chan_store \<Rightarrow> 'q chan_store \<Rightarrow> bool" where
  "frame W s s' \<longleftrightarrow>
    st_fresh s \<le> st_fresh s' \<and>
    (\<forall>i < st_fresh s.
      of_select (st_offer s' i) = of_select (st_offer s i) \<and>
      wt_select (st_waiter s' i) = wt_select (st_waiter s i) \<and>
      (st_claimed s i \<longrightarrow> st_claimed s' i) \<and>
      (of_state (st_offer s i) \<noteq> Open \<longrightarrow> of_state (st_offer s' i) = of_state (st_offer s i)) \<and>
      (\<forall>ch. i \<in> set (cc_offers (st_core s ch)) \<and> of_state (st_offer s' i) = Open \<longrightarrow>
        i \<in> set (cc_offers (st_core s' ch))) \<and>
      (\<forall>ch. i \<in> set (cc_waiters (st_core s ch)) \<and> W \<noteq> Some i \<longrightarrow>
        i \<in> set (cc_waiters (st_core s' ch))))"

lemma frame_refl [simp]: "frame W s s"
  by (simp add: frame_def)

lemma frameD:
  assumes "frame W s s'"
  shows "i < st_fresh s \<Longrightarrow> i < st_fresh s'"
    and "i < st_fresh s \<Longrightarrow> of_select (st_offer s' i) = of_select (st_offer s i)"
    and "i < st_fresh s \<Longrightarrow> wt_select (st_waiter s' i) = wt_select (st_waiter s i)"
    and "i < st_fresh s \<Longrightarrow> st_claimed s i \<Longrightarrow> st_claimed s' i"
    and "i < st_fresh s \<Longrightarrow> of_state (st_offer s i) \<noteq> Open \<Longrightarrow>
      of_state (st_offer s' i) = of_state (st_offer s i)"
    and "i < st_fresh s \<Longrightarrow> i \<in> set (cc_offers (st_core s ch)) \<Longrightarrow>
      of_state (st_offer s' i) = Open \<Longrightarrow> i \<in> set (cc_offers (st_core s' ch))"
    and "i < st_fresh s \<Longrightarrow> i \<in> set (cc_waiters (st_core s ch)) \<Longrightarrow> W \<noteq> Some i \<Longrightarrow>
      i \<in> set (cc_waiters (st_core s' ch))"
    and "st_fresh s \<le> st_fresh s'"
  using assms unfolding frame_def by simp_all

lemma frame_open_back:
  "frame W s s' \<Longrightarrow> i < st_fresh s \<Longrightarrow> of_state (st_offer s' i) = Open \<Longrightarrow>
    of_state (st_offer s i) = Open"
  using frameD(5) by fastforce

lemma frame_trans:
  assumes st: "frame W s t" and tu: "frame W t u"
  shows "frame W s u"
  unfolding frame_def
proof (intro conjI allI impI)
  show "st_fresh s \<le> st_fresh u"
    using frameD(8) [OF st] frameD(8) [OF tu] by simp
  fix i assume i: "i < st_fresh s"
  note i' = frameD(1) [OF st i]
  show "of_select (st_offer u i) = of_select (st_offer s i)"
    "wt_select (st_waiter u i) = wt_select (st_waiter s i)"
    using frameD(2,3) [OF st i] frameD(2,3) [OF tu i'] by simp_all
  show "st_claimed u i" if "st_claimed s i"
    using frameD(4) [OF tu i'] frameD(4) [OF st i that] .
  show "of_state (st_offer u i) = of_state (st_offer s i)" if "of_state (st_offer s i) \<noteq> Open"
    using frameD(5) [OF st i that] frameD(5) [OF tu i'] that by simp
  show "i \<in> set (cc_offers (st_core u ch))"
    if "i \<in> set (cc_offers (st_core s ch)) \<and> of_state (st_offer u i) = Open" for ch
    using that frame_open_back [OF tu i'] frameD(6) [OF st i] frameD(6) [OF tu i'] by simp
  show "i \<in> set (cc_waiters (st_core u ch))"
    if "i \<in> set (cc_waiters (st_core s ch)) \<and> W \<noteq> Some i" for ch
    using that frameD(7) [OF st i] frameD(7) [OF tu i'] by simp
qed

lemma frame_weaken: "frame None s s' \<Longrightarrow> frame W s s'"
  by (simp add: frame_def)

lemma frame_sending:
  assumes f: "frame W s s'" and ok: "sending_ok s sd"
  shows "sending_ok s' sd"
  unfolding sending_ok_def
proof (intro conjI allI impI)
  show "s_chan sd < st_fresh s'" using ok frameD(8) [OF f] by (auto simp: sending_ok_def)
  show "m < st_fresh s'" if "s_select sd = Some m" for m
    using that ok frameD(8) [OF f] by (auto simp: sending_ok_def)
  fix i assume "s_offer sd = Some i"
  with ok have i: "i < st_fresh s" "of_select (st_offer s i) = s_select sd"
    "of_state (st_offer s i) = Open \<Longrightarrow> i \<in> set (cc_offers (st_core s (s_chan sd)))"
    by (auto simp: sending_ok_def)
  show "i < st_fresh s'" by (rule frameD(1) [OF f i(1)])
  show "of_select (st_offer s' i) = s_select sd" using frameD(2) [OF f i(1)] i(2) by simp
  show "i \<in> set (cc_offers (st_core s' (s_chan sd)))" if "of_state (st_offer s' i) = Open"
    using frameD(6) [OF f i(1) i(3)] frame_open_back [OF f i(1)] that by blast
qed

lemma frame_receiving:
  assumes f: "frame W s s'" and ok: "receiving_ok s r" and w: "r_waiter r = None \<or> r_waiter r \<noteq> W"
  shows "receiving_ok s' r"
  unfolding receiving_ok_def
proof (intro conjI allI impI)
  show "r_chan r < st_fresh s'" using ok frameD(8) [OF f] by (auto simp: receiving_ok_def)
  show "m < st_fresh s'" if "r_select r = Some m" for m
    using that ok frameD(8) [OF f] by (auto simp: receiving_ok_def)
  fix i assume i: "r_waiter r = Some i"
  with ok have i': "i < st_fresh s" "wt_select (st_waiter s i) = r_select r"
    "i \<in> set (cc_waiters (st_core s (r_chan r)))"
    by (auto simp: receiving_ok_def)
  show "i < st_fresh s'" by (rule frameD(1) [OF f i'(1)])
  show "wt_select (st_waiter s' i) = r_select r" using frameD(3) [OF f i'(1)] i'(2) by simp
  show "i \<in> set (cc_waiters (st_core s' (r_chan r)))"
    using frameD(7) [OF f i'(1,3)] w i by auto
qed

text \<open>A \<open>same_rest\<close> step that keeps the waiters' selects is a frame step.\<close>

lemma same_rest_frame:
  "same_rest ch s s' \<Longrightarrow> (\<And>i. i < st_fresh s \<Longrightarrow> wt_select (st_waiter s' i) = wt_select (st_waiter s i)) \<Longrightarrow>
    frame W s s'"
  unfolding frame_def
proof (intro conjI allI impI, goal_cases)
  case (6 i x)
  then show ?case by (cases "x = ch") (simp_all add: same_rest_def)
next
  case (7 i x)
  then show ?case by (cases "x = ch") (simp_all add: same_rest_def)
qed (simp_all add: same_rest_def)

lemma frame_cong:
  "st_fresh t' = st_fresh t \<Longrightarrow> st_claimed t' = st_claimed t \<Longrightarrow>
    (\<And>x. of_state (st_offer t' x) = of_state (st_offer t x)) \<Longrightarrow>
    (\<And>x. of_select (st_offer t' x) = of_select (st_offer t x)) \<Longrightarrow>
    (\<And>x. wt_select (st_waiter t' x) = wt_select (st_waiter t x)) \<Longrightarrow>
    (\<And>x. cc_offers (st_core t' x) = cc_offers (st_core t x)) \<Longrightarrow>
    (\<And>x. cc_waiters (st_core t' x) = cc_waiters (st_core t x)) \<Longrightarrow>
    frame W s t' = frame W s t"
  by (simp add: frame_def)

lemma frame_fields [simp]:
  "frame W s (wake w t) = frame W s t"
  "frame W s (wake_all ws t) = frame W s t"
  "frame W s (upd_core ch (cc_buf_update f) t) = frame W s t"
  "frame W s (upd_core ch (cc_recv_wakers_update f2) t) = frame W s t"
  "frame W s (upd_core ch (cc_send_wakers_update f2) t) = frame W s t"
  "frame W s (upd_core ch (cc_source_update f3) t) = frame W s t"
  "frame W s (upd_core ch (cc_sink_update f4) t) = frame W s t"
  "frame W s (upd_core ch (cc_sink_waiters_update f5) t) = frame W s t"
  "frame W s (set_sink ch tx t) = frame W s t"
  by (rule frame_cong; simp)+

lemma frame_upd_slot [simp]:
  "frame W s (upd_waiter w (wt_slot_update f) t) = frame W s t"
  "frame W s (upd_waiter w (wt_waker_update f2) t) = frame W s t"
  "frame W s (upd_offer i (of_waker_update f3) t) = frame W s t"
  "frame W s (upd_offer i (of_value_update f4) t) = frame W s t"
  by (rule frame_cong; simp)+

lemma frame_claim: "frame W s t \<Longrightarrow> frame W s (claim m t)"
  by (simp add: frame_def)

lemma frame_take_offer:
  assumes ok: "store_ok s"
  shows "frame W s (snd (take_offer ch me s))"
proof (cases "position (may_take s me) (cc_offers (st_core s ch))")
  case None
  then show ?thesis by (simp add: take_offer_def)
next
  case (Some pos)
  from position_Some [OF Some]
  have len: "pos < length (cc_offers (st_core s ch))"
    and op: "of_state (st_offer s (cc_offers (st_core s ch) ! pos)) = Open"
    by (auto simp: may_take_def)
  show ?thesis
    using op remove_nth_distinct(2) [OF queues_okD(1) [OF store_okD(1) [OF ok]] len]
    by (simp add: take_offer_def Some Let_def frame_def)
qed

lemma frame_fill_waiter [simp]: "frame W s (snd (fill_waiter ch v me s))"
  by (simp add: fill_waiter_def split: option.split)

lemma frame_take_slot [simp]: "frame W s (snd (take_slot wo s))"
  by (simp add: take_slot_def split: option.split)

lemma frame_forget [simp]: "frame (r_waiter r) s (snd (forget_waiter r s))"
  by (simp add: forget_waiter_def frame_def split: option.split)

lemma withdraw_offer_ok [inv_intros]:
  assumes ok: "store_ok s" and sd: "sending_ok s sd"
  shows "store_ok (snd (withdraw_offer sd s))" and "frame W s (snd (withdraw_offer sd s))"
proof -
  have "store_ok (snd (withdraw_offer sd s)) \<and> frame W s (snd (withdraw_offer sd s))"
  proof (cases "\<exists>i. s_offer sd = Some i \<and> of_state (st_offer s i) = Open")
    case False
    with ok show ?thesis by (auto simp: withdraw_offer_def split: option.split)
  next
    case True
    then obtain i where i: "s_offer sd = Some i" "of_state (st_offer s i) = Open" by blast
    let ?s' = "upd_core (s_chan sd) (cc_offers_update (removeAll i))
      (upd_offer i (of_state_update (\<lambda>_. Withdrawn)) s)"
    have mem: "i \<in> set (cc_offers (st_core s (s_chan sd)))"
      using sd i by (auto simp: sending_ok_def)
    note q = store_okD(1) [OF ok]
    have out: "j \<noteq> i" if "j \<in> set (cc_offers (st_core ?s' x))" for j x
      using that mem queues_okD(6) [OF q, of i x "s_chan sd"] by (auto split: if_splits)
    have "queues_ok ?s'"
      using q by (rule queues_shrink)
        (use queues_okD [OF q] out in \<open>auto simp: distinct_removeAll split: if_splits\<close>)
    then have "store_ok ?s'"
      using ok by (auto simp: store_ok_def shape_ok_def claims_ok_def wakes_ok_def core_wakes_ok_def)
    moreover have "frame W s ?s'"
      using i(2) by (simp add: frame_def)
    ultimately show ?thesis using i by (simp add: withdraw_offer_def)
  qed
  then show "store_ok (snd (withdraw_offer sd s))" and "frame W s (snd (withdraw_offer sd s))"
    by simp_all
qed

end
