(* ===== verification/Isle_Chan_Steps.thy ===== *)
theory Isle_Chan_Steps
  imports Isle_Chan_Inv
begin

text \<open>
  The composite operations of \<^verbatim>\<open>src/chan.rs\<close>: each keeps \<open>store_ok\<close>, keeps its own future
  well formed, and is a \<open>frame\<close> step for every other one.
\<close>

section \<open>Allocation\<close>

text \<open>An address that was in no queue is added to the queues of one channel.\<close>

lemma queues_grow:
  assumes q: "queues_ok s"
    and fr: "st_fresh s' = Suc (st_fresh s)"
    and off: "\<And>x. cc_offers (st_core s' x) = cc_offers (st_core s x) @ (if x = ch \<and> P then [st_fresh s] else [])"
    and wt: "\<And>x. cc_waiters (st_core s' x) = cc_waiters (st_core s x) @ (if x = ch \<and> Q then [st_fresh s] else [])"
    and st: "\<And>i. i < st_fresh s \<Longrightarrow> of_state (st_offer s' i) = of_state (st_offer s i)"
    and new: "P \<Longrightarrow> of_state (st_offer s' (st_fresh s)) = Open"
  shows "queues_ok s'"
proof (rule queues_okI)
  note d = queues_okD [OF q]
  have fresh: "st_fresh s \<notin> set (cc_offers (st_core s x))" "st_fresh s \<notin> set (cc_waiters (st_core s x))" for x
    using d(3,5) by blast+
  show "core_queues_ok s' (st_core s' x)" for x
    using d(1,2) [of x] fresh [of x] new st d(3,4,5) [of _ x]
    unfolding core_queues_ok_def off wt fr by (auto simp: less_Suc_eq)
  show "a = b" if "i \<in> set (cc_offers (st_core s' a))" "i \<in> set (cc_offers (st_core s' b))" for a b i
    using that fresh d(6) [of i a b] by (auto simp: off split: if_splits)
  show "a = b" if "i \<in> set (cc_waiters (st_core s' a))" "i \<in> set (cc_waiters (st_core s' b))"
    for a b i
    using that fresh d(7) [of i a b] by (auto simp: wt split: if_splits)
qed

lemma wait_recv_ok:
  assumes ok: "store_ok s" and r: "receiving_ok s r"
    and ch: "cc_cap (st_core s (r_chan r)) = 0" "cc_source (st_core s (r_chan r)) = None"
  shows "store_ok (snd (wait_recv wk r s))" and "receiving_ok (snd (wait_recv wk r s)) (fst (wait_recv wk r s))"
    and "frame W s (snd (wait_recv wk r s))"
proof -
  have "store_ok (snd (wait_recv wk r s)) \<and> receiving_ok (snd (wait_recv wk r s)) (fst (wait_recv wk r s)) \<and>
    frame W s (snd (wait_recv wk r s))"
  proof (cases "r_waiter r")
    case (Some w)
    then show ?thesis
      using ok r by (auto simp: wait_recv_def receiving_ok_def intro: upd_waiter_ok)
  next
    case None
    let ?s' = "snd (wait_recv wk r s)"
    have q: "queues_ok ?s'"
      using store_okD(1) [OF ok]
      by (rule queues_grow [where P = False and Q = True and ch = "r_chan r"])
        (simp_all add: wait_recv_def None Let_def)
    have "r_chan r < st_fresh s" using r by (simp add: receiving_ok_def)
    then have "shape_ok ?s' \<and> claims_ok ?s' \<and> wakes_ok ?s'"
      using ok ch
      by (auto simp: store_ok_def shape_ok_def claims_ok_def wakes_ok_def core_wakes_ok_def
          wait_recv_def None Let_def intro: less_SucI)
    with q have "store_ok ?s'" by (simp add: store_ok_def)
    moreover have "receiving_ok ?s' (fst (wait_recv wk r s))"
      using r by (auto simp: receiving_ok_def wait_recv_def None Let_def intro: less_SucI)
    moreover have "frame W s ?s'"
      by (auto simp: frame_def wait_recv_def None Let_def)
    ultimately show ?thesis by blast
  qed
  then show "store_ok (snd (wait_recv wk r s))"
    "receiving_ok (snd (wait_recv wk r s)) (fst (wait_recv wk r s))" "frame W s (snd (wait_recv wk r s))"
    by simp_all
qed

lemma post_offer_ok:
  assumes ok: "store_ok s" and sd: "sending_ok s sd"
    and ch: "cc_cap (st_core s (s_chan sd)) = 0" "\<not> cc_closed (st_core s (s_chan sd))"
  shows "store_ok (snd (post_offer wk sd s)) \<and> sending_ok (snd (post_offer wk sd s)) (fst (post_offer wk sd s)) \<and>
    frame W s (snd (post_offer wk sd s))"
proof -
  let ?s' = "snd (post_offer wk sd s)"
  have q: "queues_ok ?s'"
    using store_okD(1) [OF ok]
    by (rule queues_grow [where P = True and Q = False and ch = "s_chan sd"])
      (simp_all add: post_offer_def receiver_wakers_eq Let_def)
  have "s_chan sd < st_fresh s" using sd by (simp add: sending_ok_def)
  then have "shape_ok ?s' \<and> wakes_ok ?s'"
    using ok ch
    by (auto simp: store_ok_def shape_ok_def wakes_ok_def core_wakes_ok_def
        post_offer_def receiver_wakers_eq Let_def)
  moreover have "claims_ok ?s'"
    using store_okD(3) [OF ok] sd
    by (auto simp: claims_ok_def sending_ok_def post_offer_def receiver_wakers_eq Let_def
        intro: less_SucI split: if_splits)
  moreover have "sending_ok ?s' (fst (post_offer wk sd s))"
    using sd by (auto simp: sending_ok_def post_offer_def receiver_wakers_eq Let_def intro: less_SucI)
  moreover have "frame W s ?s'"
    by (auto simp: frame_def post_offer_def receiver_wakers_eq Let_def)
  ultimately show ?thesis using q by (simp add: store_ok_def)
qed

lemma mark_new_ok [inv_intros]:
  assumes "store_ok s"
  shows "store_ok (snd (mark_new s))" and "frame W s (snd (mark_new s))"
proof -
  have "queues_ok (snd (mark_new s))"
    using store_okD(1) [OF assms]
    by (rule queues_grow [where P = False and Q = False]) (simp_all add: mark_new_def)
  moreover have "claims_ok (snd (mark_new s))"
    using store_okD(3) [OF assms] by (auto simp: claims_ok_def mark_new_def intro: less_SucI)
  ultimately show "store_ok (snd (mark_new s))"
    using assms by (auto simp: store_ok_def shape_ok_def wakes_ok_def mark_new_def)
  show "frame W s (snd (mark_new s))" by (auto simp: frame_def mark_new_def)
qed

section \<open>Receiving\<close>

text \<open>What a step of a receive future promises.\<close>

definition recv_step :: "receiving \<Rightarrow> 'q chan_store \<Rightarrow> receiving \<Rightarrow> 'q chan_store \<Rightarrow> bool" where
  "recv_step r s r' s' \<longleftrightarrow>
    store_ok s' \<and> receiving_ok s' r' \<and> frame (r_waiter r) s s' \<and>
    r_chan r' = r_chan r \<and> r_select r' = r_select r \<and>
    (\<forall>w. r_waiter r' = Some w \<longrightarrow> r_waiter r = Some w \<or> st_fresh s \<le> w)"

lemma forget_step:
  assumes "store_ok t" and "receiving_ok t r" and "frame (r_waiter r) s t"
  shows "recv_step r s (fst (forget_waiter r t)) (snd (forget_waiter r t))"
proof -
  have "frame (r_waiter r) s (snd (forget_waiter r t))"
    using assms(3) frame_forget by (rule frame_trans)
  then show ?thesis
    using assms forget_waiter_ok [OF assms(1), of r]
    by (auto simp: recv_step_def receiving_ok_def forget_waiter_def split: option.splits)
qed

lemma receiving_ok_frame_None: "frame None s s' \<Longrightarrow> receiving_ok s r \<Longrightarrow> receiving_ok s' r"
  by (rule frame_receiving) auto

lemma wait_recv_step:
  assumes "store_ok t" and "receiving_ok t r" and "frame None s t"
    and "cc_cap (st_core t (r_chan r)) = 0" "cc_source (st_core t (r_chan r)) = None"
  shows "recv_step r s (fst (wait_recv wk r t)) (snd (wait_recv wk r t))"
proof -
  have "frame (r_waiter r) s (snd (wait_recv wk r t))"
    using frame_weaken [OF frame_trans [OF assms(3) wait_recv_ok(3) [OF assms(1,2,4,5)]]] .
  moreover have "st_fresh s \<le> st_fresh t" by (rule frameD(8) [OF assms(3)])
  ultimately show ?thesis
    using wait_recv_ok [OF assms(1,2,4,5), where wk = wk]
    by (auto simp: recv_step_def wait_recv_def Let_def split: option.splits)
qed

lemma recv_step_wake [simp]: "recv_step r s r' (wake w s') = recv_step r s r' s'"
  by (simp add: recv_step_def receiving_ok_def)

lemma poll_recv_frame: "wakes_ok s \<Longrightarrow> frame W s (snd (poll_recv env ch w s))"
  by (rule same_rest_frame [OF conjunct1 [OF poll_recv_step]])
    (auto simp: poll_recv_def Let_def split: list.split option.split prod.split)

lemma take_offer_core:
  "cc_cap (st_core (snd (take_offer ch me s)) x) = cc_cap (st_core s x)"
  "cc_source (st_core (snd (take_offer ch me s)) x) = cc_source (st_core s x)"
  "cc_closed (st_core (snd (take_offer ch me s)) x) = cc_closed (st_core s x)"
  "cc_buf (st_core (snd (take_offer ch me s)) x) = cc_buf (st_core s x)"
  by (simp_all add: take_offer_def Let_def split: option.split)

lemma take_slot_core [simp]: "st_core (snd (take_slot wo s)) = st_core s"
  by (simp add: take_slot_def split: option.split)

lemma receiving_poll_step:
  assumes ok: "store_ok s" and r: "receiving_ok s r"
    and eq: "receiving_poll env wk r s = (got, r', s')"
  shows "recv_step r s r' s'"
proof (cases "cc_cap (st_core s (r_chan r)) \<noteq> 0 \<or> cc_source (st_core s (r_chan r)) \<noteq> None")
  case True
  then have "r' = r" and s': "s' = snd (poll_recv env (r_chan r) wk s)"
    using eq by (auto simp: receiving_poll_def Let_def split: prod.splits)
  moreover have f: "frame None s s'"
    unfolding s' by (rule poll_recv_frame [OF store_okD(4) [OF ok]])
  ultimately show ?thesis
    using poll_recv_ok [OF ok] receiving_ok_frame_None [OF f r] frame_weaken [OF f]
    by (auto simp: recv_step_def)
next
  case False
  let ?ch = "r_chan r"
  obtain slot s1 where sl: "take_slot (r_waiter r) s = (slot, s1)" by fastforce
  have s1: "store_ok s1" "frame None s s1" "st_core s1 = st_core s"
    using take_slot_ok [OF ok, of "r_waiter r"] frame_take_slot [of None s "r_waiter r"]
      take_slot_core [of "r_waiter r" s] by (simp_all add: sl)
  have r1: "receiving_ok s1 r" by (rule receiving_ok_frame_None [OF s1(2) r])
  obtain got2 s2 where to: "take_offer ?ch (r_select r) s1 = (got2, s2)" by fastforce
  have s2: "store_ok s2" "frame None s s2" "cc_cap (st_core s2 ?ch) = 0" "cc_source (st_core s2 ?ch) = None"
    using take_offer_ok [OF s1(1), of ?ch "r_select r"]
      frame_trans [OF s1(2) frame_take_offer [OF s1(1), of None ?ch "r_select r"]]
      take_offer_core [of ?ch "r_select r" s1 ?ch] False by (simp_all add: to s1(3))
  have r2: "receiving_ok s2 r" by (rule receiving_ok_frame_None [OF s2(2) r])
  note fg = forget_step [OF s1(1) r1 frame_weaken [OF s1(2)]]
    forget_step [OF s2(1) r2 frame_weaken [OF s2(2)]]
    wait_recv_step [OF s2(1) r2 s2(2,3,4), where wk = wk]
  have pop: "recv_step r s (fst (forget_waiter r t)) (snd (forget_waiter r t))"
    if "cc_buf (st_core s ?ch) = v # rest" "t = upd_core ?ch (cc_buf_update (\<lambda>_. rest)) s1" for t v rest
  proof (rule forget_step)
    show "store_ok t"
      unfolding that(2) by (rule pop_front_ok [OF s1(1)]) (use False that s1(3) in simp_all)
    show "frame (r_waiter r) s t" unfolding that(2) using frame_weaken [OF s1(2)] by simp
    show "receiving_ok t r"
      by (rule receiving_ok_frame_None [OF _ r1]) (simp add: that(2))
  qed
  show ?thesis
    using eq False fg pop
    by (auto simp: receiving_poll_def Let_def sl to split: option.splits list.splits prod.splits if_splits)
qed

lemma receiving_withdraw_step:
  assumes ok: "store_ok s" and r: "receiving_ok s r" and eq: "receiving_withdraw r s = (r', s')"
  shows "recv_step r s r' s'" and "r_waiter r' = None"
proof -
  have "recv_step r s r' s' \<and> r_waiter r' = None"
  proof (cases "r_waiter r")
    case None
    with ok r eq show ?thesis by (auto simp: receiving_withdraw_def recv_step_def)
  next
    case (Some w)
    let ?s1 = "upd_core (r_chan r) (cc_waiters_update (removeAll w)) s"
    obtain slot s2 where sl: "take_slot (Some w) ?s1 = (slot, s2)" by fastforce
    have s2: "store_ok s2"
      using take_slot_ok [OF drop_waiter_ok [OF ok, of "r_chan r" w], of "Some w"] by (simp add: sl)
    have f: "frame (r_waiter r) s s2"
      using frame_trans [OF _ frame_take_slot, of _ s ?s1 "Some w"] frame_forget [of r s]
      by (simp add: forget_waiter_def Some sl)
    have s': "s' = (case slot of Some v \<Rightarrow> unrecv (r_chan r) v s2 | None \<Rightarrow> s2)"
      and r': "r' = r\<lparr>r_waiter := None\<rparr>"
      using eq by (auto simp: receiving_withdraw_def Some Let_def sl split: option.splits)
    have "frame None s2 (unrecv (r_chan r) v s2)" for v
      by (rule same_rest_frame [OF conjunct1 [OF unrecv_step [OF store_okD(4) [OF s2]]]])
        (simp add: unrecv_def receiver_wakers_eq Let_def)
    then have f': "frame (r_waiter r) s s'"
      using f frame_trans [OF f frame_weaken] by (auto simp: s' split: option.split)
    have "store_ok s'" using s2 unrecv_ok [OF s2] by (auto simp: s' split: option.split)
    moreover have "receiving_ok s' r'"
      using r frameD(8) [OF f'] by (auto simp: receiving_ok_def r')
    ultimately show ?thesis using f' by (auto simp: recv_step_def r')
  qed
  then show "recv_step r s r' s'" and "r_waiter r' = None" by simp_all
qed

lemma try_recv_step:
  assumes ok: "store_ok s"
  shows "store_ok (snd (try_recv env ch s)) \<and> frame W s (snd (try_recv env ch s))"
proof (cases "cc_buf (st_core s ch) = [] \<and> cc_cap (st_core s ch) = 0")
  case True
  let ?t = "snd (take_offer ch None s)"
  have t: "store_ok ?t" "frame W s ?t" by (rule take_offer_ok [OF ok], rule frame_take_offer [OF ok])
  have "store_ok (upd_core ch (cc_source_update (\<lambda>_. Some h)) ?t)"
    if "cc_source (st_core s ch) \<noteq> None" for h
    using that take_offer_core(2) [of ch None s ch]
    by (intro step_ok [OF _ t(1), of ch])
      (use store_okD(5) [OF t(1), of ch] in \<open>auto simp: same_rest_def core_wakes_ok_def\<close>)
  with t True show ?thesis
    by (auto simp: try_recv_def Let_def split: list.splits option.splits prod.splits)
next
  case False
  let ?s' = "snd (try_recv env ch s)"
  have "same_rest ch s ?s' \<and> core_wakes_ok (st_core ?s' ch) \<and> st_waiter ?s' = st_waiter s"
  proof (cases "cc_buf (st_core s ch)")
    case Nil
    with False store_okD(5) [OF ok, of ch] show ?thesis
      by (cases "cc_source (st_core s ch)")
        (auto simp: try_recv_def Let_def same_rest_def core_wakes_ok_def split_beta)
  next
    case (Cons v rest)
    with store_okD(5) [OF ok, of ch] show ?thesis
      by (simp add: try_recv_def Let_def same_rest_def core_wakes_ok_def)
  qed
  then have st: "same_rest ch s ?s'" and wk: "core_wakes_ok (st_core ?s' ch)"
    and wt: "st_waiter ?s' = st_waiter s"
    by blast+
  have "store_ok ?s'" by (rule same_rest_ok [OF st wk ok])
  moreover have "frame W s ?s'" by (rule same_rest_frame [OF st]) (simp only: wt)
  ultimately show ?thesis ..
qed

section \<open>Sending\<close>

definition send_step :: "sending \<Rightarrow> 'q chan_store \<Rightarrow> sending \<Rightarrow> 'q chan_store \<Rightarrow> bool" where
  "send_step sd s sd' s' \<longleftrightarrow>
    store_ok s' \<and> sending_ok s' sd' \<and> frame None s s' \<and>
    s_chan sd' = s_chan sd \<and> s_select sd' = s_select sd \<and>
    (\<forall>i. s_offer sd' = Some i \<longrightarrow> s_offer sd = Some i \<or> st_fresh s \<le> i)"

lemma send_step_refl: "store_ok s \<Longrightarrow> sending_ok s sd \<Longrightarrow> send_step sd s sd s"
  by (simp add: send_step_def)

lemma send_step_trans:
  assumes "send_step sd s sd1 s1" and "send_step sd1 s1 sd2 s2"
  shows "send_step sd s sd2 s2"
  using assms frame_trans [of None s s1 s2] frameD(8) [of None s s1]
  unfolding send_step_def by (metis order_trans)

text \<open>A step of the store that is a frame step, with a change of the future's own slots.\<close>

lemma send_step_frame:
  assumes "store_ok s'" and "frame None s s'" and "sending_ok s sd"
    and "s_chan sd' = s_chan sd" "s_select sd' = s_select sd" "s_offer sd' = s_offer sd"
  shows "send_step sd s sd' s'"
  using assms frame_sending [OF assms(2,3)] by (simp add: send_step_def sending_ok_def)

lemma drop_reserve_step:
  "store_ok s \<Longrightarrow> sending_ok s sd \<Longrightarrow>
    send_step sd s (fst (drop_reserve env sd s)) (snd (drop_reserve env sd s))"
  by (rule send_step_frame) (auto simp: drop_reserve_def intro: set_sink_ok split: option.split)

lemma leave_sink_waiters_step:
  "store_ok s \<Longrightarrow> sending_ok s sd \<Longrightarrow>
    send_step sd s (fst (leave_sink_waiters sd s)) (snd (leave_sink_waiters sd s))"
  by (rule send_step_frame) (auto simp: leave_sink_waiters_def intro: drop_cell_ok split: option.split)

lemma withdraw_offer_step:
  assumes "store_ok s" and "sending_ok s sd"
  shows "send_step sd s (fst (withdraw_offer sd s)) (snd (withdraw_offer sd s))"
  using withdraw_offer_ok [OF assms] frame_sending [OF withdraw_offer_ok(2) [OF assms, of None] assms(2)]
  by (auto simp: send_step_def sending_ok_def withdraw_offer_def split: option.splits if_splits)

lemma send_stepD:
  "send_step sd s sd' s' \<Longrightarrow> store_ok s'" "send_step sd s sd' s' \<Longrightarrow> sending_ok s' sd'"
  by (simp_all add: send_step_def)

lemma sending_withdraw_step:
  assumes "store_ok s" and "sending_ok s sd"
  shows "send_step sd s (fst (sending_withdraw env sd s)) (snd (sending_withdraw env sd s))"
proof -
  note a = drop_reserve_step [OF assms, of env]
  note b = leave_sink_waiters_step [OF send_stepD [OF a]]
  note c = withdraw_offer_step [OF send_stepD [OF b]]
  show ?thesis
    using send_step_trans [OF send_step_trans [OF a b] c]
    by (simp add: sending_withdraw_def split_beta)
qed

lemma wait_sink_step:
  assumes "store_ok s" and "sending_ok s sd"
  shows "send_step sd s (fst (wait_sink wk sd s)) (snd (wait_sink wk sd s))"
proof (cases "s_sink_wait sd")
  case (Some w)
  have "store_ok (s\<lparr>st_cell := c\<rparr>) = store_ok s" for c
    unfolding store_ok_def queues_ok_def core_queues_ok_def shape_ok_def claims_ok_def wakes_ok_def
    by simp
  with assms show ?thesis
    by (auto simp: wait_sink_def Some send_step_def sending_ok_def frame_def)
next
  case None
  let ?s' = "snd (wait_sink wk sd s)"
  have "queues_ok ?s'"
    using store_okD(1) [OF assms(1)]
    by (rule queues_grow [where P = False and Q = False]) (simp_all add: wait_sink_def None Let_def)
  moreover have "shape_ok ?s'"
    using store_okD(2) [OF assms(1)] by (auto simp: shape_ok_def wait_sink_def None Let_def)
  moreover have "wakes_ok ?s'"
    using store_okD(4) [OF assms(1)]
    by (auto simp: wakes_ok_def core_wakes_ok_def wait_sink_def None Let_def)
  moreover have "claims_ok ?s'"
    using store_okD(3) [OF assms(1)]
    by (auto simp: claims_ok_def wait_sink_def None Let_def intro: less_SucI)
  ultimately have "store_ok ?s'" by (simp add: store_ok_def)
  then show ?thesis
    by (rule send_step_frame) (use assms in \<open>auto simp: wait_sink_def None Let_def frame_def\<close>)
qed

lemma send_permit_step:
  assumes "store_ok s" and "sending_ok s sd" and "send_permit env p sd s = (got, sd', s')"
  shows "send_step sd s sd' s'"
  using assms
  by (intro send_step_frame) (auto simp: send_permit_def Let_def intro: set_sink_ok split: option.splits prod.splits)

lemma set_sink_sending [simp]: "sending_ok (set_sink ch tx s) sd = sending_ok s sd"
  by (auto simp: sending_ok_def)

lemma sending_ok_fields [simp]:
  "sending_ok s (sd\<lparr>s_reserve := x\<rparr>) = sending_ok s sd"
  "sending_ok s (sd\<lparr>s_value := y\<rparr>) = sending_ok s sd"
  by (simp_all add: sending_ok_def)

lemma send_step_own:
  "send_step (sd\<lparr>s_reserve := x\<rparr>) s sd' s' = send_step sd s sd' s'"
  by (simp add: send_step_def)

lemma send_step_after_sink:
  assumes "store_ok s" and "sending_ok s sd" and "send_step sd (set_sink ch tx s) sd' s'"
  shows "send_step sd s sd' s'"
  by (rule send_step_trans [OF send_step_frame assms(3)]) (use assms in \<open>auto intro: set_sink_ok\<close>)

lemma poll_sink_step:
  assumes ok: "store_ok s" and sd: "sending_ok s sd" and eq: "poll_sink env wk sd tx s = (got, sd', s')"
  shows "send_step sd s sd' s'"
proof -
  let ?ch = "s_chan sd"
  have sink: "send_step sd s sd (set_sink ?ch t s)" for t
    by (rule send_step_frame) (use ok sd in \<open>auto intro: set_sink_ok\<close>)
  have permit: "send_step sd s sd2 s2" if "send_permit env p sd (set_sink ?ch t s) = (r, sd2, s2)" for p t r sd2 s2
    by (rule send_step_after_sink [OF ok sd send_permit_step [OF _ _ that]]) (use ok sd in \<open>auto intro: set_sink_ok\<close>)
  have wait: "send_step sd s sd2 s2" if "wait_sink wk (sd\<lparr>s_reserve := x\<rparr>) (set_sink ?ch t s) = (sd2, s2)" for x t sd2 s2
    using wait_sink_step [OF set_sink_ok [OF ok, of ?ch t], of "sd\<lparr>s_reserve := x\<rparr>" wk] sd that
    by (intro send_step_after_sink [OF ok sd]) (simp add: send_step_own)
  have wd: "send_step sd s sd2 s2 \<and> store_ok s2 \<and> sending_ok s2 sd2"
    if "sending_withdraw env (sd\<lparr>s_reserve := x\<rparr>) (set_sink ?ch t s) = (sd2, s2)" for x t sd2 s2
    using sending_withdraw_step [OF set_sink_ok [OF ok, of ?ch t], of "sd\<lparr>s_reserve := x\<rparr>" env] sd that
    by (auto simp: send_step_own intro: send_step_after_sink [OF ok sd] dest: send_stepD)
  have wd_permit: "send_step sd s sd3 s3"
    if "sending_withdraw env (sd\<lparr>s_reserve := x\<rparr>) (set_sink ?ch t s) = (sd2, s2)"
      "send_permit env p sd2 s2 = (r, sd3, s3)" for x t sd2 s2 p r sd3 s3
    using wd [OF that(1)] send_permit_step [OF _ _ that(2)] send_step_trans by blast
  have wd0: "send_step sd s sd2 s2" if "sending_withdraw env sd s = (sd2, s2)" for sd2 s2
    using sending_withdraw_step [OF ok sd, of env] that by simp
  have sink': "send_step sd' s sd' (set_sink (s_chan sd') t s)" if "sd = sd'" for t
    using sink [of t] that by simp
  show ?thesis
    using eq unfolding poll_sink_def Let_def
    by (auto split: if_splits sum.splits option.splits prod.splits poll.splits
        intro: sink sink' permit wait wd_permit wd0 conjunct1 [OF wd])
qed

lemma poll_send_frame: "wakes_ok s \<Longrightarrow> frame W s (snd (snd (poll_send ch wk slot s)))"
  by (rule same_rest_frame [OF conjunct1 [OF poll_send_step]])
    (auto simp: poll_send_def Let_def)

lemma upd_offer_waker_ok:
  assumes "store_ok s"
  shows "store_ok (upd_offer i (of_waker_update f) s)"
proof -
  let ?t = "upd_offer i (of_waker_update f) s"
  have e: "of_state (st_offer ?t j) = of_state (st_offer s j)"
    "of_select (st_offer ?t j) = of_select (st_offer s j)" for j
    by simp_all
  have "store_ok ?t = store_ok s"
    unfolding store_ok_def queues_ok_def core_queues_ok_def claims_ok_def shape_ok_def wakes_ok_def e
    by (simp only: upd_offer_fields)
  with assms show ?thesis by simp
qed

lemma poll_local_step:
  assumes ok: "store_ok s" and sd: "sending_ok s sd" and eq: "poll_local wk sd s = (got, sd', s')"
  shows "send_step sd s sd' s'"
proof -
  let ?ch = "s_chan sd"
  have fill: "send_step sd s (sd\<lparr>s_value := x\<rparr>) t" "send_step sd s (sd\<lparr>s_value := x\<rparr>) (wake w t)"
    if "fill_waiter ?ch v (s_select sd) s = (r, t)" for x v r t w
    using fill_waiter_ok [OF ok, of ?ch v "s_select sd"] frame_fill_waiter [of None s ?ch v "s_select sd"]
    by (auto simp: that intro!: send_step_frame [OF _ _ sd])
  have push: "send_step sd s (sd\<lparr>s_value := x\<rparr>) t" if "poll_send ?ch wk (s_value sd) s = (r, slot, t)" for x r slot t
    using poll_send_ok [OF ok, of ?ch wk "s_value sd"]
      poll_send_frame [OF store_okD(4) [OF ok], of None ?ch wk "s_value sd"]
    by (auto simp: that intro!: send_step_frame [OF _ _ sd])
  have post: "send_step sd s sd1 t"
    if "post_offer wk sd s = (sd1, t)" "cc_cap (st_core s ?ch) = 0" "\<not> cc_closed (st_core s ?ch)" for sd1 t
    using post_offer_ok [OF ok sd that(2,3), of wk None] that(1)
    by (auto simp: send_step_def post_offer_def Let_def split: prod.splits)
  have up: "send_step sd s sd (upd_offer i (of_waker_update f) s)" for i f
    by (rule send_step_frame) (use ok sd in \<open>auto intro: upd_offer_waker_ok\<close>)
  have self: "send_step sd s sd s" by (rule send_step_refl [OF ok sd])
  have self': "send_step sd' s' sd' s'" if "sd = sd'" "s = s'"
    using self that by simp
  have up': "send_step sd' s sd' (upd_offer i (of_waker_update f) s)"
    if "sd = sd'" for i f
    using up that by simp
  show ?thesis
    using eq self unfolding poll_local_def Let_def
    by (auto split: if_splits option.splits offer_state.splits prod.splits
        intro: fill push post up up' self')
qed

lemma sending_poll_step:
  assumes "store_ok s" and "sending_ok s sd" and "sending_poll env wk sd s = (got, sd', s')"
  shows "send_step sd s sd' s'"
  using assms poll_sink_step poll_local_step
  by (fastforce simp: sending_poll_def split: option.splits prod.splits)

section \<open>Operations without a future\<close>

lemma try_send_step:
  assumes ok: "store_ok s"
  shows "store_ok (snd (try_send env ch v s)) \<and> frame W s (snd (try_send env ch v s))"
proof -
  have fill: "store_ok t \<and> frame W s t" if "fill_waiter ch v None s = (r, t)" for r t
    using fill_waiter_ok [OF ok, of ch v None] frame_fill_waiter [of W s ch v None]
    unfolding that by simp
  have buf: "store_ok t \<and> frame W s t"
    if "t = wake_all (cc_recv_wakers (st_core s ch))
         (upd_core ch (\<lambda>c. c\<lparr>cc_buf := cc_buf c @ [v], cc_recv_wakers := []\<rparr>) s)"
      "\<not> cc_cap (st_core s ch) \<le> length (cc_buf (st_core s ch))" for t
  proof -
    have st: "same_rest ch s t" by (simp add: that(1) same_rest_def)
    have wk: "core_wakes_ok (st_core t ch)"
      using store_okD(5) [OF ok, of ch] that(2) by (auto simp: that(1) core_wakes_ok_def)
    have "frame W s t" by (rule same_rest_frame [OF st]) (simp add: that(1))
    with same_rest_ok [OF st wk ok] show ?thesis by simp
  qed
  show ?thesis
    using ok fill buf unfolding try_send_def Let_def
    by (auto intro: set_sink_ok split: option.split sum.split prod.split)
qed

lemma fold_upd_offer:
  "st_core (fold (\<lambda>i. upd_offer i f) os s) = st_core s"
  "st_waiter (fold (\<lambda>i. upd_offer i f) os s) = st_waiter s"
  "st_claimed (fold (\<lambda>i. upd_offer i f) os s) = st_claimed s"
  "st_fresh (fold (\<lambda>i. upd_offer i f) os s) = st_fresh s"
  "st_cell (fold (\<lambda>i. upd_offer i f) os s) = st_cell s"
  "st_woken (fold (\<lambda>i. upd_offer i f) os s) = st_woken s"
  "(\<And>x. f (f x) = f x) \<Longrightarrow> st_offer (fold (\<lambda>i. upd_offer i f) os s) i =
    (if i \<in> set os then f (st_offer s i) else st_offer s i)"
  by (induction os arbitrary: s) auto

lemma chan_close_fields:
  assumes "\<not> cc_closed (st_core s ch)"
  shows "st_core (chan_close env ch s) = (st_core s)(ch := (st_core s ch)\<lparr>cc_closed := True,
      cc_recv_wakers := [], cc_send_wakers := [], cc_offers := [],
      cc_source := map_option (\<lambda>hr. hr\<lparr>hr_rx := rx_close env (hr_rx hr)\<rparr>) (cc_source (st_core s ch)),
      cc_sink := map_option (sink_close env) (cc_sink (st_core s ch))\<rparr>)"
    and "st_offer (chan_close env ch s) i =
      (if i \<in> set (cc_offers (st_core s ch)) then (st_offer s i)\<lparr>of_state := Withdrawn\<rparr> else st_offer s i)"
    and "st_waiter (chan_close env ch s) = st_waiter s"
    and "st_claimed (chan_close env ch s) = st_claimed s"
    and "st_fresh (chan_close env ch s) = st_fresh s"
  using assms
  by (simp_all add: chan_close_def Let_def receiver_wakers_eq fold_upd_offer) (cases "st_core s ch", simp)

lemma chan_close_step:
  assumes ok: "store_ok s"
  shows "store_ok (chan_close env ch s) \<and> frame W s (chan_close env ch s)"
proof (cases "cc_closed (st_core s ch)")
  case True
  with ok show ?thesis by (simp add: chan_close_def)
next
  case False
  let ?t = "chan_close env ch s"
  note fl = chan_close_fields [OF False]
  note q = store_okD(1) [OF ok]
  have "queues_ok ?t"
    using q by (rule queues_shrink)
      (use queues_okD [OF q] in \<open>auto simp: fl(1,2,5) split: if_splits\<close>)
  moreover have "shape_ok ?t"
    using store_okD(2) [OF ok] by (simp add: shape_ok_def fl(1,5))
  moreover have "wakes_ok ?t"
    using store_okD(4) [OF ok] by (simp add: wakes_ok_def core_wakes_ok_def fl(1))
  moreover have "claims_ok ?t"
    using store_okD(3) [OF ok] unfolding claims_ok_def fl(2,4,5)
    by (auto split: if_splits)
  moreover have "frame W s ?t"
    using queues_okD(4) [OF q] by (auto simp: frame_def fl)
  ultimately show ?thesis by (simp add: store_ok_def)
qed

lemma alloc_chan_step:
  assumes ok: "store_ok s" and c: "cc_offers c = []" "cc_waiters c = []" "core_wakes_ok c"
  shows "store_ok (snd (alloc_chan c s)) \<and> frame W s (snd (alloc_chan c s))"
proof -
  let ?t = "snd (alloc_chan c s)"
  have new: "cc_offers (st_core s (st_fresh s)) = []" "cc_waiters (st_core s (st_fresh s)) = []"
    using store_okD(2) [OF ok] by (simp_all add: shape_ok_def)
  have "queues_ok ?t"
    using store_okD(1) [OF ok]
    by (rule queues_grow [where P = False and Q = False]) (simp_all add: alloc_chan_def c new)
  moreover have "shape_ok ?t"
    using store_okD(2) [OF ok] by (simp add: shape_ok_def alloc_chan_def c)
  moreover have "wakes_ok ?t"
    using store_okD(4) [OF ok] by (simp add: wakes_ok_def alloc_chan_def c)
  moreover have "claims_ok ?t"
    using store_okD(3) [OF ok] by (auto simp: claims_ok_def alloc_chan_def intro: less_SucI)
  moreover have "frame W s ?t"
    using new by (auto simp: frame_def alloc_chan_def)
  ultimately show ?thesis by (simp add: store_ok_def)
qed

end
