(* ===== verification/Isle_Chan_Sys.thy ===== *)
theory Isle_Chan_Sys
  imports Isle_Chan_Steps
begin

text \<open>
  The channels of one VM as a machine: the store, the futures that wait on it, and the
  operations the Lua side, the host and the drop glue perform on them, in any order.

  A future is started (\<^verbatim>\<open>Receiving::new\<close>, \<^verbatim>\<open>Sending::new\<close>), polled any number of times, and
  dropped: when it is ready (a future is not polled again after that), or before.  \<open>cs_in\<close>,
  \<open>cs_out\<close> and \<open>cs_lost\<close> are histories, not state of the code: the values handed to the
  channels, the values received from them, and the values dropped with a send that did not
  happen (its future dropped, or its channel closed) or replaced by a ticker's next one.
\<close>

datatype 'q cop =
    NewChan nat
  | NewTicker
  | NewHost 'q
  | NewToHost 'q
  | NewMark
  | Claim nat
  | StartRecv nat "nat option"
  | PollRecv nat waker
  | DropRecv nat
  | StartSend nat lua_value "nat option"
  | SetEager nat
  | PollSend nat waker
  | DropSend nat
  | TryRecv nat
  | TrySend nat lua_value
  | PushNewest nat lua_value
  | Unrecv nat lua_value
  | Close nat
  | FanWake nat

record 'q chan_sys =
  cs_store :: "'q chan_store"
  cs_recvs :: "nat \<Rightarrow> receiving option"
  cs_sends :: "nat \<Rightarrow> sending option"
  cs_next :: nat
  cs_in :: "lua_value multiset"
  cs_out :: "lua_value multiset"
  cs_lost :: "lua_value multiset"

definition sys_init :: "'q chan_sys" where
  "sys_init =
    \<lparr>cs_store = store_init, cs_recvs = (\<lambda>_. None), cs_sends = (\<lambda>_. None), cs_next = 0,
     cs_in = {#}, cs_out = {#}, cs_lost = {#}\<rparr>"

definition opt_mset :: "'a option \<Rightarrow> 'a multiset" where
  "opt_mset x = (case x of None \<Rightarrow> {#} | Some v \<Rightarrow> {#v#})"

lemma opt_mset_simps [simp]: "opt_mset None = {#}" "opt_mset (Some v) = {#v#}"
  by (simp_all add: opt_mset_def)

text \<open>The value of the future's offer, while it is still posted.\<close>

definition posted_value :: "'q chan_store \<Rightarrow> nat \<Rightarrow> lua_value multiset" where
  "posted_value s i =
    (if of_state (st_offer s i) = Open then opt_mset (of_value (st_offer s i)) else {#})"

definition sending_posted :: "'q chan_store \<Rightarrow> sending \<Rightarrow> lua_value multiset" where
  "sending_posted s sd = (case s_offer sd of None \<Rightarrow> {#} | Some i \<Rightarrow> posted_value s i)"

definition on_chan :: "nat \<Rightarrow> ('q chan_store \<Rightarrow> 'q chan_sys) \<Rightarrow> 'q chan_sys \<Rightarrow> 'q chan_sys" where
  "on_chan ch f S = (if ch < st_fresh (cs_store S) then f (cs_store S) else S)"

definition mark_ok :: "'q chan_store \<Rightarrow> nat option \<Rightarrow> bool" where
  "mark_ok s sel \<longleftrightarrow> (case sel of None \<Rightarrow> True | Some m \<Rightarrow> m < st_fresh s)"

definition poll_recv_op :: "('t, 'q) mpsc_env \<Rightarrow> nat \<Rightarrow> waker \<Rightarrow> 'q chan_sys \<Rightarrow> 'q chan_sys" where
  "poll_recv_op env i wk S =
    (case cs_recvs S i of
       None \<Rightarrow> S
     | Some r \<Rightarrow>
         (case receiving_poll env wk r (cs_store S) of
            (Pending, r', s') \<Rightarrow> S\<lparr>cs_store := s', cs_recvs := (cs_recvs S)(i := Some r')\<rparr>
          | (Ready got, r', s') \<Rightarrow>
              S\<lparr>cs_store := receiving_drop r' s', cs_recvs := (cs_recvs S)(i := None),
                cs_out := cs_out S +
                  (case got of Inr (Some v) \<Rightarrow> {#v#} | _ \<Rightarrow> {#})\<rparr>))"

definition poll_send_op :: "('t, 'q) mpsc_env \<Rightarrow> nat \<Rightarrow> waker \<Rightarrow> 'q chan_sys \<Rightarrow> 'q chan_sys" where
  "poll_send_op env i wk S =
    (case cs_sends S i of
       None \<Rightarrow> S
     | Some sd \<Rightarrow>
         (case sending_poll env wk sd (cs_store S) of
            (Pending, sd', s') \<Rightarrow> S\<lparr>cs_store := s', cs_sends := (cs_sends S)(i := Some sd')\<rparr>
          | (Ready _, sd', s') \<Rightarrow>
              S\<lparr>cs_store := sending_drop env sd' s', cs_sends := (cs_sends S)(i := None),
                cs_lost := cs_lost S + opt_mset (s_value sd')\<rparr>))"

fun exec :: "('t, 'q) mpsc_env \<Rightarrow> 'q cop \<Rightarrow> 'q chan_sys \<Rightarrow> 'q chan_sys" where
  "exec env (NewChan cap) S = S\<lparr>cs_store := snd (chan_new cap (cs_store S))\<rparr>"
| "exec env NewTicker S = S\<lparr>cs_store := snd (new_ticker (cs_store S))\<rparr>"
| "exec env (NewHost q) S = S\<lparr>cs_store := snd (new_host env q (cs_store S))\<rparr>"
| "exec env (NewToHost q) S = S\<lparr>cs_store := snd (new_to_host env q (cs_store S))\<rparr>"
| "exec env NewMark S = S\<lparr>cs_store := snd (mark_new (cs_store S))\<rparr>"
| "exec env (Claim m) S = S\<lparr>cs_store := claim m (cs_store S)\<rparr>"
| "exec env (StartRecv ch sel) S =
    (if ch < st_fresh (cs_store S) \<and> mark_ok (cs_store S) sel
     then S\<lparr>cs_recvs := (cs_recvs S)(cs_next S := Some (receiving_new ch sel)),
            cs_next := Suc (cs_next S)\<rparr>
     else S)"
| "exec env (PollRecv i wk) S = poll_recv_op env i wk S"
| "exec env (DropRecv i) S =
    (case cs_recvs S i of
       None \<Rightarrow> S
     | Some r \<Rightarrow> S\<lparr>cs_store := receiving_drop r (cs_store S),
                   cs_recvs := (cs_recvs S)(i := None)\<rparr>)"
| "exec env (StartSend ch v sel) S =
    (if ch < st_fresh (cs_store S) \<and> mark_ok (cs_store S) sel
     then S\<lparr>cs_sends := (cs_sends S)(cs_next S := Some (sending_new ch v sel)),
            cs_next := Suc (cs_next S), cs_in := add_mset v (cs_in S)\<rparr>
     else S)"
| "exec env (SetEager i) S =
    S\<lparr>cs_sends := (cs_sends S)(i := map_option set_eager (cs_sends S i))\<rparr>"
| "exec env (PollSend i wk) S = poll_send_op env i wk S"
| "exec env (DropSend i) S =
    (case cs_sends S i of
       None \<Rightarrow> S
     | Some sd \<Rightarrow> S\<lparr>cs_store := sending_drop env sd (cs_store S),
                    cs_sends := (cs_sends S)(i := None),
                    cs_lost := cs_lost S + opt_mset (s_value sd) +
                      sending_posted (cs_store S) sd\<rparr>)"
| "exec env (TryRecv ch) S =
    on_chan ch (\<lambda>s. case try_recv env ch s of
        (got, s') \<Rightarrow> S\<lparr>cs_store := s',
          cs_out := cs_out S + (case got of Inr (TryValue v) \<Rightarrow> {#v#} | _ \<Rightarrow> {#})\<rparr>) S"
| "exec env (TrySend ch v) S =
    on_chan ch (\<lambda>s. case try_send env ch v s of
        (r, s') \<Rightarrow> S\<lparr>cs_store := s',
          cs_in := cs_in S + (case r of Inr (Inr True) \<Rightarrow> {#v#} | _ \<Rightarrow> {#})\<rparr>) S"
| "exec env (PushNewest ch v) S =
    on_chan ch (\<lambda>s. case push_newest ch v s of
        (pushed, s') \<Rightarrow>
          S\<lparr>cs_store := s', cs_in := cs_in S + (if pushed then {#v#} else {#}),
            cs_lost := cs_lost S +
              (if pushed \<and> cc_cap (st_core s ch) \<le> length (cc_buf (st_core s ch)) \<and>
                  cc_buf (st_core s ch) \<noteq> []
               then {#last (cc_buf (st_core s ch))#} else {#})\<rparr>) S"
| "exec env (Unrecv ch v) S =
    on_chan ch (\<lambda>s. S\<lparr>cs_store := unrecv ch v s, cs_in := add_mset v (cs_in S)\<rparr>) S"
| "exec env (Close ch) S =
    on_chan ch (\<lambda>s. S\<lparr>cs_store := chan_close env ch s,
      cs_lost := cs_lost S +
        (if cc_closed (st_core s ch) then {#}
         else sum_list (map (posted_value s) (cc_offers (st_core s ch))))\<rparr>) S"
| "exec env (FanWake ch) S = S\<lparr>cs_store := fan_wake ch (cs_store S)\<rparr>"

definition run :: "('t, 'q) mpsc_env \<Rightarrow> 'q cop list \<Rightarrow> 'q chan_sys \<Rightarrow> 'q chan_sys" where
  "run env ops S = fold (exec env) ops S"

section \<open>Every operation keeps the system well formed\<close>

text \<open>
  The store is well formed, every live future owns what it waits with, and no two futures
  share a waiter or an offer.
\<close>

definition sys_ok :: "'q chan_sys \<Rightarrow> bool" where
  "sys_ok S \<longleftrightarrow>
    store_ok (cs_store S) \<and>
    (\<forall>i r. cs_recvs S i = Some r \<longrightarrow> i < cs_next S \<and> receiving_ok (cs_store S) r) \<and>
    (\<forall>i sd. cs_sends S i = Some sd \<longrightarrow> i < cs_next S \<and> sending_ok (cs_store S) sd) \<and>
    (\<forall>i j r q w. cs_recvs S i = Some r \<and> cs_recvs S j = Some q \<and>
      r_waiter r = Some w \<and> r_waiter q = Some w \<longrightarrow> i = j) \<and>
    (\<forall>i j a b k. cs_sends S i = Some a \<and> cs_sends S j = Some b \<and>
      s_offer a = Some k \<and> s_offer b = Some k \<longrightarrow> i = j)"

lemma sys_okD:
  assumes "sys_ok S"
  shows "store_ok (cs_store S)"
    and "cs_recvs S i = Some r \<Longrightarrow> i < cs_next S" and "cs_recvs S i = Some r \<Longrightarrow> receiving_ok (cs_store S) r"
    and "cs_sends S i = Some sd \<Longrightarrow> i < cs_next S" and "cs_sends S i = Some sd \<Longrightarrow> sending_ok (cs_store S) sd"
    and "cs_recvs S i = Some r \<Longrightarrow> cs_recvs S j = Some q \<Longrightarrow> r_waiter r = Some w \<Longrightarrow> r_waiter q = Some w \<Longrightarrow> i = j"
    and "cs_sends S i = Some sd \<Longrightarrow> cs_sends S j = Some b \<Longrightarrow> s_offer sd = Some k \<Longrightarrow> s_offer b = Some k \<Longrightarrow> i = j"
  using assms unfolding sys_ok_def by blast+

lemma sys_okI:
  assumes "store_ok (cs_store S)"
    and "\<And>i r. cs_recvs S i = Some r \<Longrightarrow> i < cs_next S \<and> receiving_ok (cs_store S) r"
    and "\<And>i sd. cs_sends S i = Some sd \<Longrightarrow> i < cs_next S \<and> sending_ok (cs_store S) sd"
    and "\<And>i j r q w. cs_recvs S i = Some r \<Longrightarrow> cs_recvs S j = Some q \<Longrightarrow>
      r_waiter r = Some w \<Longrightarrow> r_waiter q = Some w \<Longrightarrow> i = j"
    and "\<And>i j a b k. cs_sends S i = Some a \<Longrightarrow> cs_sends S j = Some b \<Longrightarrow>
      s_offer a = Some k \<Longrightarrow> s_offer b = Some k \<Longrightarrow> i = j"
  shows "sys_ok S"
  using assms unfolding sys_ok_def by blast

lemma sys_ok_init: "sys_ok sys_init"
  by (rule sys_okI) (simp_all add: sys_init_def store_ok_init)

text \<open>A step of the store alone that respects every future.\<close>

lemma sys_ok_store:
  assumes ok: "sys_ok S" and st: "store_ok s'" and fr: "frame None (cs_store S) s'"
    and S': "cs_store S' = s'" "cs_recvs S' = cs_recvs S" "cs_sends S' = cs_sends S" "cs_next S' = cs_next S"
  shows "sys_ok S'"
proof (rule sys_okI)
  show "store_ok (cs_store S')" using st S' by simp
  show "i < cs_next S' \<and> receiving_ok (cs_store S') r" if "cs_recvs S' i = Some r" for i r
    using sys_okD(2,3) [OF ok, of i r] receiving_ok_frame_None [OF fr, of r] that by (simp add: S')
  show "i < cs_next S' \<and> sending_ok (cs_store S') sd" if "cs_sends S' i = Some sd" for i sd
    using sys_okD(4,5) [OF ok, of i sd] frame_sending [OF fr, of sd] that by (simp add: S')
qed (use sys_okD(6,7) [OF ok] in \<open>simp_all add: S'\<close>)

text \<open>A step of one receive future, which then lives on or is gone.\<close>

lemma sys_ok_recv:
  assumes ok: "sys_ok S" and r: "cs_recvs S i = Some r" and st: "recv_step r (cs_store S) r' s'"
    and x: "x = None \<or> x = Some r'"
    and S': "cs_store S' = s'" "cs_recvs S' = (cs_recvs S)(i := x)" "cs_sends S' = cs_sends S" "cs_next S' = cs_next S"
  shows "sys_ok S'"
proof (rule sys_okI)
  have fr: "frame (r_waiter r) (cs_store S) s'" and s': "store_ok s'" and r': "receiving_ok s' r'"
    and w: "\<And>w. r_waiter r' = Some w \<Longrightarrow> r_waiter r = Some w \<or> st_fresh (cs_store S) \<le> w"
    using st by (simp_all add: recv_step_def)
  show "store_ok (cs_store S')" using s' S' by simp
  have other: "r_waiter q = None \<or> r_waiter q \<noteq> r_waiter r" if "cs_recvs S j = Some q" "j \<noteq> i" for j q
    using sys_okD(6) [OF ok that(1) r] that(2) by (cases "r_waiter q") auto
  have old: "w' < st_fresh (cs_store S)" if "cs_recvs S j = Some q" "r_waiter q = Some w'" for j q w'
    using sys_okD(3) [OF ok that(1)] that(2) by (simp add: receiving_ok_def)
  show "j < cs_next S' \<and> receiving_ok (cs_store S') q" if "cs_recvs S' j = Some q" for j q
  proof (cases "j = i")
    case True
    then show ?thesis using that x r' sys_okD(2) [OF ok r] by (auto simp: S')
  next
    case False
    then have q: "cs_recvs S j = Some q" using that by (simp add: S')
    show ?thesis
      using frame_receiving [OF fr sys_okD(3) [OF ok q] other [OF q False]] sys_okD(2) [OF ok q]
      by (simp add: S')
  qed
  show "j < cs_next S' \<and> sending_ok (cs_store S') sd" if "cs_sends S' j = Some sd" for j sd
    using that sys_okD(4,5) [OF ok, of j sd] frame_sending [OF fr, of sd] by (simp add: S')
  show "j = k" if j: "cs_recvs S' j = Some a" and k: "cs_recvs S' k = Some b"
    and aw: "r_waiter a = Some w'" and bw: "r_waiter b = Some w'" for j k a b w'
  proof (rule ccontr)
    assume ne: "j \<noteq> k"
    have clash: False if "m \<noteq> i" "cs_recvs S m = Some c" "r_waiter c = Some w'" "r_waiter r' = Some w'" for m c
      using w [OF that(4)] old [OF that(2,3)] sys_okD(6) [OF ok that(2) r that(3)] that(1) by auto
    then show False
      using ne j k aw bw x sys_okD(6) [OF ok, of j a k b] clash [of j a] clash [of k b] by (auto simp: S' split: if_splits)
  qed
qed (use sys_okD(7) [OF ok] in \<open>simp add: S'\<close>)

lemma sys_ok_send:
  assumes ok: "sys_ok S" and r: "cs_sends S i = Some sd" and st: "send_step sd (cs_store S) sd' s'"
    and x: "x = None \<or> x = Some sd'"
    and S': "cs_store S' = s'" "cs_recvs S' = cs_recvs S" "cs_sends S' = (cs_sends S)(i := x)" "cs_next S' = cs_next S"
  shows "sys_ok S'"
proof (rule sys_okI)
  have fr: "frame None (cs_store S) s'" and s': "store_ok s'" and sd': "sending_ok s' sd'"
    and w: "\<And>k. s_offer sd' = Some k \<Longrightarrow> s_offer sd = Some k \<or> st_fresh (cs_store S) \<le> k"
    using st by (simp_all add: send_step_def)
  show "store_ok (cs_store S')" using s' S' by simp
  have old: "k < st_fresh (cs_store S)" if "cs_sends S j = Some q" "s_offer q = Some k" for j q k
    using sys_okD(5) [OF ok that(1)] that(2) by (simp add: sending_ok_def)
  show "j < cs_next S' \<and> receiving_ok (cs_store S') q" if "cs_recvs S' j = Some q" for j q
    using that sys_okD(2,3) [OF ok, of j q] receiving_ok_frame_None [OF fr, of q] by (simp add: S')
  show "j < cs_next S' \<and> sending_ok (cs_store S') q" if "cs_sends S' j = Some q" for j q
    using that sys_okD(4,5) [OF ok, of j q] frame_sending [OF fr, of q] x sd' sys_okD(4) [OF ok r]
    by (auto simp: S' split: if_splits)
  show "j = k" if j: "cs_sends S' j = Some a" and k: "cs_sends S' k = Some b"
    and aw: "s_offer a = Some w'" and bw: "s_offer b = Some w'" for j k a b w'
  proof (rule ccontr)
    assume ne: "j \<noteq> k"
    have clash: False if "m \<noteq> i" "cs_sends S m = Some c" "s_offer c = Some w'" "s_offer sd' = Some w'" for m c
      using w [OF that(4)] old [OF that(2,3)] sys_okD(7) [OF ok that(2) r that(3)] that(1) by auto
    then show False
      using ne j k aw bw x sys_okD(7) [OF ok, of j a k b] clash [of j a] clash [of k b] by (auto simp: S' split: if_splits)
  qed
qed (use sys_okD(6) [OF ok] in \<open>simp add: S'\<close>)

text \<open>A poll and then the drop of the same future compose.\<close>

lemma frame_trans_fresh:
  assumes st: "frame W s t" and tu: "frame W' t u"
    and W': "\<And>w. W' = Some w \<Longrightarrow> W = Some w \<or> st_fresh s \<le> w"
  shows "frame W s u"
  unfolding frame_def
proof (intro conjI allI impI)
  show "st_fresh s \<le> st_fresh u"
    using frameD(8) [OF st] frameD(8) [OF tu] by simp
  fix i assume i: "i < st_fresh s"
  note i' = frameD(1) [OF st i]
  show "of_select (st_offer u i) = of_select (st_offer s i)"
    "wt_select (st_waiter u i) = wt_select (st_waiter s i)"
    using frameD(2,3) [OF st i] frameD(2,3) [OF tu i'] by simp_all
  show "st_claimed u i" if "st_claimed s i"
    using frameD(4) [OF tu i'] frameD(4) [OF st i that] .
  show "of_state (st_offer u i) = of_state (st_offer s i)" if "of_state (st_offer s i) \<noteq> Open"
    using frameD(5) [OF st i that] frameD(5) [OF tu i'] that by simp
  show "i \<in> set (cc_offers (st_core u ch))"
    if "i \<in> set (cc_offers (st_core s ch)) \<and> of_state (st_offer u i) = Open" for ch
    using that frame_open_back [OF tu i'] frameD(6) [OF st i] frameD(6) [OF tu i'] by simp
  show "i \<in> set (cc_waiters (st_core u ch))"
    if "i \<in> set (cc_waiters (st_core s ch)) \<and> W \<noteq> Some i" for ch
    using that frameD(7) [OF st i, of ch] frameD(7) [OF tu i', of ch] W' [of i] i by force
qed

lemma recv_step_trans:
  assumes a: "recv_step r s r1 s1" and b: "recv_step r1 s1 r2 s2"
  shows "recv_step r s r2 s2"
proof -
  have f: "frame (r_waiter r) s s1" "frame (r_waiter r1) s1 s2"
    and w1: "\<And>w. r_waiter r1 = Some w \<Longrightarrow> r_waiter r = Some w \<or> st_fresh s \<le> w"
    and w2: "\<And>w. r_waiter r2 = Some w \<Longrightarrow> r_waiter r1 = Some w \<or> st_fresh s1 \<le> w"
    using a b by (simp_all add: recv_step_def)
  have "frame (r_waiter r) s s2" by (rule frame_trans_fresh [OF f w1])
  moreover have "r_waiter r = Some w \<or> st_fresh s \<le> w" if "r_waiter r2 = Some w" for w
    using w1 w2 [OF that] frameD(8) [OF f(1)] by auto
  ultimately show ?thesis
    using a b by (simp add: recv_step_def)
qed

lemma receiving_drop_step:
  assumes "store_ok s" and "receiving_ok s r"
  obtains r' where "recv_step r s r' (receiving_drop r s)"
  using receiving_withdraw_step(1) [OF assms] by (metis receiving_drop_def surjective_pairing)

lemma recv_drop_step:
  assumes "recv_step r s r1 s1"
  obtains r2 where "recv_step r s r2 (receiving_drop r1 s1)"
proof -
  have "store_ok s1" and "receiving_ok s1 r1" using assms by (simp_all add: recv_step_def)
  then obtain r' where "recv_step r1 s1 r' (receiving_drop r1 s1)" by (rule receiving_drop_step)
  from that [OF recv_step_trans [OF assms this]] show ?thesis .
qed

lemma poll_recv_op_ok:
  assumes ok: "sys_ok S"
  shows "sys_ok (poll_recv_op env i wk S)"
proof (cases "cs_recvs S i")
  case None
  with ok show ?thesis by (simp add: poll_recv_op_def)
next
  case (Some r)
  obtain got r1 s1 where p: "receiving_poll env wk r (cs_store S) = (got, r1, s1)"
    by (metis prod_cases3)
  note st = receiving_poll_step [OF sys_okD(1) [OF ok] sys_okD(3) [OF ok Some] p]
  obtain r2 where st2: "recv_step r (cs_store S) r2 (receiving_drop r1 s1)"
    using recv_drop_step [OF st] .
  show ?thesis
    by (cases got; simp add: poll_recv_op_def Some p)
      (rule sys_ok_recv [OF ok Some st2, where x = None]
        sys_ok_recv [OF ok Some st, where x = "Some r1"]; simp)+
qed

lemma poll_send_op_ok:
  assumes ok: "sys_ok S"
  shows "sys_ok (poll_send_op env i wk S)"
proof (cases "cs_sends S i")
  case None
  with ok show ?thesis by (simp add: poll_send_op_def)
next
  case (Some sd)
  obtain got sd1 s1 where p: "sending_poll env wk sd (cs_store S) = (got, sd1, s1)"
    by (metis prod_cases3)
  note st = sending_poll_step [OF sys_okD(1) [OF ok] sys_okD(5) [OF ok Some] p]
  have st2: "send_step sd (cs_store S) (fst (sending_withdraw env sd1 s1)) (sending_drop env sd1 s1)"
    using send_step_trans [OF st sending_withdraw_step [OF send_stepD [OF st]]]
    by (simp add: sending_drop_def)
  show ?thesis
    by (cases got; simp add: poll_send_op_def Some p)
      (rule sys_ok_send [OF ok Some st2, where x = None]
        sys_ok_send [OF ok Some st, where x = "Some sd1"]; simp)+
qed

lemma fan_wake_step: "store_ok s \<Longrightarrow> store_ok (fan_wake ch s) \<and> frame W s (fan_wake ch s)"
proof -
  assume ok: "store_ok s"
  have "store_ok (upd_core ch (cc_source_update (\<lambda>_. Some h)) s)" if "cc_source (st_core s ch) \<noteq> None" for h
    by (rule step_ok [OF _ ok, of ch])
      (use that store_okD(5) [OF ok, of ch] in \<open>auto simp: same_rest_def core_wakes_ok_def\<close>)
  with ok show ?thesis by (simp add: fan_wake_def split: option.split)
qed

lemma push_newest_frame: "wakes_ok s \<Longrightarrow> frame W s (snd (push_newest ch v s))"
  by (rule same_rest_frame [OF conjunct1 [OF push_newest_step]])
    (auto simp: push_newest_def receiver_wakers_eq Let_def)

lemma unrecv_frame: "wakes_ok s \<Longrightarrow> frame W s (unrecv ch v s)"
  by (rule same_rest_frame [OF conjunct1 [OF unrecv_step]])
    (auto simp: unrecv_def receiver_wakers_eq Let_def)

lemma new_chan_step:
  assumes "store_ok s"
  shows "store_ok (snd (chan_new cap s)) \<and> frame W s (snd (chan_new cap s))"
    and "store_ok (snd (new_ticker s)) \<and> frame W s (snd (new_ticker s))"
    and "store_ok (snd (new_host env q s)) \<and> frame W s (snd (new_host env q s))"
    and "store_ok (snd (new_to_host env q s)) \<and> frame W s (snd (new_to_host env q s))"
  unfolding chan_new_def new_ticker_def new_host_def new_to_host_def Let_def
  by (rule alloc_chan_step [OF assms]; simp add: with_cap_def core_wakes_ok_def)+

lemma sys_ok_start:
  assumes ok: "sys_ok S"
  shows "ch < st_fresh (cs_store S) \<Longrightarrow> mark_ok (cs_store S) sel \<Longrightarrow>
      sys_ok (S\<lparr>cs_recvs := (cs_recvs S)(cs_next S := Some (receiving_new ch sel)), cs_next := Suc (cs_next S)\<rparr>)"
    and "ch < st_fresh (cs_store S) \<Longrightarrow> mark_ok (cs_store S) sel \<Longrightarrow>
      sys_ok (S\<lparr>cs_sends := (cs_sends S)(cs_next S := Some (sending_new ch v sel)), cs_next := Suc (cs_next S),
        cs_in := X\<rparr>)"
  using sys_okD [OF ok]
  by (auto intro!: sys_okI simp: receiving_ok_def sending_ok_def receiving_new_def sending_new_def mark_ok_def
      less_Suc_eq split: if_splits)

lemma drop_op_ok:
  assumes ok: "sys_ok S"
  shows "sys_ok (exec env (DropRecv i) S)" and "sys_ok (exec env (DropSend i) S)"
proof -
  show "sys_ok (exec env (DropRecv i) S)"
  proof (cases "cs_recvs S i")
    case (Some r)
    obtain r' where st: "recv_step r (cs_store S) r' (receiving_drop r (cs_store S))"
      using receiving_drop_step [OF sys_okD(1,3) [OF ok]] Some by metis
    show ?thesis
      by (simp add: Some) (rule sys_ok_recv [OF ok Some st, where x = None]; simp)
  qed (use ok in simp)
  show "sys_ok (exec env (DropSend i) S)"
  proof (cases "cs_sends S i")
    case (Some sd)
    note st = sending_withdraw_step [OF sys_okD(1) [OF ok] sys_okD(5) [OF ok Some], of env]
    show ?thesis
      by (simp add: Some) (rule sys_ok_send [OF ok Some st, where x = None]; simp add: sending_drop_def)
  qed (use ok in simp)
qed

lemma set_eager_ok: "sys_ok S \<Longrightarrow> sys_ok (exec env (SetEager i) S)"
proof -
  assume ok: "sys_ok S"
  have e: "sending_ok s (set_eager sd) = sending_ok s sd" "s_offer (set_eager sd) = s_offer sd"
    for s :: "'q chan_store" and sd
    by (simp_all add: set_eager_def sending_ok_def)
  show ?thesis
    by (rule sys_okI)
      (use sys_okD [OF ok] in \<open>auto simp: e split: if_splits\<close>)
qed

lemma exec_ok:
  assumes ok: "sys_ok S"
  shows "sys_ok (exec env op S)"
proof -
  note st = sys_okD(1) [OF ok]
  note store = sys_ok_store [OF ok]
  have both: "sys_ok S'" if "store_ok s' \<and> frame None (cs_store S) s'" "cs_store S' = s'"
    "cs_recvs S' = cs_recvs S" "cs_sends S' = cs_sends S" "cs_next S' = cs_next S" for s' S'
    using store [OF _ _ that(2-5)] that(1) by blast
  show ?thesis
  proof (cases op)
    case (NewChan x)
    show ?thesis by (rule both [OF new_chan_step(1) [OF st]]) (simp_all add: NewChan)
  next
    case NewTicker
    show ?thesis by (rule both [OF new_chan_step(2) [OF st]]) (simp_all add: NewTicker)
  next
    case (NewHost q)
    show ?thesis by (rule both [OF new_chan_step(3) [OF st]]) (simp_all add: NewHost)
  next
    case (NewToHost q)
    show ?thesis by (rule both [OF new_chan_step(4) [OF st]]) (simp_all add: NewToHost)
  next
    case NewMark
    show ?thesis by (rule store [OF mark_new_ok [OF st]]) (simp_all add: NewMark)
  next
    case (Claim m)
    show ?thesis
      by (rule store [OF claim_ok [OF st] frame_claim [OF frame_refl]]) (simp_all add: Claim)
  next
    case (TryRecv ch)
    show ?thesis
      by (cases "ch < st_fresh (cs_store S)")
        (use ok in \<open>auto simp: TryRecv on_chan_def split_beta intro!: both [OF try_recv_step [OF st]]\<close>)
  next
    case (TrySend ch v)
    show ?thesis
      by (cases "ch < st_fresh (cs_store S)")
        (use ok in \<open>auto simp: TrySend on_chan_def split_beta intro!: both [OF try_send_step [OF st]]\<close>)
  next
    case (PushNewest ch v)
    show ?thesis
      by (cases "ch < st_fresh (cs_store S)")
        (use ok in \<open>auto simp: PushNewest on_chan_def split_beta
          intro!: store [OF push_newest_ok [OF st] push_newest_frame [OF store_okD(4) [OF st]]]\<close>)
  next
    case (Unrecv ch v)
    show ?thesis
      by (cases "ch < st_fresh (cs_store S)")
        (use ok in \<open>auto simp: Unrecv on_chan_def
          intro!: store [OF unrecv_ok [OF st] unrecv_frame [OF store_okD(4) [OF st]]]\<close>)
  next
    case (Close ch)
    show ?thesis
      by (cases "ch < st_fresh (cs_store S)")
        (use ok in \<open>auto simp: Close on_chan_def intro!: both [OF chan_close_step [OF st]]\<close>)
  next
    case (FanWake ch)
    show ?thesis by (rule both [OF fan_wake_step [OF st]]) (simp_all add: FanWake)
  next
    case (PollRecv i wk)
    show ?thesis using poll_recv_op_ok [OF ok] by (simp add: PollRecv)
  next
    case (PollSend i wk)
    show ?thesis using poll_send_op_ok [OF ok] by (simp add: PollSend)
  next
    case (DropRecv i)
    show ?thesis using drop_op_ok(1) [OF ok] by (simp only: DropRecv)
  next
    case (DropSend i)
    show ?thesis using drop_op_ok(2) [OF ok] by (simp only: DropSend)
  next
    case (SetEager i)
    show ?thesis using set_eager_ok [OF ok] by (simp only: SetEager)
  next
    case (StartRecv ch sel)
    show ?thesis using ok sys_ok_start(1) [OF ok] by (simp add: StartRecv)
  next
    case (StartSend ch v sel)
    show ?thesis using ok sys_ok_start(2) [OF ok] by (simp add: StartSend)
  qed
qed

interpretation chan_run: machine "exec env" sys_ok for env
  by unfold_locales (rule exec_ok)

lemma run_ok: "sys_ok S \<Longrightarrow> sys_ok (run env ops S)"
  unfolding run_def by (rule chan_run.ok_run)

end
