(* ===== verification/Isle_Chan_Flow.thy ===== *)
theory Isle_Chan_Flow
  imports Isle_Chan_Sys
begin

text \<open>
  No value is lost or duplicated on the channels between Lua and Lua (those without a host
  end): what was handed in is what came out, plus what is in a buffer, in the slot of a
  waiting receiver, in a posted offer or in a send future, plus what was dropped with a send
  that did not happen.
\<close>

section \<open>The values in the store\<close>

definition buffered :: "'q chan_store \<Rightarrow> lua_value multiset" where
  "buffered s = (\<Sum>ch < st_fresh s. mset (cc_buf (st_core s ch)))"

definition in_slots :: "'q chan_store \<Rightarrow> lua_value multiset" where
  "in_slots s = (\<Sum>w < st_fresh s. opt_mset (wt_slot (st_waiter s w)))"

definition posted :: "'q chan_store \<Rightarrow> lua_value multiset" where
  "posted s = (\<Sum>i < st_fresh s. posted_value s i)"

definition content :: "'q chan_store \<Rightarrow> lua_value multiset" where
  "content s = buffered s + in_slots s + posted s"

definition local_only :: "'q chan_store \<Rightarrow> bool" where
  "local_only s \<longleftrightarrow> (\<forall>ch. cc_source (st_core s ch) = None \<and> cc_sink (st_core s ch) = None)"

text \<open>An open offer holds its value; an address not yet allocated holds nothing.\<close>

definition values_ok :: "'q chan_store \<Rightarrow> bool" where
  "values_ok s \<longleftrightarrow>
    (\<forall>i. of_state (st_offer s i) = Open \<longrightarrow> of_value (st_offer s i) \<noteq> None) \<and>
    (\<forall>i. st_fresh s \<le> i \<longrightarrow> of_state (st_offer s i) \<noteq> Open \<and> wt_slot (st_waiter s i) = None \<and>
      cc_buf (st_core s i) = [])"

lemma sum_point:
  fixes f :: "nat \<Rightarrow> 'a multiset"
  assumes "i < n" and "\<And>x. x < n \<Longrightarrow> x \<noteq> i \<Longrightarrow> g x = f x"
  shows "(\<Sum>x<n. g x) + f i = (\<Sum>x<n. f x) + g i"
proof -
  have "(\<Sum>x<n. g x) = g i + (\<Sum>x \<in> {..<n} - {i}. g x)"
    using assms(1) by (simp add: sum.remove)
  moreover have "(\<Sum>x<n. f x) = f i + (\<Sum>x \<in> {..<n} - {i}. f x)"
    using assms(1) by (simp add: sum.remove)
  moreover have "(\<Sum>x \<in> {..<n} - {i}. g x) = (\<Sum>x \<in> {..<n} - {i}. f x)"
    using assms(2) by (intro sum.cong) auto
  ultimately show ?thesis by (simp add: ac_simps)
qed

lemma buffered_upd:
  assumes "ch < st_fresh s"
  shows "buffered (upd_core ch f s) + mset (cc_buf (st_core s ch)) =
    buffered s + mset (cc_buf (f (st_core s ch)))"
  using sum_point [OF assms, of "\<lambda>x. mset (cc_buf (st_core (upd_core ch f s) x))"
      "\<lambda>x. mset (cc_buf (st_core s x))"]
  by (simp add: buffered_def)

lemma in_slots_upd:
  assumes "w < st_fresh s"
  shows "in_slots (upd_waiter w f s) + opt_mset (wt_slot (st_waiter s w)) =
    in_slots s + opt_mset (wt_slot (f (st_waiter s w)))"
  using sum_point [OF assms, of "\<lambda>x. opt_mset (wt_slot (st_waiter (upd_waiter w f s) x))"
      "\<lambda>x. opt_mset (wt_slot (st_waiter s x))"]
  by (simp add: in_slots_def)

lemma posted_upd:
  assumes "i < st_fresh s"
  shows "posted (upd_offer i f s) + posted_value s i = posted s + posted_value (upd_offer i f s) i"
  using sum_point [OF assms, of "posted_value (upd_offer i f s)" "posted_value s"]
  by (simp add: posted_def posted_value_def)

lemma posted_value_cong:
  "of_state (st_offer t i) = of_state (st_offer s i) \<Longrightarrow> of_value (st_offer t i) = of_value (st_offer s i) \<Longrightarrow>
    posted_value t i = posted_value s i"
  unfolding posted_value_def by simp

lemma content_cong:
  assumes "st_fresh t = st_fresh s"
    and "\<And>x. cc_buf (st_core t x) = cc_buf (st_core s x)"
    and "\<And>x. wt_slot (st_waiter t x) = wt_slot (st_waiter s x)"
    and "\<And>x. of_state (st_offer t x) = of_state (st_offer s x)"
    and "\<And>x. of_value (st_offer t x) = of_value (st_offer s x)"
  shows "content t = content s"
  unfolding content_def buffered_def in_slots_def posted_def posted_value_def assms ..

lemma content_fields [simp]:
  "content (wake w s) = content s"
  "content (wake_all ws s) = content s"
  "content (claim_opt mo s) = content s"
  "content (claim m s) = content s"
  by (rule content_cong; simp)+

text \<open>A new address brings what it is made with.\<close>

lemma content_grow:
  assumes "st_fresh t = Suc (st_fresh s)"
    and "\<And>x. x < st_fresh s \<Longrightarrow> cc_buf (st_core t x) = cc_buf (st_core s x)"
    and "\<And>x. x < st_fresh s \<Longrightarrow> wt_slot (st_waiter t x) = wt_slot (st_waiter s x)"
    and "\<And>x. x < st_fresh s \<Longrightarrow> st_offer t x = st_offer s x"
  shows "content t = content s + (mset (cc_buf (st_core t (st_fresh s))) +
    opt_mset (wt_slot (st_waiter t (st_fresh s))) + posted_value t (st_fresh s))"
proof -
  have "posted_value t x = posted_value s x" if "x < st_fresh s" for x
    by (rule posted_value_cong) (simp_all add: assms(4) that)
  then have "posted t = posted s + posted_value t (st_fresh s)"
    by (simp add: posted_def assms(1))
  then show ?thesis
    using assms(2,3) by (simp add: content_def buffered_def in_slots_def assms(1) ac_simps)
qed

text \<open>A change of a channel that keeps its buffer, of a waiter that keeps its slot, or of an
  offer that keeps its state and value.\<close>

lemma content_upd_core: "(\<And>c. cc_buf (f c) = cc_buf c) \<Longrightarrow> content (upd_core ch f s) = content s"
  by (rule content_cong) simp_all

lemma content_upd_waiter: "(\<And>w. wt_slot (f w) = wt_slot w) \<Longrightarrow> content (upd_waiter i f s) = content s"
  by (rule content_cong) simp_all

lemma content_upd_offer:
  "(\<And>x. of_state (f x) = of_state x) \<Longrightarrow> (\<And>x. of_value (f x) = of_value x) \<Longrightarrow>
    content (upd_offer i f s) = content s"
  by (rule content_cong) simp_all

lemma posted_same: "(\<And>x. st_offer t x = st_offer s x) \<Longrightarrow> st_fresh t = st_fresh s \<Longrightarrow> posted t = posted s"
  unfolding posted_def posted_value_def by (simp only:)

lemma content_buf:
  assumes "ch < st_fresh s"
  shows "content (upd_core ch f s) + mset (cc_buf (st_core s ch)) =
    content s + mset (cc_buf (f (st_core s ch)))"
  using buffered_upd [OF assms, of f]
  by (simp add: content_def in_slots_def posted_same [of "upd_core ch f s" s]
      ac_simps)

lemma content_slot:
  assumes "w < st_fresh s"
  shows "content (upd_waiter w f s) + opt_mset (wt_slot (st_waiter s w)) =
    content s + opt_mset (wt_slot (f (st_waiter s w)))"
  using in_slots_upd [OF assms, of f]
  by (simp add: content_def buffered_def posted_same [of "upd_waiter w f s" s]
      ac_simps)

lemma content_offer:
  assumes "i < st_fresh s"
  shows "content (upd_offer i f s) + posted_value s i = content s + posted_value (upd_offer i f s) i"
  using posted_upd [OF assms, of f]
  by (simp add: content_def buffered_def in_slots_def ac_simps)

section \<open>What each operation does to the content\<close>

lemma take_slot_content:
  assumes "\<And>w. wo = Some w \<Longrightarrow> w < st_fresh s"
  shows "content s = content (snd (take_slot wo s)) + opt_mset (fst (take_slot wo s))"
  using content_slot [of "the wo" s "wt_slot_update (\<lambda>_. None)"] assms
  by (cases wo) (auto simp: take_slot_def)

lemma forget_content [simp]: "content (snd (forget_waiter r s)) = content s"
  by (simp add: forget_waiter_def content_upd_core split: option.split)

lemma take_offer_content:
  assumes ok: "queues_ok s" and v: "values_ok s"
  shows "content s = content (snd (take_offer ch me s)) + opt_mset (map_option fst (fst (take_offer ch me s)))"
proof (cases "position (may_take s me) (cc_offers (st_core s ch))")
  case None
  then show ?thesis by (simp add: take_offer_def)
next
  case (Some pos)
  let ?o = "cc_offers (st_core s ch) ! pos"
  let ?t = "upd_offer ?o (\<lambda>x. x\<lparr>of_state := Taken, of_value := None\<rparr>) s"
  have o: "?o < st_fresh s" "of_state (st_offer s ?o) = Open"
    using position_nth_mem [OF Some] queues_okD(3,4) [OF ok, of ?o ch] by simp_all
  then obtain x where x: "of_value (st_offer s ?o) = Some x" using v by (auto simp: values_ok_def)
  have "content (snd (take_offer ch me s)) = content ?t"
    by (rule content_cong) (simp_all add: take_offer_def Some Let_def)
  moreover have "content ?t + {#x#} = content s"
    using content_offer [OF o(1), of "\<lambda>x. x\<lparr>of_state := Taken, of_value := None\<rparr>"] o(2) x
    by (simp add: posted_value_def)
  ultimately show ?thesis by (simp add: take_offer_def Some Let_def x)
qed

lemma fill_waiter_content:
  assumes "queues_ok s"
  shows "content (snd (fill_waiter ch v me s)) =
    content s + (if fst (fill_waiter ch v me s) = None then {#} else {#v#})"
proof (cases "find (may_fill s me) (cc_waiters (st_core s ch))")
  case None
  then show ?thesis by (simp add: fill_waiter_def)
next
  case (Some w)
  from find_Some_nth [OF Some] have "w < st_fresh s" "wt_slot (st_waiter s w) = None"
    using queues_okD(5) [OF assms] by (auto simp: may_fill_def)
  then show ?thesis
    using content_slot [of w s "wt_slot_update (\<lambda>_. Some v)"] by (simp add: fill_waiter_def Some)
qed

text \<open>One step of a buffer: what is read off its front or put on its back.\<close>

lemma content_pop:
  assumes "ch < st_fresh s" and "cc_buf (st_core s ch) = v # rest" and "cc_buf (f (st_core s ch)) = rest"
  shows "content s = content (upd_core ch f s) + {#v#}"
  using content_buf [OF assms(1), of f] assms(2,3) by simp

lemma content_push:
  assumes "ch < st_fresh s" and "mset (cc_buf (f (st_core s ch))) = mset (cc_buf (st_core s ch)) + M"
  shows "content (upd_core ch f s) = content s + M"
  using content_buf [OF assms(1), of f] assms(2)
  by (simp add: union_assoc [symmetric] union_commute [of M])

lemma poll_recv_content:
  assumes "local_only s" and "ch < st_fresh s" and "poll_recv env ch wk s = (got, s')"
  shows "content s = content s' + (case got of Ready (Inr (Some v)) \<Rightarrow> {#v#} | _ \<Rightarrow> {#})"
proof (cases "cc_buf (st_core s ch)")
  case (Cons v rest)
  with assms(3) have "got = Ready (Inr (Some v))"
    and "s' = wake_all (cc_send_wakers (st_core s ch))
      (upd_core ch (\<lambda>c. c\<lparr>cc_buf := rest, cc_send_wakers := []\<rparr>) s)"
    by (simp_all add: poll_recv_def)
  then show ?thesis
    using content_pop [OF assms(2) Cons, of "\<lambda>c. c\<lparr>cc_buf := rest, cc_send_wakers := []\<rparr>"] by simp
next
  case Nil
  with assms(1,3) show ?thesis
    by (auto simp: poll_recv_def Let_def local_only_def content_upd_core split: if_splits)
qed

lemma unrecv_content: "ch < st_fresh s \<Longrightarrow> content (unrecv ch v s) = content s + {#v#}"
  by (simp add: unrecv_def receiver_wakers_eq Let_def content_upd_core content_push)

lemma poll_send_content:
  assumes "ch < st_fresh s" and "poll_send ch wk slot s = (got, slot', s')"
  shows "content s + opt_mset slot = content s' + opt_mset slot'"
  using assms
  by (auto simp: poll_send_def Let_def content_upd_core content_push split: if_splits option.splits)

section \<open>Local channels stay local, values stay where they are\<close>

definition flow_ok :: "'q chan_store \<Rightarrow> bool" where
  "flow_ok s \<longleftrightarrow> local_only s \<and> values_ok s"

lemma local_only_fields [simp]:
  "local_only (wake w s) = local_only s"
  "local_only (wake_all ws s) = local_only s"
  "local_only (claim m s) = local_only s"
  "local_only (claim_opt mo s) = local_only s"
  "local_only (upd_waiter i f s) = local_only s"
  "local_only (upd_offer i g s) = local_only s"
  by (simp_all add: local_only_def)

lemma values_ok_fields [simp]:
  "values_ok (wake w s) = values_ok s"
  "values_ok (wake_all ws s) = values_ok s"
  "values_ok (claim m s) = values_ok s"
  "values_ok (claim_opt mo s) = values_ok s"
  by (simp_all add: values_ok_def)

lemma flow_ok_fields [simp]:
  "flow_ok (wake w s) = flow_ok s"
  "flow_ok (wake_all ws s) = flow_ok s"
  "flow_ok (claim m s) = flow_ok s"
  "flow_ok (claim_opt mo s) = flow_ok s"
  by (simp_all add: flow_ok_def)

lemma flow_ok_core:
  assumes "flow_ok s" and "ch < st_fresh s \<or> cc_buf (f (st_core s ch)) = cc_buf (st_core s ch)"
    and "cc_source (f (st_core s ch)) = cc_source (st_core s ch)"
    and "cc_sink (f (st_core s ch)) = cc_sink (st_core s ch)"
  shows "flow_ok (upd_core ch f s)"
  using assms unfolding flow_ok_def local_only_def values_ok_def by auto

lemma flow_ok_waiter: "flow_ok s \<Longrightarrow> w < st_fresh s \<Longrightarrow> flow_ok (upd_waiter w f s)"
  unfolding flow_ok_def local_only_def values_ok_def by auto

lemma flow_ok_waker: "flow_ok s \<Longrightarrow> flow_ok (upd_waiter w (wt_waker_update f) s)"
  unfolding flow_ok_def local_only_def values_ok_def by auto

lemma flow_ok_offer:
  assumes "flow_ok s"
    and "of_state (f (st_offer s i)) = Open \<Longrightarrow> of_state (st_offer s i) = Open \<and> of_value (f (st_offer s i)) \<noteq> None"
  shows "flow_ok (upd_offer i f s)"
  using assms unfolding flow_ok_def local_only_def values_ok_def by auto

lemmas flow_ok_intros = flow_ok_core flow_ok_waiter flow_ok_waker flow_ok_offer

lemma flow_okD: "flow_ok s \<Longrightarrow> local_only s" "flow_ok s \<Longrightarrow> values_ok s"
  "flow_ok s \<Longrightarrow> cc_source (st_core s ch) = None" "flow_ok s \<Longrightarrow> cc_sink (st_core s ch) = None"
  by (simp_all add: flow_ok_def local_only_def)

lemma take_slot_flow: "flow_ok s \<Longrightarrow> flow_ok (snd (take_slot wo s))"
  by (auto simp: take_slot_def flow_ok_def local_only_def values_ok_def split: option.split)

lemma forget_flow: "flow_ok s \<Longrightarrow> flow_ok (snd (forget_waiter r s))"
  by (auto simp: forget_waiter_def intro: flow_ok_core split: option.split)

lemma take_offer_flow: "flow_ok s \<Longrightarrow> flow_ok (snd (take_offer ch me s))"
  by (auto simp: take_offer_def Let_def intro!: flow_ok_intros split: option.split)

lemma fill_waiter_flow: "flow_ok s \<Longrightarrow> queues_ok s \<Longrightarrow> flow_ok (snd (fill_waiter ch v me s))"
  using queues_okD(5)
  by (fastforce simp: fill_waiter_def intro: flow_ok_waiter dest: find_Some_nth split: option.split)

lemma unrecv_flow: "flow_ok s \<Longrightarrow> ch < st_fresh s \<Longrightarrow> flow_ok (unrecv ch v s)"
  by (auto simp: unrecv_def receiver_wakers_eq Let_def intro!: flow_ok_core)

lemma poll_recv_flow: "flow_ok s \<Longrightarrow> ch < st_fresh s \<Longrightarrow> flow_ok (snd (poll_recv env ch wk s))"
  using flow_okD(3) [of s ch]
  by (auto simp: poll_recv_def Let_def intro!: flow_ok_core split: list.split)

lemma poll_send_flow: "flow_ok s \<Longrightarrow> ch < st_fresh s \<Longrightarrow> flow_ok (snd (snd (poll_send ch wk slot s)))"
  by (auto simp: poll_send_def Let_def intro!: flow_ok_core)

lemma wait_recv_flow:
  assumes "flow_ok s"
  shows "flow_ok (snd (wait_recv wk r s))"
  using assms
  by (auto simp: wait_recv_def Let_def flow_ok_def local_only_def values_ok_def split: option.split)

lemma wait_recv_content:
  assumes "values_ok s"
  shows "content (snd (wait_recv wk r s)) = content s"
proof (cases "r_waiter r")
  case (Some w)
  then show ?thesis by (simp add: wait_recv_def content_upd_waiter)
next
  case None
  let ?t = "snd (wait_recv wk r s)"
  have "content ?t = content s + (mset (cc_buf (st_core ?t (st_fresh s))) +
      opt_mset (wt_slot (st_waiter ?t (st_fresh s))) + posted_value ?t (st_fresh s))"
    by (rule content_grow) (simp_all add: wait_recv_def None Let_def)
  moreover have "posted_value ?t (st_fresh s) = {#}"
    using assms by (simp add: posted_value_def values_ok_def wait_recv_def None Let_def)
  ultimately show ?thesis
    using assms by (simp add: values_ok_def wait_recv_def None Let_def)
qed

text \<open>A receive future takes exactly what it returns; one that is dropped takes nothing.\<close>

lemma receiving_poll_flow:
  assumes ok: "store_ok s" and r: "receiving_ok s r" and fl: "flow_ok s"
    and eq: "receiving_poll env wk r s = (got, r', s')"
  shows "flow_ok s' \<and> content s = content s' + (case got of Ready (Inr (Some v)) \<Rightarrow> {#v#} | _ \<Rightarrow> {#})"
proof (cases "cc_cap (st_core s (r_chan r)) \<noteq> 0 \<or> cc_source (st_core s (r_chan r)) \<noteq> None")
  case True
  then have p: "poll_recv env (r_chan r) wk s = (got, s')"
    using eq by (auto simp: receiving_poll_def Let_def split: prod.splits)
  have "r_chan r < st_fresh s" using r by (simp add: receiving_ok_def)
  then show ?thesis
    using poll_recv_flow [OF fl, of "r_chan r" env wk] poll_recv_content [OF flow_okD(1) [OF fl] _ p] p by simp
next
  case False
  let ?ch = "r_chan r"
  have ch: "?ch < st_fresh s" and w: "\<And>w. r_waiter r = Some w \<Longrightarrow> w < st_fresh s"
    using r by (auto simp: receiving_ok_def)
  obtain slot s1 where sl: "take_slot (r_waiter r) s = (slot, s1)" by fastforce
  have c1: "content s = content s1 + opt_mset slot" and f1: "flow_ok s1" and q1: "queues_ok s1"
    and core1: "st_core s1 = st_core s"
    using take_slot_content [of "r_waiter r" s] w take_slot_flow [OF fl, of "r_waiter r"]
      take_slot_ok [OF ok, of "r_waiter r"] take_slot_core [of "r_waiter r" s]
    by (simp_all add: sl store_ok_def)
  have ch1: "?ch < st_fresh s1"
    using ch sl by (auto simp: take_slot_def split: option.splits)
  obtain got2 s2 where to: "take_offer ?ch (r_select r) s1 = (got2, s2)" by fastforce
  have c2: "content s1 = content s2 + opt_mset (map_option fst got2)" and f2: "flow_ok s2"
    using take_offer_content [OF q1 flow_okD(2) [OF f1], of ?ch "r_select r"]
      take_offer_flow [OF f1, of ?ch "r_select r"] by (simp_all add: to)
  have pop: "flow_ok (upd_core ?ch (cc_buf_update (\<lambda>_. rest)) s1) \<and>
      content s1 = content (upd_core ?ch (cc_buf_update (\<lambda>_. rest)) s1) + {#v#}"
    if "cc_buf (st_core s ?ch) = v # rest" for v rest
    using content_pop [OF ch1, of v rest "cc_buf_update (\<lambda>_. rest)"] that core1 ch1
    by (auto intro: flow_ok_core [OF f1])
  have fw: "content t' = content t \<and> flow_ok t'" if "forget_waiter r t = (q, t')" "flow_ok t" for t q t'
    using forget_content [of r t] forget_flow [OF that(2), of r] that(1) by simp
  have wr: "content t' = content s2 \<and> flow_ok t'" if "wait_recv wk r s2 = (q, t')" for q t'
    using wait_recv_content [OF flow_okD(2) [OF f2], of wk r] wait_recv_flow [OF f2, of wk r] that by simp
  have local: "cc_source (st_core s ?ch) = None" "cc_cap (st_core s ?ch) = 0" using False by simp_all
  show ?thesis
  proof (cases slot)
    case (Some v)
    with eq local show ?thesis
      by (auto simp: receiving_poll_def sl c1 f1 dest!: fw split: prod.splits)
  next
    case None
    note empty = this
    show ?thesis
    proof (cases "cc_buf (st_core s ?ch)")
      case (Cons v rest)
      with eq local empty pop show ?thesis
        by (auto simp: receiving_poll_def sl c1 dest!: fw split: prod.splits)
    next
      case Nil
      with eq local empty show ?thesis
        by (cases got2) (auto simp: receiving_poll_def sl to c1 c2 f2 dest!: fw wr split: if_splits prod.splits)
    qed
  qed
qed

lemma receiving_drop_flow:
  assumes ok: "store_ok s" and r: "receiving_ok s r" and fl: "flow_ok s"
  shows "flow_ok (receiving_drop r s) \<and> content (receiving_drop r s) = content s"
proof (cases "r_waiter r")
  case None
  with fl show ?thesis by (simp add: receiving_drop_def receiving_withdraw_def)
next
  case (Some w)
  let ?s1 = "upd_core (r_chan r) (cc_waiters_update (removeAll w)) s"
  have w: "w < st_fresh s" "r_chan r < st_fresh s"
    using r Some by (auto simp: receiving_ok_def)
  obtain slot s2 where sl: "take_slot (Some w) ?s1 = (slot, s2)" by fastforce
  have f2: "flow_ok s2"
    using take_slot_flow [of ?s1 "Some w"] flow_ok_core [OF fl, of "r_chan r"] by (simp add: sl)
  have c2: "content s = content s2 + opt_mset slot"
    using take_slot_content [of "Some w" ?s1] w by (simp add: sl content_upd_core)
  have ch: "r_chan r < st_fresh s2"
    using w(2) sl by (auto simp: take_slot_def)
  show ?thesis
    using unrecv_flow [OF f2 ch] unrecv_content [OF ch] f2 c2
    by (auto simp: receiving_drop_def receiving_withdraw_def Some Let_def sl split: option.split)
qed

lemma try_recv_flow:
  assumes ok: "store_ok s" and fl: "flow_ok s" and ch: "ch < st_fresh s"
    and eq: "try_recv env ch s = (got, s')"
  shows "flow_ok s' \<and> content s = content s' + (case got of Inr (TryValue v) \<Rightarrow> {#v#} | _ \<Rightarrow> {#})"
proof (cases "cc_buf (st_core s ch)")
  case (Cons v rest)
  let ?f = "\<lambda>c. c\<lparr>cc_buf := rest, cc_send_wakers := []\<rparr>"
  have "flow_ok (upd_core ch ?f s)" by (rule flow_ok_core [OF fl]) (use ch in simp_all)
  then show ?thesis
    using eq content_pop [OF ch Cons, of ?f] by (auto simp: try_recv_def Cons)
next
  case Nil
  obtain got2 s2 where to: "take_offer ch None s = (got2, s2)" by fastforce
  have t: "content s = content s2 + opt_mset (map_option fst got2) \<and> flow_ok s2"
    using take_offer_content [OF store_okD(1) [OF ok] flow_okD(2) [OF fl], of ch None]
      take_offer_flow [OF fl, of ch None] by (simp add: to)
  show ?thesis
  proof (cases "cc_cap (st_core s ch) = 0")
    case True
    with eq t flow_okD(3) [OF fl, of ch] show ?thesis
      by (cases got2) (auto simp: try_recv_def Let_def Nil to split: if_splits)
  next
    case False
    with eq fl flow_okD(3) [OF fl, of ch] show ?thesis
      by (auto simp: try_recv_def Let_def Nil)
  qed
qed

section \<open>Sending\<close>

text \<open>A send future that can still be polled holds its value, or its offer does.\<close>

definition sending_full :: "sending \<Rightarrow> bool" where
  "sending_full sd \<longleftrightarrow> (s_offer sd = None \<longleftrightarrow> s_value sd \<noteq> None)"

lemma post_offer_flow:
  assumes fl: "flow_ok s" and v: "s_value sd = Some v" and eq: "post_offer wk sd s = (sd', s')"
  shows "flow_ok s' \<and> content s' = content s + {#v#} \<and> s_value sd' = None \<and> s_offer sd' = Some (st_fresh s)"
proof -
  have s': "s' = snd (post_offer wk sd s)" and sd': "sd' = fst (post_offer wk sd s)" by (simp_all add: eq)
  note d = post_offer_def receiver_wakers_eq Let_def
  have new: "cc_buf (st_core s (st_fresh s)) = []" "wt_slot (st_waiter s (st_fresh s)) = None"
    using flow_okD(2) [OF fl] by (simp_all add: values_ok_def)
  have "content s' = content s + (mset (cc_buf (st_core s' (st_fresh s))) +
      opt_mset (wt_slot (st_waiter s' (st_fresh s))) + posted_value s' (st_fresh s))"
    by (rule content_grow) (simp_all add: s' d)
  moreover have "posted_value s' (st_fresh s) = {#v#}"
    by (simp add: posted_value_def s' d v)
  moreover have "flow_ok s'"
    using fl by (auto simp: s' d flow_ok_def local_only_def values_ok_def v)
  moreover have "cc_buf (st_core s' (st_fresh s)) = []" "wt_slot (st_waiter s' (st_fresh s)) = None"
    using new by (auto simp: s' d)
  moreover have "s_value sd' = None \<and> s_offer sd' = Some (st_fresh s)" by (simp add: sd' d)
  ultimately show ?thesis by simp
qed

lemma poll_local_flow:
  assumes ok: "store_ok s" and sd: "sending_ok s sd" and fl: "flow_ok s" and full: "sending_full sd"
    and eq: "poll_local wk sd s = (got, sd', s')"
  shows "flow_ok s' \<and> content s + opt_mset (s_value sd) = content s' + opt_mset (s_value sd') \<and>
    (got = Pending \<longrightarrow> sending_full sd')"
proof -
  let ?ch = "s_chan sd"
  have ch: "?ch < st_fresh s" using sd by (simp add: sending_ok_def)
  have push: "flow_ok t \<and> content s + opt_mset (s_value sd) = content t + opt_mset slot"
    if "poll_send ?ch wk (s_value sd) s = (g, slot, t)" for g slot t
    using poll_send_flow [OF fl ch, of wk "s_value sd"] poll_send_content [OF ch that] by (simp add: that)
  have kept: "slot = s_value sd" if "poll_send ?ch wk (s_value sd) s = (Pending, slot, t)" for slot t
    using that by (auto simp: poll_send_def Let_def split: if_splits)
  have fill: "flow_ok t \<and> content t = content s + (if g = None then {#} else {#v#})"
    if "fill_waiter ?ch v (s_select sd) s = (g, t)" for g v t
    using fill_waiter_flow [OF fl store_okD(1) [OF ok], of ?ch v "s_select sd"]
      fill_waiter_content [OF store_okD(1) [OF ok], of ?ch v "s_select sd"] by (simp add: that)
  have up: "flow_ok (upd_offer i (of_waker_update f) s)" for i f
    by (rule flow_ok_offer [OF fl]) (use fl in \<open>auto simp: flow_ok_def values_ok_def\<close>)
  consider (buffered) "cc_cap (st_core s ?ch) \<noteq> 0"
    | (posted) i where "cc_cap (st_core s ?ch) = 0" "s_offer sd = Some i"
    | (fresh) v where "cc_cap (st_core s ?ch) = 0" "s_offer sd = None" "s_value sd = Some v"
    using full by (cases "s_offer sd") (auto simp: sending_full_def)
  then show ?thesis
  proof cases
    case buffered
    then obtain slot where p: "poll_send ?ch wk (s_value sd) s = (got, slot, s')" "sd' = sd\<lparr>s_value := slot\<rparr>"
      using eq by (auto simp: poll_local_def Let_def split: prod.splits)
    show ?thesis using push [OF p(1)] kept p full by (auto simp: sending_full_def)
  next
    case posted
    then show ?thesis
      using eq fl full up
      by (auto simp: poll_local_def Let_def content_upd_offer split: offer_state.splits if_splits)
  next
    case fresh
    have post: "flow_ok t \<and> content t = content s + {#v#} \<and> s_value q = None \<and> s_offer q = Some (st_fresh s)"
      if "post_offer wk sd s = (q, t)" for q t
      by (rule post_offer_flow [OF fl fresh(3) that])
    show ?thesis
      using eq fl fresh full
      by (auto simp: poll_local_def Let_def sending_full_def dest!: fill post
          split: if_splits prod.splits option.splits)
  qed
qed

lemma sending_drop_flow:
  assumes sd: "sending_ok s sd" and fl: "flow_ok s"
  shows "flow_ok (sending_drop env sd s) \<and> content s = content (sending_drop env sd s) + sending_posted s sd"
proof -
  obtain sd1 s1 where a: "drop_reserve env sd s = (sd1, s1)" by fastforce
  have a': "s1 = s" "s_offer sd1 = s_offer sd" "s_chan sd1 = s_chan sd"
    using a flow_okD(4) [OF fl, of "s_chan sd"] by (auto simp: drop_reserve_def split: option.splits)
  obtain sd2 s2 where b: "leave_sink_waiters sd1 s1 = (sd2, s2)" by fastforce
  have f2: "flow_ok s2" "content s2 = content s" "st_offer s2 = st_offer s" "st_fresh s2 = st_fresh s"
    "s_offer sd2 = s_offer sd"
    using b fl a'
    by (auto simp: leave_sink_waiters_def content_upd_core intro!: flow_ok_core split: option.splits)
  have drop: "sending_drop env sd s = snd (withdraw_offer sd2 s2)"
    by (simp add: sending_drop_def sending_withdraw_def a b)
  show ?thesis
  proof (cases "s_offer sd")
    case None
    then show ?thesis using f2 by (simp add: drop withdraw_offer_def sending_posted_def)
  next
    case (Some i)
    show ?thesis
    proof (cases "of_state (st_offer s i) = Open")
      case False
      then show ?thesis
        using f2 Some by (simp add: drop withdraw_offer_def sending_posted_def posted_value_def)
    next
      case True
      let ?t = "upd_offer i (of_state_update (\<lambda>_. Withdrawn)) s2"
      have i: "i < st_fresh s2" using sd Some f2 by (simp add: sending_ok_def)
      have "content ?t + posted_value s i = content s2"
        using content_offer [OF i, of "of_state_update (\<lambda>_. Withdrawn)"]
          posted_value_cong [of s2 i s] f2(3) by (simp add: posted_value_def)
      moreover have "flow_ok ?t" by (rule flow_ok_offer [OF f2(1)]) simp
      ultimately show ?thesis
        using f2 Some True
        by (auto simp: drop withdraw_offer_def sending_posted_def content_upd_core intro: flow_ok_core)
    qed
  qed
qed

section \<open>Operations without a future\<close>

lemma push_buf_flow:
  assumes fl: "flow_ok s" and ch: "ch < st_fresh s"
  shows "flow_ok (upd_core ch (\<lambda>c. c\<lparr>cc_buf := cc_buf c @ [v], cc_recv_wakers := []\<rparr>) s) \<and>
    content (upd_core ch (\<lambda>c. c\<lparr>cc_buf := cc_buf c @ [v], cc_recv_wakers := []\<rparr>) s) = content s + {#v#}"
  using content_push [OF ch, of "\<lambda>c. c\<lparr>cc_buf := cc_buf c @ [v], cc_recv_wakers := []\<rparr>" "{#v#}"]
    flow_ok_core [OF fl, of ch "\<lambda>c. c\<lparr>cc_buf := cc_buf c @ [v], cc_recv_wakers := []\<rparr>"] ch
  by simp

lemma try_send_flow:
  assumes ok: "store_ok s" and fl: "flow_ok s" and ch: "ch < st_fresh s"
    and eq: "try_send env ch v s = (got, s')"
  shows "flow_ok s' \<and> content s' = content s + (case got of Inr (Inr True) \<Rightarrow> {#v#} | _ \<Rightarrow> {#})"
proof -
  have fill: "flow_ok t \<and> content t = content s + (if g = None then {#} else {#v#})"
    if "fill_waiter ch v None s = (g, t)" for g t
    using fill_waiter_flow [OF fl store_okD(1) [OF ok], of ch v None]
      fill_waiter_content [OF store_okD(1) [OF ok], of ch v None] by (simp add: that)
  show ?thesis
    using eq fl flow_okD(4) [OF fl, of ch] push_buf_flow [OF fl ch, of v]
    by (auto simp: try_send_def Let_def dest!: fill split: if_splits prod.splits option.splits)
qed

lemma push_newest_flow:
  assumes fl: "flow_ok s" and ch: "ch < st_fresh s" and eq: "push_newest ch v s = (pushed, s')"
  shows "flow_ok s' \<and> content s' + (if pushed \<and> cc_cap (st_core s ch) \<le> length (cc_buf (st_core s ch)) \<and>
      cc_buf (st_core s ch) \<noteq> [] then {#last (cc_buf (st_core s ch))#} else {#}) =
    content s + (if pushed then {#v#} else {#})"
proof -
  let ?b = "cc_buf (st_core s ch)"
  let ?b' = "if cc_cap (st_core s ch) \<le> length ?b then butlast ?b else ?b"
  have "mset ?b = mset (butlast ?b) + {#last ?b#}" if "?b \<noteq> []"
    using append_butlast_last_id [OF that] by (metis mset.simps(1,2) mset_append)
  then show ?thesis
    using eq fl ch content_buf [OF ch, of "cc_buf_update (\<lambda>_. ?b' @ [v])"]
    by (auto simp: push_newest_def Let_def receiver_wakers_eq content_upd_core
        intro!: flow_ok_core split: if_splits)
qed

lemma alloc_chan_flow:
  assumes fl: "flow_ok s" and c: "cc_buf c = []" "cc_source c = None" "cc_sink c = None"
  shows "flow_ok (snd (alloc_chan c s)) \<and> content (snd (alloc_chan c s)) = content s"
proof -
  let ?t = "snd (alloc_chan c s)"
  have new: "wt_slot (st_waiter s (st_fresh s)) = None" "of_state (st_offer s (st_fresh s)) \<noteq> Open"
    using flow_okD(2) [OF fl] by (simp_all add: values_ok_def)
  have "content ?t = content s + (mset (cc_buf (st_core ?t (st_fresh s))) +
    opt_mset (wt_slot (st_waiter ?t (st_fresh s))) + posted_value ?t (st_fresh s))"
    by (rule content_grow) (simp_all add: alloc_chan_def)
  moreover have "flow_ok ?t"
    using fl by (auto simp: flow_ok_def local_only_def values_ok_def alloc_chan_def c)
  ultimately show ?thesis using new by (simp add: alloc_chan_def c posted_value_def)
qed

lemma mark_new_flow:
  assumes fl: "flow_ok s"
  shows "flow_ok (snd (mark_new s)) \<and> content (snd (mark_new s)) = content s"
proof -
  let ?t = "snd (mark_new s)"
  have new: "wt_slot (st_waiter s (st_fresh s)) = None" "of_state (st_offer s (st_fresh s)) \<noteq> Open"
    "cc_buf (st_core s (st_fresh s)) = []"
    using flow_okD(2) [OF fl] by (simp_all add: values_ok_def)
  have "content ?t = content s + (mset (cc_buf (st_core ?t (st_fresh s))) +
    opt_mset (wt_slot (st_waiter ?t (st_fresh s))) + posted_value ?t (st_fresh s))"
    by (rule content_grow) (simp_all add: mark_new_def)
  moreover have "flow_ok ?t"
    using fl by (auto simp: flow_ok_def local_only_def values_ok_def mark_new_def)
  ultimately show ?thesis using new by (simp add: mark_new_def posted_value_def)
qed

lemma withdraw_all_flow:
  assumes "distinct os" and "\<And>i. i \<in> set os \<Longrightarrow> i < st_fresh s" and "flow_ok s"
  shows "flow_ok (fold (\<lambda>i. upd_offer i (of_state_update (\<lambda>_. Withdrawn))) os s) \<and>
    content s = content (fold (\<lambda>i. upd_offer i (of_state_update (\<lambda>_. Withdrawn))) os s) +
      sum_list (map (posted_value s) os)"
  using assms
proof (induction os arbitrary: s)
  case Nil
  then show ?case by simp
next
  case (Cons i os)
  let ?t = "upd_offer i (of_state_update (\<lambda>_. Withdrawn)) s"
  have f: "flow_ok ?t" by (rule flow_ok_offer [OF Cons.prems(3)]) simp
  have c: "content ?t + posted_value s i = content s"
    using content_offer [of i s "of_state_update (\<lambda>_. Withdrawn)"] Cons.prems(2) by (simp add: posted_value_def)
  have m: "map (posted_value ?t) os = map (posted_value s) os"
    using Cons.prems(1) by (auto intro!: posted_value_cong)
  let ?u = "fold (\<lambda>i. upd_offer i (of_state_update (\<lambda>_. Withdrawn))) os ?t"
  have IH: "flow_ok ?u \<and> content ?t = content ?u + sum_list (map (posted_value ?t) os)"
    by (rule Cons.IH) (use Cons.prems f in simp_all)
  then have "content s = content ?u + sum_list (map (posted_value s) os) + posted_value s i"
    using c by (simp only: m [symmetric])
  with IH show ?case by (simp add: ac_simps)
qed

lemma chan_close_flow:
  assumes ok: "store_ok s" and fl: "flow_ok s" and ch: "ch < st_fresh s"
  shows "flow_ok (chan_close env ch s) \<and> content s = content (chan_close env ch s) +
    (if cc_closed (st_core s ch) then {#} else sum_list (map (posted_value s) (cc_offers (st_core s ch))))"
proof (cases "cc_closed (st_core s ch)")
  case True
  with fl show ?thesis by (simp add: chan_close_def)
next
  case False
  let ?os = "cc_offers (st_core s ch)"
  let ?t = "fold (\<lambda>i. upd_offer i (of_state_update (\<lambda>_. Withdrawn))) ?os s"
  note q = queues_okD [OF store_okD(1) [OF ok]]
  note w = withdraw_all_flow [OF q(1) [of ch] q(3) [of _ ch] fl]
  note fl' = chan_close_fields [OF False]
  have "content (chan_close env ch s) = content ?t"
    by (rule content_cong) (simp_all add: fl' fold_upd_offer)
  moreover have "flow_ok (chan_close env ch s)"
    using fl by (auto simp: flow_ok_def local_only_def values_ok_def fl' split: if_splits)
  ultimately show ?thesis using w False by simp
qed

section \<open>Runs on local channels\<close>

definition held :: "'q chan_sys \<Rightarrow> lua_value multiset" where
  "held S = (\<Sum>i < cs_next S. case cs_sends S i of None \<Rightarrow> {#} | Some sd \<Rightarrow> opt_mset (s_value sd))"

fun local_op :: "'q cop \<Rightarrow> bool" where
  "local_op (NewHost _) = False"
| "local_op (NewToHost _) = False"
| "local_op _ = True"

definition balanced :: "'q chan_sys \<Rightarrow> bool" where
  "balanced S \<longleftrightarrow> cs_in S = cs_out S + content (cs_store S) + held S + cs_lost S"

definition cons_ok :: "'q chan_sys \<Rightarrow> bool" where
  "cons_ok S \<longleftrightarrow> sys_ok S \<and> flow_ok (cs_store S) \<and>
    (\<forall>i sd. cs_sends S i = Some sd \<longrightarrow> sending_full sd) \<and> balanced S"

lemma cons_okD:
  assumes "cons_ok S"
  shows "sys_ok S" and "store_ok (cs_store S)" and "flow_ok (cs_store S)"
    and "cs_sends S i = Some sd \<Longrightarrow> sending_full sd"
    and "cs_in S = cs_out S + content (cs_store S) + held S + cs_lost S"
  using assms by (auto simp: cons_ok_def balanced_def sys_ok_def)

lemma cons_ok_init: "cons_ok sys_init"
  by (simp add: cons_ok_def sys_ok_init balanced_def)
    (simp add: sys_init_def held_def flow_ok_def local_only_def values_ok_def store_init_def with_cap_def
      content_def buffered_def in_slots_def posted_def)

lemma held_point:
  assumes "i < cs_next S" and "cs_next T = cs_next S" and "cs_sends T = (cs_sends S)(i := x)"
  shows "held T + (case cs_sends S i of None \<Rightarrow> {#} | Some sd \<Rightarrow> opt_mset (s_value sd)) =
    held S + (case x of None \<Rightarrow> {#} | Some sd \<Rightarrow> opt_mset (s_value sd))"
  using sum_point [OF assms(1), of "\<lambda>i. case cs_sends T i of None \<Rightarrow> {#} | Some sd \<Rightarrow> opt_mset (s_value sd)"
      "\<lambda>i. case cs_sends S i of None \<Rightarrow> {#} | Some sd \<Rightarrow> opt_mset (s_value sd)"]
  by (simp add: held_def assms(2,3))

text \<open>A step of the store that leaves the send futures alone.\<close>

lemma cons_ok_store:
  assumes ok: "cons_ok S" and T: "sys_ok T" "flow_ok (cs_store T)" "cs_sends T = cs_sends S" "cs_next T = cs_next S"
    and flow: "content (cs_store S) + A = content (cs_store T) + C + D"
    and io: "cs_in T = cs_in S + A" "cs_out T = cs_out S + C" "cs_lost T = cs_lost S + D"
  shows "cons_ok T"
proof -
  have h: "held T = held S" by (simp add: held_def T)
  have "cs_in T = cs_out S + held S + cs_lost S + (content (cs_store S) + A)"
    unfolding io cons_okD(5) [OF ok] by (simp only: ac_simps)
  then have "balanced T"
    unfolding balanced_def flow io(2,3) h by (simp only: ac_simps)
  with T cons_okD(4) [OF ok] show ?thesis by (simp add: cons_ok_def)
qed

text \<open>A step of one send future.\<close>

lemma cons_ok_send:
  assumes ok: "cons_ok S" and i: "cs_sends S i = Some sd"
    and T: "sys_ok T" "flow_ok (cs_store T)" "cs_sends T = (cs_sends S)(i := x)" "cs_next T = cs_next S"
    and full: "\<And>q. x = Some q \<Longrightarrow> sending_full q"
    and flow: "content (cs_store S) + opt_mset (s_value sd) =
      content (cs_store T) + (case x of None \<Rightarrow> {#} | Some q \<Rightarrow> opt_mset (s_value q)) + D"
    and io: "cs_in T = cs_in S" "cs_out T = cs_out S" "cs_lost T = cs_lost S + D"
  shows "cons_ok T"
proof -
  have "i < cs_next S" by (rule sys_okD(4) [OF cons_okD(1) [OF ok] i])
  from held_point [OF this T(4,3)]
  have h: "held T + opt_mset (s_value sd) = held S + (case x of None \<Rightarrow> {#} | Some q \<Rightarrow> opt_mset (s_value q))"
    by (simp add: i)
  have "cs_in T + opt_mset (s_value sd) =
      cs_out S + held S + cs_lost S + (content (cs_store S) + opt_mset (s_value sd))"
    unfolding io cons_okD(5) [OF ok] by (simp only: ac_simps)
  also have "\<dots> = cs_out S + cs_lost S + content (cs_store T) + D +
      (held S + (case x of None \<Rightarrow> {#} | Some q \<Rightarrow> opt_mset (s_value q)))"
    unfolding flow by (simp only: ac_simps)
  also have "\<dots> = cs_out S + cs_lost S + content (cs_store T) + D + (held T + opt_mset (s_value sd))"
    unfolding h ..
  also have "\<dots> = cs_out T + content (cs_store T) + held T + cs_lost T + opt_mset (s_value sd)"
    unfolding io by (simp only: ac_simps)
  finally have "balanced T" unfolding balanced_def by (rule add_right_imp_eq)
  moreover have "sending_full q" if "cs_sends T j = Some q" for j q
    using that full cons_okD(4) [OF ok, of j q] by (auto simp: T(3) split: if_splits)
  ultimately show ?thesis using T by (simp add: cons_ok_def)
qed

lemma poll_recv_op_cons:
  assumes ok: "cons_ok S"
  shows "cons_ok (poll_recv_op env i wk S)"
proof (cases "cs_recvs S i")
  case None
  with ok show ?thesis by (simp add: poll_recv_op_def)
next
  case (Some r)
  note sys = cons_okD(1) [OF ok]
  obtain got r1 s1 where p: "receiving_poll env wk r (cs_store S) = (got, r1, s1)"
    by (metis prod_cases3)
  note r = sys_okD(3) [OF sys Some]
  note fl = receiving_poll_flow [OF cons_okD(2) [OF ok] r cons_okD(3) [OF ok] p]
  have "recv_step r (cs_store S) r1 s1" by (rule receiving_poll_step [OF cons_okD(2) [OF ok] r p])
  then have "store_ok s1" and "receiving_ok s1 r1" by (simp_all add: recv_step_def)
  note dr = receiving_drop_flow [OF this conjunct1 [OF fl]]
  show ?thesis
  proof (cases got)
    case Pending
    show ?thesis
      by (rule cons_ok_store [OF ok poll_recv_op_ok [OF sys], where A = "{#}" and C = "{#}" and D = "{#}"])
        (use fl in \<open>simp_all add: poll_recv_op_def Some p Pending\<close>)
  next
    case (Ready x)
    show ?thesis
      by (rule cons_ok_store [OF ok poll_recv_op_ok [OF sys], where A = "{#}" and D = "{#}"
            and C = "case x of Inr (Some v) \<Rightarrow> {#v#} | _ \<Rightarrow> {#}"])
        (use fl dr in \<open>simp_all add: poll_recv_op_def Some p Ready\<close>)
  qed
qed

lemma poll_send_op_cons:
  assumes ok: "cons_ok S"
  shows "cons_ok (poll_send_op env i wk S)"
proof (cases "cs_sends S i")
  case None
  with ok show ?thesis by (simp add: poll_send_op_def)
next
  case (Some sd)
  note sys = cons_okD(1) [OF ok]
  obtain got sd1 s1 where p: "poll_local wk sd (cs_store S) = (got, sd1, s1)"
    by (metis prod_cases3)
  have p': "sending_poll env wk sd (cs_store S) = (map_poll Inr got, sd1, s1)"
    using flow_okD(4) [OF cons_okD(3) [OF ok]] by (simp add: sending_poll_def p)
  note sd = sys_okD(5) [OF sys Some]
  note fl = poll_local_flow [OF cons_okD(2) [OF ok] sd cons_okD(3) [OF ok] cons_okD(4) [OF ok Some] p]
  have step: "send_step sd (cs_store S) sd1 s1" by (rule poll_local_step [OF cons_okD(2) [OF ok] sd p])
  note dr = sending_drop_flow [OF send_stepD(2) [OF step] conjunct1 [OF fl], of env]
  show ?thesis
  proof (cases got)
    case Pending
    show ?thesis
      by (rule cons_ok_send [OF ok Some poll_send_op_ok [OF sys], where x = "Some sd1" and D = "{#}"])
        (use fl in \<open>simp_all add: poll_send_op_def Some p' Pending\<close>)
  next
    case (Ready x)
    have "of_state (st_offer (cs_store S) j) \<noteq> Open"
      if "s_offer sd = Some j" "cc_cap (st_core (cs_store S) (s_chan sd)) \<noteq> 0" for j
      using that sd store_okD(2) [OF cons_okD(2) [OF ok]] by (auto simp: sending_ok_def shape_ok_def)
    moreover have "st_offer t = st_offer (cs_store S)"
      if "poll_send (s_chan sd) wk (s_value sd) (cs_store S) = (g, x, t)" for g x t
      using that by (auto simp: poll_send_def Let_def split: if_splits)
    ultimately have "sending_posted s1 sd1 = {#}"
      using p Ready
      by (auto simp: sending_posted_def posted_value_def poll_local_def Let_def
          split: if_splits option.splits offer_state.splits prod.splits)
    then show ?thesis
      by (intro cons_ok_send [OF ok Some poll_send_op_ok [OF sys], where x = None and D = "opt_mset (s_value sd1)"])
        (use fl dr in \<open>simp_all add: poll_send_op_def Some p' Ready\<close>)
  qed
qed

text \<open>Starting a future moves its value, if it has one, from the caller into the future.\<close>

lemma cons_ok_start_recv:
  assumes ok: "cons_ok S" and "ch < st_fresh (cs_store S)" and "mark_ok (cs_store S) sel"
  shows "cons_ok (S\<lparr>cs_recvs := (cs_recvs S)(cs_next S := Some (receiving_new ch sel)), cs_next := Suc (cs_next S)\<rparr>)"
proof -
  have "cs_sends S (cs_next S) = None"
    using sys_okD(4) [OF cons_okD(1) [OF ok], of "cs_next S"] by (cases "cs_sends S (cs_next S)") auto
  then show ?thesis
    using sys_ok_start(1) [OF cons_okD(1) [OF ok] assms(2,3)] ok
    by (simp add: cons_ok_def balanced_def held_def)
qed

lemma cons_ok_start_send:
  assumes ok: "cons_ok S" and "ch < st_fresh (cs_store S)" and "mark_ok (cs_store S) sel"
  shows "cons_ok (S\<lparr>cs_sends := (cs_sends S)(cs_next S := Some (sending_new ch v sel)), cs_next := Suc (cs_next S),
    cs_in := add_mset v (cs_in S)\<rparr>)"
proof -
  have "sending_full (sending_new ch v sel)" by (simp add: sending_full_def sending_new_def)
  moreover have "held (S\<lparr>cs_sends := (cs_sends S)(cs_next S := Some (sending_new ch v sel)), cs_next := Suc (cs_next S),
    cs_in := add_mset v (cs_in S)\<rparr>) = add_mset v (held S)"
    by (simp add: held_def sending_new_def)
  ultimately show ?thesis
    using sys_ok_start(2) [OF cons_okD(1) [OF ok] assms(2,3), of "add_mset v (cs_in S)" v] ok
    by (simp add: cons_ok_def balanced_def)
qed

lemma exec_cons:
  assumes ok: "cons_ok S" and op: "local_op op"
  shows "cons_ok (exec env op S)"
proof -
  note sys = cons_okD(1) [OF ok]
  note st = cons_okD(2) [OF ok]
  note fl = cons_okD(3) [OF ok]
  note sys' = exec_ok [OF sys, of env op]
  have quiet: "cons_ok T" if "T = exec env op S" "flow_ok (cs_store T) \<and> content (cs_store T) = content (cs_store S)"
    "cs_sends T = cs_sends S" "cs_next T = cs_next S" "cs_in T = cs_in S" "cs_out T = cs_out S" "cs_lost T = cs_lost S" for T
    by (rule cons_ok_store [OF ok, where A = "{#}" and C = "{#}" and D = "{#}"]) (use that sys' in simp_all)
  have same: "cons_ok T" if "T = exec env op S" "T = S" for T
    using that ok by simp
  show ?thesis
  proof (cases op)
    case (NewChan x)
    show ?thesis
      using alloc_chan_flow [OF fl, of "with_cap x None"]
      by (intro quiet) (simp_all add: NewChan chan_new_def with_cap_def)
  next
    case NewTicker
    show ?thesis
      using alloc_chan_flow [OF fl, of "(with_cap 1 None)\<lparr>cc_ticker := True\<rparr>"]
      by (intro quiet) (simp_all add: NewTicker new_ticker_def with_cap_def)
  next
    case NewMark
    show ?thesis using mark_new_flow [OF fl] by (intro quiet) (simp_all add: NewMark)
  next
    case (Claim m)
    show ?thesis using fl by (intro quiet) (simp_all add: Claim)
  next
    case (FanWake ch)
    show ?thesis
      using fl flow_okD(3) [OF fl, of ch] by (intro quiet) (simp_all add: FanWake fan_wake_def)
  next
    case (PollRecv i wk)
    show ?thesis using poll_recv_op_cons [OF ok] by (simp add: PollRecv)
  next
    case (PollSend i wk)
    show ?thesis using poll_send_op_cons [OF ok] by (simp add: PollSend)
  next
    case (DropRecv i)
    show ?thesis
      using ok receiving_drop_flow [OF st sys_okD(3) [OF sys] fl]
      by (cases "cs_recvs S i") (simp_all add: DropRecv, intro quiet, simp_all add: DropRecv)
  next
    case (DropSend i)
    show ?thesis
    proof (cases "cs_sends S i")
      case (Some sd)
      show ?thesis
        by (rule cons_ok_send [OF ok Some sys', where x = None
              and D = "opt_mset (s_value sd) + sending_posted (cs_store S) sd"])
          (use sending_drop_flow [OF sys_okD(5) [OF sys Some] fl, of env] in
            \<open>simp_all add: DropSend Some ac_simps\<close>)
    qed (use ok in \<open>simp add: DropSend\<close>)
  next
    case (SetEager i)
    show ?thesis
    proof (cases "cs_sends S i")
      case (Some sd)
      show ?thesis
        by (rule cons_ok_send [OF ok Some sys', where x = "Some (set_eager sd)" and D = "{#}"])
          (use cons_okD(4) [OF ok Some] fl in \<open>auto simp: SetEager Some set_eager_def sending_full_def\<close>)
    next
      case None
      then show ?thesis using ok by (simp add: SetEager fun_upd_idem)
    qed
  next
    case (StartRecv ch sel)
    show ?thesis
      by (cases "ch < st_fresh (cs_store S) \<and> mark_ok (cs_store S) sel")
        (use ok in \<open>auto simp: StartRecv\<close>, rule cons_ok_start_recv [OF ok], auto)
  next
    case (StartSend ch v sel)
    show ?thesis
      by (cases "ch < st_fresh (cs_store S) \<and> mark_ok (cs_store S) sel")
        (use ok in \<open>auto simp: StartSend\<close>, rule cons_ok_start_send [OF ok], auto)
  next
    case (TryRecv ch)
    show ?thesis
    proof (cases "ch < st_fresh (cs_store S)")
      case True
      obtain got s' where p: "try_recv env ch (cs_store S) = (got, s')" by fastforce
      show ?thesis
        by (rule cons_ok_store [OF ok sys', where A = "{#}" and D = "{#}"
              and C = "case got of Inr (TryValue v) \<Rightarrow> {#v#} | _ \<Rightarrow> {#}"])
          (use try_recv_flow [OF st fl True p] True p in \<open>simp_all add: TryRecv on_chan_def\<close>)
    qed (use ok in \<open>simp add: TryRecv on_chan_def\<close>)
  next
    case (TrySend ch v)
    show ?thesis
    proof (cases "ch < st_fresh (cs_store S)")
      case True
      obtain got s' where p: "try_send env ch v (cs_store S) = (got, s')" by fastforce
      show ?thesis
        by (rule cons_ok_store [OF ok sys', where C = "{#}" and D = "{#}"
              and A = "case got of Inr (Inr True) \<Rightarrow> {#v#} | _ \<Rightarrow> {#}"])
          (use try_send_flow [OF st fl True p] True p in \<open>simp_all add: TrySend on_chan_def\<close>)
    qed (use ok in \<open>simp add: TrySend on_chan_def\<close>)
  next
    case (PushNewest ch v)
    show ?thesis
    proof (cases "ch < st_fresh (cs_store S)")
      case True
      obtain pushed s' where p: "push_newest ch v (cs_store S) = (pushed, s')" by fastforce
      let ?b = "cc_buf (st_core (cs_store S) ch)"
      show ?thesis
        by (rule cons_ok_store [OF ok sys', where C = "{#}" and A = "if pushed then {#v#} else {#}"
              and D = "if pushed \<and> cc_cap (st_core (cs_store S) ch) \<le> length ?b \<and> ?b \<noteq> [] then {#last ?b#} else {#}"])
          (use push_newest_flow [OF fl True p] True p in \<open>simp_all add: PushNewest on_chan_def\<close>)
    qed (use ok in \<open>simp add: PushNewest on_chan_def\<close>)
  next
    case (Unrecv ch v)
    show ?thesis
    proof (cases "ch < st_fresh (cs_store S)")
      case True
      show ?thesis
        by (rule cons_ok_store [OF ok sys', where C = "{#}" and D = "{#}" and A = "{#v#}"])
          (use unrecv_flow [OF fl True] unrecv_content [OF True] True in \<open>simp_all add: Unrecv on_chan_def\<close>)
    qed (use ok in \<open>simp add: Unrecv on_chan_def\<close>)
  next
    case (Close ch)
    show ?thesis
    proof (cases "ch < st_fresh (cs_store S)")
      case True
      show ?thesis
        by (rule cons_ok_store [OF ok sys', where A = "{#}" and C = "{#}"
              and D = "if cc_closed (st_core (cs_store S) ch) then {#}
                else sum_list (map (posted_value (cs_store S)) (cc_offers (st_core (cs_store S) ch)))"])
          (use chan_close_flow [OF st fl True, of env] True in \<open>simp_all add: Close on_chan_def\<close>)
    qed (use ok in \<open>simp add: Close on_chan_def\<close>)
  qed (use op in simp_all)
qed

interpretation local_run: machine "\<lambda>op S. if local_op op then exec env op S else S" cons_ok for env
  by unfold_locales (simp add: exec_cons)

lemma run_cons:
  assumes "cons_ok S" and "list_all local_op ops"
  shows "cons_ok (run env ops S)"
proof -
  have "fold (exec env) ops T = fold (\<lambda>op S. if local_op op then exec env op S else S) ops T" for T
    using assms(2) by (induction ops arbitrary: T) auto
  then show ?thesis
    unfolding run_def using local_run.ok_run [OF assms(1)] by simp
qed

end
