(* ===== verification/Isle_Queue.thy ===== *)
theory Isle_Queue
  imports Isle_Prelude
begin

text \<open>
  The interface of a first-in first-out queue with several ways to put and to get (at once, or
  by a poll of a waiting future), and what any use of it amounts to: the items there were,
  then the items put, are the items got, then the items that are left.
\<close>

datatype ('w, 'v) qop = Put 'w 'v | Get 'w

fun drive ::
  "('w \<Rightarrow> 'v \<Rightarrow> 's \<Rightarrow> bool \<times> 's) \<Rightarrow> ('w \<Rightarrow> 's \<Rightarrow> 'v option \<times> 's) \<Rightarrow> ('w, 'v) qop list \<Rightarrow> 's \<Rightarrow>
    'v list \<times> 'v list \<times> 's" where
  "drive put get [] s = ([], [], s)"
| "drive put get (Put w v # ops) s =
    (let (sent, s1) = put w v s;
         (ins, outs, s2) = drive put get ops s1
     in ((if sent then [v] else []) @ ins, outs, s2))"
| "drive put get (Get w # ops) s =
    (let (got, s1) = get w s;
         (ins, outs, s2) = drive put get ops s1
     in (ins, (case got of None \<Rightarrow> [] | Some v \<Rightarrow> [v]) @ outs, s2))"

locale fifo =
  fixes inv :: "'s \<Rightarrow> bool"
    and items :: "'s \<Rightarrow> 'v list"
    and put :: "'w \<Rightarrow> 'v \<Rightarrow> 's \<Rightarrow> bool \<times> 's"
    and get :: "'w \<Rightarrow> 's \<Rightarrow> 'v option \<times> 's"
  assumes inv_put: "inv s \<Longrightarrow> inv (snd (put w v s))"
    and inv_get: "inv s \<Longrightarrow> inv (snd (get w s))"
    and items_put: "inv s \<Longrightarrow> items (snd (put w v s)) = items s @ (if fst (put w v s) then [v] else [])"
    and items_get: "inv s \<Longrightarrow>
      items s = (case fst (get w s) of None \<Rightarrow> [] | Some v \<Rightarrow> [v]) @ items (snd (get w s))"
    and get_none: "inv s \<Longrightarrow> fst (get w s) = None \<Longrightarrow> items s = []"
begin

lemma drive_items:
  "inv s \<Longrightarrow> drive put get ops s = (ins, outs, s') \<Longrightarrow> items s @ ins = outs @ items s' \<and> inv s'"
proof (induction ops arbitrary: s ins outs)
  case Nil
  then show ?case by simp
next
  case (Cons op ops)
  show ?case
  proof (cases op)
    case (Put w v)
    obtain sent s1 where p: "put w v s = (sent, s1)" by fastforce
    obtain i q s2 where d: "drive put get ops s1 = (i, q, s2)" by (metis prod_cases3)
    have "items s1 = items s @ (if sent then [v] else [])" and "inv s1"
      using items_put [OF Cons.prems(1), of w v] inv_put [OF Cons.prems(1), of w v] p by simp_all
    then show ?thesis
      using Cons.IH [of s1 i q] Cons.prems(2) p d by (auto simp: Put)
  next
    case (Get w)
    obtain got s1 where g: "get w s = (got, s1)" by fastforce
    obtain i q s2 where d: "drive put get ops s1 = (i, q, s2)" by (metis prod_cases3)
    have "items s = (case got of None \<Rightarrow> [] | Some v \<Rightarrow> [v]) @ items s1" and "inv s1"
      using items_get [OF Cons.prems(1), of w] inv_get [OF Cons.prems(1), of w] g by simp_all
    then show ?thesis
      using Cons.IH [of s1 i q] Cons.prems(2) g d by (auto simp: Get)
  qed
qed

end

end
