(* ===== verification/Isle_Chan_Props.thy ===== *)
theory Isle_Chan_Props
  imports Isle_Chan_Flow Isle_Queue
begin

text \<open>
  What the channels promise: the properties of \<^verbatim>\<open>src/chan.rs\<close> over every history of the
  channels of a VM, and what its operations do to the values.
\<close>

section \<open>A concrete mpsc channel\<close>

text \<open>
  An instance of the parameter \<open>mpsc_env\<close>, for the witnesses: a bounded queue of Lua values
  whose sender may be gone and whose receiver may be closed, with one permit at a time.
\<close>

record mq =
  mq_cap :: nat
  mq_open :: bool
  mq_items :: "lua_value list"
  mq_permits :: nat

definition mq_free :: "mq \<Rightarrow> bool" where
  "mq_free q \<longleftrightarrow> length (mq_items q) + mq_permits q < mq_cap q"

definition mq_env :: "(lua_value, mq) mpsc_env" where
  "mq_env =
    \<lparr>rx_poll = (\<lambda>q. case mq_items q of
        v # rest \<Rightarrow> (Ready (Some v), q\<lparr>mq_items := rest\<rparr>)
      | [] \<Rightarrow> (if mq_open q then Pending else Ready None, q)),
     rx_try_recv = (\<lambda>q. case mq_items q of
        v # rest \<Rightarrow> (RxValue v, q\<lparr>mq_items := rest\<rparr>)
      | [] \<Rightarrow> (if mq_open q then RxEmpty else RxDisconnected, q)),
     rx_close = (\<lambda>q. q\<lparr>mq_open := False\<rparr>),
     rx_is_closed = (\<lambda>q. \<not> mq_open q),
     rx_len = (\<lambda>q. length (mq_items q)),
     mpsc_max_capacity = mq_cap,
     tx_reserve_owned = (\<lambda>q. (0, q)),
     tx_poll_reserve = (\<lambda>_ _ q.
        if \<not> mq_open q then (Ready None, q)
        else if mq_free q then (Ready (Some 0), q\<lparr>mq_permits := Suc (mq_permits q)\<rparr>)
        else (Pending, q)),
     tx_drop_reserve = (\<lambda>_ q. q),
     tx_try_reserve = (\<lambda>q.
        if \<not> mq_open q then (TxClosed, q)
        else if mq_free q then (TxPermit 0, q\<lparr>mq_permits := Suc (mq_permits q)\<rparr>)
        else (TxFull, q)),
     tx_send = (\<lambda>_ v q. q\<lparr>mq_items := mq_items q @ [v], mq_permits := mq_permits q - 1\<rparr>),
     tx_drop_permit = (\<lambda>_ q. q\<lparr>mq_permits := mq_permits q - 1\<rparr>),
     tx_drop_sender = (\<lambda>q. q\<lparr>mq_open := False\<rparr>),
     tx_is_closed = (\<lambda>q. \<not> mq_open q),
     tx_capacity = (\<lambda>q. mq_cap q - length (mq_items q) - mq_permits q),
     into_lua = Inr, from_lua = Inr\<rparr>"

section \<open>A buffered channel is a queue\<close>

text \<open>
  A way to send or to receive: at once (\<open>None\<close>, \<^verbatim>\<open>try_send\<close> and \<^verbatim>\<open>try_recv\<close>) or by a poll
  with a waker (\<^verbatim>\<open>poll_send\<close> and \<^verbatim>\<open>poll_recv\<close>).
\<close>

definition put_chan ::
  "('t, 'q) mpsc_env \<Rightarrow> nat \<Rightarrow> waker option \<Rightarrow> lua_value \<Rightarrow> 'q chan_store \<Rightarrow> bool \<times> 'q chan_store" where
  "put_chan env ch w v s =
    (case w of
       None \<Rightarrow> (case try_send env ch v s of (r, s') \<Rightarrow> (r = Inr (Inr True), s'))
     | Some wk \<Rightarrow> (case poll_send ch wk (Some v) s of (r, _, s') \<Rightarrow> (r = Ready (Inr ()), s')))"

definition get_chan ::
  "('t, 'q) mpsc_env \<Rightarrow> nat \<Rightarrow> waker option \<Rightarrow> 'q chan_store \<Rightarrow> lua_value option \<times> 'q chan_store" where
  "get_chan env ch w s =
    (case w of
       None \<Rightarrow> (case try_recv env ch s of
           (Inr (TryValue v), s') \<Rightarrow> (Some v, s') | (_, s') \<Rightarrow> (None, s'))
     | Some wk \<Rightarrow> (case poll_recv env ch wk s of
           (Ready (Inr (Some v)), s') \<Rightarrow> (Some v, s') | (_, s') \<Rightarrow> (None, s')))"

definition buffered_chan :: "nat \<Rightarrow> 'q chan_store \<Rightarrow> bool" where
  "buffered_chan ch s \<longleftrightarrow>
    cc_cap (st_core s ch) \<noteq> 0 \<and> cc_source (st_core s ch) = None \<and> cc_sink (st_core s ch) = None"

interpretation chan_fifo: fifo "buffered_chan ch" "\<lambda>s. cc_buf (st_core s ch)" "put_chan env ch" "get_chan env ch"
  for ch env
proof unfold_locales
  fix s :: "'a chan_store" and w v
  assume inv: "buffered_chan ch s"
  then show "buffered_chan ch (snd (put_chan env ch w v s))"
    and "cc_buf (st_core (snd (put_chan env ch w v s)) ch) =
      cc_buf (st_core s ch) @ (if fst (put_chan env ch w v s) then [v] else [])"
    by (cases w; auto simp: buffered_chan_def put_chan_def try_send_def poll_send_def Let_def)+
  show "buffered_chan ch (snd (get_chan env ch w s))"
    and "cc_buf (st_core s ch) = (case fst (get_chan env ch w s) of None \<Rightarrow> [] | Some v \<Rightarrow> [v]) @
      cc_buf (st_core (snd (get_chan env ch w s)) ch)"
    and "fst (get_chan env ch w s) = None \<Longrightarrow> cc_buf (st_core s ch) = []"
    using inv
    by (cases w; cases "cc_buf (st_core s ch)";
        auto simp: buffered_chan_def get_chan_def try_recv_def poll_recv_def Let_def)+
qed

text \<open>C13: a buffered channel between Lua and Lua is a first-in first-out queue: whatever is sent
  and received on it, at once or by polls, in any order, the values that were in it followed by
  the values accepted are the values received, in that order, followed by the values left.\<close>

theorem chan_is_fifo:
  assumes "buffered_chan ch s" and "drive (put_chan env ch) (get_chan env ch) ops s = (ins, outs, s')"
  shows "cc_buf (st_core s ch) @ ins = outs @ cc_buf (st_core s' ch)"
  using chan_fifo.drive_items [OF assms] by simp

definition fifo_demo :: "(waker option, lua_value) qop list" where
  "fifo_demo =
    [Put None (VInteger 1), Put (Some (TaskWaker 7)) (VInteger 2), Put None (VInteger 3),
     Get (Some (TaskWaker 8)), Put None (VInteger 4), Get None]"

definition fifo_store :: "mq chan_store" where
  "fifo_store = snd (chan_new 2 store_init)"

theorem chan_is_fifo_witness:
  "buffered_chan 0 fifo_store \<and>
    (case drive (put_chan mq_env 0) (get_chan mq_env 0) fifo_demo fifo_store of
       (ins, outs, s') \<Rightarrow> ins = [VInteger 1, VInteger 2, VInteger 4] \<and>
         outs = [VInteger 1, VInteger 2] \<and>
         cc_buf (st_core fifo_store 0) @ ins = outs @ cc_buf (st_core s' 0))"
proof -
  have b: "buffered_chan 0 fifo_store"
    by (simp add: buffered_chan_def fifo_store_def chan_new_def alloc_chan_def with_cap_def store_init_def)
  obtain ins outs s' where d: "drive (put_chan mq_env 0) (get_chan mq_env 0) fifo_demo fifo_store = (ins, outs, s')"
    by (metis prod_cases3)
  have "fst (drive (put_chan mq_env 0) (get_chan mq_env 0) fifo_demo fifo_store) = [VInteger 1, VInteger 2, VInteger 4] \<and>
    fst (snd (drive (put_chan mq_env 0) (get_chan mq_env 0) fifo_demo fifo_store)) = [VInteger 1, VInteger 2]"
    by code_simp
  with d chan_is_fifo [OF b d] b show ?thesis by simp
qed

section \<open>Every history\<close>

lemma reachable_ok: "sys_ok (run env ops sys_init)"
  by (rule run_ok [OF sys_ok_init])

text \<open>C14: whatever the Lua side, the host and the drop glue do with the channels of a VM, in any
  order, the store stays well formed: every queued offer is open, only rendezvous channels have
  queues, no address is queued twice, every live future owns the waiter or the offer it waits
  with, and no waker stays registered on a channel that has something for it.\<close>

theorem chan_always_ok: "sys_ok (run env ops sys_init)"
  by (rule reachable_ok)

text \<open>C2: no value is lost or duplicated on the channels between Lua and Lua: in any history, the
  values handed in are the values received, plus those in a buffer, in the slot of a waiting
  receiver or in a posted offer, plus those still in a send future, plus those dropped with a send
  that did not happen or replaced by a ticker's newer one.\<close>

theorem chan_conserves:
  assumes "list_all local_op ops" and "S = run env ops sys_init"
  shows "cs_in S = cs_out S + content (cs_store S) + held S + cs_lost S"
  unfolding assms(2) by (rule cons_okD(5) [OF run_cons [OF cons_ok_init assms(1)]])

text \<open>Two sends meet one receive on a rendezvous channel; the loser is dropped.\<close>

definition flow_demo :: "mq cop list" where
  "flow_demo =
    [NewChan 0, StartSend 0 (VInteger 1) None, StartSend 0 (VInteger 2) None,
     PollSend 0 (TaskWaker 1), PollSend 1 (TaskWaker 2), StartRecv 0 None, PollRecv 2 (TaskWaker 3),
     PollSend 0 (TaskWaker 1), DropSend 1]"

theorem chan_conserves_witness:
  "list_all local_op flow_demo \<and>
    (let S = run mq_env flow_demo sys_init in
     cs_in S = {#VInteger 1, VInteger 2#} \<and> cs_out S = {#VInteger 1#} \<and> cs_lost S = {#VInteger 2#} \<and>
     cs_in S = cs_out S + content (cs_store S) + held S + cs_lost S)"
proof -
  have ops: "list_all local_op flow_demo" by (simp add: flow_demo_def)
  have "cs_in (run mq_env flow_demo sys_init) = {#VInteger 1, VInteger 2#} \<and>
    cs_out (run mq_env flow_demo sys_init) = {#VInteger 1#} \<and>
    cs_lost (run mq_env flow_demo sys_init) = {#VInteger 2#}"
    by code_simp
  then show ?thesis
    using ops chan_conserves [OF ops refl, of mq_env] unfolding Let_def by blast
qed

text \<open>C3: at most one arm of a select is delivered: in any history, two offers of the same select
  that were both taken are one offer, and the select's mark is claimed.\<close>

theorem select_delivers_once:
  assumes "s = cs_store (run env ops sys_init)"
    and "of_state (st_offer s i) = Taken" and "of_select (st_offer s i) = Some m"
    and "of_state (st_offer s j) = Taken" and "of_select (st_offer s j) = Some m"
  shows "i = j \<and> st_claimed s m"
  using store_okD(3) [OF sys_okD(1) [OF reachable_ok, of env ops]] assms
  unfolding claims_ok_def by blast

text \<open>A select over two sends on two channels, both tried by a receiver.\<close>

definition select_demo :: "mq cop list" where
  "select_demo =
    [NewChan 0, NewChan 0, NewMark, StartSend 0 (VInteger 1) (Some 2), StartSend 1 (VInteger 2) (Some 2),
     PollSend 0 (TaskWaker 1), PollSend 1 (TaskWaker 1), TryRecv 0, TryRecv 1]"

theorem select_delivers_once_witness:
  "(let s = cs_store (run mq_env select_demo sys_init) in
     of_state (st_offer s 3) = Taken \<and> of_state (st_offer s 4) = Open \<and> st_claimed s 2 \<and>
     of_select (st_offer s 3) = Some 2 \<and> of_select (st_offer s 4) = Some 2)"
proof -
  let ?s = "cs_store (run mq_env select_demo sys_init)"
  have taken: "of_state (st_offer ?s 3) = Taken" and sel: "of_select (st_offer ?s 3) = Some 2"
    and other: "of_state (st_offer ?s 4) = Open" "of_select (st_offer ?s 4) = Some 2"
    by code_simp+
  from select_delivers_once [OF refl taken sel taken sel] have "st_claimed ?s 2" by simp
  with taken sel other show ?thesis by (simp add: Let_def)
qed

section \<open>Dropped futures, close\<close>

text \<open>a receive future that is dropped leaves nothing behind: its waiter is in no queue and its
  slot is empty, and a value a sender had put in the slot is back at the front of the channel's
  buffer, where the next receive finds it.\<close>

theorem dropped_receive_leaves_nothing:
  assumes "store_ok s" and "receiving_ok s r" and "r_waiter r = Some w"
  shows "(\<forall>ch. w \<notin> set (cc_waiters (st_core (receiving_drop r s) ch))) \<and>
    wt_slot (st_waiter (receiving_drop r s) w) = None \<and>
    cc_buf (st_core (receiving_drop r s) (r_chan r)) =
      (case wt_slot (st_waiter s w) of None \<Rightarrow> [] | Some v \<Rightarrow> [v]) @ cc_buf (st_core s (r_chan r))"
proof -
  have "w \<in> set (cc_waiters (st_core s (r_chan r)))"
    using assms(2,3) by (simp add: receiving_ok_def)
  then have out: "w \<notin> set (cc_waiters (st_core s ch))" if "ch \<noteq> r_chan r" for ch
    using queues_okD(7) [OF store_okD(1) [OF assms(1)]] that by blast
  show ?thesis
    using out
    by (cases "wt_slot (st_waiter s w)")
      (auto simp: receiving_drop_def receiving_withdraw_def assms(3) take_slot_def unrecv_def
        receiver_wakers_eq Let_def)
qed

text \<open>A receiver waits on a rendezvous channel and a send is handed to it.\<close>

definition slot_demo :: "mq cop list" where
  "slot_demo = [NewChan 0, StartRecv 0 None, PollRecv 0 (TaskWaker 1), TrySend 0 (VInteger 5)]"

theorem dropped_receive_leaves_nothing_witness:
  "(let S = run mq_env slot_demo sys_init; r = \<lparr>r_chan = 0, r_select = None, r_waiter = Some 1\<rparr> in
     cs_recvs S 0 = Some r \<and>
     cc_buf (st_core (receiving_drop r (cs_store S)) 0) = [VInteger 5])"
proof -
  let ?S = "run mq_env slot_demo sys_init"
  let ?r = "\<lparr>r_chan = 0, r_select = None, r_waiter = Some 1\<rparr> :: receiving"
  note ok = reachable_ok [of mq_env slot_demo]
  have r: "cs_recvs ?S 0 = Some ?r" by code_simp
  have v: "wt_slot (st_waiter (cs_store ?S) 1) = Some (VInteger 5)" "cc_buf (st_core (cs_store ?S) 0) = []"
    by code_simp+
  show ?thesis
    using dropped_receive_leaves_nothing [OF sys_okD(1) [OF ok] sys_okD(3) [OF ok r], of 1] r v
    by (simp add: Let_def)
qed

text \<open>a send future that is dropped takes its offer back: the offer is in no queue and cannot be
  taken any more, unless a receiver took it already, and then it stays taken.\<close>

theorem dropped_send_takes_offer_back:
  assumes "store_ok s" and "sending_ok s sd" and "s_offer sd = Some i"
  shows "(\<forall>ch. i \<notin> set (cc_offers (st_core (sending_drop env sd s) ch))) \<and>
    of_state (st_offer (sending_drop env sd s) i) =
      (if of_state (st_offer s i) = Taken then Taken else Withdrawn)"
proof -
  obtain sd1 s1 where a: "drop_reserve env sd s = (sd1, s1)" by fastforce
  obtain sd2 s2 where b: "leave_sink_waiters sd1 s1 = (sd2, s2)" by fastforce
  have s2: "cc_offers (st_core s2 ch) = cc_offers (st_core s ch)" "st_offer s2 = st_offer s"
    "s_offer sd2 = Some i" "s_chan sd2 = s_chan sd" for ch
    using a b assms(3)
    by (auto simp: drop_reserve_def leave_sink_waiters_def split: option.splits)
  have drop: "sending_drop env sd s = snd (withdraw_offer sd2 s2)"
    by (simp add: sending_drop_def sending_withdraw_def a b)
  note q = store_okD(1) [OF assms(1)]
  show ?thesis
  proof (cases "of_state (st_offer s i) = Open")
    case True
    then have mem: "i \<in> set (cc_offers (st_core s (s_chan sd)))"
      using assms(2,3) by (simp add: sending_ok_def)
    then have "i \<notin> set (cc_offers (st_core s ch))" if "ch \<noteq> s_chan sd" for ch
      using queues_okD(6) [OF q mem] that by blast
    then show ?thesis using True by (simp add: drop withdraw_offer_def s2)
  next
    case False
    then have "i \<notin> set (cc_offers (st_core s ch))" for ch
      using queues_okD(4) [OF q] by blast
    moreover have "of_state (st_offer s i) = Taken \<or> of_state (st_offer s i) = Withdrawn"
      using False by (cases "of_state (st_offer s i)") simp_all
    ultimately show ?thesis using False by (auto simp: drop withdraw_offer_def s2)
  qed
qed

definition offer_demo :: "mq cop list" where
  "offer_demo = [NewChan 0, StartSend 0 (VInteger 5) None, PollSend 0 (TaskWaker 1)]"

definition offer_demo_future :: sending where
  "offer_demo_future =
    \<lparr>s_chan = 0, s_value = None, s_select = None, s_offer = Some 1, s_eager = False,
     s_reserve = None, s_sink_wait = None\<rparr>"

theorem dropped_send_takes_offer_back_witness:
  "(let S = run mq_env offer_demo sys_init in
     cs_sends S 0 = Some offer_demo_future \<and> 1 \<in> set (cc_offers (st_core (cs_store S) 0)) \<and>
     of_state (st_offer (sending_drop mq_env offer_demo_future (cs_store S)) 1) = Withdrawn)"
proof -
  let ?S = "run mq_env offer_demo sys_init"
  note ok = reachable_ok [of mq_env offer_demo]
  have sd: "cs_sends ?S 0 = Some offer_demo_future" by code_simp
  have o: "of_state (st_offer (cs_store ?S) 1) = Open" "1 \<in> set (cc_offers (st_core (cs_store ?S) 0))"
    by code_simp+
  show ?thesis
    using dropped_send_takes_offer_back [OF sys_okD(1) [OF ok] sys_okD(5) [OF ok sd], of 1 mq_env] sd o
    by (simp add: Let_def offer_demo_future_def)
qed

end
