(* ===== verification/Isle_Cancel.thy ===== *)
theory Isle_Cancel
  imports Isle_Prelude
begin

text \<open>
  The cancellation tokens of \<^verbatim>\<open>src/hook.rs\<close>: the tree of tokens, \<^verbatim>\<open>child_token\<close> with its
  sweep, \<^verbatim>\<open>cancel\<close>, and the current token of a thread.

  A token is an address in a \<open>token_heap\<close>.  \<^verbatim>\<open>Arc\<close> counts are modelled by who holds the
  token: \<open>th_handles\<close> counts the \<^verbatim>\<open>CancelToken\<close> values, and every live child holds its
  parent (\<^verbatim>\<open>_parent\<close>).  A token is \<open>live\<close> when one of these holds it; the \<^verbatim>\<open>Weak\<close> entries of
  a children list upgrade exactly for live tokens.  \<open>th_notified\<close> records the calls of
  \<^verbatim>\<open>Notify::notify_waiters\<close>.
\<close>

section \<open>Tokens\<close>

record token =
  tk_flag :: bool
  tk_parent :: "nat option"
  tk_children :: "nat list"
  tk_sweep_at :: nat

record token_heap =
  th_token :: "nat \<Rightarrow> token"
  th_handles :: "nat \<Rightarrow> nat"
  th_fresh :: nat
  th_notified :: "nat list"

definition heap_init :: token_heap where
  "heap_init =
    \<lparr>th_token = (\<lambda>_. \<lparr>tk_flag = False, tk_parent = None, tk_children = [], tk_sweep_at = 0\<rparr>),
     th_handles = (\<lambda>_. 0), th_fresh = 0, th_notified = []\<rparr>"

definition upd_token :: "nat \<Rightarrow> (token \<Rightarrow> token) \<Rightarrow> token_heap \<Rightarrow> token_heap" where
  "upd_token t f h = h\<lparr>th_token := (th_token h)(t := f (th_token h t))\<rparr>"

text \<open>\<^verbatim>\<open>strong_count() > 0\<close>.  A parent is older than its children.\<close>

function live :: "token_heap \<Rightarrow> nat \<Rightarrow> bool" where
  "live h t \<longleftrightarrow>
    th_handles h t > 0 \<or>
    (\<exists>c \<in> set [Suc t ..< th_fresh h]. tk_parent (th_token h c) = Some t \<and> live h c)"
  by pat_completeness auto
termination
  by (relation "measure (\<lambda>(h, t). th_fresh h - t)") auto

declare live.simps [simp del]

definition is_cancelled :: "token_heap \<Rightarrow> nat \<Rightarrow> bool" where
  "is_cancelled h t = tk_flag (th_token h t)"

text \<open>\<^verbatim>\<open>Inner::new\<close>, as a \<^verbatim>\<open>CancelToken\<close> with one handle.\<close>

definition token_new :: "nat option \<Rightarrow> token_heap \<Rightarrow> nat \<times> token_heap" where
  "token_new parent h =
    (th_fresh h,
     h\<lparr>th_token := (th_token h)(th_fresh h :=
         \<lparr>tk_flag = False, tk_parent = parent, tk_children = [], tk_sweep_at = 0\<rparr>),
       th_handles := (th_handles h)(th_fresh h := 1),
       th_fresh := Suc (th_fresh h)\<rparr>)"

section \<open>Cancel\<close>

text \<open>
  \<^verbatim>\<open>Inner::cancel\<close>: a token whose flag was already set is left alone; otherwise set the flag,
  notify, take the children list, and cancel the children that still upgrade.  The recursion is
  written with the tokens still to cancel in a list (that this is the code's own
  recursion is proved with the properties); an address that was never allocated is skipped.
\<close>

definition live_children :: "token_heap \<Rightarrow> nat \<Rightarrow> nat list" where
  "live_children h t = filter (live h) (tk_children (th_token h t))"

definition set_flag :: "nat \<Rightarrow> token_heap \<Rightarrow> token_heap" where
  "set_flag t h =
    (upd_token t (\<lambda>k. k\<lparr>tk_flag := True, tk_children := []\<rparr>) h)\<lparr>th_notified := th_notified h @ [t]\<rparr>"

definition unflagged :: "token_heap \<Rightarrow> nat" where
  "unflagged h = card {t. t < th_fresh h \<and> \<not> tk_flag (th_token h t)}"

lemma set_flag_fields [simp]:
  "th_token (set_flag t h) = (th_token h)(t := (th_token h t)\<lparr>tk_flag := True, tk_children := []\<rparr>)"
  "th_handles (set_flag t h) = th_handles h"
  "th_fresh (set_flag t h) = th_fresh h"
  "th_notified (set_flag t h) = th_notified h @ [t]"
  by (simp_all add: set_flag_def upd_token_def)

lemma unflagged_set_flag:
  assumes "t < th_fresh h" and "\<not> tk_flag (th_token h t)"
  shows "unflagged (set_flag t h) < unflagged h"
proof -
  have "{x. x < th_fresh h \<and> \<not> tk_flag (th_token (set_flag t h) x)} \<subset>
      {x. x < th_fresh h \<and> \<not> tk_flag (th_token h x)}"
    using assms by auto
  then show ?thesis
    unfolding unflagged_def set_flag_fields(3) by (intro psubset_card_mono) auto
qed

function cancel_all :: "nat list \<Rightarrow> token_heap \<Rightarrow> token_heap" where
  "cancel_all [] h = h"
| "cancel_all (t # ts) h =
    (if th_fresh h \<le> t \<or> tk_flag (th_token h t) then cancel_all ts h
     else cancel_all (live_children h t @ ts) (set_flag t h))"
  by pat_completeness auto
termination
proof (relation "inv_image (less_than <*lex*> less_than) (\<lambda>(ts, h). (unflagged h, length ts))", goal_cases)
  case 1
  then show ?case by (simp add: wf_inv_image wf_lex_prod)
qed (auto simp: unflagged_set_flag)

declare cancel_all.simps(2) [simp del]

definition cancel :: "nat \<Rightarrow> token_heap \<Rightarrow> token_heap" where
  "cancel t h = cancel_all [t] h"

section \<open>Child tokens\<close>

text \<open>\<^verbatim>\<open>child_token\<close>, with the sweep of the dead entries.\<close>

definition sweep :: "nat \<Rightarrow> token_heap \<Rightarrow> token_heap" where
  "sweep t h =
    (let k = th_token h t in
     if tk_sweep_at k \<le> length (tk_children k) then
       let kept = live_children h t
       in upd_token t (\<lambda>k. k\<lparr>tk_children := kept, tk_sweep_at := max (length kept * 2) 16\<rparr>) h
     else h)"

definition child_token :: "nat \<Rightarrow> token_heap \<Rightarrow> nat \<times> token_heap" where
  "child_token t h =
    (let (c, h1) = token_new (Some t) h in
     if is_cancelled h1 t then (c, cancel c h1)
     else (c, upd_token t (\<lambda>k. k\<lparr>tk_children := tk_children k @ [c]\<rparr>) (sweep t h1)))"

text \<open>\<^verbatim>\<open>Clone\<close> and \<^verbatim>\<open>Drop\<close> of a handle.\<close>

definition clone_token :: "nat \<Rightarrow> token_heap \<Rightarrow> token_heap" where
  "clone_token t h = h\<lparr>th_handles := (th_handles h)(t := Suc (th_handles h t))\<rparr>"

definition drop_token :: "nat \<Rightarrow> token_heap \<Rightarrow> token_heap" where
  "drop_token t h = h\<lparr>th_handles := (th_handles h)(t := th_handles h t - 1)\<rparr>"

section \<open>The current token\<close>

text \<open>
  \<^verbatim>\<open>CURRENT\<close> and \<^verbatim>\<open>EnterGuard\<close>: entering returns the guard (the previous token), dropping the
  guard puts it back.
\<close>

definition enter_token :: "nat \<Rightarrow> nat option \<Rightarrow> nat option \<times> nat option" where
  "enter_token t cur = (cur, Some t)"

definition leave_token :: "nat option \<Rightarrow> nat option \<Rightarrow> nat option" where
  "leave_token prev cur = prev"

definition current_is_cancelled :: "token_heap \<Rightarrow> nat option \<Rightarrow> bool" where
  "current_is_cancelled h cur = (case cur of None \<Rightarrow> False | Some t \<Rightarrow> is_cancelled h t)"

section \<open>Histories\<close>

datatype token_op =
    NewToken
  | ChildToken nat
  | CloneToken nat
  | DropToken nat
  | CancelToken nat

text \<open>Only a held token can be used: an operation on another address does nothing.\<close>

fun token_exec :: "token_op \<Rightarrow> token_heap \<Rightarrow> token_heap" where
  "token_exec NewToken h = snd (token_new None h)"
| "token_exec (ChildToken t) h = (if 0 < th_handles h t then snd (child_token t h) else h)"
| "token_exec (CloneToken t) h = (if 0 < th_handles h t then clone_token t h else h)"
| "token_exec (DropToken t) h = drop_token t h"
| "token_exec (CancelToken t) h = (if 0 < th_handles h t then cancel t h else h)"

definition token_run :: "token_op list \<Rightarrow> token_heap \<Rightarrow> token_heap" where
  "token_run ops h = fold token_exec ops h"

end
