(* ===== verification/Isle_Cancel_Props.thy ===== *)
theory Isle_Cancel_Props
  imports Isle_Cancel
begin

text \<open>
  What the token tree promises: a cancel reaches every live descendant and nobody else, whatever
  tokens were made, cloned, dropped and cancelled before; a live token under a cancelled one is
  cancelled; and a children list stays within twice the live children.
\<close>

section \<open>Liveness along the tree\<close>

definition child_rel :: "token_heap \<Rightarrow> (nat \<times> nat) set" where
  "child_rel h = {(p, c). c < th_fresh h \<and> p < c \<and> tk_parent (th_token h c) = Some p}"

lemma live_iff: "live h t \<longleftrightarrow> (\<exists>x. (t, x) \<in> (child_rel h)\<^sup>* \<and> 0 < th_handles h x)"
proof
  show "live h t \<Longrightarrow> \<exists>x. (t, x) \<in> (child_rel h)\<^sup>* \<and> 0 < th_handles h x"
  proof (induction h t rule: live.induct)
    case (1 h t)
    from "1.prems" consider "0 < th_handles h t"
      | c where "c \<in> set [Suc t ..< th_fresh h]" "tk_parent (th_token h c) = Some t" "live h c"
      unfolding live.simps [of h t] by (elim disjE bexE conjE)
    then show ?case
    proof cases
      case 1
      then show ?thesis by blast
    next
      case 2
      then have "(t, c) \<in> child_rel h" by (auto simp: child_rel_def)
      with "1.IH" [OF 2(1,3)] show ?thesis by (meson converse_rtrancl_into_rtrancl)
    qed
  qed
next
  assume "\<exists>x. (t, x) \<in> (child_rel h)\<^sup>* \<and> 0 < th_handles h x"
  then obtain x where path: "(t, x) \<in> (child_rel h)\<^sup>*" and x: "0 < th_handles h x" by blast
  from path show "live h t"
  proof (induction rule: converse_rtrancl_induct)
    case base
    then show ?case using x by (subst live.simps) simp
  next
    case (step y z)
    then show ?case by (subst live.simps) (auto simp: child_rel_def)
  qed
qed

lemma live_parent: "(p, c) \<in> child_rel h \<Longrightarrow> live h c \<Longrightarrow> live h p"
  unfolding live_iff by (meson converse_rtrancl_into_rtrancl)

lemma live_handle: "0 < th_handles h t \<Longrightarrow> live h t"
  unfolding live_iff by blast

lemma live_cong:
  "th_handles h' = th_handles h \<Longrightarrow> child_rel h' = child_rel h \<Longrightarrow> live h' = live h"
  by (simp add: live_iff fun_eq_iff)

lemma child_rel_set_flag [simp]: "child_rel (set_flag t h) = child_rel h"
  by (auto simp: child_rel_def)

lemma live_set_flag [simp]: "live (set_flag t h) = live h"
  by (rule live_cong) simp_all

section \<open>The invariant of the tree\<close>

text \<open>\<open>tree_base\<close>: addresses and parent pointers; \<open>closed_except ts\<close>: a live child of a cancelled token is
  cancelled, unless a cancel is still on its way to it (it is in \<open>ts\<close>).\<close>

definition tree_base :: "token_heap \<Rightarrow> bool" where
  "tree_base h \<longleftrightarrow>
    (\<forall>t \<ge> th_fresh h. th_handles h t = 0 \<and> tk_children (th_token h t) = []) \<and>
    (\<forall>t c. c \<in> set (tk_children (th_token h t)) \<longrightarrow> (t, c) \<in> child_rel h) \<and>
    (\<forall>t < th_fresh h. \<forall>p. tk_parent (th_token h t) = Some p \<longrightarrow> p < t) \<and>
    (\<forall>p c. (p, c) \<in> child_rel h \<and> live h c \<and> \<not> tk_flag (th_token h p) \<longrightarrow>
      c \<in> set (tk_children (th_token h p)))"

definition closed_except :: "nat list \<Rightarrow> token_heap \<Rightarrow> bool" where
  "closed_except ts h \<longleftrightarrow>
    (\<forall>p c. (p, c) \<in> child_rel h \<and> live h c \<and> tk_flag (th_token h p) \<longrightarrow>
      tk_flag (th_token h c) \<or> c \<in> set ts)"

definition tree_ok :: "token_heap \<Rightarrow> bool" where
  "tree_ok h \<longleftrightarrow> tree_base h \<and> closed_except [] h"

lemma tree_baseD:
  assumes "tree_base h"
  shows "th_fresh h \<le> t \<Longrightarrow> th_handles h t = 0" and "th_fresh h \<le> t \<Longrightarrow> tk_children (th_token h t) = []"
    and "c \<in> set (tk_children (th_token h t)) \<Longrightarrow> (t, c) \<in> child_rel h"
    and "t < th_fresh h \<Longrightarrow> tk_parent (th_token h t) = Some p \<Longrightarrow> p < t"
    and "(p, c) \<in> child_rel h \<Longrightarrow> live h c \<Longrightarrow> \<not> tk_flag (th_token h p) \<Longrightarrow>
      c \<in> set (tk_children (th_token h p))"
  using assms unfolding tree_base_def by blast+

lemma tree_ok_init: "tree_ok heap_init"
  by (simp add: tree_ok_def tree_base_def closed_except_def child_rel_def heap_init_def)

lemma tree_base_set_flag: "tree_base h \<Longrightarrow> tree_base (set_flag t h)"
  unfolding tree_base_def by (auto simp: child_rel_set_flag)

lemma closed_set_flag:
  assumes "tree_base h" and "closed_except (t # ts) h" and "\<not> tk_flag (th_token h t)"
  shows "closed_except (live_children h t @ ts) (set_flag t h)"
  using assms unfolding closed_except_def tree_base_def live_children_def by auto

text \<open>What \<open>cancel_all\<close> does: flags grow, to the pending tokens and their descendants only.\<close>

lemma cancel_all_spec:
  assumes "tree_base h" and "closed_except ts h" and "\<And>t. t \<in> set ts \<Longrightarrow> t < th_fresh h"
  shows "tree_base (cancel_all ts h) \<and> closed_except [] (cancel_all ts h) \<and>
    child_rel (cancel_all ts h) = child_rel h \<and> th_handles (cancel_all ts h) = th_handles h \<and>
    th_fresh (cancel_all ts h) = th_fresh h \<and>
    (\<forall>x. tk_flag (th_token h x) \<longrightarrow> tk_flag (th_token (cancel_all ts h) x)) \<and>
    (\<forall>x \<in> set ts. tk_flag (th_token (cancel_all ts h) x)) \<and>
    (\<forall>x. tk_flag (th_token (cancel_all ts h) x) \<longrightarrow>
      tk_flag (th_token h x) \<or> (\<exists>t \<in> set ts. (t, x) \<in> (child_rel h)\<^sup>* \<and> (x = t \<or> live h x)))"
  using assms
proof (induction ts h rule: cancel_all.induct)
  case (1 h)
  then show ?case by simp
next
  case (2 t ts h)
  have t: "t < th_fresh h" using "2.prems"(3) by simp
  show ?case
  proof (cases "tk_flag (th_token h t)")
    case True
    have "closed_except ts h"
      using "2.prems"(2) True by (auto simp: closed_except_def)
    note P = "2.IH"(1) [OF disjI2 [OF True] "2.prems"(1) this]
    have eq: "cancel_all (t # ts) h = cancel_all ts h" using True by (simp add: cancel_all.simps(2))
    show ?thesis unfolding eq using P "2.prems"(3) True by simp blast
  next
    case False
    have kids: "(t, c) \<in> child_rel h" "c < th_fresh h" "live h c" if "c \<in> set (live_children h t)" for c
      using that tree_baseD(3) [OF "2.prems"(1), of c t] by (simp_all add: live_children_def child_rel_def)
    note IH = "2.IH"(2) [OF _ tree_base_set_flag [OF "2.prems"(1)]
        closed_set_flag [OF "2.prems"(1,2) False]]
    let ?h' = "cancel_all (live_children h t @ ts) (set_flag t h)"
    have eq: "cancel_all (t # ts) h = ?h'" using t False by (simp add: cancel_all.simps(2))
    have pend: "x < th_fresh (set_flag t h)" if "x \<in> set (live_children h t @ ts)" for x
      using that kids(2) "2.prems"(3) by auto
    have cond: "\<not> (th_fresh h \<le> t \<or> tk_flag (th_token h t))" using t False by simp
    note P = IH [OF cond pend, unfolded child_rel_set_flag live_set_flag set_flag_fields(2,3)]
    have ih: "tree_base ?h' \<and> closed_except [] ?h' \<and> child_rel ?h' = child_rel h \<and>
      th_handles ?h' = th_handles h \<and> th_fresh ?h' = th_fresh h"
      and mono: "\<And>x. tk_flag (th_token (set_flag t h) x) \<Longrightarrow> tk_flag (th_token ?h' x)"
      and pending: "\<And>x. x \<in> set (live_children h t @ ts) \<Longrightarrow> tk_flag (th_token ?h' x)"
      and only: "\<And>x. tk_flag (th_token ?h' x) \<Longrightarrow> tk_flag (th_token (set_flag t h) x) \<or>
        (\<exists>u \<in> set (live_children h t @ ts). (u, x) \<in> (child_rel h)\<^sup>* \<and> (x = u \<or> live h x))"
      using P by blast+
    have "tk_flag (th_token h x) \<or> (\<exists>u \<in> set (t # ts). (u, x) \<in> (child_rel h)\<^sup>* \<and> (x = u \<or> live h x))"
      if fx: "tk_flag (th_token ?h' x)" for x
    proof -
      from only [OF fx] consider "x = t" | "tk_flag (th_token h x)"
        | u where "u \<in> set (live_children h t)" "(u, x) \<in> (child_rel h)\<^sup>*" "x = u \<or> live h x"
        | u where "u \<in> set ts" "(u, x) \<in> (child_rel h)\<^sup>*" "x = u \<or> live h x"
        by (auto split: if_splits)
      then show ?thesis
      proof cases
        case 3
        then have "(t, x) \<in> (child_rel h)\<^sup>*" "live h x"
          using kids [of u] by (auto intro: converse_rtrancl_into_rtrancl)
        then show ?thesis by auto
      qed auto
    qed
    moreover have "tk_flag (th_token ?h' x)" if "tk_flag (th_token h x)" for x
      using mono [of x] that by simp
    moreover have "tk_flag (th_token ?h' x)" if "x \<in> set (t # ts)" for x
      using mono [of t] pending [of x] that by auto
    ultimately show ?thesis unfolding eq using ih by blast
  qed
qed

section \<open>Every operation keeps the tree\<close>

lemma token_new_fields [simp]:
  "fst (token_new p h) = th_fresh h"
  "th_token (snd (token_new p h)) = (th_token h)(th_fresh h :=
     \<lparr>tk_flag = False, tk_parent = p, tk_children = [], tk_sweep_at = 0\<rparr>)"
  "th_handles (snd (token_new p h)) = (th_handles h)(th_fresh h := 1)"
  "th_fresh (snd (token_new p h)) = Suc (th_fresh h)"
  by (simp_all add: token_new_def)

lemma upd_token_fields [simp]:
  "th_token (upd_token t f h) = (th_token h)(t := f (th_token h t))"
  "th_handles (upd_token t f h) = th_handles h"
  "th_fresh (upd_token t f h) = th_fresh h"
  by (simp_all add: upd_token_def)

lemma child_rel_lt: "(p, c) \<in> child_rel h \<Longrightarrow> p < c \<and> c < th_fresh h"
  by (simp add: child_rel_def)

lemma child_rel_new:
  "child_rel (snd (token_new None h)) = child_rel h"
  "t < th_fresh h \<Longrightarrow> child_rel (snd (token_new (Some t) h)) = insert (t, th_fresh h) (child_rel h)"
  by (auto simp: child_rel_def less_Suc_eq)

lemma live_new:
  assumes rel: "child_rel h' = R \<union> child_rel h" and R: "R \<subseteq> {(t, c)}"
    and hd: "th_handles h' = (th_handles h)(c := 1)" and c: "c = th_fresh h" and t: "R \<noteq> {} \<Longrightarrow> live h t"
  shows "live h' x \<longleftrightarrow> x = c \<or> live h x"
proof
  assume "live h' x"
  then obtain y where path: "(x, y) \<in> (R \<union> child_rel h)\<^sup>*" and y: "0 < th_handles h' y"
    unfolding live_iff rel by blast
  from path show "x = c \<or> live h x"
  proof (induction rule: converse_rtrancl_induct)
    case base
    then show ?case using y live_handle [of h y] by (auto simp: hd split: if_splits)
  next
    case (step a b)
    from step.hyps(1) R consider "a = t" "R \<noteq> {}" | "(a, b) \<in> child_rel h" by auto
    then show ?case
      using step.IH t live_parent child_rel_lt [of a b h] c by cases auto
  qed
next
  assume "x = c \<or> live h x"
  then show "live h' x"
  proof
    assume "x = c"
    then show ?thesis using live_handle [of h' x] by (simp add: hd)
  next
    assume "live h x"
    then obtain y where "(x, y) \<in> (child_rel h)\<^sup>*" and y: "0 < th_handles h y"
      unfolding live_iff by blast
    then have "(x, y) \<in> (R \<union> child_rel h)\<^sup>*" using rtrancl_mono [of "child_rel h" "R \<union> child_rel h"] by blast
    with y show ?thesis unfolding live_iff rel by (auto simp: hd)
  qed
qed

lemma tree_baseI:
  assumes "\<And>t. th_fresh h \<le> t \<Longrightarrow> th_handles h t = 0 \<and> tk_children (th_token h t) = []"
    and "\<And>t c. c \<in> set (tk_children (th_token h t)) \<Longrightarrow> (t, c) \<in> child_rel h"
    and "\<And>t p. t < th_fresh h \<Longrightarrow> tk_parent (th_token h t) = Some p \<Longrightarrow> p < t"
    and "\<And>p c. (p, c) \<in> child_rel h \<Longrightarrow> live h c \<Longrightarrow> \<not> tk_flag (th_token h p) \<Longrightarrow>
      c \<in> set (tk_children (th_token h p))"
  shows "tree_base h"
  using assms unfolding tree_base_def by blast

lemma closedD:
  "closed_except ts h \<Longrightarrow> (p, c) \<in> child_rel h \<Longrightarrow> live h c \<Longrightarrow> tk_flag (th_token h p) \<Longrightarrow>
    tk_flag (th_token h c) \<or> c \<in> set ts"
  unfolding closed_except_def by blast

lemma cancel_ok:
  assumes "tree_ok h" and "t < th_fresh h"
  shows "tree_ok (cancel t h)"
proof -
  have "closed_except [t] h" using assms(1) by (auto simp: tree_ok_def closed_except_def)
  then show ?thesis
    using cancel_all_spec [of h "[t]"] assms unfolding tree_ok_def cancel_def by simp
qed

lemma token_new_ok:
  assumes ok: "tree_ok h"
  shows "tree_ok (snd (token_new None h))"
proof -
  let ?h = "snd (token_new None h)"
  have b: "tree_base h" and cl: "closed_except [] h" using ok by (simp_all add: tree_ok_def)
  note rel = child_rel_new(1) [of h]
  have live: "live ?h x \<longleftrightarrow> x = th_fresh h \<or> live h x" for x
    by (rule live_new [where R = "{}"]) (simp_all add: rel)
  have "tree_base ?h"
  proof (rule tree_baseI)
    show "th_handles ?h t = 0 \<and> tk_children (th_token ?h t) = []" if "th_fresh ?h \<le> t" for t
      using tree_baseD(1,2) [OF b, of t] that by simp
    show "(t, c) \<in> child_rel ?h" if "c \<in> set (tk_children (th_token ?h t))" for t c
      using tree_baseD(3) [OF b] that unfolding rel by (auto split: if_splits)
    show "p < t" if "t < th_fresh ?h" "tk_parent (th_token ?h t) = Some p" for t p
      using tree_baseD(4) [OF b, of t p] that by (auto split: if_splits)
    show "c \<in> set (tk_children (th_token ?h p))"
      if "(p, c) \<in> child_rel ?h" "live ?h c" "\<not> tk_flag (th_token ?h p)" for p c
      using tree_baseD(5) [OF b, of p c] that child_rel_lt [of p c h] live unfolding rel by auto
  qed
  moreover have "closed_except [] ?h"
    using closedD [OF cl] child_rel_lt [of _ _ h] live unfolding closed_except_def rel by fastforce
  ultimately show ?thesis by (simp add: tree_ok_def)
qed

lemma sweep_fields [simp]:
  "th_handles (sweep t h) = th_handles h"
  "th_fresh (sweep t h) = th_fresh h"
  "tk_flag (th_token (sweep t h) x) = tk_flag (th_token h x)"
  "tk_parent (th_token (sweep t h) x) = tk_parent (th_token h x)"
  "x \<noteq> t \<Longrightarrow> th_token (sweep t h) x = th_token h x"
  by (simp_all add: sweep_def Let_def)

lemma sweep_children:
  "set (tk_children (th_token (sweep t h) t)) \<subseteq> set (tk_children (th_token h t))"
  "c \<in> set (tk_children (th_token h t)) \<Longrightarrow> live h c \<Longrightarrow> c \<in> set (tk_children (th_token (sweep t h) t))"
  by (auto simp: sweep_def Let_def live_children_def)

lemma child_token_ok:
  assumes ok: "tree_ok h" and held: "0 < th_handles h t"
  shows "tree_ok (snd (child_token t h))"
proof -
  let ?c = "th_fresh h" and ?h1 = "snd (token_new (Some t) h)"
  have b: "tree_base h" and cl: "closed_except [] h" using ok by (simp_all add: tree_ok_def)
  have t: "t < ?c" using tree_baseD(1) [OF b, of t] held by (cases "t < ?c") auto
  note rel = child_rel_new(2) [OF t]
  have live: "live ?h1 x \<longleftrightarrow> x = ?c \<or> live h x" for x
    by (rule live_new [where R = "{(t, ?c)}" and t = t]) (simp_all add: rel live_handle [OF held])
  note lt = child_rel_lt [of _ _ h]
  show ?thesis
  proof (cases "is_cancelled ?h1 t")
    case True
    then have flag: "tk_flag (th_token h t)" using t by (simp add: is_cancelled_def)
    have "tree_base ?h1"
    proof (rule tree_baseI)
      show "th_handles ?h1 x = 0 \<and> tk_children (th_token ?h1 x) = []" if "th_fresh ?h1 \<le> x" for x
        using tree_baseD(1,2) [OF b, of x] that by simp
      show "(x, c) \<in> child_rel ?h1" if "c \<in> set (tk_children (th_token ?h1 x))" for x c
        using tree_baseD(3) [OF b] that unfolding rel by (auto split: if_splits)
      show "p < x" if "x < th_fresh ?h1" "tk_parent (th_token ?h1 x) = Some p" for x p
        using tree_baseD(4) [OF b, of x p] that t by (auto split: if_splits)
      show "c \<in> set (tk_children (th_token ?h1 p))"
        if "(p, c) \<in> child_rel ?h1" "live ?h1 c" "\<not> tk_flag (th_token ?h1 p)" for p c
        using tree_baseD(5) [OF b, of p c] that lt [of p c] live flag t unfolding rel by auto
    qed
    moreover have "closed_except [?c] ?h1"
      using closedD [OF cl] lt live unfolding closed_except_def rel by fastforce
    ultimately have "tree_base (cancel ?c ?h1) \<and> closed_except [] (cancel ?c ?h1)"
      using cancel_all_spec [of ?h1 "[?c]"] by (simp add: cancel_def)
    moreover have "snd (child_token t h) = cancel ?c ?h1"
      using True by (simp add: child_token_def split_beta)
    ultimately show ?thesis by (simp add: tree_ok_def)
  next
    case False
    let ?h2 = "upd_token t (\<lambda>k. k\<lparr>tk_children := tk_children k @ [?c]\<rparr>) (sweep t ?h1)"
    have eq: "snd (child_token t h) = ?h2" using False by (simp add: child_token_def split_beta)
    have rel2: "child_rel ?h2 = insert (t, ?c) (child_rel h)"
      unfolding rel [symmetric] by (auto simp: child_rel_def)
    have live2: "live ?h2 = live ?h1" by (rule live_cong) (simp_all add: rel2 rel)
    have kids: "tk_children (th_token ?h1 t) = tk_children (th_token h t)" using t by simp
    have "tree_base ?h2"
    proof (rule tree_baseI)
      show "th_handles ?h2 x = 0 \<and> tk_children (th_token ?h2 x) = []" if "th_fresh ?h2 \<le> x" for x
        using tree_baseD(1,2) [OF b, of x] that t by auto
      show "(x, c) \<in> child_rel ?h2" if "c \<in> set (tk_children (th_token ?h2 x))" for x c
        using tree_baseD(3) [OF b, of c x] that sweep_children(1) [of t ?h1] kids unfolding rel2
        by (cases "x = t") (auto split: if_splits)
      show "p < x" if "x < th_fresh ?h2" "tk_parent (th_token ?h2 x) = Some p" for x p
        using tree_baseD(4) [OF b, of x p] that t by (auto split: if_splits)
      show "c \<in> set (tk_children (th_token ?h2 p))"
        if "(p, c) \<in> child_rel ?h2" "live ?h2 c" "\<not> tk_flag (th_token ?h2 p)" for p c
      proof (cases "p = t")
        case True
        then show ?thesis
          using tree_baseD(5) [OF b, of p c] that lt [of p c] live kids sweep_children(2) [of c ?h1 t] t
          unfolding rel2 live2 by auto
      next
        case False
        then show ?thesis
          using tree_baseD(5) [OF b, of p c] that lt [of p c] live t unfolding rel2 live2 by auto
      qed
    qed
    moreover have "closed_except [] ?h2"
      unfolding closed_except_def
    proof (intro allI impI)
      fix p c assume a: "(p, c) \<in> child_rel ?h2 \<and> live ?h2 c \<and> tk_flag (th_token ?h2 p)"
      show "tk_flag (th_token ?h2 c) \<or> c \<in> set []"
        using a closedD [OF cl, of p c] lt [of p c] live False t
        unfolding rel2 live2 by (auto simp: is_cancelled_def split: if_splits)
    qed
    ultimately show ?thesis unfolding eq by (simp add: tree_ok_def)
  qed
qed

text \<open>Dropping handles only makes tokens dead; cloning a held one changes nothing.\<close>

lemma handles_ok:
  assumes ok: "tree_ok h" and th: "th_token h' = th_token h" "th_fresh h' = th_fresh h"
    and hd: "\<And>x. 0 < th_handles h' x \<Longrightarrow> 0 < th_handles h x"
  shows "tree_ok h'"
proof -
  have rel: "child_rel h' = child_rel h" by (simp add: child_rel_def th)
  have live: "live h' x \<Longrightarrow> live h x" for x
    unfolding live_iff rel using hd by blast
  have b: "tree_base h" and cl: "closed_except [] h" using ok by (simp_all add: tree_ok_def)
  have "tree_base h'"
  proof (rule tree_baseI)
    show "th_handles h' t = 0 \<and> tk_children (th_token h' t) = []" if "th_fresh h' \<le> t" for t
      using tree_baseD(1,2) [OF b, of t] hd [of t] that by (cases "th_handles h' t") (auto simp: th)
  qed (use tree_baseD(3-5) [OF b] live in \<open>auto simp: th rel\<close>)
  moreover have "closed_except [] h'"
    using closedD [OF cl] live unfolding closed_except_def rel th by blast
  ultimately show ?thesis by (simp add: tree_ok_def)
qed

lemma token_exec_ok: "tree_ok h \<Longrightarrow> tree_ok (token_exec op h)"
proof (cases op)
  case (CancelToken t)
  assume ok: "tree_ok h"
  then have "t < th_fresh h" if "0 < th_handles h t"
    using that tree_baseD(1) [of h t] by (cases "t < th_fresh h") (auto simp: tree_ok_def)
  with ok show ?thesis by (simp add: CancelToken cancel_ok)
qed (auto simp: token_new_ok child_token_ok clone_token_def drop_token_def intro: handles_ok split: if_splits)

interpretation token_tree: machine token_exec tree_ok
  by unfold_locales (rule token_exec_ok)

lemma token_run_ok: "tree_ok (token_run ops heap_init)"
  unfolding token_run_def by (rule token_tree.ok_run [OF tree_ok_init])

section \<open>Properties\<close>

lemma closed_descendant:
  assumes "closed_except [] h" and "(t, x) \<in> (child_rel h)\<^sup>*" and "live h x" and "tk_flag (th_token h t)"
  shows "tk_flag (th_token h x)"
  using assms(2,4)
proof (induction rule: converse_rtrancl_induct)
  case (step y z)
  have "live h z"
    using step.hyps(2) assms(3) unfolding live_iff by (meson rtrancl_trans)
  with closedD [OF assms(1) step.hyps(1) _ step.prems] step.IH show ?case by simp
qed

text \<open>C4: a cancel reaches exactly its subtree: after any history of making, cloning, dropping and
  cancelling tokens, cancelling a token sets the flag of that token and of all its live
  descendants, at any depth, whatever handles in between were dropped, and of no other live
  token; in particular no ancestor and no sibling is cancelled.\<close>

theorem cancel_reaches_subtree:
  assumes "h = token_run ops heap_init" and "t < th_fresh h" and "live h x"
  shows "is_cancelled (cancel t h) x \<longleftrightarrow> is_cancelled h x \<or> (t, x) \<in> (child_rel h)\<^sup>*"
proof -
  have ok: "tree_base h" "closed_except [] h"
    using token_run_ok [of ops] unfolding assms(1) tree_ok_def by simp_all
  have cl: "closed_except [t] h" using ok(2) by (auto simp: closed_except_def)
  have pend: "u < th_fresh h" if "u \<in> set [t]" for u using that assms(2) by simp
  note spec = cancel_all_spec [OF ok(1) cl pend, simplified, folded cancel_def]
  have rel: "child_rel (cancel t h) = child_rel h" using spec by blast
  have "live (cancel t h) = live h" by (rule live_cong) (use spec in blast)+
  then have "tk_flag (th_token (cancel t h) x)" if "(t, x) \<in> (child_rel h)\<^sup>*"
    using closed_descendant [of "cancel t h" t x] spec that assms(3) rel by simp
  then show ?thesis using spec unfolding is_cancelled_def by blast
qed

text \<open>A root, its child (whose handle is dropped) and grandchild, and a sibling of the child.\<close>

definition tree_demo :: "token_op list" where
  "tree_demo = [NewToken, ChildToken 0, ChildToken 1, ChildToken 0, DropToken 1]"

theorem cancel_reaches_subtree_witness:
  "(let h = token_run tree_demo heap_init in
     live h 2 \<and> live h 3 \<and> is_cancelled (cancel 1 h) 2 \<and> \<not> is_cancelled (cancel 1 h) 3)"
proof -
  let ?h = "token_run tree_demo heap_init"
  have l: "1 < th_fresh ?h" "live ?h 2" "live ?h 3" "\<not> is_cancelled ?h 3"
    by code_simp+
  have p: "tk_parent (th_token ?h 2) = Some 1" "2 < th_fresh ?h" by code_simp+
  have q: "tk_parent (th_token ?h 3) = Some 0" by code_simp
  have "(1, 2) \<in> child_rel ?h" using p by (simp add: child_rel_def)
  then have "is_cancelled (cancel 1 ?h) 2"
    using cancel_reaches_subtree [OF refl l(1,2)] by blast
  moreover have "(1, 3) \<notin> (child_rel ?h)\<^sup>*"
  proof
    assume "(1, 3) \<in> (child_rel ?h)\<^sup>*"
    then obtain y where y: "(1, y) \<in> (child_rel ?h)\<^sup>*" "(y, 3) \<in> child_rel ?h"
      by (metis rtranclE numeral_eq_one_iff num.distinct(3))
    have "1 \<le> y" using y(1) by (induction rule: rtrancl_induct) (auto simp: child_rel_def)
    then show False using y(2) q by (simp add: child_rel_def)
  qed
  then have "\<not> is_cancelled (cancel 1 ?h) 3"
    using cancel_reaches_subtree [OF refl l(1,3)] l(4) by blast
  ultimately show ?thesis using l by (simp add: Let_def)
qed

text \<open>a live token under a cancelled one is always cancelled, whatever happened before: no order of
  making a child and cancelling the parent leaves a child that is not reached.\<close>

theorem cancelled_is_closed:
  assumes "h = token_run ops heap_init" and "(t, x) \<in> (child_rel h)\<^sup>*" and "live h x" and "is_cancelled h t"
  shows "is_cancelled h x"
  using closed_descendant [of h t x] token_run_ok [of ops] assms by (simp add: tree_ok_def is_cancelled_def)

theorem cancelled_is_closed_witness:
  "is_cancelled (token_run [NewToken, CancelToken 0, ChildToken 0, ChildToken 1] heap_init) 2"
proof -
  let ?h = "token_run [NewToken, CancelToken 0, ChildToken 0, ChildToken 1] heap_init"
  have l: "live ?h 2" "is_cancelled ?h 0" "2 < th_fresh ?h" by code_simp+
  have "tk_parent (th_token ?h 1) = Some 0" "tk_parent (th_token ?h 2) = Some 1" by code_simp+
  then have "(0, 1) \<in> child_rel ?h" "(1, 2) \<in> child_rel ?h"
    using l(3) by (simp_all add: child_rel_def)
  then have "(0, 2) \<in> (child_rel ?h)\<^sup>*" by (meson r_into_rtrancl rtrancl_trans)
  from cancelled_is_closed [OF refl this l(1,2)] show ?thesis .
qed

section \<open>The recursion of the code\<close>

lemma cancel_all_append: "cancel_all (ts @ us) h = cancel_all us (cancel_all ts h)"
  by (induction ts h rule: cancel_all.induct) (simp_all add: cancel_all.simps(2))

lemma cancel_all_fold: "cancel_all ts h = fold cancel ts h"
proof (induction ts arbitrary: h)
  case (Cons t ts)
  have "cancel_all (t # ts) h = cancel_all ts (cancel t h)"
    using cancel_all_append [of "[t]" ts h] by (simp add: cancel_def)
  with Cons show ?case by simp
qed simp

text \<open>\<^verbatim>\<open>cancel\<close> is the recursion the code writes, and it ends on every tree: it does nothing on a token
  that is cancelled already, and otherwise sets the flag, empties the children list and cancels the
  children that are alive, one after the other.\<close>

theorem cancel_recursion:
  assumes "t < th_fresh h"
  shows "cancel t h =
    (if is_cancelled h t then h else fold cancel (live_children h t) (set_flag t h))"
proof -
  have "cancel t h = (if is_cancelled h t then h else cancel_all (live_children h t) (set_flag t h))"
    using assms unfolding cancel_def by (simp add: is_cancelled_def cancel_all.simps(2))
  then show ?thesis unfolding cancel_all_fold .
qed

theorem cancel_recursion_witness:
  "th_notified (cancel 0 (token_run tree_demo heap_init)) = [0, 1, 2, 3] \<and>
    cancel 0 (token_run tree_demo heap_init) = fold cancel [1, 3] (set_flag 0 (token_run tree_demo heap_init))"
proof -
  have "0 < th_fresh (token_run tree_demo heap_init)" "\<not> is_cancelled (token_run tree_demo heap_init) 0"
    "live_children (token_run tree_demo heap_init) 0 = [1, 3]"
    by code_simp+
  then have "cancel 0 (token_run tree_demo heap_init) = fold cancel [1, 3] (set_flag 0 (token_run tree_demo heap_init))"
    using cancel_recursion [of 0 "token_run tree_demo heap_init"] by simp
  moreover have "th_notified (cancel 0 (token_run tree_demo heap_init)) = [0, 1, 2, 3]" by code_simp
  ultimately show ?thesis by simp
qed

section \<open>The size of a children list\<close>

definition kids_ok :: "nat \<Rightarrow> nat \<Rightarrow> token_heap \<Rightarrow> bool" where
  "kids_ok n t h \<longleftrightarrow>
    length (tk_children (th_token h t)) \<le> tk_sweep_at (th_token h t) \<and>
    tk_sweep_at (th_token h t) \<le> max 16 (2 * n)"

lemma kids_ok_empty: "tk_children (th_token h t) = [] \<Longrightarrow> tk_sweep_at (th_token h t) = 0 \<Longrightarrow> kids_ok n t h"
  by (simp add: kids_ok_def)

lemma kids_ok_cancel: "kids_ok n t h \<Longrightarrow> kids_ok n t (cancel_all ts h)"
proof (induction ts h rule: cancel_all.induct)
  case (2 u ts h)
  have "kids_ok n t (set_flag u h)" using "2.prems" by (auto simp: kids_ok_def)
  with 2 show ?case by (simp add: cancel_all.simps(2))
qed simp

lemma kids_ok_child:
  assumes ok: "tree_ok h" and held: "0 < th_handles h u" and kids: "kids_ok n t h"
    and live: "length (live_children h t) \<le> n"
  shows "kids_ok n t (snd (child_token u h))"
proof -
  let ?h1 = "snd (token_new (Some u) h)"
  have b: "tree_base h" using ok by (simp add: tree_ok_def)
  have u: "u < th_fresh h" using tree_baseD(1) [OF b, of u] held by (cases "u < th_fresh h") auto
  have k1: "kids_ok n t ?h1" using kids by (simp add: kids_ok_def)
  show ?thesis
  proof (cases "is_cancelled ?h1 u")
    case True
    then show ?thesis using kids_ok_cancel [OF k1] by (simp add: child_token_def split_beta cancel_def)
  next
    case False
    have eq: "snd (child_token u h) =
      upd_token u (\<lambda>k. k\<lparr>tk_children := tk_children k @ [th_fresh h]\<rparr>) (sweep u ?h1)"
      using False by (simp add: child_token_def split_beta)
    show ?thesis
    proof (cases "t = u")
      case True
      have "live ?h1 x = live h x" if "x \<in> set (tk_children (th_token h u))" for x
      proof -
        have "x \<noteq> th_fresh h" using tree_baseD(3) [OF b that] child_rel_lt by blast
        then show ?thesis
          using live_new [of ?h1 "{(u, th_fresh h)}" h u "th_fresh h" x] live_handle [OF held]
            child_rel_new(2) [OF u] by simp
      qed
      then have "live_children ?h1 u = live_children h u"
        unfolding live_children_def using u by (auto intro: filter_cong)
      then show ?thesis
        using k1 live u unfolding eq True by (auto simp: kids_ok_def sweep_def Let_def)
    next
      case False
      then show ?thesis using k1 unfolding eq by (simp add: kids_ok_def)
    qed
  qed
qed

lemma kids_ok_exec:
  assumes "tree_ok h" and "kids_ok n t h" and "length (live_children h t) \<le> n"
  shows "kids_ok n t (token_exec op h)"
  using assms kids_ok_child [OF assms(1) _ assms(2,3)]
  by (cases op) (auto simp: kids_ok_cancel cancel_def clone_token_def drop_token_def, auto simp: kids_ok_def)

text \<open>the memory of finished work does not pile up under a long-lived token: if at no point of a
  history more than \<open>n\<close> children of a token were alive, its list never holds more than twice \<open>n\<close>
  entries (or 16), however many children came and went.\<close>

theorem children_list_bounded:
  assumes "\<And>k. k \<le> length ops \<Longrightarrow> length (live_children (token_run (take k ops) heap_init) t) \<le> n"
  shows "length (tk_children (th_token (token_run ops heap_init) t)) \<le> max 16 (2 * n)"
proof -
  have "kids_ok n t (token_run ops heap_init)"
    using assms
  proof (induction ops rule: rev_induct)
    case Nil
    then show ?case by (simp add: token_run_def heap_init_def kids_ok_def)
  next
    case (snoc op ops)
    have "kids_ok n t (token_run ops heap_init)"
    proof (rule snoc.IH)
      show "length (live_children (token_run (take k ops) heap_init) t) \<le> n" if "k \<le> length ops" for k
        using snoc.prems [of k] that by simp
    qed
    moreover have "length (live_children (token_run ops heap_init) t) \<le> n"
      using snoc.prems [of "length ops"] by simp
    ultimately show ?case
      using kids_ok_exec [OF token_run_ok] by (simp add: token_run_def)
  qed
  then show ?thesis by (simp add: kids_ok_def)
qed

theorem children_list_bounded_witness:
  "length (tk_children (th_token (token_run tree_demo heap_init) 0)) \<le> max 16 (2 * 2)"
proof -
  have "\<forall>k \<in> set [0..<6]. length (live_children (token_run (take k tree_demo) heap_init) 0) \<le> 2"
    by code_simp
  then have "length (live_children (token_run (take k tree_demo) heap_init) 0) \<le> 2" if "k \<le> length tree_demo" for k
    using that by (simp add: tree_demo_def)
  then show ?thesis by (rule children_list_bounded)
qed

end
