(* ===== verification/Isle_Cancel_Race.thy ===== *)
theory Isle_Cancel_Race
  imports Isle_Cancel
begin

text \<open>
  \<^verbatim>\<open>cancel\<close>, \<^verbatim>\<open>child_token\<close> and \<^verbatim>\<open>cancelled\<close> of one token called from many threads at once.

  The token is shared: its flag is an atomic, its children list is behind a mutex, and its
  waiters are registered with a \<^verbatim>\<open>tokio::sync::Notify\<close>.  That type is not under \<^verbatim>\<open>src/\<close>: which
  futures its \<^verbatim>\<open>notify_waiters\<close> wakes is the parameter \<open>wakes\<close> of the steps, and what the code relies
  on is \<open>notify_waiters_ok\<close>, its documented behaviour: every future that was enabled before the
  call is woken.  Each step of a thread is one access to this state, at the granularity
  of \<^verbatim>\<open>src/hook.rs\<close>: the swap of the flag, the notification, the taking of the list (the lock is
  released in the same statement), the cancel of one child; the locking, the check of the flag
  and the push of \<^verbatim>\<open>child_token\<close>; the two checks and the enabling of \<^verbatim>\<open>cancelled\<close>.  Threads are
  numbered; a child has the number of the thread that makes it, and its handle is held.
\<close>

datatype cancel_pc = CStart | CSwapped | CNotified | CTaken "nat list" | CDone

datatype child_pc = KStart | KLocked | KChecked | KSelf | KDone

datatype wait_pc = WStart | WChecked | WEnabled | WWaiting | WDone

record race =
  rc_flag :: bool
  rc_list :: "nat list"
  rc_lock :: "nat option"
  rc_cancelled :: "nat set"
  rc_woken :: "nat set"
  rc_cancel :: "nat \<Rightarrow> cancel_pc"
  rc_child :: "nat \<Rightarrow> child_pc"
  rc_wait :: "nat \<Rightarrow> wait_pc"

definition race_init :: race where
  "race_init =
    \<lparr>rc_flag = False, rc_list = [], rc_lock = None, rc_cancelled = {}, rc_woken = {},
     rc_cancel = (\<lambda>_. CStart), rc_child = (\<lambda>_. KStart), rc_wait = (\<lambda>_. WStart)\<rparr>"

definition at_cancel :: "nat \<Rightarrow> cancel_pc \<Rightarrow> race \<Rightarrow> race" where
  "at_cancel i pc s = s\<lparr>rc_cancel := (rc_cancel s)(i := pc)\<rparr>"

definition at_child :: "nat \<Rightarrow> child_pc \<Rightarrow> race \<Rightarrow> race" where
  "at_child k pc s = s\<lparr>rc_child := (rc_child s)(k := pc)\<rparr>"

definition at_wait :: "nat \<Rightarrow> wait_pc \<Rightarrow> race \<Rightarrow> race" where
  "at_wait w pc s = s\<lparr>rc_wait := (rc_wait s)(w := pc)\<rparr>"

definition notify_waiters_ok :: "((nat \<Rightarrow> wait_pc) \<Rightarrow> nat set) \<Rightarrow> bool" where
  "notify_waiters_ok wakes \<longleftrightarrow> (\<forall>pcs w. pcs w = WEnabled \<or> pcs w = WWaiting \<longrightarrow> w \<in> wakes pcs)"

text \<open>A concrete \<open>wakes\<close>, for the witnesses: exactly the enabled futures.\<close>

definition wake_enabled :: "(nat \<Rightarrow> wait_pc) \<Rightarrow> nat set" where
  "wake_enabled pcs = {w. pcs w = WEnabled \<or> pcs w = WWaiting}"

lemma wake_enabled_ok: "notify_waiters_ok wake_enabled"
  by (simp add: notify_waiters_ok_def wake_enabled_def)

inductive race_step :: "((nat \<Rightarrow> wait_pc) \<Rightarrow> nat set) \<Rightarrow> race \<Rightarrow> race \<Rightarrow> bool"
  for wakes :: "(nat \<Rightarrow> wait_pc) \<Rightarrow> nat set" where
  swap_again: "rc_cancel s i = CStart \<Longrightarrow> rc_flag s \<Longrightarrow> race_step wakes s (at_cancel i CDone s)"
| swap: "rc_cancel s i = CStart \<Longrightarrow> \<not> rc_flag s \<Longrightarrow> race_step wakes s (at_cancel i CSwapped (s\<lparr>rc_flag := True\<rparr>))"
| notify: "rc_cancel s i = CSwapped \<Longrightarrow>
    race_step wakes s (at_cancel i CNotified
      (s\<lparr>rc_woken := rc_woken s \<union> wakes (rc_wait s)\<rparr>))"
| take: "rc_cancel s i = CNotified \<Longrightarrow> rc_lock s = None \<Longrightarrow>
    race_step wakes s (at_cancel i (CTaken (rc_list s)) (s\<lparr>rc_list := []\<rparr>))"
| cancel_child: "rc_cancel s i = CTaken (c # cs) \<Longrightarrow>
    race_step wakes s (at_cancel i (CTaken cs) (s\<lparr>rc_cancelled := insert c (rc_cancelled s)\<rparr>))"
| cancel_end: "rc_cancel s i = CTaken [] \<Longrightarrow> race_step wakes s (at_cancel i CDone s)"
| child_lock: "rc_child s k = KStart \<Longrightarrow> rc_lock s = None \<Longrightarrow>
    race_step wakes s (at_child k KLocked (s\<lparr>rc_lock := Some k\<rparr>))"
| child_cancelled: "rc_child s k = KLocked \<Longrightarrow> rc_flag s \<Longrightarrow>
    race_step wakes s (at_child k KSelf (s\<lparr>rc_lock := None\<rparr>))"
| child_self: "rc_child s k = KSelf \<Longrightarrow>
    race_step wakes s (at_child k KDone (s\<lparr>rc_cancelled := insert k (rc_cancelled s)\<rparr>))"
| child_check: "rc_child s k = KLocked \<Longrightarrow> \<not> rc_flag s \<Longrightarrow> race_step wakes s (at_child k KChecked s)"
| child_push: "rc_child s k = KChecked \<Longrightarrow>
    race_step wakes s (at_child k KDone (s\<lparr>rc_list := rc_list s @ [k], rc_lock := None\<rparr>))"
| wait_first: "rc_wait s w = WStart \<Longrightarrow> rc_flag s \<Longrightarrow> race_step wakes s (at_wait w WDone s)"
| wait_check: "rc_wait s w = WStart \<Longrightarrow> \<not> rc_flag s \<Longrightarrow> race_step wakes s (at_wait w WChecked s)"
| wait_enable: "rc_wait s w = WChecked \<Longrightarrow> race_step wakes s (at_wait w WEnabled s)"
| wait_second: "rc_wait s w = WEnabled \<Longrightarrow> rc_flag s \<Longrightarrow> race_step wakes s (at_wait w WDone s)"
| wait_sleep: "rc_wait s w = WEnabled \<Longrightarrow> \<not> rc_flag s \<Longrightarrow> race_step wakes s (at_wait w WWaiting s)"
| wait_wake: "rc_wait s w = WWaiting \<Longrightarrow> w \<in> rc_woken s \<Longrightarrow> race_step wakes s (at_wait w WDone s)"

inductive_simps race_step_iff: "race_step wakes s s'"

lemma at_fields [simp]:
  "rc_flag (at_cancel i p s) = rc_flag s" "rc_list (at_cancel i p s) = rc_list s"
  "rc_lock (at_cancel i p s) = rc_lock s" "rc_cancelled (at_cancel i p s) = rc_cancelled s"
  "rc_woken (at_cancel i p s) = rc_woken s" "rc_cancel (at_cancel i p s) = (rc_cancel s)(i := p)"
  "rc_child (at_cancel i p s) = rc_child s" "rc_wait (at_cancel i p s) = rc_wait s"
  "rc_flag (at_child i q s) = rc_flag s" "rc_list (at_child i q s) = rc_list s"
  "rc_lock (at_child i q s) = rc_lock s" "rc_cancelled (at_child i q s) = rc_cancelled s"
  "rc_woken (at_child i q s) = rc_woken s" "rc_cancel (at_child i q s) = rc_cancel s"
  "rc_child (at_child i q s) = (rc_child s)(i := q)" "rc_wait (at_child i q s) = rc_wait s"
  "rc_flag (at_wait i r s) = rc_flag s" "rc_list (at_wait i r s) = rc_list s"
  "rc_lock (at_wait i r s) = rc_lock s" "rc_cancelled (at_wait i r s) = rc_cancelled s"
  "rc_woken (at_wait i r s) = rc_woken s" "rc_cancel (at_wait i r s) = rc_cancel s"
  "rc_child (at_wait i r s) = rc_child s" "rc_wait (at_wait i r s) = (rc_wait s)(i := r)"
  by (simp_all add: at_cancel_def at_child_def at_wait_def)

section \<open>The invariant\<close>

text \<open>Somebody has set the flag and has not taken the list (or not notified) yet.\<close>

definition taking :: "race \<Rightarrow> bool" where
  "taking s \<longleftrightarrow> (\<exists>i. rc_cancel s i = CSwapped \<or> rc_cancel s i = CNotified)"

definition notifying :: "race \<Rightarrow> bool" where
  "notifying s \<longleftrightarrow> (\<exists>i. rc_cancel s i = CSwapped)"

definition lock_inv :: "race \<Rightarrow> bool" where
  "lock_inv s \<longleftrightarrow> (\<forall>k. (rc_child s k = KLocked \<or> rc_child s k = KChecked) \<longleftrightarrow> rc_lock s = Some k)"

definition list_inv :: "race \<Rightarrow> bool" where
  "list_inv s \<longleftrightarrow>
    (rc_flag s \<and> (rc_list s \<noteq> [] \<or> (\<exists>k. rc_child s k = KChecked)) \<longrightarrow> taking s)"

definition child_inv :: "race \<Rightarrow> bool" where
  "child_inv s \<longleftrightarrow> (\<forall>k. rc_child s k = KDone \<longrightarrow>
    k \<in> rc_cancelled s \<or> k \<in> set (rc_list s) \<or> (\<exists>i cs. rc_cancel s i = CTaken cs \<and> k \<in> set cs))"

definition flag_inv :: "race \<Rightarrow> bool" where
  "flag_inv s \<longleftrightarrow> (\<forall>i. rc_cancel s i \<noteq> CStart \<longrightarrow> rc_flag s)"

definition wait_inv :: "race \<Rightarrow> bool" where
  "wait_inv s \<longleftrightarrow> (\<forall>w. rc_wait s w = WWaiting \<and> rc_flag s \<longrightarrow> w \<in> rc_woken s \<or> notifying s)"

definition race_ok :: "race \<Rightarrow> bool" where
  "race_ok s \<longleftrightarrow> lock_inv s \<and> list_inv s \<and> child_inv s \<and> flag_inv s"

lemma race_ok_init: "race_ok race_init" "wait_inv race_init"
  by (simp_all add: race_ok_def lock_inv_def list_inv_def child_inv_def flag_inv_def wait_inv_def race_init_def)

lemma flag_step: "race_step wakes s s' \<Longrightarrow> flag_inv s \<Longrightarrow> flag_inv s'"
  by (induction rule: race_step.induct) (auto simp: flag_inv_def split: if_splits)

lemma lock_step: "race_step wakes s s' \<Longrightarrow> lock_inv s \<Longrightarrow> lock_inv s'"
  by (induction rule: race_step.induct)
    (auto simp: lock_inv_def split: if_splits, (metis child_pc.distinct option.inject)+)

text \<open>Who is taking or notifying, when one canceller moves from \<open>rc_cancel s i\<close> to \<open>pc\<close>.\<close>

lemma phase_move:
  "rc_cancel s i \<noteq> CSwapped \<Longrightarrow> notifying s \<Longrightarrow> notifying (at_cancel i pc s)"
  "notifying (at_cancel i CSwapped s)"
  "rc_cancel s i \<noteq> CSwapped \<Longrightarrow> rc_cancel s i \<noteq> CNotified \<Longrightarrow> taking s \<Longrightarrow> taking (at_cancel i pc s)"
  "taking (at_cancel i CSwapped s)" "taking (at_cancel i CNotified s)"
proof -
  show "notifying (at_cancel i pc s)" if ne: "rc_cancel s i \<noteq> CSwapped" and nt: "notifying s"
  proof -
    obtain j where j: "rc_cancel s j = CSwapped" using nt by (auto simp: notifying_def)
    with ne have "j \<noteq> i" by auto
    with j show ?thesis by (auto simp: notifying_def)
  qed
  show "taking (at_cancel i pc s)"
    if ne: "rc_cancel s i \<noteq> CSwapped" "rc_cancel s i \<noteq> CNotified" and tk: "taking s"
  proof -
    obtain j where j: "rc_cancel s j = CSwapped \<or> rc_cancel s j = CNotified" using tk by (auto simp: taking_def)
    with ne have "j \<noteq> i" by auto
    with j show ?thesis by (auto simp: taking_def)
  qed
qed (auto simp: notifying_def taking_def)

lemma phase_fields [simp]:
  "notifying (at_child k q s) = notifying s" "notifying (at_wait w r s) = notifying s"
  "taking (at_child k q s) = taking s" "taking (at_wait w r s) = taking s"
  "notifying (s\<lparr>rc_flag := f\<rparr>) = notifying s" "taking (s\<lparr>rc_flag := f\<rparr>) = taking s"
  "notifying (s\<lparr>rc_list := l\<rparr>) = notifying s" "taking (s\<lparr>rc_list := l\<rparr>) = taking s"
  "notifying (s\<lparr>rc_lock := k2\<rparr>) = notifying s" "taking (s\<lparr>rc_lock := k2\<rparr>) = taking s"
  "notifying (s\<lparr>rc_cancelled := c\<rparr>) = notifying s" "taking (s\<lparr>rc_cancelled := c\<rparr>) = taking s"
  "notifying (s\<lparr>rc_woken := x\<rparr>) = notifying s" "taking (s\<lparr>rc_woken := x\<rparr>) = taking s"
  "notifying (s\<lparr>rc_list := l, rc_lock := k2\<rparr>) = notifying s"
  "taking (s\<lparr>rc_list := l, rc_lock := k2\<rparr>) = taking s"
  by (simp_all add: notifying_def taking_def)

lemma wait_step: "race_step wakes s s' \<Longrightarrow> notify_waiters_ok wakes \<Longrightarrow> flag_inv s \<Longrightarrow> wait_inv s \<Longrightarrow> wait_inv s'"
  by (induction rule: race_step.induct)
    (auto simp: wait_inv_def flag_inv_def phase_move notify_waiters_ok_def split: if_splits)

lemma list_step: "race_step wakes s s' \<Longrightarrow> lock_inv s \<Longrightarrow> list_inv s \<Longrightarrow> list_inv s'"
  by (induction rule: race_step.induct)
    (auto simp: list_inv_def lock_inv_def phase_move split: if_splits)

text \<open>A child that is done stays cancelled, listed or owed; what is taken is owed by the taker.\<close>

definition owed :: "race \<Rightarrow> nat set" where
  "owed s = {k. \<exists>i cs. rc_cancel s i = CTaken cs \<and> k \<in> set cs}"

lemma child_inv_iff:
  "child_inv s \<longleftrightarrow> {k. rc_child s k = KDone} \<subseteq> rc_cancelled s \<union> set (rc_list s) \<union> owed s"
  by (auto simp: child_inv_def owed_def)

lemma owed_step:
  "(\<And>cs. rc_cancel s i \<noteq> CTaken cs) \<Longrightarrow> owed (at_cancel i pc s) \<supseteq> owed s"
  "rc_cancel s i = CTaken (c # cs) \<Longrightarrow> insert c (owed (at_cancel i (CTaken cs) s)) \<supseteq> owed s"
  "rc_cancel s i = CTaken [] \<Longrightarrow> owed (at_cancel i pc s) \<supseteq> owed s"
  "owed (at_cancel i (CTaken ks) s) \<supseteq> set ks"
  "owed (at_child k q s) = owed s" "owed (at_wait w r s) = owed s"
proof -
  have move: "k \<in> owed (at_cancel i pc s)" if "rc_cancel s j = CTaken ks" "k \<in> set ks" "j \<noteq> i" for j k ks pc
    using that by (auto simp: owed_def)
  show "owed (at_cancel i pc s) \<supseteq> owed s" if "\<And>cs. rc_cancel s i \<noteq> CTaken cs"
    using move that by (fastforce simp: owed_def [of s])
  show "owed (at_cancel i pc s) \<supseteq> owed s" if "rc_cancel s i = CTaken []"
    using move that by (fastforce simp: owed_def [of s])
  show "insert c (owed (at_cancel i (CTaken cs) s)) \<supseteq> owed s" if i: "rc_cancel s i = CTaken (c # cs)"
  proof
    fix k assume "k \<in> owed s"
    then obtain j ks where j: "rc_cancel s j = CTaken ks" "k \<in> set ks" by (auto simp: owed_def)
    show "k \<in> insert c (owed (at_cancel i (CTaken cs) s))"
    proof (cases "j = i")
      case True
      then have "k = c \<or> k \<in> set cs" using i j by auto
      then show ?thesis by (auto simp: owed_def)
    qed (use move [OF j] in simp)
  qed
  show "owed (at_cancel i (CTaken ks) s) \<supseteq> set ks" by (auto simp: owed_def)
qed (simp_all add: owed_def)

lemma owed_fields [simp]:
  "owed (s\<lparr>rc_flag := f\<rparr>) = owed s" "owed (s\<lparr>rc_list := l\<rparr>) = owed s"
  "owed (s\<lparr>rc_lock := k\<rparr>) = owed s" "owed (s\<lparr>rc_cancelled := c\<rparr>) = owed s"
  "owed (s\<lparr>rc_woken := w\<rparr>) = owed s" "owed (s\<lparr>rc_list := l, rc_lock := k\<rparr>) = owed s"
  by (simp_all add: owed_def)

lemma child_step: "race_step wakes s s' \<Longrightarrow> child_inv s \<Longrightarrow> child_inv s'"
  unfolding child_inv_iff
proof (induction rule: race_step.induct)
  case (swap_again s i)
  then show ?case using owed_step(1) [of s i CDone] by auto
next
  case (swap s i)
  then show ?case using owed_step(1) [of "s\<lparr>rc_flag := True\<rparr>" i CSwapped] by auto
next
  case (notify s i)
  let ?t = "s\<lparr>rc_woken := rc_woken s \<union> wakes (rc_wait s)\<rparr>"
  show ?case using notify owed_step(1) [of ?t i CNotified] by auto
next
  case (take s i)
  let ?t = "s\<lparr>rc_list := []\<rparr>"
  show ?case
    using take owed_step(1) [of ?t i "CTaken (rc_list s)"] owed_step(4) [of "rc_list s" i ?t] by auto
next
  case (cancel_child s i c cs)
  let ?t = "s\<lparr>rc_cancelled := insert c (rc_cancelled s)\<rparr>"
  show ?case using cancel_child owed_step(2) [of ?t i c cs] by auto
next
  case (cancel_end s i)
  then show ?case using owed_step(3) [of s i CDone] by auto
qed (auto simp: owed_step(5,6) split: if_splits)

lemma race_ok_step: "race_step wakes s s' \<Longrightarrow> race_ok s \<Longrightarrow> race_ok s'"
  unfolding race_ok_def using flag_step lock_step list_step child_step by blast

definition reachable_race :: "((nat \<Rightarrow> wait_pc) \<Rightarrow> nat set) \<Rightarrow> race \<Rightarrow> bool" where
  "reachable_race wakes s \<longleftrightarrow> (race_step wakes)\<^sup>*\<^sup>* race_init s"

lemma reachable_race_ok: "reachable_race wakes s \<Longrightarrow> race_ok s"
  unfolding reachable_race_def
  by (induction rule: rtranclp_induct) (blast intro: race_ok_init race_ok_step)+

lemma reachable_wait_inv:
  assumes "notify_waiters_ok wakes" and "reachable_race wakes s"
  shows "wait_inv s"
proof -
  have "race_ok s \<and> wait_inv s"
    using assms(2) unfolding reachable_race_def
  proof (induction rule: rtranclp_induct)
    case (step y z)
    then show ?case
      using race_ok_step [OF step.hyps(2)] wait_step [OF step.hyps(2) assms(1)] by (simp add: race_ok_def)
  qed (simp add: race_ok_init)
  then show ?thesis ..
qed

section \<open>Properties\<close>

text \<open>No cancel is under way: every canceller has returned or not begun.\<close>

definition settled :: "race \<Rightarrow> bool" where
  "settled s \<longleftrightarrow> (\<forall>i. rc_cancel s i = CStart \<or> rc_cancel s i = CDone)"

lemma settled_quiet:
  assumes "settled s"
  shows "\<not> taking s" and "\<not> notifying s" and "rc_cancel s i \<noteq> CTaken cs"
proof -
  have q: "rc_cancel s i = CStart \<or> rc_cancel s i = CDone" for i
    using assms by (simp add: settled_def)
  have "rc_cancel s i \<noteq> CSwapped \<and> rc_cancel s i \<noteq> CNotified \<and> rc_cancel s i \<noteq> CTaken cs" for i cs
    using q [of i] by auto
  then show "\<not> taking s" and "\<not> notifying s" and "rc_cancel s i \<noteq> CTaken cs"
    by (simp_all add: taking_def notifying_def)
qed

text \<open>C10: however the steps of any number of \<^verbatim>\<open>cancel\<close> and \<^verbatim>\<open>child_token\<close> calls on one token interleave,
  once the token is cancelled and no cancel is under way, every child that was handed out is
  cancelled.\<close>

theorem race_cancels_every_child:
  assumes "reachable_race wakes s" and "rc_flag s" and "settled s" and "rc_child s k = KDone"
  shows "k \<in> rc_cancelled s"
proof -
  have ok: "list_inv s" "child_inv s" using reachable_race_ok [OF assms(1)] by (simp_all add: race_ok_def)
  have "rc_list s = []"
    using ok(1) assms(2) settled_quiet(1) [OF assms(3)] by (auto simp: list_inv_def)
  moreover have "rc_cancel s i \<noteq> CTaken cs" for i cs by (rule settled_quiet(3) [OF assms(3)])
  ultimately show ?thesis using ok(2) assms(4) by (auto simp: child_inv_def)
qed

text \<open>One canceller swaps the flag while a child is between its check and its push.\<close>

definition race_mid :: race where
  "race_mid = at_child 7 KDone ((at_cancel 0 CSwapped ((at_child 7 KChecked (at_child 7 KLocked
     (race_init\<lparr>rc_lock := Some 7\<rparr>)))\<lparr>rc_flag := True\<rparr>))\<lparr>rc_list := [7], rc_lock := None\<rparr>)"

definition race_end :: race where
  "race_end = at_cancel 0 CDone ((at_cancel 0 (CTaken []) ((at_cancel 0 (CTaken [7])
     ((at_cancel 0 CNotified (race_mid\<lparr>rc_woken := {}\<rparr>))\<lparr>rc_list := []\<rparr>))\<lparr>rc_cancelled := {7}\<rparr>)))"

lemma race_mid_reachable: "reachable_race wake_enabled race_mid"
proof -
  let ?a = "at_child 7 KLocked (race_init\<lparr>rc_lock := Some 7\<rparr>)"
  let ?b = "at_child 7 KChecked ?a"
  let ?c = "at_cancel 0 CSwapped (?b\<lparr>rc_flag := True\<rparr>)"
  have "race_step wake_enabled race_init ?a" by (rule child_lock) (simp_all add: race_init_def)
  moreover have "race_step wake_enabled ?a ?b" by (rule child_check) (simp_all add: race_init_def)
  moreover have "race_step wake_enabled ?b ?c" by (rule swap) (simp_all add: race_init_def)
  moreover have "race_step wake_enabled ?c race_mid"
    using child_push [of ?c 7] by (simp add: race_mid_def race_init_def at_child_def at_cancel_def)
  ultimately show ?thesis
    unfolding reachable_race_def by (meson converse_rtranclp_into_rtranclp rtranclp.rtrancl_refl)
qed

lemma race_end_reachable: "reachable_race wake_enabled race_end"
proof -
  let ?d = "at_cancel 0 CNotified (race_mid\<lparr>rc_woken := {}\<rparr>)"
  let ?e = "at_cancel 0 (CTaken [7]) (?d\<lparr>rc_list := []\<rparr>)"
  let ?f = "at_cancel 0 (CTaken []) (?e\<lparr>rc_cancelled := {7}\<rparr>)"
  have "race_step wake_enabled race_mid ?d"
    using notify [of race_mid 0 wake_enabled] by (simp add: wake_enabled_def race_mid_def race_init_def at_child_def at_cancel_def)
  moreover have "race_step wake_enabled ?d ?e"
    using take [of ?d 0] by (simp add: race_mid_def race_init_def at_child_def at_cancel_def)
  moreover have "race_step wake_enabled ?e ?f"
    using cancel_child [of ?e 0 7 "[]"] by (simp add: race_mid_def race_init_def at_child_def at_cancel_def)
  moreover have "race_step wake_enabled ?f race_end"
    using cancel_end [of ?f 0] by (simp add: race_end_def)
  ultimately show ?thesis
    using race_mid_reachable unfolding reachable_race_def by (meson rtranclp.rtrancl_into_rtrancl)
qed

theorem race_cancels_every_child_witness:
  "reachable_race wake_enabled race_end \<and> rc_flag race_end \<and> settled race_end \<and> 7 \<in> rc_cancelled race_end"
proof -
  have f: "rc_flag race_end" "settled race_end" "rc_child race_end 7 = KDone"
    by (simp_all add: race_end_def race_mid_def race_init_def settled_def at_child_def at_cancel_def)
  show ?thesis
    using race_cancels_every_child [OF race_end_reachable f] race_end_reachable f by blast
qed

text \<open>C24: no cancel is lost to a future that waits for it: however \<^verbatim>\<open>cancel\<close> and \<^verbatim>\<open>cancelled().await\<close>
  interleave, once the token is cancelled and no cancel is under way, a future that went to sleep
  on the token has been woken.\<close>

theorem race_wakes_every_waiter:
  assumes "notify_waiters_ok wakes" and "reachable_race wakes s" and "rc_flag s" and "settled s" and "rc_wait s w = WWaiting"
  shows "w \<in> rc_woken s"
proof -
  have "wait_inv s" by (rule reachable_wait_inv [OF assms(1,2)])
  moreover have "\<not> notifying s"
    by (rule settled_quiet(2) [OF assms(4)])
  ultimately show ?thesis using assms(3,5) by (auto simp: wait_inv_def)
qed

definition wake_end :: race where
  "wake_end = at_cancel 0 CDone (at_cancel 0 (CTaken []) ((at_cancel 0 CNotified
     ((at_cancel 0 CSwapped ((at_wait 4 WWaiting (at_wait 4 WEnabled (at_wait 4 WChecked race_init)))
       \<lparr>rc_flag := True\<rparr>))\<lparr>rc_woken := {4}\<rparr>))\<lparr>rc_list := []\<rparr>))"

lemma wake_end_reachable: "reachable_race wake_enabled wake_end"
proof -
  let ?a = "at_wait 4 WChecked race_init"
  let ?b = "at_wait 4 WEnabled ?a"
  let ?c = "at_wait 4 WWaiting ?b"
  let ?d = "at_cancel 0 CSwapped (?c\<lparr>rc_flag := True\<rparr>)"
  let ?e = "at_cancel 0 CNotified (?d\<lparr>rc_woken := {4}\<rparr>)"
  let ?f = "at_cancel 0 (CTaken []) (?e\<lparr>rc_list := []\<rparr>)"
  note d = race_init_def at_wait_def at_cancel_def
  have "race_step wake_enabled race_init ?a" by (rule wait_check) (simp_all add: d)
  moreover have "race_step wake_enabled ?a ?b" by (rule wait_enable) (simp add: d)
  moreover have "race_step wake_enabled ?b ?c" by (rule wait_sleep) (simp_all add: d)
  moreover have "race_step wake_enabled ?c ?d" by (rule swap) (simp_all add: d)
  moreover have "race_step wake_enabled ?d ?e"
  proof -
    have "wake_enabled (rc_wait ?d) = {4}" by (auto simp: d wake_enabled_def)
    then show ?thesis using notify [of ?d 0 wake_enabled] by (simp add: d)
  qed
  moreover have "race_step wake_enabled ?e ?f" using take [of ?e 0] by (simp add: d)
  moreover have "race_step wake_enabled ?f wake_end" using cancel_end [of ?f 0] by (simp add: wake_end_def)
  ultimately show ?thesis
    unfolding reachable_race_def by (meson converse_rtranclp_into_rtranclp rtranclp.rtrancl_refl)
qed

theorem race_wakes_every_waiter_witness:
  "reachable_race wake_enabled wake_end \<and> rc_flag wake_end \<and> settled wake_end \<and> 4 \<in> rc_woken wake_end"
proof -
  have f: "rc_flag wake_end" "settled wake_end" "rc_wait wake_end 4 = WWaiting"
    by (simp_all add: wake_end_def race_init_def settled_def at_wait_def at_cancel_def)
  show ?thesis
    using race_wakes_every_waiter [OF wake_enabled_ok wake_end_reachable f] wake_end_reachable f by blast
qed

end
