(* ===== verification/Isle_Scope.thy ===== *)
theory Isle_Scope
  imports Isle_Cancel Isle_Value
begin

text \<open>
  The scopes of \<^verbatim>\<open>src/scope.rs\<close>: the tasks of one VM, the scopes that wait for them, and the
  futures that run them.

  A \<open>scope_world\<close> is the state of the VM's thread: the token tree, the clock (\<^verbatim>\<open>Instant\<close>s are
  naturals), the scopes (\<^verbatim>\<open>Rc<Scope>\<close>), the task states (\<^verbatim>\<open>Rc<TaskState>\<close> with the result slot of
  \<^verbatim>\<open>Spawned\<close>), the spawned futures, and the current scope of the thread.  A \<^verbatim>\<open>spawn\<close> makes one task
  state, one scope and one future: they carry the same number.  A request (\<^verbatim>\<open>run_root\<close>) has a
  scope and a future, and no task state that anyone reads.

  \<open>run_state\<close> is where the future of \<^verbatim>\<open>run_in\<close> stands.  The body of a task is a parameter of a
  poll: a function that may change the world in any way the operations here allow, and is ready
  or not.  \<open>'o\<close> is what bodies return and \<open>'v\<close> what tasks result in.  \<open>sw_alive\<close> tells which weak
  references to a scope upgrade, and \<open>sw_aborted\<close> the futures whose \<^verbatim>\<open>AbortHandle::abort\<close> was called.
\<close>

section \<open>Data\<close>

datatype phase = Running | Draining | Closed

record scope =
  sc_token :: nat
  sc_grace :: nat
  sc_phase :: phase
  sc_children :: "nat list"
  sc_parent :: "nat option"
  sc_deadline :: "nat option"

record 'v task_state =
  ts_token :: nat
  ts_done :: bool
  ts_abort :: bool
  ts_result :: "'v option"

datatype 'o run_state =
    Unstarted
  | InBody
  | InGrace nat
  | Waiting "'o option"
  | Ended "'o option"
  | Dropped

record ('o, 'v) run_future =
  rf_task :: bool
  rf_conv :: "'o option \<Rightarrow> bool \<Rightarrow> 'v option"
  rf_state :: "'o run_state"

record ('o, 'v) scope_world =
  sw_heap :: token_heap
  sw_now :: nat
  sw_scope :: "nat \<Rightarrow> scope"
  sw_alive :: "nat \<Rightarrow> bool"
  sw_task :: "nat \<Rightarrow> 'v task_state"
  sw_fut :: "nat \<Rightarrow> ('o, 'v) run_future option"
  sw_fresh :: nat
  sw_current :: "nat option"
  sw_aborted :: "nat \<Rightarrow> bool"
  sw_notified :: "nat list"

definition upd_scope :: "nat \<Rightarrow> (scope \<Rightarrow> scope) \<Rightarrow> ('o, 'v) scope_world \<Rightarrow> ('o, 'v) scope_world"
  where "upd_scope s f w = w\<lparr>sw_scope := (sw_scope w)(s := f (sw_scope w s))\<rparr>"

definition upd_task ::
  "nat \<Rightarrow> ('v task_state \<Rightarrow> 'v task_state) \<Rightarrow> ('o, 'v) scope_world \<Rightarrow> ('o, 'v) scope_world"
  where "upd_task t f w = w\<lparr>sw_task := (sw_task w)(t := f (sw_task w t))\<rparr>"

definition set_state :: "nat \<Rightarrow> 'o run_state \<Rightarrow> ('o, 'v) scope_world \<Rightarrow> ('o, 'v) scope_world"
  where "set_state n st w = w\<lparr>sw_fut := (sw_fut w)(n := map_option (rf_state_update (\<lambda>_. st)) (sw_fut w n))\<rparr>"

definition cancel_token :: "nat \<Rightarrow> ('o, 'v) scope_world \<Rightarrow> ('o, 'v) scope_world" where
  "cancel_token t w = w\<lparr>sw_heap := cancel t (sw_heap w)\<rparr>"

definition token_cancelled :: "('o, 'v) scope_world \<Rightarrow> nat \<Rightarrow> bool" where
  "token_cancelled w t = is_cancelled (sw_heap w) t"

section \<open>The current scope\<close>

text \<open>\<^verbatim>\<open>current\<close> and \<^verbatim>\<open>ScopeEnterGuard\<close>: entering returns what the guard puts back.\<close>

definition enter_scope :: "nat \<Rightarrow> ('o, 'v) scope_world \<Rightarrow> nat option \<times> ('o, 'v) scope_world" where
  "enter_scope s w = (sw_current w, w\<lparr>sw_current := Some s\<rparr>)"

definition leave_scope :: "nat option \<Rightarrow> ('o, 'v) scope_world \<Rightarrow> ('o, 'v) scope_world" where
  "leave_scope prev w = w\<lparr>sw_current := prev\<rparr>"

section \<open>Task states\<close>

definition task_new :: "nat \<Rightarrow> 'v task_state" where
  "task_new tok = \<lparr>ts_token = tok, ts_done = False, ts_abort = False, ts_result = None\<rparr>"

definition is_done :: "('o, 'v) scope_world \<Rightarrow> nat \<Rightarrow> bool" where
  "is_done w t = ts_done (sw_task w t)"

text \<open>\<^verbatim>\<open>TaskState::finish\<close>.\<close>

definition finish :: "nat \<Rightarrow> ('o, 'v) scope_world \<Rightarrow> ('o, 'v) scope_world" where
  "finish t w =
    (if is_done w t then w
     else (upd_task t (\<lambda>k. k\<lparr>ts_done := True, ts_abort := False\<rparr>) w)
            \<lparr>sw_notified := sw_notified w @ [t]\<rparr>)"

section \<open>Scopes\<close>

definition scope_new :: "nat \<Rightarrow> nat \<Rightarrow> nat option \<Rightarrow> scope" where
  "scope_new tok grace parent =
    \<lparr>sc_token = tok, sc_grace = grace, sc_phase = Running, sc_children = [], sc_parent = parent,
     sc_deadline = None\<rparr>"

text \<open>
  The walk of \<^verbatim>\<open>ancestors_deadline\<close>: up the weak parent references, as far as they upgrade.  A
  scope is younger than its parent, so the walk ends.
\<close>

function ancestors :: "('o, 'v) scope_world \<Rightarrow> nat \<Rightarrow> nat list" where
  "ancestors w s =
    (case sc_parent (sw_scope w s) of
       None \<Rightarrow> []
     | Some p \<Rightarrow> if p < s \<and> sw_alive w p then p # ancestors w p else [])"
  by pat_completeness auto
termination
  by (relation "measure snd") auto

declare ancestors.simps [simp del]

fun earlier :: "nat option \<Rightarrow> nat option \<Rightarrow> nat option" where
  "earlier e None = e"
| "earlier None (Some d) = Some d"
| "earlier (Some e) (Some d) = Some (min e d)"

definition ancestors_deadline :: "('o, 'v) scope_world \<Rightarrow> nat \<Rightarrow> nat option" where
  "ancestors_deadline w s = foldl (\<lambda>e p. earlier e (sc_deadline (sw_scope w p))) None (ancestors w s)"

text \<open>\<^verbatim>\<open>now + grace\<close>, clamped to the ancestors.\<close>

definition own_deadline :: "('o, 'v) scope_world \<Rightarrow> nat \<Rightarrow> nat" where
  "own_deadline w s =
    (let own = sw_now w + sc_grace (sw_scope w s)
     in case ancestors_deadline w s of None \<Rightarrow> own | Some d \<Rightarrow> min d own)"

text \<open>\<^verbatim>\<open>Scope::add\<close>.\<close>

definition add_child :: "nat \<Rightarrow> nat \<Rightarrow> ('o, 'v) scope_world \<Rightarrow> ('o, 'v) scope_world" where
  "add_child s c w =
    (let w1 = (if sc_phase (sw_scope w s) = Draining then cancel_token (ts_token (sw_task w c)) w else w)
     in upd_scope s (\<lambda>k. k\<lparr>sc_children := filter (\<lambda>x. \<not> is_done w1 x) (sc_children k) @ [c]\<rparr>) w1)"

definition out_of_time :: "('o, 'v) scope_world \<Rightarrow> nat \<Rightarrow> bool" where
  "out_of_time w s =
    (case sc_phase (sw_scope w s) of
       Running \<Rightarrow> False
     | Draining \<Rightarrow> (case sc_deadline (sw_scope w s) of None \<Rightarrow> False | Some d \<Rightarrow> d \<le> sw_now w)
     | Closed \<Rightarrow> True)"

text \<open>\<^verbatim>\<open>Scope::spawn\<close>; it returns the number of the task.\<close>

definition spawn ::
  "nat \<Rightarrow> ('o option \<Rightarrow> bool \<Rightarrow> 'v option) \<Rightarrow> nat \<Rightarrow> ('o, 'v) scope_world \<Rightarrow>
    nat \<times> ('o, 'v) scope_world" where
  "spawn grace conv s w =
    (let (tok, h) = child_token (sc_token (sw_scope w s)) (sw_heap w);
         n = sw_fresh w;
         w1 = w\<lparr>sw_heap := h, sw_task := (sw_task w)(n := task_new tok), sw_fresh := Suc n\<rparr>
     in if out_of_time w s then (n, finish n (cancel_token tok w1))
        else
          let w2 = w1\<lparr>sw_scope := (sw_scope w1)(n := scope_new tok grace (Some s)),
                      sw_alive := (sw_alive w1)(n := True),
                      sw_fut := (sw_fut w1)(n := Some \<lparr>rf_task = True, rf_conv = conv,
                                                     rf_state = Unstarted\<rparr>)\<rparr>;
              w3 = upd_task n (ts_abort_update (\<lambda>_. True)) w2
          in (n, add_child s n w3))"

text \<open>\<^verbatim>\<open>Scope::cancel_all\<close> and \<^verbatim>\<open>Scope::abort_all\<close>.\<close>

definition cancel_children :: "nat \<Rightarrow> ('o, 'v) scope_world \<Rightarrow> ('o, 'v) scope_world" where
  "cancel_children s w = fold (\<lambda>c. cancel_token (ts_token (sw_task w c))) (sc_children (sw_scope w s)) w"

definition abort_task :: "nat \<Rightarrow> ('o, 'v) scope_world \<Rightarrow> ('o, 'v) scope_world" where
  "abort_task c w =
    (let w1 = cancel_token (ts_token (sw_task w c)) w
     in if ts_abort (sw_task w1 c)
        then (upd_task c (ts_abort_update (\<lambda>_. False)) w1)\<lparr>sw_aborted := (sw_aborted w1)(c := True)\<rparr>
        else w1)"

definition abort_all :: "nat \<Rightarrow> ('o, 'v) scope_world \<Rightarrow> ('o, 'v) scope_world" where
  "abort_all s w = fold abort_task (sc_children (sw_scope w s)) w"

section \<open>Running a body in a scope\<close>

text \<open>\<^verbatim>\<open>Scoped::poll\<close>: the scope (and its token) are current while the body is polled.\<close>

definition scoped_poll ::
  "(('o, 'v) scope_world \<Rightarrow> 'o poll \<times> ('o, 'v) scope_world) \<Rightarrow> nat \<Rightarrow> ('o, 'v) scope_world \<Rightarrow>
    'o poll \<times> ('o, 'v) scope_world" where
  "scoped_poll body s w =
    (let (prev, w1) = enter_scope s w;
         (r, w2) = body w1
     in (r, leave_scope prev w2))"

text \<open>\<^verbatim>\<open>Scope::wait_all\<close>, and what \<^verbatim>\<open>run_in\<close> does once it returns.\<close>

definition wait_all ::
  "nat \<Rightarrow> 'o option \<Rightarrow> ('o, 'v) scope_world \<Rightarrow> 'o option poll \<times> ('o, 'v) scope_world" where
  "wait_all s out w =
    (case find (\<lambda>c. \<not> is_done w c) (sc_children (sw_scope w s)) of
       Some c \<Rightarrow> (Pending, set_state s (Waiting out) w)
     | None \<Rightarrow> (Ready out, set_state s (Ended out) (upd_scope s (sc_phase_update (\<lambda>_. Closed)) w)))"

definition set_deadline :: "nat \<Rightarrow> ('o, 'v) scope_world \<Rightarrow> ('o, 'v) scope_world" where
  "set_deadline s w = upd_scope s (sc_deadline_update (\<lambda>_. Some (own_deadline w s))) w"

definition drain ::
  "nat \<Rightarrow> 'o option \<Rightarrow> ('o, 'v) scope_world \<Rightarrow> 'o option poll \<times> ('o, 'v) scope_world" where
  "drain s out w =
    (let w1 = (if sc_deadline (sw_scope w s) = None then set_deadline s w else w);
         w2 = upd_scope s (sc_phase_update (\<lambda>_. Draining)) w1
     in wait_all s out (cancel_children s w2))"

text \<open>\<^verbatim>\<open>timeout_at(deadline, fut)\<close>: the body is polled before the timer.\<close>

definition grace_poll ::
  "(('o, 'v) scope_world \<Rightarrow> 'o poll \<times> ('o, 'v) scope_world) \<Rightarrow> nat \<Rightarrow> nat \<Rightarrow>
    ('o, 'v) scope_world \<Rightarrow> 'o option poll \<times> ('o, 'v) scope_world" where
  "grace_poll body s d w =
    (let (r, w1) = scoped_poll body s w
     in case r of
          Ready out \<Rightarrow> drain s (Some out) w1
        | Pending \<Rightarrow>
            if d \<le> sw_now w1 then drain s None w1 else (Pending, set_state s (InGrace d) w1))"

text \<open>\<^verbatim>\<open>with_grace\<close>: the cancel is looked at first.\<close>

definition body_poll ::
  "(('o, 'v) scope_world \<Rightarrow> 'o poll \<times> ('o, 'v) scope_world) \<Rightarrow> nat \<Rightarrow>
    ('o, 'v) scope_world \<Rightarrow> 'o option poll \<times> ('o, 'v) scope_world" where
  "body_poll body s w =
    (if token_cancelled w (sc_token (sw_scope w s))
     then grace_poll body s (own_deadline w s) (set_deadline s w)
     else
       let (r, w1) = scoped_poll body s w
       in case r of
            Ready out \<Rightarrow> drain s (Some out) w1
          | Pending \<Rightarrow> (Pending, set_state s InBody w1))"

text \<open>\<^verbatim>\<open>run_in\<close>.\<close>

definition run_in_poll ::
  "(('o, 'v) scope_world \<Rightarrow> 'o poll \<times> ('o, 'v) scope_world) \<Rightarrow> nat \<Rightarrow>
    ('o, 'v) scope_world \<Rightarrow> 'o option poll \<times> ('o, 'v) scope_world" where
  "run_in_poll body s w =
    (case sw_fut w s of
       None \<Rightarrow> (Pending, w)
     | Some f \<Rightarrow>
         (case rf_state f of
            Unstarted \<Rightarrow> body_poll body s w
          | InBody \<Rightarrow> body_poll body s w
          | InGrace d \<Rightarrow> grace_poll body s d w
          | Waiting out \<Rightarrow> wait_all s out w
          | Ended out \<Rightarrow> (Pending, w)
          | Dropped \<Rightarrow> (Pending, w)))"

text \<open>The future \<^verbatim>\<open>Scope::spawn\<close> gives to tokio: the result slot is filled, then the task finished.\<close>

definition fut_poll ::
  "(('o, 'v) scope_world \<Rightarrow> 'o poll \<times> ('o, 'v) scope_world) \<Rightarrow> nat \<Rightarrow>
    ('o, 'v) scope_world \<Rightarrow> ('o, 'v) scope_world" where
  "fut_poll body n w =
    (case (run_in_poll body n w, sw_fut w n) of
       ((Ready out, w1), Some f) \<Rightarrow>
         if rf_task f
         then finish n (upd_task n
                (ts_result_update (\<lambda>_. rf_conv f out (token_cancelled w1 (ts_token (sw_task w1 n))))) w1)
         else w1
     | ((_, w1), _) \<Rightarrow> w1)"

text \<open>
  Dropping the future: a future that never ran drops its captures only; a started one drops the
  body, then its \<^verbatim>\<open>AbortOnDrop\<close> (close and abort), then its \<^verbatim>\<open>FinishOnDrop\<close>.
\<close>

definition abort_on_drop :: "nat \<Rightarrow> ('o, 'v) scope_world \<Rightarrow> ('o, 'v) scope_world" where
  "abort_on_drop s w = abort_all s (upd_scope s (sc_phase_update (\<lambda>_. Closed)) w)"

definition fut_drop :: "nat \<Rightarrow> ('o, 'v) scope_world \<Rightarrow> ('o, 'v) scope_world" where
  "fut_drop n w =
    (case sw_fut w n of
       None \<Rightarrow> w
     | Some f \<Rightarrow>
         (case rf_state f of
            Unstarted \<Rightarrow> set_state n Dropped w
          | Ended out \<Rightarrow> w
          | Dropped \<Rightarrow> w
          | _ \<Rightarrow> let w1 = abort_on_drop n (set_state n Dropped w)
                 in if rf_task f then finish n w1 else w1))"

text \<open>\<^verbatim>\<open>run_root\<close>: a scope of its own under the request's token.\<close>

definition root_new :: "nat \<Rightarrow> nat \<Rightarrow> ('o, 'v) scope_world \<Rightarrow> nat \<times> ('o, 'v) scope_world" where
  "root_new tok grace w =
    (let n = sw_fresh w
     in (n, w\<lparr>sw_scope := (sw_scope w)(n := scope_new tok grace None),
              sw_alive := (sw_alive w)(n := True),
              sw_fut := (sw_fut w)(n := Some \<lparr>rf_task = False, rf_conv = (\<lambda>_ _. None),
                                             rf_state = Unstarted\<rparr>),
              sw_fresh := Suc n\<rparr>))"

fun root_result ::
  "(mlua_error \<Rightarrow> isle_error) \<Rightarrow> ('a \<Rightarrow> isle_error + 'b) \<Rightarrow> bool \<Rightarrow>
    (mlua_error + 'a) option \<Rightarrow> isle_error + 'b" where
  "root_result from unwrap True out = Inl Cancelled"
| "root_result from unwrap False (Some (Inr values)) = unwrap values"
| "root_result from unwrap False (Some (Inl e)) = Inl (from e)"
| "root_result from unwrap False None = Inl Cancelled"

section \<open>Handles and cancellable\<close>

record scoped_task =
  sk_task :: nat
  sk_wait :: bool
  sk_detached :: bool

text \<open>\<^verbatim>\<open>ScopeHandle::spawn_local\<close>: the grace of the scope, and the output as the result.\<close>

definition spawn_local :: "nat \<Rightarrow> ('o, 'o) scope_world \<Rightarrow> scoped_task \<times> ('o, 'o) scope_world" where
  "spawn_local s w =
    (let (n, w1) = spawn (sc_grace (sw_scope w s)) (\<lambda>out _. out) s w
     in (\<lparr>sk_task = n, sk_wait = False, sk_detached = False\<rparr>, w1))"

definition detach :: "scoped_task \<Rightarrow> scoped_task" where
  "detach k = k\<lparr>sk_detached := True\<rparr>"

text \<open>\<^verbatim>\<open>ScopedTask::poll\<close> (\<open>sk_wait\<close>: it is registered for the finish) and its \<^verbatim>\<open>Drop\<close>.\<close>

definition take_result :: "nat \<Rightarrow> ('o, 'v) scope_world \<Rightarrow> 'v option \<times> ('o, 'v) scope_world" where
  "take_result t w = (ts_result (sw_task w t), upd_task t (ts_result_update (\<lambda>_. None)) w)"

definition scoped_task_poll ::
  "scoped_task \<Rightarrow> ('o, 'v) scope_world \<Rightarrow>
    (isle_error + 'v) poll \<times> scoped_task \<times> ('o, 'v) scope_world" where
  "scoped_task_poll k w =
    (if is_done w (sk_task k) then
       let (r, w1) = take_result (sk_task k) w
       in (Ready (case r of None \<Rightarrow> Inl Cancelled | Some v \<Rightarrow> Inr v), k\<lparr>sk_wait := False\<rparr>, w1)
     else (Pending, k\<lparr>sk_wait := True\<rparr>, w))"

definition scoped_task_drop :: "scoped_task \<Rightarrow> ('o, 'v) scope_world \<Rightarrow> ('o, 'v) scope_world" where
  "scoped_task_drop k w =
    (if \<not> sk_detached k \<and> \<not> is_done w (sk_task k)
     then cancel_token (ts_token (sw_task w (sk_task k))) w else w)"

text \<open>\<^verbatim>\<open>cancellable\<close>: the token that was current at the call is looked at before the future.\<close>

definition cancellable_poll ::
  "('w \<Rightarrow> nat \<Rightarrow> bool) \<Rightarrow> nat option \<Rightarrow> ('w \<Rightarrow> (mlua_error + 'a) poll \<times> 'w) \<Rightarrow> 'w \<Rightarrow>
    (mlua_error + 'a) poll \<times> 'w" where
  "cancellable_poll cancelled tok fut w =
    (case tok of
       None \<Rightarrow> fut w
     | Some t \<Rightarrow> if cancelled w t then (Ready (Inl cancel_error), w) else fut w)"

definition error_value :: "mlua_error \<Rightarrow> lua_value" where
  "error_value e = VError e"

end
