(* ===== verification/Isle_Scope_Sys.thy ===== *)
theory Isle_Scope_Sys
  imports Isle_Scope
begin

text \<open>
  The scopes of one VM as a machine: requests, spawns into any scope that exists, polls of the
  futures with bodies that perform any of these acts, cancels, time, aborts and drops, in any
  order.  \<open>world_ok\<close> is the invariant of every run: an unfinished task is on the list of its
  scope, a scope's phase matches where its future stands, and a scope that was drained has no
  unfinished task.
\<close>

section \<open>The machine\<close>

datatype ('o, 'v) act =
    Spawn nat nat "'o option \<Rightarrow> bool \<Rightarrow> 'v option"
  | SpawnHere nat "'o option \<Rightarrow> bool \<Rightarrow> 'v option"
  | CancelScope nat
  | CancelTask nat
  | TakeResult nat
  | Elapse nat

datatype ('o, 'v) sop =
    Request nat nat
  | Act "('o, 'v) act"
  | PollFut nat "('o, 'v) act list" "'o option"
  | DropFut nat
  | FreeScope nat

fun exec_act :: "('o, 'v) act \<Rightarrow> ('o, 'v) scope_world \<Rightarrow> ('o, 'v) scope_world" where
  "exec_act (Spawn s g c) w = (if sw_fut w s = None then w else snd (spawn g c s w))"
| "exec_act (SpawnHere g c) w =
    (case sw_current w of
       None \<Rightarrow> w
     | Some s \<Rightarrow> if sw_fut w s = None then w else snd (spawn g c s w))"
| "exec_act (CancelScope s) w = cancel_token (sc_token (sw_scope w s)) w"
| "exec_act (CancelTask t) w = cancel_token (ts_token (sw_task w t)) w"
| "exec_act (TakeResult t) w = snd (take_result t w)"
| "exec_act (Elapse d) w = w\<lparr>sw_now := sw_now w + d\<rparr>"

definition run_body ::
  "('o, 'v) act list \<Rightarrow> 'o option \<Rightarrow> ('o, 'v) scope_world \<Rightarrow> 'o poll \<times> ('o, 'v) scope_world" where
  "run_body acts out w =
    (case out of None \<Rightarrow> Pending | Some r \<Rightarrow> Ready r, fold exec_act acts w)"

definition not_gone :: "('o, 'v) scope_world \<Rightarrow> nat \<Rightarrow> bool" where
  "not_gone w n \<longleftrightarrow>
    (case sw_fut w n of
       None \<Rightarrow> False
     | Some f \<Rightarrow> (case rf_state f of Ended _ \<Rightarrow> False | Dropped \<Rightarrow> False | _ \<Rightarrow> True))"

text \<open>An aborted future is dropped instead of polled; a scope whose future is gone may be freed.\<close>

fun scope_exec :: "('o, 'v) sop \<Rightarrow> ('o, 'v) scope_world \<Rightarrow> ('o, 'v) scope_world" where
  "scope_exec (Request tok g) w = snd (root_new tok g w)"
| "scope_exec (Act a) w = exec_act a w"
| "scope_exec (PollFut n acts out) w =
    (if sw_aborted w n then fut_drop n w else fut_poll (run_body acts out) n w)"
| "scope_exec (DropFut n) w = fut_drop n w"
| "scope_exec (FreeScope n) w = (if not_gone w n then w else w\<lparr>sw_alive := (sw_alive w)(n := False)\<rparr>)"

definition scope_run :: "('o, 'v) sop list \<Rightarrow> ('o, 'v) scope_world \<Rightarrow> ('o, 'v) scope_world" where
  "scope_run ops w = fold scope_exec ops w"

definition world_init :: "token_heap \<Rightarrow> ('o, 'v) scope_world" where
  "world_init h =
    \<lparr>sw_heap = h, sw_now = 0, sw_scope = (\<lambda>_. scope_new 0 0 None), sw_alive = (\<lambda>_. False),
     sw_task = (\<lambda>_. task_new 0), sw_fut = (\<lambda>_. None), sw_fresh = 0, sw_current = None,
     sw_aborted = (\<lambda>_. False), sw_notified = []\<rparr>"

section \<open>Fields\<close>

lemma upd_scope_fields [simp]:
  "sw_heap (upd_scope s f w) = sw_heap w" "sw_now (upd_scope s f w) = sw_now w"
  "sw_scope (upd_scope s f w) = (sw_scope w)(s := f (sw_scope w s))"
  "sw_alive (upd_scope s f w) = sw_alive w" "sw_task (upd_scope s f w) = sw_task w"
  "sw_fut (upd_scope s f w) = sw_fut w" "sw_fresh (upd_scope s f w) = sw_fresh w"
  "sw_current (upd_scope s f w) = sw_current w" "sw_aborted (upd_scope s f w) = sw_aborted w"
  by (simp_all add: upd_scope_def)

lemma upd_task_fields [simp]:
  "sw_heap (upd_task t f w) = sw_heap w" "sw_now (upd_task t f w) = sw_now w"
  "sw_scope (upd_task t f w) = sw_scope w" "sw_alive (upd_task t f w) = sw_alive w"
  "sw_task (upd_task t f w) = (sw_task w)(t := f (sw_task w t))"
  "sw_fut (upd_task t f w) = sw_fut w" "sw_fresh (upd_task t f w) = sw_fresh w"
  "sw_current (upd_task t f w) = sw_current w" "sw_aborted (upd_task t f w) = sw_aborted w"
  by (simp_all add: upd_task_def)

lemma set_state_fields [simp]:
  "sw_heap (set_state n st w) = sw_heap w" "sw_now (set_state n st w) = sw_now w"
  "sw_scope (set_state n st w) = sw_scope w" "sw_alive (set_state n st w) = sw_alive w"
  "sw_task (set_state n st w) = sw_task w"
  "sw_fut (set_state n st w) = (sw_fut w)(n := map_option (rf_state_update (\<lambda>_. st)) (sw_fut w n))"
  "sw_fresh (set_state n st w) = sw_fresh w"
  "sw_current (set_state n st w) = sw_current w" "sw_aborted (set_state n st w) = sw_aborted w"
  by (simp_all add: set_state_def)

lemma cancel_token_fields [simp]:
  "sw_heap (cancel_token t w) = cancel t (sw_heap w)" "sw_now (cancel_token t w) = sw_now w"
  "sw_scope (cancel_token t w) = sw_scope w" "sw_alive (cancel_token t w) = sw_alive w"
  "sw_task (cancel_token t w) = sw_task w" "sw_fut (cancel_token t w) = sw_fut w"
  "sw_fresh (cancel_token t w) = sw_fresh w" "sw_current (cancel_token t w) = sw_current w"
  "sw_aborted (cancel_token t w) = sw_aborted w"
  by (simp_all add: cancel_token_def)

lemma finish_fields [simp]:
  "sw_heap (finish t w) = sw_heap w" "sw_now (finish t w) = sw_now w"
  "sw_scope (finish t w) = sw_scope w" "sw_alive (finish t w) = sw_alive w"
  "sw_fut (finish t w) = sw_fut w" "sw_fresh (finish t w) = sw_fresh w"
  "sw_current (finish t w) = sw_current w" "sw_aborted (finish t w) = sw_aborted w"
  "is_done (finish t w) x \<longleftrightarrow> x = t \<or> is_done w x"
  by (auto simp: finish_def is_done_def)

lemma is_done_fields [simp]:
  "is_done (upd_scope s f w) = is_done w"
  "is_done (set_state n st w) = is_done w"
  "is_done (cancel_token t w) = is_done w"
  "is_done (w\<lparr>sw_now := i\<rparr>) = is_done w"
  "is_done (w\<lparr>sw_heap := h\<rparr>) = is_done w"
  "is_done (w\<lparr>sw_current := cu\<rparr>) = is_done w"
  "is_done (w\<lparr>sw_alive := al\<rparr>) = is_done w"
  "is_done (w\<lparr>sw_scope := sc\<rparr>) = is_done w"
  "is_done (w\<lparr>sw_fut := fu\<rparr>) = is_done w"
  "is_done (w\<lparr>sw_fresh := fr\<rparr>) = is_done w"
  by (simp_all add: is_done_def fun_eq_iff)

lemma is_done_upd_task:
  "(\<And>k. ts_done (f k) = ts_done k) \<Longrightarrow> is_done (upd_task t f w) = is_done w"
  by (auto simp: is_done_def fun_eq_iff)

text \<open>What \<open>same_world\<close> keeps is all that the invariants below read.\<close>

definition same_world :: "('o, 'v) scope_world \<Rightarrow> ('o, 'v) scope_world \<Rightarrow> bool" where
  "same_world w w' \<longleftrightarrow>
    sw_fut w' = sw_fut w \<and> sw_scope w' = sw_scope w \<and> sw_fresh w' = sw_fresh w \<and>
    is_done w' = is_done w \<and> sw_alive w' = sw_alive w \<and> sw_now w' = sw_now w"

lemma same_world_refl [simp]: "same_world w w"
  by (simp add: same_world_def)

lemma same_world_trans: "same_world a b \<Longrightarrow> same_world b c \<Longrightarrow> same_world a c"
  by (simp add: same_world_def)

lemma same_world_cancel [simp]: "same_world w (cancel_token t w)"
  by (simp add: same_world_def)

lemma same_world_fold: "(\<And>x w. same_world w (f x w)) \<Longrightarrow> same_world w (fold f xs w)"
  by (induction xs arbitrary: w) (auto intro: same_world_trans)

lemma same_world_cancel_children [simp]: "same_world w (cancel_children s w)"
proof -
  have eq: "fold (\<lambda>c. cancel_token (ts_token (t c))) xs w = fold (\<lambda>x. cancel_token x) (map (\<lambda>c. ts_token (t c)) xs) w"
    for t :: "nat \<Rightarrow> 'v task_state" and xs
    by (simp add: fold_map comp_def)
  show ?thesis unfolding cancel_children_def eq by (rule same_world_fold) simp
qed

lemma cancel_children_fut: "sw_fut (cancel_children s w) = sw_fut w"
  using same_world_cancel_children [of w s] by (simp add: same_world_def)

lemma same_world_abort [simp]: "same_world w (abort_task c w)"
  by (auto simp: same_world_def abort_task_def Let_def is_done_def fun_eq_iff)

lemma same_world_abort_all [simp]: "same_world w (abort_all s w)"
  unfolding abort_all_def by (rule same_world_fold) simp

lemma same_world_enter [simp]: "same_world w (snd (enter_scope s w))" "same_world w (leave_scope p w)"
  by (simp_all add: same_world_def enter_scope_def leave_scope_def)

lemma same_world_result [simp]: "same_world w (upd_task t (ts_result_update f) w)"
  by (simp add: same_world_def is_done_upd_task)


section \<open>The invariant\<close>

fun phase_fits :: "'o run_state \<Rightarrow> phase \<Rightarrow> bool" where
  "phase_fits (Waiting _) ph = (ph = Draining)"
| "phase_fits (Ended _) ph = (ph = Closed)"
| "phase_fits Dropped ph = True"
| "phase_fits _ ph = (ph = Running)"

fun over :: "'o run_state \<Rightarrow> bool" where
  "over (Ended _) = True"
| "over Dropped = True"
| "over _ = False"

definition world_ok :: "('o, 'v) scope_world \<Rightarrow> bool" where
  "world_ok w \<longleftrightarrow>
    (\<forall>n f. sw_fut w n = Some f \<longrightarrow>
      n < sw_fresh w \<and> phase_fits (rf_state f) (sc_phase (sw_scope w n)) \<and>
      (rf_task f \<longleftrightarrow> sc_parent (sw_scope w n) \<noteq> None) \<and>
      (rf_task f \<and> is_done w n \<longrightarrow> over (rf_state f))) \<and>
    (\<forall>n f p. sw_fut w n = Some f \<and> sc_parent (sw_scope w n) = Some p \<longrightarrow>
      p < n \<and> sw_fut w p \<noteq> None \<and> (is_done w n \<or> n \<in> set (sc_children (sw_scope w p)))) \<and>
    (\<forall>n f out c. sw_fut w n = Some f \<and> rf_state f = Ended out \<and> sw_fut w c \<noteq> None \<and>
      sc_parent (sw_scope w c) = Some n \<longrightarrow> is_done w c)"

lemma world_okD:
  assumes "world_ok w" and "sw_fut w n = Some f"
  shows "n < sw_fresh w" and "phase_fits (rf_state f) (sc_phase (sw_scope w n))"
    and "rf_task f \<longleftrightarrow> sc_parent (sw_scope w n) \<noteq> None"
    and "rf_task f \<Longrightarrow> is_done w n \<Longrightarrow> over (rf_state f)"
    and "sc_parent (sw_scope w n) = Some p \<Longrightarrow> p < n"
    and "sc_parent (sw_scope w n) = Some p \<Longrightarrow> sw_fut w p \<noteq> None"
    and "sc_parent (sw_scope w n) = Some p \<Longrightarrow> \<not> is_done w n \<Longrightarrow> n \<in> set (sc_children (sw_scope w p))"
    and "rf_state f = Ended out \<Longrightarrow> sw_fut w c \<noteq> None \<Longrightarrow> sc_parent (sw_scope w c) = Some n \<Longrightarrow> is_done w c"
  using assms unfolding world_ok_def by blast+

lemma world_okI:
  assumes "\<And>n f. sw_fut w n = Some f \<Longrightarrow> n < sw_fresh w"
    and "\<And>n f. sw_fut w n = Some f \<Longrightarrow> phase_fits (rf_state f) (sc_phase (sw_scope w n))"
    and "\<And>n f. sw_fut w n = Some f \<Longrightarrow> rf_task f \<longleftrightarrow> sc_parent (sw_scope w n) \<noteq> None"
    and "\<And>n f. sw_fut w n = Some f \<Longrightarrow> rf_task f \<Longrightarrow> is_done w n \<Longrightarrow> over (rf_state f)"
    and "\<And>n f p. sw_fut w n = Some f \<Longrightarrow> sc_parent (sw_scope w n) = Some p \<Longrightarrow> p < n \<and> sw_fut w p \<noteq> None"
    and "\<And>n f p. sw_fut w n = Some f \<Longrightarrow> sc_parent (sw_scope w n) = Some p \<Longrightarrow> \<not> is_done w n \<Longrightarrow>
      n \<in> set (sc_children (sw_scope w p))"
    and "\<And>n f out c. sw_fut w n = Some f \<Longrightarrow> rf_state f = Ended out \<Longrightarrow> sw_fut w c \<noteq> None \<Longrightarrow>
      sc_parent (sw_scope w c) = Some n \<Longrightarrow> is_done w c"
  shows "world_ok w"
  using assms unfolding world_ok_def by blast

lemma world_ok_init: "world_ok (world_init h)"
  by (simp add: world_ok_def world_init_def)

lemma world_ok_same: "same_world w w' \<Longrightarrow> world_ok w' = world_ok w"
  by (simp add: same_world_def world_ok_def)

text \<open>\<open>grows\<close>: what a body may do to the scopes that exist; \<open>sc_core\<close> is what it leaves alone.\<close>

definition sc_core :: "scope \<Rightarrow> nat \<times> nat \<times> phase \<times> nat option \<times> nat option" where
  "sc_core k = (sc_token k, sc_grace k, sc_phase k, sc_parent k, sc_deadline k)"

definition grows :: "('o, 'v) scope_world \<Rightarrow> ('o, 'v) scope_world \<Rightarrow> bool" where
  "grows w w' \<longleftrightarrow>
    sw_fresh w \<le> sw_fresh w' \<and> sw_now w \<le> sw_now w' \<and>
    (\<forall>n < sw_fresh w. sw_fut w' n = sw_fut w n \<and> sc_core (sw_scope w' n) = sc_core (sw_scope w n) \<and>
      sw_alive w' n = sw_alive w n \<and> is_done w' n = is_done w n)"

lemma growsD:
  assumes "grows w w'"
  shows "sw_fresh w \<le> sw_fresh w'" and "sw_now w \<le> sw_now w'"
    and "n < sw_fresh w \<Longrightarrow> sw_fut w' n = sw_fut w n"
    and "n < sw_fresh w \<Longrightarrow> sc_core (sw_scope w' n) = sc_core (sw_scope w n)"
    and "n < sw_fresh w \<Longrightarrow> sw_alive w' n = sw_alive w n"
    and "n < sw_fresh w \<Longrightarrow> is_done w' n = is_done w n"
  using assms unfolding grows_def by blast+

lemma grows_same: "same_world w w' \<Longrightarrow> grows w w'"
  by (simp add: same_world_def grows_def)

lemma grows_refl [simp]: "grows w w"
  by (simp add: grows_def)

lemma grows_trans: "grows a b \<Longrightarrow> grows b c \<Longrightarrow> grows a c"
  unfolding grows_def by (auto intro: order_trans dest: less_le_trans)

subsection \<open>Spawning\<close>

lemma spawn_out:
  assumes "out_of_time w s"
  shows "sw_fut (snd (spawn g c s w)) = sw_fut w" "sw_scope (snd (spawn g c s w)) = sw_scope w"
    "sw_fresh (snd (spawn g c s w)) = Suc (sw_fresh w)" "sw_now (snd (spawn g c s w)) = sw_now w"
    "sw_alive (snd (spawn g c s w)) = sw_alive w"
    "is_done (snd (spawn g c s w)) x \<longleftrightarrow> x = sw_fresh w \<or> is_done w x"
  using assms by (auto simp: spawn_def Let_def split_beta is_done_def task_new_def finish_def)

lemma add_child_fields [simp]:
  "sw_fut (add_child s c w) = sw_fut w" "sw_fresh (add_child s c w) = sw_fresh w"
  "sw_now (add_child s c w) = sw_now w" "sw_alive (add_child s c w) = sw_alive w"
  "sw_task (add_child s c w) = sw_task w" "is_done (add_child s c w) = is_done w"
  "sw_scope (add_child s c w) = (sw_scope w)(s := sw_scope w s
     \<lparr>sc_children := filter (\<lambda>x. \<not> is_done w x) (sc_children (sw_scope w s)) @ [c]\<rparr>)"
  by (simp_all add: add_child_def Let_def)

lemma spawn_in:
  assumes "\<not> out_of_time w s" and "s \<noteq> sw_fresh w"
  shows "sw_fut (snd (spawn g c s w)) =
      (sw_fut w)(sw_fresh w := Some \<lparr>rf_task = True, rf_conv = c, rf_state = Unstarted\<rparr>)"
    "sw_scope (snd (spawn g c s w)) = (sw_scope w)
      (sw_fresh w := scope_new (fst (child_token (sc_token (sw_scope w s)) (sw_heap w))) g (Some s),
       s := sw_scope w s\<lparr>sc_children :=
         filter (\<lambda>x. x = sw_fresh w \<or> \<not> is_done w x) (sc_children (sw_scope w s)) @ [sw_fresh w]\<rparr>)"
    "sw_fresh (snd (spawn g c s w)) = Suc (sw_fresh w)" "sw_now (snd (spawn g c s w)) = sw_now w"
    "sw_alive (snd (spawn g c s w)) = (sw_alive w)(sw_fresh w := True)"
    "is_done (snd (spawn g c s w)) x \<longleftrightarrow> x \<noteq> sw_fresh w \<and> is_done w x"
proof -
  have d: "is_done (upd_task (sw_fresh w) (ts_abort_update f) (w\<lparr>sw_heap := h,
      sw_task := (sw_task w)(sw_fresh w := task_new t), sw_fresh := Suc (sw_fresh w),
      sw_scope := sc, sw_alive := al, sw_fut := fu\<rparr>)) y \<longleftrightarrow> y \<noteq> sw_fresh w \<and> is_done w y" for f h t sc al fu y
    by (auto simp: is_done_def task_new_def)
  show "sw_fut (snd (spawn g c s w)) =
      (sw_fut w)(sw_fresh w := Some \<lparr>rf_task = True, rf_conv = c, rf_state = Unstarted\<rparr>)"
    "sw_fresh (snd (spawn g c s w)) = Suc (sw_fresh w)" "sw_now (snd (spawn g c s w)) = sw_now w"
    "sw_alive (snd (spawn g c s w)) = (sw_alive w)(sw_fresh w := True)"
    using assms(1) by (simp_all add: spawn_def Let_def split_beta)
  show "is_done (snd (spawn g c s w)) x \<longleftrightarrow> x \<noteq> sw_fresh w \<and> is_done w x"
    using assms(1) by (simp add: spawn_def Let_def split_beta d)
  show "sw_scope (snd (spawn g c s w)) = (sw_scope w)
      (sw_fresh w := scope_new (fst (child_token (sc_token (sw_scope w s)) (sw_heap w))) g (Some s),
       s := sw_scope w s\<lparr>sc_children :=
         filter (\<lambda>x. x = sw_fresh w \<or> \<not> is_done w x) (sc_children (sw_scope w s)) @ [sw_fresh w]\<rparr>)"
    using assms by (simp add: spawn_def Let_def split_beta d)
qed

lemma spawn_grows:
  assumes "world_ok w" and "sw_fut w s \<noteq> None"
  shows "grows w (snd (spawn g c s w))"
proof -
  have s: "s < sw_fresh w" using assms world_okD(1) [OF assms(1)] by blast
  show ?thesis
  proof (cases "out_of_time w s")
    case True
    then show ?thesis by (simp add: grows_def spawn_out)
  next
    case False
    then show ?thesis using s by (simp add: grows_def spawn_in sc_core_def)
  qed
qed

lemma world_ok_cong:
  assumes ok: "world_ok w" and F: "sw_fut w' = sw_fut w" "sw_fresh w \<le> sw_fresh w'"
    and sc: "\<And>x. sc_phase (sw_scope w' x) = sc_phase (sw_scope w x)"
      "\<And>x. sc_children (sw_scope w' x) = sc_children (sw_scope w x)"
      "\<And>x. sc_parent (sw_scope w' x) = sc_parent (sw_scope w x)"
    and d: "\<And>x. sw_fut w x \<noteq> None \<Longrightarrow> is_done w' x = is_done w x"
  shows "world_ok w'"
proof (rule world_okI, unfold F(1) sc)
  fix n f p out c
  assume n: "sw_fut w n = Some f"
  have dn: "is_done w' n = is_done w n" using d n by simp
  note D = world_okD [OF ok n]
  show "n < sw_fresh w'" using D(1) F(2) by simp
  show "phase_fits (rf_state f) (sc_phase (sw_scope w n))" by (rule D(2))
  show "rf_task f \<longleftrightarrow> sc_parent (sw_scope w n) \<noteq> None" by (rule D(3))
  show "over (rf_state f)" if "rf_task f" "is_done w' n" using D(4) that dn by simp
  show "p < n \<and> sw_fut w p \<noteq> None" if "sc_parent (sw_scope w n) = Some p" using D(5,6) that by simp
  show "n \<in> set (sc_children (sw_scope w p))" if "sc_parent (sw_scope w n) = Some p" "\<not> is_done w' n"
    using D(7) that dn by simp
  show "is_done w' c" if "rf_state f = Ended out" "sw_fut w c \<noteq> None" "sc_parent (sw_scope w c) = Some n"
    using D(8) [OF that] d [OF that(2)] by simp
qed

lemma spawn_ok:
  assumes ok: "world_ok w" and s: "sw_fut w s \<noteq> None"
  shows "world_ok (snd (spawn g c s w))"
proof -
  let ?n = "sw_fresh w"
  have ne: "s \<noteq> ?n" and lt: "\<And>n f. sw_fut w n = Some f \<Longrightarrow> n < ?n"
    using s world_okD(1) [OF ok] by blast+
  note D = world_okD [OF ok]
  show ?thesis
  proof (cases "out_of_time w s")
    case True
    show ?thesis
      by (rule world_ok_cong [OF ok]) (use lt in \<open>auto simp: spawn_out [OF True]\<close>)
  next
    case False
    note F = spawn_in [OF False ne, of g c]
    have closed: "sc_phase (sw_scope w s) \<noteq> Closed" using False by (auto simp: out_of_time_def)
    have parent: "sc_parent (sw_scope (snd (spawn g c s w)) m) = (if m = ?n then Some s else sc_parent (sw_scope w m))"
      and phase: "sc_phase (sw_scope (snd (spawn g c s w)) m) = (if m = ?n then Running else sc_phase (sw_scope w m))"
      for m using ne by (simp_all add: F scope_new_def)
    have kids: "m \<in> set (sc_children (sw_scope (snd (spawn g c s w)) p))"
      if "m \<in> set (sc_children (sw_scope w p))" "\<not> is_done w m" "p \<noteq> ?n" for m p
      using that by (auto simp: F)
    show ?thesis
    proof (rule world_okI, goal_cases)
      case (5 n f p)
      then show ?case using D(5,6) [of n _ p] s lt ne by (auto simp: F(1) parent split: if_splits)
    next
      case (6 n f p)
      show ?case
      proof (cases "n = ?n")
        case True
        then have "p = s" using 6 by (simp add: parent)
        then show ?thesis using True ne by (simp add: F)
      next
        case False
        then have n: "sw_fut w n = Some f" "sc_parent (sw_scope w n) = Some p" "\<not> is_done w n"
          using 6 by (simp_all add: F(1,6) parent)
        then have "p \<noteq> ?n" using D(5) [OF n(1,2)] lt [OF n(1)] by simp
        with D(7) [OF n] n(3) show ?thesis by (intro kids)
      qed
    next
      case (7 n f out d)
      have n: "n \<noteq> ?n" using 7 by (auto simp: F(1))
      then have n': "sw_fut w n = Some f" using 7 by (simp add: F(1))
      have "n \<noteq> s" using D(2) [OF n'] 7(2) closed by auto
      then have "d \<noteq> ?n" using 7(4) by (auto simp: parent)
      then show ?case using 7 D(8) [OF n' 7(2), of d] by (simp add: F(1,6) parent)
    next
      case (1 n f)
      then show ?case using lt by (auto simp: F(1,3) less_SucI split: if_splits)
    next
      case (2 n f)
      then show ?case using D(2) [of n f] by (auto simp: F(1) phase split: if_splits)
    next
      case (3 n f)
      then show ?case using D(3) [of n f] by (auto simp: F(1) parent split: if_splits)
    next
      case (4 n f)
      then show ?case using D(4) [of n f] by (auto simp: F(1,6) split: if_splits)
    qed
  qed
qed

subsection \<open>Bodies\<close>

lemma act_ok:
  assumes "world_ok w"
  shows "world_ok (exec_act a w) \<and> grows w (exec_act a w)"
proof (cases a)
  case (Spawn s g c)
  then show ?thesis using spawn_ok [OF assms] spawn_grows [OF assms] assms by simp
next
  case (SpawnHere g c)
  then show ?thesis
    using spawn_ok [OF assms] spawn_grows [OF assms] assms by (simp split: option.split)
next
  case (Elapse d)
  then show ?thesis using world_ok_cong [OF assms] by (simp add: grows_def)
qed (use assms in \<open>simp_all add: take_result_def world_ok_same [OF same_world_cancel] world_ok_same [OF same_world_result]
      grows_same\<close>)

lemma acts_ok:
  assumes "world_ok w"
  shows "world_ok (fold exec_act acts w) \<and> grows w (fold exec_act acts w)"
  using assms
proof (induction acts arbitrary: w)
  case (Cons a acts)
  note A = act_ok [OF Cons.prems, of a]
  then show ?case using Cons.IH [of "exec_act a w"] by (auto intro: grows_trans)
qed simp

text \<open>A body that only acts: the hypothesis on bodies under which the lemmas on polls hold.\<close>

definition body_ok ::
  "(('o, 'v) scope_world \<Rightarrow> 'o poll \<times> ('o, 'v) scope_world) \<Rightarrow> bool" where
  "body_ok body \<longleftrightarrow> (\<forall>w. world_ok w \<longrightarrow> world_ok (snd (body w)) \<and> grows w (snd (body w)))"

lemma run_body_ok: "body_ok (run_body acts out)"
  by (simp add: body_ok_def run_body_def acts_ok)

lemma scoped_poll_ok:
  assumes "body_ok body" and ok: "world_ok w"
  shows "world_ok (snd (scoped_poll body s w)) \<and> grows w (snd (scoped_poll body s w))"
proof -
  let ?w1 = "snd (enter_scope s w)"
  have w1: "world_ok ?w1" using ok by (simp add: world_ok_same [OF same_world_enter(1)])
  have b: "world_ok (snd (body ?w1))" "grows ?w1 (snd (body ?w1))"
    using assms(1) w1 by (auto simp: body_ok_def)
  have "grows w (snd (body ?w1))" using grows_trans [OF grows_same [OF same_world_enter(1)] b(2)] .
  then have "grows w (leave_scope p (snd (body ?w1)))" for p
    using grows_trans [OF _ grows_same [OF same_world_enter(2)]] by blast
  then show ?thesis
    using b by (simp add: scoped_poll_def split_beta Let_def world_ok_same [OF same_world_enter(2)])
qed

subsection \<open>Draining\<close>

text \<open>Changing where one scope stands: its future's state and its phase, consistently.\<close>

lemma world_ok_move:
  assumes ok: "world_ok w" and f: "sw_fut w s = Some f"
    and F: "sw_fut w' = (sw_fut w)(s := Some (f\<lparr>rf_state := st\<rparr>))" "sw_fresh w' = sw_fresh w"
    and sc: "\<And>n. n \<noteq> s \<Longrightarrow> sw_scope w' n = sw_scope w n"
    and ss: "sc_parent (sw_scope w' s) = sc_parent (sw_scope w s)"
      "sc_children (sw_scope w' s) = sc_children (sw_scope w s)"
    and fits: "phase_fits st (sc_phase (sw_scope w' s))"
    and ov: "over (rf_state f) \<Longrightarrow> over st"
    and d: "\<And>n. is_done w' n \<longleftrightarrow> is_done w n \<or> (n = s \<and> fin)"
    and fin: "fin \<Longrightarrow> over st"
    and ended: "\<And>out c. st = Ended out \<Longrightarrow> sw_fut w c \<noteq> None \<Longrightarrow> sc_parent (sw_scope w c) = Some s \<Longrightarrow> is_done w c"
  shows "world_ok w'"
proof -
  note D = world_okD [OF ok]
  have par: "sc_parent (sw_scope w' n) = sc_parent (sw_scope w n)"
    and kid: "sc_children (sw_scope w' n) = sc_children (sw_scope w n)" for n
    using sc [of n] ss by (cases "n = s"; simp)+
  show ?thesis
  proof (rule world_okI, unfold par kid, goal_cases)
    case (1 n g)
    then show ?case using D(1) f by (auto simp: F split: if_splits)
  next
    case (2 n g)
    then show ?case using D(2) [of n g] fits sc [of n] by (auto simp: F split: if_splits)
  next
    case (3 n g)
    then show ?case using D(3) [of n] f by (auto simp: F split: if_splits)
  next
    case (4 n g)
    then show ?case using D(4) [of n] f ov fin by (auto simp: F d split: if_splits)
  next
    case (5 n g p)
    then show ?case using D(5,6) [of n _ p] f by (auto simp: F split: if_splits)
  next
    case (6 n g p)
    then show ?case using D(7) [of n _ p] f by (auto simp: F d split: if_splits)
  next
    case (7 n g out c)
    show ?case
    proof (cases "n = s")
      case True
      then show ?thesis using 7 ended [of out c] f by (auto simp: F d split: if_splits)
    next
      case False
      then show ?thesis using 7 D(8) [of n g out c] f by (auto simp: F d split: if_splits)
    qed
  qed
qed

lemma find_undone:
  assumes ok: "world_ok w" and none: "find (\<lambda>c. \<not> is_done w c) (sc_children (sw_scope w s)) = None"
    and c: "sw_fut w c \<noteq> None" "sc_parent (sw_scope w c) = Some s"
  shows "is_done w c"
  using none c world_okD(7) [OF ok] unfolding find_None by blast

lemma set_state_fut:
  "sw_fut w s = Some f \<Longrightarrow> sw_fut (set_state s st w) = (sw_fut w)(s := Some (f\<lparr>rf_state := st\<rparr>))"
  by simp

lemma wait_all_ok:
  assumes ok: "world_ok w" and f: "sw_fut w s = Some f" "\<not> over (rf_state f)"
    and w': "same_world (upd_scope s (\<lambda>k. k\<lparr>sc_phase := Draining, sc_deadline := dl\<rparr>) w) w'"
  shows "world_ok (snd (wait_all s out w'))"
proof -
  have F: "sw_fut w' = sw_fut w" "sw_fresh w' = sw_fresh w" "is_done w' = is_done w"
    "sw_scope w' = (sw_scope w)(s := sw_scope w s\<lparr>sc_phase := Draining, sc_deadline := dl\<rparr>)"
    using w' by (simp_all add: same_world_def)
  have par: "sc_parent (sw_scope w' n) = sc_parent (sw_scope w n)"
    and kid: "sc_children (sw_scope w' n) = sc_children (sw_scope w n)" for n
    by (simp_all add: F)
  show ?thesis
  proof (cases "find (\<lambda>c. \<not> is_done w' c) (sc_children (sw_scope w' s))")
    case (Some c)
    show ?thesis unfolding wait_all_def Some option.case snd_conv
      by (rule world_ok_move [OF ok f(1), of _ "Waiting out" False]) (use f in \<open>simp_all add: F\<close>)
  next
    case None
    have all: "is_done w c" if "sw_fut w c \<noteq> None" "sc_parent (sw_scope w c) = Some s" for c
      using find_undone [OF ok _ that] None by (simp add: F)
    show ?thesis unfolding wait_all_def None option.case snd_conv
      by (rule world_ok_move [OF ok f(1), of _ "Ended out" False]) (use f all in \<open>simp_all add: F\<close>)
  qed
qed

lemma drain_ok:
  assumes ok: "world_ok w" and f: "sw_fut w s = Some f" "\<not> over (rf_state f)"
  shows "world_ok (snd (drain s out w))"
proof -
  let ?dl = "if sc_deadline (sw_scope w s) = None then Some (own_deadline w s) else sc_deadline (sw_scope w s)"
  let ?w1 = "if sc_deadline (sw_scope w s) = None then set_deadline s w else w"
  have "same_world (upd_scope s (\<lambda>k. k\<lparr>sc_phase := Draining, sc_deadline := ?dl\<rparr>) w)
      (upd_scope s (sc_phase_update (\<lambda>_. Draining)) ?w1)"
    by (auto simp: same_world_def set_deadline_def fun_eq_iff intro!: scope.equality)
  from same_world_trans [OF this same_world_cancel_children]
  show ?thesis unfolding drain_def Let_def by (rule wait_all_ok [OF ok f])
qed

subsection \<open>Polls and drops\<close>

lemma grows_fut: "grows w w' \<Longrightarrow> world_ok w \<Longrightarrow> sw_fut w s = Some f \<Longrightarrow> sw_fut w' s = Some f"
  using growsD(3) [of w w' s] world_okD(1) [of w s f] by simp

lemma set_state_ok:
  assumes ok: "world_ok w" and f: "sw_fut w s = Some f" "\<not> over (rf_state f)"
    and st: "phase_fits st (sc_phase (sw_scope w s))" "\<And>out. st \<noteq> Ended out"
  shows "world_ok (set_state s st w)"
  by (rule world_ok_move [OF ok f(1), of _ st False]) (use f st in simp_all)

lemma set_deadline_ok: "world_ok w \<Longrightarrow> world_ok (set_deadline s w)"
  by (rule world_ok_cong) (simp_all add: set_deadline_def)

definition running :: "'o run_state \<Rightarrow> bool" where
  "running st \<longleftrightarrow> st = Unstarted \<or> st = InBody \<or> (\<exists>d. st = InGrace d)"

lemma running_not_over: "running st \<Longrightarrow> \<not> over st"
  by (auto simp: running_def)

lemma running_phase:
  assumes "world_ok w" and "sw_fut w s = Some f" and "running (rf_state f)"
  shows "sc_phase (sw_scope w s) = Running"
  using world_okD(2) [OF assms(1,2)] assms(3) by (auto simp: running_def)

lemma grace_poll_ok:
  assumes b: "body_ok body" and ok: "world_ok w" and f: "sw_fut w s = Some f" "running (rf_state f)"
  shows "world_ok (snd (grace_poll body s d w))"
proof -
  let ?w1 = "snd (scoped_poll body s w)"
  have w1: "world_ok ?w1" and g: "grows w ?w1" using scoped_poll_ok [OF b ok] by blast+
  have f1: "sw_fut ?w1 s = Some f" by (rule grows_fut [OF g ok f(1)])
  note no = running_not_over [OF f(2)]
  show ?thesis
    using drain_ok [OF w1 f1 no] set_state_ok [OF w1 f1 no, of "InGrace d"] running_phase [OF w1 f1 f(2)]
    by (simp add: grace_poll_def split_beta Let_def split: poll.split)
qed

lemma body_poll_ok:
  assumes b: "body_ok body" and ok: "world_ok w" and f: "sw_fut w s = Some f" "running (rf_state f)"
  shows "world_ok (snd (body_poll body s w))"
proof (cases "token_cancelled w (sc_token (sw_scope w s))")
  case True
  have "sw_fut (set_deadline s w) s = Some f" using f by (simp add: set_deadline_def)
  from grace_poll_ok [OF b set_deadline_ok [OF ok] this f(2)] show ?thesis
    using True by (simp add: body_poll_def)
next
  case False
  let ?w1 = "snd (scoped_poll body s w)"
  have w1: "world_ok ?w1" and g: "grows w ?w1" using scoped_poll_ok [OF b ok] by blast+
  have f1: "sw_fut ?w1 s = Some f" by (rule grows_fut [OF g ok f(1)])
  note no = running_not_over [OF f(2)]
  show ?thesis
    using False drain_ok [OF w1 f1 no] set_state_ok [OF w1 f1 no, of InBody] running_phase [OF w1 f1 f(2)]
    by (simp add: body_poll_def split_beta Let_def split: poll.split)
qed

lemma wait_again_ok:
  assumes ok: "world_ok w" and f: "sw_fut w s = Some f" "rf_state f = Waiting out"
  shows "world_ok (snd (wait_all s out w))"
proof -
  have "sc_phase (sw_scope w s) = Draining" using world_okD(2) [OF ok f(1)] f(2) by simp
  then have "same_world (upd_scope s (\<lambda>k. k\<lparr>sc_phase := Draining, sc_deadline := sc_deadline (sw_scope w s)\<rparr>) w) w"
    by (auto simp: same_world_def fun_eq_iff intro!: scope.equality)
  from wait_all_ok [OF ok f(1) _ this] f(2) show ?thesis by simp
qed

lemma run_in_poll_ok:
  assumes b: "body_ok body" and ok: "world_ok w"
  shows "world_ok (snd (run_in_poll body s w))"
proof (cases "sw_fut w s")
  case (Some f)
  show ?thesis
    using body_poll_ok [OF b ok Some] grace_poll_ok [OF b ok Some] wait_again_ok [OF ok Some] ok
    by (simp add: run_in_poll_def Some running_def split: run_state.split)
qed (simp add: run_in_poll_def ok)

text \<open>\<open>Ready\<close> comes with the future \<open>Ended\<close>.\<close>

lemma wait_all_ready:
  assumes "sw_fut w s \<noteq> None" and "fst (wait_all s out w) = Ready r"
  shows "\<exists>f. sw_fut (snd (wait_all s out w)) s = Some f \<and> rf_state f = Ended r"
  using assms by (auto simp: wait_all_def split: option.splits)

lemma drain_ready:
  assumes "sw_fut w s \<noteq> None" and "fst (drain s out w) = Ready r"
  shows "\<exists>f. sw_fut (snd (drain s out w)) s = Some f \<and> rf_state f = Ended r"
proof -
  have "sw_fut (cancel_children s (upd_scope s (sc_phase_update (\<lambda>_. Draining))
      (if sc_deadline (sw_scope w s) = None then set_deadline s w else w))) s \<noteq> None"
    using assms(1) by (simp add: cancel_children_fut set_deadline_def)
  from wait_all_ready [OF this] assms(2) show ?thesis by (simp add: drain_def Let_def)
qed

lemma run_in_ready:
  assumes b: "body_ok body" and ok: "world_ok w" and r: "fst (run_in_poll body s w) = Ready out"
  shows "\<exists>f. sw_fut (snd (run_in_poll body s w)) s = Some f \<and> rf_state f = Ended out"
proof (cases "sw_fut w s")
  case None
  then show ?thesis using r by (simp add: run_in_poll_def)
next
  case (Some f)
  have g: "fst (grace_poll body s d v) = Ready out \<Longrightarrow>
      \<exists>f. sw_fut (snd (grace_poll body s d v)) s = Some f \<and> rf_state f = Ended out"
    if v: "world_ok v" "sw_fut v s = Some f" for d v
  proof -
    have f1: "sw_fut (snd (scoped_poll body s v)) s \<noteq> None"
      using grows_fut [OF conjunct2 [OF scoped_poll_ok [OF b v(1)]] v] by simp
    show "fst (grace_poll body s d v) = Ready out \<Longrightarrow> ?thesis"
      using drain_ready [OF f1] by (auto simp: grace_poll_def split_beta Let_def split: poll.splits if_splits)
  qed
  have bp: "fst (body_poll body s w) = Ready out \<Longrightarrow>
      \<exists>f. sw_fut (snd (body_poll body s w)) s = Some f \<and> rf_state f = Ended out"
  proof (cases "token_cancelled w (sc_token (sw_scope w s))")
    case True
    then show "fst (body_poll body s w) = Ready out \<Longrightarrow> ?thesis"
      using g [OF set_deadline_ok [OF ok, of s], of "own_deadline w s"] Some
      by (simp add: body_poll_def set_deadline_def)
  next
    case False
    have f1: "sw_fut (snd (scoped_poll body s w)) s \<noteq> None"
      using grows_fut [OF conjunct2 [OF scoped_poll_ok [OF b ok]] ok Some] by simp
    show "fst (body_poll body s w) = Ready out \<Longrightarrow> ?thesis"
      using False drain_ready [OF f1] by (auto simp: body_poll_def split_beta Let_def split: poll.splits)
  qed
  show ?thesis
    using r bp g [OF ok Some] wait_all_ready [of w s] Some
    by (auto simp: run_in_poll_def split: run_state.splits)
qed

lemma finish_ok:
  assumes ok: "world_ok w" and "\<And>f. sw_fut w t = Some f \<Longrightarrow> over (rf_state f)"
  shows "world_ok (finish t w)"
proof -
  note D = world_okD [OF ok]
  show ?thesis
  proof (rule world_okI, unfold finish_fields, goal_cases)
    case (4 n f)
    then show ?case using D(4) [of n f] assms(2) [of f] by auto
  next
    case (5 n f p)
    then show ?case using D(5,6) [of n f p] by simp
  next
    case (6 n f p)
    then show ?case using D(7) [of n f p] by simp
  next
    case (7 n f out c)
    then show ?case using D(8) [of n f out c] by simp
  qed (use D(1-3) in simp_all)
qed

lemma fut_poll_ok:
  assumes b: "body_ok body" and ok: "world_ok w"
  shows "world_ok (fut_poll body n w)"
proof -
  let ?w1 = "snd (run_in_poll body n w)"
  have w1: "world_ok ?w1" by (rule run_in_poll_ok [OF b ok])
  have fin: "world_ok (finish n (upd_task n (ts_result_update g) ?w1))"
    if "fst (run_in_poll body n w) = Ready out" for out g
  proof (rule finish_ok)
    show "world_ok (upd_task n (ts_result_update g) ?w1)"
      using w1 by (simp add: world_ok_same [OF same_world_result])
    show "over (rf_state f)" if "sw_fut (upd_task n (ts_result_update g) ?w1) n = Some f" for f
      using that run_in_ready [OF b ok \<open>fst _ = _\<close>] by auto
  qed
  show ?thesis
    using w1 fin by (auto simp: fut_poll_def split_beta split: poll.split option.split)
qed

lemma abort_on_drop_ok:
  assumes ok: "world_ok w" and f: "sw_fut w n = Some f" "\<not> over (rf_state f)"
  shows "world_ok (if rf_task f then finish n (abort_on_drop n (set_state n Dropped w))
    else abort_on_drop n (set_state n Dropped w))"
proof -
  have F: "sw_fut (abort_on_drop n v) = sw_fut v" "sw_fresh (abort_on_drop n v) = sw_fresh v"
    "sw_scope (abort_on_drop n v) = (sw_scope v)(n := sw_scope v n\<lparr>sc_phase := Closed\<rparr>)"
    "is_done (abort_on_drop n v) = is_done v" for v :: "('o, 'v) scope_world"
    using same_world_abort_all [of "upd_scope n (sc_phase_update (\<lambda>_. Closed)) v" n]
    by (simp_all add: abort_on_drop_def same_world_def)
  show ?thesis
    by (rule world_ok_move [OF ok f(1), of _ Dropped "rf_task f"]) (use f in \<open>auto simp: F\<close>)
qed

lemma fut_drop_ok:
  assumes ok: "world_ok w"
  shows "world_ok (fut_drop n w)"
proof (cases "sw_fut w n")
  case (Some f)
  show ?thesis
    using abort_on_drop_ok [OF ok Some] set_state_ok [OF ok Some, of Dropped] ok
    by (auto simp: fut_drop_def Some Let_def split: run_state.split)
qed (simp add: fut_drop_def ok)

lemma root_new_ok:
  assumes ok: "world_ok w"
  shows "world_ok (snd (root_new tok g w))"
proof -
  let ?n = "sw_fresh w"
  note D = world_okD [OF ok]
  have lt: "\<And>n f. sw_fut w n = Some f \<Longrightarrow> n < ?n" by (rule D(1))
  have par: "sc_parent (sw_scope (snd (root_new tok g w)) m) = (if m = ?n then None else sc_parent (sw_scope w m))"
    and fut: "sw_fut (snd (root_new tok g w)) =
      (sw_fut w)(?n := Some \<lparr>rf_task = False, rf_conv = (\<lambda>_ _. None), rf_state = Unstarted\<rparr>)"
    and dn: "is_done (snd (root_new tok g w)) = is_done w"
    and other: "m \<noteq> ?n \<Longrightarrow> sw_scope (snd (root_new tok g w)) m = sw_scope w m" for m
    by (simp_all add: root_new_def Let_def scope_new_def is_done_def fun_eq_iff)
  show ?thesis
  proof (rule world_okI, unfold par dn, goal_cases)
    case (1 n f)
    then show ?case using lt by (auto simp: root_new_def Let_def less_SucI split: if_splits)
  next
    case (2 n f)
    then show ?case using D(2) [of n f] by (auto simp: root_new_def Let_def scope_new_def split: if_splits)
  next
    case (3 n f)
    then show ?case using D(3) [of n f] by (auto simp: fut split: if_splits)
  next
    case (4 n f)
    then show ?case using D(4) [of n f] by (auto simp: fut split: if_splits)
  next
    case (5 n f p)
    then show ?case using D(5,6) [of n f p] by (auto simp: fut split: if_splits)
  next
    case (6 n f p)
    then have n: "sw_fut w n = Some f" "sc_parent (sw_scope w n) = Some p" by (auto simp: fut split: if_splits)
    then have "p \<noteq> ?n" using D(5) [OF n] lt [OF n(1)] by simp
    then show ?case using D(7) [OF n] 6 by (simp add: other)
  next
    case (7 n f out c)
    then show ?case using D(8) [of n f out c] by (auto simp: fut split: if_splits)
  qed
qed

section \<open>Every operation keeps the invariant\<close>

lemma scope_exec_ok: "world_ok w \<Longrightarrow> world_ok (scope_exec op w)"
proof (cases op)
  case (FreeScope n)
  show "world_ok w \<Longrightarrow> ?thesis"
    unfolding FreeScope scope_exec.simps by (auto intro: world_ok_cong)
qed (simp_all add: root_new_ok act_ok fut_poll_ok [OF run_body_ok] fut_drop_ok)

interpretation scope_machine: machine scope_exec world_ok
  by unfold_locales (rule scope_exec_ok)

lemma scope_run_ok: "world_ok w \<Longrightarrow> world_ok (scope_run ops w)"
  unfolding scope_run_def by (rule scope_machine.ok_run)

end
