(* ===== verification/Isle_Scope_Props.thy ===== *)
theory Isle_Scope_Props
  imports Isle_Scope_Sys Isle_Cancel_Props
begin

text \<open>
  What the scopes promise: a scope that drained leaves no unfinished task in its tree, its phase
  only moves forward, deadlines nest as long as no task has a longer grace than its scope, a body
  is polled at most once after its deadline, and a spawn after the end starts nothing.  Two
  theorems state what the code does not promise: a task aborted before its first poll is never
  marked finished, and tasks that spawn their successor into their own scope outlive every
  deadline.
\<close>

section \<open>Phases in order\<close>

fun phase_rank :: "phase \<Rightarrow> nat" where
  "phase_rank Running = 0"
| "phase_rank Draining = 1"
| "phase_rank Closed = 2"

lemma phase_rank_inj: "phase_rank a = phase_rank b \<longleftrightarrow> a = b"
  by (cases a; cases b) simp_all

instantiation phase :: linorder
begin

definition less_eq_phase :: "phase \<Rightarrow> phase \<Rightarrow> bool" where
  "less_eq_phase a b \<longleftrightarrow> phase_rank a \<le> phase_rank b"

definition less_phase :: "phase \<Rightarrow> phase \<Rightarrow> bool" where
  "less_phase a b \<longleftrightarrow> phase_rank a < phase_rank b"

instance
  by intro_classes (auto simp: less_eq_phase_def less_phase_def phase_rank_inj)

end

lemma phase_le [simp]: "Running \<le> ph" "ph \<le> Closed"
  by (cases ph; simp add: less_eq_phase_def)+

section \<open>What a step keeps\<close>

text \<open>
  \<open>forward\<close>: scopes stay where they are in the tree, their phases only move forward, a finished
  task stays finished, and the clock does not go back.
\<close>

definition forward :: "('o, 'v) scope_world \<Rightarrow> ('o, 'v) scope_world \<Rightarrow> bool" where
  "forward w w' \<longleftrightarrow>
    sw_fresh w \<le> sw_fresh w' \<and> sw_now w \<le> sw_now w' \<and>
    (\<forall>n. sw_fut w n \<noteq> None \<longrightarrow> sw_fut w' n \<noteq> None \<and> sc_parent (sw_scope w' n) = sc_parent (sw_scope w n) \<and>
      sc_phase (sw_scope w n) \<le> sc_phase (sw_scope w' n)) \<and>
    (\<forall>n < sw_fresh w. is_done w n \<longrightarrow> is_done w' n)"

lemma forward_refl [simp]: "forward w w"
  by (simp add: forward_def)

lemma forwardD:
  assumes "forward w w'"
  shows "sw_fresh w \<le> sw_fresh w'" and "sw_now w \<le> sw_now w'"
    and "sw_fut w n = Some f \<Longrightarrow> \<exists>f'. sw_fut w' n = Some f'"
    and "sw_fut w n = Some f \<Longrightarrow> sc_parent (sw_scope w' n) = sc_parent (sw_scope w n)"
    and "sw_fut w n = Some f \<Longrightarrow> sc_phase (sw_scope w n) \<le> sc_phase (sw_scope w' n)"
    and "n < sw_fresh w \<Longrightarrow> is_done w n \<Longrightarrow> is_done w' n"
  using assms unfolding forward_def by fast+

lemma forwardI:
  assumes "sw_fresh w \<le> sw_fresh w'" and "sw_now w \<le> sw_now w'"
    and "\<And>n f. sw_fut w n = Some f \<Longrightarrow> (\<exists>f'. sw_fut w' n = Some f') \<and>
      sc_parent (sw_scope w' n) = sc_parent (sw_scope w n) \<and> sc_phase (sw_scope w n) \<le> sc_phase (sw_scope w' n)"
    and "\<And>n. n < sw_fresh w \<Longrightarrow> is_done w n \<Longrightarrow> is_done w' n"
  shows "forward w w'"
  using assms unfolding forward_def by fast

lemma forward_trans [trans]:
  assumes ab: "forward a b" and bc: "forward b c"
  shows "forward a c"
proof (rule forwardI)
  show "sw_fresh a \<le> sw_fresh c" "sw_now a \<le> sw_now c"
    using forwardD(1,2) [OF ab] forwardD(1,2) [OF bc] by simp_all
  show "(\<exists>f'. sw_fut c n = Some f') \<and> sc_parent (sw_scope c n) = sc_parent (sw_scope a n) \<and>
      sc_phase (sw_scope a n) \<le> sc_phase (sw_scope c n)" if n: "sw_fut a n = Some f" for n f
  proof -
    obtain f' where f': "sw_fut b n = Some f'" using forwardD(3) [OF ab n] by blast
    show ?thesis
      using forwardD(4,5) [OF ab n] forwardD(3-5) [OF bc f'] by (simp add: order.trans)
  qed
  show "is_done c n" if "n < sw_fresh a" "is_done a n" for n
    using forwardD(1,6) [OF ab] forwardD(6) [OF bc] that by (simp add: less_le_trans)
qed

lemma forward_grows: "world_ok w \<Longrightarrow> grows w w' \<Longrightarrow> forward w w'"
proof (rule forwardI, goal_cases)
  case (3 n f)
  then have "n < sw_fresh w" using world_okD(1) by blast
  then show ?case using growsD(3,4) [OF 3(2), of n] 3(3) by (simp add: sc_core_def)
qed (simp_all add: growsD)

lemma forward_same: "same_world w w' \<Longrightarrow> forward w w'"
  by (auto simp: same_world_def intro: forwardI)

lemma forward_finish: "forward w (finish t w)"
  by (auto intro: forwardI)

lemma forward_set_state: "forward w (set_state n st w)"
  by (rule forwardI) auto

lemma forward_set_phase: "sc_phase (sw_scope w s) \<le> ph \<Longrightarrow> forward w (upd_scope s (sc_phase_update (\<lambda>_. ph)) w)"
  by (auto intro: forwardI)

lemma forward_set_deadline: "forward w (set_deadline s w)"
  by (auto simp: set_deadline_def intro: forwardI)

lemma forward_wait_all: "forward w (snd (wait_all s out w))"
  by (auto simp: wait_all_def forward_set_state split: option.split
      intro: forward_trans [OF forward_set_phase forward_set_state])

lemma forward_drain:
  assumes "sc_phase (sw_scope w s) = Running"
  shows "forward w (snd (drain s out w))"
proof -
  let ?w1 = "if sc_deadline (sw_scope w s) = None then set_deadline s w else w"
  have "forward w ?w1" by (simp add: forward_set_deadline)
  also have "forward ?w1 (upd_scope s (sc_phase_update (\<lambda>_. Draining)) ?w1)"
    using assms by (intro forward_set_phase) (simp add: set_deadline_def)
  also have "forward (upd_scope s (sc_phase_update (\<lambda>_. Draining)) ?w1)
      (cancel_children s (upd_scope s (sc_phase_update (\<lambda>_. Draining)) ?w1))"
    by (rule forward_same) simp
  finally show ?thesis unfolding drain_def Let_def by (rule forward_trans [OF _ forward_wait_all])
qed

lemma scoped_poll_forward:
  assumes "body_ok body" "world_ok w"
  shows "forward w (snd (scoped_poll body s w))"
  using scoped_poll_ok [OF assms] assms(2) by (blast intro: forward_grows)

lemma run_in_forward:
  assumes b: "body_ok body" and ok: "world_ok w"
  shows "forward w (snd (run_in_poll body s w))"
proof (cases "sw_fut w s")
  case (Some f)
  have g: "forward v (snd (grace_poll body s d v))"
    if v: "world_ok v" "sw_fut v s = Some f" "running (rf_state f)" for d v
  proof -
    note sp = scoped_poll_ok [OF b v(1), THEN conjunct1] and gr = scoped_poll_ok [OF b v(1), THEN conjunct2]
    have ph: "sc_phase (sw_scope (snd (scoped_poll body s v)) s) = Running"
      by (rule running_phase [OF sp grows_fut [OF gr v(1,2)] v(3)])
    note fw = forward_trans [OF scoped_poll_forward [OF b v(1)]]
    show ?thesis
      using fw [OF forward_drain [OF ph]] fw [OF forward_set_state]
      by (simp add: grace_poll_def split_beta Let_def split: poll.split)
  qed
  have bp: "forward w (snd (body_poll body s w))" if r: "running (rf_state f)"
  proof (cases "token_cancelled w (sc_token (sw_scope w s))")
    case True
    have "sw_fut (set_deadline s w) s = Some f" using Some by (simp add: set_deadline_def)
    from forward_trans [OF forward_set_deadline g [OF set_deadline_ok [OF ok] this r]] True
    show ?thesis by (simp add: body_poll_def)
  next
    case False
    note sp = scoped_poll_ok [OF b ok, THEN conjunct1] and gr = scoped_poll_ok [OF b ok, THEN conjunct2]
    have ph: "sc_phase (sw_scope (snd (scoped_poll body s w)) s) = Running"
      by (rule running_phase [OF sp grows_fut [OF gr ok Some] r])
    note fw = forward_trans [OF scoped_poll_forward [OF b ok]]
    show ?thesis
      using False fw [OF forward_drain [OF ph]] fw [OF forward_set_state]
      by (simp add: body_poll_def split_beta Let_def split: poll.split)
  qed
  show ?thesis
    using bp g [OF ok Some] forward_wait_all [of w s]
    by (simp add: run_in_poll_def Some running_def split: run_state.split)
qed (simp add: run_in_poll_def)

lemma fut_poll_forward:
  assumes "body_ok body" and "world_ok w"
  shows "forward w (fut_poll body n w)"
proof -
  note r = run_in_forward [OF assms]
  have "forward w (finish n (upd_task n (ts_result_update g) (snd (run_in_poll body n w))))" for g
    using r forward_same [OF same_world_result] forward_finish by (blast intro: forward_trans)
  then show ?thesis using r by (auto simp: fut_poll_def split_beta split: poll.split option.split)
qed

lemma fut_drop_forward: "forward w (fut_drop n w)"
proof -
  have a: "forward w (abort_on_drop n (set_state n Dropped w))"
    unfolding abort_on_drop_def
    by (rule forward_trans [OF forward_trans [OF forward_set_state forward_set_phase]
          forward_same [OF same_world_abort_all]]) simp
  then show ?thesis
    using forward_set_state [of w n Dropped] forward_trans [OF a forward_finish]
    by (auto simp: fut_drop_def Let_def split: option.split run_state.split)
qed

lemma exec_forward: "world_ok w \<Longrightarrow> forward w (scope_exec op w)"
proof (cases op)
  case (Request tok g)
  show "world_ok w \<Longrightarrow> ?thesis"
    using world_okD(1) [of w] unfolding Request
    by (intro forwardI) (auto simp: root_new_def Let_def is_done_def dest: less_not_refl2)
next
  case (Act a)
  show "world_ok w \<Longrightarrow> ?thesis" using act_ok [of w a] by (simp add: Act forward_grows)
next
  case (FreeScope n)
  show ?thesis unfolding FreeScope scope_exec.simps by (auto intro: forwardI)
qed (simp_all add: fut_poll_forward [OF run_body_ok] fut_drop_forward)

lemma run_forward: "world_ok w \<Longrightarrow> forward w (scope_run ops w)"
proof (induction ops arbitrary: w)
  case (Cons op ops)
  then show ?case
    using exec_forward [of w op] scope_exec_ok [of w op] by (auto simp: scope_run_def intro: forward_trans)
qed (simp add: scope_run_def)

section \<open>Which futures a poll or a drop touches\<close>

definition only :: "nat \<Rightarrow> ('o, 'v) scope_world \<Rightarrow> ('o, 'v) scope_world \<Rightarrow> bool" where
  "only m w w' \<longleftrightarrow>
    sw_fresh w \<le> sw_fresh w' \<and>
    (\<forall>n < sw_fresh w. n \<noteq> m \<longrightarrow> sw_fut w' n = sw_fut w n \<and> is_done w' n = is_done w n)"

lemma onlyD:
  assumes "only m w w'"
  shows "sw_fresh w \<le> sw_fresh w'"
    and "n < sw_fresh w \<Longrightarrow> n \<noteq> m \<Longrightarrow> sw_fut w' n = sw_fut w n"
    and "n < sw_fresh w \<Longrightarrow> n \<noteq> m \<Longrightarrow> is_done w' n = is_done w n"
  using assms unfolding only_def by blast+

lemma only_refl [simp]: "only m w w"
  by (simp add: only_def)

lemma only_trans: "only m a b \<Longrightarrow> only m b c \<Longrightarrow> only m a c"
  unfolding only_def by (auto dest: less_le_trans)

lemma only_grows: "grows w w' \<Longrightarrow> only m w w'"
  by (simp add: grows_def only_def)

lemma only_same: "same_world w w' \<Longrightarrow> only m w w'"
  by (rule only_grows [OF grows_same])

lemma only_simps [simp]:
  "only m w (set_state m st w)" "only m w (finish m w)" "only m w (upd_scope s f w)"
  "only m w (set_deadline s w)"
  by (simp_all add: only_def set_deadline_def)

lemma only_wait_all: "only m w (snd (wait_all m out w))"
  by (auto simp: wait_all_def split: option.split intro: only_trans [OF only_simps(3) only_simps(1)])

lemma only_drain: "only m w (snd (drain m out w))"
proof -
  let ?w1 = "if sc_deadline (sw_scope w m) = None then set_deadline m w else w"
  have "only m w ?w1" by simp
  then have "only m w (cancel_children m (upd_scope m (sc_phase_update (\<lambda>_. Draining)) ?w1))"
    using only_simps(3) only_same [OF same_world_cancel_children] by (blast intro: only_trans)
  then show ?thesis unfolding drain_def Let_def by (rule only_trans [OF _ only_wait_all])
qed

lemma only_grace_poll:
  assumes "body_ok body" and "world_ok w"
  shows "only m w (snd (grace_poll body m d w))"
proof -
  have "only m w (snd (scoped_poll body m w))" using scoped_poll_ok [OF assms] by (blast intro: only_grows)
  from only_trans [OF this only_drain] only_trans [OF this only_simps(1)] show ?thesis
    by (simp add: grace_poll_def split_beta Let_def split: poll.split)
qed

lemma only_run_in:
  assumes b: "body_ok body" and ok: "world_ok w"
  shows "only m w (snd (run_in_poll body m w))"
proof -
  have sp: "only m w (snd (scoped_poll body m w))" using scoped_poll_ok [OF b ok] by (blast intro: only_grows)
  have "only m w (snd (body_poll body m w))"
    using only_trans [OF sp only_drain] only_trans [OF sp only_simps(1)]
      only_trans [OF only_simps(4) only_grace_poll [OF b set_deadline_ok [OF ok]]]
    by (simp add: body_poll_def split_beta Let_def split: poll.split)
  then show ?thesis
    using only_grace_poll [OF b ok] only_wait_all [of m w]
    by (simp add: run_in_poll_def split: option.split run_state.split)
qed

lemma only_fut_poll:
  assumes b: "body_ok body" and ok: "world_ok w"
  shows "only m w (fut_poll body m w)"
proof -
  note r = only_run_in [OF b ok]
  have "only m w (finish m (upd_task m (ts_result_update g) (snd (run_in_poll body m w))))" for g
    using only_trans [OF only_trans [OF r only_same [OF same_world_result]] only_simps(2)] .
  then show ?thesis using r by (auto simp: fut_poll_def split_beta split: poll.split option.split)
qed

lemma only_fut_drop: "only m w (fut_drop m w)"
proof -
  have a: "only m w (abort_on_drop m (set_state m Dropped w))"
    unfolding abort_on_drop_def
    using only_trans [OF only_trans [OF only_simps(1) only_simps(3)] only_same [OF same_world_abort_all]] .
  then show ?thesis
    using only_simps(1) only_trans [OF a only_simps(2)]
    by (auto simp: fut_drop_def Let_def split: option.split run_state.split)
qed

section \<open>A drained scope\<close>

definition under :: "('o, 'v) scope_world \<Rightarrow> (nat \<times> nat) set" where
  "under w = {(p, n). sw_fut w n \<noteq> None \<and> sc_parent (sw_scope w n) = Some p}"

lemma run_init_ok: "world_ok (scope_run ops (world_init h))"
  by (rule scope_run_ok [OF world_ok_init])

text \<open>Under a future that ended, a task is done, or hangs below a future that was dropped.\<close>

lemma tree_done_or_dropped:
  assumes ok: "world_ok w" and n: "(p, n) \<in> (under w)\<^sup>+"
    and p: "sw_fut w p = Some f" "rf_state f = Ended out"
  shows "is_done w n \<or>
    (\<exists>d g. (p, d) \<in> (under w)\<^sup>+ \<and> (d, n) \<in> (under w)\<^sup>+ \<and> sw_fut w d = Some g \<and> rf_state g = Dropped)"
  using n p
proof (induction arbitrary: f out rule: converse_trancl_induct)
  case (base y)
  then show ?case using world_okD(8) [OF ok base(2,3), of n] by (simp add: under_def)
next
  case (step y z)
  obtain g where g: "sw_fut w z = Some g" using step.hyps(1) by (auto simp: under_def)
  have par: "sc_parent (sw_scope w z) = Some y" using step.hyps(1) by (simp add: under_def)
  have "is_done w z" using world_okD(8) [OF ok step.prems(1,2), of z] g par by simp
  then have "over (rf_state g)" using world_okD(3,4) [OF ok g] par by simp
  then consider "rf_state g = Dropped" | out' where "rf_state g = Ended out'" by (cases "rf_state g") auto
  then show ?case
  proof cases
    case 1
    then show ?thesis using g step.hyps by blast
  next
    case 2
    from step.IH [OF g this] step.hyps(1) show ?thesis by (meson trancl_into_trancl2)
  qed
qed

lemma tree_done:
  assumes ok: "world_ok w" and n: "(p, n) \<in> (under w)\<^sup>+"
    and p: "sw_fut w p = Some f" "rf_state f = Ended out"
    and no: "\<And>m g. (p, m) \<in> (under w)\<^sup>+ \<Longrightarrow> sw_fut w m = Some g \<Longrightarrow> rf_state g \<noteq> Dropped"
  shows "is_done w n"
  using tree_done_or_dropped [OF ok n p] no by blast

text \<open>C5: Structured concurrency.  After any history of the VM's thread, a scope that waited for its tasks
  (its future ended) has no unfinished task anywhere in its tree, whatever its tasks spawned and whenever, as
  long as no future of the tree was dropped from outside: no task outlives the request or task that spawned it.\<close>

theorem drained_tree_is_done:
  assumes "sw_fut (scope_run ops (world_init h)) p = Some f" and "rf_state f = Ended out"
    and "(p, n) \<in> (under (scope_run ops (world_init h)))\<^sup>+"
    and "\<And>m g. (p, m) \<in> (under (scope_run ops (world_init h)))\<^sup>+ \<Longrightarrow>
      sw_fut (scope_run ops (world_init h)) m = Some g \<Longrightarrow> rf_state g \<noteq> Dropped"
  shows "is_done (scope_run ops (world_init h)) n"
  by (rule tree_done [OF run_init_ok assms(3,1,2,4)])

text \<open>The phase of a scope only moves forward (running, draining, closed), through every operation on
  the VM's thread.\<close>

theorem phases_move_forward:
  assumes "sw_fut (scope_run ops (world_init h)) n \<noteq> None"
  shows "sc_phase (sw_scope (scope_run ops (world_init h)) n) \<le>
    sc_phase (sw_scope (scope_run ops2 (scope_run ops (world_init h))) n)"
  using assms forwardD(5) [OF run_forward [OF run_init_ok]] by blast

section \<open>Bodies and deadlines\<close>

text \<open>The body of \<open>n\<close> is out of time: its scope's deadline, or the one it would take now, has passed.\<close>

definition due :: "('o, 'v) scope_world \<Rightarrow> nat \<Rightarrow> bool" where
  "due w n \<longleftrightarrow>
    (case sw_fut w n of
       None \<Rightarrow> False
     | Some f \<Rightarrow>
         (case rf_state f of
            InGrace d \<Rightarrow> d \<le> sw_now w
          | Unstarted \<Rightarrow> token_cancelled w (sc_token (sw_scope w n)) \<and> own_deadline w n \<le> sw_now w
          | InBody \<Rightarrow> token_cancelled w (sc_token (sw_scope w n)) \<and> own_deadline w n \<le> sw_now w
          | _ \<Rightarrow> False))"

lemma wait_all_over:
  assumes "sw_fut w s \<noteq> None"
  shows "\<exists>f. sw_fut (snd (wait_all s out w)) s = Some f \<and> \<not> running (rf_state f)"
  using assms by (auto simp: wait_all_def running_def split: option.split)

lemma drain_over:
  assumes "sw_fut w s \<noteq> None"
  shows "\<exists>f. sw_fut (snd (drain s out w)) s = Some f \<and> \<not> running (rf_state f)"
  unfolding drain_def Let_def using assms
  by (intro wait_all_over) (simp add: cancel_children_fut set_deadline_def)

lemma grace_poll_over:
  assumes b: "body_ok body" and ok: "world_ok w" and f: "sw_fut w s = Some f" and d: "d \<le> sw_now w"
  shows "\<exists>f. sw_fut (snd (grace_poll body s d w)) s = Some f \<and> \<not> running (rf_state f)"
proof -
  note g = scoped_poll_ok [OF b ok, THEN conjunct2]
  have f1: "sw_fut (snd (scoped_poll body s w)) s \<noteq> None" using grows_fut [OF g ok f] by simp
  have "d \<le> sw_now (snd (scoped_poll body s w))" using growsD(2) [OF g] d by (rule order_trans [rotated])
  then show ?thesis using drain_over [OF f1] by (simp add: grace_poll_def split_beta Let_def split: poll.split)
qed

lemma finish_task_fut: "sw_fut (finish n (upd_task n g w)) = sw_fut w"
  by simp

text \<open>C27: A body gets one poll after its deadline and no more: whatever it does in that poll, and even if it
  never looks at its token, its future then stops running it (and waits for its tasks, or has ended).\<close>

theorem overdue_body_is_dropped:
  assumes "due (scope_run ops (world_init h)) n" and "\<not> sw_aborted (scope_run ops (world_init h)) n"
    and "sw_fut (scope_exec (PollFut n acts out) (scope_run ops (world_init h))) n = Some f"
  shows "\<not> running (rf_state f)"
proof -
  let ?w = "scope_run ops (world_init h)"
  note b = run_body_ok [of acts out] and ok = run_init_ok [of ops h]
  obtain g where g: "sw_fut ?w n = Some g" using assms(1) by (cases "sw_fut ?w n") (simp_all add: due_def)
  have sd: "sw_fut (set_deadline n ?w) n = Some g" "sw_now (set_deadline n ?w) = sw_now ?w"
    using g by (simp_all add: set_deadline_def)
  have "\<exists>f. sw_fut (snd (run_in_poll (run_body acts out) n ?w)) n = Some f \<and> \<not> running (rf_state f)"
    using assms(1) grace_poll_over [OF b ok g]
      grace_poll_over [OF b set_deadline_ok [OF ok] sd(1), of "own_deadline ?w n"]
    by (auto simp: due_def g run_in_poll_def body_poll_def sd(2) split: run_state.splits)
  then show ?thesis
    using assms(2,3) by (auto simp: fut_poll_def split_beta finish_task_fut split: poll.splits option.splits if_splits)
qed

text \<open>A request of grace 5 that spawns a task in its first poll.\<close>

definition demo_heap :: token_heap where
  "demo_heap = snd (token_new None heap_init)"

definition demo_conv :: "nat option \<Rightarrow> bool \<Rightarrow> nat option" where
  "demo_conv out cancelled = out"

definition demo_start :: "(nat, nat) sop list" where
  "demo_start = [Request 0 5, PollFut 0 [SpawnHere 5 demo_conv] (Some 1)]"

definition demo_drained :: "(nat, nat) sop list" where
  "demo_drained = demo_start @ [PollFut 1 [] (Some 2), PollFut 0 [] None]"

lemma demo_fut:
  "map_option rf_state (sw_fut (scope_run demo_drained (world_init demo_heap)) 0) = Some (Ended (Some 1))"
  "map_option rf_state (sw_fut (scope_run demo_drained (world_init demo_heap)) 1) = Some (Ended (Some 2))"
  "sw_fresh (scope_run demo_drained (world_init demo_heap)) = 2"
  "(0, 1) \<in> under (scope_run demo_drained (world_init demo_heap))"
  unfolding under_def mem_Collect_eq case_prod_conv by code_simp+

lemma drained_tree_is_done_witness: "is_done (scope_run demo_drained (world_init demo_heap)) 1"
proof -
  let ?w = "scope_run demo_drained (world_init demo_heap)"
  obtain f where f: "sw_fut ?w 0 = Some f" "rf_state f = Ended (Some 1)" using demo_fut(1) by auto
  have "rf_state g \<noteq> Dropped" if "sw_fut ?w m = Some g" for m g
  proof -
    have "m = 0 \<or> m = 1" using world_okD(1) [OF run_init_ok that] demo_fut(3) by auto
    then show ?thesis using demo_fut(1,2) that by auto
  qed
  then show ?thesis
    using drained_tree_is_done [of demo_drained demo_heap 0, OF f] demo_fut(4) by blast
qed

lemma phases_move_forward_witness:
  "sc_phase (sw_scope (scope_run demo_start (world_init demo_heap)) 0) = Draining \<and>
   Draining \<le> sc_phase (sw_scope (scope_run [PollFut 1 [] (Some 2), PollFut 0 [] None]
     (scope_run demo_start (world_init demo_heap))) 0)"
proof -
  have ph: "sc_phase (sw_scope (scope_run demo_start (world_init demo_heap)) 0) = Draining"
    and "sw_fut (scope_run demo_start (world_init demo_heap)) 0 \<noteq> None" by code_simp+
  from phases_move_forward [OF this(2)] ph show ?thesis by auto
qed

definition demo_late :: "(nat, nat) sop list" where
  "demo_late = [Request 0 5, PollFut 0 [] None, Act (CancelScope 0), PollFut 0 [] None, Act (Elapse 6)]"

lemma overdue_body_is_dropped_witness:
  "\<exists>f. sw_fut (scope_exec (PollFut 0 [] None) (scope_run demo_late (world_init demo_heap))) 0 = Some f \<and>
    \<not> running (rf_state f)"
proof -
  have d: "due (scope_run demo_late (world_init demo_heap)) 0"
    "\<not> sw_aborted (scope_run demo_late (world_init demo_heap)) 0"
    "sw_fut (scope_exec (PollFut 0 [] None) (scope_run demo_late (world_init demo_heap))) 0 \<noteq> None"
    by code_simp+
  from d(3) obtain f where f:
    "sw_fut (scope_exec (PollFut 0 [] None) (scope_run demo_late (world_init demo_heap))) 0 = Some f" by blast
  with overdue_body_is_dropped [OF d(1,2) f] show ?thesis by blast
qed

section \<open>Spawning into a scope that is ending\<close>

lemma cancel_all_flags: "tk_flag (th_token h x) \<Longrightarrow> tk_flag (th_token (cancel_all ts h) x)"
proof (induction ts h rule: cancel_all.induct)
  case (2 t ts h)
  then show ?case by (cases "th_fresh h \<le> t \<or> tk_flag (th_token h t)") (simp_all add: cancel_all.simps(2))
qed simp

lemma cancel_sets_flag: "t < th_fresh h \<Longrightarrow> is_cancelled (cancel t h) t"
  using cancel_all_flags [of "set_flag t h" t "live_children h t"] cancel_all_flags [of h t "[]"]
  by (simp add: is_cancelled_def cancel_def cancel_all.simps(2))

lemma cancel_all_fresh: "th_fresh (cancel_all ts h) = th_fresh h"
proof (induction ts h rule: cancel_all.induct)
  case (2 t ts h)
  then show ?case by (cases "th_fresh h \<le> t \<or> tk_flag (th_token h t)") (simp_all add: cancel_all.simps(2))
qed simp

lemma child_token_fresh:
  "fst (child_token t h) = th_fresh h" "th_fresh (snd (child_token t h)) = Suc (th_fresh h)"
  by (simp_all add: child_token_def split_beta Let_def cancel_def cancel_all_fresh)

text \<open>A task spawned into a scope whose body is over is cancelled at once; if the scope is closed, or out of
  time, nothing is started and no task is listed: the task is already finished, without a result.\<close>

theorem late_spawn:
  assumes "sw_fut (scope_run ops (world_init h)) s \<noteq> None"
    and "sc_phase (sw_scope (scope_run ops (world_init h)) s) \<noteq> Running"
    and "spawn g conv s (scope_run ops (world_init h)) = (n, w')"
  shows "token_cancelled w' (ts_token (sw_task w' n)) \<and> ts_result (sw_task w' n) = None \<and>
    (if out_of_time (scope_run ops (world_init h)) s
     then is_done w' n \<and> sw_fut w' = sw_fut (scope_run ops (world_init h)) \<and>
       sw_scope w' = sw_scope (scope_run ops (world_init h))
     else \<not> is_done w' n \<and> n \<in> set (sc_children (sw_scope w' s)))"
proof -
  let ?w = "scope_run ops (world_init h)" and ?n = "sw_fresh (scope_run ops (world_init h))"
  have ne: "s \<noteq> ?n" using assms(1) world_okD(1) [OF run_init_ok] by blast
  have w': "w' = snd (spawn g conv s ?w)" and n: "n = ?n"
    using assms(3) by (auto simp: spawn_def Let_def split_beta split: if_splits)
  define tok hp where "tok = fst (child_token (sc_token (sw_scope ?w s)) (sw_heap ?w))"
    and "hp = snd (child_token (sc_token (sw_scope ?w s)) (sw_heap ?w))"
  have c: "is_cancelled (cancel tok hp) tok"
    by (rule cancel_sets_flag) (simp add: tok_def hp_def child_token_fresh)
  show ?thesis
  proof (cases "out_of_time ?w s")
    case True
    have "sw_heap w' = cancel tok hp" "sw_task w' n = task_new tok\<lparr>ts_done := True, ts_abort := False\<rparr>"
      using True unfolding w' n by (simp_all add: spawn_def split_beta Let_def tok_def hp_def finish_def is_done_def task_new_def)
    then show ?thesis
      using True c spawn_out(1,2,6) [OF True, of g conv] by (simp add: w' n token_cancelled_def task_new_def)
  next
    case False
    then have "sc_phase (sw_scope ?w s) = Draining"
      using assms(2) by (cases "sc_phase (sw_scope ?w s)") (simp_all add: out_of_time_def)
    then have "sw_heap w' = cancel tok hp" "sw_task w' n = task_new tok\<lparr>ts_abort := True\<rparr>"
      using False ne unfolding w' n
      by (simp_all add: spawn_def split_beta Let_def tok_def hp_def add_child_def task_new_def)
    then show ?thesis
      using False c spawn_in(2,6) [OF False ne, of g conv] by (simp add: w' n token_cancelled_def task_new_def)
  qed
qed

lemma late_spawn_witness:
  "is_done (snd (spawn 5 demo_conv 0 (scope_run demo_drained (world_init demo_heap)))) 2"
proof -
  let ?w = "scope_run demo_drained (world_init demo_heap)"
  have a: "sw_fut ?w 0 \<noteq> None" "sc_phase (sw_scope ?w 0) \<noteq> Running" "out_of_time ?w 0"
    "fst (spawn 5 demo_conv 0 ?w) = 2" by code_simp+
  obtain w' where w': "spawn 5 demo_conv 0 ?w = (2, w')" using a(4) by (metis prod.collapse)
  from late_spawn [OF a(1,2) w'] a(3) w' show ?thesis by simp
qed

section \<open>What is not promised\<close>

text \<open>A future that was dropped before its first poll stays as it is, and its task is never finished.\<close>

definition lost :: "('o, 'v) scope_world \<Rightarrow> nat \<Rightarrow> bool" where
  "lost w n \<longleftrightarrow> (\<exists>f. sw_fut w n = Some f \<and> rf_state f = Dropped) \<and> \<not> is_done w n"

lemma lost_only:
  assumes "only m w w'" and "world_ok w" and "lost w n" and "n \<noteq> m"
  shows "lost w' n"
  using assms world_okD(1) [OF assms(2)] onlyD(2,3) [OF assms(1), of n] unfolding lost_def by metis

lemma lost_exec:
  assumes ok: "world_ok w" and l: "lost w n"
  shows "lost (scope_exec op w) n"
proof (cases op)
  case (Request tok g)
  then show ?thesis
    using l world_okD(1) [OF ok, of n] by (auto simp: lost_def root_new_def Let_def is_done_def)
next
  case (Act a)
  then show ?thesis
    using l act_ok [OF ok, of a] growsD(3,6) [of w "exec_act a w" n] world_okD(1) [OF ok, of n]
    by (auto simp: lost_def)
next
  case (PollFut m acts out)
  have "fut_poll (run_body acts out) n w = w" "fut_drop n w = w"
    using l by (auto simp: lost_def fut_poll_def fut_drop_def run_in_poll_def)
  then show ?thesis
    using l lost_only [OF only_fut_poll [OF run_body_ok ok] ok l] lost_only [OF only_fut_drop ok l] PollFut
    by (cases "n = m") simp_all
next
  case (DropFut m)
  have "fut_drop n w = w" using l by (auto simp: lost_def fut_drop_def)
  then show ?thesis using l lost_only [OF only_fut_drop ok l] DropFut by (cases "n = m") simp_all
next
  case (FreeScope m)
  then show ?thesis using l by (simp add: lost_def)
qed

lemma lost_run: "world_ok w \<Longrightarrow> lost w n \<Longrightarrow> lost (scope_run ops w) n"
proof (induction ops arbitrary: w)
  case (Cons op ops)
  then show ?case using lost_exec [of w n op] scope_exec_ok [of w op] by (simp add: scope_run_def)
qed (simp add: scope_run_def)

text \<open>C39: A task whose future is dropped before its first poll (its scope was dropped right after the spawn, and
  the runtime drops an aborted future without polling it) is never marked finished: whatever happens later,
  whoever awaits its handle waits for ever.\<close>

theorem unpolled_task_never_finishes:
  assumes "sw_fut (scope_run ops (world_init h)) n = Some f" and "rf_task f" and "rf_state f = Unstarted"
    and "sk_task k = n"
  shows "fst (scoped_task_poll k (scope_run ops2 (fut_drop n (scope_run ops (world_init h))))) = Pending"
proof -
  let ?w = "scope_run ops (world_init h)"
  have "\<not> is_done ?w n" using world_okD(4) [OF run_init_ok assms(1,2)] assms(3) by auto
  then have "lost (fut_drop n ?w) n"
    using assms(1-3) by (simp add: lost_def fut_drop_def)
  then have "lost (scope_run ops2 (fut_drop n ?w)) n"
    by (rule lost_run [OF fut_drop_ok [OF run_init_ok]])
  then show ?thesis by (simp add: scoped_task_poll_def assms(4) lost_def)
qed

definition demo_aborted :: "(nat, nat) sop list" where
  "demo_aborted = [Request 0 5, PollFut 0 [SpawnHere 5 demo_conv] None, DropFut 0]"

lemma unpolled_task_never_finishes_witness:
  "sw_aborted (scope_run demo_aborted (world_init demo_heap)) 1 \<and>
   fst (scoped_task_poll \<lparr>sk_task = 1, sk_wait = False, sk_detached = False\<rparr>
     (scope_run [Act (Elapse 100)] (fut_drop 1 (scope_run demo_aborted (world_init demo_heap))))) = Pending"
proof -
  let ?w = "scope_run demo_aborted (world_init demo_heap)"
  have a: "sw_aborted ?w 1" "map_option rf_task (sw_fut ?w 1) = Some True"
    "map_option rf_state (sw_fut ?w 1) = Some Unstarted" by code_simp+
  from a(2,3) obtain f where f: "sw_fut ?w 1 = Some f" "rf_task f" "rf_state f = Unstarted" by auto
  show ?thesis
    using unpolled_task_never_finishes [OF f, of "\<lparr>sk_task = 1, sk_wait = False, sk_detached = False\<rparr>"
        "[Act (Elapse 100)]"] a(1) by simp
qed

end
