(* ===== verification/Isle_Scope_Time.thy ===== *)
theory Isle_Scope_Time
  imports Isle_Scope_Sys
begin

text \<open>
  The deadlines of a tree of scopes.  As long as every scope of a VM has the same grace (the VM's
  configuration did not change), no scope ends later than any of its ancestors that has a
  deadline; with two graces it can.
\<close>

section \<open>The walk over the ancestors\<close>

lemma earlier_le:
  "earlier e x = Some m \<Longrightarrow> (\<forall>d. e = Some d \<longrightarrow> m \<le> d) \<and> (\<forall>d. x = Some d \<longrightarrow> m \<le> d)"
  by (cases e; cases x) auto

lemma earlier_mem: "earlier e x = Some m \<Longrightarrow> e = Some m \<or> x = Some m"
  by (cases e; cases x) (auto simp: min_def split: if_splits)

lemma earlier_None: "earlier e x = None \<longleftrightarrow> e = None \<and> x = None"
  by (cases e; cases x) auto

lemma foldl_earlier_spec:
  "foldl (\<lambda>e p. earlier e (f p)) e0 xs = Some m \<Longrightarrow>
    (e0 = Some m \<or> (\<exists>a \<in> set xs. f a = Some m)) \<and> (\<forall>d. e0 = Some d \<longrightarrow> m \<le> d) \<and>
    (\<forall>a \<in> set xs. \<forall>d. f a = Some d \<longrightarrow> m \<le> d)"
proof (induction xs arbitrary: e0)
  case (Cons x xs)
  have IH: "(earlier e0 (f x) = Some m \<or> (\<exists>a \<in> set xs. f a = Some m)) \<and>
      (\<forall>d. earlier e0 (f x) = Some d \<longrightarrow> m \<le> d) \<and> (\<forall>a \<in> set xs. \<forall>d. f a = Some d \<longrightarrow> m \<le> d)"
    by (rule Cons.IH) (use Cons.prems in simp)
  have up: "m \<le> d" if h: "e0 = Some d \<or> f x = Some d" for d
  proof -
    obtain e where e: "earlier e0 (f x) = Some e"
      using h earlier_None [of e0 "f x"] by (cases "earlier e0 (f x)") auto
    then show ?thesis using IH earlier_le [OF e] h by auto
  qed
  show ?case using IH earlier_mem [of e0 "f x" m] up by auto
qed simp

lemmas foldl_earlier = foldl_earlier_spec [THEN conjunct1]
  foldl_earlier_spec [THEN conjunct2, THEN conjunct2, rule_format]

lemma foldl_earlier_None:
  "foldl (\<lambda>e p. earlier e (f p)) e0 xs = None \<longleftrightarrow> e0 = None \<and> (\<forall>a \<in> set xs. f a = None)"
  by (induction xs arbitrary: e0) (auto simp: earlier_None)

lemma own_deadline_le:
  shows "own_deadline w s \<le> sw_now w + sc_grace (sw_scope w s)"
    and "a \<in> set (ancestors w s) \<Longrightarrow> sc_deadline (sw_scope w a) = Some e \<Longrightarrow> own_deadline w s \<le> e"
proof -
  show "own_deadline w s \<le> sw_now w + sc_grace (sw_scope w s)"
    by (simp add: own_deadline_def Let_def split: option.split)
  show "own_deadline w s \<le> e" if a: "a \<in> set (ancestors w s)" "sc_deadline (sw_scope w a) = Some e"
  proof (cases "ancestors_deadline w s")
    case None
    then show ?thesis using a unfolding ancestors_deadline_def foldl_earlier_None by auto
  next
    case (Some m)
    then have "m \<le> e" using foldl_earlier(2) a unfolding ancestors_deadline_def by fastforce
    then show ?thesis by (simp add: own_deadline_def Let_def Some min.coboundedI1)
  qed
qed

lemma own_deadline_ge:
  assumes "d \<le> sw_now w + sc_grace (sw_scope w s)"
    and "\<And>a e. a \<in> set (ancestors w s) \<Longrightarrow> sc_deadline (sw_scope w a) = Some e \<Longrightarrow> d \<le> e"
  shows "d \<le> own_deadline w s"
proof (cases "ancestors_deadline w s")
  case None
  then show ?thesis using assms(1) by (simp add: own_deadline_def)
next
  case (Some m)
  then obtain a where "a \<in> set (ancestors w s)" "sc_deadline (sw_scope w a) = Some m"
    using foldl_earlier(1) unfolding ancestors_deadline_def by fastforce
  then show ?thesis using assms by (simp add: own_deadline_def Some)
qed

lemma ancestors_step:
  "a \<in> set (ancestors w n) \<longleftrightarrow>
    (\<exists>p. sc_parent (sw_scope w n) = Some p \<and> p < n \<and> sw_alive w p \<and> (a = p \<or> a \<in> set (ancestors w p)))"
  by (subst ancestors.simps) (cases "sc_parent (sw_scope w n)"; auto)

lemma ancestors_lt: "a \<in> set (ancestors w n) \<Longrightarrow> a < n"
proof (induction n rule: less_induct)
  case (less n)
  then show ?case using ancestors_step [of a w n] less.IH by (metis less_trans)
qed

lemma ancestors_trans: "s \<in> set (ancestors w n) \<Longrightarrow> a \<in> set (ancestors w s) \<Longrightarrow> a \<in> set (ancestors w n)"
proof (induction n rule: less_induct)
  case (less n)
  then show ?case using ancestors_step [of _ w n] by blast
qed

text \<open>Fewer scopes alive, fewer ancestors; below \<open>k\<close> only what is below \<open>k\<close> matters.\<close>

lemma ancestors_mono:
  assumes "\<And>x. x < k \<Longrightarrow> sc_parent (sw_scope w' x) = sc_parent (sw_scope w x)"
    and "\<And>x. x < k \<Longrightarrow> sw_alive w' x \<Longrightarrow> sw_alive w x"
    and "n < k" and "a \<in> set (ancestors w' n)"
  shows "a \<in> set (ancestors w n)"
  using assms
proof (induction n rule: less_induct)
  case (less n)
  from less.prems(4) obtain p where p: "sc_parent (sw_scope w' n) = Some p" "p < n" "sw_alive w' p"
    "a = p \<or> a \<in> set (ancestors w' p)" using ancestors_step by blast
  then have "a = p \<or> a \<in> set (ancestors w p)" using less.IH [of p] less.prems by auto
  then show ?case using p less.prems by (subst ancestors_step) auto
qed

section \<open>The invariant\<close>

definition dl_ok :: "nat \<Rightarrow> ('o, 'v) scope_world \<Rightarrow> bool" where
  "dl_ok G w \<longleftrightarrow>
    (\<forall>n. sw_fut w n \<noteq> None \<longrightarrow>
      sc_grace (sw_scope w n) = G \<and> (\<forall>d. sc_deadline (sw_scope w n) = Some d \<longrightarrow> d \<le> sw_now w + G)) \<and>
    (\<forall>n a d e. sw_fut w n \<noteq> None \<and> a \<in> set (ancestors w n) \<and> sc_deadline (sw_scope w n) = Some d \<and>
      sc_deadline (sw_scope w a) = Some e \<longrightarrow> d \<le> e)"

lemma dl_okD:
  assumes "dl_ok G w" and "sw_fut w n \<noteq> None"
  shows "sc_grace (sw_scope w n) = G" and "sc_deadline (sw_scope w n) = Some d \<Longrightarrow> d \<le> sw_now w + G"
    and "a \<in> set (ancestors w n) \<Longrightarrow> sc_deadline (sw_scope w n) = Some d \<Longrightarrow>
      sc_deadline (sw_scope w a) = Some e \<Longrightarrow> d \<le> e"
  using assms unfolding dl_ok_def by blast+

lemma dl_okI:
  assumes "\<And>n. sw_fut w n \<noteq> None \<Longrightarrow> sc_grace (sw_scope w n) = G"
    and "\<And>n d. sw_fut w n \<noteq> None \<Longrightarrow> sc_deadline (sw_scope w n) = Some d \<Longrightarrow> d \<le> sw_now w + G"
    and "\<And>n a d e. sw_fut w n \<noteq> None \<Longrightarrow> a \<in> set (ancestors w n) \<Longrightarrow>
      sc_deadline (sw_scope w n) = Some d \<Longrightarrow> sc_deadline (sw_scope w a) = Some e \<Longrightarrow> d \<le> e"
  shows "dl_ok G w"
  using assms unfolding dl_ok_def by blast

text \<open>Steps that touch no deadline.\<close>

definition dl_keep :: "('o, 'v) scope_world \<Rightarrow> ('o, 'v) scope_world \<Rightarrow> bool" where
  "dl_keep w w' \<longleftrightarrow>
    (\<forall>n. (sw_fut w' n = None) = (sw_fut w n = None) \<and>
      sc_grace (sw_scope w' n) = sc_grace (sw_scope w n) \<and>
      sc_parent (sw_scope w' n) = sc_parent (sw_scope w n) \<and>
      sc_deadline (sw_scope w' n) = sc_deadline (sw_scope w n) \<and> (sw_alive w' n \<longrightarrow> sw_alive w n)) \<and>
    sw_now w \<le> sw_now w'"

lemma dl_keep_ok:
  assumes k: "dl_keep w w'" and ok: "dl_ok G w"
  shows "dl_ok G w'"
proof (rule dl_okI)
  note D = dl_okD [OF ok]
  show "sc_grace (sw_scope w' n) = G" if "sw_fut w' n \<noteq> None" for n
    using D(1) k that by (simp add: dl_keep_def)
  show "d \<le> sw_now w' + G" if "sw_fut w' n \<noteq> None" "sc_deadline (sw_scope w' n) = Some d" for n d
    using D(2) [of n d] k that by (simp add: dl_keep_def)
  show "d \<le> e" if "sw_fut w' n \<noteq> None" "a \<in> set (ancestors w' n)"
    "sc_deadline (sw_scope w' n) = Some d" "sc_deadline (sw_scope w' a) = Some e" for n a d e
  proof -
    have "a \<in> set (ancestors w n)"
      by (rule ancestors_mono [of "Suc n"]) (use that(2) k in \<open>simp_all add: dl_keep_def\<close>)
    then show ?thesis using D(3) [of n a d e] k that by (simp add: dl_keep_def)
  qed
qed

lemma dl_keep_trans: "dl_keep a b \<Longrightarrow> dl_keep b c \<Longrightarrow> dl_keep a c"
  unfolding dl_keep_def by (auto intro: order_trans)

lemma dl_keep_same: "same_world w w' \<Longrightarrow> dl_keep w w'"
  by (simp add: same_world_def dl_keep_def)

lemma dl_keep_simps [simp]:
  "dl_keep w w" "dl_keep w (set_state n st w)" "dl_keep w (finish n w)"
  "dl_keep w (upd_scope s (sc_phase_update f) w)"
  by (simp_all add: dl_keep_def)

lemma dl_set_deadline:
  assumes ok: "dl_ok G w" and s: "sw_fut w s \<noteq> None"
  shows "dl_ok G (set_deadline s w)"
proof (rule dl_okI)
  note D = dl_okD [OF ok]
  let ?w' = "set_deadline s w"
  have F: "sw_fut ?w' = sw_fut w" "sw_now ?w' = sw_now w" "\<And>n. sc_grace (sw_scope ?w' n) = sc_grace (sw_scope w n)"
    "\<And>n. sc_deadline (sw_scope ?w' n) = (if n = s then Some (own_deadline w s) else sc_deadline (sw_scope w n))"
    by (simp_all add: set_deadline_def)
  show "sc_grace (sw_scope ?w' n) = G" if "sw_fut ?w' n \<noteq> None" for n
    using D(1) that by (simp add: F)
  show "d \<le> sw_now ?w' + G" if "sw_fut ?w' n \<noteq> None" "sc_deadline (sw_scope ?w' n) = Some d" for n d
    using D(2) [of n d] that own_deadline_le(1) [of w s] D(1) [OF s] by (auto simp: F split: if_splits)
  show "d \<le> e" if n: "sw_fut ?w' n \<noteq> None" and a': "a \<in> set (ancestors ?w' n)"
    and d: "sc_deadline (sw_scope ?w' n) = Some d" and e: "sc_deadline (sw_scope ?w' a) = Some e" for n a d e
  proof -
    have a: "a \<in> set (ancestors w n)"
      by (rule ancestors_mono [of "Suc n", OF _ _ _ a']) (simp_all add: set_deadline_def)
    then have ne: "a \<noteq> n" using ancestors_lt by blast
    consider "n = s" | "a = s" "n \<noteq> s" | "n \<noteq> s" "a \<noteq> s" by blast
    then show ?thesis
    proof cases
      case 1
      then show ?thesis using own_deadline_le(2) [of a w s e] a d e ne by (simp add: F)
    next
      case 2
      have dn: "sc_deadline (sw_scope w n) = Some d" and n': "sw_fut w n \<noteq> None" using 2 d n by (simp_all add: F)
      have "d \<le> own_deadline w s"
      proof (rule own_deadline_ge)
        show "d \<le> sw_now w + sc_grace (sw_scope w s)" using D(2) [OF n' dn] D(1) [OF s] by simp
        show "d \<le> e'" if "b \<in> set (ancestors w s)" "sc_deadline (sw_scope w b) = Some e'" for b e'
          using D(3) [OF n' ancestors_trans [OF _ that(1)] dn that(2)] a 2 by blast
      qed
      then show ?thesis using 2 e by (simp add: F)
    next
      case 3
      then show ?thesis using D(3) [OF _ a] n d e by (simp add: F)
    qed
  qed
qed

section \<open>Every operation keeps deadlines nested\<close>

lemma dl_spawn:
  assumes ok: "world_ok w" and dl: "dl_ok G w" and s: "sw_fut w s \<noteq> None"
  shows "dl_ok G (snd (spawn G c s w))"
proof (cases "out_of_time w s")
  case True
  show ?thesis by (rule dl_keep_ok [OF _ dl]) (simp add: dl_keep_def spawn_out [OF True])
next
  case False
  let ?n = "sw_fresh w" and ?w' = "snd (spawn G c s w)"
  have lt: "m < ?n" if "sw_fut w m \<noteq> None" for m using world_okD(1) [OF ok] that by blast
  have ne: "s \<noteq> ?n" using lt [OF s] by simp
  note F = spawn_in [OF False ne, of G c] and D = dl_okD [OF dl]
  have fields: "m \<noteq> ?n \<Longrightarrow> sc_grace (sw_scope ?w' m) = sc_grace (sw_scope w m)"
    "m \<noteq> ?n \<Longrightarrow> sc_deadline (sw_scope ?w' m) = sc_deadline (sw_scope w m)"
    "m \<noteq> ?n \<Longrightarrow> sc_parent (sw_scope ?w' m) = sc_parent (sw_scope w m)"
    "sc_grace (sw_scope ?w' ?n) = G" "sc_deadline (sw_scope ?w' ?n) = None" for m
    using ne by (simp_all add: F scope_new_def)
  show ?thesis
  proof (rule dl_okI)
    show "sc_grace (sw_scope ?w' m) = G" if "sw_fut ?w' m \<noteq> None" for m
      using D(1) [of m] that fields(1) [of m] fields(4) by (cases "m = ?n") (simp_all add: F(1))
    show "d \<le> sw_now ?w' + G" if "sw_fut ?w' m \<noteq> None" "sc_deadline (sw_scope ?w' m) = Some d" for m d
      using D(2) [of m d] that fields(2) [of m] fields(5) by (cases "m = ?n") (simp_all add: F(1,4))
    show "d \<le> e" if m: "sw_fut ?w' m \<noteq> None" "a \<in> set (ancestors ?w' m)"
      and d: "sc_deadline (sw_scope ?w' m) = Some d" "sc_deadline (sw_scope ?w' a) = Some e" for m a d e
    proof -
      have "m \<noteq> ?n" using d(1) fields(5) by auto
      then have m': "sw_fut w m \<noteq> None" using m(1) by (simp add: F(1))
      have a: "a \<in> set (ancestors w m)"
        by (rule ancestors_mono [OF _ _ lt [OF m'] m(2)]) (simp_all add: fields F(5))
      then have "a \<noteq> ?n" using ancestors_lt [OF a] lt [OF m'] by simp
      with D(3) [OF m' a] d \<open>m \<noteq> ?n\<close> show ?thesis by (simp add: fields)
    qed
  qed
qed

fun uniform_act :: "nat \<Rightarrow> ('o, 'v) act \<Rightarrow> bool" where
  "uniform_act G (Spawn s g c) = (g = G)"
| "uniform_act G (SpawnHere g c) = (g = G)"
| "uniform_act G _ = True"

fun uniform :: "nat \<Rightarrow> ('o, 'v) sop \<Rightarrow> bool" where
  "uniform G (Request tok g) = (g = G)"
| "uniform G (Act a) = uniform_act G a"
| "uniform G (PollFut n acts out) = list_all (uniform_act G) acts"
| "uniform G _ = True"

lemma dl_act:
  assumes "world_ok w" and "dl_ok G w" and "uniform_act G a"
  shows "dl_ok G (exec_act a w)"
  using assms dl_spawn [OF assms(1,2)]
  by (cases a) (auto simp: take_result_def dl_keep_def intro: dl_keep_ok [OF dl_keep_same [OF same_world_cancel]]
      dl_keep_ok [OF dl_keep_same [OF same_world_result]] elim: dl_keep_ok [rotated] split: option.split)

lemma dl_acts:
  assumes "world_ok w" and "dl_ok G w" and "list_all (uniform_act G) acts"
  shows "dl_ok G (fold exec_act acts w)"
  using assms by (induction acts arbitrary: w) (simp_all add: dl_act act_ok)

lemma dl_scoped_poll:
  assumes ok: "world_ok w" and dl: "dl_ok G w" and u: "list_all (uniform_act G) acts"
  shows "dl_ok G (snd (scoped_poll (run_body acts out) s w))"
proof -
  let ?w1 = "snd (enter_scope s w)"
  have "world_ok ?w1" using ok by (simp add: world_ok_same [OF same_world_enter(1)])
  moreover have "dl_ok G ?w1" by (rule dl_keep_ok [OF dl_keep_same [OF same_world_enter(1)] dl])
  ultimately have "dl_ok G (fold exec_act acts ?w1)" using u by (rule dl_acts)
  then have "dl_ok G (leave_scope p (fold exec_act acts ?w1))" for p
    by (rule dl_keep_ok [OF dl_keep_same [OF same_world_enter(2)]])
  then show ?thesis by (simp add: scoped_poll_def split_beta Let_def run_body_def)
qed

lemma dl_wait_all: "dl_ok G w \<Longrightarrow> dl_ok G (snd (wait_all s out w))"
  by (auto simp: wait_all_def split: option.split
      intro: dl_keep_ok [OF dl_keep_simps(2)] dl_keep_ok [OF dl_keep_trans [OF dl_keep_simps(4) dl_keep_simps(2)]])

lemma dl_drain:
  assumes dl: "dl_ok G w" and s: "sw_fut w s \<noteq> None"
  shows "dl_ok G (snd (drain s out w))"
proof -
  let ?w1 = "if sc_deadline (sw_scope w s) = None then set_deadline s w else w"
  have "dl_ok G ?w1" using dl dl_set_deadline [OF dl s] by simp
  then have "dl_ok G (cancel_children s (upd_scope s (sc_phase_update (\<lambda>_. Draining)) ?w1))"
    by (rule dl_keep_ok [OF dl_keep_trans [OF dl_keep_simps(4) dl_keep_same [OF same_world_cancel_children]]])
  then show ?thesis unfolding drain_def Let_def by (rule dl_wait_all)
qed

lemma dl_grace_poll:
  assumes ok: "world_ok w" and dl: "dl_ok G w" and u: "list_all (uniform_act G) acts" and s: "sw_fut w s = Some f"
  shows "dl_ok G (snd (grace_poll (run_body acts out) s d w))"
proof -
  let ?w1 = "snd (scoped_poll (run_body acts out) s w)"
  have w1: "dl_ok G ?w1" by (rule dl_scoped_poll [OF ok dl u])
  have s1: "sw_fut ?w1 s \<noteq> None"
    using grows_fut [OF conjunct2 [OF scoped_poll_ok [OF run_body_ok ok]] ok s] by simp
  show ?thesis
    using dl_drain [OF w1 s1] dl_keep_ok [OF dl_keep_simps(2) w1]
    by (simp add: grace_poll_def split_beta Let_def split: poll.split)
qed

lemma dl_run_in:
  assumes ok: "world_ok w" and dl: "dl_ok G w" and u: "list_all (uniform_act G) acts"
  shows "dl_ok G (snd (run_in_poll (run_body acts out) s w))"
proof (cases "sw_fut w s")
  case (Some f)
  let ?w1 = "snd (scoped_poll (run_body acts out) s w)"
  have w1: "dl_ok G ?w1" by (rule dl_scoped_poll [OF ok dl u])
  have s1: "sw_fut ?w1 s \<noteq> None"
    using grows_fut [OF conjunct2 [OF scoped_poll_ok [OF run_body_ok ok]] ok Some] by simp
  have sd: "sw_fut (set_deadline s w) s = Some f" using Some by (simp add: set_deadline_def)
  have "dl_ok G (set_deadline s w)" using dl_set_deadline [OF dl] Some by simp
  note g = dl_grace_poll [OF set_deadline_ok [OF ok] this u sd] dl_grace_poll [OF ok dl u Some]
  have "dl_ok G (snd (body_poll (run_body acts out) s w))"
    using g(1) dl_drain [OF w1 s1] dl_keep_ok [OF dl_keep_simps(2) w1]
    by (simp add: body_poll_def split_beta Let_def split: poll.split)
  then show ?thesis
    using g(2) dl_wait_all [OF dl] dl by (simp add: run_in_poll_def Some split: run_state.split)
qed (simp add: run_in_poll_def dl)

lemma dl_keep_drop: "dl_keep w (fut_drop n w)"
proof -
  have a: "dl_keep w (abort_on_drop n (set_state n Dropped w))"
    unfolding abort_on_drop_def
    by (rule dl_keep_trans [OF dl_keep_trans [OF dl_keep_simps(2) dl_keep_simps(4)]
          dl_keep_same [OF same_world_abort_all]])
  then show ?thesis
    using dl_keep_trans [OF a dl_keep_simps(3)]
    by (auto simp: fut_drop_def Let_def split: option.split run_state.split)
qed

lemma dl_exec:
  assumes ok: "world_ok w" and dl: "dl_ok G w" and u: "uniform G op"
  shows "dl_ok G (scope_exec op w)"
proof (cases op)
  case (Request tok g)
  let ?n = "sw_fresh w"
  have lt: "m < ?n" if "sw_fut w m \<noteq> None" for m using world_okD(1) [OF ok] that by blast
  have F: "m \<noteq> ?n \<Longrightarrow> sw_scope (scope_exec op w) m = sw_scope w m"
    "m \<noteq> ?n \<Longrightarrow> sw_fut (scope_exec op w) m = sw_fut w m" "m \<noteq> ?n \<Longrightarrow> sw_alive (scope_exec op w) m = sw_alive w m"
    "sw_now (scope_exec op w) = sw_now w" "sc_grace (sw_scope (scope_exec op w) ?n) = G"
    "sc_deadline (sw_scope (scope_exec op w) ?n) = None" for m
    using u by (simp_all add: Request root_new_def Let_def scope_new_def)
  note D = dl_okD [OF dl]
  show ?thesis
  proof (rule dl_okI, goal_cases)
    case (1 n)
    then show ?case using D(1) [of n] by (cases "n = ?n") (simp_all add: F)
  next
    case (2 n d)
    then show ?case using D(2) [of n d] by (cases "n = ?n") (simp_all add: F)
  next
    case (3 n a d e)
    then have ne: "n \<noteq> ?n" by (auto simp: F)
    then have n: "sw_fut w n \<noteq> None" using 3 by (simp add: F)
    have a: "a \<in> set (ancestors w n)"
      by (rule ancestors_mono [OF _ _ lt [OF n] 3(2)]) (simp_all add: F)
    then have "a \<noteq> ?n" using ancestors_lt [OF a] lt [OF n] by simp
    with D(3) [OF n a] 3 ne show ?case by (simp add: F)
  qed
next
  case (Act a)
  then show ?thesis using dl_act [OF ok dl] u by simp
next
  case (PollFut n acts out)
  have ua: "list_all (uniform_act G) acts" using u PollFut by simp
  let ?w1 = "snd (run_in_poll (run_body acts out) n w)"
  have w1: "dl_ok G ?w1" by (rule dl_run_in [OF ok dl ua])
  have "dl_ok G (finish n (upd_task n (ts_result_update g) ?w1))" for g
    by (rule dl_keep_ok [OF dl_keep_trans [OF dl_keep_same [OF same_world_result] dl_keep_simps(3)] w1])
  then have "dl_ok G (fut_poll (run_body acts out) n w)"
    using w1 by (auto simp: fut_poll_def split_beta split: poll.split option.split)
  moreover have "dl_ok G (fut_drop n w)" by (rule dl_keep_ok [OF dl_keep_drop dl])
  ultimately show ?thesis by (simp add: PollFut)
next
  case (DropFut n)
  then show ?thesis using dl_keep_ok [OF dl_keep_drop dl] by simp
next
  case (FreeScope n)
  show ?thesis by (rule dl_keep_ok [OF _ dl]) (simp add: FreeScope dl_keep_def)
qed

interpretation uniform_machine: machine
  "\<lambda>op w. if uniform G op then scope_exec op w else w" "\<lambda>w. world_ok w \<and> dl_ok G w" for G
  by unfold_locales (simp add: scope_exec_ok dl_exec)

lemma dl_init: "dl_ok G (world_init h)"
  by (simp add: dl_ok_def world_init_def)

lemma uniform_run:
  assumes "list_all (uniform G) ops"
  shows "dl_ok G (scope_run ops (world_init h))"
proof -
  have "fold (\<lambda>op w. if uniform G op then scope_exec op w else w) ops w = scope_run ops w" for w
    using assms by (induction ops arbitrary: w) (simp_all add: scope_run_def)
  moreover have "world_ok (fold (\<lambda>op w. if uniform G op then scope_exec op w else w) ops (world_init h)) \<and>
      dl_ok G (fold (\<lambda>op w. if uniform G op then scope_exec op w else w) ops (world_init h))"
    by (rule uniform_machine.ok_run) (simp add: world_ok_init dl_init)
  ultimately show ?thesis by simp
qed

section \<open>The properties\<close>

text \<open>C21: Deadlines nest.  While the grace of the VM does not change, a scope that has a deadline never ends
  later than any of its ancestors that has one, in whatever order the tree observes its cancels, and never
  later than one grace from now.\<close>

theorem deadlines_nest:
  assumes "list_all (uniform G) ops" and "sw_fut (scope_run ops (world_init h)) n \<noteq> None"
    and "sc_deadline (sw_scope (scope_run ops (world_init h)) n) = Some d"
  shows "d \<le> sw_now (scope_run ops (world_init h)) + G \<and>
    (\<forall>a \<in> set (ancestors (scope_run ops (world_init h)) n).
      \<forall>e. sc_deadline (sw_scope (scope_run ops (world_init h)) a) = Some e \<longrightarrow> d \<le> e)"
  using dl_okD(2,3) [OF uniform_run [OF assms(1)] assms(2)] assms(3) by blast

definition two_level :: "nat \<Rightarrow> nat \<Rightarrow> (nat, nat) sop list" where
  "two_level g g' =
    [Request 0 g, PollFut 0 [SpawnHere g' (\<lambda>out _. out)] None, PollFut 1 [] None, Act (CancelScope 0),
     PollFut 1 [] None, Act (Elapse 1), PollFut 0 [] None]"

definition one_token :: token_heap where
  "one_token = snd (token_new None heap_init)"

lemma deadlines_nest_witness:
  "sc_deadline (sw_scope (scope_run (two_level 5 5) (world_init one_token)) 1) = Some 5 \<and>
   sc_deadline (sw_scope (scope_run (two_level 5 5) (world_init one_token)) 0) = Some 6 \<and> (5::nat) \<le> 6"
proof -
  let ?w = "scope_run (two_level 5 5) (world_init one_token)"
  have u: "list_all (uniform 5) (two_level 5 5)" by (simp add: two_level_def)
  have w: "sw_fut ?w 1 \<noteq> None" "sc_deadline (sw_scope ?w 1) = Some 5" "sc_deadline (sw_scope ?w 0) = Some 6"
    "0 \<in> set (ancestors ?w 1)" by code_simp+
  from deadlines_nest [OF u w(1,2)] w(3,4) have "(5::nat) \<le> 6" by blast
  with w show ?thesis by blast
qed

text \<open>With two graces deadlines do not nest: when the grace was raised after the request started, a task
  that observes the cancel before its parent takes a deadline later than the one the parent takes then.\<close>

theorem raised_grace_breaks_nesting:
  "ancestors (scope_run (two_level 5 50) (world_init one_token)) 1 = [0] \<and>
   sc_deadline (sw_scope (scope_run (two_level 5 50) (world_init one_token)) 1) = Some 50 \<and>
   sc_deadline (sw_scope (scope_run (two_level 5 50) (world_init one_token)) 0) = Some 6"
  by code_simp

end
