(* ===== verification/Isle_Scope_Wait.thy ===== *)
theory Isle_Scope_Wait
  imports Isle_Scope_Sys
begin

text \<open>
  The futures that wait for tasks (\<^verbatim>\<open>TaskState::wait_done\<close>, \<^verbatim>\<open>Scope::wait_all\<close> and the wait inside a \<^verbatim>\<open>ScopedTask\<close>
  of \<^verbatim>\<open>src/scope.rs\<close>), with the wakers that \<open>Isle_Scope\<close> leaves out: there a wait looks at the tasks whenever it is
  polled, here it holds a \<^verbatim>\<open>notified()\<close> future of one task and is polled again when that wakes it.

  tokio's \<^verbatim>\<open>Notify\<close> is the parameter \<open>wait_env\<close>, one value of type \<open>'n\<close> for each task; tasks use \<^verbatim>\<open>notify_waiters\<close>
  only.  \<open>wn_poll\<close> takes the number of the waker, \<open>wn_all\<close> returns the wakers it woke.
\<close>

section \<open>Waiting for one task\<close>

record 'n wait_env =
  wn_new :: "'n \<Rightarrow> nat \<times> 'n"
  wn_enable :: "nat \<Rightarrow> 'n \<Rightarrow> bool \<times> 'n"
  wn_poll :: "nat \<Rightarrow> nat \<Rightarrow> 'n \<Rightarrow> bool \<times> 'n"
  wn_drop :: "nat \<Rightarrow> 'n \<Rightarrow> 'n"
  wn_all :: "'n \<Rightarrow> nat list \<times> 'n"

text \<open>Where \<^verbatim>\<open>wait_done\<close> stands: at the top of its loop, or in \<^verbatim>\<open>notified.await\<close>.\<close>

datatype done_wait = DwStart | DwNotified nat

text \<open>A poll of \<^verbatim>\<open>wait_done\<close>; \<open>dn\<close> is the task's \<^verbatim>\<open>done\<close>.  \<open>None\<close> is a loop that does not end.\<close>

partial_function (option) wait_done_poll ::
  "'n wait_env \<Rightarrow> nat \<Rightarrow> bool \<Rightarrow> done_wait \<Rightarrow> 'n \<Rightarrow> (bool \<times> done_wait \<times> 'n) option" where
  "wait_done_poll env wk dn d n =
    (case d of
       DwStart \<Rightarrow>
         (let (k, n1) = wn_new env n;
              n2 = snd (wn_enable env k n1)
          in if dn then Some (True, DwStart, wn_drop env k n2)
             else wait_done_poll env wk dn (DwNotified k) n2)
     | DwNotified k \<Rightarrow>
         (case wn_poll env wk k n of
            (fired, n1) \<Rightarrow>
              if fired then wait_done_poll env wk dn DwStart (wn_drop env k n1)
              else Some (False, DwNotified k, n1)))"

declare wait_done_poll.simps [code]

definition wait_done_drop :: "'n wait_env \<Rightarrow> done_wait \<Rightarrow> 'n \<Rightarrow> 'n" where
  "wait_done_drop env d n = (case d of DwStart \<Rightarrow> n | DwNotified k \<Rightarrow> wn_drop env k n)"

section \<open>Waiting for all tasks of a scope\<close>

datatype all_wait = AwStart | AwChild nat done_wait

text \<open>A poll of \<^verbatim>\<open>wait_all\<close> on the list of tasks the scope has now; \<open>N\<close> holds the \<^verbatim>\<open>Notify\<close> of every task.\<close>

partial_function (option) wait_all_poll ::
  "'n wait_env \<Rightarrow> nat \<Rightarrow> (nat \<Rightarrow> bool) \<Rightarrow> nat list \<Rightarrow> all_wait \<Rightarrow> (nat \<Rightarrow> 'n) \<Rightarrow>
    (bool \<times> all_wait \<times> (nat \<Rightarrow> 'n)) option" where
  "wait_all_poll env wk dn children a N =
    (case a of
       AwStart \<Rightarrow>
         (case find (\<lambda>c. \<not> dn c) children of
            None \<Rightarrow> Some (True, AwStart, N)
          | Some c \<Rightarrow> wait_all_poll env wk dn children (AwChild c DwStart) N)
     | AwChild c d \<Rightarrow>
         (case wait_done_poll env wk (dn c) d (N c) of
            None \<Rightarrow> None
          | Some (ready, d1, n) \<Rightarrow>
              if ready then wait_all_poll env wk dn children AwStart (N(c := n))
              else Some (False, AwChild c d1, N(c := n))))"

declare wait_all_poll.simps [code]

section \<open>The wait of a task handle\<close>

text \<open>\<^verbatim>\<open>ScopedTask::poll\<close> up to the result: the wait is made when it is first needed, and goes with the answer.\<close>

definition task_wait_poll ::
  "'n wait_env \<Rightarrow> nat \<Rightarrow> bool \<Rightarrow> done_wait option \<Rightarrow> 'n \<Rightarrow> (bool \<times> done_wait option \<times> 'n) option" where
  "task_wait_poll env wk dn d n =
    (if dn then Some (True, None, case d of None \<Rightarrow> n | Some d1 \<Rightarrow> wait_done_drop env d1 n)
     else
       case wait_done_poll env wk dn (case d of None \<Rightarrow> DwStart | Some d1 \<Rightarrow> d1) n of
         None \<Rightarrow> None
       | Some (ready, d1, n1) \<Rightarrow> Some (ready, if ready then None else Some d1, n1))"

section \<open>Many waits\<close>

text \<open>A wait for the tasks of a scope, or for one task; a wait in slot \<open>i\<close> is polled with waker \<open>i\<close>.\<close>

datatype waiter = WaitAll nat all_wait | WaitTask nat "done_wait option"

fun waiter_poll ::
  "'n wait_env \<Rightarrow> nat \<Rightarrow> ('o, 'v) scope_world \<Rightarrow> waiter \<Rightarrow> (nat \<Rightarrow> 'n) \<Rightarrow> (bool \<times> waiter \<times> (nat \<Rightarrow> 'n)) option" where
  "waiter_poll env i w (WaitAll s a) N =
    map_option (\<lambda>(r, a1, N1). (r, WaitAll s a1, N1))
      (wait_all_poll env i (is_done w) (sc_children (sw_scope w s)) a N)"
| "waiter_poll env i w (WaitTask t d) N =
    map_option (\<lambda>(r, d1, n). (r, WaitTask t d1, N(t := n))) (task_wait_poll env i (is_done w t) d (N t))"

fun waiter_drop :: "'n wait_env \<Rightarrow> waiter \<Rightarrow> (nat \<Rightarrow> 'n) \<Rightarrow> nat \<Rightarrow> 'n" where
  "waiter_drop env (WaitAll s (AwChild c d)) N = N(c := wait_done_drop env d (N c))"
| "waiter_drop env (WaitTask t (Some d)) N = N(t := wait_done_drop env d (N t))"
| "waiter_drop env _ N = N"

record ('o, 'v, 'n) wait_sys =
  ws_world :: "('o, 'v) scope_world"
  ws_notify :: "nat \<Rightarrow> 'n"
  ws_waiter :: "nat \<Rightarrow> waiter option"
  ws_woken :: "nat \<Rightarrow> bool"

text \<open>Whatever happens to the scopes, and a new wait, a poll of a wait or its drop, at any time.\<close>

datatype ('o, 'v) waits_op = ScopeOp "('o, 'v) sop" | AwaitScope nat nat | AwaitTask nat nat | PollWait nat | DropWait nat

text \<open>\<^verbatim>\<open>notify_waiters\<close> on the task.\<close>

definition notify_task :: "'n wait_env \<Rightarrow> nat \<Rightarrow> ('o, 'v, 'n) wait_sys \<Rightarrow> ('o, 'v, 'n) wait_sys" where
  "notify_task env t S =
    (let (wakers, n) = wn_all env (ws_notify S t)
     in S\<lparr>ws_notify := (ws_notify S)(t := n), ws_woken := (\<lambda>i. ws_woken S i \<or> i \<in> set wakers)\<rparr>)"

definition waits_exec :: "'n wait_env \<Rightarrow> ('o, 'v) waits_op \<Rightarrow> ('o, 'v, 'n) wait_sys \<Rightarrow> ('o, 'v, 'n) wait_sys" where
  "waits_exec env op S =
    (case op of
       ScopeOp x \<Rightarrow>
         let w = scope_exec x (ws_world S)
         in fold (notify_task env) (drop (length (sw_notified (ws_world S))) (sw_notified w)) (S\<lparr>ws_world := w\<rparr>)
     | AwaitScope i s \<Rightarrow>
         if ws_waiter S i \<noteq> None \<or> sw_fut (ws_world S) s = None then S
         else S\<lparr>ws_waiter := (ws_waiter S)(i := Some (WaitAll s AwStart)), ws_woken := (ws_woken S)(i := False)\<rparr>
     | AwaitTask i t \<Rightarrow>
         if ws_waiter S i \<noteq> None \<or> sw_fresh (ws_world S) \<le> t then S
         else S\<lparr>ws_waiter := (ws_waiter S)(i := Some (WaitTask t None)), ws_woken := (ws_woken S)(i := False)\<rparr>
     | PollWait i \<Rightarrow>
         (case ws_waiter S i of
            None \<Rightarrow> S
          | Some x \<Rightarrow>
              (case waiter_poll env i (ws_world S) x (ws_notify S) of
                 None \<Rightarrow> S
               | Some (r, y, N) \<Rightarrow>
                   S\<lparr>ws_notify := N, ws_waiter := (ws_waiter S)(i := if r then None else Some y),
                     ws_woken := (ws_woken S)(i := False)\<rparr>))
     | DropWait i \<Rightarrow>
         (case ws_waiter S i of
            None \<Rightarrow> S
          | Some x \<Rightarrow> S\<lparr>ws_notify := waiter_drop env x (ws_notify S), ws_waiter := (ws_waiter S)(i := None)\<rparr>))"

definition waits_init :: "token_heap \<Rightarrow> 'n \<Rightarrow> ('o, 'v, 'n) wait_sys" where
  "waits_init h n =
    \<lparr>ws_world = world_init h, ws_notify = (\<lambda>_. n), ws_waiter = (\<lambda>_. None), ws_woken = (\<lambda>_. False)\<rparr>"

definition waits_run ::
  "'n wait_env \<Rightarrow> ('o, 'v) waits_op list \<Rightarrow> ('o, 'v, 'n) wait_sys \<Rightarrow> ('o, 'v, 'n) wait_sys" where
  "waits_run env ops S = fold (waits_exec env) ops S"

text \<open>What a wait waits for, as \<open>Isle_Scope\<close> has it.\<close>

fun waited_for :: "('o, 'v) scope_world \<Rightarrow> waiter \<Rightarrow> bool" where
  "waited_for w (WaitAll s a) \<longleftrightarrow> fst (wait_all s None w) = Ready None"
| "waited_for w (WaitTask t d) \<longleftrightarrow>
    fst (scoped_task_poll \<lparr>sk_task = t, sk_wait = d \<noteq> None, sk_detached = False\<rparr> w) \<noteq> Pending"

end
