(* ===== verification/Isle_Scope_Rel.thy ===== *)
theory Isle_Scope_Rel
  imports Isle_Scope_Sys
begin

text \<open>
  The induction over the operations of a scope: a relation that the primitive steps respect is respected by a poll
  of any body that respects it (\<open>scope_steps\<close>), and by whatever can happen to the scopes when the end of tasks and
  the making of scopes respect it too (\<open>scope_relation\<close>).  \<open>quiet\<close> is the one that a poll keeps until it ends its task.
\<close>

locale scope_steps =
  fixes R :: "('o, 'v) scope_world \<Rightarrow> ('o, 'v) scope_world \<Rightarrow> bool"
  assumes R_refl: "R w w"
    and R_trans: "R a b \<Longrightarrow> R b c \<Longrightarrow> R a c"
    and R_cancel: "R w (cancel_token t w)"
    and R_abort: "R w (abort_task t w)"
    and R_state: "R w (set_state n st w)"
    and R_phase: "R w (upd_scope s (sc_phase_update (\<lambda>_. ph)) w)"
    and R_deadline: "R w (set_deadline s w)"
    and R_current: "R w (w\<lparr>sw_current := cu\<rparr>)"
begin

lemma R_fold:
  assumes "\<And>x w. x \<in> set xs \<Longrightarrow> R w (f x w)"
  shows "R w (fold f xs w)"
  using assms by (induction xs arbitrary: w) (auto intro: R_refl R_trans)

lemma R_cancel_children: "R w (cancel_children s w)"
  unfolding cancel_children_def by (rule R_fold) (rule R_cancel)

lemma R_wait_all: "R w (snd (wait_all s out w))"
  by (auto simp: wait_all_def R_state intro: R_trans [OF R_phase R_state] split: option.split)

lemma R_drain: "R w (snd (drain s out w))"
proof -
  have "R w (if sc_deadline (sw_scope w s) = None then set_deadline s w else w)"
    by (simp add: R_refl R_deadline)
  then show ?thesis unfolding drain_def Let_def
    by (rule R_trans) (rule R_trans [OF R_phase R_trans [OF R_cancel_children R_wait_all]])
qed

lemma R_scoped_poll:
  assumes "\<And>w. R w (snd (body w))"
  shows "R w (snd (scoped_poll body s w))"
proof -
  let ?w1 = "w\<lparr>sw_current := Some s\<rparr>"
  have "R w ((snd (body ?w1))\<lparr>sw_current := sw_current w\<rparr>)"
    by (rule R_trans [OF R_trans [OF R_current assms] R_current])
  then show ?thesis by (simp add: scoped_poll_def enter_scope_def leave_scope_def split_beta)
qed

lemma R_grace_poll:
  assumes "\<And>w. R w (snd (body w))"
  shows "R w (snd (grace_poll body s d w))"
  using R_trans [OF R_scoped_poll [OF assms] R_drain] R_trans [OF R_scoped_poll [OF assms] R_state]
  by (simp add: grace_poll_def split_beta Let_def split: poll.split)

lemma R_body_poll:
  assumes "\<And>w. R w (snd (body w))"
  shows "R w (snd (body_poll body s w))"
  using R_trans [OF R_deadline R_grace_poll [OF assms]] R_trans [OF R_scoped_poll [OF assms] R_drain]
    R_trans [OF R_scoped_poll [OF assms] R_state]
  by (simp add: body_poll_def split_beta Let_def split: poll.split)

lemma R_run_in:
  assumes "\<And>w. R w (snd (body w))"
  shows "R w (snd (run_in_poll body s w))"
  using R_body_poll [OF assms] R_grace_poll [OF assms]
  by (auto simp: run_in_poll_def R_refl R_wait_all split: option.split run_state.split)

lemma R_abort_on_drop: "R w (abort_on_drop s w)"
  unfolding abort_on_drop_def abort_all_def by (rule R_trans [OF R_phase R_fold]) (rule R_abort)

end

locale scope_relation = scope_steps +
  assumes R_fut: "R a b \<Longrightarrow> sw_fut a n \<noteq> None \<Longrightarrow> sw_fut b n \<noteq> None"
    and R_now: "R w (w\<lparr>sw_now := sw_now w + d\<rparr>)"
    and R_free: "R w (w\<lparr>sw_alive := (sw_alive w)(n := False)\<rparr>)"
    and R_result: "R w (upd_task t (ts_result_update f) w)"
    and R_finish: "sw_fut w t \<noteq> None \<Longrightarrow> R w (finish t w)"
    and R_spawn: "sw_fut w s \<noteq> None \<Longrightarrow> R w (snd (spawn g cv s w))"
    and R_root: "R w (snd (root_new tok g w))"
begin

lemma R_act: "R w (exec_act a w)"
  by (cases a) (auto simp: R_refl R_spawn R_cancel R_now take_result_def R_result split: option.split)

lemma R_body: "R w (snd (run_body acts out w))"
  by (simp add: run_body_def R_fold R_act)

lemma R_fut_poll: "R w (fut_poll (run_body acts out) n w)"
proof (cases "sw_fut w n")
  case (Some f)
  obtain r w1 where rp: "run_in_poll (run_body acts out) n w = (r, w1)" by fastforce
  then have R1: "R w w1" using R_run_in [OF R_body [where acts = acts and out = out], where w = w and s = n] by simp
  then have "sw_fut w1 n \<noteq> None" using R_fut [OF R1, of n] Some by simp
  then have "R w1 (finish n (upd_task n (ts_result_update f) w1))" for f
    by (intro R_trans [OF R_result R_finish]) simp
  then show ?thesis using R_trans [OF R1] R1 by (auto simp: fut_poll_def Some rp split: poll.split)
qed (simp add: fut_poll_def run_in_poll_def R_refl)

lemma R_fut_drop: "R w (fut_drop n w)"
proof (cases "sw_fut w n")
  case (Some f)
  have R1: "R w (abort_on_drop n (set_state n Dropped w))" by (rule R_trans [OF R_state R_abort_on_drop])
  then have "R w (finish n (abort_on_drop n (set_state n Dropped w)))"
    using R_fut [OF R1, of n] Some by (intro R_trans [OF R1 R_finish]) simp
  then show ?thesis using R1
    by (auto simp: fut_drop_def Some Let_def R_refl R_state split: run_state.split)
qed (simp add: fut_drop_def R_refl)

theorem R_exec: "R w (scope_exec x w)"
  by (cases x) (auto simp: R_root R_act R_fut_drop R_fut_poll R_refl R_free)

end

section \<open>Steps that finish nothing\<close>

text \<open>No task that exists is finished, and the results of the tasks \<open>T\<close> stay in their slots.\<close>

definition quiet :: "nat set \<Rightarrow> ('o, 'v) scope_world \<Rightarrow> ('o, 'v) scope_world \<Rightarrow> bool" where
  "quiet T w w' \<longleftrightarrow>
    sw_fresh w \<le> sw_fresh w' \<and>
    (\<forall>t < sw_fresh w. is_done w' t = is_done w t \<and>
      (t \<in> T \<longrightarrow> ts_result (sw_task w' t) = ts_result (sw_task w t)))"

lemma quiet_tasks: "sw_fresh w' = sw_fresh w \<Longrightarrow> sw_task w' = sw_task w \<Longrightarrow> quiet T w w'"
  by (simp add: quiet_def is_done_def)

lemma quiet_trans:
  assumes "quiet T a b" and "quiet T b c"
  shows "quiet T a c"
proof -
  have "t < sw_fresh b" if "t < sw_fresh a" for t using that assms(1) by (simp add: quiet_def)
  then show ?thesis using assms by (simp add: quiet_def)
qed

lemma quiet_abort: "quiet T w (abort_task t w)"
  by (auto simp: quiet_def abort_task_def is_done_def Let_def)

interpretation quiet: scope_steps "quiet T" for T
proof unfold_locales
  show "quiet T w (abort_task t w)" for w t by (rule quiet_abort)
  show "quiet T a c" if "quiet T a b" "quiet T b c" for a b c using quiet_trans [OF that] .
qed (simp_all add: quiet_tasks set_deadline_def)

text \<open>A spawn makes a task with a number of its own.\<close>

lemma spawn_tasks:
  "fst (spawn g c s w) = sw_fresh w" "sw_fresh (snd (spawn g c s w)) = Suc (sw_fresh w)"
  "t \<noteq> sw_fresh w \<Longrightarrow> sw_task (snd (spawn g c s w)) t = sw_task w t"
  by (simp_all add: spawn_def Let_def split_beta finish_def is_done_def)

fun act_spares :: "nat set \<Rightarrow> ('o, 'v) act \<Rightarrow> bool" where
  "act_spares T (TakeResult t) = (t \<notin> T)"
| "act_spares T _ = True"

fun sop_spares :: "nat set \<Rightarrow> ('o, 'v) sop \<Rightarrow> bool" where
  "sop_spares T (Act a) = act_spares T a"
| "sop_spares T (PollFut n acts out) = list_all (act_spares T) acts"
| "sop_spares T _ = True"

lemma quiet_spawn: "quiet T w (snd (spawn g c s w))"
  by (auto simp: quiet_def spawn_tasks is_done_def)

lemma quiet_take: "t \<notin> T \<Longrightarrow> quiet T w (snd (take_result t w))"
  by (auto simp: quiet_def take_result_def is_done_def)

lemma quiet_act: "act_spares T a \<Longrightarrow> quiet T w (exec_act a w)"
  by (cases a) (simp_all add: quiet_spawn quiet_tasks quiet_take split: option.split)

lemma quiet_body: "list_all (act_spares T) acts \<Longrightarrow> quiet T w (snd (run_body acts out w))"
  by (auto simp: run_body_def list_all_iff intro: quiet.R_fold quiet_act)

text \<open>Whatever happens to the scopes, a finished task stays finished, with the result it has.\<close>

lemma finish_result [simp]: "ts_result (sw_task (finish n w) t) = ts_result (sw_task w t)"
  by (simp add: finish_def)

lemma run_in_ready_running:
  assumes "run_in_poll body n w = (Ready out, w1)" and "sw_fut w n = Some f"
  shows "\<not> over (rf_state f)"
  using assms by (auto simp: run_in_poll_def split: run_state.splits)

text \<open>A poll or a drop of a future is quiet but for the end of its own task.\<close>

lemma fut_drop_quiet: "\<exists>w1. quiet T w w1 \<and> (fut_drop n w = w1 \<or> fut_drop n w = finish n w1)"
proof -
  have "quiet T w (abort_on_drop n (set_state n Dropped w))"
    by (rule quiet.R_trans [OF quiet.R_state quiet.R_abort_on_drop])
  moreover have "quiet T w (set_state n Dropped w)" "quiet T w w" by (rule quiet.R_state, rule quiet.R_refl)
  ultimately show ?thesis by (auto simp: fut_drop_def Let_def split: option.split run_state.split)
qed

lemma fut_poll_quiet:
  assumes acts: "list_all (act_spares T) acts"
  shows "\<exists>w1. quiet T w w1 \<and> (fut_poll (run_body acts out) n w = w1 \<or>
    (\<exists>f g. sw_fut w n = Some f \<and> \<not> over (rf_state f) \<and> rf_task f \<and>
      fut_poll (run_body acts out) n w = finish n (upd_task n (ts_result_update g) w1)))"
proof -
  obtain r w1 where rp: "run_in_poll (run_body acts out) n w = (r, w1)" by fastforce
  have q: "quiet T w w1" using quiet.R_run_in [OF quiet_body [OF acts, where out = out], where w = w and s = n] by (simp add: rp)
  show ?thesis
  proof (cases "r = Pending \<or> sw_fut w n = None")
    case True
    then show ?thesis using q by (auto simp: fut_poll_def rp split: poll.split)
  next
    case False
    then obtain out' f where r: "r = Ready out'" "sw_fut w n = Some f" by (cases r) auto
    have "\<not> over (rf_state f)" using run_in_ready_running [OF rp [unfolded r(1)] r(2)] .
    then show ?thesis using q r by (cases "rf_task f") (auto simp: fut_poll_def rp)
  qed
qed

theorem exec_keeps_results:
  assumes ok: "world_ok w" and sp: "sop_spares T x" and t: "t \<in> T" "t < sw_fresh w" "is_done w t"
  shows "is_done (scope_exec x w) t \<and> ts_result (sw_task (scope_exec x w) t) = ts_result (sw_task w t)"
proof -
  have Q: "is_done w' t \<and> ts_result (sw_task w' t) = ts_result (sw_task w t)" if "quiet T w w'" for w'
    using that t unfolding quiet_def by blast
  have D: "is_done (fut_drop n w) t \<and> ts_result (sw_task (fut_drop n w) t) = ts_result (sw_task w t)" for n
    using fut_drop_quiet [of T w n] Q by auto
  have P: "is_done (fut_poll (run_body acts out) n w) t \<and>
      ts_result (sw_task (fut_poll (run_body acts out) n w) t) = ts_result (sw_task w t)"
    if acts: "list_all (act_spares T) acts" for acts out n
  proof -
    obtain w1 where w1: "quiet T w w1" and e: "fut_poll (run_body acts out) n w = w1 \<or>
        (\<exists>f g. sw_fut w n = Some f \<and> \<not> over (rf_state f) \<and> rf_task f \<and>
          fut_poll (run_body acts out) n w = finish n (upd_task n (ts_result_update g) w1))"
      using fut_poll_quiet [OF acts] by blast
    from e show ?thesis
    proof (elim disjE exE conjE)
      fix f g assume f: "sw_fut w n = Some f" "\<not> over (rf_state f)" "rf_task f"
        and e: "fut_poll (run_body acts out) n w = finish n (upd_task n (ts_result_update g) w1)"
      have "t \<noteq> n" using world_okD(4) [OF ok f(1,3)] f(2) t(3) by auto
      then show ?thesis using Q [OF w1] by (simp add: e is_done_upd_task)
    qed (use Q [OF w1] in simp)
  qed
  show ?thesis
  proof (cases x)
    case (Act a)
    then show ?thesis using Q [OF quiet_act, of a] sp by simp
  qed (use D P sp t in \<open>auto simp: root_new_def Let_def is_done_def\<close>)
qed

lemma exec_fresh: "sw_fresh w \<le> sw_fresh (scope_exec x w)"
proof -
  have Q: "quiet {} w w' \<Longrightarrow> sw_fresh w \<le> sw_fresh w'" for w' by (simp add: quiet_def)
  have sp: "act_spares {} a" for a :: "('a, 'b) act" by (cases a) simp_all
  have D: "sw_fresh w \<le> sw_fresh (fut_drop n w)" for n
    using fut_drop_quiet [of "{}" w n] Q by auto
  have P: "sw_fresh w \<le> sw_fresh (fut_poll (run_body acts out) n w)" for acts out n
    using fut_poll_quiet [where T = "{}" and acts = acts and w = w and out = out and n = n] sp Q by (auto simp: list_all_iff)
  show ?thesis using Q [OF quiet_act [OF sp]] D P by (cases x) (auto simp: root_new_def Let_def)
qed

end
