(* ===== verification/Isle_Scope_Wait_Props.thy ===== *)
theory Isle_Scope_Wait_Props
  imports Isle_Scope_Wait Isle_Scope_Rel
begin

text \<open>
  A wait for tasks never sleeps past the end of what it waits for, and a poll of it answers what the scope model
  says, for any \<^verbatim>\<open>Notify\<close> that behaves as tokio documents it (\<open>wait_env_ok\<close>).
\<close>

section \<open>What the waits rely on\<close>

text \<open>
  \<open>below\<close>: numbers in use are below the next one.  \<open>steady\<close>: every task that finishes has its waiters notified, a
  finished task stays finished, and an unfinished one stays on the list of its scope.
\<close>

definition below :: "('o, 'v) scope_world \<Rightarrow> bool" where
  "below w \<longleftrightarrow> (\<forall>n. sw_fut w n \<noteq> None \<longrightarrow> n < sw_fresh w) \<and> (\<forall>s. \<forall>c \<in> set (sc_children (sw_scope w s)). c < sw_fresh w)"

definition news :: "('o, 'v) scope_world \<Rightarrow> ('o, 'v) scope_world \<Rightarrow> nat list" where
  "news w w' = drop (length (sw_notified w)) (sw_notified w')"

definition steady :: "('o, 'v) scope_world \<Rightarrow> ('o, 'v) scope_world \<Rightarrow> bool" where
  "steady w w' \<longleftrightarrow>
    (\<forall>n. sw_fut w n \<noteq> None \<longrightarrow> sw_fut w' n \<noteq> None) \<and> sw_notified w' = sw_notified w @ news w w' \<and>
    (below w \<longrightarrow> below w' \<and> sw_fresh w \<le> sw_fresh w' \<and>
      (\<forall>t \<in> set (news w w'). t < sw_fresh w' \<and> is_done w' t) \<and>
      (\<forall>t < sw_fresh w. is_done w' t \<longleftrightarrow> is_done w t \<or> t \<in> set (news w w')) \<and>
      (\<forall>s < sw_fresh w. \<forall>c \<in> set (sc_children (sw_scope w s)). \<not> is_done w' c \<longrightarrow>
        c \<in> set (sc_children (sw_scope w' s))))"

lemma below_children: "below w \<Longrightarrow> c \<in> set (sc_children (sw_scope w s)) \<Longrightarrow> c < sw_fresh w"
  unfolding below_def by blast

lemma below_fut: "below w \<Longrightarrow> sw_fut w n = Some f \<Longrightarrow> n < sw_fresh w"
  unfolding below_def by blast

lemma steadyI:
  assumes "\<And>n. sw_fut w n \<noteq> None \<Longrightarrow> sw_fut w' n \<noteq> None"
    and new: "sw_notified w' = sw_notified w @ new"
    and "below w \<Longrightarrow> below w'"
    and "below w \<Longrightarrow> sw_fresh w \<le> sw_fresh w'"
    and "\<And>t. below w \<Longrightarrow> t \<in> set new \<Longrightarrow> t < sw_fresh w' \<and> is_done w' t"
    and "\<And>t. below w \<Longrightarrow> t < sw_fresh w \<Longrightarrow> is_done w' t \<longleftrightarrow> is_done w t \<or> t \<in> set new"
    and "\<And>s c. below w \<Longrightarrow> s < sw_fresh w \<Longrightarrow> c \<in> set (sc_children (sw_scope w s)) \<Longrightarrow> \<not> is_done w' c \<Longrightarrow>
      c \<in> set (sc_children (sw_scope w' s))"
  shows "steady w w'"
proof -
  have "news w w' = new" by (simp add: news_def new)
  then show ?thesis unfolding steady_def using assms by simp
qed

lemma steady_fut: "steady w w' \<Longrightarrow> sw_fut w n \<noteq> None \<Longrightarrow> sw_fut w' n \<noteq> None"
  by (simp add: steady_def)

lemma steady_notified: "steady w w' \<Longrightarrow> sw_notified w' = sw_notified w @ news w w'"
  by (simp add: steady_def)

lemma steadyD:
  assumes "steady w w'" and "below w"
  shows "below w'" and "sw_fresh w \<le> sw_fresh w'"
    and "t \<in> set (news w w') \<Longrightarrow> t < sw_fresh w'"
    and "t \<in> set (news w w') \<Longrightarrow> is_done w' t"
    and "t < sw_fresh w \<Longrightarrow> is_done w' t \<longleftrightarrow> is_done w t \<or> t \<in> set (news w w')"
    and "s < sw_fresh w \<Longrightarrow> c \<in> set (sc_children (sw_scope w s)) \<Longrightarrow> \<not> is_done w' c \<Longrightarrow>
      c \<in> set (sc_children (sw_scope w' s))"
  using assms unfolding steady_def by blast+

text \<open>Steps that touch neither tasks nor lists.\<close>

lemma steady_quiet:
  assumes "sw_fut w' = sw_fut w \<or> (\<exists>n st. sw_fut w' = (sw_fut w)(n := map_option (rf_state_update (\<lambda>_. st)) (sw_fut w n)))"
    and "sw_notified w' = sw_notified w" and "sw_fresh w' = sw_fresh w" and "is_done w' = is_done w"
    and "\<And>s. sc_children (sw_scope w' s) = sc_children (sw_scope w s)"
  shows "steady w w'"
proof (rule steadyI [of w w' "[]"])
  show f: "sw_fut w' n \<noteq> None" if "sw_fut w n \<noteq> None" for n
    using assms(1) that by auto
  have "sw_fut w n \<noteq> None" if "sw_fut w' n \<noteq> None" for n
    using assms(1) that by (auto split: if_splits)
  then show "below w \<Longrightarrow> below w'" unfolding below_def assms(3,5) by blast
qed (simp_all add: assms)

lemma notified_fields [simp]:
  "sw_notified (upd_scope s f w) = sw_notified w" "sw_notified (upd_task t g w) = sw_notified w"
  "sw_notified (set_state n st w) = sw_notified w" "sw_notified (cancel_token t w) = sw_notified w"
  "sw_notified (set_deadline s w) = sw_notified w" "sw_notified (abort_task t w) = sw_notified w"
  "sw_notified (add_child s t w) = sw_notified w"
  by (simp_all add: upd_scope_def upd_task_def set_state_def cancel_token_def set_deadline_def abort_task_def add_child_def Let_def)

lemma steady_trans:
  assumes ab: "steady a b" and bc: "steady b c"
  shows "steady a c"
proof (rule steadyI)
  show "sw_fut c n \<noteq> None" if "sw_fut a n \<noteq> None" for n
    using steady_fut [OF bc steady_fut [OF ab that]] .
  show "sw_notified c = sw_notified a @ (news a b @ news b c)"
    using steady_notified [OF ab] steady_notified [OF bc] by simp
next
  assume a: "below a"
  note A = steadyD [OF ab a] and B = steadyD [OF bc steadyD(1) [OF ab a]]
  show "below c" by (rule B(1))
  show "sw_fresh a \<le> sw_fresh c" using A(2) B(2) by simp
  show "t < sw_fresh c \<and> is_done c t" if "t \<in> set (news a b @ news b c)" for t
    using that A(3,4) [of t] B(2) B(3-5) [of t] by auto
  show "is_done c t \<longleftrightarrow> is_done a t \<or> t \<in> set (news a b @ news b c)" if "t < sw_fresh a" for t
    using that A(2) A(5) [of t] B(5) [of t] by auto
  show "x \<in> set (sc_children (sw_scope c s))"
    if "s < sw_fresh a" "x \<in> set (sc_children (sw_scope a s))" "\<not> is_done c x" for s x
  proof -
    have "x < sw_fresh b" using below_children [OF a that(2)] A(2) by simp
    then have "\<not> is_done b x" using B(5) that(3) by blast
    then show ?thesis using A(2) A(6) [OF that(1,2)] B(6) [of s x] that by simp
  qed
qed
lemma steady_finish:
  assumes "sw_fut w t \<noteq> None"
  shows "steady w (finish t w)"
proof (rule steadyI [where new = "if is_done w t then [] else [t]"])
  show "sw_notified (finish t w) = sw_notified w @ (if is_done w t then [] else [t])"
    by (simp add: finish_def)
qed (use assms in \<open>auto simp: below_def split: if_splits\<close>)

lemma steady_spawn:
  assumes s: "sw_fut w s \<noteq> None"
  shows "steady w (snd (spawn g cv s w))"
proof (cases "out_of_time w s")
  case True
  have "\<not> is_done (w\<lparr>sw_heap := h, sw_task := (sw_task w)(n := task_new t)\<rparr>) n" for h n t
    by (simp add: is_done_def task_new_def)
  then have "sw_notified (snd (spawn g cv s w)) = sw_notified w @ [sw_fresh w]"
    using True by (simp add: spawn_def Let_def split_beta finish_def)
  then show ?thesis
    by (rule steadyI [rotated]) (auto simp: spawn_out [OF True] below_def intro: less_SucI)
next
  case False
  have n: "sw_notified (snd (spawn g cv s w)) = sw_notified w @ []"
    using False by (simp add: spawn_def Let_def split_beta)
  have f: "sw_fut (snd (spawn g cv s w)) k \<noteq> None" if "sw_fut w k \<noteq> None" for k
    using False that by (simp add: spawn_def Let_def split_beta)
  have "s < sw_fresh w" if "below w" using that s unfolding below_def by blast
  then show ?thesis
    by (intro steadyI [OF f n]) (use False in \<open>auto simp: spawn_in below_def scope_new_def intro: less_SucI split: if_splits\<close>)
qed

lemma steady_root: "steady w (snd (root_new tok g w))"
  by (rule steadyI [where new = "[]"])
    (auto simp: root_new_def Let_def below_def is_done_def scope_new_def intro: less_SucI)

lemma steady_steps:
  "steady w w" "steady w (cancel_token t w)" "steady w (abort_task t w)" "steady w (set_state n st w)"
  "steady w (upd_scope s (sc_phase_update (\<lambda>_. ph)) w)" "steady w (set_deadline s w)"
  "steady w (w\<lparr>sw_current := cu\<rparr>)" "steady w (w\<lparr>sw_now := i\<rparr>)" "steady w (w\<lparr>sw_alive := al\<rparr>)"
  "steady w (upd_task t (ts_result_update f) w)"
proof -
  have "sw_fut (abort_task t w) = sw_fut w" "sw_fresh (abort_task t w) = sw_fresh w" "sw_scope (abort_task t w) = sw_scope w"
    "is_done (abort_task t w) = is_done w"
    using same_world_abort [of w t] unfolding same_world_def by simp_all
  then show "steady w (abort_task t w)" by (intro steady_quiet) simp_all
  show "steady w (set_state n st w)" by (rule steady_quiet) auto
qed (rule steady_quiet; simp add: set_deadline_def is_done_upd_task)+

interpretation steady: scope_relation steady
  by unfold_locales (simp_all add: steady_steps steady_finish steady_spawn steady_root steady_fut, rule steady_trans)
section \<open>Notify as documented\<close>

text \<open>
  A \<^verbatim>\<open>notified()\<close> future that exists is not polled yet, asleep with a waker, or notified.  \<^verbatim>\<open>notify_waiters\<close> reaches
  every one that was created before it, and wakes those asleep.
\<close>

datatype wait_view = NotPolled | Asleep nat | Notified

definition wait_env_ok :: "'n wait_env \<Rightarrow> ('n \<Rightarrow> nat \<Rightarrow> wait_view option) \<Rightarrow> bool" where
  "wait_env_ok env view \<longleftrightarrow>
    (\<forall>n. view n (fst (wn_new env n)) = None \<and>
      view (snd (wn_new env n)) = (view n)(fst (wn_new env n) := Some NotPolled)) \<and>
    (\<forall>k n. view n k \<noteq> None \<longrightarrow> view (snd (wn_enable env k n)) = view n) \<and>
    (\<forall>wk k n st. view n k = Some st \<longrightarrow>
      fst (wn_poll env wk k n) = (st = Notified) \<and>
      view (snd (wn_poll env wk k n)) = (if st = Notified then view n else (view n)(k := Some (Asleep wk)))) \<and>
    (\<forall>k n. view (wn_drop env k n) = (view n)(k := None)) \<and>
    (\<forall>n. set (fst (wn_all env n)) = {wk. \<exists>k. view n k = Some (Asleep wk)} \<and>
      view (snd (wn_all env n)) = (\<lambda>k. map_option (\<lambda>_. Notified) (view n k)))"

lemma wait_env_okD:
  assumes "wait_env_ok env view"
  shows "view n (fst (wn_new env n)) = None"
    and "view (snd (wn_new env n)) = (view n)(fst (wn_new env n) := Some NotPolled)"
    and "view n k \<noteq> None \<Longrightarrow> view (snd (wn_enable env k n)) = view n"
    and "view n k = Some st \<Longrightarrow> fst (wn_poll env wk k n) = (st = Notified)"
    and "view n k = Some st \<Longrightarrow>
      view (snd (wn_poll env wk k n)) = (if st = Notified then view n else (view n)(k := Some (Asleep wk)))"
    and "view (wn_drop env k n) = (view n)(k := None)"
    and "set (fst (wn_all env n)) = {wk. \<exists>k. view n k = Some (Asleep wk)}"
    and "view (snd (wn_all env n)) = (\<lambda>k. map_option (\<lambda>_. Notified) (view n k))"
  using assms unfolding wait_env_ok_def by blast+

section \<open>A poll of each wait\<close>

fun dw_forget :: "done_wait \<Rightarrow> (nat \<Rightarrow> wait_view option) \<Rightarrow> nat \<Rightarrow> wait_view option" where
  "dw_forget DwStart v = v"
| "dw_forget (DwNotified k) v = v(k := None)"

fun dw_ok :: "bool \<Rightarrow> (nat \<Rightarrow> wait_view option) \<Rightarrow> done_wait \<Rightarrow> bool" where
  "dw_ok dn v DwStart \<longleftrightarrow> True"
| "dw_ok dn v (DwNotified k) \<longleftrightarrow> (\<exists>st. v k = Some st \<and> (st = Notified \<longleftrightarrow> dn))"

lemma wait_done_asleep:
  assumes ok: "wait_env_ok env view" and k: "view n k = Some st" "st \<noteq> Notified"
  shows "\<exists>n'. wait_done_poll env wk dn (DwNotified k) n = Some (False, DwNotified k, n') \<and>
    view n' = (view n)(k := Some (Asleep wk))"
  using wait_env_okD(4,5) [OF ok k(1), of wk] k(2)
  by (subst wait_done_poll.simps) (auto simp: split_beta)

lemma wait_done_fresh:
  assumes ok: "wait_env_ok env view"
  shows "\<exists>n'. wait_done_poll env wk True DwStart n = Some (True, DwStart, n') \<and> view n' = view n"
    and "\<exists>k n'. wait_done_poll env wk False DwStart n = Some (False, DwNotified k, n') \<and> view n k = None \<and>
      view n' = (view n)(k := Some (Asleep wk))"
proof -
  obtain k n1 where new: "wn_new env n = (k, n1)" by fastforce
  define n2 where "n2 = snd (wn_enable env k n1)"
  have v: "view n k = None" "view n1 = (view n)(k := Some NotPolled)" using wait_env_okD(1,2) [OF ok, of n] by (simp_all add: new)
  then have n2: "view n2 = (view n)(k := Some NotPolled)" using wait_env_okD(3) [OF ok, of n1 k] by (simp add: n2_def)
  have "wait_done_poll env wk True DwStart n = Some (True, DwStart, wn_drop env k n2)"
    by (subst wait_done_poll.simps) (simp add: new n2_def)
  moreover have "view (wn_drop env k n2) = view n" using v(1) by (simp add: wait_env_okD(6) [OF ok] n2 fun_upd_idem)
  ultimately show "\<exists>n'. wait_done_poll env wk True DwStart n = Some (True, DwStart, n') \<and> view n' = view n" by blast
  have "wait_done_poll env wk False DwStart n = wait_done_poll env wk False (DwNotified k) n2"
    by (subst wait_done_poll.simps) (simp add: new n2_def)
  then show "\<exists>k n'. wait_done_poll env wk False DwStart n = Some (False, DwNotified k, n') \<and> view n k = None \<and>
      view n' = (view n)(k := Some (Asleep wk))"
    using wait_done_asleep [OF ok, of n2 k NotPolled wk False] v(1) by (auto simp: n2)
qed

lemma wait_done_spec:
  assumes ok: "wait_env_ok env view" and d: "dw_ok dn (view n) d"
  shows "dn \<Longrightarrow> \<exists>n'. wait_done_poll env wk dn d n = Some (True, DwStart, n') \<and> view n' = dw_forget d (view n)"
    and "\<not> dn \<Longrightarrow> \<exists>k n'. wait_done_poll env wk dn d n = Some (False, DwNotified k, n') \<and>
      dw_forget d (view n) k = None \<and> view n' = (dw_forget d (view n))(k := Some (Asleep wk))"
proof -
  assume dn: dn
  show "\<exists>n'. wait_done_poll env wk dn d n = Some (True, DwStart, n') \<and> view n' = dw_forget d (view n)"
  proof (cases d)
    case (DwNotified k)
    then have k: "view n k = Some Notified" using d dn by auto
    have "wait_done_poll env wk dn d n = wait_done_poll env wk dn DwStart (wn_drop env k (snd (wn_poll env wk k n)))"
      using wait_env_okD(4) [OF ok k] by (subst wait_done_poll.simps) (simp add: DwNotified split_beta)
    moreover have "view (wn_drop env k (snd (wn_poll env wk k n))) = (view n)(k := None)"
      using wait_env_okD(5) [OF ok k] by (simp add: wait_env_okD(6) [OF ok])
    ultimately show ?thesis using wait_done_fresh(1) [OF ok] dn by (simp add: DwNotified) metis
  qed (use wait_done_fresh(1) [OF ok] dn in simp)
next
  assume dn: "\<not> dn"
  show "\<exists>k n'. wait_done_poll env wk dn d n = Some (False, DwNotified k, n') \<and>
      dw_forget d (view n) k = None \<and> view n' = (dw_forget d (view n))(k := Some (Asleep wk))"
  proof (cases d)
    case (DwNotified k)
    then obtain st where "view n k = Some st" "st \<noteq> Notified" using d dn by auto
    from wait_done_asleep [OF ok this, of wk dn] show ?thesis by (auto simp: DwNotified)
  qed (use wait_done_fresh(2) [OF ok] dn in simp)
qed
text \<open>The future a wait holds: its task and its number.\<close>

fun held :: "waiter \<Rightarrow> (nat \<times> nat) option" where
  "held (WaitAll s (AwChild c (DwNotified k))) = Some (c, k)"
| "held (WaitTask t (Some (DwNotified k))) = Some (t, k)"
| "held _ = None"

fun settled :: "waiter \<Rightarrow> bool" where
  "settled (WaitAll s (AwChild c DwStart)) = False"
| "settled (WaitTask t (Some DwStart)) = False"
| "settled _ = True"

fun candidates :: "('o, 'v) scope_world \<Rightarrow> waiter \<Rightarrow> nat list" where
  "candidates w (WaitAll s a) = sc_children (sw_scope w s)"
| "candidates w (WaitTask t d) = [t]"

fun subject :: "waiter \<Rightarrow> nat + nat" where
  "subject (WaitAll s a) = Inl s"
| "subject (WaitTask t d) = Inr t"

lemma subject_candidates: "subject y = subject x \<Longrightarrow> candidates w y = candidates w x"
  by (cases x; cases y) simp_all

type_synonym views = "nat \<Rightarrow> nat \<Rightarrow> wait_view option"

definition forget :: "waiter \<Rightarrow> views \<Rightarrow> views" where
  "forget x V = (case held x of None \<Rightarrow> V | Some (t, k) \<Rightarrow> V(t := (V t)(k := None)))"

definition hold :: "nat \<Rightarrow> nat \<Rightarrow> nat \<Rightarrow> views \<Rightarrow> views" where
  "hold i t k V = V(t := (V t)(k := Some (Asleep i)))"

lemma waited_for_iff: "waited_for w x \<longleftrightarrow> (\<forall>c \<in> set (candidates w x). is_done w c)"
  by (cases x) (auto simp: wait_all_def scoped_task_poll_def find_None_iff take_result_def split_beta split: option.split
      dest!: find_Some_iff [THEN iffD1] intro: nth_mem)

lemma forget_none: "held x = None \<Longrightarrow> forget x V = V"
  by (simp add: forget_def)

lemma forget_some: "held x = Some (t, k) \<Longrightarrow> forget x V = V(t := (V t)(k := None))"
  by (simp add: forget_def)

lemma views_upd: "(\<lambda>t. view ((N(c := n)) t)) = (\<lambda>t. view (N t))(c := view n)"
  by (simp add: fun_eq_iff)

text \<open>What a poll needs of a wait that holds a future, and what it does.\<close>

definition wait_inv :: "nat \<Rightarrow> ('o, 'v) scope_world \<Rightarrow> views \<Rightarrow> bool \<Rightarrow> waiter \<Rightarrow> bool" where
  "wait_inv i w V woken x \<longleftrightarrow> settled x \<and>
    (case held x of
       None \<Rightarrow> True
     | Some (t, k) \<Rightarrow> if is_done w t then V t k = Some Notified \<and> woken
                    else V t k = Some (Asleep i) \<and> t \<in> set (candidates w x))"

definition poll_spec ::
  "nat \<Rightarrow> ('o, 'v) scope_world \<Rightarrow> waiter \<Rightarrow> views \<Rightarrow> bool \<Rightarrow> waiter \<Rightarrow> views \<Rightarrow> bool" where
  "poll_spec i w x V r y V' \<longleftrightarrow>
    (r \<longleftrightarrow> waited_for w x) \<and>
    (if r then V' = forget x V
     else settled y \<and> subject y = subject x \<and>
       (\<exists>c k. held y = Some (c, k) \<and> c \<in> set (candidates w x) \<and> \<not> is_done w c \<and> forget x V c k = None \<and>
         V' = hold i c k (forget x V)))"

lemma wait_all_fresh:
  assumes ok: "wait_env_ok env view" and V: "V = (\<lambda>t. view (N t))"
  shows "\<exists>r a N'. wait_all_poll env i (is_done w) cs AwStart N = Some (r, a, N') \<and>
    (r \<longleftrightarrow> (\<forall>c \<in> set cs. is_done w c)) \<and>
    (if r then (\<lambda>t. view (N' t)) = V
     else \<exists>c k. a = AwChild c (DwNotified k) \<and> c \<in> set cs \<and> \<not> is_done w c \<and> V c k = None \<and>
       (\<lambda>t. view (N' t)) = hold i c k V)"
proof (cases "find (\<lambda>c. \<not> is_done w c) cs")
  case None
  then have "\<forall>c \<in> set cs. is_done w c" by (simp add: find_None_iff)
  moreover have "wait_all_poll env i (is_done w) cs AwStart N = Some (True, AwStart, N)"
    by (subst wait_all_poll.simps) (simp add: None)
  ultimately show ?thesis using V by auto
next
  case (Some c)
  then have c: "c \<in> set cs" "\<not> is_done w c" by (auto simp: find_Some_iff)
  obtain k n' where n': "wait_done_poll env i False DwStart (N c) = Some (False, DwNotified k, n')"
    "view (N c) k = None" "view n' = (view (N c))(k := Some (Asleep i))"
    using wait_done_fresh(2) [OF ok, of i "N c"] by blast
  have "wait_all_poll env i (is_done w) cs AwStart N = wait_all_poll env i (is_done w) cs (AwChild c DwStart) N"
    by (subst wait_all_poll.simps) (simp add: Some)
  also have "\<dots> = Some (False, AwChild c (DwNotified k), N(c := n'))"
    using c(2) by (subst wait_all_poll.simps) (simp add: n'(1))
  finally show ?thesis using c n'(2,3) V by (auto simp: hold_def views_upd)
qed
lemma wait_all_from_start:
  assumes ok: "wait_env_ok env view" and V: "forget (WaitAll s b) V = (\<lambda>t. view (N t))"
  shows "\<exists>r a N'. wait_all_poll env i (is_done w) (sc_children (sw_scope w s)) AwStart N = Some (r, a, N') \<and>
    poll_spec i w (WaitAll s b) V r (WaitAll s a) (\<lambda>t. view (N' t))"
proof -
  obtain r a N' where p: "wait_all_poll env i (is_done w) (sc_children (sw_scope w s)) AwStart N = Some (r, a, N')"
    and r: "r \<longleftrightarrow> (\<forall>c \<in> set (sc_children (sw_scope w s)). is_done w c)"
    and e: "if r then (\<lambda>t. view (N' t)) = forget (WaitAll s b) V
      else \<exists>c k. a = AwChild c (DwNotified k) \<and> c \<in> set (sc_children (sw_scope w s)) \<and> \<not> is_done w c \<and>
        forget (WaitAll s b) V c k = None \<and> (\<lambda>t. view (N' t)) = hold i c k (forget (WaitAll s b) V)"
    using wait_all_fresh [OF ok V, of i w "sc_children (sw_scope w s)"] by blast
  have "poll_spec i w (WaitAll s b) V r (WaitAll s a) (\<lambda>t. view (N' t))"
  proof (cases r)
    case False
    then obtain c k where "a = AwChild c (DwNotified k)" "c \<in> set (sc_children (sw_scope w s))" "\<not> is_done w c"
      "forget (WaitAll s b) V c k = None" "(\<lambda>t. view (N' t)) = hold i c k (forget (WaitAll s b) V)"
      using e by auto
    then show ?thesis using False r unfolding poll_spec_def waited_for_iff by auto
  qed (use r e in \<open>simp add: poll_spec_def waited_for_iff\<close>)
  with p show ?thesis by blast
qed

lemma wait_all_held:
  assumes ok: "wait_env_ok env view" and V: "V = (\<lambda>t. view (N t))"
    and inv: "wait_inv i w V woken (WaitAll s (AwChild c (DwNotified k)))" (is "wait_inv i w V woken ?x")
  shows "\<exists>r a N'. wait_all_poll env i (is_done w) (sc_children (sw_scope w s)) (AwChild c (DwNotified k)) N = Some (r, a, N') \<and>
    poll_spec i w ?x V r (WaitAll s a) (\<lambda>t. view (N' t))"
proof (cases "is_done w c")
  case True
  then have "view (N c) k = Some Notified" using inv V by (simp add: wait_inv_def)
  then obtain n' where n': "wait_done_poll env i True (DwNotified k) (N c) = Some (True, DwStart, n')"
    "view n' = (view (N c))(k := None)"
    using wait_done_spec(1) [OF ok, where dn = True and n = "N c" and d = "DwNotified k"] by auto
  have "wait_all_poll env i (is_done w) (sc_children (sw_scope w s)) (AwChild c (DwNotified k)) N =
      wait_all_poll env i (is_done w) (sc_children (sw_scope w s)) AwStart (N(c := n'))"
    using True by (subst wait_all_poll.simps) (simp add: n'(1))
  moreover have "(\<lambda>t. view ((N(c := n')) t)) = forget ?x V"
    by (simp add: forget_def V views_upd n'(2) del: fun_upd_apply)
  ultimately show ?thesis using wait_all_from_start [OF ok, of s _ V "N(c := n')" i w] by metis
next
  case False
  then have k: "view (N c) k = Some (Asleep i)" "c \<in> set (sc_children (sw_scope w s))" using inv V by (simp_all add: wait_inv_def)
  then obtain n' where n': "wait_done_poll env i False (DwNotified k) (N c) = Some (False, DwNotified k, n')"
    "view n' = (view (N c))(k := Some (Asleep i))"
    using wait_done_asleep [OF ok, of "N c" k "Asleep i" i False] by auto
  have "wait_all_poll env i (is_done w) (sc_children (sw_scope w s)) (AwChild c (DwNotified k)) N =
      Some (False, AwChild c (DwNotified k), N(c := n'))"
    using False by (subst wait_all_poll.simps) (simp add: n'(1))
  moreover have "poll_spec i w ?x V False (WaitAll s (AwChild c (DwNotified k))) (\<lambda>t. view ((N(c := n')) t))"
  proof -
    have "hold i c k (forget ?x V) = (\<lambda>t. view ((N(c := n')) t))"
      by (simp add: forget_def hold_def V n'(2) fun_eq_iff)
    then show ?thesis using False k(2) unfolding poll_spec_def waited_for_iff by (auto simp: forget_def)
  qed
  ultimately show ?thesis by blast
qed
lemma task_wait_spec:
  assumes ok: "wait_env_ok env view" and V: "V = (\<lambda>t. view (N t))" and inv: "wait_inv i w V woken (WaitTask t d)"
  shows "\<exists>r d' n. task_wait_poll env i (is_done w t) d (N t) = Some (r, d', n) \<and>
    poll_spec i w (WaitTask t d) V r (WaitTask t d') (\<lambda>x. view ((N(t := n)) x))"
proof (cases "is_done w t")
  case True
  have "(\<lambda>x. view ((N(t := case d of None \<Rightarrow> N t | Some d1 \<Rightarrow> wait_done_drop env d1 (N t))) x)) = forget (WaitTask t d) V"
    by (auto simp: forget_def wait_done_drop_def V wait_env_okD(6) [OF ok] fun_eq_iff split: option.split done_wait.split)
  then have "poll_spec i w (WaitTask t d) V True (WaitTask t None)
      (\<lambda>x. view ((N(t := case d of None \<Rightarrow> N t | Some d1 \<Rightarrow> wait_done_drop env d1 (N t))) x))"
    using True by (simp add: poll_spec_def waited_for_iff)
  then show ?thesis using True unfolding task_wait_poll_def by simp blast
next
  case False
  let ?d = "case d of None \<Rightarrow> DwStart | Some d1 \<Rightarrow> d1"
  have "dw_ok False (view (N t)) ?d" and f: "forget (WaitTask t d) V = V(t := dw_forget ?d (view (N t)))"
  proof -
    show "dw_ok False (view (N t)) ?d"
      using inv False V by (cases d; cases "the d") (auto simp: wait_inv_def)
    show "forget (WaitTask t d) V = V(t := dw_forget ?d (view (N t)))"
      using V by (cases d; cases "the d") (auto simp: forget_def fun_eq_iff)
  qed
  then obtain k n' where n': "wait_done_poll env i False ?d (N t) = Some (False, DwNotified k, n')"
    "dw_forget ?d (view (N t)) k = None" "view n' = (dw_forget ?d (view (N t)))(k := Some (Asleep i))"
    using wait_done_spec(2) [OF ok, where dn = False] by blast
  have "(\<lambda>x. view ((N(t := n')) x)) = hold i t k (forget (WaitTask t d) V)"
    unfolding f hold_def n'(3)[symmetric] by (simp add: V n'(3) fun_eq_iff)
  moreover have "forget (WaitTask t d) V t k = None" using n'(2) by (simp add: f)
  ultimately have "poll_spec i w (WaitTask t d) V False (WaitTask t (Some (DwNotified k))) (\<lambda>x. view ((N(t := n')) x))"
    using False unfolding poll_spec_def waited_for_iff by auto
  moreover have "task_wait_poll env i (is_done w t) d (N t) = Some (False, Some (DwNotified k), n')"
    using False n'(1) by (simp add: task_wait_poll_def)
  ultimately show ?thesis by blast
qed

text \<open>Every poll returns, and does what it should.\<close>

lemma waiter_poll_spec:
  assumes ok: "wait_env_ok env view" and V: "V = (\<lambda>t. view (N t))" and inv: "wait_inv i w V woken x"
  shows "\<exists>r y N'. waiter_poll env i w x N = Some (r, y, N') \<and> poll_spec i w x V r y (\<lambda>t. view (N' t))"
proof (cases x)
  case (WaitAll s a)
  have "\<exists>r b N'. wait_all_poll env i (is_done w) (sc_children (sw_scope w s)) a N = Some (r, b, N') \<and>
      poll_spec i w x V r (WaitAll s b) (\<lambda>t. view (N' t))"
  proof (cases a)
    case AwStart
    then show ?thesis using wait_all_from_start [OF ok, of s AwStart V N i w] V WaitAll by (simp add: forget_none)
  next
    case (AwChild c d)
    then obtain k where "d = DwNotified k" using inv WaitAll by (cases d) (auto simp: wait_inv_def)
    then show ?thesis using wait_all_held [OF ok V, of i w woken s c k] inv WaitAll AwChild by simp
  qed
  then show ?thesis using WaitAll by auto
next
  case (WaitTask t d)
  then show ?thesis using task_wait_spec [OF ok V, of i w woken t d] inv by auto
qed

lemma waiter_drop_view:
  assumes "wait_env_ok env view"
  shows "(\<lambda>t. view (waiter_drop env x N t)) = forget x (\<lambda>t. view (N t))"
  by (cases "(env, x, N)" rule: waiter_drop.cases)
    (auto simp: forget_def wait_done_drop_def wait_env_okD(6) [OF assms] fun_eq_iff split: done_wait.split option.split)
section \<open>The invariant of all waits\<close>

definition sys_views :: "('n \<Rightarrow> nat \<Rightarrow> wait_view option) \<Rightarrow> ('o, 'v, 'n) wait_sys \<Rightarrow> views" where
  "sys_views view S = (\<lambda>t. view (ws_notify S t))"

fun target_ok :: "('o, 'v) scope_world \<Rightarrow> waiter \<Rightarrow> bool" where
  "target_ok w (WaitAll s a) \<longleftrightarrow> s < sw_fresh w \<and> (case a of AwStart \<Rightarrow> True | AwChild c d \<Rightarrow> c < sw_fresh w)"
| "target_ok w (WaitTask t d) \<longleftrightarrow> t < sw_fresh w"

definition waits_ok :: "('n \<Rightarrow> nat \<Rightarrow> wait_view option) \<Rightarrow> ('o, 'v, 'n) wait_sys \<Rightarrow> bool" where
  "waits_ok view S \<longleftrightarrow> below (ws_world S) \<and>
    (\<forall>i x. ws_waiter S i = Some x \<longrightarrow>
      target_ok (ws_world S) x \<and> wait_inv i (ws_world S) (sys_views view S) (ws_woken S i) x) \<and>
    (\<forall>i j x y. ws_waiter S i = Some x \<longrightarrow> ws_waiter S j = Some y \<longrightarrow> held x \<noteq> None \<longrightarrow> held x = held y \<longrightarrow> i = j)"

lemma sys_views_upd [simp]:
  "sys_views view (S\<lparr>ws_world := w\<rparr>) = sys_views view S" "sys_views view (S\<lparr>ws_waiter := f\<rparr>) = sys_views view S"
  "sys_views view (S\<lparr>ws_woken := g\<rparr>) = sys_views view S"
  by (simp_all add: sys_views_def)

lemma waits_okD:
  assumes "waits_ok view S"
  shows "below (ws_world S)"
    and "ws_waiter S i = Some x \<Longrightarrow> target_ok (ws_world S) x"
    and "ws_waiter S i = Some x \<Longrightarrow> wait_inv i (ws_world S) (sys_views view S) (ws_woken S i) x"
    and "ws_waiter S i = Some x \<Longrightarrow> ws_waiter S j = Some y \<Longrightarrow> held x \<noteq> None \<Longrightarrow> held x = held y \<Longrightarrow> i = j"
  using assms unfolding waits_ok_def by blast+

lemma waits_okI:
  assumes "below (ws_world S)"
    and "\<And>i x. ws_waiter S i = Some x \<Longrightarrow> target_ok (ws_world S) x"
    and "\<And>i x. ws_waiter S i = Some x \<Longrightarrow> wait_inv i (ws_world S) (sys_views view S) (ws_woken S i) x"
    and "\<And>i j x y. ws_waiter S i = Some x \<Longrightarrow> ws_waiter S j = Some y \<Longrightarrow> held x \<noteq> None \<Longrightarrow> held x = held y \<Longrightarrow> i = j"
  shows "waits_ok view S"
  using assms unfolding waits_ok_def by blast

lemma target_subject:
  assumes "target_ok w x" and "subject y = subject x" and "held y = Some (c, k)" and "c < sw_fresh w"
  shows "target_ok w y"
  using assms by (cases x; cases y rule: held.cases) auto

lemma held_below: "target_ok w x \<Longrightarrow> held x = Some (t, k) \<Longrightarrow> t < sw_fresh w"
  by (cases x rule: held.cases) auto

text \<open>A wait that holds a future holds it in its task's \<^verbatim>\<open>Notify\<close>.\<close>

lemma held_view:
  assumes "wait_inv i w V woken x" and "held x = Some (t, k)"
  shows "V t k \<noteq> None"
  using assms by (auto simp: wait_inv_def split: if_splits)

lemma wait_inv_views:
  assumes "wait_inv i w V woken x" and "\<And>t k. held x = Some (t, k) \<Longrightarrow> V' t k = V t k"
  shows "wait_inv i w V' woken x"
  using assms by (auto simp: wait_inv_def split: option.splits if_splits)

text \<open>The notifications of the tasks that finished.\<close>

lemma notify_tasks:
  fixes S :: "('o, 'v, 'n) wait_sys"
  assumes ok: "wait_env_ok env view"
  shows "ws_world (fold (notify_task env) ts S) = ws_world S"
    and "ws_waiter (fold (notify_task env) ts S) = ws_waiter S"
    and "sys_views view (fold (notify_task env) ts S) =
      (\<lambda>t k. if t \<in> set ts then map_option (\<lambda>_. Notified) (sys_views view S t k) else sys_views view S t k)"
    and "ws_woken S i \<or> (\<exists>t \<in> set ts. \<exists>k. sys_views view S t k = Some (Asleep i)) \<Longrightarrow>
      ws_woken (fold (notify_task env) ts S) i"
proof (induction ts arbitrary: S)
  case (Cons t ts)
  have v: "sys_views view (notify_task env t S) = (sys_views view S)(t := \<lambda>k. map_option (\<lambda>_. Notified) (sys_views view S t k))"
    for S :: "('o, 'v, 'n) wait_sys"
    using wait_env_okD(8) [OF ok, of "ws_notify S t"] by (simp add: notify_task_def sys_views_def split_beta fun_eq_iff)
  have wk: "ws_woken (notify_task env t S) i \<longleftrightarrow> ws_woken S i \<or> (\<exists>k. sys_views view S t k = Some (Asleep i))"
    for S :: "('o, 'v, 'n) wait_sys" and i
    using wait_env_okD(7) [OF ok, of "ws_notify S t"] by (simp add: notify_task_def sys_views_def split_beta)
  {
    case 1
    show ?case using Cons.IH(1) by (simp add: notify_task_def split_beta)
  next
    case 2
    show ?case using Cons.IH(2) by (simp add: notify_task_def split_beta)
  next
    case 3
    show ?case by (auto simp: Cons.IH(3) v fun_eq_iff option.map_comp comp_def)
  next
    case 4
    then have "ws_woken (notify_task env t S) i \<or>
        (\<exists>t' \<in> set ts. \<exists>k. sys_views view (notify_task env t S) t' k = Some (Asleep i))"
      by (auto simp: wk v)
    then show ?case using Cons.IH(4) by simp
  }
qed simp_all
section \<open>Every operation keeps it\<close>

lemma candidates_kept:
  assumes st: "steady w w'" and b: "below w" and x: "target_ok w x" and c: "c \<in> set (candidates w x)" "\<not> is_done w' c"
  shows "c \<in> set (candidates w' x)"
proof (cases x)
  case (WaitAll s a)
  then show ?thesis using steadyD(6) [OF st b, of s c] x c by simp
next
  case (WaitTask t d)
  then show ?thesis using c by simp
qed

lemma candidates_below: "below w \<Longrightarrow> target_ok w x \<Longrightarrow> c \<in> set (candidates w x) \<Longrightarrow> c < sw_fresh w"
  by (cases x) (auto intro: below_children)

lemma waits_ok_scope:
  assumes ok: "wait_env_ok env view" and S: "waits_ok view S"
  shows "waits_ok view (waits_exec env (ScopeOp op) S)"
proof -
  let ?w = "ws_world S" and ?w' = "scope_exec op (ws_world S)"
  have st: "steady ?w ?w'" by (rule steady.R_exec)
  note B = waits_okD(1) [OF S] and ST = steadyD [OF st waits_okD(1) [OF S]]
  let ?T = "fold (notify_task env) (news ?w ?w') (S\<lparr>ws_world := ?w'\<rparr>)"
  have T: "waits_exec env (ScopeOp op) S = ?T" by (simp add: waits_exec_def news_def Let_def)
  have f: "ws_world ?T = ?w'" "ws_waiter ?T = ws_waiter S"
    "sys_views view ?T = (\<lambda>t k. if t \<in> set (news ?w ?w') then map_option (\<lambda>_. Notified) (sys_views view S t k)
      else sys_views view S t k)"
    using notify_tasks(3) [OF ok, of "news ?w ?w'" "S\<lparr>ws_world := ?w'\<rparr>"]
    by (simp_all add: notify_tasks(1,2) [OF ok] cong: if_cong)
  have wk: "ws_woken S i \<or> (\<exists>t \<in> set (news ?w ?w'). \<exists>k. sys_views view S t k = Some (Asleep i)) \<Longrightarrow> ws_woken ?T i" for i
    using notify_tasks(4) [OF ok, of "S\<lparr>ws_world := ?w'\<rparr>" i "news ?w ?w'"] by simp
  have inv: "wait_inv i ?w' (sys_views view ?T) (ws_woken ?T i) x" if x: "ws_waiter S i = Some x" for i x
  proof (cases "held x")
    case None
    then show ?thesis using waits_okD(3) [OF S x] by (simp add: wait_inv_def)
  next
    case (Some tk)
    then obtain t k where h: "held x = Some (t, k)" by (cases tk) simp
    note I = waits_okD(3) [OF S x, unfolded wait_inv_def h, simplified]
    have t: "t < sw_fresh ?w" by (rule held_below [OF waits_okD(2) [OF S x] h])
    show ?thesis
    proof (cases "is_done ?w t")
      case True
      then show ?thesis using I ST(5) [OF t] wk [of i] by (auto simp: wait_inv_def h f)
    next
      case False
      then have a: "sys_views view S t k = Some (Asleep i)" "t \<in> set (candidates ?w x)" using I by simp_all
      show ?thesis
      proof (cases "is_done ?w' t")
        case True
        then have "t \<in> set (news ?w ?w')" using ST(5) [OF t] False by simp
        then show ?thesis using True I a wk [of i] by (auto simp: wait_inv_def h f)
      next
        case False
        then have "t \<notin> set (news ?w ?w')" using ST(4) by blast
        then show ?thesis using False I a candidates_kept [OF st B waits_okD(2) [OF S x] a(2) False]
          by (simp add: wait_inv_def h f)
      qed
    qed
  qed
  have "target_ok ?w' x" if "target_ok ?w x" for x using that ST(2) by (cases x) (auto split: all_wait.splits)
  then show ?thesis unfolding T
    using waits_okD(2,4) [OF S] ST(1) inv by (intro waits_okI) (auto simp: f)
qed

lemma forget_other:
  assumes "held x \<noteq> Some (t, k)"
  shows "forget x V t k = V t k"
  using assms by (auto simp: forget_def split: option.split)

lemma waits_ok_poll:
  assumes ok: "wait_env_ok env view" and S: "waits_ok view S"
  shows "waits_ok view (waits_exec env (PollWait i) S)"
proof (cases "ws_waiter S i")
  case (Some x)
  let ?w = "ws_world S" and ?V = "sys_views view S"
  obtain r y N where p: "waiter_poll env i ?w x (ws_notify S) = Some (r, y, N)"
    and spec: "poll_spec i ?w x ?V r y (\<lambda>t. view (N t))"
    using waiter_poll_spec [OF ok _ waits_okD(3) [OF S Some], of "ws_notify S"] by (auto simp: sys_views_def)
  let ?T = "S\<lparr>ws_notify := N, ws_waiter := (ws_waiter S)(i := if r then None else Some y), ws_woken := (ws_woken S)(i := False)\<rparr>"
  have T: "waits_exec env (PollWait i) S = ?T" by (simp add: waits_exec_def Some p)
  note spec = spec [folded sys_views_def [of view ?T, simplified]]
  have other: "sys_views view ?T t k = ?V t k" if j: "j \<noteq> i" "ws_waiter S j = Some z" "held z = Some (t, k)" for j z t k
  proof -
    have "held x \<noteq> Some (t, k)" using waits_okD(4) [OF S j(2) Some] j(1,3) by auto
    then have f: "forget x ?V t k = ?V t k" by (rule forget_other)
    have "?V t k \<noteq> None" using held_view [OF waits_okD(3) [OF S j(2)] j(3)] .
    then show ?thesis using spec f unfolding poll_spec_def by (auto simp: hold_def split: if_splits)
  qed
  have mine: "target_ok ?w y \<and> wait_inv i ?w (sys_views view ?T) False y \<and>
      (\<forall>j z. j \<noteq> i \<longrightarrow> ws_waiter S j = Some z \<longrightarrow> held z \<noteq> held y)" if r: "\<not> r"
  proof -
    obtain c k where y: "settled y" "subject y = subject x" "held y = Some (c, k)"
      "c \<in> set (candidates ?w x)" "\<not> is_done ?w c" "forget x ?V c k = None"
      "sys_views view ?T = hold i c k (forget x ?V)"
      using spec r unfolding poll_spec_def by auto
    have c: "c < sw_fresh ?w" by (rule candidates_below [OF waits_okD(1,2) [OF S] y(4)]) (rule Some)
    have "held z \<noteq> held y" if z: "j \<noteq> i" "ws_waiter S j = Some z" for j z
    proof
      assume e: "held z = held y"
      then have "held x \<noteq> Some (c, k)" using waits_okD(4) [OF S z(2) Some] z(1) y(3) by auto
      then have "?V c k = None" using forget_other [of x c k ?V] y(6) by simp
      then show False using held_view [OF waits_okD(3) [OF S z(2)], of c k] e y(3) by simp
    qed
    moreover have "target_ok ?w y" by (rule target_subject [OF waits_okD(2) [OF S Some] y(2,3) c])
    ultimately show ?thesis using y by (simp add: wait_inv_def hold_def subject_candidates [OF y(2)])
  qed
  show ?thesis unfolding T
  proof (rule waits_okI)
    show "below (ws_world ?T)" using waits_okD(1) [OF S] by simp
    fix j z assume z: "ws_waiter ?T j = Some z"
    show "target_ok (ws_world ?T) z" using z mine waits_okD(2) [OF S] by (auto split: if_splits)
    show "wait_inv j (ws_world ?T) (sys_views view ?T) (ws_woken ?T j) z"
    proof (cases "j = i")
      case True
      then show ?thesis using z mine by (auto split: if_splits)
    next
      case False
      then have "ws_waiter S j = Some z" using z by simp
      from wait_inv_views [OF waits_okD(3) [OF S this] other [OF False this]] show ?thesis using False by simp
    qed
  next
    fix j l z u
    assume "ws_waiter ?T j = Some z" "ws_waiter ?T l = Some u" "held z \<noteq> None" "held z = held u"
    then show "j = l" using mine waits_okD(4) [OF S] by (auto split: if_splits)
  qed
qed (use S in \<open>simp add: waits_exec_def\<close>)
lemma waits_ok_drop:
  assumes ok: "wait_env_ok env view" and S: "waits_ok view S"
  shows "waits_ok view (waits_exec env (DropWait i) S)"
proof (cases "ws_waiter S i")
  case (Some x)
  let ?T = "S\<lparr>ws_notify := waiter_drop env x (ws_notify S), ws_waiter := (ws_waiter S)(i := None)\<rparr>"
  have T: "waits_exec env (DropWait i) S = ?T" by (simp add: waits_exec_def Some)
  have V: "sys_views view ?T = forget x (sys_views view S)"
    using waiter_drop_view [OF ok, of x "ws_notify S"] by (simp add: sys_views_def)
  have "wait_inv j (ws_world S) (sys_views view ?T) (ws_woken S j) z" if z: "ws_waiter S j = Some z" "j \<noteq> i" for j z
  proof (rule wait_inv_views [OF waits_okD(3) [OF S z(1)]])
    fix t k assume "held z = Some (t, k)"
    then have "held x \<noteq> Some (t, k)" using waits_okD(4) [OF S z(1) Some] z(2) by auto
    then show "sys_views view ?T t k = sys_views view S t k" unfolding V by (rule forget_other)
  qed
  then show ?thesis unfolding T using waits_okD [OF S] by (intro waits_okI) (auto split: if_splits)
qed (use S in \<open>simp add: waits_exec_def\<close>)

lemma waits_ok_new:
  assumes S: "waits_ok view S" and x: "target_ok (ws_world S) x" "held x = None" "settled x"
  shows "waits_ok view (S\<lparr>ws_waiter := (ws_waiter S)(i := Some x), ws_woken := (ws_woken S)(i := False)\<rparr>)"
proof -
  have "wait_inv i (ws_world S) (sys_views view S) False x" using x by (simp add: wait_inv_def)
  then show ?thesis using waits_okD [OF S] x by (intro waits_okI) (auto split: if_splits)
qed

lemma waits_ok_exec:
  assumes ok: "wait_env_ok env view" and S: "waits_ok view S"
  shows "waits_ok view (waits_exec env op S)"
proof (cases op)
  case (AwaitScope i s)
  show ?thesis
  proof (cases "ws_waiter S i \<noteq> None \<or> sw_fut (ws_world S) s = None")
    case False
    then have "s < sw_fresh (ws_world S)" using below_fut [OF waits_okD(1) [OF S]] by blast
    then have "waits_ok view (S\<lparr>ws_waiter := (ws_waiter S)(i := Some (WaitAll s AwStart)), ws_woken := (ws_woken S)(i := False)\<rparr>)"
      by (intro waits_ok_new [OF S]) simp_all
    then show ?thesis using False by (auto simp: AwaitScope waits_exec_def)
  qed (use S AwaitScope in \<open>auto simp: waits_exec_def\<close>)
next
  case (AwaitTask i t)
  show ?thesis
  proof (cases "ws_waiter S i \<noteq> None \<or> sw_fresh (ws_world S) \<le> t")
    case False
    then have "waits_ok view (S\<lparr>ws_waiter := (ws_waiter S)(i := Some (WaitTask t None)), ws_woken := (ws_woken S)(i := False)\<rparr>)"
      by (intro waits_ok_new [OF S]) simp_all
    then show ?thesis using False by (simp add: AwaitTask waits_exec_def)
  qed (use S AwaitTask in \<open>auto simp: waits_exec_def\<close>)
qed (use waits_ok_scope [OF ok S] waits_ok_poll [OF ok S] waits_ok_drop [OF ok S] in simp_all)

lemma waits_ok_init: "waits_ok view (waits_init h n)"
  by (simp add: waits_ok_def waits_init_def world_init_def below_def scope_new_def)

interpretation waits_machine: machine "waits_exec env" "\<lambda>S. wait_env_ok env view \<longrightarrow> waits_ok view S" for env view
  by unfold_locales (simp add: waits_ok_exec)

section \<open>No wait sleeps past its end\<close>

text \<open>C12: After any history, a poll of a wait for tasks (\<^verbatim>\<open>wait_all\<close> of a scope, or the wait of a task handle) returns,
  and is ready exactly when the scope model says so; and a wait that is asleep and was not woken since its last poll
  has an unfinished task to wait for.
\<close>

theorem waits_are_exact:
  assumes "wait_env_ok env view" and "S = waits_run env ops (waits_init h n)" and "ws_waiter S i = Some x"
  shows "\<exists>r y N. waiter_poll env i (ws_world S) x (ws_notify S) = Some (r, y, N) \<and>
    (r \<longleftrightarrow> waited_for (ws_world S) x) \<and>
    (held x = None \<or> ws_woken S i \<or> \<not> waited_for (ws_world S) x)"
proof -
  have "wait_env_ok env view \<longrightarrow> waits_ok view S"
    unfolding assms(2) waits_run_def by (rule waits_machine.ok_run) (simp add: waits_ok_init)
  then have S: "waits_ok view S" using assms(1) by blast
  note I = waits_okD(3) [OF S assms(3)]
  obtain r y N where "waiter_poll env i (ws_world S) x (ws_notify S) = Some (r, y, N)"
    and "poll_spec i (ws_world S) x (sys_views view S) r y (\<lambda>t. view (N t))"
    using waiter_poll_spec [OF assms(1) sys_views_def I] by blast
  moreover have "held x = None \<or> ws_woken S i \<or> \<not> waited_for (ws_world S) x"
    using I by (auto simp: wait_inv_def waited_for_iff split: option.splits if_splits)
  ultimately show ?thesis unfolding poll_spec_def by blast
qed

text \<open>A \<^verbatim>\<open>Notify\<close> as a list of its futures, numbered from 0.\<close>

definition list_view :: "nat \<times> (nat \<times> wait_view) list \<Rightarrow> nat \<Rightarrow> wait_view option" where
  "list_view n k = (if k < fst n then map_of (snd n) k else None)"

definition list_env :: "(nat \<times> (nat \<times> wait_view) list) wait_env" where
  "list_env =
    \<lparr>wn_new = (\<lambda>(m, xs). (m, Suc m, (m, NotPolled) # xs)),
     wn_enable = (\<lambda>k n. (list_view n k = Some Notified, n)),
     wn_poll = (\<lambda>wk k n. if list_view n k = Some Notified then (True, n) else (False, fst n, (k, Asleep wk) # snd n)),
     wn_drop = (\<lambda>k (m, xs). (m, filter (\<lambda>p. fst p \<noteq> k) xs)),
     wn_all = (\<lambda>(m, xs).
       (concat (map (\<lambda>k. case map_of xs k of Some (Asleep wk) \<Rightarrow> [wk] | _ \<Rightarrow> []) [0..<m]), m, map (\<lambda>p. (fst p, Notified)) xs))\<rparr>"

lemma list_env_ok: "wait_env_ok list_env list_view"
proof -
  have drop: "map_of (filter (\<lambda>p. fst p \<noteq> k) xs) = (map_of xs)(k := None)" for k and xs :: "(nat \<times> wait_view) list"
    by (induction xs) (auto simp: fun_eq_iff)
  have all: "map_of (map (\<lambda>p. (fst p, Notified)) xs) k = map_option (\<lambda>_. Notified) (map_of xs k)"
    for k and xs :: "(nat \<times> wait_view) list"
    by (induction xs) auto
  have wakers: "set (case r of Some (Asleep wk) \<Rightarrow> [wk] | _ \<Rightarrow> []) = {wk. r = Some (Asleep wk)}" for r
    by (cases r; cases "the r") auto
  show ?thesis unfolding wait_env_ok_def
  proof (intro conjI allI impI)
    fix n :: "nat \<times> (nat \<times> wait_view) list" and k wk st
    show "list_view n (fst (wn_new list_env n)) = None"
      by (cases n) (simp add: list_env_def list_view_def)
    show "list_view (snd (wn_new list_env n)) = (list_view n)(fst (wn_new list_env n) := Some NotPolled)"
      by (cases n) (auto simp: list_env_def list_view_def fun_eq_iff)
    show "list_view (snd (wn_enable list_env k n)) = list_view n"
      by (simp add: list_env_def)
    show "list_view (wn_drop list_env k n) = (list_view n)(k := None)"
      by (cases n) (auto simp: list_env_def list_view_def fun_eq_iff drop)
    show "set (fst (wn_all list_env n)) = {wk. \<exists>k. list_view n k = Some (Asleep wk)}"
    proof -
      obtain m xs where n: "n = (m, xs)" by (cases n)
      have "set (fst (wn_all list_env n)) = (\<Union>k < m. {wk. map_of xs k = Some (Asleep wk)})"
        by (simp add: list_env_def n wakers atLeast0LessThan)
      also have "\<dots> = {wk. \<exists>k. list_view n k = Some (Asleep wk)}"
        by (auto simp: list_view_def n split: if_splits)
      finally show ?thesis .
    qed
    show "list_view (snd (wn_all list_env n)) = (\<lambda>k. map_option (\<lambda>_. Notified) (list_view n k))"
      by (cases n) (auto simp: list_env_def list_view_def fun_eq_iff all)
    assume st: "list_view n k = Some st"
    then have "k < fst n" by (auto simp: list_view_def split: if_splits)
    then show "list_view (snd (wn_poll list_env wk k n)) = (if st = Notified then list_view n else (list_view n)(k := Some (Asleep wk)))"
      using st by (auto simp: list_env_def list_view_def fun_eq_iff)
    show "fst (wn_poll list_env wk k n) = (st = Notified)" using st by (auto simp: list_env_def)
  qed
qed

text \<open>A request with a task; both are awaited, polled to sleep, and the task ends.\<close>

definition wait_demo :: "(unit, unit) waits_op list" where
  "wait_demo =
    [ScopeOp (Request 0 5), ScopeOp (Act (Spawn 0 5 (\<lambda>out _. out))), AwaitScope 0 0, AwaitTask 1 1, PollWait 0, PollWait 1]"

lemma wait_demo_runs:
  "ws_waiter (waits_run list_env wait_demo (waits_init (snd (token_new None heap_init)) (0, []))) 0 =
    Some (WaitAll 0 (AwChild 1 (DwNotified 0)))"
  "ws_woken (waits_run list_env wait_demo (waits_init (snd (token_new None heap_init)) (0, []))) 0 = False"
  by code_simp+

theorem waits_are_exact_witness:
  "let S = waits_run list_env wait_demo (waits_init (snd (token_new None heap_init)) (0, []));
       x = WaitAll 0 (AwChild 1 (DwNotified 0))
   in (\<exists>y N. waiter_poll list_env 0 (ws_world S) x (ws_notify S) = Some (False, y, N)) \<and> \<not> waited_for (ws_world S) x"
  using waits_are_exact [OF list_env_ok refl wait_demo_runs(1)] wait_demo_runs(2)
  unfolding Let_def by auto

end
