(* ===== verification/Isle_Pool.thy ===== *)
theory Isle_Pool
  imports Isle_Error
begin

text \<open>
  The two pools of Lua VMs: \<^verbatim>\<open>src/pool.rs\<close> (threads that block) and \<^verbatim>\<open>src/async_pool.rs\<close>
  (futures that wait).  Both have the same inner state, \<^verbatim>\<open>PoolInner\<close>; an isle (a slot) is a
  number.  \<open>pl_shut\<close> and \<open>pl_signals\<close> record the effects: the isles that were shut down and the
  notifications sent to waiting checkouts.  Whether an isle's thread is alive (\<^verbatim>\<open>is_alive\<close>) is the
  argument \<open>alive\<close> of the operations that ask; what the factory makes is the argument of the
  operations that finish a spawn.

  An operation here is one critical section of the pool's mutex.  A checkout that has to spawn
  gives the lock up in between: \<open>SpawnNeeded\<close> ends its first section, and \<open>dec_active\<close> is the
  section it enters when the spawn failed.
\<close>

section \<open>Data\<close>

datatype strategy = Cold | Warm

datatype signal = NotifyOne | NotifyAll

record pool =
  pl_idle :: "nat list"
  pl_active :: nat
  pl_closed :: bool
  pl_poisoned :: bool
  pl_max :: nat
  pl_strategy :: strategy
  pl_shut :: "nat list"
  pl_signals :: "signal list"

datatype acquired = Acquired nat | SpawnNeeded | NeedWait

text \<open>\<^verbatim>\<open>IslePool::new\<close>, \<^verbatim>\<open>AsyncIslePool::new\<close>.\<close>

definition pool_new :: "nat \<Rightarrow> strategy \<Rightarrow> isle_error + pool" where
  "pool_new max_size strat =
    (if max_size = 0 then Inl (Init (failure_new KExternal ''max_size must be > 0''))
     else Inr \<lparr>pl_idle = [], pl_active = 0, pl_closed = False, pl_poisoned = False, pl_max = max_size,
               pl_strategy = strat, pl_shut = [], pl_signals = []\<rparr>)"

section \<open>What both pools do under the lock\<close>

definition signal_pool :: "signal \<Rightarrow> pool \<Rightarrow> pool" where
  "signal_pool x p = p\<lparr>pl_signals := pl_signals p @ [x]\<rparr>"

definition shut_isle :: "nat \<Rightarrow> pool \<Rightarrow> pool" where
  "shut_isle i p = p\<lparr>pl_shut := pl_shut p @ [i]\<rparr>"

definition poison_error :: isle_error where
  "poison_error = PoolPoisoned ''poisoned lock: another task failed inside''"

definition lock_inner :: "pool \<Rightarrow> isle_error + unit" where
  "lock_inner p = (if pl_poisoned p then Inl poison_error else Inr ())"

text \<open>\<^verbatim>\<open>take_alive_isle\<close>, \<^verbatim>\<open>take_alive_slot\<close>: \<^verbatim>\<open>Vec::pop\<close> takes the last one; dead ones are dropped.\<close>

function take_alive :: "(nat \<Rightarrow> bool) \<Rightarrow> nat list \<Rightarrow> nat option \<times> nat list" where
  "take_alive alive idle =
    (if idle = [] then (None, [])
     else if alive (last idle) then (Some (last idle), butlast idle)
     else take_alive alive (butlast idle))"
  by pat_completeness auto
termination
  by (relation "measure (\<lambda>(alive, idle). length idle)") auto

declare take_alive.simps [simp del]

definition can_grow :: "pool \<Rightarrow> bool" where
  "can_grow p \<longleftrightarrow> pl_active p + length (pl_idle p) < pl_max p"

definition dec_active :: "pool \<Rightarrow> pool" where
  "dec_active p = signal_pool NotifyOne (p\<lparr>pl_active := pl_active p - 1\<rparr>)"

section \<open>The blocking pool\<close>

text \<open>\<^verbatim>\<open>IslePool::try_acquire\<close>, to the end of its critical section.\<close>

definition try_acquire :: "(nat \<Rightarrow> bool) \<Rightarrow> pool \<Rightarrow> acquired \<times> pool" where
  "try_acquire alive p =
    (case take_alive alive (pl_idle p) of
       (Some i, rest) \<Rightarrow> (Acquired i, p\<lparr>pl_idle := rest, pl_active := Suc (pl_active p)\<rparr>)
     | (None, rest) \<Rightarrow>
         let p1 = p\<lparr>pl_idle := rest\<rparr>
         in if can_grow p1 then (SpawnNeeded, p1\<lparr>pl_active := Suc (pl_active p1)\<rparr>)
            else (NeedWait, p1))"

text \<open>One round of \<^verbatim>\<open>checkout\<close> and \<^verbatim>\<open>checkout_timeout\<close>, and \<^verbatim>\<open>try_checkout\<close>: lock, look whether the pool
  is closed, try to acquire.\<close>

definition checkout_round :: "(nat \<Rightarrow> bool) \<Rightarrow> pool \<Rightarrow> (isle_error + acquired) \<times> pool" where
  "checkout_round alive p =
    (case lock_inner p of
       Inl e \<Rightarrow> (Inl e, p)
     | Inr _ \<Rightarrow>
         if pl_closed p then (Inl Shutdown, p)
         else let (a, p') = try_acquire alive p in (Inr a, p'))"

text \<open>The end of a checkout round, given what the factory makes if a spawn is needed; \<open>None\<close> when
  there is nothing to check out.\<close>

definition try_checkout ::
  "(nat \<Rightarrow> bool) \<Rightarrow> isle_error + nat \<Rightarrow> pool \<Rightarrow> (isle_error + nat option) \<times> pool" where
  "try_checkout alive spawned p =
    (case checkout_round alive p of
       (Inl e, p1) \<Rightarrow> (Inl e, p1)
     | (Inr (Acquired i), p1) \<Rightarrow> (Inr (Some i), p1)
     | (Inr SpawnNeeded, p1) \<Rightarrow>
         (case spawned of Inr i \<Rightarrow> (Inr (Some i), p1) | Inl e \<Rightarrow> (Inl e, dec_active p1))
     | (Inr NeedWait, p1) \<Rightarrow> (Inr None, p1))"

text \<open>The round of \<^verbatim>\<open>checkout_timeout\<close> that finds its deadline passed.\<close>

definition checkout_expired ::
  "(nat \<Rightarrow> bool) \<Rightarrow> isle_error + nat \<Rightarrow> pool \<Rightarrow> (isle_error + nat) \<times> pool" where
  "checkout_expired alive spawned p =
    (case try_checkout alive spawned p of
       (Inl e, p1) \<Rightarrow> (Inl e, p1)
     | (Inr (Some i), p1) \<Rightarrow> (Inr i, p1)
     | (Inr None, p1) \<Rightarrow> (Inl (PoolExhausted (pl_max p1)), p1))"

text \<open>\<^verbatim>\<open>return_isle\<close>, \<^verbatim>\<open>discard_isle\<close> and the drop of the guard \<^verbatim>\<open>PooledIsle\<close>.\<close>

definition return_isle :: "(nat \<Rightarrow> bool) \<Rightarrow> nat \<Rightarrow> pool \<Rightarrow> pool" where
  "return_isle alive i p =
    (let p1 = p\<lparr>pl_active := pl_active p - 1\<rparr>
     in signal_pool NotifyOne
          (if pl_closed p1 then shut_isle i p1
           else case pl_strategy p1 of
             Cold \<Rightarrow> shut_isle i p1
           | Warm \<Rightarrow> if alive i then p1\<lparr>pl_idle := pl_idle p1 @ [i]\<rparr> else p1))"

definition discard_isle :: "nat \<Rightarrow> pool \<Rightarrow> pool" where
  "discard_isle i p =
    (let p1 = shut_isle i p
     in signal_pool NotifyOne (p1\<lparr>pl_active := pl_active p1 - 1\<rparr>))"

definition guard_drop :: "(nat \<Rightarrow> bool) \<Rightarrow> bool \<Rightarrow> nat \<Rightarrow> pool \<Rightarrow> pool" where
  "guard_drop alive killed i p = (if killed then discard_isle i p else return_isle alive i p)"

text \<open>\<^verbatim>\<open>IslePool::shutdown\<close>, \<^verbatim>\<open>active\<close>, \<^verbatim>\<open>idle\<close>.\<close>

definition pool_shutdown :: "pool \<Rightarrow> pool" where
  "pool_shutdown p =
    signal_pool NotifyAll (p\<lparr>pl_closed := True, pl_idle := [], pl_shut := pl_shut p @ pl_idle p\<rparr>)"

definition active_count :: "pool \<Rightarrow> nat" where
  "active_count p = (if pl_poisoned p then 0 else pl_active p)"

definition idle_count :: "pool \<Rightarrow> nat" where
  "idle_count p = (if pl_poisoned p then 0 else length (pl_idle p))"

section \<open>The async pool\<close>

text \<open>\<^verbatim>\<open>AsyncIslePool::try_acquire\<close>.\<close>

definition async_acquire :: "(nat \<Rightarrow> bool) \<Rightarrow> pool \<Rightarrow> (isle_error + acquired) \<times> pool" where
  "async_acquire alive p =
    (case lock_inner p of
       Inl e \<Rightarrow> (Inl e, p)
     | Inr _ \<Rightarrow>
         if pl_closed p then (Inl Shutdown, p)
         else
           (case take_alive alive (pl_idle p) of
              (Some i, rest) \<Rightarrow>
                (Inr (Acquired i), p\<lparr>pl_idle := rest, pl_active := Suc (pl_active p)\<rparr>)
            | (None, rest) \<Rightarrow>
                let p1 = p\<lparr>pl_idle := rest\<rparr>
                in if can_grow p1 then (Inr SpawnNeeded, p1\<lparr>pl_active := Suc (pl_active p1)\<rparr>)
                   else (Inr NeedWait, p1)))"

text \<open>\<^verbatim>\<open>return_slot_warm\<close>, \<^verbatim>\<open>discard_slot\<close> and the drop of \<^verbatim>\<open>AsyncPooledIsle\<close>; the shutdown they spawn is
  recorded as done.\<close>

definition return_slot_warm :: "(nat \<Rightarrow> bool) \<Rightarrow> nat \<Rightarrow> pool \<Rightarrow> pool" where
  "return_slot_warm alive i p =
    (let p1 = p\<lparr>pl_active := pl_active p - 1\<rparr>
     in if pl_closed p1 then signal_pool NotifyOne (shut_isle i p1)
        else if alive i then signal_pool NotifyOne (p1\<lparr>pl_idle := pl_idle p1 @ [i]\<rparr>)
        else signal_pool NotifyOne (shut_isle i p1))"

definition discard_slot :: "nat \<Rightarrow> pool \<Rightarrow> pool" where
  "discard_slot i p =
    (let p1 = p\<lparr>pl_active := pl_active p - 1\<rparr> in signal_pool NotifyOne (shut_isle i p1))"

definition async_guard_drop :: "(nat \<Rightarrow> bool) \<Rightarrow> bool \<Rightarrow> nat \<Rightarrow> pool \<Rightarrow> pool" where
  "async_guard_drop alive killed i p =
    (if killed then discard_slot i p
     else case pl_strategy p of Cold \<Rightarrow> discard_slot i p | Warm \<Rightarrow> return_slot_warm alive i p)"

text \<open>\<^verbatim>\<open>AsyncIslePool::shutdown\<close>: the idle slots are taken under the lock and shut down after it.\<close>

definition async_shutdown :: "pool \<Rightarrow> pool" where
  "async_shutdown p =
    (let drained = pl_idle p;
         p1 = signal_pool NotifyAll (p\<lparr>pl_closed := True, pl_idle := []\<rparr>)
     in fold shut_isle drained p1)"

section \<open>Histories\<close>

text \<open>
  A pool with its users: the isles checked out, the checkouts whose spawn is under way, the
  checkouts that were dropped while their spawn was under way (only a future can be), the isles
  whose thread has ended.
\<close>

record pool_sys =
  ps_pool :: pool
  ps_out :: "nat list"
  ps_spawning :: nat
  ps_lost :: nat
  ps_dead :: "nat list"
  ps_fresh :: nat

datatype pool_op =
    PTry
  | PSpawned
  | PSpawnFailed
  | PAbandon
  | PDrop nat bool
  | PDie nat
  | PShutdown

definition sys_alive :: "pool_sys \<Rightarrow> nat \<Rightarrow> bool" where
  "sys_alive S i \<longleftrightarrow> i \<notin> set (ps_dead S)"

fun pool_exec ::
  "((nat \<Rightarrow> bool) \<Rightarrow> pool \<Rightarrow> (isle_error + acquired) \<times> pool) \<Rightarrow>
    ((nat \<Rightarrow> bool) \<Rightarrow> bool \<Rightarrow> nat \<Rightarrow> pool \<Rightarrow> pool) \<Rightarrow> (pool \<Rightarrow> pool) \<Rightarrow>
    pool_op \<Rightarrow> pool_sys \<Rightarrow> pool_sys" where
  "pool_exec acquire give close PTry S =
    (case acquire (sys_alive S) (ps_pool S) of
       (Inr (Acquired i), p) \<Rightarrow> S\<lparr>ps_pool := p, ps_out := i # ps_out S\<rparr>
     | (Inr SpawnNeeded, p) \<Rightarrow> S\<lparr>ps_pool := p, ps_spawning := Suc (ps_spawning S)\<rparr>
     | (_, p) \<Rightarrow> S\<lparr>ps_pool := p\<rparr>)"
| "pool_exec acquire give close PSpawned S =
    (if ps_spawning S = 0 then S
     else S\<lparr>ps_spawning := ps_spawning S - 1, ps_out := ps_fresh S # ps_out S,
            ps_fresh := Suc (ps_fresh S)\<rparr>)"
| "pool_exec acquire give close PSpawnFailed S =
    (if ps_spawning S = 0 then S
     else S\<lparr>ps_spawning := ps_spawning S - 1, ps_pool := dec_active (ps_pool S)\<rparr>)"
| "pool_exec acquire give close PAbandon S =
    (if ps_spawning S = 0 then S
     else S\<lparr>ps_spawning := ps_spawning S - 1, ps_lost := Suc (ps_lost S)\<rparr>)"
| "pool_exec acquire give close (PDrop i killed) S =
    (if i \<in> set (ps_out S)
     then S\<lparr>ps_pool := give (sys_alive S) killed i (ps_pool S), ps_out := remove1 i (ps_out S)\<rparr>
     else S)"
| "pool_exec acquire give close (PDie i) S = S\<lparr>ps_dead := i # ps_dead S\<rparr>"
| "pool_exec acquire give close PShutdown S = S\<lparr>ps_pool := close (ps_pool S)\<rparr>"

abbreviation sync_exec :: "pool_op \<Rightarrow> pool_sys \<Rightarrow> pool_sys" where
  "sync_exec \<equiv> pool_exec checkout_round guard_drop pool_shutdown"

abbreviation async_exec :: "pool_op \<Rightarrow> pool_sys \<Rightarrow> pool_sys" where
  "async_exec \<equiv> pool_exec async_acquire async_guard_drop async_shutdown"

definition pool_start :: "pool \<Rightarrow> pool_sys" where
  "pool_start p =
    \<lparr>ps_pool = p, ps_out = [], ps_spawning = 0, ps_lost = 0, ps_dead = [], ps_fresh = 0\<rparr>"

end
