(* ===== verification/Isle_Pool_Props.thy ===== *)
theory Isle_Pool_Props
  imports Isle_Pool
begin

text \<open>
  What both pools promise, proved once over the contract \<open>bounded_pool\<close> and for each pool by an
  interpretation: never more isles than \<^verbatim>\<open>max_size\<close>, every isle with one user at a time, no isle
  handed out after it was shut down, nothing left idle in a closed pool.
\<close>

section \<open>The contract of the critical sections\<close>

definition same_config :: "pool \<Rightarrow> pool \<Rightarrow> bool" where
  "same_config p q \<longleftrightarrow> pl_max q = pl_max p \<and> pl_strategy q = pl_strategy p"

lemma same_config_refl [simp]: "same_config p p"
  by (simp add: same_config_def)

locale bounded_pool =
  fixes acquire :: "(nat \<Rightarrow> bool) \<Rightarrow> pool \<Rightarrow> (isle_error + acquired) \<times> pool"
    and give :: "(nat \<Rightarrow> bool) \<Rightarrow> bool \<Rightarrow> nat \<Rightarrow> pool \<Rightarrow> pool"
    and close :: "pool \<Rightarrow> pool"
  assumes acquire_error: "acquire alive p = (Inl e, q) \<Longrightarrow> q = p"
    and acquire_got: "acquire alive p = (Inr (Acquired i), q) \<Longrightarrow>
      \<not> pl_closed p \<and> alive i \<and> (\<exists>dead. pl_idle p = pl_idle q @ i # dead) \<and>
      pl_active q = Suc (pl_active p) \<and> pl_shut q = pl_shut p \<and> pl_closed q = pl_closed p \<and> same_config p q"
    and acquire_spawn: "acquire alive p = (Inr SpawnNeeded, q) \<Longrightarrow>
      \<not> pl_closed p \<and> pl_idle q = [] \<and> pl_active p < pl_max p \<and>
      pl_active q = Suc (pl_active p) \<and> pl_shut q = pl_shut p \<and> pl_closed q = pl_closed p \<and> same_config p q"
    and acquire_wait: "acquire alive p = (Inr NeedWait, q) \<Longrightarrow>
      \<not> pl_closed p \<and> pl_idle q = [] \<and> pl_max p \<le> pl_active p \<and>
      pl_active q = pl_active p \<and> pl_shut q = pl_shut p \<and> pl_closed q = pl_closed p \<and> same_config p q"
    and give_active: "pl_active (give alive k i p) = pl_active p - 1"
    and give_keeps: "same_config p (give alive k i p)" "pl_closed (give alive k i p) = pl_closed p"
    and give_isle: "(pl_idle (give alive k i p), pl_shut (give alive k i p)) \<in>
      {(pl_idle p @ [i], pl_shut p), (pl_idle p, pl_shut p @ [i]), (pl_idle p, pl_shut p)}"
    and give_closed: "pl_closed p \<Longrightarrow> pl_idle (give alive k i p) = pl_idle p"
    and close_fields: "pl_idle (close p) = []" "pl_shut (close p) = pl_shut p @ pl_idle p"
      "pl_closed (close p)" "pl_active (close p) = pl_active p" "same_config p (close p)"

lemma take_alive_spec:
  "take_alive alive idle = (r, rest) \<Longrightarrow>
    (case r of None \<Rightarrow> rest = [] \<and> (\<forall>i \<in> set idle. \<not> alive i)
     | Some i \<Rightarrow> alive i \<and> (\<exists>dead. idle = rest @ i # dead \<and> (\<forall>d \<in> set dead. \<not> alive d)))"
proof (induction alive idle arbitrary: r rest rule: take_alive.induct)
  case (1 alive idle)
  show ?case
  proof (cases "idle = []")
    case True
    with "1.prems" have "r = None \<and> rest = []" by (simp add: take_alive.simps [of alive "[]"])
    with True show ?thesis by simp
  next
    case False
    note split = append_butlast_last_id [OF False]
    show ?thesis
    proof (cases "alive (last idle)")
      case True
      with "1.prems" False have "r = Some (last idle)" "rest = butlast idle"
        by (simp_all add: take_alive.simps [of alive idle])
      then show ?thesis using True split by (auto intro!: exI [of _ "[]"])
    next
      case dead: False
      with "1.prems" False have "take_alive alive (butlast idle) = (r, rest)"
        by (simp add: take_alive.simps [of alive idle])
      note IH = "1.IH" [OF False dead this]
      show ?thesis
      proof (cases r)
        case None
        have "set idle = insert (last idle) (set (butlast idle))" by (subst split [symmetric]) simp
        with IH None dead show ?thesis by auto
      next
        case (Some i)
        then obtain ds where "alive i" "butlast idle = rest @ i # ds" "\<forall>d \<in> set ds. \<not> alive d"
          using IH by auto
        moreover from this have "idle = rest @ i # (ds @ [last idle])"
          using split by (metis append.assoc append_Cons)
        ultimately show ?thesis using Some dead by (auto intro!: exI [of _ "ds @ [last idle]"])
      qed
    qed
  qed
qed

lemmas pool_defs = checkout_round_def try_acquire_def async_acquire_def guard_drop_def return_isle_def
  discard_isle_def async_guard_drop_def return_slot_warm_def discard_slot_def pool_shutdown_def
  async_shutdown_def lock_inner_def can_grow_def signal_pool_def shut_isle_def Let_def

lemma fold_shut_isle:
  "fold shut_isle is p = p\<lparr>pl_shut := pl_shut p @ is\<rparr>"
  by (induction "is" arbitrary: p) (simp_all add: shut_isle_def)

text \<open>
  The invariant of a pool and its users: \<open>active\<close> counts the isles in use, the spawns under way and
  the abandoned ones; with the idle isles they stay within the limit; an isle is idle, in use or
  shut down, and only one of these, and only once; a closed pool has no idle isle.
\<close>

definition pool_ok :: "pool_sys \<Rightarrow> bool" where
  "pool_ok S \<longleftrightarrow>
    pl_active (ps_pool S) = length (ps_out S) + ps_spawning S + ps_lost S \<and>
    pl_active (ps_pool S) + length (pl_idle (ps_pool S)) \<le> pl_max (ps_pool S) \<and>
    distinct (pl_idle (ps_pool S) @ ps_out S @ pl_shut (ps_pool S)) \<and>
    (\<forall>i \<in> set (pl_idle (ps_pool S) @ ps_out S @ pl_shut (ps_pool S)). i < ps_fresh S) \<and>
    (pl_closed (ps_pool S) \<longrightarrow> pl_idle (ps_pool S) = [])"

context bounded_pool
begin

lemma try_ok:
  assumes ok: "pool_ok S"
  shows "pool_ok (pool_exec acquire give close PTry S)"
proof -
  obtain r p where a: "acquire (sys_alive S) (ps_pool S) = (r, p)" by fastforce
  consider (err) e where "r = Inl e" | (got) i where "r = Inr (Acquired i)"
    | (spawn) "r = Inr SpawnNeeded" | (wait) "r = Inr NeedWait"
    by (cases r; cases "projr r") auto
  then show ?thesis
  proof cases
    case err
    then show ?thesis using acquire_error [OF a [unfolded err]] a ok by (simp add: pool_ok_def)
  next
    case got
    from acquire_got [OF a [unfolded got]] obtain dead where
      i: "pl_idle (ps_pool S) = pl_idle p @ i # dead" "\<not> pl_closed p"
      "pl_active p = Suc (pl_active (ps_pool S))" "pl_shut p = pl_shut (ps_pool S)"
      "pl_max p = pl_max (ps_pool S)" by (auto simp: same_config_def)
    then show ?thesis using ok by (auto simp: pool_ok_def a got)
  next
    case spawn
    from acquire_spawn [OF a [unfolded spawn]] show ?thesis
      using ok by (auto simp: pool_ok_def a spawn same_config_def)
  next
    case wait
    from acquire_wait [OF a [unfolded wait]] show ?thesis
      using ok by (auto simp: pool_ok_def a wait same_config_def)
  qed
qed

lemma give_ok:
  assumes ok: "pool_ok S" and i: "i \<in> set (ps_out S)"
  shows "pool_ok (pool_exec acquire give close (PDrop i k) S)"
proof -
  let ?q = "give (sys_alive S) k i (ps_pool S)"
  have len: "length (ps_out S) = Suc (length (remove1 i (ps_out S)))"
    using i by (simp add: length_remove1) (metis length_pos_if_in_set Suc_pred)
  have set: "set (remove1 i (ps_out S)) = set (ps_out S) - {i}"
    using ok by (simp add: pool_ok_def set_remove1_eq)
  have pos: "pl_active (ps_pool S) = Suc (pl_active ?q)"
    using ok len by (simp add: pool_ok_def give_active)
  consider "pl_idle ?q = pl_idle (ps_pool S) @ [i]" "pl_shut ?q = pl_shut (ps_pool S)"
    | "pl_idle ?q = pl_idle (ps_pool S)" "pl_shut ?q = pl_shut (ps_pool S) @ [i]"
    | "pl_idle ?q = pl_idle (ps_pool S)" "pl_shut ?q = pl_shut (ps_pool S)"
    using give_isle [of "sys_alive S" k i "ps_pool S"] by auto
  then show ?thesis
    using ok i len set pos give_keeps [where p = "ps_pool S" and alive = "sys_alive S" and k = k and i = i]
      give_closed [where p = "ps_pool S" and alive = "sys_alive S" and k = k and i = i]
    by cases (auto simp: pool_ok_def same_config_def distinct_remove1)
qed

lemma close_ok: "pool_ok S \<Longrightarrow> pool_ok (pool_exec acquire give close PShutdown S)"
  using close_fields [of "ps_pool S"] by (auto simp: pool_ok_def same_config_def)

lemma exec_pool_ok: "pool_ok S \<Longrightarrow> pool_ok (pool_exec acquire give close op S)"
proof (cases op)
  case PTry
  assume "pool_ok S"
  then show ?thesis unfolding PTry by (rule try_ok)
next
  case (PDrop i k)
  assume "pool_ok S"
  then show ?thesis
    unfolding PDrop by (cases "i \<in> set (ps_out S)") (rule give_ok, simp_all)
next
  case PShutdown
  assume "pool_ok S"
  then show ?thesis unfolding PShutdown by (rule close_ok)
qed (auto simp: pool_ok_def dec_active_def signal_pool_def intro: less_SucI)

end

interpretation sync_pool: bounded_pool checkout_round guard_drop pool_shutdown
  by unfold_locales
    (auto simp: pool_defs same_config_def dest!: take_alive_spec
      split: option.splits prod.splits if_splits strategy.splits)

interpretation async_pool: bounded_pool async_acquire async_guard_drop async_shutdown
  by unfold_locales
    (auto simp: pool_defs same_config_def fold_shut_isle dest!: take_alive_spec
      split: option.splits prod.splits if_splits strategy.splits)

interpretation sync_machine: machine sync_exec pool_ok
  by unfold_locales (rule sync_pool.exec_pool_ok)

interpretation async_machine: machine async_exec pool_ok
  by unfold_locales (rule async_pool.exec_pool_ok)

lemma pool_start_ok: "pool_new n strat = Inr p \<Longrightarrow> pool_ok (pool_start p)"
  by (auto simp: pool_new_def pool_ok_def pool_start_def split: if_splits)

lemma pool_max_kept:
  "pl_max (ps_pool (fold sync_exec ops S)) = pl_max (ps_pool S)"
  "pl_max (ps_pool (fold async_exec ops S)) = pl_max (ps_pool S)"
proof -
  have "pl_max (ps_pool (sync_exec op S)) = pl_max (ps_pool S)" for op S
    by (cases op)
      (auto simp: pool_defs dec_active_def split: option.splits prod.splits if_splits strategy.splits)
  then show "pl_max (ps_pool (fold sync_exec ops S)) = pl_max (ps_pool S)"
    by (induction ops arbitrary: S) simp_all
  have "pl_max (ps_pool (async_exec op S)) = pl_max (ps_pool S)" for op S
    by (cases op)
      (auto simp: pool_defs dec_active_def fold_shut_isle split: option.splits prod.splits if_splits strategy.splits)
  then show "pl_max (ps_pool (fold async_exec ops S)) = pl_max (ps_pool S)"
    by (induction ops arbitrary: S) simp_all
qed

section \<open>Properties of both pools\<close>

text \<open>C11: in any history of either pool (checkouts, spawns that succeed, fail or are abandoned, guards
  dropped or killed, isles that die, shutdown), there are never more isles than \<^verbatim>\<open>max_size\<close>, counting
  the idle ones, those in use and those being spawned; an isle in use has one user and is neither
  idle nor shut down, and no isle is shut down twice.\<close>

theorem pools_are_bounded_and_exclusive:
  assumes "exec = sync_exec \<or> exec = async_exec" and "pool_new n strat = Inr p"
    and "S = fold exec ops (pool_start p)"
  shows "length (pl_idle (ps_pool S)) + length (ps_out S) + ps_spawning S \<le> n \<and>
    distinct (ps_out S) \<and> distinct (pl_shut (ps_pool S)) \<and>
    set (ps_out S) \<inter> set (pl_idle (ps_pool S)) = {} \<and>
    set (pl_shut (ps_pool S)) \<inter> (set (ps_out S) \<union> set (pl_idle (ps_pool S))) = {}"
proof -
  have "pool_ok S"
    using assms(1) sync_machine.ok_run [OF pool_start_ok [OF assms(2)]]
      async_machine.ok_run [OF pool_start_ok [OF assms(2)]] unfolding assms(3) by blast
  moreover have "pl_max p = n" using assms(2) by (auto simp: pool_new_def split: if_splits)
  then have "pl_max (ps_pool S) = n"
    using assms(1) pool_max_kept [of ops "pool_start p"] unfolding assms(3) by (auto simp: pool_start_def)
  ultimately show ?thesis by (auto simp: pool_ok_def)
qed

definition pool_demo :: pool where
  "pool_demo =
    \<lparr>pl_idle = [], pl_active = 0, pl_closed = False, pl_poisoned = False, pl_max = 2,
     pl_strategy = Warm, pl_shut = [], pl_signals = []\<rparr>"

definition pool_demo_ops :: "pool_op list" where
  "pool_demo_ops =
    [PTry, PSpawned, PTry, PSpawned, PTry, PDrop 0 False, PTry, PDrop 1 True, PShutdown, PDrop 0 False]"

theorem pools_are_bounded_and_exclusive_witness:
  "pool_new 2 Warm = Inr pool_demo \<and>
    length (pl_idle (ps_pool (fold sync_exec pool_demo_ops (pool_start pool_demo)))) \<le> 2 \<and>
    pl_shut (ps_pool (fold async_exec pool_demo_ops (pool_start pool_demo))) = [1, 0]"
proof -
  have new: "pool_new 2 Warm = Inr pool_demo" by (simp add: pool_new_def pool_demo_def)
  have "pl_shut (ps_pool (fold async_exec pool_demo_ops (pool_start pool_demo))) = [1, 0]"
    by code_simp
  then show ?thesis
    using pools_are_bounded_and_exclusive [OF disjI1 [OF refl] new refl, of pool_demo_ops] new by simp
qed

text \<open>a checkout that runs into its deadline reports the pool exhausted only when it is: every isle
  the pool may have is then in use, being spawned, or lost to an abandoned spawn, and none is idle.\<close>

theorem exhausted_only_when_full:
  assumes "pool_ok S" and "checkout_expired (sys_alive S) spawned (ps_pool S) = (Inl (PoolExhausted m), p)"
    and "spawned \<noteq> Inl (PoolExhausted m)"
  shows "m = pl_max (ps_pool S) \<and> length (ps_out S) + ps_spawning S + ps_lost S = m \<and> pl_idle p = []"
proof -
  obtain r q where a: "checkout_round (sys_alive S) (ps_pool S) = (r, q)" by fastforce
  have "r = Inr NeedWait" and "m = pl_max q" and "p = q"
    using assms(2,3)
    by (auto simp: checkout_expired_def try_checkout_def a split: sum.splits acquired.splits option.splits)
      (use a in \<open>auto simp: checkout_round_def lock_inner_def poison_error_def split: if_splits prod.splits\<close>)
  with sync_pool.acquire_wait [OF a [unfolded \<open>r = Inr NeedWait\<close>]] assms(1) show ?thesis
    by (auto simp: pool_ok_def same_config_def)
qed

theorem exhausted_only_when_full_witness:
  "(let S = fold sync_exec [PTry, PSpawned, PTry, PSpawned] (pool_start pool_demo) in
     fst (checkout_expired (sys_alive S) (Inr 9) (ps_pool S)) = Inl (PoolExhausted 2) \<and> length (ps_out S) = 2)"
proof -
  let ?S = "fold sync_exec [PTry, PSpawned, PTry, PSpawned] (pool_start pool_demo)"
  have ok: "pool_ok ?S"
    by (rule sync_machine.ok_run [OF pool_start_ok [of 2 Warm]]) (simp add: pool_new_def pool_demo_def)
  obtain r p where c: "checkout_expired (sys_alive ?S) (Inr 9) (ps_pool ?S) = (r, p)" by fastforce
  have r: "fst (checkout_expired (sys_alive ?S) (Inr 9) (ps_pool ?S)) = Inl (PoolExhausted 2)"
    "ps_spawning ?S = 0" "ps_lost ?S = 0"
    by code_simp+
  with c have c': "checkout_expired (sys_alive ?S) (Inr 9) (ps_pool ?S) = (Inl (PoolExhausted 2), p)" by simp
  show ?thesis
    using exhausted_only_when_full [OF ok c'] r by (simp add: Let_def)
qed

text \<open>what returning an isle means: in an open warm pool, an isle that is alive and not killed is the
  next one checked out; a killed one, one of a cold pool, or one returned to a closed pool is shut
  down and never idle again, and a waiting checkout is notified in every case.\<close>

theorem returned_isle:
  "(pl_strategy p = Warm \<and> \<not> pl_closed p \<and> \<not> pl_poisoned p \<and> alive i \<longrightarrow>
      fst (checkout_round alive (guard_drop alive False i p)) = Inr (Acquired i) \<and>
      fst (async_acquire alive (async_guard_drop alive False i p)) = Inr (Acquired i)) \<and>
    (killed \<or> pl_strategy p = Cold \<or> pl_closed p \<longrightarrow>
      pl_shut (guard_drop alive killed i p) = pl_shut p @ [i] \<and> pl_idle (guard_drop alive killed i p) = pl_idle p \<and>
      pl_shut (async_guard_drop alive killed i p) = pl_shut p @ [i] \<and>
      pl_idle (async_guard_drop alive killed i p) = pl_idle p) \<and>
    last (pl_signals (guard_drop alive killed i p)) = NotifyOne \<and>
    last (pl_signals (async_guard_drop alive killed i p)) = NotifyOne"
proof (intro conjI impI)
  assume "pl_strategy p = Warm \<and> \<not> pl_closed p \<and> \<not> pl_poisoned p \<and> alive i"
  then show "fst (checkout_round alive (guard_drop alive False i p)) = Inr (Acquired i)"
    and "fst (async_acquire alive (async_guard_drop alive False i p)) = Inr (Acquired i)"
    by (simp_all add: pool_defs take_alive.simps)
next
  assume k: "killed \<or> pl_strategy p = Cold \<or> pl_closed p"
  then show "pl_shut (guard_drop alive killed i p) = pl_shut p @ [i]"
    and "pl_idle (guard_drop alive killed i p) = pl_idle p"
    and "pl_shut (async_guard_drop alive killed i p) = pl_shut p @ [i]"
    and "pl_idle (async_guard_drop alive killed i p) = pl_idle p"
    by (cases killed; auto simp: pool_defs split: strategy.split)+
next
  show "last (pl_signals (guard_drop alive killed i p)) = NotifyOne"
    and "last (pl_signals (async_guard_drop alive killed i p)) = NotifyOne"
    by (cases killed; simp add: pool_defs split: strategy.split)+
qed

theorem returned_isle_witness:
  "fst (checkout_round (\<lambda>_. True) (guard_drop (\<lambda>_. True) False 4 pool_demo)) = Inr (Acquired 4) \<and>
    pl_shut (guard_drop (\<lambda>_. True) True 4 pool_demo) = [4]"
proof -
  have "pl_strategy pool_demo = Warm \<and> \<not> pl_closed pool_demo \<and> \<not> pl_poisoned pool_demo" "pl_shut pool_demo = []"
    by (simp_all add: pool_demo_def)
  then show ?thesis using returned_isle [of pool_demo "\<lambda>_. True" 4 True] by simp
qed

section \<open>Abandoned spawns of the async pool\<close>

text \<open>A spawn that was abandoned stays counted.\<close>

lemma lost_kept: "ps_lost S \<le> ps_lost (fold async_exec ops S)"
proof (induction ops arbitrary: S)
  case (Cons op ops)
  have "ps_lost S \<le> ps_lost (async_exec op S)"
    by (cases op) (auto split: sum.split acquired.split prod.split)
  with Cons [of "async_exec op S"] show ?case by simp
qed simp

definition abandon_all :: "nat \<Rightarrow> pool_op list" where
  "abandon_all n = concat (replicate n [PTry, PAbandon])"

lemma abandon_step:
  assumes "pl_idle (ps_pool S) = []" and "pl_active (ps_pool S) < pl_max (ps_pool S)"
    and "\<not> pl_closed (ps_pool S)" and "\<not> pl_poisoned (ps_pool S)" and "ps_spawning S = 0"
  shows "async_exec PAbandon (async_exec PTry S) =
    S\<lparr>ps_pool := (ps_pool S)\<lparr>pl_active := Suc (pl_active (ps_pool S))\<rparr>, ps_lost := Suc (ps_lost S)\<rparr>"
  using assms by (simp add: async_acquire_def lock_inner_def take_alive.simps can_grow_def)

lemma abandon_run:
  "k \<le> n \<Longrightarrow> pool_new n strat = Inr p \<Longrightarrow>
    fold async_exec (abandon_all k) (pool_start p) = (pool_start p)\<lparr>ps_pool := p\<lparr>pl_active := k\<rparr>, ps_lost := k\<rparr>"
proof (induction k)
  case 0
  then show ?case by (auto simp: abandon_all_def pool_start_def pool_new_def split: if_splits)
next
  case (Suc k)
  have app: "abandon_all (Suc k) = abandon_all k @ [PTry, PAbandon]"
    by (simp add: abandon_all_def flip: replicate_append_same)
  have IH: "fold async_exec (abandon_all k) (pool_start p) =
      (pool_start p)\<lparr>ps_pool := p\<lparr>pl_active := k\<rparr>, ps_lost := k\<rparr>"
    using Suc by simp
  let ?T = "(pool_start p)\<lparr>ps_pool := p\<lparr>pl_active := k\<rparr>, ps_lost := k\<rparr>"
  have "fold async_exec (abandon_all (Suc k)) (pool_start p) = async_exec PAbandon (async_exec PTry ?T)"
    by (simp add: app IH del: pool_exec.simps)
  also have "\<dots> = ?T\<lparr>ps_pool := (ps_pool ?T)\<lparr>pl_active := Suc (pl_active (ps_pool ?T))\<rparr>, ps_lost := Suc (ps_lost ?T)\<rparr>"
    by (rule abandon_step) (use Suc.prems in \<open>auto simp: pool_new_def pool_start_def split: if_splits\<close>)
  finally show ?case by (simp add: pool_start_def)
qed

text \<open>C38: a checkout of the async pool that is dropped while its spawn is under way (by a timeout or a
  select around it, say) loses its place for good: after \<^verbatim>\<open>max_size\<close> of them no later history of the
  pool ever hands out an isle again.\<close>

theorem abandoned_checkouts_leak:
  assumes "pool_new n strat = Inr p"
  shows "ps_out (fold async_exec ops (fold async_exec (abandon_all n) (pool_start p))) = []"
proof -
  let ?S = "fold async_exec ops (fold async_exec (abandon_all n) (pool_start p))"
  have "pl_max p = n" using assms by (auto simp: pool_new_def split: if_splits)
  then have m: "pl_max (ps_pool ?S) = n"
    by (simp add: pool_max_kept pool_start_def)
  have "n \<le> ps_lost ?S"
    using lost_kept [of "fold async_exec (abandon_all n) (pool_start p)" ops]
    unfolding abandon_run [OF order_refl assms] by simp
  moreover have "pool_ok ?S"
    by (intro async_machine.ok_run pool_start_ok [OF assms])
  then have "length (ps_out ?S) + ps_lost ?S \<le> n" unfolding pool_ok_def m by linarith
  ultimately have "length (ps_out ?S) = 0" by linarith
  then show ?thesis by simp
qed

theorem abandoned_checkouts_leak_witness:
  "ps_out (fold async_exec [PTry, PSpawned] (fold async_exec (abandon_all 2) (pool_start pool_demo))) = [] \<and>
    ps_out (fold async_exec [PTry, PSpawned] (pool_start pool_demo)) = [0]"
proof -
  have "pool_new 2 Warm = Inr pool_demo" by (simp add: pool_new_def pool_demo_def)
  moreover have "ps_out (fold async_exec [PTry, PSpawned] (pool_start pool_demo)) = [0]" by code_simp
  ultimately show ?thesis using abandoned_checkouts_leak by blast
qed

end
