(* ===== verification/Isle_Pool_Wake.thy ===== *)
theory Isle_Pool_Wake
  imports Isle_Pool_Props
begin

text \<open>
  The threads that block in \<^verbatim>\<open>IslePool::checkout\<close> and \<^verbatim>\<open>checkout_timeout\<close>, and the condition
  variable they sleep on.

  A thread is awake when it is about to run a round of the loop, and asleep in
  \<^verbatim>\<open>Condvar::wait\<close>.  Every operation of the pool sends its notifications: \<^verbatim>\<open>notify_one\<close> wakes
  one sleeper if there is one, \<^verbatim>\<open>notify_all\<close> wakes all.  A sleeper may also wake up on its own (a
  spurious wake-up, or its timeout), which is another round.
\<close>

record wait_sys =
  ws_sys :: pool_sys
  ws_awake :: nat
  ws_asleep :: nat

datatype wait_op = WEnter | WRound bool | WSpurious | WPool pool_op

fun deliver :: "signal \<Rightarrow> wait_sys \<Rightarrow> wait_sys" where
  "deliver NotifyOne W =
    (if ws_asleep W = 0 then W
     else W\<lparr>ws_asleep := ws_asleep W - 1, ws_awake := Suc (ws_awake W)\<rparr>)"
| "deliver NotifyAll W = W\<lparr>ws_asleep := 0, ws_awake := ws_awake W + ws_asleep W\<rparr>"

definition pool_step :: "pool_op \<Rightarrow> wait_sys \<Rightarrow> wait_sys" where
  "pool_step op W =
    (let S = ws_sys W; S' = sync_exec op S;
         new = drop (length (pl_signals (ps_pool S))) (pl_signals (ps_pool S'))
     in fold deliver new (W\<lparr>ws_sys := S'\<rparr>))"

text \<open>A round of the loop; its argument says that the deadline has passed.  A round that gets an isle, a
  spawn or an error leaves the loop, and so does one that waits past its deadline.\<close>

fun wait_exec :: "wait_op \<Rightarrow> wait_sys \<Rightarrow> wait_sys" where
  "wait_exec WEnter W = W\<lparr>ws_awake := Suc (ws_awake W)\<rparr>"
| "wait_exec (WRound expired) W =
    (if ws_awake W = 0 then W
     else
       let S = ws_sys W; W1 = W\<lparr>ws_awake := ws_awake W - 1, ws_sys := sync_exec PTry S\<rparr>
       in case fst (checkout_round (sys_alive S) (ps_pool S)) of
            Inr NeedWait \<Rightarrow> if expired then W1 else W1\<lparr>ws_asleep := Suc (ws_asleep W1)\<rparr>
          | _ \<Rightarrow> W1)"
| "wait_exec WSpurious W =
    (if ws_asleep W = 0 then W
     else W\<lparr>ws_asleep := ws_asleep W - 1, ws_awake := Suc (ws_awake W)\<rparr>)"
| "wait_exec (WPool op) W = pool_step op W"

definition wait_start :: "pool \<Rightarrow> wait_sys" where
  "wait_start p = \<lparr>ws_sys = pool_start p, ws_awake = 0, ws_asleep = 0\<rparr>"

section \<open>The invariant\<close>

text \<open>(No operation of the code panics under the lock: the lock is not poisoned.)  If a thread sleeps, the pool is open and every free place has an awake thread on its way to it.\<close>

definition wait_ok :: "wait_sys \<Rightarrow> bool" where
  "wait_ok W \<longleftrightarrow>
    pool_ok (ws_sys W) \<and> \<not> pl_poisoned (ps_pool (ws_sys W)) \<and>
    (ws_asleep W = 0 \<or>
      \<not> pl_closed (ps_pool (ws_sys W)) \<and>
      pl_max (ps_pool (ws_sys W)) \<le> pl_active (ps_pool (ws_sys W)) + ws_awake W)"

lemma poison_kept: "pl_poisoned (ps_pool (sync_exec op S)) = pl_poisoned (ps_pool S)"
  by (cases op)
    (auto simp: pool_defs dec_active_def split: option.splits prod.splits strategy.splits)

text \<open>What a pool operation does to the count and to the signals.\<close>

lemma exec_signals:
  "pool_ok S \<Longrightarrow>
    (pl_signals (ps_pool (sync_exec op S)) = pl_signals (ps_pool S) \<and>
      pl_active (ps_pool S) \<le> pl_active (ps_pool (sync_exec op S)) \<and>
      pl_closed (ps_pool (sync_exec op S)) = pl_closed (ps_pool S)) \<or>
    (pl_signals (ps_pool (sync_exec op S)) = pl_signals (ps_pool S) @ [NotifyOne] \<and>
      pl_active (ps_pool S) \<le> Suc (pl_active (ps_pool (sync_exec op S))) \<and>
      pl_closed (ps_pool (sync_exec op S)) = pl_closed (ps_pool S)) \<or>
    pl_signals (ps_pool (sync_exec op S)) = pl_signals (ps_pool S) @ [NotifyAll]"
  by (cases op)
    (auto simp: pool_defs dec_active_def split: option.splits prod.splits strategy.splits)

lemma pool_step_ok:
  assumes ok: "wait_ok W"
  shows "wait_ok (pool_step op W)"
proof -
  let ?S = "ws_sys W"
  let ?S' = "sync_exec op ?S"
  have S: "pool_ok ?S" using ok by (simp add: wait_ok_def)
  have S': "pool_ok ?S' \<and> pl_poisoned (ps_pool ?S') = pl_poisoned (ps_pool ?S)"
    using sync_pool.exec_pool_ok [OF S] poison_kept by blast
  have max: "pl_max (ps_pool ?S') = pl_max (ps_pool ?S)"
    using pool_max_kept(1) [of "[op]" ?S] by simp
  from exec_signals [OF S, of op] show ?thesis
  proof (elim disjE conjE)
    assume "pl_signals (ps_pool ?S') = pl_signals (ps_pool ?S)"
      "pl_active (ps_pool ?S) \<le> pl_active (ps_pool ?S')" "pl_closed (ps_pool ?S') = pl_closed (ps_pool ?S)"
    then show ?thesis using ok S' max by (auto simp: wait_ok_def pool_step_def Let_def)
  next
    assume a: "pl_signals (ps_pool ?S') = pl_signals (ps_pool ?S) @ [NotifyOne]"
      "pl_active (ps_pool ?S) \<le> Suc (pl_active (ps_pool ?S'))" "pl_closed (ps_pool ?S') = pl_closed (ps_pool ?S)"
    have "pool_step op W = deliver NotifyOne (W\<lparr>ws_sys := ?S'\<rparr>)"
      by (simp add: pool_step_def Let_def a(1))
    then show ?thesis using ok S' max a(2,3) by (auto simp: wait_ok_def)
  next
    assume a: "pl_signals (ps_pool ?S') = pl_signals (ps_pool ?S) @ [NotifyAll]"
    have "pool_step op W = deliver NotifyAll (W\<lparr>ws_sys := ?S'\<rparr>)"
      by (simp add: pool_step_def Let_def a)
    then show ?thesis using S' ok by (simp add: wait_ok_def)
  qed
qed

lemma round_ok:
  assumes ok: "wait_ok W"
  shows "wait_ok (wait_exec (WRound expired) W)"
proof (cases "ws_awake W = 0")
  case True
  with ok show ?thesis by simp
next
  case False
  let ?S = "ws_sys W"
  obtain r p where a: "checkout_round (sys_alive ?S) (ps_pool ?S) = (r, p)" by fastforce
  have "pool_ok ?S" using ok by (simp add: wait_ok_def)
  then have S': "pool_ok (sync_exec PTry ?S) \<and>
      pl_poisoned (ps_pool (sync_exec PTry ?S)) = pl_poisoned (ps_pool ?S)"
    using sync_pool.exec_pool_ok poison_kept by blast
  have p: "ps_pool (sync_exec PTry ?S) = p"
    using a by (auto split: sum.split acquired.split)
  consider (err) e where "r = Inl e" | (got) i where "r = Inr (Acquired i)"
    | (spawn) "r = Inr SpawnNeeded" | (wait) "r = Inr NeedWait"
    by (cases r; cases "projr r") auto
  then show ?thesis
  proof cases
    case err
    have "p = ps_pool ?S" by (rule sync_pool.acquire_error [OF a [unfolded err]])
    moreover have "pl_closed (ps_pool ?S)"
      using a err ok by (auto simp: wait_ok_def checkout_round_def lock_inner_def split: if_splits prod.splits)
    ultimately show ?thesis
      using ok S' False p a err by (auto simp: wait_ok_def Let_def simp del: pool_exec.simps)
  next
    case got
    then show ?thesis
      using ok S' False p a sync_pool.acquire_got [OF a [unfolded got]]
      by (auto simp: wait_ok_def Let_def same_config_def simp del: pool_exec.simps)
  next
    case spawn
    then show ?thesis
      using ok S' False p a sync_pool.acquire_spawn [OF a [unfolded spawn]]
      by (auto simp: wait_ok_def Let_def same_config_def simp del: pool_exec.simps)
  next
    case wait
    then show ?thesis
      using ok S' False p a sync_pool.acquire_wait [OF a [unfolded wait]]
      by (auto simp: wait_ok_def Let_def same_config_def simp del: pool_exec.simps)
  qed
qed

lemma wait_exec_ok: "wait_ok W \<Longrightarrow> wait_ok (wait_exec op W)"
proof (cases op)
  case (WRound expired)
  assume "wait_ok W"
  then show ?thesis unfolding WRound by (rule round_ok)
next
  case (WPool op)
  assume "wait_ok W"
  then show ?thesis unfolding WPool using pool_step_ok by simp
qed (auto simp: wait_ok_def)

interpretation wait_machine: machine wait_exec wait_ok
  by unfold_locales (rule wait_exec_ok)

text \<open>C23: no thread sleeps in a checkout for nothing: in any history of the blocking pool, if a thread
  sleeps while no other thread is on its way through the loop, the pool is open and every place in
  it is taken (no isle is idle and none may be spawned); in particular a shutdown wakes every
  sleeper.\<close>

theorem sleepers_have_a_reason:
  assumes "pool_new n strat = Inr p" and "W = fold wait_exec ops (wait_start p)"
    and "0 < ws_asleep W" and "ws_awake W = 0"
  shows "\<not> pl_closed (ps_pool (ws_sys W)) \<and> pl_active (ps_pool (ws_sys W)) = pl_max (ps_pool (ws_sys W)) \<and>
    pl_idle (ps_pool (ws_sys W)) = [] \<and> \<not> can_grow (ps_pool (ws_sys W))"
proof -
  have "wait_ok (wait_start p)"
    using pool_start_ok [OF assms(1)] assms(1)
    by (auto simp: wait_ok_def wait_start_def pool_start_def pool_new_def split: if_splits)
  then have "wait_ok W" unfolding assms(2) by (rule wait_machine.ok_run)
  then have w: "\<not> pl_closed (ps_pool (ws_sys W))"
      "pl_max (ps_pool (ws_sys W)) \<le> pl_active (ps_pool (ws_sys W))"
      "pl_active (ps_pool (ws_sys W)) + length (pl_idle (ps_pool (ws_sys W))) \<le> pl_max (ps_pool (ws_sys W))"
    using assms(3,4) by (simp_all add: wait_ok_def pool_ok_def)
  then have "length (pl_idle (ps_pool (ws_sys W))) = 0" by linarith
  with w show ?thesis by (simp add: can_grow_def)
qed

text \<open>Two isles are out; a third checkout sleeps.\<close>

definition wait_demo :: "wait_op list" where
  "wait_demo = [WEnter, WRound False, WPool PSpawned, WEnter, WRound False, WPool PSpawned, WEnter, WRound False]"

theorem sleepers_have_a_reason_witness:
  "(let W = fold wait_exec wait_demo (wait_start pool_demo) in
     ws_asleep W = 1 \<and> \<not> can_grow (ps_pool (ws_sys W)) \<and>
     ws_asleep (wait_exec (WPool (PDrop 0 False)) W) = 0)"
proof -
  let ?W = "fold wait_exec wait_demo (wait_start pool_demo)"
  have new: "pool_new 2 Warm = Inr pool_demo" by (simp add: pool_new_def pool_demo_def)
  have w: "ws_asleep ?W = 1" "ws_awake ?W = 0" "ws_asleep (wait_exec (WPool (PDrop 0 False)) ?W) = 0"
    by code_simp+
  then have "0 < ws_asleep ?W" by simp
  from sleepers_have_a_reason [OF new refl this w(2)] w show ?thesis by (simp add: Let_def)
qed

end
