(* ===== verification/Isle_Pool_Guard.thy ===== *)
theory Isle_Pool_Guard
  imports Isle_Pool
begin

text \<open>
  The guards of checked out isles (\<^verbatim>\<open>PooledIsle\<close> in \<^verbatim>\<open>src/pool.rs\<close>, \<^verbatim>\<open>AsyncPooledIsle\<close> in
  \<^verbatim>\<open>src/async_pool.rs\<close>), which give their isle back exactly once, and the parts of the async pool that repeat the
  blocking one's.
\<close>

section \<open>Guards\<close>

record pooled =
  pd_isle :: "nat option"
  pd_killed :: bool

definition pooled_new :: "nat \<Rightarrow> pooled" where
  "pooled_new i = \<lparr>pd_isle = Some i, pd_killed = False\<rparr>"

definition pooled_kill :: "pooled \<Rightarrow> pooled" where
  "pooled_kill g = g\<lparr>pd_killed := True\<rparr>"

text \<open>\<^verbatim>\<open>Deref\<close>; \<open>None\<close> is its panic.\<close>

definition pooled_deref :: "pooled \<Rightarrow> nat option" where
  "pooled_deref g = pd_isle g"

definition pooled_drop :: "(nat \<Rightarrow> bool) \<Rightarrow> pooled \<Rightarrow> pool \<Rightarrow> pooled \<times> pool" where
  "pooled_drop alive g p =
    (case pd_isle g of
       None \<Rightarrow> (g, p)
     | Some i \<Rightarrow> (g\<lparr>pd_isle := None\<rparr>, if pd_killed g then discard_isle i p else return_isle alive i p))"

record async_pooled =
  ag_slot :: "nat option"
  ag_killed :: bool

definition async_pooled_new :: "nat \<Rightarrow> async_pooled" where
  "async_pooled_new i = \<lparr>ag_slot = Some i, ag_killed = False\<rparr>"

definition async_pooled_kill :: "async_pooled \<Rightarrow> async_pooled" where
  "async_pooled_kill g = g\<lparr>ag_killed := True\<rparr>"

definition async_pooled_deref :: "async_pooled \<Rightarrow> nat option" where
  "async_pooled_deref g = ag_slot g"

definition async_pooled_drop :: "(nat \<Rightarrow> bool) \<Rightarrow> async_pooled \<Rightarrow> pool \<Rightarrow> async_pooled \<times> pool" where
  "async_pooled_drop alive g p =
    (case ag_slot g of
       None \<Rightarrow> (g, p)
     | Some i \<Rightarrow>
         (g\<lparr>ag_slot := None\<rparr>,
          if ag_killed g then discard_slot i p
          else case pl_strategy p of Cold \<Rightarrow> discard_slot i p | Warm \<Rightarrow> return_slot_warm alive i p))"

section \<open>What the async pool repeats\<close>

definition async_pool_new :: "nat \<Rightarrow> strategy \<Rightarrow> isle_error + pool" where
  "async_pool_new max_size strat =
    (if max_size = 0 then Inl (Init (failure_new KExternal ''max_size must be > 0''))
     else Inr \<lparr>pl_idle = [], pl_active = 0, pl_closed = False, pl_poisoned = False, pl_max = max_size,
               pl_strategy = strat, pl_shut = [], pl_signals = []\<rparr>)"

definition async_active :: "pool \<Rightarrow> nat" where
  "async_active p = (case lock_inner p of Inl e \<Rightarrow> 0 | Inr u \<Rightarrow> pl_active p)"

definition async_idle :: "pool \<Rightarrow> nat" where
  "async_idle p = (case lock_inner p of Inl e \<Rightarrow> 0 | Inr u \<Rightarrow> length (pl_idle p))"

function take_alive_slot :: "(nat \<Rightarrow> bool) \<Rightarrow> pool \<Rightarrow> nat option \<times> pool" where
  "take_alive_slot alive p =
    (if pl_idle p = [] then (None, p)
     else let slot = last (pl_idle p); p1 = p\<lparr>pl_idle := butlast (pl_idle p)\<rparr>
          in if alive slot then (Some slot, p1) else take_alive_slot alive p1)"
  by pat_completeness auto
termination
  by (relation "measure (\<lambda>(alive, p). length (pl_idle p))") auto

declare take_alive_slot.simps [simp del]

definition async_can_grow :: "pool \<Rightarrow> bool" where
  "async_can_grow p \<longleftrightarrow> pl_active p + length (pl_idle p) < pl_max p"

section \<open>A guard gives its isle back once\<close>

lemma pooled_drop_is_guard_drop:
  "pooled_drop alive (pooled_new i) p = (\<lparr>pd_isle = None, pd_killed = False\<rparr>, guard_drop alive False i p)"
  "pooled_drop alive (pooled_kill (pooled_new i)) p = (\<lparr>pd_isle = None, pd_killed = True\<rparr>, guard_drop alive True i p)"
  by (simp_all add: pooled_drop_def pooled_new_def pooled_kill_def guard_drop_def)

lemma async_pooled_drop_is_guard_drop:
  "async_pooled_drop alive (async_pooled_new i) p = (\<lparr>ag_slot = None, ag_killed = False\<rparr>, async_guard_drop alive False i p)"
  "async_pooled_drop alive (async_pooled_kill (async_pooled_new i)) p =
    (\<lparr>ag_slot = None, ag_killed = True\<rparr>, async_guard_drop alive True i p)"
  by (simp_all add: async_pooled_drop_def async_pooled_new_def async_pooled_kill_def async_guard_drop_def)

lemma pooled_drop_once:
  assumes "pooled_drop alive g p = (g', p')"
  shows "pooled_drop alive' g' q = (g', q)" and "pooled_deref g' = None"
  using assms by (auto simp: pooled_drop_def pooled_deref_def split: option.splits)

lemma async_pooled_drop_once:
  assumes "async_pooled_drop alive g p = (g', p')"
  shows "async_pooled_drop alive' g' q = (g', q)" and "async_pooled_deref g' = None"
  using assms by (auto simp: async_pooled_drop_def async_pooled_deref_def split: option.splits)

lemma pooled_deref_live: "pooled_deref (pooled_new i) = Some i" "pooled_deref (pooled_kill g) = pooled_deref g"
  by (simp_all add: pooled_deref_def pooled_new_def pooled_kill_def)

section \<open>Both pools agree\<close>

lemma async_pool_new_eq: "async_pool_new = pool_new"
  by (simp add: fun_eq_iff async_pool_new_def pool_new_def)

lemma async_counts: "async_active = active_count" "async_idle = idle_count"
  by (simp_all add: fun_eq_iff async_active_def async_idle_def active_count_def idle_count_def lock_inner_def)

lemma take_alive_slot_eq:
  "take_alive_slot alive p = (let (i, rest) = take_alive alive (pl_idle p) in (i, p\<lparr>pl_idle := rest\<rparr>))"
proof (induction alive p rule: take_alive_slot.induct)
  case (1 alive p)
  show ?case
    using 1 by (subst take_alive_slot.simps, subst take_alive.simps) (auto simp: Let_def split_beta)
qed

lemma async_acquire_steps:
  "async_acquire alive p =
    (case lock_inner p of
       Inl e \<Rightarrow> (Inl e, p)
     | Inr u \<Rightarrow>
         if pl_closed p then (Inl Shutdown, p)
         else let (slot, p1) = take_alive_slot alive p
              in case slot of
                   Some i \<Rightarrow> (Inr (Acquired i), p1\<lparr>pl_active := Suc (pl_active p1)\<rparr>)
                 | None \<Rightarrow>
                     if async_can_grow p1 then (Inr SpawnNeeded, p1\<lparr>pl_active := Suc (pl_active p1)\<rparr>) else (Inr NeedWait, p1))"
  by (auto simp: async_acquire_def take_alive_slot_eq async_can_grow_def can_grow_def Let_def split_beta split: option.split sum.split)

end
