(* ===== verification/Isle_Pool_Async.thy ===== *)
theory Isle_Pool_Async
  imports Isle_Pool
begin

text \<open>
  The checkouts of the async pool as futures (\<^verbatim>\<open>checkout\<close>, \<^verbatim>\<open>try_checkout\<close> and \<^verbatim>\<open>checkout_timeout\<close> of
  \<^verbatim>\<open>src/async_pool.rs\<close>), on any number of threads.

  A step of a checkout is one access to what the threads share: the creation of the \<^verbatim>\<open>notified()\<close> future, the
  critical section of \<^verbatim>\<open>try_acquire\<close>, a poll of the spawn, a poll of the \<^verbatim>\<open>notified\<close> future.  tokio's \<^verbatim>\<open>Notify\<close>
  is the parameter \<open>notify_env\<close>; the operations of \<open>Isle_Pool\<close> say which notifications they send.
\<close>

section \<open>State\<close>

record 'n notify_env =
  nt_new :: "'n \<Rightarrow> nat \<times> 'n"
  nt_poll :: "nat \<Rightarrow> 'n \<Rightarrow> bool \<times> 'n"
  nt_drop :: "nat \<Rightarrow> 'n \<Rightarrow> 'n"
  nt_one :: "'n \<Rightarrow> 'n"
  nt_all :: "'n \<Rightarrow> 'n"

record 'n async_pool =
  ap_pool :: pool
  ap_notify :: 'n

text \<open>The notifications an operation of the pool sends.\<close>

definition send_signal :: "'n notify_env \<Rightarrow> signal \<Rightarrow> 'n \<Rightarrow> 'n" where
  "send_signal env x n = (case x of NotifyOne \<Rightarrow> nt_one env n | NotifyAll \<Rightarrow> nt_all env n)"

definition on_pool :: "'n notify_env \<Rightarrow> (pool \<Rightarrow> pool) \<Rightarrow> 'n async_pool \<Rightarrow> 'n async_pool" where
  "on_pool env f a =
    (let p = f (ap_pool a)
     in a\<lparr>ap_pool := p,
          ap_notify := fold (send_signal env) (drop (length (pl_signals (ap_pool a))) (pl_signals p)) (ap_notify a)\<rparr>)"

section \<open>A checkout\<close>

text \<open>Where a checkout is: \<open>CkNotified\<close>, \<open>CkSpawning\<close> and \<open>CkWait\<close> hold the \<^verbatim>\<open>notified\<close> future of their round.\<close>

datatype async_checkout =
    CkStart
  | CkNotified nat
  | CkSpawning nat
  | CkWait nat
  | CkEnd "isle_error + nat"

definition ck_end ::
  "'n notify_env \<Rightarrow> nat \<Rightarrow> isle_error + nat \<Rightarrow> 'n async_pool \<Rightarrow> async_checkout \<times> 'n async_pool" where
  "ck_end env k r a = (CkEnd r, a\<lparr>ap_notify := nt_drop env k (ap_notify a)\<rparr>)"

text \<open>The deadline of \<^verbatim>\<open>checkout_timeout\<close>; \<^verbatim>\<open>checkout\<close> has none.\<close>

definition expired :: "nat option \<Rightarrow> nat \<Rightarrow> bool" where
  "expired d now = (case d of None \<Rightarrow> False | Some t \<Rightarrow> t \<le> now)"

text \<open>\<open>spawned\<close> is what the poll of the spawn says.\<close>

definition checkout_step ::
  "'n notify_env \<Rightarrow> (nat \<Rightarrow> bool) \<Rightarrow> nat option \<Rightarrow> nat \<Rightarrow> (isle_error + nat) option \<Rightarrow> async_checkout \<Rightarrow> 'n async_pool \<Rightarrow>
    async_checkout \<times> 'n async_pool" where
  "checkout_step env alive d now spawned c a =
    (case c of
       CkStart \<Rightarrow> let (k, n) = nt_new env (ap_notify a) in (CkNotified k, a\<lparr>ap_notify := n\<rparr>)
     | CkNotified k \<Rightarrow>
         (case async_acquire alive (ap_pool a) of
            (Inl e, p) \<Rightarrow> ck_end env k (Inl e) (a\<lparr>ap_pool := p\<rparr>)
          | (Inr (Acquired i), p) \<Rightarrow> ck_end env k (Inr i) (a\<lparr>ap_pool := p\<rparr>)
          | (Inr SpawnNeeded, p) \<Rightarrow> (CkSpawning k, a\<lparr>ap_pool := p\<rparr>)
          | (Inr NeedWait, p) \<Rightarrow>
              if expired d now then ck_end env k (Inl (PoolExhausted (pl_max p))) (a\<lparr>ap_pool := p\<rparr>)
              else (CkWait k, a\<lparr>ap_pool := p\<rparr>))
     | CkSpawning k \<Rightarrow>
         (case spawned of
            None \<Rightarrow> (CkSpawning k, a)
          | Some (Inr i) \<Rightarrow> ck_end env k (Inr i) a
          | Some (Inl e) \<Rightarrow> ck_end env k (Inl e) (on_pool env dec_active a))
     | CkWait k \<Rightarrow>
         (case nt_poll env k (ap_notify a) of
            (True, n) \<Rightarrow> (CkStart, a\<lparr>ap_notify := nt_drop env k n\<rparr>)
          | (False, n) \<Rightarrow>
              if expired d now then ck_end env k (Inl (PoolExhausted (pl_max (ap_pool a)))) (a\<lparr>ap_notify := n\<rparr>)
              else (CkWait k, a\<lparr>ap_notify := n\<rparr>))
     | CkEnd r \<Rightarrow> (CkEnd r, a))"

text \<open>A checkout that is dropped; a place it took for a spawn is not given back.\<close>

definition checkout_drop :: "'n notify_env \<Rightarrow> async_checkout \<Rightarrow> 'n async_pool \<Rightarrow> 'n async_pool" where
  "checkout_drop env c a =
    (case c of
       CkNotified k \<Rightarrow> a\<lparr>ap_notify := nt_drop env k (ap_notify a)\<rparr>
     | CkSpawning k \<Rightarrow> a\<lparr>ap_notify := nt_drop env k (ap_notify a)\<rparr>
     | CkWait k \<Rightarrow> a\<lparr>ap_notify := nt_drop env k (ap_notify a)\<rparr>
     | _ \<Rightarrow> a)"

text \<open>\<^verbatim>\<open>try_checkout\<close>: its critical section, and the end of its spawn.\<close>

definition async_try_checkout ::
  "(nat \<Rightarrow> bool) \<Rightarrow> 'n async_pool \<Rightarrow> (isle_error + nat option) option \<times> 'n async_pool" where
  "async_try_checkout alive a =
    (case async_acquire alive (ap_pool a) of
       (Inl e, p) \<Rightarrow> (Some (Inl e), a\<lparr>ap_pool := p\<rparr>)
     | (Inr (Acquired i), p) \<Rightarrow> (Some (Inr (Some i)), a\<lparr>ap_pool := p\<rparr>)
     | (Inr SpawnNeeded, p) \<Rightarrow> (None, a\<lparr>ap_pool := p\<rparr>)
     | (Inr NeedWait, p) \<Rightarrow> (Some (Inr None), a\<lparr>ap_pool := p\<rparr>))"

definition async_try_spawned ::
  "'n notify_env \<Rightarrow> isle_error + nat \<Rightarrow> 'n async_pool \<Rightarrow> (isle_error + nat option) \<times> 'n async_pool" where
  "async_try_spawned env spawned a =
    (case spawned of Inr i \<Rightarrow> (Inr (Some i), a) | Inl e \<Rightarrow> (Inl e, on_pool env dec_active a))"

section \<open>Many checkouts\<close>

record 'n async_pool_sys =
  as_pool :: "'n async_pool"
  as_checkout :: "nat \<Rightarrow> async_checkout"

datatype async_pool_op =
    CheckoutStep nat "nat option" nat "(isle_error + nat) option"
  | CheckoutDrop nat
  | GuardDrop nat bool
  | AsyncShutdown

definition ap_exec :: "'n notify_env \<Rightarrow> (nat \<Rightarrow> bool) \<Rightarrow> async_pool_op \<Rightarrow> 'n async_pool_sys \<Rightarrow> 'n async_pool_sys" where
  "ap_exec env alive op S =
    (case op of
       CheckoutStep c d now spawned \<Rightarrow>
         let (ck, a) = checkout_step env alive d now spawned (as_checkout S c) (as_pool S)
         in S\<lparr>as_pool := a, as_checkout := (as_checkout S)(c := ck)\<rparr>
     | CheckoutDrop c \<Rightarrow>
         S\<lparr>as_pool := checkout_drop env (as_checkout S c) (as_pool S), as_checkout := (as_checkout S)(c := CkStart)\<rparr>
     | GuardDrop i killed \<Rightarrow> S\<lparr>as_pool := on_pool env (async_guard_drop alive killed i) (as_pool S)\<rparr>
     | AsyncShutdown \<Rightarrow> S\<lparr>as_pool := on_pool env async_shutdown (as_pool S)\<rparr>)"

definition ap_run :: "'n notify_env \<Rightarrow> (nat \<Rightarrow> bool) \<Rightarrow> async_pool_op list \<Rightarrow> 'n async_pool_sys \<Rightarrow> 'n async_pool_sys" where
  "ap_run env alive ops S = fold (ap_exec env alive) ops S"

end
