(* ===== verification/Isle_Pool_Async_Props.thy ===== *)
theory Isle_Pool_Async_Props
  imports Isle_Pool_Async
begin

text \<open>
  A wakeup the async pool loses: two VMs come back while two checkouts are on the way to sleep, and one of the
  checkouts sleeps on beside an idle VM.  tokio's \<^verbatim>\<open>Notify\<close> is any implementation that behaves as documented
  (\<open>notify_ok\<close>): it stores at most one permit for futures that were not polled yet.
\<close>

section \<open>Notify as documented\<close>

text \<open>
  The stored permit; the futures that wait, in order; those woken by \<^verbatim>\<open>notify_one\<close> and by \<^verbatim>\<open>notify_waiters\<close>; those not
  polled yet.
\<close>

record notify_view =
  nv_permit :: bool
  nv_waiting :: "nat list"
  nv_woken :: "nat list"
  nv_all :: "nat list"
  nv_created :: "nat list"
  nv_fresh :: nat

definition doc_new :: "notify_view \<Rightarrow> nat \<times> notify_view" where
  "doc_new v = (nv_fresh v, v\<lparr>nv_created := nv_fresh v # nv_created v, nv_fresh := Suc (nv_fresh v)\<rparr>)"

definition doc_poll :: "nat \<Rightarrow> notify_view \<Rightarrow> bool \<times> notify_view" where
  "doc_poll k v =
    (if k \<in> set (nv_woken v) \<or> k \<in> set (nv_all v)
     then (True, v\<lparr>nv_woken := removeAll k (nv_woken v), nv_all := removeAll k (nv_all v)\<rparr>)
     else if k \<in> set (nv_waiting v) then (False, v)
     else if nv_permit v then (True, v\<lparr>nv_permit := False, nv_created := removeAll k (nv_created v)\<rparr>)
     else (False, v\<lparr>nv_waiting := nv_waiting v @ [k], nv_created := removeAll k (nv_created v)\<rparr>))"

definition doc_one :: "notify_view \<Rightarrow> notify_view" where
  "doc_one v =
    (case nv_waiting v of
       [] \<Rightarrow> v\<lparr>nv_permit := True\<rparr>
     | k # ws \<Rightarrow> v\<lparr>nv_waiting := ws, nv_woken := nv_woken v @ [k]\<rparr>)"

definition doc_all :: "notify_view \<Rightarrow> notify_view" where
  "doc_all v = v\<lparr>nv_all := nv_all v @ nv_waiting v @ nv_created v, nv_waiting := [], nv_created := []\<rparr>"

text \<open>A future that was woken by \<^verbatim>\<open>notify_one\<close> and is dropped passes its notification on.\<close>

definition doc_drop :: "nat \<Rightarrow> notify_view \<Rightarrow> notify_view" where
  "doc_drop k v =
    (let v1 = v\<lparr>nv_waiting := removeAll k (nv_waiting v), nv_woken := removeAll k (nv_woken v),
               nv_all := removeAll k (nv_all v), nv_created := removeAll k (nv_created v)\<rparr>
     in if k \<in> set (nv_woken v) then doc_one v1 else v1)"

definition doc_env :: "notify_view notify_env" where
  "doc_env = \<lparr>nt_new = doc_new, nt_poll = doc_poll, nt_drop = doc_drop, nt_one = doc_one, nt_all = doc_all\<rparr>"

definition notify_ok :: "'n notify_env \<Rightarrow> ('n \<Rightarrow> notify_view) \<Rightarrow> bool" where
  "notify_ok env view \<longleftrightarrow>
    (\<forall>n. map_prod id view (nt_new env n) = doc_new (view n)) \<and>
    (\<forall>k n. map_prod id view (nt_poll env k n) = doc_poll k (view n)) \<and>
    (\<forall>k n. view (nt_drop env k n) = doc_drop k (view n)) \<and>
    (\<forall>n. view (nt_one env n) = doc_one (view n)) \<and>
    (\<forall>n. view (nt_all env n) = doc_all (view n))"

section \<open>Any such Notify does what the documented one does\<close>

definition pool_view :: "('n \<Rightarrow> notify_view) \<Rightarrow> 'n async_pool \<Rightarrow> notify_view async_pool" where
  "pool_view view a = \<lparr>ap_pool = ap_pool a, ap_notify = view (ap_notify a)\<rparr>"

definition sys_view :: "('n \<Rightarrow> notify_view) \<Rightarrow> 'n async_pool_sys \<Rightarrow> notify_view async_pool_sys" where
  "sys_view view S = \<lparr>as_pool = pool_view view (as_pool S), as_checkout = as_checkout S\<rparr>"

lemma view_ops:
  assumes "notify_ok env view"
  shows "fst (nt_new env n) = fst (doc_new (view n))" and "view (snd (nt_new env n)) = snd (doc_new (view n))"
    and "fst (nt_poll env k n) = fst (doc_poll k (view n))" and "view (snd (nt_poll env k n)) = snd (doc_poll k (view n))"
    and "view (nt_drop env k n) = doc_drop k (view n)" and "view (send_signal env x n) = send_signal doc_env x (view n)"
proof -
  have "map_prod id view (nt_new env n) = doc_new (view n)" "map_prod id view (nt_poll env k n) = doc_poll k (view n)"
    using assms unfolding notify_ok_def by blast+
  then show "fst (nt_new env n) = fst (doc_new (view n))" "view (snd (nt_new env n)) = snd (doc_new (view n))"
    "fst (nt_poll env k n) = fst (doc_poll k (view n))" "view (snd (nt_poll env k n)) = snd (doc_poll k (view n))"
    by (metis fst_map_prod snd_map_prod id_apply)+
  show "view (nt_drop env k n) = doc_drop k (view n)" using assms unfolding notify_ok_def by blast
  show "view (send_signal env x n) = send_signal doc_env x (view n)"
    using assms unfolding notify_ok_def by (simp add: send_signal_def doc_env_def split: signal.split)
qed

lemma view_signals:
  assumes "notify_ok env view"
  shows "view (fold (send_signal env) xs n) = fold (send_signal doc_env) xs (view n)"
  by (induction xs arbitrary: n) (simp_all add: view_ops [OF assms])

lemma view_on_pool:
  assumes "notify_ok env view"
  shows "pool_view view (on_pool env f a) = on_pool doc_env f (pool_view view a)"
  by (simp add: on_pool_def pool_view_def Let_def view_signals [OF assms])

lemma view_checkout:
  assumes "notify_ok env view"
  shows "map_prod id (pool_view view) (checkout_step env alive d now spawned c a) =
    checkout_step doc_env alive d now spawned c (pool_view view a)"
proof -
  note V = view_ops [OF assms]
  have e: "nt_new doc_env = doc_new" "nt_poll doc_env = doc_poll" "nt_drop doc_env = doc_drop" by (simp_all add: doc_env_def)
  have end_view: "map_prod id (pool_view view) (ck_end env k r b) = ck_end doc_env k r (pool_view view b)" for k r b
    by (simp add: ck_end_def pool_view_def V e)
  show ?thesis
  proof (cases c)
    case (CkNotified k)
    obtain r p where "async_acquire alive (ap_pool a) = (r, p)" by fastforce
    then show ?thesis
      by (cases r; cases "case r of Inr x \<Rightarrow> x | _ \<Rightarrow> NeedWait")
        (auto simp: checkout_step_def CkNotified ck_end_def pool_view_def V e)
  next
    case (CkSpawning k)
    then show ?thesis
      by (auto simp: checkout_step_def end_view view_on_pool [OF assms] split: option.split sum.split)
  next
    case (CkWait k)
    obtain b n where p: "nt_poll env k (ap_notify a) = (b, n)" by fastforce
    obtain b' n' where p': "doc_poll k (view (ap_notify a)) = (b', n')" by fastforce
    have "b' = b" "view n = n'" using V(3,4) [of k "ap_notify a"] p p' by simp_all
    then show ?thesis using p p' by (auto simp: checkout_step_def CkWait ck_end_def pool_view_def V e split: bool.split)
  next
    case CkStart
    then show ?thesis by (simp add: checkout_step_def pool_view_def V e split_beta)
  qed (simp add: checkout_step_def)
qed

lemma view_exec:
  assumes "notify_ok env view"
  shows "sys_view view (ap_exec env alive op S) = ap_exec doc_env alive op (sys_view view S)"
proof (cases op)
  case (CheckoutStep c d now spawned)
  have "map_prod id (pool_view view) (checkout_step env alive d now spawned (as_checkout S c) (as_pool S)) =
      checkout_step doc_env alive d now spawned (as_checkout S c) (pool_view view (as_pool S))"
    by (rule view_checkout [OF assms])
  then show ?thesis
    by (auto simp: ap_exec_def CheckoutStep sys_view_def split: prod.splits)
next
  case (CheckoutDrop c)
  have "pool_view view (checkout_drop env (as_checkout S c) (as_pool S)) =
      checkout_drop doc_env (as_checkout S c) (pool_view view (as_pool S))"
    using view_ops(5) [OF assms]
    by (simp add: checkout_drop_def pool_view_def doc_env_def split: async_checkout.split)
  then show ?thesis by (simp add: ap_exec_def CheckoutDrop sys_view_def)
qed (simp_all add: ap_exec_def sys_view_def view_on_pool [OF assms])

lemma view_run:
  assumes "notify_ok env view"
  shows "sys_view view (ap_run env alive ops S) = ap_run doc_env alive ops (sys_view view S)"
  unfolding ap_run_def by (induction ops arbitrary: S) (simp_all add: view_exec [OF assms])

section \<open>The lost wakeup\<close>

text \<open>Two checkouts run into a pool that is full; both VMs are returned before either has polled its \<^verbatim>\<open>notified\<close>
  future; then the first one polls, goes round and checks a VM out.\<close>

definition lost_wakeup :: "nat \<Rightarrow> nat \<Rightarrow> nat \<Rightarrow> nat \<Rightarrow> async_pool_op list" where
  "lost_wakeup c d i j =
    [CheckoutStep c None 0 None, CheckoutStep c None 0 None, CheckoutStep d None 0 None, CheckoutStep d None 0 None,
     GuardDrop i False, GuardDrop j False,
     CheckoutStep c None 0 None, CheckoutStep c None 0 None, CheckoutStep c None 0 None]"

definition quiet :: "notify_view \<Rightarrow> bool" where
  "quiet v \<longleftrightarrow> \<not> nv_permit v \<and> nv_waiting v = [] \<and> nv_woken v = [] \<and> nv_all v = [] \<and> nv_created v = []"

definition full_pool :: "pool \<Rightarrow> bool" where
  "full_pool p \<longleftrightarrow> \<not> pl_poisoned p \<and> \<not> pl_closed p \<and> pl_strategy p = Warm \<and> pl_idle p = [] \<and> pl_active p = pl_max p"

lemma take_alive_last: "alive j \<Longrightarrow> take_alive alive (xs @ [j]) = (Some j, xs)"
  by (subst take_alive.simps) simp

lemma take_alive_nil: "take_alive alive [] = (None, [])"
  by (subst take_alive.simps) simp

lemmas step_defs = ap_exec_def checkout_step_def async_acquire_def lock_inner_def can_grow_def expired_def on_pool_def
  async_guard_drop_def return_slot_warm_def signal_pool_def send_signal_def ck_end_def doc_env_def doc_new_def
  doc_poll_def doc_one_def doc_drop_def

text \<open>The run, with its final state written out.\<close>

lemma doc_lost_wakeup:
  assumes "quiet v" and "full_pool p" and "2 \<le> pl_max p" and "alive i" and "alive j"
    and "c \<noteq> d" and "ck c = CkStart" and "ck d = CkStart"
  shows "\<exists>p'. ap_run doc_env alive (lost_wakeup c d i j) \<lparr>as_pool = \<lparr>ap_pool = p, ap_notify = v\<rparr>, as_checkout = ck\<rparr> =
    \<lparr>as_pool = \<lparr>ap_pool = p', ap_notify = v\<lparr>nv_created := [Suc (nv_fresh v)], nv_fresh := nv_fresh v + 3\<rparr>\<rparr>,
     as_checkout = ck(c := CkEnd (Inr j), d := CkWait (Suc (nv_fresh v)))\<rparr> \<and> pl_idle p' = [i] \<and> Suc (pl_active p') = pl_max p"
proof -
  obtain f where v: "v = \<lparr>nv_permit = False, nv_waiting = [], nv_woken = [], nv_all = [], nv_created = [], nv_fresh = f\<rparr>"
    using assms(1) by (cases v) (auto simp: quiet_def)
  obtain m sh sg where p: "p = \<lparr>pl_idle = [], pl_active = m, pl_closed = False, pl_poisoned = False, pl_max = m,
      pl_strategy = Warm, pl_shut = sh, pl_signals = sg\<rparr>"
    using assms(2) by (cases p) (auto simp: full_pool_def)
  have "2 \<le> m" using assms(3) by (simp add: p)
  let ?s1 = "\<lparr>as_pool = \<lparr>ap_pool = p, ap_notify = v\<lparr>nv_created := [Suc f, f], nv_fresh := f + 2\<rparr>\<rparr>,
      as_checkout = ck(c := CkWait f, d := CkWait (Suc f))\<rparr>"
  let ?p2 = "p\<lparr>pl_idle := [i, j], pl_active := m - 2, pl_signals := sg @ [NotifyOne, NotifyOne]\<rparr>"
  let ?s2 = "\<lparr>as_pool = \<lparr>ap_pool = ?p2,
      ap_notify = v\<lparr>nv_permit := True, nv_created := [Suc f, f], nv_fresh := f + 2\<rparr>\<rparr>,
      as_checkout = ck(c := CkWait f, d := CkWait (Suc f))\<rparr>"
  have 1: "ap_run doc_env alive [CheckoutStep c None 0 None, CheckoutStep c None 0 None, CheckoutStep d None 0 None,
      CheckoutStep d None 0 None] \<lparr>as_pool = \<lparr>ap_pool = p, ap_notify = v\<rparr>, as_checkout = ck\<rparr> = ?s1"
    using assms(6-8) by (simp add: ap_run_def step_defs take_alive_nil v p fun_upd_twist)
  have 2: "ap_run doc_env alive [GuardDrop i False, GuardDrop j False] ?s1 = ?s2"
    using assms(4,5) by (simp add: ap_run_def step_defs v p)
  have t: "take_alive alive [i, j] = (Some j, [i])" using take_alive_last [where alive = alive and j = j and xs = "[i]"] assms(5) by simp
  have 3: "ap_run doc_env alive [CheckoutStep c None 0 None, CheckoutStep c None 0 None, CheckoutStep c None 0 None] ?s2 =
    \<lparr>as_pool = \<lparr>ap_pool = ?p2\<lparr>pl_idle := [i], pl_active := m - 1\<rparr>,
       ap_notify = v\<lparr>nv_created := [Suc f], nv_fresh := f + 3\<rparr>\<rparr>,
     as_checkout = ck(c := CkEnd (Inr j), d := CkWait (Suc f))\<rparr>"
    using assms(6) \<open>2 \<le> m\<close> by (simp add: ap_run_def step_defs t v p fun_upd_twist)
  have "ap_run doc_env alive (lost_wakeup c d i j) S = ap_run doc_env alive
      [CheckoutStep c None 0 None, CheckoutStep c None 0 None, CheckoutStep c None 0 None]
      (ap_run doc_env alive [GuardDrop i False, GuardDrop j False]
        (ap_run doc_env alive [CheckoutStep c None 0 None, CheckoutStep c None 0 None, CheckoutStep d None 0 None,
          CheckoutStep d None 0 None] S))" for S
    by (simp add: lost_wakeup_def ap_run_def)
  note run = this
  have fr: "nv_fresh v = f" by (simp add: v)
  show ?thesis unfolding run 1 2 3 fr
    by (rule exI [where x = "?p2\<lparr>pl_idle := [i], pl_active := m - 1\<rparr>"]) (use \<open>2 \<le> m\<close> in \<open>simp add: p\<close>)
qed

text \<open>From there on the other checkout is polled in vain.\<close>

lemma doc_sleeps:
  assumes "\<not> nv_permit v" and "nv_woken v = []" and "nv_all v = []" and "ck d = CkWait k"
  shows "as_checkout (ap_run doc_env alive (replicate m (CheckoutStep d None 0 None))
      \<lparr>as_pool = \<lparr>ap_pool = p, ap_notify = v\<rparr>, as_checkout = ck\<rparr>) d = CkWait k"
  using assms
proof (induction m arbitrary: v ck)
  case (Suc m)
  obtain v' where v': "doc_poll k v = (False, v')" "\<not> nv_permit v'" "nv_woken v' = []" "nv_all v' = []"
    using Suc.prems(1-3) by (cases "k \<in> set (nv_waiting v)") (auto simp: doc_poll_def)
  have "ap_exec doc_env alive (CheckoutStep d None 0 None) \<lparr>as_pool = \<lparr>ap_pool = p, ap_notify = v\<rparr>, as_checkout = ck\<rparr> =
      \<lparr>as_pool = \<lparr>ap_pool = p, ap_notify = v'\<rparr>, as_checkout = ck(d := CkWait k)\<rparr>"
    using Suc.prems(4) v'(1) by (simp add: ap_exec_def checkout_step_def doc_env_def expired_def)
  moreover have "as_checkout (ap_run doc_env alive (replicate m (CheckoutStep d None 0 None))
      \<lparr>as_pool = \<lparr>ap_pool = p, ap_notify = v'\<rparr>, as_checkout = ck(d := CkWait k)\<rparr>) d = CkWait k"
    by (rule Suc.IH) (use v' in simp_all)
  ultimately show ?case by (simp only: ap_run_def replicate_Suc fold_simps)
qed (simp add: ap_run_def)

text \<open>C35: An async checkout can sleep beside an idle VM.  When two VMs are returned while two checkouts are between
  their look at the pool and the first poll of their \<^verbatim>\<open>notified\<close> future, the second notification is lost: one
  checkout gets a VM, the other VM is idle, and the other checkout is not woken, however often it is polled,
  until something else happens to the pool.\<close>

theorem async_checkout_sleeps_beside_an_idle_vm:
  assumes "notify_ok env view" and "quiet (view (ap_notify (as_pool S)))" and "full_pool (ap_pool (as_pool S))"
    and "2 \<le> pl_max (ap_pool (as_pool S))" and "alive i" and "alive j"
    and "c \<noteq> d" and "as_checkout S c = CkStart" and "as_checkout S d = CkStart"
    and "T = ap_run env alive (lost_wakeup c d i j) S"
  shows "as_checkout T c = CkEnd (Inr j) \<and> pl_idle (ap_pool (as_pool T)) = [i] \<and>
    Suc (pl_active (ap_pool (as_pool T))) = pl_max (ap_pool (as_pool S)) \<and>
    (\<exists>k. as_checkout (ap_run env alive (replicate m (CheckoutStep d None 0 None)) T) d = CkWait k)"
proof -
  let ?v = "view (ap_notify (as_pool S))" and ?p = "ap_pool (as_pool S)"
  let ?k = "Suc (nv_fresh ?v)"
  have V: "as_checkout (sys_view view R) = as_checkout R" "ap_pool (as_pool (sys_view view R)) = ap_pool (as_pool R)" for R
    by (simp_all add: sys_view_def pool_view_def)
  have S: "sys_view view S = \<lparr>as_pool = \<lparr>ap_pool = ?p, ap_notify = ?v\<rparr>, as_checkout = as_checkout S\<rparr>"
    by (simp add: sys_view_def pool_view_def)
  obtain p' where p': "sys_view view T = \<lparr>as_pool = \<lparr>ap_pool = p', ap_notify = ?v\<lparr>nv_created := [?k], nv_fresh := nv_fresh ?v + 3\<rparr>\<rparr>,
      as_checkout = (as_checkout S)(c := CkEnd (Inr j), d := CkWait ?k)\<rparr>" "pl_idle p' = [i]" "Suc (pl_active p') = pl_max ?p"
    using doc_lost_wakeup [OF assms(2-9)] view_run [OF assms(1), of alive "lost_wakeup c d i j" S]
    unfolding assms(10) S by auto
  have "as_checkout (ap_run doc_env alive (replicate m (CheckoutStep d None 0 None)) (sys_view view T)) d = CkWait ?k"
    unfolding p'(1) by (rule doc_sleeps) (use assms(2) in \<open>auto simp: quiet_def\<close>)
  then have "as_checkout (ap_run env alive (replicate m (CheckoutStep d None 0 None)) T) d = CkWait ?k"
    using V(1) view_run [OF assms(1)] by metis
  moreover have "as_checkout T c = CkEnd (Inr j)" 
    unfolding V(1) [of T, symmetric] p'(1) using assms(7) by simp
  moreover have "ap_pool (as_pool T) = p'" unfolding V(2) [of T, symmetric] p'(1) by simp
  ultimately show ?thesis using p' by blast
qed

definition demo_full :: "notify_view async_pool_sys" where
  "demo_full =
    \<lparr>as_pool = \<lparr>ap_pool = \<lparr>pl_idle = [], pl_active = 2, pl_closed = False, pl_poisoned = False, pl_max = 2,
        pl_strategy = Warm, pl_shut = [], pl_signals = []\<rparr>,
       ap_notify = \<lparr>nv_permit = False, nv_waiting = [], nv_woken = [], nv_all = [], nv_created = [], nv_fresh = 0\<rparr>\<rparr>,
     as_checkout = (\<lambda>_. CkStart)\<rparr>"

lemma async_checkout_sleeps_beside_an_idle_vm_witness:
  "pl_idle (ap_pool (as_pool (ap_run doc_env (\<lambda>_. True) (lost_wakeup 0 1 7 8) demo_full))) = [7] \<and>
   (\<exists>k. as_checkout (ap_run doc_env (\<lambda>_. True) (replicate 5 (CheckoutStep 1 None 0 None))
      (ap_run doc_env (\<lambda>_. True) (lost_wakeup 0 1 7 8) demo_full)) 1 = CkWait k)"
proof -
  have "notify_ok doc_env (\<lambda>v. v)" by (simp add: notify_ok_def doc_env_def prod.map_id0 flip: id_def)
  from async_checkout_sleeps_beside_an_idle_vm [OF this, where S = demo_full and alive = "\<lambda>_. True" and i = 7 and j = 8
      and c = 0 and d = 1 and m = 5, OF _ _ _ _ _ _ _ _ refl]
  show ?thesis by (simp add: demo_full_def quiet_def full_pool_def)
qed

end
