(* ===== verification/Isle_Hub.thy ===== *)
theory Isle_Hub
  imports Isle_Error "HOL-Library.Word"
begin

text \<open>
  The hook hub of \<^verbatim>\<open>src/hub.rs\<close>: one global Lua debug hook for cancellation, preemption and user
  callbacks.

  mlua is a parameter where the code asks it: the event, the source name of the running function,
  the running thread, the raw hook function that \<^verbatim>\<open>lua_gethook\<close> reads after \<^verbatim>\<open>set_global_hook\<close>
  (\<open>raw\<close>) and whether that call failed.  A user callback is a parameter too: given the hub, it
  answers with the hooks it adds or removes and the settings it stores while it runs, and with its
  result.  Counters keep their width (\<^verbatim>\<open>u32\<close>, \<^verbatim>\<open>usize\<close>); the addition to \<^verbatim>\<open>counted\<close> is Rust's in a
  release build, which wraps.
\<close>

type_synonym u32 = "32 word"
type_synonym usize = "64 word"

section \<open>Data\<close>

record triggers =
  tr_calls :: bool
  tr_returns :: bool
  tr_line :: bool
  tr_count :: "u32 option"

record hook_entry =
  en_id :: nat
  en_triggers :: triggers

record config =
  cf_grace :: nat
  cf_preempt :: "u32 option"

record hub =
  hb_entries :: "hook_entry list"
  hb_counted :: "nat \<Rightarrow> u32"
  hb_next_id :: nat
  hb_config :: config
  hb_checks :: u32
  hb_deferred :: u32
  hb_installed :: nat
  hb_raw :: nat
  hb_hook :: "(triggers \<times> u32 \<times> u32) option"
  hb_turn :: usize

datatype hook_event = EvCount | EvLine | EvCall | EvTailCall | EvRet | EvUnknown

datatype vm_state = VmYield | VmContinue

datatype hub_act = AddHook triggers | RemoveHook nat | SetConfig config

definition hub_default :: hub where
  "hub_default =
    \<lparr>hb_entries = [], hb_counted = (\<lambda>_. 0), hb_next_id = 0,
     hb_config = \<lparr>cf_grace = 0, cf_preempt = None\<rparr>, hb_checks = 0, hb_deferred = 0,
     hb_installed = 0, hb_raw = 0, hb_hook = None, hb_turn = 0\<rparr>"

definition cancel_check_interval :: u32 where
  "cancel_check_interval = 1000"

definition max_deferred :: u32 where
  "max_deferred = 16"

definition async_poll_chunk :: string where
  "async_poll_chunk = ''=__mlua_async_poll''"

definition in_async_poll :: "string option \<Rightarrow> bool" where
  "in_async_poll source \<longleftrightarrow> source = Some async_poll_chunk"

text \<open>\<^verbatim>\<open>u32::is_multiple_of\<close> and \<^verbatim>\<open>u32::div_ceil\<close>.\<close>

definition is_multiple_of :: "u32 \<Rightarrow> u32 \<Rightarrow> bool" where
  "is_multiple_of a b \<longleftrightarrow> (if b = 0 then a = 0 else a mod b = 0)"

definition div_ceil :: "u32 \<Rightarrow> u32 \<Rightarrow> u32" where
  "div_ceil a b = (if a mod b = 0 then a div b else a div b + 1)"

section \<open>Root marks\<close>

definition mark_root :: "nat \<Rightarrow> nat set \<Rightarrow> nat set" where
  "mark_root ptr roots = insert ptr roots"

definition unmark_root :: "nat \<Rightarrow> nat set \<Rightarrow> nat set" where
  "unmark_root ptr roots = roots - {ptr}"

definition is_root :: "nat option \<Rightarrow> nat set \<Rightarrow> bool" where
  "is_root running roots \<longleftrightarrow> (case running of Some ptr \<Rightarrow> ptr \<in> roots | None \<Rightarrow> False)"

section \<open>Installing\<close>

definition merge_triggers :: "triggers \<Rightarrow> hook_entry \<Rightarrow> triggers" where
  "merge_triggers t e =
    (let u = en_triggers e;
         t1 = t\<lparr>tr_calls := tr_calls t \<or> tr_calls u, tr_returns := tr_returns t \<or> tr_returns u,
                tr_line := tr_line t \<or> tr_line u\<rparr>
     in case tr_count u of
          None \<Rightarrow> t1
        | Some n \<Rightarrow>
            let cur = (case tr_count t1 of None \<Rightarrow> n | Some c \<Rightarrow> c)
            in t1\<lparr>tr_count := Some (max (min cur n) 1)\<rparr>)"

definition all_triggers :: "hook_entry list \<Rightarrow> triggers" where
  "all_triggers es =
    foldl merge_triggers
      \<lparr>tr_calls = False, tr_returns = False, tr_line = False, tr_count = Some cancel_check_interval\<rparr> es"

definition hook_step :: "triggers \<Rightarrow> u32" where
  "hook_step t = (case tr_count t of None \<Rightarrow> 1 | Some n \<Rightarrow> n)"

definition cancel_every :: "u32 \<Rightarrow> u32" where
  "cancel_every step = max (div_ceil cancel_check_interval step) 1"

text \<open>\<open>err\<close> is what mlua's \<^verbatim>\<open>set_global_hook\<close> answered.\<close>

definition install :: "(mlua_error \<Rightarrow> isle_error) \<Rightarrow> mlua_error option \<Rightarrow> nat \<Rightarrow> hub \<Rightarrow> (isle_error + unit) \<times> hub"
where
  "install from err raw h =
    (let t = all_triggers (hb_entries h); step = hook_step t
     in case err of
          Some e \<Rightarrow> (Inl (from e), h)
        | None \<Rightarrow>
            (Inr (), h\<lparr>hb_hook := Some (t, step, cancel_every step), hb_raw := raw, hb_installed := raw\<rparr>))"

definition ensure_installed ::
  "(mlua_error \<Rightarrow> isle_error) \<Rightarrow> mlua_error option \<Rightarrow> nat \<Rightarrow> hub \<Rightarrow> (isle_error + unit) \<times> hub" where
  "ensure_installed from err raw h =
    (if hb_installed h = 0 \<or> hb_raw h \<noteq> hb_installed h then install from err raw h else (Inr (), h))"

definition add_hook ::
  "(mlua_error \<Rightarrow> isle_error) \<Rightarrow> mlua_error option \<Rightarrow> nat \<Rightarrow> triggers \<Rightarrow> hub \<Rightarrow> (isle_error + nat) \<times> hub"
where
  "add_hook from err raw t h =
    (let n = hb_next_id h;
         h1 = h\<lparr>hb_next_id := Suc n, hb_entries := hb_entries h @ [\<lparr>en_id = n, en_triggers = t\<rparr>],
                hb_counted := (hb_counted h)(n := 0)\<rparr>;
         (r, h2) = install from err raw h1
     in (map_sum id (\<lambda>_. n) r, h2))"

definition remove_hook ::
  "(mlua_error \<Rightarrow> isle_error) \<Rightarrow> mlua_error option \<Rightarrow> nat \<Rightarrow> nat \<Rightarrow> hub \<Rightarrow> (isle_error + bool) \<times> hub"
where
  "remove_hook from err raw i h =
    (let kept = filter (\<lambda>e. en_id e \<noteq> i) (hb_entries h);
         removed = (length kept \<noteq> length (hb_entries h));
         h1 = h\<lparr>hb_entries := kept\<rparr>
     in if removed
        then let (r, h2) = install from err raw h1 in (map_sum id (\<lambda>_. True) r, h2)
        else (Inr False, h1))"

definition set_config :: "config \<Rightarrow> hub \<Rightarrow> hub" where
  "set_config c h = h\<lparr>hb_config := c\<rparr>"

definition next_select_turn :: "hub \<Rightarrow> usize \<times> hub" where
  "next_select_turn h = (hb_turn h, h\<lparr>hb_turn := hb_turn h + 1\<rparr>)"

text \<open>What a callback does to the hub while it runs (the hook is installed without error there).\<close>

fun hub_exec :: "nat \<Rightarrow> hub_act \<Rightarrow> hub \<Rightarrow> hub" where
  "hub_exec raw (AddHook t) h = snd (add_hook (\<lambda>_. Shutdown) None raw t h)"
| "hub_exec raw (RemoveHook i) h = snd (remove_hook (\<lambda>_. Shutdown) None raw i h)"
| "hub_exec raw (SetConfig c) h = set_config c h"

section \<open>The hook\<close>

text \<open>The count part: the cancel check (an error is the cancel) and preemption (whether to yield).\<close>

definition count_check ::
  "u32 \<Rightarrow> string option \<Rightarrow> bool \<Rightarrow> bool \<Rightarrow> hub \<Rightarrow> (mlua_error + bool) \<times> hub" where
  "count_check every source cancelled root h =
    (let checks = hb_checks h + 1;
         h1 = h\<lparr>hb_checks := checks\<rparr>
     in if \<not> is_multiple_of checks every then (Inr False, h1)
        else if cancelled \<and> \<not> (hb_deferred h1 < max_deferred \<and> in_async_poll source)
        then (Inl cancel_error, h1\<lparr>hb_deferred := 0\<rparr>)
        else
          let h2 = (if cancelled then h1\<lparr>hb_deferred := hb_deferred h1 + 1\<rparr> else h1)
          in (Inr (case cf_preempt (hb_config h2) of
                     None \<Rightarrow> False
                   | Some n \<Rightarrow> is_multiple_of (checks div every) (max n 1) \<and> root), h2))"

text \<open>Whether an entry fires; a count entry counts here.\<close>

definition fires :: "u32 \<Rightarrow> hook_event \<Rightarrow> hook_entry \<Rightarrow> hub \<Rightarrow> bool \<times> hub" where
  "fires step ev e h =
    (let t = en_triggers e in
     case ev of
       EvCount \<Rightarrow>
         (case tr_count t of
            None \<Rightarrow> (False, h)
          | Some n \<Rightarrow>
              let c = hb_counted h (en_id e) + step
              in if n \<le> c then (True, h\<lparr>hb_counted := (hb_counted h)(en_id e := 0)\<rparr>)
                 else (False, h\<lparr>hb_counted := (hb_counted h)(en_id e := c)\<rparr>))
     | EvLine \<Rightarrow> (tr_line t, h)
     | EvCall \<Rightarrow> (tr_calls t, h)
     | EvTailCall \<Rightarrow> (tr_calls t, h)
     | EvRet \<Rightarrow> (tr_returns t, h)
     | EvUnknown \<Rightarrow> (False, h))"

type_synonym callback = "nat \<Rightarrow> hub \<Rightarrow> hub_act list \<times> (mlua_error + vm_state)"

fun run_entries ::
  "callback \<Rightarrow> nat \<Rightarrow> u32 \<Rightarrow> hook_event \<Rightarrow> hook_entry list \<Rightarrow> bool \<Rightarrow> hub \<Rightarrow> (mlua_error + bool) \<times> hub"
where
  "run_entries cb raw step ev [] yields h = (Inr yields, h)"
| "run_entries cb raw step ev (e # es) yields h =
    (case fires step ev e h of
       (False, h1) \<Rightarrow> run_entries cb raw step ev es yields h1
     | (True, h1) \<Rightarrow>
         (case cb (en_id e) h1 of
            (acts, r) \<Rightarrow>
              let h2 = fold (hub_exec raw) acts h1
              in (case r of
                    Inl err \<Rightarrow> (Inl err, h2)
                  | Inr VmYield \<Rightarrow> run_entries cb raw step ev es True h2
                  | Inr VmContinue \<Rightarrow> run_entries cb raw step ev es yields h2)))"

text \<open>\<^verbatim>\<open>dispatch\<close>; the entries are those registered when it starts.\<close>

definition dispatch ::
  "callback \<Rightarrow> nat \<Rightarrow> u32 \<Rightarrow> u32 \<Rightarrow> hook_event \<Rightarrow> string option \<Rightarrow> bool \<Rightarrow> bool \<Rightarrow> hub \<Rightarrow>
    (mlua_error + vm_state) \<times> hub" where
  "dispatch cb raw step every ev source cancelled root h =
    (case (if ev = EvCount then count_check every source cancelled root h else (Inr False, h)) of
       (Inl err, h1) \<Rightarrow> (Inl err, h1)
     | (Inr yields, h1) \<Rightarrow>
         (case run_entries cb raw step ev (hb_entries h1) yields h1 of
            (Inl err, h2) \<Rightarrow> (Inl err, h2)
          | (Inr y, h2) \<Rightarrow> (Inr (if y then VmYield else VmContinue), h2)))"

end
