(* ===== verification/Isle_Hub_Props.thy ===== *)
theory Isle_Hub_Props
  imports Isle_Hub
begin

text \<open>
  What the hook promises: a cancel is raised within seventeen cancel checks whatever runs, the
  installed hook checks every thousand instructions or a step more, and a count callback fires at
  the period it asked for unless that period is close to the width of its counter.
\<close>

section \<open>The counters and the callbacks\<close>

lemma install_counters [simp]:
  "hb_checks (snd (install from err raw h)) = hb_checks h"
  "hb_deferred (snd (install from err raw h)) = hb_deferred h"
  by (simp_all add: install_def Let_def split: option.split)

lemma hub_exec_counters [simp]:
  "hb_checks (hub_exec raw a h) = hb_checks h" "hb_deferred (hub_exec raw a h) = hb_deferred h"
  by (cases a; simp add: add_hook_def remove_hook_def set_config_def Let_def split_beta)+

lemma fold_hub_exec_counters [simp]:
  "hb_checks (fold (hub_exec raw) acts h) = hb_checks h"
  "hb_deferred (fold (hub_exec raw) acts h) = hb_deferred h"
  by (induction acts arbitrary: h) simp_all

lemma fires_counters [simp]:
  "hb_checks (snd (fires step ev e h)) = hb_checks h" "hb_deferred (snd (fires step ev e h)) = hb_deferred h"
  by (simp_all add: fires_def Let_def split: hook_event.split option.split)

lemma run_entries_counters:
  "hb_checks (snd (run_entries cb raw step ev es y h)) = hb_checks h \<and>
   hb_deferred (snd (run_entries cb raw step ev es y h)) = hb_deferred h"
proof (induction es arbitrary: y h)
  case (Cons e es)
  obtain f h1 where f: "fires step ev e h = (f, h1)" by (cases "fires step ev e h")
  obtain acts r where c: "cb (en_id e) h1 = (acts, r)" by (cases "cb (en_id e) h1")
  have "hb_checks h1 = hb_checks h" "hb_deferred h1 = hb_deferred h"
    using fires_counters [of step ev e h] f by simp_all
  then show ?case
    using Cons [of _ h1] Cons [of _ "fold (hub_exec raw) acts h1"] c f
    by (cases f) (simp_all add: Let_def split: sum.split vm_state.split)
qed simp

definition benign :: "callback \<Rightarrow> bool" where
  "benign cb \<longleftrightarrow> (\<forall>i h. \<exists>acts v. cb i h = (acts, Inr v))"

lemma run_entries_benign:
  assumes "benign cb"
  shows "\<exists>y'. fst (run_entries cb raw step ev es y h) = Inr y'"
proof (induction es arbitrary: y h)
  case (Cons e es)
  obtain f h1 where f: "fires step ev e h = (f, h1)" by (cases "fires step ev e h")
  obtain acts v where c: "cb (en_id e) h1 = (acts, Inr v)" using assms unfolding benign_def by blast
  show ?case using Cons f c by (cases f; cases v) (simp_all add: Let_def)
qed simp

section \<open>Cancellation is prompt\<close>

text \<open>Count events with a cancelled token, each with the source and the kind of the running thread, up to the
  first error.\<close>

fun cancelled_counts ::
  "callback \<Rightarrow> nat \<Rightarrow> u32 \<Rightarrow> u32 \<Rightarrow> (string option \<times> bool) list \<Rightarrow> hub \<Rightarrow> mlua_error option \<times> hub" where
  "cancelled_counts cb raw step every [] h = (None, h)"
| "cancelled_counts cb raw step every ((source, root) # es) h =
    (case dispatch cb raw step every EvCount source True root h of
       (Inl err, h1) \<Rightarrow> (Some err, h1)
     | (Inr _, h1) \<Rightarrow> cancelled_counts cb raw step every es h1)"

definition remaining :: "u32 \<Rightarrow> u32 \<Rightarrow> nat" where
  "remaining every c = min (unat every - unat c mod unat every) (2 ^ 32 - unat c)"

lemma unat_32: "unat (c :: u32) < 2 ^ 32"
  using unsigned_less [of c] by simp

lemma remaining_bounds:
  assumes "0 < unat every"
  shows "1 \<le> remaining every c" "remaining every c \<le> unat every"
  using unat_32 [of c] mod_less_divisor [OF assms, of "unat c"] by (simp_all add: remaining_def Suc_le_eq)

lemma unat_Suc_word:
  fixes c :: u32
  assumes "c + 1 \<noteq> 0"
  shows "unat (c + 1) = Suc (unat c)"
proof -
  have eq: "unat (c + 1) = Suc (unat c) mod 2 ^ 32" by (simp add: unat_word_ariths)
  have "unat (c + 1) \<noteq> 0" using assms by (simp add: unat_eq_zero)
  then have "Suc (unat c) \<noteq> 2 ^ 32" using eq by (metis mod_self)
  then have "Suc (unat c) < 2 ^ 32" using unat_32 [of c] by simp
  then show ?thesis using eq by simp
qed

lemma min_Suc_step: "Suc r < e \<Longrightarrow> Suc c < N \<Longrightarrow> Suc (min (e - Suc r) (N - Suc c)) = min (e - r) (N - c)"
  for r e c N :: nat
  by (simp add: min_def) arith

lemma multiple_nat: "b \<noteq> 0 \<Longrightarrow> is_multiple_of a b \<longleftrightarrow> unat a mod unat b = 0"
  by (simp add: is_multiple_of_def unat_mod [symmetric] unat_eq_zero [symmetric] del: unat_eq_zero)

lemma remaining_step:
  assumes e: "every \<noteq> 0" and no: "\<not> is_multiple_of (c + 1) every"
  shows "Suc (remaining every (c + 1)) = remaining every c"
proof -
  have "c + 1 \<noteq> 0" using no by (auto simp: is_multiple_of_def e)
  then have s: "unat (c + 1) = Suc (unat c)" by (rule unat_Suc_word)
  then have "Suc (unat c) mod unat every \<noteq> 0" using no e by (simp add: multiple_nat)
  then have m: "Suc (unat c) mod unat every = Suc (unat c mod unat every)" by (simp add: mod_Suc split: if_splits)
  have r: "Suc (unat c mod unat every) < unat every"
    using m mod_less_divisor [of "unat every" "Suc (unat c)"] e by (simp add: unat_gt_0)
  have "Suc (unat c) < 2 ^ 32" using unat_32 [of "c + 1"] s by simp
  from min_Suc_step [OF r this] show ?thesis unfolding remaining_def s m .
qed

definition patience :: "u32 \<Rightarrow> hub \<Rightarrow> nat" where
  "patience every h = remaining every (hb_checks h) + (16 - unat (hb_deferred h)) * unat every"

lemma count_check_patience:
  assumes e: "every \<noteq> 0" and ok: "fst (count_check every source True root h) = Inr y"
  shows "patience every (snd (count_check every source True root h)) < patience every h"
proof (cases "is_multiple_of (hb_checks h + 1) every")
  case False
  then show ?thesis
    using remaining_step [OF e False] by (simp add: count_check_def Let_def patience_def)
next
  case True
  have d: "hb_deferred h < 16"
    using ok True by (simp add: count_check_def Let_def max_deferred_def split: if_splits)
  then have lt: "unat (hb_deferred h) < 16" by (simp add: word_less_nat_alt)
  then have d': "unat (hb_deferred h + 1) = Suc (unat (hb_deferred h))" by (simp add: unat_word_ariths)
  have h': "hb_checks (snd (count_check every source True root h)) = hb_checks h + 1"
    "hb_deferred (snd (count_check every source True root h)) = hb_deferred h + 1"
    using ok True by (simp_all add: count_check_def Let_def split: if_splits)
  have "remaining every (hb_checks h + 1) \<le> unat every" "1 \<le> remaining every (hb_checks h)"
    using remaining_bounds [of every] e by (simp_all add: unat_gt_0)
  moreover have "(16 - unat (hb_deferred h)) * unat every = (16 - Suc (unat (hb_deferred h))) * unat every + unat every"
  proof -
    have "16 - unat (hb_deferred h) = Suc (16 - Suc (unat (hb_deferred h)))" using lt by simp
    then show ?thesis by simp
  qed
  ultimately show ?thesis by (simp add: patience_def h' d')
qed

lemma count_check_error: "fst (count_check every source cancelled root h) = Inl err \<Longrightarrow> err = cancel_error"
  by (auto simp: count_check_def Let_def split: if_splits)

lemma cancelled_counts_raise:
  assumes e: "every \<noteq> 0" and b: "benign cb" and "patience every h \<le> length es"
  shows "fst (cancelled_counts cb raw step every es h) = Some cancel_error"
  using assms(3)
proof (induction es arbitrary: h)
  case Nil
  then show ?case using remaining_bounds(1) [of every "hb_checks h"] e by (simp add: patience_def unat_gt_0)
next
  case (Cons x es)
  obtain source root where x: "x = (source, root)" by (cases x)
  obtain r h1 where c: "count_check every source True root h = (r, h1)"
    by (cases "count_check every source True root h")
  show ?case
  proof (cases r)
    case (Inl err)
    then show ?thesis using c count_check_error [of every source True root h] by (simp add: x dispatch_def)
  next
    case (Inr y)
    obtain y' h2 where r: "run_entries cb raw step EvCount (hb_entries h1) y h1 = (Inr y', h2)"
      using run_entries_benign [OF b, of raw step EvCount "hb_entries h1" y h1]
      by (cases "run_entries cb raw step EvCount (hb_entries h1) y h1") auto
    have "patience every h2 = patience every h1"
      using run_entries_counters [of cb raw step EvCount "hb_entries h1" y h1] r by (simp add: patience_def)
    moreover have "patience every h1 < patience every h"
      using count_check_patience [OF e, of source root h y] c Inr by simp
    ultimately have "patience every h2 \<le> length es" using Cons.prems by simp
    from Cons.IH [OF this] show ?thesis using c Inr r by (simp add: x dispatch_def)
  qed
qed

text \<open>C32: A cancel is prompt.  From any state of the hub, of seventeen times \<open>every\<close> count events with a
  cancelled token one raises the cancellation error, wherever the checks land (deferred in mlua's async poll
  chunk or not), also across the wrap-around of the check counter, and whatever hooks and settings the
  callbacks change, as long as no callback fails first.\<close>

theorem cancel_raised_within_17_checks:
  assumes "every \<noteq> 0" and "benign cb" and "17 * unat every \<le> length es"
  shows "fst (cancelled_counts cb raw step every es h) = Some cancel_error"
proof (rule cancelled_counts_raise [OF assms(1,2)])
  have "remaining every (hb_checks h) \<le> unat every" using remaining_bounds(2) assms(1) by (simp add: unat_gt_0)
  moreover have "(16 - unat (hb_deferred h)) * unat every \<le> 16 * unat every" by (rule mult_le_mono1) simp
  ultimately show "patience every h \<le> length es" using assms(3) unfolding patience_def by linarith
qed

lemma cancel_raised_within_17_checks_witness:
  "fst (cancelled_counts (\<lambda>_ _. ([], Inr VmContinue)) 7 1000 1
    (replicate 17 (Some async_poll_chunk, True)) hub_default) = Some cancel_error"
  by (rule cancel_raised_within_17_checks) (simp_all add: benign_def)

section \<open>The installed hook\<close>

lemma merged_count:
  assumes "tr_count t = Some c" and "1 \<le> unat c" and "unat c \<le> 1000"
  shows "\<exists>c'. tr_count (merge_triggers t e) = Some c' \<and> 1 \<le> unat c' \<and> unat c' \<le> unat c"
proof (cases "tr_count (en_triggers e)")
  case None
  then show ?thesis using assms by (simp add: merge_triggers_def Let_def)
next
  case (Some n)
  have m: "unat (max (min c n) 1) = max (min (unat c) (unat n)) 1"
    by (simp add: max_def min_def word_le_nat_alt)
  show ?thesis using assms Some by (simp add: merge_triggers_def Let_def m)
qed

lemma all_triggers_count:
  "\<exists>c. tr_count (all_triggers es) = Some c \<and> 1 \<le> unat c \<and> unat c \<le> 1000"
proof -
  have "\<exists>c. tr_count (foldl merge_triggers t es) = Some c \<and> 1 \<le> unat c \<and> unat c \<le> 1000"
    if "tr_count t = Some c" "1 \<le> unat c" "unat c \<le> 1000" for t c
    using that
  proof (induction es arbitrary: t c)
    case (Cons e es)
    from merged_count [OF Cons.prems] obtain c' where
      "tr_count (merge_triggers t e) = Some c'" "1 \<le> unat c'" "unat c' \<le> unat c" by blast
    then show ?case using Cons.IH [of "merge_triggers t e" c'] Cons.prems(3) by simp
  qed auto
  then show ?thesis unfolding all_triggers_def by (simp add: cancel_check_interval_def)
qed

lemma div_ceil_nat:
  assumes "b \<noteq> 0" and "unat a \<le> 1000" and "unat a > 0"
  shows "unat a \<le> unat (div_ceil a b) * unat b \<and> unat (div_ceil a b) * unat b < unat a + unat b \<and> div_ceil a b \<noteq> 0"
proof -
  have b: "0 < unat b" using assms(1) by (simp add: unat_gt_0)
  have dm: "unat a div unat b * unat b + unat a mod unat b = unat a" by simp
  have lt: "unat a mod unat b < unat b" using b by simp
  have q: "unat a div unat b \<le> 1000" using assms(2) div_le_dividend le_trans by blast
  have "unat (div_ceil a b) = unat a div unat b + (if unat a mod unat b = 0 then 0 else 1)"
  proof (cases "a mod b = 0")
    case True
    then have "unat a mod unat b = 0" by (metis unat_mod unsigned_0)
    then show ?thesis using True by (simp add: div_ceil_def unat_div)
  next
    case False
    then have "unat a mod unat b \<noteq> 0" by (metis unat_mod unat_eq_zero)
    moreover have "unat (a div b + 1) = Suc (unat a div unat b)"
      using q by (simp add: unat_word_ariths unat_div)
    ultimately show ?thesis using False by (simp add: div_ceil_def)
  qed
  then have u: "unat (div_ceil a b) * unat b =
      unat a div unat b * unat b + (if unat a mod unat b = 0 then 0 else unat b)"
    by (simp add: distrib_right)
  consider "unat (div_ceil a b) * unat b = unat a div unat b * unat b" "unat a mod unat b = 0"
    | "unat (div_ceil a b) * unat b = unat a div unat b * unat b + unat b" "unat a mod unat b > 0"
    using u by (cases "unat a mod unat b = 0") auto
  then have le: "unat a \<le> unat (div_ceil a b) * unat b" and lt': "unat (div_ceil a b) * unat b < unat a + unat b"
    using dm lt b by (cases; linarith)+
  then show ?thesis using assms(3) lt' by (metis mult_zero_left not_less unsigned_0)
qed

text \<open>The installed hook fires every \<open>step\<close> instructions, at least one and at most a thousand, and looks for
  a cancel every \<open>every\<close> of its counts: that is every thousand instructions, or less than one step more,
  whatever callbacks are registered.\<close>

theorem installed_hook_period:
  assumes "install from None raw h = (r, h')" and "hb_hook h' = Some (t, step, every)"
  shows "t = all_triggers (hb_entries h) \<and> 1 \<le> unat step \<and> unat step \<le> 1000 \<and> every \<noteq> 0 \<and>
    1000 \<le> unat every * unat step \<and> unat every * unat step < 1000 + unat step"
proof -
  have eq: "t = all_triggers (hb_entries h)" "step = hook_step t" "every = cancel_every step"
    using assms by (auto simp: install_def Let_def)
  obtain c where c: "tr_count t = Some c" "1 \<le> unat c" "unat c \<le> 1000"
    using all_triggers_count eq(1) by blast
  have s: "step = c" using eq(2) c(1) by (simp add: hook_step_def)
  have "step \<noteq> 0" using c(2) s by auto
  from div_ceil_nat [OF this, of cancel_check_interval]
  have d: "1000 \<le> unat (div_ceil 1000 step) * unat step" "unat (div_ceil 1000 step) * unat step < 1000 + unat step"
    "div_ceil 1000 step \<noteq> 0" by (simp_all add: cancel_check_interval_def)
  have "1 \<le> div_ceil 1000 step" using d(3) by (metis unat_gt_0 unat_1 word_le_nat_alt Suc_leI One_nat_def)
  then have "every = div_ceil 1000 step" by (simp add: eq(3) cancel_every_def cancel_check_interval_def max_def)
  then show ?thesis using eq(1) c s d by simp
qed

definition demo_hub :: hub where
  "demo_hub = snd (add_hook (\<lambda>_. Shutdown) None 7
    \<lparr>tr_calls = False, tr_returns = False, tr_line = False, tr_count = Some 300\<rparr> hub_default)"

lemma installed_hook_period_witness:
  "hb_hook demo_hub = Some (all_triggers (hb_entries demo_hub), 300, 4) \<and>
   1000 \<le> unat (4 :: u32) * unat (300 :: u32)"
proof -
  have i: "install (\<lambda>_. Shutdown) None 7 demo_hub = (Inr (), demo_hub)"
    by (simp add: demo_hub_def add_hook_def install_def Let_def)
  have k: "hb_hook demo_hub = Some (all_triggers (hb_entries demo_hub), 300, 4)"
    by (simp add: demo_hub_def add_hook_def install_def Let_def hub_default_def all_triggers_def merge_triggers_def
        hook_step_def cancel_every_def cancel_check_interval_def div_ceil_def)
  from installed_hook_period [OF i k] k show ?thesis by simp
qed

section \<open>Count callbacks\<close>

fun count_events :: "u32 \<Rightarrow> hook_entry \<Rightarrow> nat \<Rightarrow> hub \<Rightarrow> bool list \<times> hub" where
  "count_events step e 0 h = ([], h)"
| "count_events step e (Suc k) h =
    (let (f, h1) = fires step EvCount e h; (fs, h2) = count_events step e k h1 in (f # fs, h2))"

lemma fires_count:
  assumes "tr_count (en_triggers e) = Some n"
  shows "fst (fires step EvCount e h) \<longleftrightarrow> n \<le> hb_counted h (en_id e) + step"
    and "hb_counted (snd (fires step EvCount e h)) (en_id e) =
      (if n \<le> hb_counted h (en_id e) + step then 0 else hb_counted h (en_id e) + step)"
  using assms by (simp_all add: fires_def Let_def)

lemma count_events_below:
  assumes n: "tr_count (en_triggers e) = Some n" and s: "unat n + unat step \<le> 2 ^ 32"
    and "unat (hb_counted h (en_id e)) + k * unat step < unat n"
  shows "fst (count_events step e k h) = replicate k False \<and>
    unat (hb_counted (snd (count_events step e k h)) (en_id e)) = unat (hb_counted h (en_id e)) + k * unat step"
  using assms(3)
proof (induction k arbitrary: h)
  case (Suc k)
  let ?c = "hb_counted h (en_id e)"
  have lt: "unat ?c + unat step < unat n" using Suc.prems by simp
  then have a: "unat (?c + step) = unat ?c + unat step" using s by (simp add: unat_word_ariths)
  then have no: "\<not> n \<le> ?c + step" using lt by (simp add: word_le_nat_alt)
  obtain h1 where h1: "fires step EvCount e h = (False, h1)" and c1: "hb_counted h1 (en_id e) = ?c + step"
    using fires_count [OF n, of step h] no by (cases "fires step EvCount e h") simp
  have "unat (hb_counted h1 (en_id e)) + k * unat step < unat n" using Suc.prems by (simp add: c1 a)
  from Suc.IH [OF this] show ?case by (simp add: h1 split_beta c1 a)
qed simp

text \<open>A count callback that was asked for every \<open>n\<close> instructions runs every \<open>ceil (n / step)\<close> counts of the
  hook: not at the counts before, and then its counter starts again, for every period that leaves room for a
  step in the counter.\<close>

theorem count_callback_period:
  assumes "tr_count (en_triggers e) = Some n" and "unat n + unat step \<le> 2 ^ 32" and "step \<noteq> 0"
    and "hb_counted h (en_id e) = 0" and "k * unat step < unat n" and "unat n \<le> Suc k * unat step"
  shows "fst (count_events step e (Suc k) h) = replicate k False @ [True] \<and>
    hb_counted (snd (count_events step e (Suc k) h)) (en_id e) = 0"
proof -
  have app: "count_events step e (Suc k) h =
      (let (fs, h1) = count_events step e k h; (f, h2) = fires step EvCount e h1 in (fs @ [f], h2))" for k h
    by (induction k arbitrary: h) (simp_all add: split_beta Let_def)
  note b = count_events_below [OF assms(1,2), of h k, unfolded assms(4), simplified, OF assms(5)]
  let ?h1 = "snd (count_events step e k h)"
  have c: "unat (hb_counted ?h1 (en_id e)) = k * unat step" using b by simp
  then have "unat (hb_counted ?h1 (en_id e)) + unat step < 2 ^ 32" using assms(2,5) by linarith
  then have "unat (hb_counted ?h1 (en_id e) + step) = unat (hb_counted ?h1 (en_id e)) + unat step"
    unfolding unat_word_ariths by simp
  then have "unat (hb_counted ?h1 (en_id e) + step) = Suc k * unat step" using c by simp
  then have "n \<le> hb_counted ?h1 (en_id e) + step" using assms(6) by (simp add: word_le_nat_alt)
  then show ?thesis
    unfolding app using b fires_count [OF assms(1), of step ?h1] by (simp add: split_beta Let_def)
qed

definition every_entry :: "u32 \<Rightarrow> hook_entry" where
  "every_entry n =
    \<lparr>en_id = 0, en_triggers = \<lparr>tr_calls = False, tr_returns = False, tr_line = False, tr_count = Some n\<rparr>\<rparr>"

lemma count_callback_period_witness:
  "fst (count_events 300 (every_entry 700) 3 hub_default) = [False, False, True]"
proof -
  have e: "tr_count (en_triggers (every_entry 700)) = Some 700" by (simp add: every_entry_def)
  have "fst (count_events 300 (every_entry 700) (Suc 2) hub_default) = replicate 2 False @ [True]"
    using count_callback_period [OF e, of 300 hub_default 2] by (simp add: hub_default_def every_entry_def)
  then show ?thesis by (simp add: numeral_2_eq_2 numeral_3_eq_3)
qed

text \<open>At the width of its counter the period is lost: with the default step of a thousand, a callback asked
  for every \<open>2 ^ 32 - 7\<close> instructions or more never runs, because the counter wraps past its period without
  ever reaching it.\<close>

theorem widest_callback_never_runs:
  assumes "tr_count (en_triggers e) = Some n" and "2 ^ 32 - 7 \<le> unat n" and "hb_counted h (en_id e) = 0"
  shows "fst (count_events 1000 e k h) = replicate k False"
proof -
  have "fst (count_events 1000 e k h) = replicate k False" if "8 dvd unat (hb_counted h (en_id e))" for h
    using that
  proof (induction k arbitrary: h)
    case (Suc k)
    let ?c = "hb_counted h (en_id e)"
    have "unat (?c + 1000) = (unat ?c + 1000) mod 2 ^ 32" by (simp add: unat_word_ariths)
    moreover have "8 dvd (unat ?c + 1000) mod (2 ^ 32 :: nat)"
      using Suc.prems by (intro dvd_mod) (simp_all add: dvd_add)
    ultimately have d: "8 dvd unat (?c + 1000)" by simp
    then obtain m where m: "unat (?c + 1000) = 8 * m" by (rule dvdE)
    have "8 * m \<le> 2 ^ 32 - 8" using unat_32 [of "?c + 1000"] unfolding m by simp
    then have "unat (?c + 1000) < unat n" using m assms(2) by simp
    then have no: "\<not> n \<le> ?c + 1000" by (simp add: word_le_nat_alt)
    obtain h1 where h1: "fires 1000 EvCount e h = (False, h1)" and c1: "hb_counted h1 (en_id e) = ?c + 1000"
      using fires_count [OF assms(1), of 1000 h] no by (cases "fires 1000 EvCount e h") simp
    then show ?case using Suc.IH [of h1] d by (simp add: split_beta)
  qed simp
  then show ?thesis by (simp add: assms(3))
qed

lemma unat_wide: "unat (4294967290 :: u32) = 4294967290"
  by (simp add: unsigned_numeral)

lemma widest_callback_never_runs_witness:
  "fst (count_events 1000 (every_entry 4294967290) 5 hub_default) = replicate 5 False"
  by (rule widest_callback_never_runs [of _ 4294967290], unfold unat_wide)
    (simp_all add: every_entry_def hub_default_def)

end
