(* ===== verification/Isle_Marks.thy ===== *)
theory Isle_Marks
  imports Isle_Hub
begin

text \<open>
  The marks of the coroutines the crate made (\<^verbatim>\<open>lua_body\<close> and \<^verbatim>\<open>Scoped\<close> in \<^verbatim>\<open>src/scope.rs\<close>, the set of roots in
  \<^verbatim>\<open>src/hub.rs\<close>): preemption may yield these and no others.

  A body is a Lua call in a coroutine of its own; it marks the coroutine when it starts and the mark goes when
  its future is dropped.  A Lua thread that exists has an address of its own; an address is used again once
  its body is gone.
\<close>

section \<open>Bodies and their marks\<close>

record lua_body =
  bd_thread :: nat
  bd_cell :: "nat option"

record marks =
  mk_roots :: "nat set"
  mk_body :: "nat \<Rightarrow> lua_body option"

definition marks_init :: marks where
  "marks_init = \<lparr>mk_roots = {}, mk_body = (\<lambda>_. None)\<rparr>"

text \<open>The \<^verbatim>\<open>mark\<close> function of \<^verbatim>\<open>lua_body\<close>; \<open>running\<close> is what \<^verbatim>\<open>running_thread\<close> read.\<close>

definition mark_call :: "nat option \<Rightarrow> lua_body \<Rightarrow> nat set \<Rightarrow> (mlua_error + unit) \<times> lua_body \<times> nat set" where
  "mark_call running b roots =
    (case running of
       None \<Rightarrow> (Inl (RuntimeError ''cannot read the running thread''), b, roots)
     | Some ptr \<Rightarrow> (Inr (), b\<lparr>bd_cell := Some ptr\<rparr>, mark_root ptr roots))"

text \<open>The drop of \<^verbatim>\<open>Scoped\<close>.\<close>

definition unmark_body :: "lua_body \<Rightarrow> nat set \<Rightarrow> nat set" where
  "unmark_body b roots = (case bd_cell b of None \<Rightarrow> roots | Some ptr \<Rightarrow> unmark_root ptr roots)"

section \<open>Histories\<close>

text \<open>
  A new body in a thread of its own; its start, where the address can be unreadable; its drop, at any time.
\<close>

datatype mark_op = NewBody nat nat | StartBody nat bool | DropBody nat

fun mark_exec :: "mark_op \<Rightarrow> marks \<Rightarrow> marks" where
  "mark_exec (NewBody n th) m =
    (if mk_body m n \<noteq> None \<or> (\<exists>i b. mk_body m i = Some b \<and> bd_thread b = th) then m
     else m\<lparr>mk_body := (mk_body m)(n := Some \<lparr>bd_thread = th, bd_cell = None\<rparr>)\<rparr>)"
| "mark_exec (StartBody n readable) m =
    (case mk_body m n of
       None \<Rightarrow> m
     | Some b \<Rightarrow>
         let (r, b', roots) = mark_call (if readable then Some (bd_thread b) else None) b (mk_roots m)
         in m\<lparr>mk_roots := roots, mk_body := (mk_body m)(n := Some b')\<rparr>)"
| "mark_exec (DropBody n) m =
    (case mk_body m n of
       None \<Rightarrow> m
     | Some b \<Rightarrow> m\<lparr>mk_roots := unmark_body b (mk_roots m), mk_body := (mk_body m)(n := None)\<rparr>)"

definition mark_run :: "mark_op list \<Rightarrow> marks" where
  "mark_run ops = fold mark_exec ops marks_init"

text \<open>A mark that is set is the body's own, no two bodies share a thread, and the set holds the marks.\<close>

definition marks_ok :: "marks \<Rightarrow> bool" where
  "marks_ok m \<longleftrightarrow>
    (\<forall>p. p \<in> mk_roots m \<longleftrightarrow> (\<exists>n b. mk_body m n = Some b \<and> bd_cell b = Some p)) \<and>
    (\<forall>n b p. mk_body m n = Some b \<longrightarrow> bd_cell b = Some p \<longrightarrow> p = bd_thread b) \<and>
    (\<forall>i j b c. mk_body m i = Some b \<longrightarrow> mk_body m j = Some c \<longrightarrow> bd_thread b = bd_thread c \<longrightarrow> i = j)"

lemma marks_okD:
  assumes "marks_ok m"
  shows "p \<in> mk_roots m \<longleftrightarrow> (\<exists>n b. mk_body m n = Some b \<and> bd_cell b = Some p)"
    and "mk_body m n = Some b \<Longrightarrow> bd_cell b = Some p \<Longrightarrow> p = bd_thread b"
    and "mk_body m i = Some b \<Longrightarrow> mk_body m j = Some c \<Longrightarrow> bd_thread b = bd_thread c \<Longrightarrow> i = j"
  using assms unfolding marks_ok_def by blast+

lemma marks_ok_new:
  assumes ok: "marks_ok m" and n: "mk_body m n = None" and th: "\<And>i b. mk_body m i = Some b \<Longrightarrow> bd_thread b \<noteq> th"
  shows "marks_ok (m\<lparr>mk_body := (mk_body m)(n := Some \<lparr>bd_thread = th, bd_cell = None\<rparr>)\<rparr>)" (is "marks_ok ?m")
  unfolding marks_ok_def
proof (intro conjI allI impI)
  fix p show "p \<in> mk_roots ?m \<longleftrightarrow> (\<exists>n b. mk_body ?m n = Some b \<and> bd_cell b = Some p)"
  proof -
    have "(\<exists>i c. mk_body m i = Some c \<and> bd_cell c = Some p) \<longleftrightarrow> (\<exists>i. i \<noteq> n \<and> (\<exists>c. mk_body m i = Some c \<and> bd_cell c = Some p))"
      using n by (metis option.distinct(1))
    then show ?thesis using marks_okD(1) [OF ok] by (auto split: if_splits)
  qed
next
  fix i b p assume "mk_body ?m i = Some b" "bd_cell b = Some p"
  then show "p = bd_thread b" using marks_okD(2) [OF ok] by (auto split: if_splits)
next
  fix i j b c assume "mk_body ?m i = Some b" "mk_body ?m j = Some c" "bd_thread b = bd_thread c"
  then show "i = j" using th marks_okD(3) [OF ok] by (fastforce split: if_splits)
qed

lemma marks_ok_start:
  assumes ok: "marks_ok m" and n: "mk_body m n = Some b"
  shows "marks_ok (m\<lparr>mk_roots := insert (bd_thread b) (mk_roots m),
    mk_body := (mk_body m)(n := Some (b\<lparr>bd_cell := Some (bd_thread b)\<rparr>))\<rparr>)" (is "marks_ok ?m")
  unfolding marks_ok_def
proof (intro conjI allI impI)
  fix p
  show "p \<in> mk_roots ?m \<longleftrightarrow> (\<exists>n b. mk_body ?m n = Some b \<and> bd_cell b = Some p)"
  proof (cases "p = bd_thread b")
    case True
    then show ?thesis by (auto intro!: exI [of _ n])
  next
    case False
    then have "(mk_body ?m i = Some c \<and> bd_cell c = Some p) = (mk_body m i = Some c \<and> bd_cell c = Some p)" for i c
      using n marks_okD(2) [OF ok n, of p] by (cases "i = n") auto
    then have "(\<exists>n b. mk_body ?m n = Some b \<and> bd_cell b = Some p) \<longleftrightarrow> (\<exists>n b. mk_body m n = Some b \<and> bd_cell b = Some p)"
      by simp
    moreover have "p \<in> mk_roots ?m \<longleftrightarrow> p \<in> mk_roots m" using False by simp
    ultimately show ?thesis using marks_okD(1) [OF ok, of p] by argo
  qed
next
  fix i c p assume "mk_body ?m i = Some c" "bd_cell c = Some p"
  then show "p = bd_thread c" using marks_okD(2) [OF ok] by (auto split: if_splits)
next
  fix i j c d assume "mk_body ?m i = Some c" "mk_body ?m j = Some d" "bd_thread c = bd_thread d"
  then show "i = j" using n marks_okD(3) [OF ok] by (auto split: if_splits)
qed

lemma marks_ok_drop:
  assumes ok: "marks_ok m" and n: "mk_body m n = Some b"
  shows "marks_ok (m\<lparr>mk_roots := unmark_body b (mk_roots m), mk_body := (mk_body m)(n := None)\<rparr>)" (is "marks_ok ?m")
  unfolding marks_ok_def
proof (intro conjI allI impI)
  fix p
  have other: "i = n" if "mk_body m i = Some c" "bd_cell c = Some q" "bd_cell b = Some q" for i c q
    using marks_okD(2) [OF ok that(1,2)] marks_okD(2) [OF ok n that(3)] marks_okD(3) [OF ok that(1) n] by simp
  have roots: "p \<in> mk_roots ?m \<longleftrightarrow> p \<in> mk_roots m \<and> bd_cell b \<noteq> Some p"
    by (auto simp: unmark_body_def unmark_root_def split: option.splits)
  show "p \<in> mk_roots ?m \<longleftrightarrow> (\<exists>n b. mk_body ?m n = Some b \<and> bd_cell b = Some p)"
    unfolding roots marks_okD(1) [OF ok] using n other by simp (metis option.inject)
next
  fix i c p assume "mk_body ?m i = Some c" "bd_cell c = Some p"
  then show "p = bd_thread c" using marks_okD(2) [OF ok] by (auto split: if_splits)
next
  fix i j c d assume "mk_body ?m i = Some c" "mk_body ?m j = Some d" "bd_thread c = bd_thread d"
  then show "i = j" using marks_okD(3) [OF ok] by (auto split: if_splits)
qed

lemma marks_ok_exec:
  assumes ok: "marks_ok m"
  shows "marks_ok (mark_exec op m)"
proof (cases op)
  case (NewBody n th)
  show ?thesis
  proof (cases "mk_body m n \<noteq> None \<or> (\<exists>i b. mk_body m i = Some b \<and> bd_thread b = th)")
    case False
    then have "marks_ok (m\<lparr>mk_body := (mk_body m)(n := Some \<lparr>bd_thread = th, bd_cell = None\<rparr>)\<rparr>)"
      by (intro marks_ok_new ok) auto
    then show ?thesis using False NewBody by (simp only: mark_exec.simps if_False)
  qed (use ok NewBody in \<open>simp only: mark_exec.simps if_True\<close>)
next
  case (StartBody n readable)
  show ?thesis
  proof (cases "mk_body m n")
    case (Some b)
    have "mk_body m = (mk_body m)(n := Some b)" using Some by (simp add: fun_upd_idem)
    then show ?thesis using ok Some marks_ok_start [OF ok Some]
      by (cases readable) (simp_all add: StartBody mark_call_def mark_root_def)
  qed (use ok StartBody in simp)
next
  case (DropBody n)
  then show ?thesis using ok marks_ok_drop [OF ok] by (cases "mk_body m n") simp_all
qed

interpretation mark_machine: machine mark_exec marks_ok
  by unfold_locales (rule marks_ok_exec)

text \<open>Preemption may yield exactly the coroutines of live bodies that have started: a body that is dropped unmarks its
  own coroutine and no other, and an address that is used again is not marked until its new body starts.\<close>

theorem roots_are_started_bodies:
  "is_root (Some p) (mk_roots (mark_run ops)) \<longleftrightarrow>
    (\<exists>n b. mk_body (mark_run ops) n = Some b \<and> bd_cell b = Some p \<and> bd_thread b = p)"
proof -
  have "marks_ok marks_init" by (simp add: marks_ok_def marks_init_def)
  then have ok: "marks_ok (mark_run ops)" unfolding mark_run_def by (rule mark_machine.ok_run)
  show ?thesis
    using marks_okD(1,2) [OF ok] unfolding is_root_def by simp metis
qed

end
