(* ===== verification/Isle_Registry.thy ===== *)
theory Isle_Registry
  imports Isle_Chan Isle_Scope Isle_Hub
begin

text \<open>
  The tasks of the Lua \<^verbatim>\<open>task\<close> library (\<^verbatim>\<open>src/task_lib.rs\<close>): the registry of unjoined tasks, the host
  functions \<^verbatim>\<open>spawn_raw\<close>, \<^verbatim>\<open>join_raw\<close>, \<^verbatim>\<open>cancel_raw\<close>, \<^verbatim>\<open>done_raw\<close>, \<^verbatim>\<open>release_raw\<close>, and the Lua class
  \<^verbatim>\<open>Task\<close> on top of them.

  \<open>vm\<close> is the state the library works on: the channels, the tasks and scopes, the registry
  (\<open>vm_tasks\<close> maps the id a Lua handle holds to the task), \<open>task.CANCELLED\<close>, the field
  \<^verbatim>\<open>_joined\<close> of every Lua handle (a table, by its address), and the hub.  A task's body returns
  what \<^verbatim>\<open>pcall\<close> returned, or the error of the call itself.
\<close>

type_synonym task_out = "mlua_error + lua_value list"
type_synonym task_world = "(task_out, lua_value list) scope_world"

record 'q vm =
  vm_chan :: "'q chan_store"
  vm_world :: task_world
  vm_tasks :: "nat \<Rightarrow> nat option"
  vm_next_id :: nat
  vm_cancelled :: nat
  vm_joined :: "nat \<Rightarrow> bool"
  vm_hub :: hub

section \<open>The registry\<close>

definition reg_get :: "nat \<Rightarrow> 'q vm \<Rightarrow> mlua_error + nat" where
  "reg_get i v = (case vm_tasks v i of None \<Rightarrow> Inl (RuntimeError ''unknown task'') | Some t \<Rightarrow> Inr t)"

definition reg_forget :: "nat \<Rightarrow> 'q vm \<Rightarrow> 'q vm" where
  "reg_forget i v = v\<lparr>vm_tasks := (vm_tasks v)(i := None)\<rparr>"

definition reg_restore :: "nat \<Rightarrow> nat \<Rightarrow> 'q vm \<Rightarrow> 'q vm" where
  "reg_restore i t v = v\<lparr>vm_tasks := (vm_tasks v)(i := Some t)\<rparr>"

definition cancelled_values :: "'q vm \<Rightarrow> lua_value list" where
  "cancelled_values v = [VBoolean False, VTable (vm_cancelled v)]"

definition set_joined :: "nat \<Rightarrow> bool \<Rightarrow> 'q vm \<Rightarrow> 'q vm" where
  "set_joined hdl b v = v\<lparr>vm_joined := (vm_joined v)(hdl := b)\<rparr>"

definition vm_done :: "nat \<Rightarrow> 'q vm \<Rightarrow> bool" where
  "vm_done t v = is_done (vm_world v) t"

text \<open>\<^verbatim>\<open>result.borrow_mut().take()\<close> and putting it back.\<close>

definition vm_take_result :: "nat \<Rightarrow> 'q vm \<Rightarrow> lua_value list option \<times> 'q vm" where
  "vm_take_result t v =
    (let (r, w) = take_result t (vm_world v) in (r, v\<lparr>vm_world := w\<rparr>))"

definition vm_put_result :: "nat \<Rightarrow> lua_value list option \<Rightarrow> 'q vm \<Rightarrow> 'q vm" where
  "vm_put_result t r v = v\<lparr>vm_world := upd_task t (ts_result_update (\<lambda>_. r)) (vm_world v)\<rparr>"

definition joined_values :: "lua_value list option \<Rightarrow> 'q vm \<Rightarrow> lua_value list" where
  "joined_values out v = (case out of Some vs \<Rightarrow> vs | None \<Rightarrow> cancelled_values v)"

section \<open>The host functions\<close>

text \<open>\<^verbatim>\<open>conv\<close> of \<^verbatim>\<open>spawn_raw\<close>: what a task's body came to (\<open>None\<close>: cancelled).\<close>

fun spawn_conv :: "task_out option \<Rightarrow> bool \<Rightarrow> lua_value list option" where
  "spawn_conv None cancelled = None"
| "spawn_conv (Some (Inr vs)) cancelled =
    (if (case vs of VBoolean False # _ \<Rightarrow> True | _ \<Rightarrow> False) \<and> cancelled then None else Some vs)"
| "spawn_conv (Some (Inl e)) cancelled =
    (if cancelled then None else Some [VBoolean False, error_value e])"

text \<open>\<open>body\<close>: the error \<^verbatim>\<open>lua_body\<close> failed with, if it did.\<close>

definition spawn_raw :: "mlua_error option \<Rightarrow> 'q vm \<Rightarrow> (mlua_error + nat) \<times> 'q vm" where
  "spawn_raw body v =
    (case sw_current (vm_world v) of
       None \<Rightarrow>
         (Inl (RuntimeError ''task.spawn: not inside a coroutine request or task (sync requests cannot spawn)''), v)
     | Some s \<Rightarrow>
         (case body of
            Some e \<Rightarrow> (Inl e, v)
          | None \<Rightarrow>
              let (t, w) = spawn (cf_grace (hb_config (vm_hub v))) spawn_conv s (vm_world v);
                  i = vm_next_id v
              in (Inr i, v\<lparr>vm_world := w, vm_next_id := Suc i, vm_tasks := (vm_tasks v)(i := Some t)\<rparr>)))"

text \<open>The future of \<^verbatim>\<open>join_raw\<close>: the task it found in its first poll.\<close>

record join_future =
  jf_id :: nat
  jf_task :: "nat option"

definition join_wait :: "nat \<Rightarrow> nat \<Rightarrow> 'q vm \<Rightarrow> (mlua_error + lua_value list) poll \<times> join_future \<times> 'q vm" where
  "join_wait i t v =
    (if vm_done t v then
       let (out, v1) = vm_take_result t (reg_forget i v)
       in (Ready (Inr (joined_values out v1)), \<lparr>jf_id = i, jf_task = Some t\<rparr>, v1)
     else (Pending, \<lparr>jf_id = i, jf_task = Some t\<rparr>, v))"

definition join_raw_poll ::
  "join_future \<Rightarrow> 'q vm \<Rightarrow> (mlua_error + lua_value list) poll \<times> join_future \<times> 'q vm" where
  "join_raw_poll j v =
    (case jf_task j of
       Some t \<Rightarrow> join_wait (jf_id j) t v
     | None \<Rightarrow>
         (case reg_get (jf_id j) v of
            Inl e \<Rightarrow> (Ready (Inl e), j, v)
          | Inr t \<Rightarrow> join_wait (jf_id j) t v))"

definition vm_cancel_task :: "nat \<Rightarrow> 'q vm \<Rightarrow> 'q vm" where
  "vm_cancel_task t v =
    v\<lparr>vm_world := cancel_token (ts_token (sw_task (vm_world v) t)) (vm_world v)\<rparr>"

definition cancel_raw :: "nat \<Rightarrow> 'q vm \<Rightarrow> (mlua_error + unit) \<times> 'q vm" where
  "cancel_raw i v =
    (case reg_get i v of Inl e \<Rightarrow> (Inl e, v) | Inr t \<Rightarrow> (Inr (), vm_cancel_task t v))"

definition done_raw :: "nat \<Rightarrow> 'q vm \<Rightarrow> mlua_error + bool" where
  "done_raw i v = map_sum id (\<lambda>t. vm_done t v) (reg_get i v)"

definition release_raw :: "nat \<Rightarrow> 'q vm \<Rightarrow> (mlua_error + unit) \<times> 'q vm" where
  "release_raw i v =
    (case vm_tasks v i of
       None \<Rightarrow> (Inr (), v)
     | Some t \<Rightarrow> (Inr (), vm_cancel_task t (reg_forget i v)))"

definition is_cancel_error :: "(mlua_error \<Rightarrow> payload option) \<Rightarrow> lua_value \<Rightarrow> bool" where
  "is_cancel_error dc v \<longleftrightarrow> (case v of VError e \<Rightarrow> is_cancel dc e | _ \<Rightarrow> False)"

section \<open>The Lua class Task\<close>

text \<open>A handle is a table \<open>hdl\<close> with the id \<open>i\<close> of its task; \<^verbatim>\<open>_joined\<close> is \<open>vm_joined v hdl\<close>.  The position
  that Lua's \<^verbatim>\<open>error\<close> puts in front of a message is left out.\<close>

definition already_joined :: mlua_error where
  "already_joined = RuntimeError ''task already joined''"

definition task_join_start :: "nat \<Rightarrow> nat \<Rightarrow> 'q vm \<Rightarrow> (mlua_error + join_future) \<times> 'q vm" where
  "task_join_start hdl i v =
    (if vm_joined v hdl then (Inl already_joined, v)
     else (Inr \<lparr>jf_id = i, jf_task = None\<rparr>, set_joined hdl True v))"

definition task_cancel :: "nat \<Rightarrow> nat \<Rightarrow> 'q vm \<Rightarrow> (mlua_error + unit) \<times> 'q vm" where
  "task_cancel hdl i v = (if vm_joined v hdl then (Inr (), v) else cancel_raw i v)"

definition task_done :: "nat \<Rightarrow> nat \<Rightarrow> 'q vm \<Rightarrow> mlua_error + bool" where
  "task_done hdl i v = (if vm_joined v hdl then Inr True else done_raw i v)"

text \<open>\<^verbatim>\<open>__close\<close> cancels and then joins; \<^verbatim>\<open>__gc\<close> releases.\<close>

definition task_close :: "nat \<Rightarrow> nat \<Rightarrow> 'q vm \<Rightarrow> (mlua_error + join_future option) \<times> 'q vm" where
  "task_close hdl i v =
    (if vm_joined v hdl then (Inr None, v)
     else
       case cancel_raw i v of
         (Inl e, v1) \<Rightarrow> (Inl e, v1)
       | (Inr u, v1) \<Rightarrow> (case task_join_start hdl i v1 of (r, v2) \<Rightarrow> (map_sum id Some r, v2)))"

definition task_gc :: "nat \<Rightarrow> nat \<Rightarrow> 'q vm \<Rightarrow> (mlua_error + unit) \<times> 'q vm" where
  "task_gc hdl i v = (if vm_joined v hdl then (Inr (), v) else release_raw i v)"

text \<open>\<^verbatim>\<open>task.is_cancelled\<close>: \<^verbatim>\<open>task.CANCELLED\<close> itself or the error of a cancel.\<close>

definition task_is_cancelled :: "(mlua_error \<Rightarrow> payload option) \<Rightarrow> lua_value \<Rightarrow> 'q vm \<Rightarrow> bool" where
  "task_is_cancelled dc e v \<longleftrightarrow> e = VTable (vm_cancelled v) \<or> is_cancel_error dc e"

end
