(* ===== verification/Isle_Select.thy ===== *)
theory Isle_Select
  imports Isle_Registry
begin

text \<open>
  Timers and select of \<^verbatim>\<open>src/select.rs\<close>: the arms, the future that polls them, and the cancellable
  waits of \<^verbatim>\<open>send\<close> and \<^verbatim>\<open>select\<close>.

  An arm owns its receive or send future; a timer holds its deadline (and whether its \<^verbatim>\<open>Sleep\<close> was
  made); a task arm holds what \<^verbatim>\<open>join\<close> needs.  A list of arms is passed and returned, as the
  future owns them.  \<open>SelectFuture\<close> is a \<open>select_future\<close>; a poll gives an index and values.
\<close>

section \<open>Timers\<close>

record timer =
  tm_deadline :: nat

text \<open>\<^verbatim>\<open>Timer::after\<close>: \<open>from_secs\<close> is \<^verbatim>\<open>Duration::try_from_secs_f64\<close> followed by \<^verbatim>\<open>checked_add\<close> to now,
  as a number of ticks from now.\<close>

definition timer_after :: "(rat \<Rightarrow> nat option) \<Rightarrow> nat \<Rightarrow> f64 \<Rightarrow> mlua_error + timer" where
  "timer_after from_secs now ms =
    (case ms of
       FNan \<Rightarrow> Inl (RuntimeError ''task.after: ms is NaN'')
     | FInf neg \<Rightarrow>
         if neg then Inr \<lparr>tm_deadline = now\<rparr>
         else Inl (RuntimeError ''task.after: ms is out of range'')
     | FFin x \<Rightarrow>
         if x \<le> 0 then Inr \<lparr>tm_deadline = now\<rparr>
         else (case from_secs (x / 1000) of
                 None \<Rightarrow> Inl (RuntimeError ''task.after: ms is out of range'')
               | Some d \<Rightarrow> Inr \<lparr>tm_deadline = now + d\<rparr>))"

section \<open>Arms\<close>

record task_arm =
  ta_id :: nat
  ta_task :: nat
  ta_handle :: nat
  ta_wait :: bool
  ta_taken :: "lua_value list option option"

datatype arm = ArmRecv receiving | ArmSend sending | ArmTimer timer bool | ArmTask task_arm

text \<open>\<^verbatim>\<open>TaskArm::join\<close>, \<^verbatim>\<open>TaskArm::poll_take\<close>, \<^verbatim>\<open>TaskArm::untake\<close>.\<close>

definition arm_join :: "task_arm \<Rightarrow> 'q vm \<Rightarrow> (mlua_error + lua_value list) \<times> task_arm \<times> 'q vm" where
  "arm_join a v =
    (if vm_joined v (ta_handle a) then (Inl already_joined, a, v)
     else
       let (out, v1) = vm_take_result (ta_task a) (reg_forget (ta_id a) (set_joined (ta_handle a) True v))
       in (Inr (joined_values out v1), a\<lparr>ta_taken := Some out\<rparr>, v1))"

definition task_arm_poll ::
  "task_arm \<Rightarrow> 'q vm \<Rightarrow> (mlua_error + lua_value list) poll \<times> task_arm \<times> 'q vm" where
  "task_arm_poll a v =
    (if vm_done (ta_task a) v
     then let (r, a1, v1) = arm_join (a\<lparr>ta_wait := False\<rparr>) v in (Ready r, a1, v1)
     else (Pending, a\<lparr>ta_wait := True\<rparr>, v))"

definition task_arm_untake :: "task_arm \<Rightarrow> 'q vm \<Rightarrow> task_arm \<times> 'q vm" where
  "task_arm_untake a v =
    (case ta_taken a of
       None \<Rightarrow> (a, v)
     | Some out \<Rightarrow>
         (a\<lparr>ta_taken := None\<rparr>,
          set_joined (ta_handle a) False (reg_restore (ta_id a) (ta_task a) (vm_put_result (ta_task a) out v))))"

text \<open>\<^verbatim>\<open>Arm::poll_take\<close>, \<^verbatim>\<open>Arm::delivered\<close>, \<^verbatim>\<open>Arm::withdraw\<close>, \<^verbatim>\<open>Arm::untake\<close>.\<close>

definition arm_poll_take ::
  "('t, 'q) mpsc_env \<Rightarrow> waker \<Rightarrow> arm \<Rightarrow> 'q vm \<Rightarrow> (mlua_error + lua_value list) poll \<times> arm \<times> 'q vm" where
  "arm_poll_take env wk a v =
    (case a of
       ArmRecv r \<Rightarrow>
         let (got, r1, s) = receiving_poll env wk r (vm_chan v)
         in (map_poll (map_sum id recv_values) got, ArmRecv r1, v\<lparr>vm_chan := s\<rparr>)
     | ArmSend sd \<Rightarrow>
         let (got, sd1, s) = sending_poll env wk sd (vm_chan v)
         in (map_poll (map_sum id (\<lambda>sent. send_values (\<not> isl sent))) got, ArmSend sd1, v\<lparr>vm_chan := s\<rparr>)
     | ArmTimer t slept \<Rightarrow>
         if tm_deadline t \<le> sw_now (vm_world v) then (Ready (Inr []), a, v)
         else (Pending, ArmTimer t True, v)
     | ArmTask ta \<Rightarrow> let (r, ta1, v1) = task_arm_poll ta v in (r, ArmTask ta1, v1))"

definition arm_delivered :: "'q vm \<Rightarrow> arm \<Rightarrow> bool" where
  "arm_delivered v a \<longleftrightarrow> (case a of ArmSend sd \<Rightarrow> sending_delivered (vm_chan v) sd | _ \<Rightarrow> False)"

definition arm_withdraw :: "('t, 'q) mpsc_env \<Rightarrow> arm \<Rightarrow> 'q vm \<Rightarrow> arm \<times> 'q vm" where
  "arm_withdraw env a v =
    (case a of
       ArmRecv r \<Rightarrow> let (r1, s) = receiving_withdraw r (vm_chan v) in (ArmRecv r1, v\<lparr>vm_chan := s\<rparr>)
     | ArmSend sd \<Rightarrow> let (sd1, s) = sending_withdraw env sd (vm_chan v) in (ArmSend sd1, v\<lparr>vm_chan := s\<rparr>)
     | ArmTimer t slept \<Rightarrow> (a, v)
     | ArmTask ta \<Rightarrow> (ArmTask (ta\<lparr>ta_wait := False\<rparr>), v))"

definition arm_untake :: "arm \<Rightarrow> lua_value list \<Rightarrow> 'q vm \<Rightarrow> arm \<times> 'q vm" where
  "arm_untake a values v =
    (case a of
       ArmRecv r \<Rightarrow>
         (case values of
            x # VBoolean True # _ \<Rightarrow> (a, v\<lparr>vm_chan := unrecv (r_chan r) x (vm_chan v)\<rparr>)
          | _ \<Rightarrow> (a, v))
     | ArmTask ta \<Rightarrow> let (ta1, v1) = task_arm_untake ta v in (ArmTask ta1, v1)
     | _ \<Rightarrow> (a, v))"

section \<open>The select future\<close>

record select_future =
  sf_arms :: "arm list"
  sf_start :: nat
  sf_mark :: nat

definition vm_claim :: "nat \<Rightarrow> 'q vm \<Rightarrow> 'q vm" where
  "vm_claim m v = v\<lparr>vm_chan := claim m (vm_chan v)\<rparr>"

text \<open>Withdraw the arms at the given places, in that order.\<close>

fun withdraw_at ::
  "('t, 'q) mpsc_env \<Rightarrow> nat list \<Rightarrow> arm list \<Rightarrow> 'q vm \<Rightarrow> arm list \<times> 'q vm" where
  "withdraw_at env [] arms v = (arms, v)"
| "withdraw_at env (j # js) arms v =
    (let (a, v1) = arm_withdraw env (arms ! j) v in withdraw_at env js (arms[j := a]) v1)"

text \<open>\<^verbatim>\<open>resolve\<close>, \<^verbatim>\<open>withdraw_all\<close>, \<^verbatim>\<open>take_delivered\<close>.\<close>

definition sel_resolve ::
  "('t, 'q) mpsc_env \<Rightarrow> nat \<Rightarrow> select_future \<Rightarrow> 'q vm \<Rightarrow> select_future \<times> 'q vm" where
  "sel_resolve env chosen f v =
    (let (arms, v1) = withdraw_at env (filter (\<lambda>j. j \<noteq> chosen) [0 ..< length (sf_arms f)]) (sf_arms f)
                        (vm_claim (sf_mark f) v)
     in (f\<lparr>sf_arms := arms\<rparr>, v1))"

definition sel_withdraw_all ::
  "('t, 'q) mpsc_env \<Rightarrow> select_future \<Rightarrow> 'q vm \<Rightarrow> select_future \<times> 'q vm" where
  "sel_withdraw_all env f v =
    (let (arms, v1) = withdraw_at env [0 ..< length (sf_arms f)] (sf_arms f) (vm_claim (sf_mark f) v)
     in (f\<lparr>sf_arms := arms\<rparr>, v1))"

definition take_delivered ::
  "('t, 'q) mpsc_env \<Rightarrow> select_future \<Rightarrow> 'q vm \<Rightarrow>
    (nat \<times> lua_value list) option \<times> select_future \<times> 'q vm" where
  "take_delivered env f v =
    (case position (arm_delivered v) (sf_arms f) of
       None \<Rightarrow> (None, f, v)
     | Some i \<Rightarrow> let (f1, v1) = sel_resolve env i f v in (Some (i, send_values True), f1, v1))"

text \<open>The loop of \<^verbatim>\<open>poll\<close>: the places still to poll, in order.\<close>

fun sel_loop ::
  "('t, 'q) mpsc_env \<Rightarrow> waker \<Rightarrow> nat list \<Rightarrow> select_future \<Rightarrow> 'q vm \<Rightarrow>
    (mlua_error + nat \<times> lua_value list) poll \<times> select_future \<times> 'q vm" where
  "sel_loop env wk [] f v = (Pending, f, v)"
| "sel_loop env wk (i # is) f v =
    (case arm_poll_take env wk (sf_arms f ! i) v of
       (Ready out, a, v1) \<Rightarrow>
         let (f1, v2) = sel_resolve env i (f\<lparr>sf_arms := (sf_arms f)[i := a]\<rparr>) v1
         in (Ready (map_sum id (\<lambda>vs. (i, vs)) out), f1, v2)
     | (Pending, a, v1) \<Rightarrow> sel_loop env wk is (f\<lparr>sf_arms := (sf_arms f)[i := a]\<rparr>) v1)"

definition sel_order :: "select_future \<Rightarrow> nat list" where
  "sel_order f = map (\<lambda>k. (sf_start f + k) mod length (sf_arms f)) [0 ..< length (sf_arms f)]"

definition sel_poll ::
  "('t, 'q) mpsc_env \<Rightarrow> waker \<Rightarrow> select_future \<Rightarrow> 'q vm \<Rightarrow>
    (mlua_error + nat \<times> lua_value list) poll \<times> select_future \<times> 'q vm" where
  "sel_poll env wk f v =
    (case take_delivered env f v of
       (Some out, f1, v1) \<Rightarrow> (Ready (Inr out), f1, v1)
     | (None, f1, v1) \<Rightarrow> sel_loop env wk (sel_order f1) f1 v1)"

text \<open>\<^verbatim>\<open>poll_now\<close>.\<close>

fun arm_eager :: "arm \<Rightarrow> arm" where
  "arm_eager (ArmSend sd) = ArmSend (set_eager sd)"
| "arm_eager a = a"

definition sel_poll_now ::
  "('t, 'q) mpsc_env \<Rightarrow> select_future \<Rightarrow> 'q vm \<Rightarrow>
    (mlua_error + nat \<times> lua_value list) option \<times> select_future \<times> 'q vm" where
  "sel_poll_now env f v =
    (case sel_poll env NoopWaker (f\<lparr>sf_arms := map arm_eager (sf_arms f)\<rparr>) v of
       (Ready out, f1, v1) \<Rightarrow> (Some out, f1, v1)
     | (Pending, f1, v1) \<Rightarrow> let (f2, v2) = sel_withdraw_all env f1 v1 in (None, f2, v2))"

section \<open>Cancellable waits\<close>

text \<open>\<^verbatim>\<open>wait_select\<close> and \<^verbatim>\<open>wait_send\<close>: one poll, under the token that was current at the call.\<close>

definition wait_select_poll ::
  "('t, 'q) mpsc_env \<Rightarrow> waker \<Rightarrow> nat option \<Rightarrow> select_future \<Rightarrow> 'q vm \<Rightarrow>
    (mlua_error + nat \<times> lua_value list) poll \<times> select_future \<times> 'q vm" where
  "wait_select_poll env wk tok f v =
    (case tok of
       None \<Rightarrow> sel_poll env wk f v
     | Some t \<Rightarrow>
         if token_cancelled (vm_world v) t then
           (case take_delivered env f v of
              (Some out, f1, v1) \<Rightarrow> (Ready (Inr out), f1, v1)
            | (None, f1, v1) \<Rightarrow> (Ready (Inl cancel_error), f1, v1))
         else sel_poll env wk f v)"

definition wait_send_poll ::
  "('t, 'q) mpsc_env \<Rightarrow> waker \<Rightarrow> nat option \<Rightarrow> sending \<Rightarrow> 'q vm \<Rightarrow>
    (mlua_error + (chan_closed + unit)) poll \<times> sending \<times> 'q vm" where
  "wait_send_poll env wk tok sd v =
    (let go = (let (r, sd1, s) = sending_poll env wk sd (vm_chan v) in (r, sd1, v\<lparr>vm_chan := s\<rparr>))
     in case tok of
          None \<Rightarrow> go
        | Some t \<Rightarrow>
            if token_cancelled (vm_world v) t then
              (if sending_delivered (vm_chan v) sd then (Ready (Inr (Inr ())), sd, v)
               else (Ready (Inl cancel_error), sd, v))
            else go)"

section \<open>Reading the cases\<close>

text \<open>
  A case table as the code reads it: every field read may fail (a metamethod can raise).  \<open>uds\<close> tells
  what a userdata is.  An item of the cases is a table, something else (\<open>None\<close>), or an error.
\<close>

datatype udata = UdChan nat | UdTimer timer | UdTask nat | UdOther

record case_table =
  ct_kind :: "mlua_error + string"
  ct_target :: "mlua_error + lua_value"
  ct_value :: "mlua_error + lua_value"
  ct_handle :: "mlua_error + nat"
  ct_handler :: "mlua_error + lua_value"

record case_opts =
  co_biased :: "mlua_error + lua_value"
  co_default :: "mlua_error + lua_value"

datatype default_case = NoDefault | RawDefault | HandlerDefault nat

record select_cases =
  ca_arms :: "arm list"
  ca_mark :: nat
  ca_handlers :: "nat list"
  ca_default :: default_case
  ca_start :: nat

definition case_error :: "string \<Rightarrow> nat \<Rightarrow> string \<Rightarrow> mlua_error" where
  "case_error name n what = RuntimeError (name @ '': case '' @ show_nat n @ what)"

definition not_a_case :: "string \<Rightarrow> nat \<Rightarrow> mlua_error" where
  "not_a_case name n = case_error name n
    '' is not a case (build cases with ch:on(f) / ch:on_send(v, f) / t:on(f) / h:on(f), or ch:arm_recv() / ch:arm_send(v) / t:arm() / h:arm() for select_raw)''"

definition no_handler :: "string \<Rightarrow> nat \<Rightarrow> mlua_error" where
  "no_handler name n = case_error name n
    '' has no handler (build it with ch:on(f) / ch:on_send(v, f) / t:on(f) / h:on(f))''"

definition kinds :: "string list" where
  "kinds = [''recv'', ''send'', ''timer'', ''task'']"

definition target_udata :: "(nat \<Rightarrow> udata) \<Rightarrow> lua_value \<Rightarrow> udata" where
  "target_udata uds target = (case target of VUserData u \<Rightarrow> uds u | _ \<Rightarrow> UdOther)"

text \<open>The arm of one case; \<open>Inl\<close> is the error \<^verbatim>\<open>read_cases\<close> returns.\<close>

definition read_arm ::
  "(nat \<Rightarrow> udata) \<Rightarrow> string \<Rightarrow> nat \<Rightarrow> nat \<Rightarrow> case_table \<Rightarrow> 'q vm \<Rightarrow> mlua_error + arm" where
  "read_arm uds name n mark ct v =
    (case (ct_kind ct, ct_target ct) of
       (Inl e, _) \<Rightarrow> Inl e
     | (Inr kind, Inl e) \<Rightarrow> Inl e
     | (Inr kind, Inr target) \<Rightarrow>
         (case (kind = ''recv'', kind = ''send'', kind = ''timer'', kind = ''task'', target_udata uds target) of
            (True, _, _, _, UdChan ch) \<Rightarrow>
              (case send_only (vm_chan v) ch of
                 Some why \<Rightarrow> Inl (case_error name n ('': channel is send-only ('' @ why @ '')''))
               | None \<Rightarrow> Inr (ArmRecv (receiving_new ch (Some mark))))
          | (_, True, _, _, UdChan ch) \<Rightarrow>
              (case receive_only (vm_chan v) ch of
                 Some why \<Rightarrow> Inl (case_error name n ('': channel is receive-only ('' @ why @ '')''))
               | None \<Rightarrow> map_sum id (\<lambda>x. ArmSend (sending_new ch x (Some mark))) (ct_value ct))
          | (_, _, True, _, UdTimer t) \<Rightarrow> Inr (ArmTimer t False)
          | (_, _, _, True, UdTask i) \<Rightarrow>
              (case ct_handle ct of
                 Inl e \<Rightarrow> Inl e
               | Inr hdl \<Rightarrow>
                   if vm_joined v hdl then Inl (case_error name n '': task already joined'')
                   else map_sum id (\<lambda>t. ArmTask \<lparr>ta_id = i, ta_task = t, ta_handle = hdl,
                                                  ta_wait = False, ta_taken = None\<rparr>) (reg_get i v))
          | _ \<Rightarrow>
              if kind \<in> set kinds then
                Inl (case_error name n ('': target is not a '' @
                  (if kind = ''timer'' then ''timer'' else if kind = ''task'' then ''task'' else ''channel'')))
              else Inl (case_error name n ('': unknown kind '' @ [CHR 0x27] @ kind @ [CHR 0x27]))))"

fun read_arms ::
  "(nat \<Rightarrow> udata) \<Rightarrow> string \<Rightarrow> bool \<Rightarrow> nat \<Rightarrow> nat \<Rightarrow> (mlua_error + case_table option) list \<Rightarrow> 'q vm \<Rightarrow>
    mlua_error + (arm list \<times> nat list)" where
  "read_arms uds name handlers mark n [] v = Inr ([], [])"
| "read_arms uds name handlers mark n (Inl e # cs) v = Inl e"
| "read_arms uds name handlers mark n (Inr None # cs) v = Inl (not_a_case name n)"
| "read_arms uds name handlers mark n (Inr (Some ct) # cs) v =
    (case read_arm uds name n mark ct v of
       Inl e \<Rightarrow> Inl e
     | Inr a \<Rightarrow>
         (case (if handlers then ct_handler ct else Inr (VFunction 0)) of
            Inl e \<Rightarrow> Inl e
          | Inr (VFunction fn) \<Rightarrow>
              map_sum id (\<lambda>(arms, fns). (a # arms, if handlers then fn # fns else fns))
                (read_arms uds name handlers mark (Suc n) cs v)
          | Inr _ \<Rightarrow> Inl (no_handler name n)))"

definition read_opts :: "string \<Rightarrow> bool \<Rightarrow> case_opts option \<Rightarrow> mlua_error + (bool \<times> default_case)" where
  "read_opts name handlers opts =
    (case opts of
       None \<Rightarrow> Inr (False, NoDefault)
     | Some o' \<Rightarrow>
         (case co_biased o' of
            Inl e \<Rightarrow> Inl e
          | Inr b \<Rightarrow>
              (case (case b of VNil \<Rightarrow> Some False | VBoolean x \<Rightarrow> Some x | _ \<Rightarrow> None) of
                 None \<Rightarrow> Inl (RuntimeError (name @ '': opts.biased must be a boolean''))
               | Some biased \<Rightarrow>
                   (case co_default o' of
                      Inl e \<Rightarrow> Inl e
                    | Inr d \<Rightarrow>
                        if d = VNil \<or> (d = VBoolean False \<and> \<not> handlers) then Inr (biased, NoDefault)
                        else if d = VBoolean True \<and> \<not> handlers then Inr (biased, RawDefault)
                        else (case (d, handlers) of
                                (VFunction fn, True) \<Rightarrow> Inr (biased, HandlerDefault fn)
                              | (_, False) \<Rightarrow> Inl (RuntimeError (name @ '': opts.default must be a boolean''))
                              | (_, True) \<Rightarrow> Inl (RuntimeError (name @ '': opts.default must be a function'')))))))"

text \<open>\<^verbatim>\<open>read_cases\<close>: the mark is made first, the turn is taken last.\<close>

definition read_cases ::
  "(nat \<Rightarrow> udata) \<Rightarrow> string \<Rightarrow> (mlua_error + case_table option) list \<Rightarrow> case_opts option \<Rightarrow> bool \<Rightarrow>
    'q vm \<Rightarrow> (mlua_error + select_cases) \<times> 'q vm" where
  "read_cases uds name cases opts handlers v =
    (let (mark, s) = mark_new (vm_chan v);
         v1 = v\<lparr>vm_chan := s\<rparr>
     in case read_arms uds name handlers mark 1 cases v1 of
          Inl e \<Rightarrow> (Inl e, v1)
        | Inr (arms, fns) \<Rightarrow>
            (case read_opts name handlers opts of
               Inl e \<Rightarrow> (Inl e, v1)
             | Inr (biased, dflt) \<Rightarrow>
                 if arms = [] \<and> dflt = NoDefault
                 then (Inl (RuntimeError (name @ '': no cases and no default'')), v1)
                 else
                   let (start, v2) =
                     (if biased \<or> arms = [] then (0, v1)
                      else let (turn, h) = next_select_turn (vm_hub v1)
                           in (unat turn mod length arms, v1\<lparr>vm_hub := h\<rparr>))
                   in (Inr \<lparr>ca_arms = arms, ca_mark = mark, ca_handlers = fns, ca_default = dflt,
                           ca_start = start\<rparr>, v2)))"

end
