(* ===== verification/Isle_Channel_Lib.thy ===== *)
theory Isle_Channel_Lib
  imports Isle_Select
begin

text \<open>
  Channels, timers, tickers and select as Lua sees them: the host functions of \<^verbatim>\<open>channel_parts\<close> and
  the classes of \<^verbatim>\<open>LIB\<close> in \<^verbatim>\<open>src/task_lib.rs\<close>.

  A userdata argument is an address; \<open>uds\<close> tells what it is, and \<open>mismatch\<close> is mlua's error for a
  userdata of another type.  An async function is its start (what happens before its future can wait)
  and its poll; \<open>tok\<close> is the token that was current when it started to wait.  The position that
  Lua's \<^verbatim>\<open>error\<close> puts in front of a message is left out.
\<close>

section \<open>Checks\<close>

definition chan_of :: "(nat \<Rightarrow> udata) \<Rightarrow> mlua_error \<Rightarrow> nat \<Rightarrow> mlua_error + nat" where
  "chan_of uds mismatch u = (case uds u of UdChan ch \<Rightarrow> Inr ch | _ \<Rightarrow> Inl mismatch)"

definition closed_error :: "string \<Rightarrow> mlua_error" where
  "closed_error meth = RuntimeError (meth @ '': channel is closed'')"

definition check_sendable :: "string \<Rightarrow> nat \<Rightarrow> 'q vm \<Rightarrow> mlua_error + unit" where
  "check_sendable meth ch v =
    (case receive_only (vm_chan v) ch of
       None \<Rightarrow> Inr ()
     | Some why \<Rightarrow> Inl (RuntimeError (meth @ '': channel is receive-only ('' @ why @ '')'')))"

definition check_receivable :: "string \<Rightarrow> nat \<Rightarrow> 'q vm \<Rightarrow> mlua_error + unit" where
  "check_receivable meth ch v =
    (case send_only (vm_chan v) ch of
       None \<Rightarrow> Inr ()
     | Some why \<Rightarrow> Inl (RuntimeError (meth @ '': channel is send-only ('' @ why @ '')'')))"

text \<open>The channel a method works on, after its check.\<close>

definition sendable_chan ::
  "(nat \<Rightarrow> udata) \<Rightarrow> mlua_error \<Rightarrow> string \<Rightarrow> nat \<Rightarrow> 'q vm \<Rightarrow> mlua_error + nat" where
  "sendable_chan uds mismatch meth u v =
    (case chan_of uds mismatch u of
       Inl e \<Rightarrow> Inl e
     | Inr ch \<Rightarrow> map_sum id (\<lambda>_. ch) (check_sendable meth ch v))"

definition receivable_chan ::
  "(nat \<Rightarrow> udata) \<Rightarrow> mlua_error \<Rightarrow> string \<Rightarrow> nat \<Rightarrow> 'q vm \<Rightarrow> mlua_error + nat" where
  "receivable_chan uds mismatch meth u v =
    (case chan_of uds mismatch u of
       Inl e \<Rightarrow> Inl e
     | Inr ch \<Rightarrow> map_sum id (\<lambda>_. ch) (check_receivable meth ch v))"

section \<open>Channels\<close>

text \<open>\<^verbatim>\<open>f64::fract() == 0.0\<close> and the saturating cast \<^verbatim>\<open>as i64\<close>.\<close>

definition whole_i64 :: "rat \<Rightarrow> int option" where
  "whole_i64 x =
    (if of_int \<lfloor>x\<rfloor> = x then Some (max (- (2 ^ 63)) (min (2 ^ 63 - 1) \<lfloor>x\<rfloor>)) else None)"

fun cap_value :: "lua_value \<Rightarrow> int option" where
  "cap_value (VInteger n) = Some n"
| "cap_value (VNumber (FFin x)) = whole_i64 x"
| "cap_value _ = None"

definition lib_channel :: "lua_value \<Rightarrow> 'q vm \<Rightarrow> (mlua_error + nat) \<times> 'q vm" where
  "lib_channel cap v =
    (case cap_value cap of
       Some n \<Rightarrow>
         if 0 \<le> n then let (ch, s) = chan_new (nat n) (vm_chan v) in (Inr ch, v\<lparr>vm_chan := s\<rparr>)
         else (Inl (RuntimeError ''task.channel: cap must be an integer >= 0''), v)
     | None \<Rightarrow> (Inl (RuntimeError ''task.channel: cap must be an integer >= 0''), v))"

definition lib_send_start ::
  "(nat \<Rightarrow> udata) \<Rightarrow> mlua_error \<Rightarrow> nat \<Rightarrow> lua_value \<Rightarrow> 'q vm \<Rightarrow> mlua_error + sending" where
  "lib_send_start uds mismatch u x v =
    map_sum id (\<lambda>ch. sending_new ch x None) (sendable_chan uds mismatch ''ch:send'' u v)"

definition lib_send_poll ::
  "('t, 'q) mpsc_env \<Rightarrow> waker \<Rightarrow> nat option \<Rightarrow> sending \<Rightarrow> 'q vm \<Rightarrow>
    (mlua_error + unit) poll \<times> sending \<times> 'q vm" where
  "lib_send_poll env wk tok sd v =
    (let (r, sd1, v1) = wait_send_poll env wk tok sd v
     in (map_poll (\<lambda>r. case r of
           Inl e \<Rightarrow> Inl e
         | Inr (Inl c) \<Rightarrow> Inl (closed_error ''ch:send'')
         | Inr (Inr u) \<Rightarrow> Inr u) r, sd1, v1))"

definition lib_try_send ::
  "('t, 'q) mpsc_env \<Rightarrow> (nat \<Rightarrow> udata) \<Rightarrow> mlua_error \<Rightarrow> nat \<Rightarrow> lua_value \<Rightarrow> 'q vm \<Rightarrow>
    (mlua_error + bool) \<times> 'q vm" where
  "lib_try_send env uds mismatch u x v =
    (case sendable_chan uds mismatch ''ch:try_send'' u v of
       Inl e \<Rightarrow> (Inl e, v)
     | Inr ch \<Rightarrow>
         let (r, s) = try_send env ch x (vm_chan v)
         in (case r of
               Inl e \<Rightarrow> Inl e
             | Inr (Inl c) \<Rightarrow> Inl (closed_error ''ch:try_send'')
             | Inr (Inr sent) \<Rightarrow> Inr sent, v\<lparr>vm_chan := s\<rparr>))"

definition lib_recv_start ::
  "(nat \<Rightarrow> udata) \<Rightarrow> mlua_error \<Rightarrow> nat \<Rightarrow> 'q vm \<Rightarrow> mlua_error + receiving" where
  "lib_recv_start uds mismatch u v =
    map_sum id (\<lambda>ch. receiving_new ch None) (receivable_chan uds mismatch ''ch:recv'' u v)"

definition lib_recv_poll ::
  "('t, 'q) mpsc_env \<Rightarrow> waker \<Rightarrow> nat option \<Rightarrow> receiving \<Rightarrow> 'q vm \<Rightarrow>
    (mlua_error + lua_value list) poll \<times> receiving \<times> 'q vm" where
  "lib_recv_poll env wk tok r v =
    (let (got, r1, v1) =
       cancellable_poll (\<lambda>(r, v). token_cancelled (vm_world v)) tok
         (\<lambda>(r, v). let (got, r1, s) = receiving_poll env wk r (vm_chan v)
                    in (got, r1, v\<lparr>vm_chan := s\<rparr>)) (r, v)
     in (map_poll (map_sum id recv_values) got, r1, v1))"

text \<open>\<^verbatim>\<open>v, got, open_or_done\<close> of \<^verbatim>\<open>try_recv\<close>.\<close>

fun try_recv_values :: "try_recv_result \<Rightarrow> lua_value list" where
  "try_recv_values (TryValue x) = [x, VBoolean True, VBoolean True]"
| "try_recv_values TryClosed = [VNil, VBoolean False, VBoolean True]"
| "try_recv_values TryEmpty = [VNil, VBoolean False, VBoolean False]"

definition lib_try_recv ::
  "('t, 'q) mpsc_env \<Rightarrow> (nat \<Rightarrow> udata) \<Rightarrow> mlua_error \<Rightarrow> nat \<Rightarrow> 'q vm \<Rightarrow>
    (mlua_error + lua_value list) \<times> 'q vm" where
  "lib_try_recv env uds mismatch u v =
    (case receivable_chan uds mismatch ''ch:try_recv'' u v of
       Inl e \<Rightarrow> (Inl e, v)
     | Inr ch \<Rightarrow>
         let (r, s) = try_recv env ch (vm_chan v)
         in (map_sum id try_recv_values r, v\<lparr>vm_chan := s\<rparr>))"

definition lib_close ::
  "('t, 'q) mpsc_env \<Rightarrow> (nat \<Rightarrow> udata) \<Rightarrow> mlua_error \<Rightarrow> nat \<Rightarrow> 'q vm \<Rightarrow> (mlua_error + unit) \<times> 'q vm"
where
  "lib_close env uds mismatch u v =
    (case chan_of uds mismatch u of
       Inl e \<Rightarrow> (Inl e, v)
     | Inr ch \<Rightarrow> (Inr (), v\<lparr>vm_chan := chan_close env ch (vm_chan v)\<rparr>))"

definition lib_closed ::
  "('t, 'q) mpsc_env \<Rightarrow> (nat \<Rightarrow> udata) \<Rightarrow> mlua_error \<Rightarrow> nat \<Rightarrow> 'q vm \<Rightarrow> mlua_error + bool" where
  "lib_closed env uds mismatch u v =
    map_sum id (chan_is_closed env (vm_chan v)) (chan_of uds mismatch u)"

definition lib_len ::
  "('t, 'q) mpsc_env \<Rightarrow> (nat \<Rightarrow> udata) \<Rightarrow> mlua_error \<Rightarrow> nat \<Rightarrow> 'q vm \<Rightarrow> mlua_error + nat" where
  "lib_len env uds mismatch u v = map_sum id (chan_len env (vm_chan v)) (chan_of uds mismatch u)"

definition lib_cap ::
  "('t, 'q) mpsc_env \<Rightarrow> (nat \<Rightarrow> udata) \<Rightarrow> mlua_error \<Rightarrow> nat \<Rightarrow> 'q vm \<Rightarrow> mlua_error + nat" where
  "lib_cap env uds mismatch u v = map_sum id (chan_cap env (vm_chan v)) (chan_of uds mismatch u)"

section \<open>Timers\<close>

definition lib_after ::
  "(rat \<Rightarrow> nat option) \<Rightarrow> f64 \<Rightarrow> 'q vm \<Rightarrow> mlua_error + timer" where
  "lib_after from_secs ms v = timer_after from_secs (sw_now (vm_world v)) ms"

text \<open>\<^verbatim>\<open>wait\<close>: the poll of \<^verbatim>\<open>sleep_until\<close> under \<^verbatim>\<open>cancellable\<close>.\<close>

definition lib_wait_poll ::
  "(nat \<Rightarrow> udata) \<Rightarrow> mlua_error \<Rightarrow> nat option \<Rightarrow> nat \<Rightarrow> 'q vm \<Rightarrow> (mlua_error + unit) poll \<times> 'q vm" where
  "lib_wait_poll uds mismatch tok u v =
    (case uds u of
       UdTimer t \<Rightarrow>
         cancellable_poll (\<lambda>v. token_cancelled (vm_world v)) tok
           (\<lambda>v. (if tm_deadline t \<le> sw_now (vm_world v) then Ready (Inr ()) else Pending, v)) v
     | _ \<Rightarrow> (Ready (Inl mismatch), v))"

section \<open>Tickers\<close>

text \<open>
  \<open>ticker\<close> is a \<^verbatim>\<open>TickerUd\<close>; \<open>run_ticker\<close> is the future of the host task.  tokio's interval is a
  parameter: \<open>ck_next_tick t now period\<close> is the tick after the one scheduled for \<open>t\<close> that fired at \<open>now\<close>
  (\<^verbatim>\<open>MissedTickBehavior::Skip\<close>).  \<open>to_ms\<close> is \<^verbatim>\<open>as_nanos() as f64 / 1e6\<close>; \<open>latest\<close> is the last
  \<^verbatim>\<open>Instant\<close> of the platform, past which an addition panics.
\<close>

record ticker =
  tk_task :: "scoped_task option"
  tk_chan :: nat

datatype ticker_at = TkStart | TkNext nat | TkDone | TkPanicked

record run_ticker =
  rt_chan :: nat
  rt_start :: nat
  rt_period :: nat
  rt_at :: ticker_at

record clock_env =
  ck_from_secs :: "rat \<Rightarrow> nat option"
  ck_next_tick :: "nat \<Rightarrow> nat \<Rightarrow> nat \<Rightarrow> nat"
  ck_to_ms :: "nat \<Rightarrow> f64"
  ck_latest :: nat

definition ticker_period :: "(rat \<Rightarrow> nat option) \<Rightarrow> f64 \<Rightarrow> mlua_error + nat" where
  "ticker_period from_secs ms =
    (case ms of
       FNan \<Rightarrow> Inl (RuntimeError ''task.ticker: ms must be > 0'')
     | FInf neg \<Rightarrow>
         Inl (RuntimeError (if neg then ''task.ticker: ms must be > 0'' else ''task.ticker: ms is out of range''))
     | FFin x \<Rightarrow>
         if x \<le> 0 then Inl (RuntimeError ''task.ticker: ms must be > 0'')
         else (case from_secs (x / 1000) of
                 None \<Rightarrow> Inl (RuntimeError ''task.ticker: ms is out of range'')
               | Some d \<Rightarrow>
                   if d = 0 then Inl (RuntimeError ''task.ticker: ms is out of range'') else Inr d))"

text \<open>\<^verbatim>\<open>ticker\<close>: the channel, the userdata, and the future given to \<^verbatim>\<open>spawn_local\<close>.\<close>

definition lib_ticker ::
  "clock_env \<Rightarrow> f64 \<Rightarrow> 'q vm \<Rightarrow> (mlua_error + nat \<times> ticker \<times> run_ticker) \<times> 'q vm" where
  "lib_ticker ck ms v =
    (case ticker_period (ck_from_secs ck) ms of
       Inl e \<Rightarrow> (Inl e, v)
     | Inr period \<Rightarrow>
         (case sw_current (vm_world v) of
            None \<Rightarrow>
              (Inl (RuntimeError
                ''task.ticker: not inside a coroutine request or task (sync requests cannot tick)''), v)
          | Some s \<Rightarrow>
              let (ch, cs) = new_ticker (vm_chan v);
                  start = sw_now (vm_world v);
                  (n, w) = spawn (sc_grace (sw_scope (vm_world v) s)) (\<lambda>out _. map_option (\<lambda>_. []) out)
                             s (vm_world v)
              in (Inr (ch, \<lparr>tk_task = Some \<lparr>sk_task = n, sk_wait = False, sk_detached = False\<rparr>, tk_chan = ch\<rparr>,
                       \<lparr>rt_chan = ch, rt_start = start, rt_period = period, rt_at = TkStart\<rparr>),
                  v\<lparr>vm_chan := cs, vm_world := w\<rparr>)))"

text \<open>The end of \<^verbatim>\<open>run_ticker\<close>, however it ends once it was polled: \<^verbatim>\<open>CloseOnDrop\<close>.\<close>

definition ticker_end ::
  "('t, 'q) mpsc_env \<Rightarrow> ticker_at \<Rightarrow> run_ticker \<Rightarrow> 'q vm \<Rightarrow> run_ticker \<times> 'q vm" where
  "ticker_end env st rt v =
    (rt\<lparr>rt_at := st\<rparr>, v\<lparr>vm_chan := chan_close env (rt_chan rt) (vm_chan v)\<rparr>)"

text \<open>
  The loop of one poll: the ticks due at \<open>now\<close>, at most \<open>fuel\<close> of them (\<open>None\<close>: the fuel was not enough).
  \<open>True\<close> is a future that returned.
\<close>

fun ticker_loop ::
  "nat \<Rightarrow> clock_env \<Rightarrow> ('t, 'q) mpsc_env \<Rightarrow> nat option \<Rightarrow> nat \<Rightarrow> run_ticker \<Rightarrow> 'q vm \<Rightarrow>
    (bool \<times> run_ticker \<times> 'q vm) option" where
  "ticker_loop 0 ck env tok due rt v = None"
| "ticker_loop (Suc fuel) ck env tok due rt v =
    (if (case tok of None \<Rightarrow> False | Some t \<Rightarrow> token_cancelled (vm_world v) t)
     then Some (True, ticker_end env TkDone rt v)
     else if sw_now (vm_world v) < due then Some (False, rt\<lparr>rt_at := TkNext due\<rparr>, v)
     else
       case push_newest (rt_chan rt) (VNumber (ck_to_ms ck (due - rt_start rt))) (vm_chan v) of
         (False, s) \<Rightarrow> Some (True, ticker_end env TkDone rt (v\<lparr>vm_chan := s\<rparr>))
       | (True, s) \<Rightarrow>
           ticker_loop fuel ck env tok (ck_next_tick ck due (sw_now (vm_world v)) (rt_period rt)) rt
             (v\<lparr>vm_chan := s\<rparr>))"

definition run_ticker_poll ::
  "nat \<Rightarrow> clock_env \<Rightarrow> ('t, 'q) mpsc_env \<Rightarrow> nat option \<Rightarrow> run_ticker \<Rightarrow> 'q vm \<Rightarrow>
    (bool \<times> run_ticker \<times> 'q vm) option" where
  "run_ticker_poll fuel ck env tok rt v =
    (case rt_at rt of
       TkStart \<Rightarrow>
         if rt_start rt + rt_period rt \<le> ck_latest ck
         then ticker_loop fuel ck env tok (rt_start rt + rt_period rt) rt v
         else Some (True, ticker_end env TkPanicked rt v)
     | TkNext due \<Rightarrow> ticker_loop fuel ck env tok due rt v
     | TkDone \<Rightarrow> Some (True, rt, v)
     | TkPanicked \<Rightarrow> Some (True, rt, v))"

text \<open>Dropping the future: the guard that closes the channel is made by its first poll.\<close>

definition run_ticker_drop :: "('t, 'q) mpsc_env \<Rightarrow> run_ticker \<Rightarrow> 'q vm \<Rightarrow> run_ticker \<times> 'q vm" where
  "run_ticker_drop env rt v =
    (case rt_at rt of TkNext due \<Rightarrow> ticker_end env TkDone rt v | _ \<Rightarrow> (rt, v))"

text \<open>\<^verbatim>\<open>stop\<close>, and the drop of a collected ticker.\<close>

definition drop_ticker_task :: "ticker \<Rightarrow> 'q vm \<Rightarrow> ticker \<times> 'q vm" where
  "drop_ticker_task tk v =
    (case tk_task tk of
       None \<Rightarrow> (tk, v)
     | Some k \<Rightarrow> (tk\<lparr>tk_task := None\<rparr>, v\<lparr>vm_world := scoped_task_drop k (vm_world v)\<rparr>))"

definition lib_stop :: "('t, 'q) mpsc_env \<Rightarrow> ticker \<Rightarrow> 'q vm \<Rightarrow> ticker \<times> 'q vm" where
  "lib_stop env tk v =
    (let (tk1, v1) = drop_ticker_task tk v
     in (tk1, v1\<lparr>vm_chan := chan_close env (tk_chan tk) (vm_chan v1)\<rparr>))"

definition lib_task_case :: "nat \<Rightarrow> 'q vm \<Rightarrow> mlua_error + udata" where
  "lib_task_case i v = map_sum id (\<lambda>_. UdTask i) (reg_get i v)"

section \<open>Select\<close>

definition case_select :: "select_cases \<Rightarrow> select_future" where
  "case_select c = \<lparr>sf_arms = ca_arms c, sf_start = ca_start c, sf_mark = ca_mark c\<rparr>"

definition raw_values :: "nat \<times> lua_value list \<Rightarrow> lua_value list" where
  "raw_values = (\<lambda>(i, vs). VInteger (int i + 1) # vs)"

text \<open>\<^verbatim>\<open>select_raw\<close>: its first poll and the later ones (the future is there while it waits).\<close>

definition select_raw_wait ::
  "('t, 'q) mpsc_env \<Rightarrow> waker \<Rightarrow> nat option \<Rightarrow> select_future \<Rightarrow> 'q vm \<Rightarrow>
    (mlua_error + lua_value list) poll \<times> select_future \<times> 'q vm" where
  "select_raw_wait env wk tok f v =
    (let (r, f1, v1) = wait_select_poll env wk tok f v in (map_poll (map_sum id raw_values) r, f1, v1))"

definition select_raw_first ::
  "('t, 'q) mpsc_env \<Rightarrow> waker \<Rightarrow> nat option \<Rightarrow> mlua_error + select_cases \<Rightarrow> 'q vm \<Rightarrow>
    (mlua_error + lua_value list) poll \<times> select_future option \<times> 'q vm" where
  "select_raw_first env wk tok cases v =
    (case cases of
       Inl e \<Rightarrow> (Ready (Inl e), None, v)
     | Inr c \<Rightarrow>
         if ca_default c = NoDefault
         then let (r, f1, v1) = select_raw_wait env wk tok (case_select c) v in (r, Some f1, v1)
         else let (r, f1, v1) = sel_poll_now env (case_select c) v
              in (Ready (case r of
                           None \<Rightarrow> Inr [VInteger 0]
                         | Some out \<Rightarrow> map_sum id raw_values out), Some f1, v1))"

text \<open>
  \<^verbatim>\<open>select\<close>.  \<open>call args v\<close> is one poll of \<^verbatim>\<open>call_async\<close> on the handler under \<^verbatim>\<open>pcall\<close>: an error is one
  raised before \<^verbatim>\<open>pcall\<close> entered the handler.
\<close>

datatype select_call =
    Selecting select_future
  | Calling nat "lua_value list" select_future
  | CallingDefault nat
  | SelectDone

type_synonym 'q handler_call = "lua_value list \<Rightarrow> 'q vm \<Rightarrow> (mlua_error + lua_value list) poll \<times> 'q vm"

definition call_handler ::
  "'q handler_call \<Rightarrow> nat list \<Rightarrow> nat \<Rightarrow> lua_value list \<Rightarrow> select_future \<Rightarrow> 'q vm \<Rightarrow>
    (mlua_error + lua_value list) poll \<times> select_call \<times> 'q vm" where
  "call_handler call fns i values f v =
    (case call (VFunction (fns ! i) # values) v of
       (Pending, v1) \<Rightarrow> (Pending, Calling i values f, v1)
     | (Ready (Inr out), v1) \<Rightarrow> (Ready (Inr out), SelectDone, v1)
     | (Ready (Inl e), v1) \<Rightarrow> (Ready (Inl e), SelectDone, snd (arm_untake (sf_arms f ! i) values v1)))"

definition call_default ::
  "'q handler_call \<Rightarrow> nat \<Rightarrow> 'q vm \<Rightarrow> (mlua_error + lua_value list) poll \<times> select_call \<times> 'q vm" where
  "call_default call fn v =
    (case call [VFunction fn] v of
       (Pending, v1) \<Rightarrow> (Pending, CallingDefault fn, v1)
     | (Ready out, v1) \<Rightarrow> (Ready out, SelectDone, v1))"

definition select_wait ::
  "('t, 'q) mpsc_env \<Rightarrow> waker \<Rightarrow> nat option \<Rightarrow> 'q handler_call \<Rightarrow> nat list \<Rightarrow> select_future \<Rightarrow> 'q vm \<Rightarrow>
    (mlua_error + lua_value list) poll \<times> select_call \<times> 'q vm" where
  "select_wait env wk tok call fns f v =
    (case wait_select_poll env wk tok f v of
       (Pending, f1, v1) \<Rightarrow> (Pending, Selecting f1, v1)
     | (Ready (Inl e), f1, v1) \<Rightarrow> (Ready (Inl e), SelectDone, v1)
     | (Ready (Inr (i, values)), f1, v1) \<Rightarrow> call_handler call fns i values f1 v1)"

definition select_first ::
  "('t, 'q) mpsc_env \<Rightarrow> waker \<Rightarrow> nat option \<Rightarrow> 'q handler_call \<Rightarrow> mlua_error + select_cases \<Rightarrow> 'q vm \<Rightarrow>
    (mlua_error + lua_value list) poll \<times> select_call \<times> 'q vm" where
  "select_first env wk tok call cases v =
    (case cases of
       Inl e \<Rightarrow> (Ready (Inl e), SelectDone, v)
     | Inr c \<Rightarrow>
         (case ca_default c of
            HandlerDefault fn \<Rightarrow>
              (case sel_poll_now env (case_select c) v of
                 (None, f1, v1) \<Rightarrow> call_default call fn v1
               | (Some (Inl e), f1, v1) \<Rightarrow> (Ready (Inl e), SelectDone, v1)
               | (Some (Inr (i, values)), f1, v1) \<Rightarrow> call_handler call (ca_handlers c) i values f1 v1)
          | _ \<Rightarrow> select_wait env wk tok call (ca_handlers c) (case_select c) v))"

text \<open>\<^verbatim>\<open>finish\<close> of \<^verbatim>\<open>LIB\<close>: the handler's values, or the raw error value raised again.\<close>

fun lib_finish :: "lua_value list \<Rightarrow> lua_value + lua_value list" where
  "lib_finish [] = Inl VNil"
| "lib_finish (ok # vs) =
    (if ok = VNil \<or> ok = VBoolean False then Inl (case vs of [] \<Rightarrow> VNil | e # _ \<Rightarrow> e) else Inr vs)"

section \<open>The Lua classes: cases\<close>

text \<open>\<open>absent\<close> is mlua's error when a field that is not there is read as a table.\<close>

definition check_handler :: "lua_value \<Rightarrow> mlua_error + unit" where
  "check_handler f =
    (case f of VFunction fn \<Rightarrow> Inr () | _ \<Rightarrow> Inl (RuntimeError ''handler must be a function''))"

definition mk_case :: "mlua_error \<Rightarrow> string \<Rightarrow> nat \<Rightarrow> lua_value \<Rightarrow> lua_value \<Rightarrow> case_table" where
  "mk_case absent kind target x f =
    \<lparr>ct_kind = Inr kind, ct_target = Inr (VUserData target), ct_value = Inr x, ct_handle = Inl absent,
     ct_handler = Inr f\<rparr>"

definition with_handler :: "lua_value \<Rightarrow> (lua_value \<Rightarrow> case_table) \<Rightarrow> mlua_error + case_table" where
  "with_handler f mk = map_sum id (\<lambda>_. mk f) (check_handler f)"

definition chan_on :: "mlua_error \<Rightarrow> nat \<Rightarrow> lua_value \<Rightarrow> mlua_error + case_table" where
  "chan_on absent c f = with_handler f (mk_case absent ''recv'' c VNil)"

definition chan_arm_recv :: "mlua_error \<Rightarrow> nat \<Rightarrow> case_table" where
  "chan_arm_recv absent c = mk_case absent ''recv'' c VNil VNil"

definition chan_on_send :: "mlua_error \<Rightarrow> nat \<Rightarrow> lua_value \<Rightarrow> lua_value \<Rightarrow> mlua_error + case_table" where
  "chan_on_send absent c x f = with_handler f (mk_case absent ''send'' c x)"

definition chan_arm_send :: "mlua_error \<Rightarrow> nat \<Rightarrow> lua_value \<Rightarrow> case_table" where
  "chan_arm_send absent c x = mk_case absent ''send'' c x VNil"

definition timer_on :: "mlua_error \<Rightarrow> nat \<Rightarrow> lua_value \<Rightarrow> mlua_error + case_table" where
  "timer_on absent t f = with_handler f (mk_case absent ''timer'' t VNil)"

definition timer_arm :: "mlua_error \<Rightarrow> nat \<Rightarrow> case_table" where
  "timer_arm absent t = mk_case absent ''timer'' t VNil VNil"

text \<open>\<^verbatim>\<open>task_case\<close>: \<open>u\<close> is the address of the userdata \<^verbatim>\<open>task_case_raw\<close> makes.\<close>

definition task_arm_case ::
  "mlua_error \<Rightarrow> nat \<Rightarrow> nat \<Rightarrow> nat \<Rightarrow> lua_value \<Rightarrow> 'q vm \<Rightarrow> mlua_error + case_table" where
  "task_arm_case absent hdl i u f v =
    (if vm_joined v hdl then Inl already_joined
     else map_sum id (\<lambda>_. (mk_case absent ''task'' u VNil f)\<lparr>ct_handle := Inr hdl\<rparr>) (lib_task_case i v))"

definition task_on ::
  "mlua_error \<Rightarrow> nat \<Rightarrow> nat \<Rightarrow> nat \<Rightarrow> lua_value \<Rightarrow> 'q vm \<Rightarrow> mlua_error + case_table" where
  "task_on absent hdl i u f v =
    (case check_handler f of Inl e \<Rightarrow> Inl e | Inr ok \<Rightarrow> task_arm_case absent hdl i u f v)"

text \<open>The methods a channel to the host refuses.\<close>

definition refuse :: "string \<Rightarrow> mlua_error" where
  "refuse meth = RuntimeError (meth @ '': channel is send-only (a channel to the host; the host receives)'')"

end
