(* ===== verification/Isle_Select_Props.thy ===== *)
theory Isle_Select_Props
  imports Isle_Select Isle_Chan_Flow Isle_Scope_Sys
begin

text \<open>
  What a select promises.  Its future is one more user of the channels: every poll of it is a
  sequence of the channel operations of \<open>Isle_Chan_Sys\<close>, so the invariants and the conservation of
  values hold for selects too, and such a sequence takes at most the one value the select
  returns.  A select that resolved has let go of its other arms; what could not be handed over
  can be given back; turns rotate.
\<close>

section \<open>Ready futures wait with nothing\<close>

lemma receiving_ready_waiter:
  assumes "store_ok s" and "receiving_ok s r" and "receiving_poll env wk r s = (Ready got, r', s')"
  shows "r_waiter r' = None"
proof (cases "cc_cap (st_core s (r_chan r)) \<noteq> 0 \<or> cc_source (st_core s (r_chan r)) \<noteq> None")
  case True
  then have "cc_waiters (st_core s (r_chan r)) = []"
    using store_okD(2) [OF assms(1)] unfolding shape_ok_def by blast
  then have "r_waiter r = None" using assms(2) by (cases "r_waiter r") (auto simp: receiving_ok_def)
  then show ?thesis using True assms(3) by (auto simp: receiving_poll_def Let_def split: prod.splits)
next
  case False
  have fw: "r_waiter q = None" if "forget_waiter r t = (q, t')" for q t t'
    using that by (auto simp: forget_waiter_def split: option.splits)
  show ?thesis
    using False assms(3)
    by (auto simp: receiving_poll_def Let_def dest!: fw split: prod.splits option.splits list.splits if_splits)
qed

lemma withdraw_idle: "r_waiter r = None \<Longrightarrow> receiving_withdraw r s = (r, s)"
  by (simp add: receiving_withdraw_def)

definition local_send :: "sending \<Rightarrow> bool" where
  "local_send sd \<longleftrightarrow> s_reserve sd = None \<and> s_sink_wait sd = None"

lemma poll_local_send: "poll_local wk sd s = (got, sd', s') \<Longrightarrow> local_send sd \<Longrightarrow> local_send sd'"
  by (auto simp: poll_local_def Let_def post_offer_def local_send_def
      split: prod.splits if_splits option.splits offer_state.splits)

lemma sending_ready_idle:
  assumes ok: "store_ok s" and sd: "sending_ok s sd" and l: "local_send sd"
    and p: "poll_local wk sd s = (Ready got, sd', s')"
  shows "sending_withdraw env sd' s' = (sd', s')"
proof -
  have "of_state (st_offer s j) \<noteq> Open" if "s_offer sd = Some j" "cc_cap (st_core s (s_chan sd)) \<noteq> 0" for j
    using that sd store_okD(2) [OF ok] by (auto simp: sending_ok_def shape_ok_def)
  moreover have "st_offer t = st_offer s" if "poll_send (s_chan sd) wk (s_value sd) s = (g, x, t)" for g x t
    using that by (auto simp: poll_send_def Let_def split: if_splits)
  ultimately have "of_state (st_offer s' j) \<noteq> Open" if "s_offer sd' = Some j" for j
    using p that
    by (auto simp: poll_local_def Let_def split: if_splits option.splits offer_state.splits prod.splits)
  then show ?thesis
    using poll_local_send [OF p l] unfolding sending_withdraw_def local_send_def
    by (auto simp: drop_reserve_def leave_sink_waiters_def withdraw_offer_def split: option.splits)
qed

section \<open>The arms of a select in the system of channels\<close>

definition hosts :: "(nat \<Rightarrow> nat) \<Rightarrow> arm list \<Rightarrow> nat set \<Rightarrow> 'q chan_sys \<Rightarrow> bool" where
  "hosts ids arms J S \<longleftrightarrow> inj ids \<and>
    (\<forall>j \<in> J. case arms ! j of
       ArmRecv r \<Rightarrow> cs_recvs S (ids j) = Some r
     | ArmSend sd \<Rightarrow> cs_sends S (ids j) = Some sd \<and> local_send sd
     | _ \<Rightarrow> True)"

lemma hostsD:
  assumes "hosts ids arms J S"
  shows "inj ids" and "j \<in> J \<Longrightarrow> arms ! j = ArmRecv r \<Longrightarrow> cs_recvs S (ids j) = Some r"
    and "j \<in> J \<Longrightarrow> arms ! j = ArmSend sd \<Longrightarrow> cs_sends S (ids j) = Some sd"
    and "j \<in> J \<Longrightarrow> arms ! j = ArmSend sd \<Longrightarrow> local_send sd"
  using assms unfolding hosts_def by force+

lemma hosts_cong:
  assumes "cs_recvs T = cs_recvs S" and "cs_sends T = cs_sends S"
  shows "hosts ids arms J T = hosts ids arms J S"
  unfolding hosts_def assms ..

lemma hosts_mono: "hosts ids arms J S \<Longrightarrow> J' \<subseteq> J \<Longrightarrow> hosts ids arms J' S"
  unfolding hosts_def by blast

text \<open>A step of the system for the arm \<open>i\<close>, which keeps the futures of the others.\<close>

lemma hosts_step:
  assumes h: "hosts ids arms J S" and sub: "J' \<subseteq> J"
    and other: "\<And>j. j \<noteq> ids i \<Longrightarrow> cs_recvs T j = cs_recvs S j \<and> cs_sends T j = cs_sends S j"
    and len: "i < length arms"
    and own: "i \<in> J' \<Longrightarrow> (case a of
       ArmRecv r \<Rightarrow> cs_recvs T (ids i) = Some r
     | ArmSend sd \<Rightarrow> cs_sends T (ids i) = Some sd \<and> local_send sd
     | _ \<Rightarrow> True)"
  shows "hosts ids (arms[i := a]) J' T"
  unfolding hosts_def
proof (intro conjI ballI)
  show "inj ids" by (rule hostsD(1) [OF h])
  fix j assume j: "j \<in> J'"
  show "case arms[i := a] ! j of
       ArmRecv r \<Rightarrow> cs_recvs T (ids j) = Some r
     | ArmSend sd \<Rightarrow> cs_sends T (ids j) = Some sd \<and> local_send sd
     | _ \<Rightarrow> True"
  proof (cases "j = i")
    case True
    show ?thesis using own [OF j [unfolded True]] len unfolding True by simp
  next
    case False
    then have "ids j \<noteq> ids i" using hostsD(1) [OF h] by (simp add: inj_eq)
    then show ?thesis
      using other [of "ids j"] hostsD(2-4) [OF h, of j] j sub False by (auto split: arm.split)
  qed
qed

text \<open>\<open>reaches env S C T\<close>: local operations lead from \<open>S\<close> to \<open>T\<close>, taking in nothing and giving out \<open>C\<close>.\<close>

definition reaches ::
  "('t, 'q) mpsc_env \<Rightarrow> 'q chan_sys \<Rightarrow> lua_value multiset \<Rightarrow> 'q chan_sys \<Rightarrow> bool" where
  "reaches env S C T \<longleftrightarrow>
    (\<exists>ops. list_all local_op ops \<and> T = run env ops S) \<and> cs_in T = cs_in S \<and> cs_out T = cs_out S + C"

lemma reaches_refl: "reaches env S {#} S"
  unfolding reaches_def by (auto simp: run_def intro: exI [of _ "[]"])

lemma reaches_step:
  "local_op op \<Longrightarrow> cs_in (exec env op S) = cs_in S \<Longrightarrow> cs_out (exec env op S) = cs_out S + C \<Longrightarrow>
    reaches env S C (exec env op S)"
  unfolding reaches_def by (auto simp: run_def intro!: exI [of _ "[op]"])

lemma reaches_trans: "reaches env S C T \<Longrightarrow> reaches env T D U \<Longrightarrow> reaches env S (C + D) U"
  unfolding reaches_def by (auto simp: run_def add.assoc) (metis fold_append comp_apply list_all_append)

lemma reaches_cons: "reaches env S C T \<Longrightarrow> cons_ok S \<Longrightarrow> cons_ok T"
  unfolding reaches_def using run_cons by blast

section \<open>Withdrawing and polling as channel operations\<close>

lemma withdraw_arm_reaches:
  assumes h: "hosts ids arms J S" and st: "cs_store S = vm_chan v" and j: "j \<in> J" "j < length arms"
    and w: "arm_withdraw env (arms ! j) v = (a, v')"
  shows "\<exists>T. reaches env S {#} T \<and> cs_store T = vm_chan v' \<and> hosts ids (arms[j := a]) (J - {j}) T"
proof (cases "arms ! j")
  case (ArmRecv r)
  let ?T = "exec env (DropRecv (ids j)) S"
  have r: "cs_recvs S (ids j) = Some r" by (rule hostsD(2) [OF h j(1) ArmRecv])
  have "reaches env S {#} ?T" by (rule reaches_step) (simp_all add: r)
  moreover have "cs_store ?T = vm_chan v'"
    using w r st by (auto simp: arm_withdraw_def ArmRecv receiving_drop_def split: prod.splits)
  moreover have "hosts ids (arms[j := a]) (J - {j}) ?T"
    by (rule hosts_step [OF h _ _ j(2)]) (auto simp: r)
  ultimately show ?thesis by blast
next
  case (ArmSend sd)
  let ?T = "exec env (DropSend (ids j)) S"
  have r: "cs_sends S (ids j) = Some sd" by (rule hostsD(3) [OF h j(1) ArmSend])
  have "reaches env S {#} ?T" by (rule reaches_step) (simp_all add: r)
  moreover have "cs_store ?T = vm_chan v'"
    using w r st by (auto simp: arm_withdraw_def ArmSend sending_drop_def split: prod.splits)
  moreover have "hosts ids (arms[j := a]) (J - {j}) ?T"
    by (rule hosts_step [OF h _ _ j(2)]) (auto simp: r)
  ultimately show ?thesis by blast
next
  case (ArmTimer t b)
  have "hosts ids (arms[j := a]) (J - {j}) S" by (rule hosts_step [OF h _ _ j(2)]) auto
  then show ?thesis using w st reaches_refl by (auto simp: arm_withdraw_def ArmTimer)
next
  case (ArmTask ta)
  have "hosts ids (arms[j := a]) (J - {j}) S" by (rule hosts_step [OF h _ _ j(2)]) auto
  then show ?thesis using w st reaches_refl by (auto simp: arm_withdraw_def ArmTask)
qed

lemma withdraw_at_reaches:
  assumes "hosts ids arms J S" and "cs_store S = vm_chan v" and "distinct js" and "set js \<subseteq> J"
    and "\<And>j. j \<in> set js \<Longrightarrow> j < length arms" and "withdraw_at env js arms v = (arms', v')"
  shows "\<exists>T. reaches env S {#} T \<and> cs_store T = vm_chan v'"
  using assms
proof (induction js arbitrary: arms J S v)
  case Nil
  then show ?case using reaches_refl by auto
next
  case (Cons j js)
  obtain a v1 where w: "arm_withdraw env (arms ! j) v = (a, v1)" by (cases "arm_withdraw env (arms ! j) v")
  from withdraw_arm_reaches [OF Cons.prems(1,2) _ _ w] Cons.prems(4,5) obtain T where
    T: "reaches env S {#} T" "cs_store T = vm_chan v1" "hosts ids (arms[j := a]) (J - {j}) T" by auto
  have rest: "withdraw_at env js (arms[j := a]) v1 = (arms', v')" using Cons.prems(6) w by simp
  have sub: "set js \<subseteq> J - {j}" using Cons.prems(3,4) by auto
  have dj: "distinct js" using Cons.prems(3) by simp
  have len: "i < length (arms[j := a])" if "i \<in> set js" for i using Cons.prems(5) that by simp
  from Cons.IH [OF T(3,2) dj sub len rest] obtain U where
    "reaches env T {#} U" "cs_store U = vm_chan v'" by blast
  then show ?case using reaches_trans [OF T(1)] by fastforce
qed

lemma resolve_reaches:
  assumes h: "hosts ids (sf_arms f) J S" and st: "cs_store S = vm_chan v"
    and J: "{0 ..< length (sf_arms f)} - {i} \<subseteq> J" and eq: "sel_resolve env i f v = (f', v')"
  shows "\<exists>T. reaches env S {#} T \<and> cs_store T = vm_chan v'"
proof -
  let ?T = "exec env (Claim (sf_mark f)) S"
  let ?js = "filter (\<lambda>j. j \<noteq> i) [0 ..< length (sf_arms f)]"
  have T: "reaches env S {#} ?T" by (rule reaches_step) simp_all
  have hT: "hosts ids (sf_arms f) J ?T" using h hosts_cong [of ?T S] by simp
  have sT: "cs_store ?T = vm_chan (vm_claim (sf_mark f) v)" by (simp add: st vm_claim_def)
  obtain arms where w: "withdraw_at env ?js (sf_arms f) (vm_claim (sf_mark f) v) = (arms, v')"
    using eq by (auto simp: sel_resolve_def split: prod.splits)
  have sub: "set ?js \<subseteq> J" using J by auto
  have "\<exists>U. reaches env ?T {#} U \<and> cs_store U = vm_chan v'"
    by (rule withdraw_at_reaches [OF hT sT _ sub _ w]) simp_all
  then obtain U where U: "reaches env ?T {#} U" "cs_store U = vm_chan v'" by blast
  from reaches_trans [OF T U(1)] U(2) show ?thesis by auto
qed

text \<open>The value a receive arm returned.\<close>

definition took :: "arm \<Rightarrow> lua_value list \<Rightarrow> lua_value multiset" where
  "took a values =
    (case (a, values) of (ArmRecv r, [x, VBoolean True]) \<Rightarrow> {#x#} | _ \<Rightarrow> {#})"

lemma took_recv: "took (ArmRecv r) (recv_values got) = opt_mset got"
  by (cases got) (simp_all add: took_def)

lemma took_other: "\<not> (\<exists>r. a = ArmRecv r) \<Longrightarrow> took a vs = {#}"
  by (cases a) (simp_all add: took_def split: list.split)

text \<open>A poll of one arm: pending keeps its future, ready ends it.\<close>

lemma arm_poll_reaches:
  assumes ok: "cons_ok S" and h: "hosts ids arms J S" and st: "cs_store S = vm_chan v"
    and j: "j \<in> J" "j < length arms" and p: "arm_poll_take env wk (arms ! j) v = (out, a, v')"
  shows "\<exists>T. reaches env S (case out of Ready (Inr vs) \<Rightarrow> took (arms ! j) vs | _ \<Rightarrow> {#}) T \<and>
    cs_store T = vm_chan v' \<and>
    hosts ids (arms[j := a]) (if out = Pending then J else J - {j}) T"
proof (cases "arms ! j")
  case (ArmRecv r)
  let ?T = "exec env (PollRecv (ids j) wk) S"
  note r = hostsD(2) [OF h j(1) ArmRecv]
  note rok = sys_okD(3) [OF cons_okD(1) [OF ok] r]
  obtain got r1 s1 where g: "receiving_poll env wk r (vm_chan v) = (got, r1, s1)" by (metis prod_cases3)
  have res: "out = map_poll (map_sum id recv_values) got" "a = ArmRecv r1" "v' = v\<lparr>vm_chan := s1\<rparr>"
    using p g by (simp_all add: arm_poll_take_def ArmRecv)
  show ?thesis
  proof (cases got)
    case Pending
    have "reaches env S {#} ?T" by (rule reaches_step) (simp_all add: poll_recv_op_def r st g Pending)
    moreover have "cs_store ?T = vm_chan v'" by (simp add: poll_recv_op_def r st g Pending res)
    moreover have "hosts ids (arms[j := a]) J ?T"
      by (rule hosts_step [OF h subset_refl _ j(2)]) (simp_all add: poll_recv_op_def r st g Pending res)
    ultimately show ?thesis by (auto simp: res Pending)
  next
    case (Ready x)
    have "r_waiter r1 = None"
      using receiving_ready_waiter [OF cons_okD(2) [OF ok] rok, of env wk x r1 s1] g Ready st by simp
    then have drop: "receiving_drop r1 s1 = s1" by (simp add: receiving_drop_def withdraw_idle)
    have out: "cs_out ?T = cs_out S + (case x of Inr (Some v) \<Rightarrow> {#v#} | _ \<Rightarrow> {#})"
      by (simp add: poll_recv_op_def r st g Ready)
    have "reaches env S (case x of Inr (Some v) \<Rightarrow> {#v#} | _ \<Rightarrow> {#}) ?T"
      by (rule reaches_step [OF _ _ out]) (simp_all add: poll_recv_op_def r st g Ready)
    moreover have "cs_store ?T = vm_chan v'" by (simp add: poll_recv_op_def r st g Ready res drop)
    moreover have "hosts ids (arms[j := a]) (J - {j}) ?T"
      by (rule hosts_step [OF h _ _ j(2)]) (auto simp: poll_recv_op_def r st g Ready res)
    moreover have "(case out of Ready (Inr vs) \<Rightarrow> took (arms ! j) vs | _ \<Rightarrow> {#}) =
        (case x of Inr (Some v) \<Rightarrow> {#v#} | _ \<Rightarrow> {#})"
      by (cases x) (simp_all add: res Ready ArmRecv took_recv opt_mset_def)
    ultimately show ?thesis by (auto simp: res Ready)
  qed
next
  case (ArmSend sd)
  let ?T = "exec env (PollSend (ids j) wk) S"
  note r = hostsD(3) [OF h j(1) ArmSend] and l = hostsD(4) [OF h j(1) ArmSend]
  note sok = sys_okD(5) [OF cons_okD(1) [OF ok] r]
  obtain got sd1 s1 where g: "poll_local wk sd (vm_chan v) = (got, sd1, s1)" by (metis prod_cases3)
  have g': "sending_poll env wk sd (vm_chan v) = (map_poll Inr got, sd1, s1)"
    using flow_okD(4) [OF cons_okD(3) [OF ok]] g by (simp add: sending_poll_def st)
  have res: "out = map_poll (map_sum id (\<lambda>sent. send_values (\<not> isl sent))) (map_poll Inr got)"
    "a = ArmSend sd1" "v' = v\<lparr>vm_chan := s1\<rparr>"
    using p g' by (simp_all add: arm_poll_take_def ArmSend)
  note l1 = poll_local_send [OF g l]
  have none: "(case out of Ready (Inr vs) \<Rightarrow> took (arms ! j) vs | _ \<Rightarrow> {#}) = {#}"
    by (cases got) (simp_all add: res ArmSend took_other)
  show ?thesis
  proof (cases got)
    case Pending
    have "reaches env S {#} ?T" by (rule reaches_step) (simp_all add: poll_send_op_def r st g' Pending)
    moreover have "cs_store ?T = vm_chan v'" by (simp add: poll_send_op_def r st g' Pending res)
    moreover have "hosts ids (arms[j := a]) J ?T"
      by (rule hosts_step [OF h subset_refl _ j(2)]) (simp_all add: poll_send_op_def r st g' Pending res l1)
    ultimately show ?thesis unfolding none by (auto simp: res Pending)
  next
    case (Ready x)
    have "sending_withdraw env sd1 s1 = (sd1, s1)"
      by (rule sending_ready_idle [OF cons_okD(2) [OF ok] sok l, of wk x]) (use g Ready st in simp)
    then have drop: "sending_drop env sd1 s1 = s1" by (simp add: sending_drop_def)
    have "reaches env S {#} ?T" by (rule reaches_step) (simp_all add: poll_send_op_def r st g' Ready)
    moreover have "cs_store ?T = vm_chan v'" by (simp add: poll_send_op_def r st g' Ready res drop)
    moreover have "hosts ids (arms[j := a]) (J - {j}) ?T"
      by (rule hosts_step [OF h _ _ j(2)]) (auto simp: poll_send_op_def r st g' Ready res)
    ultimately show ?thesis unfolding none by (auto simp: res Ready)
  qed
next
  case (ArmTimer t b)
  have "vm_chan v' = vm_chan v" "took (arms ! j) vs = {#}" "\<nexists>r. a = ArmRecv r" "\<nexists>sd. a = ArmSend sd" for vs
    using p by (auto simp: arm_poll_take_def ArmTimer took_other split: if_splits)
  then have "hosts ids (arms[j := a]) J S" and none: "(case out of Ready (Inr vs) \<Rightarrow> took (arms ! j) vs | _ \<Rightarrow> {#}) = {#}"
    and st': "cs_store S = vm_chan v'"
    by (auto intro!: hosts_step [OF h subset_refl _ j(2)] simp: st split: arm.split poll.split sum.split)
  then have "hosts ids (arms[j := a]) (if out = Pending then J else J - {j}) S" by (auto elim: hosts_mono)
  then show ?thesis unfolding none using reaches_refl st' by blast
next
  case (ArmTask ta)
  have "vm_chan v' = vm_chan v" "took (arms ! j) vs = {#}" "\<nexists>r. a = ArmRecv r" "\<nexists>sd. a = ArmSend sd" for vs
    using p by (auto simp: arm_poll_take_def ArmTask took_other task_arm_poll_def arm_join_def vm_take_result_def
        reg_forget_def set_joined_def Let_def split: if_splits prod.splits)
  then have "hosts ids (arms[j := a]) J S" and none: "(case out of Ready (Inr vs) \<Rightarrow> took (arms ! j) vs | _ \<Rightarrow> {#}) = {#}"
    and st': "cs_store S = vm_chan v'"
    by (auto intro!: hosts_step [OF h subset_refl _ j(2)] simp: st split: arm.split poll.split sum.split)
  then have "hosts ids (arms[j := a]) (if out = Pending then J else J - {j}) S" by (auto elim: hosts_mono)
  then show ?thesis unfolding none using reaches_refl st' by blast
qed

lemma sel_loop_reaches:
  assumes "cons_ok S" and "hosts ids (sf_arms f) {0 ..< length (sf_arms f)} S" and "cs_store S = vm_chan v"
    and "\<And>i. i \<in> set is \<Longrightarrow> i < length (sf_arms f)" and "sel_loop env wk is f v = (out, f', v')"
  shows "\<exists>T. reaches env S (case out of Ready (Inr (i, vs)) \<Rightarrow> took (sf_arms f ! i) vs | _ \<Rightarrow> {#}) T \<and>
    cs_store T = vm_chan v' \<and>
    (out = Pending \<longrightarrow> length (sf_arms f') = length (sf_arms f) \<and>
      hosts ids (sf_arms f') {0 ..< length (sf_arms f')} T)"
  using assms
proof (induction "is" arbitrary: f v S)
  case Nil
  then show ?case using reaches_refl by auto
next
  case (Cons i rest)
  let ?J = "{0 ..< length (sf_arms f)}"
  have i: "i \<in> ?J" "i < length (sf_arms f)" using Cons.prems(4) by auto
  obtain r a v1 where p: "arm_poll_take env wk (sf_arms f ! i) v = (r, a, v1)" by (metis prod_cases3)
  from arm_poll_reaches [OF Cons.prems(1-3) i p] obtain T where
    T: "reaches env S (case r of Ready (Inr vs) \<Rightarrow> took (sf_arms f ! i) vs | _ \<Rightarrow> {#}) T"
      "cs_store T = vm_chan v1" "hosts ids ((sf_arms f)[i := a]) (if r = Pending then ?J else ?J - {i}) T" by blast
  let ?f1 = "f\<lparr>sf_arms := (sf_arms f)[i := a]\<rparr>"
  show ?case
  proof (cases r)
    case (Ready x)
    obtain f2 v2 where rs: "sel_resolve env i ?f1 v1 = (f2, v2)" by (cases "sel_resolve env i ?f1 v1")
    have res: "out = Ready (map_sum id (\<lambda>vs. (i, vs)) x)" "v' = v2"
      using Cons.prems(5) p Ready rs by simp_all
    have hT: "hosts ids (sf_arms ?f1) (?J - {i}) T" using T(3) Ready by simp
    from resolve_reaches [OF hT T(2) _ rs] obtain U where U: "reaches env T {#} U" "cs_store U = vm_chan v2" by auto
    have "(case out of Ready (Inr (i, vs)) \<Rightarrow> took (sf_arms f ! i) vs | _ \<Rightarrow> {#}) =
        (case r of Ready (Inr vs) \<Rightarrow> took (sf_arms f ! i) vs | _ \<Rightarrow> {#})"
      by (cases x) (simp_all add: res Ready)
    with reaches_trans [OF T(1) U(1)] U(2) show ?thesis by (auto simp: res)
  next
    case Pending
    have rest: "sel_loop env wk rest ?f1 v1 = (out, f', v')" using Cons.prems(5) p Pending by simp
    have T1: "reaches env S {#} T" using T(1) Pending by simp
    note c1 = reaches_cons [OF T1 Cons.prems(1)]
    have h1: "hosts ids (sf_arms ?f1) {0 ..< length (sf_arms ?f1)} T" using T(3) Pending by simp
    have len: "k < length (sf_arms ?f1)" if "k \<in> set rest" for k using Cons.prems(4) that by simp
    have same: "took (sf_arms ?f1 ! k) vs = took (sf_arms f ! k) vs" for k vs
    proof (cases "k = i")
      case True
      have "(\<exists>q. a = ArmRecv q) \<longleftrightarrow> (\<exists>q. sf_arms f ! i = ArmRecv q)"
        using p by (auto simp: arm_poll_take_def split: arm.splits prod.splits if_splits)
      then show ?thesis using True i(2) by (auto simp: took_def split: arm.splits list.splits)
    qed simp
    from Cons.IH [OF c1 h1 T(2) len rest] obtain U where
      U: "reaches env T (case out of Ready (Inr (i, vs)) \<Rightarrow> took (sf_arms f ! i) vs | _ \<Rightarrow> {#}) U"
        "cs_store U = vm_chan v'"
        "out = Pending \<longrightarrow> length (sf_arms f') = length (sf_arms f) \<and>
          hosts ids (sf_arms f') {0 ..< length (sf_arms f')} U"
      unfolding same by auto
    from reaches_trans [OF T1 U(1)] U(2,3) show ?thesis by auto
  qed
qed

lemma sel_order_lt: "i \<in> set (sel_order f) \<Longrightarrow> i < length (sf_arms f)"
  by (auto simp: sel_order_def intro!: mod_less_divisor)

text \<open>C15: A select is one more user of its channels.  Every poll of it, on channels between Lua and Lua, is a
  sequence of the channel operations, with nothing put in and nothing taken out but the one value the select
  returns from a receive arm: so selects keep every invariant of the channels, and no value is lost to, or
  taken by, an arm that was not chosen.  While it is pending its arms stay the futures of the system.\<close>

theorem select_is_channel_ops:
  assumes "cons_ok S" and "hosts ids (sf_arms f) {0 ..< length (sf_arms f)} S" and "cs_store S = vm_chan v"
    and "sel_poll env wk f v = (out, f', v')"
  shows "\<exists>T. reaches env S (case out of Ready (Inr (i, vs)) \<Rightarrow> took (sf_arms f ! i) vs | _ \<Rightarrow> {#}) T \<and>
    cs_store T = vm_chan v' \<and> cons_ok T \<and>
    (out = Pending \<longrightarrow> hosts ids (sf_arms f') {0 ..< length (sf_arms f')} T)"
proof (cases "position (arm_delivered v) (sf_arms f)")
  case None
  then have "sel_loop env wk (sel_order f) f v = (out, f', v')"
    using assms(4) by (simp add: sel_poll_def take_delivered_def)
  from sel_loop_reaches [OF assms(1-3) sel_order_lt this] show ?thesis
    using reaches_cons assms(1) by metis
next
  case (Some i)
  obtain f1 v1 where rs: "sel_resolve env i f v = (f1, v1)" by (cases "sel_resolve env i f v")
  have res: "out = Ready (Inr (i, send_values True))" "v' = v1"
    using assms(4) Some rs by (simp_all add: sel_poll_def take_delivered_def)
  have "arm_delivered v (sf_arms f ! i)" using position_Some [OF Some] by blast
  then have none: "took (sf_arms f ! i) vs = {#}" for vs
    by (intro took_other) (auto simp: arm_delivered_def)
  obtain T where T: "reaches env S {#} T" "cs_store T = vm_chan v1"
    using resolve_reaches [OF assms(2,3) _ rs] by auto
  from T reaches_cons [OF T(1) assms(1)] show ?thesis by (auto simp: res none)
qed

section \<open>A concrete select\<close>

text \<open>Two rendezvous channels and a buffered one; a select that receives from the first, or sends to the second,
  or receives from the third.\<close>

definition no_env :: "(unit, unit) mpsc_env" where
  "no_env = \<lparr>rx_poll = (\<lambda>q. (Pending, q)), rx_try_recv = (\<lambda>q. (RxEmpty, q)), rx_close = id,
    rx_is_closed = (\<lambda>_. False), rx_len = (\<lambda>_. 0), mpsc_max_capacity = (\<lambda>_. 0), tx_reserve_owned = (\<lambda>q. (0, q)),
    tx_poll_reserve = (\<lambda>_ _ q. (Pending, q)), tx_drop_reserve = (\<lambda>_. id), tx_try_reserve = (\<lambda>q. (TxFull, q)),
    tx_send = (\<lambda>_ _. id), tx_drop_permit = (\<lambda>_. id), tx_drop_sender = id, tx_is_closed = (\<lambda>_. False),
    tx_capacity = (\<lambda>_. 0), into_lua = (\<lambda>_. Inr VNil), from_lua = (\<lambda>_. Inr ())\<rparr>"

definition demo_ops :: "unit cop list" where
  "demo_ops = [NewChan 0, NewChan 0, NewChan 2, NewMark, TrySend 2 (VInteger 7),
    StartRecv 0 (Some 3), StartSend 1 (VInteger 8) (Some 3), StartRecv 2 (Some 3)]"

definition demo_sys :: "unit chan_sys" where
  "demo_sys = run no_env demo_ops sys_init"

definition demo_select :: select_future where
  "demo_select =
    \<lparr>sf_arms = [ArmRecv (receiving_new 0 (Some 3)), ArmSend (sending_new 1 (VInteger 8) (Some 3)),
                ArmRecv (receiving_new 2 (Some 3))], sf_start = 1, sf_mark = 3\<rparr>"

definition demo_vm :: "unit vm" where
  "demo_vm =
    \<lparr>vm_chan = cs_store demo_sys, vm_world = world_init (snd (token_new None heap_init)), vm_tasks = (\<lambda>_. None),
     vm_next_id = 0, vm_cancelled = 0, vm_joined = (\<lambda>_. False), vm_hub = hub_default\<rparr>"

lemma demo_cons: "cons_ok demo_sys"
  unfolding demo_sys_def by (rule run_cons [OF cons_ok_init]) (simp add: demo_ops_def)

lemma demo_hosts: "hosts id (sf_arms demo_select) {0 ..< length (sf_arms demo_select)} demo_sys"
proof -
  have "cs_recvs demo_sys 0 = Some (receiving_new 0 (Some 3))"
    "cs_sends demo_sys 1 = Some (sending_new 1 (VInteger 8) (Some 3))"
    "cs_recvs demo_sys 2 = Some (receiving_new 2 (Some 3))" by code_simp+
  moreover have "local_send (sending_new 1 (VInteger 8) (Some 3))" by (simp add: local_send_def sending_new_def)
  moreover have "{0 ..< length (sf_arms demo_select)} = {0, 1, 2}" by (auto simp: demo_select_def)
  ultimately show ?thesis by (simp add: hosts_def demo_select_def)
qed

text \<open>It starts at the send, which has to wait, then finds the value in the buffered channel.\<close>

lemma demo_poll: "fst (sel_poll no_env (TaskWaker 9) demo_select demo_vm) = Ready (Inr (2, [VInteger 7, VBoolean True]))"
  by code_simp

lemma select_is_channel_ops_witness:
  "\<exists>T. reaches no_env demo_sys {#VInteger 7#} T \<and> cons_ok T"
proof -
  obtain f' v' where p: "sel_poll no_env (TaskWaker 9) demo_select demo_vm =
      (Ready (Inr (2, [VInteger 7, VBoolean True])), f', v')"
    using demo_poll by (cases "sel_poll no_env (TaskWaker 9) demo_select demo_vm") auto
  have st: "cs_store demo_sys = vm_chan demo_vm" by (simp add: demo_vm_def)
  have "took (sf_arms demo_select ! 2) [VInteger 7, VBoolean True] = {#VInteger 7#}"
    by (simp add: demo_select_def took_def)
  with select_is_channel_ops [OF demo_cons demo_hosts st p] show ?thesis by auto
qed

section \<open>A resolved select has let go\<close>

text \<open>An arm that waits with nothing: no waiter, no open offer, no wait for a finish.\<close>

definition arm_idle :: "'q chan_store \<Rightarrow> arm \<Rightarrow> bool" where
  "arm_idle s a \<longleftrightarrow>
    (case a of
       ArmRecv r \<Rightarrow> r_waiter r = None
     | ArmSend sd \<Rightarrow> s_reserve sd = None \<and> s_sink_wait sd = None \<and>
         (\<forall>k. s_offer sd = Some k \<longrightarrow> of_state (st_offer s k) \<noteq> Open)
     | ArmTimer t b \<Rightarrow> True
     | ArmTask ta \<Rightarrow> \<not> ta_wait ta)"

lemma withdraw_offer_closed: "withdraw_offer sd s = (sd', s') \<Longrightarrow>
    (\<forall>k. s_offer sd' = Some k \<longrightarrow> of_state (st_offer s' k) \<noteq> Open) \<and>
    s_reserve sd' = s_reserve sd \<and> s_sink_wait sd' = s_sink_wait sd"
  by (auto simp: withdraw_offer_def split: option.splits if_splits)

lemma arm_withdraw_idle:
  assumes "arm_withdraw env a v = (a', v')"
  shows "arm_idle (vm_chan v') a'"
proof (cases a)
  case (ArmRecv r)
  have "r_waiter (fst (receiving_withdraw r s)) = None" for s
    by (auto simp: receiving_withdraw_def Let_def split: option.split prod.split)
  from this [of "vm_chan v"] show ?thesis
    using assms by (auto simp: arm_withdraw_def arm_idle_def ArmRecv split: prod.splits)
next
  case (ArmSend sd)
  obtain sd1 s1 where a: "drop_reserve env sd (vm_chan v) = (sd1, s1)" by fastforce
  obtain sd2 s2 where b: "leave_sink_waiters sd1 s1 = (sd2, s2)" by fastforce
  obtain sd3 s3 where c: "withdraw_offer sd2 s2 = (sd3, s3)" by fastforce
  have "s_reserve sd2 = None" "s_sink_wait sd2 = None"
    using a b by (auto simp: drop_reserve_def leave_sink_waiters_def split: option.splits)
  then show ?thesis
    using assms a b c withdraw_offer_closed [OF c]
    by (auto simp: arm_withdraw_def arm_idle_def ArmSend sending_withdraw_def)
qed (use assms in \<open>auto simp: arm_withdraw_def arm_idle_def\<close>)

text \<open>Withdrawing an arm reopens no offer.\<close>

lemma withdraw_no_reopen:
  fixes v :: "'q vm"
  assumes "arm_withdraw env a v = (a', v')" and "of_state (st_offer (vm_chan v) k) \<noteq> Open"
  shows "of_state (st_offer (vm_chan v') k) \<noteq> Open"
proof -
  have r: "st_offer (snd (receiving_withdraw r s)) = st_offer s" for r and s :: "'q chan_store"
    by (auto simp: receiving_withdraw_def Let_def unrecv_def receiver_wakers_eq take_slot_def split: option.split)
  have w: "of_state (st_offer (snd (sending_withdraw env sd s)) k) \<noteq> Open" if o: "of_state (st_offer s k) \<noteq> Open" for sd s
  proof -
    obtain sd1 s1 where a: "drop_reserve env sd s = (sd1, s1)" by fastforce
    obtain sd2 s2 where b: "leave_sink_waiters sd1 s1 = (sd2, s2)" by fastforce
    have "st_offer s1 = st_offer s" "st_offer s2 = st_offer s1"
      using a b by (auto simp: drop_reserve_def leave_sink_waiters_def split: option.splits)
    then have "of_state (st_offer s2 k) \<noteq> Open" using o by simp
    then have "of_state (st_offer (snd (withdraw_offer sd2 s2)) k) \<noteq> Open"
      by (auto simp: withdraw_offer_def split: option.splits)
    then show ?thesis by (simp add: sending_withdraw_def a b)
  qed
  then show ?thesis
    using assms r by (cases a) (auto simp: arm_withdraw_def split_beta)
qed

lemma withdraw_at_no_reopen:
  "withdraw_at env js arms v = (arms', v') \<Longrightarrow> of_state (st_offer (vm_chan v) k) \<noteq> Open \<Longrightarrow>
    of_state (st_offer (vm_chan v') k) \<noteq> Open"
proof (induction js arbitrary: arms v)
  case (Cons j js)
  obtain a v1 where "arm_withdraw env (arms ! j) v = (a, v1)" by fastforce
  then show ?case using Cons.IH Cons.prems withdraw_no_reopen by fastforce
qed simp

lemma withdraw_at_other: "withdraw_at env js arms v = (arms', v') \<Longrightarrow> i \<notin> set js \<Longrightarrow> arms' ! i = arms ! i"
  by (induction js arbitrary: arms v) (auto split: prod.splits)

lemma arm_idle_withdraw_at:
  assumes "withdraw_at env js arms v = (arms', v')" and "arm_idle (vm_chan v) a"
  shows "arm_idle (vm_chan v') a"
  using assms(2) withdraw_at_no_reopen [OF assms(1)] by (cases a) (auto simp: arm_idle_def)

lemma withdraw_at_idle:
  "withdraw_at env js arms v = (arms', v') \<Longrightarrow> distinct js \<Longrightarrow> set js \<subseteq> {..< length arms} \<Longrightarrow> j \<in> set js \<Longrightarrow>
    arm_idle (vm_chan v') (arms' ! j)"
proof (induction js arbitrary: arms v)
  case (Cons i js)
  obtain a v1 where a: "arm_withdraw env (arms ! i) v = (a, v1)" by fastforce
  then have w: "withdraw_at env js (arms[i := a]) v1 = (arms', v')" using Cons.prems(1) by simp
  show ?case
  proof (cases "j = i")
    case True
    then have "arms' ! j = a" using withdraw_at_other [OF w, where i = i] Cons.prems(2,3) by simp
    then show ?thesis using arm_idle_withdraw_at [OF w arm_withdraw_idle [OF a]] by simp
  next
    case False
    then show ?thesis using Cons.IH [OF w] Cons.prems by simp
  qed
qed simp

lemma arm_withdraw_claimed: "st_claimed (vm_chan (snd (arm_withdraw env a v))) = st_claimed (vm_chan v)"
  by (cases a) (auto simp: arm_withdraw_def receiving_withdraw_def sending_withdraw_def drop_reserve_def
      leave_sink_waiters_def withdraw_offer_def Let_def unrecv_def receiver_wakers_eq take_slot_def
      split: option.splits prod.splits)

lemma withdraw_at_claimed: "withdraw_at env js arms v = (arms', v') \<Longrightarrow> st_claimed (vm_chan v') = st_claimed (vm_chan v)"
proof (induction js arbitrary: arms v)
  case (Cons j js)
  obtain a v1 where a: "arm_withdraw env (arms ! j) v = (a, v1)" by fastforce
  then show ?case using Cons arm_withdraw_claimed [where env = env and a = "arms ! j" and v = v] by simp
qed simp

text \<open>What \<^verbatim>\<open>resolve\<close> leaves.\<close>

definition let_go :: "nat \<Rightarrow> select_future \<Rightarrow> 'q vm \<Rightarrow> bool" where
  "let_go c f v \<longleftrightarrow> st_claimed (vm_chan v) (sf_mark f) \<and>
    (\<forall>j. j < length (sf_arms f) \<longrightarrow> j \<noteq> c \<longrightarrow> arm_idle (vm_chan v) (sf_arms f ! j))"

lemma withdraw_at_length: "withdraw_at env js arms v = (arms', v') \<Longrightarrow> length arms' = length arms"
  by (induction js arbitrary: arms v) (auto split: prod.splits)

lemma resolve_let_go:
  assumes "sel_resolve env c f v = (f', v')"
  shows "let_go c f' v' \<and> sf_mark f' = sf_mark f \<and> length (sf_arms f') = length (sf_arms f)"
proof -
  let ?js = "filter (\<lambda>j. j \<noteq> c) [0 ..< length (sf_arms f)]"
  obtain arms v1 where w: "withdraw_at env ?js (sf_arms f) (vm_claim (sf_mark f) v) = (arms, v1)" by fastforce
  then have f: "f' = f\<lparr>sf_arms := arms\<rparr>" "v' = v1" using assms by (simp_all add: sel_resolve_def)
  have len: "length arms = length (sf_arms f)" using withdraw_at_length [OF w] .
  have "arm_idle (vm_chan v1) (arms ! j)" if "j < length arms" "j \<noteq> c" for j
    by (rule withdraw_at_idle [OF w]) (use that len in auto)
  moreover have "st_claimed (vm_chan v1) (sf_mark f)"
    using withdraw_at_claimed [OF w] by (simp add: vm_claim_def claim_def)
  ultimately show ?thesis by (simp add: let_go_def f len)
qed

lemma sel_loop_let_go:
  "sel_loop env wk is f v = (Ready out, f', v') \<Longrightarrow>
    \<exists>c. let_go c f' v' \<and> sf_mark f' = sf_mark f \<and> (\<forall>i vs. out = Inr (i, vs) \<longrightarrow> i = c)"
proof (induction "is" arbitrary: f v)
  case (Cons i "is")
  obtain r a v1 where p: "arm_poll_take env wk (sf_arms f ! i) v = (r, a, v1)" using prod_cases3 by blast
  show ?case
  proof (cases r)
    case Pending
    then show ?thesis using Cons p by fastforce
  next
    case (Ready got)
    obtain f1 v2 where rs: "sel_resolve env i (f\<lparr>sf_arms := (sf_arms f)[i := a]\<rparr>) v1 = (f1, v2)" by fastforce
    have "out = map_sum id (\<lambda>vs. (i, vs)) got \<and> f' = f1 \<and> v' = v2" using Cons.prems p Ready rs by simp
    then show ?thesis using resolve_let_go [OF rs] by (cases got) auto
  qed
qed simp

text \<open>C26: A select that resolved has let go: whatever it returns (also an error), its mark is claimed, so nobody can
  take another of its offers, and every arm but the chosen one waits with nothing - no waiter, no open offer,
  no place in a host queue, no wait for a task.\<close>

theorem resolved_select_has_let_go:
  assumes "sel_poll env wk f v = (Ready out, f', v')"
  shows "\<exists>c. let_go c f' v' \<and> (\<forall>i vs. out = Inr (i, vs) \<longrightarrow> i = c)"
proof (cases "position (arm_delivered v) (sf_arms f)")
  case None
  then have "sel_loop env wk (sel_order f) f v = (Ready out, f', v')"
    using assms by (simp add: sel_poll_def take_delivered_def)
  from sel_loop_let_go [OF this] show ?thesis by blast
next
  case (Some i)
  obtain f1 v1 where rs: "sel_resolve env i f v = (f1, v1)" by fastforce
  have "out = Inr (i, send_values True) \<and> f' = f1 \<and> v' = v1"
    using assms Some rs by (simp add: sel_poll_def take_delivered_def)
  then show ?thesis using resolve_let_go [OF rs] by auto
qed

lemma resolved_select_has_let_go_witness:
  "\<exists>f' v'. sel_poll no_env (TaskWaker 9) demo_select demo_vm = (Ready (Inr (2, [VInteger 7, VBoolean True])), f', v')
    \<and> let_go 2 f' v'"
proof -
  obtain f' v' where p: "sel_poll no_env (TaskWaker 9) demo_select demo_vm =
      (Ready (Inr (2, [VInteger 7, VBoolean True])), f', v')"
    using demo_poll by (cases "sel_poll no_env (TaskWaker 9) demo_select demo_vm") auto
  from resolved_select_has_let_go [OF p] have "let_go 2 f' v'" by blast
  with p show ?thesis by blast
qed

section \<open>Giving back\<close>

text \<open>A select that took a task and could not hand it over gives it back: after \<^verbatim>\<open>untake\<close> the registry, the
  result of the task and the Lua handle are as before, so the task can be joined again.\<close>

theorem untake_undoes_join:
  assumes "task_arm_poll ta v = (Ready (Inr vs), ta', v')" and "vm_tasks v (ta_id ta) = Some (ta_task ta)"
  shows "arm_untake (ArmTask ta') vs v' = (ArmTask (ta\<lparr>ta_wait := False, ta_taken := None\<rparr>), v)"
proof -
  have "\<not> vm_joined v (ta_handle ta)"
    using assms(1) by (auto simp: task_arm_poll_def arm_join_def split: if_splits prod.splits)
  moreover from this have "ta' = ta\<lparr>ta_wait := False, ta_taken := Some (ts_result (sw_task (vm_world v) (ta_task ta)))\<rparr>"
    "v' = v\<lparr>vm_joined := (vm_joined v)(ta_handle ta := True), vm_tasks := (vm_tasks v)(ta_id ta := None),
      vm_world := upd_task (ta_task ta) (ts_result_update (\<lambda>_. None)) (vm_world v)\<rparr>"
    using assms(1)
    by (auto simp: task_arm_poll_def arm_join_def vm_take_result_def take_result_def set_joined_def reg_forget_def
        Let_def split: if_splits prod.splits)
  ultimately show ?thesis
    using assms(2)
    by (auto simp: arm_untake_def task_arm_untake_def set_joined_def reg_restore_def vm_put_result_def upd_task_def
        fun_upd_idem_iff intro!: vm.equality scope_world.equality)
qed

definition joined_vm :: "unit vm" where
  "joined_vm = demo_vm\<lparr>vm_world := upd_task 5 (\<lambda>k. k\<lparr>ts_done := True, ts_result := Some [VBoolean True]\<rparr>) (vm_world demo_vm),
    vm_tasks := (vm_tasks demo_vm)(2 := Some 5)\<rparr>"

lemma untake_undoes_join_witness:
  "\<exists>ta' v'. task_arm_poll \<lparr>ta_id = 2, ta_task = 5, ta_handle = 1, ta_wait = True, ta_taken = None\<rparr> joined_vm
      = (Ready (Inr [VBoolean True]), ta', v')
    \<and> snd (arm_untake (ArmTask ta') [VBoolean True] v') = joined_vm"
proof -
  let ?ta = "\<lparr>ta_id = 2, ta_task = 5, ta_handle = 1, ta_wait = True, ta_taken = None\<rparr>"
  have "fst (task_arm_poll ?ta joined_vm) = Ready (Inr [VBoolean True])" by code_simp
  then obtain ta' v' where p: "task_arm_poll ?ta joined_vm = (Ready (Inr [VBoolean True]), ta', v')"
    by (cases "task_arm_poll ?ta joined_vm") auto
  have "vm_tasks joined_vm (ta_id ?ta) = Some (ta_task ?ta)" by (simp add: joined_vm_def)
  from untake_undoes_join [OF p this] p show ?thesis by auto
qed

section \<open>Turns\<close>

text \<open>The turn the \<open>k\<close>-th unbiased select from here gets.\<close>

definition turn_at :: "nat \<Rightarrow> hub \<Rightarrow> usize" where
  "turn_at k h = fst (next_select_turn (((snd \<circ> next_select_turn) ^^ k) h))"

lemma turn_at: "turn_at k h = hb_turn h + of_nat k"
proof -
  have "hb_turn (((snd \<circ> next_select_turn) ^^ k) h) = hb_turn h + of_nat k"
    by (induction k) (simp_all add: next_select_turn_def)
  then show ?thesis by (simp add: turn_at_def next_select_turn_def)
qed

lemma turn_at_no_wrap: "unat (hb_turn h) + k < 2 ^ 64 \<Longrightarrow> unat (turn_at k h) = unat (hb_turn h) + k"
  by (simp add: turn_at unat_word_ariths unat_of_nat take_bit_eq_mod)

lemma rotation_hits:
  fixes j n t :: nat
  assumes "j < n"
  shows "\<exists>k<n. (t + k) mod n = j"
proof -
  let ?k = "(j + (n - t mod n)) mod n"
  have "(t + ?k) mod n = (t + (j + (n - t mod n))) mod n" by (simp add: mod_add_right_eq)
  also have "\<dots> = (t mod n + (j + (n - t mod n))) mod n" by (simp add: mod_add_left_eq)
  also have "t mod n + (j + (n - t mod n)) = j + n"
    using mod_less_divisor [where n = n and m = t] assms by linarith
  also have "(j + n) mod n = j" using assms by simp
  finally show ?thesis using assms by (metis mod_less_divisor not_less_zero gr0I)
qed

text \<open>C31: Selects are fair: among \<open>n\<close> unbiased selects in a row over \<open>n\<close> arms, one looks at any given arm first, so
  an arm that is ready (and no send was taken meanwhile) is chosen by at least one of them.\<close>

theorem turns_are_fair:
  assumes "j < n" and "unat (hb_turn h) + n \<le> 2 ^ 64"
  shows "\<exists>k<n. \<forall>f v vs a v1. length (sf_arms f) = n \<and> sf_start f = unat (turn_at k h) mod n \<and>
      position (arm_delivered v) (sf_arms f) = None \<and>
      arm_poll_take env wk (sf_arms f ! j) v = (Ready (Inr vs), a, v1) \<longrightarrow>
    fst (sel_poll env wk f v) = Ready (Inr (j, vs))"
proof -
  obtain k where k: "k < n" "(unat (hb_turn h) + k) mod n = j"
    using rotation_hits [OF assms(1), where t = "unat (hb_turn h)"] by blast
  have "unat (turn_at k h) mod n = j" using k assms(2) turn_at_no_wrap [where h = h and k = k] by simp
  then have first: "\<exists>js. sel_order f = j # js"
    if "length (sf_arms f) = n" "sf_start f = unat (turn_at k h) mod n" for f
    using that assms(1) by (cases n) (auto simp: sel_order_def upt_conv_Cons simp del: upt_Suc)
  have "fst (sel_poll env wk f v) = Ready (Inr (j, vs))"
    if len: "length (sf_arms f) = n" and start: "sf_start f = unat (turn_at k h) mod n"
      and none: "position (arm_delivered v) (sf_arms f) = None"
      and got: "arm_poll_take env wk (sf_arms f ! j) v = (Ready (Inr vs), a, v1)" for f v vs a v1
  proof -
    obtain js where "sel_order f = j # js" using first [OF len start] by blast
    then show ?thesis using none got by (simp add: sel_poll_def take_delivered_def split_beta)
  qed
  with k(1) show ?thesis by blast
qed

lemma turns_are_fair_witness:
  "\<exists>k<3. fst (sel_poll no_env NoopWaker (demo_select\<lparr>sf_start := unat (turn_at k hub_default) mod 3\<rparr>) demo_vm)
    = Ready (Inr (2, [VInteger 7, VBoolean True]))"
proof -
  have p: "fst (arm_poll_take no_env NoopWaker (sf_arms demo_select ! 2) demo_vm)
      = Ready (Inr [VInteger 7, VBoolean True])" "position (arm_delivered demo_vm) (sf_arms demo_select) = None"
    "length (sf_arms demo_select) = 3" by code_simp+
  then obtain a v1 where g: "arm_poll_take no_env NoopWaker (sf_arms demo_select ! 2) demo_vm
      = (Ready (Inr [VInteger 7, VBoolean True]), a, v1)"
    by (cases "arm_poll_take no_env NoopWaker (sf_arms demo_select ! 2) demo_vm") auto
  obtain k where "k < 3" and k: "length (sf_arms f) = 3 \<and> sf_start f = unat (turn_at k hub_default) mod 3 \<and>
      position (arm_delivered v) (sf_arms f) = None \<and>
      arm_poll_take no_env NoopWaker (sf_arms f ! 2) v = (Ready (Inr vs), a, v1) \<Longrightarrow>
      fst (sel_poll no_env NoopWaker f v) = Ready (Inr (2, vs))" for f v vs a and v1 :: "unit vm"
    using turns_are_fair [where j = 2 and n = 3 and h = hub_default and env = no_env and wk = NoopWaker]
    by (auto simp: hub_default_def)
  from k [of "demo_select\<lparr>sf_start := unat (turn_at k hub_default) mod 3\<rparr>" demo_vm "[VInteger 7, VBoolean True]" a v1]
    g p(2,3) \<open>k < 3\<close> show ?thesis by auto
qed

end
