(* ===== verification/Isle_Channel_Lib_Props.thy ===== *)
theory Isle_Channel_Lib_Props
  imports Isle_Channel_Lib Isle_Select_Props
begin

text \<open>
  What the channel part of the library promises: the cases its builders make are read back as the arms
  they name; \<^verbatim>\<open>select_raw\<close> returns an index and the values of that arm; a ticker keeps its newest
  tick.  And two things it does not: a ticker whose host task was never polled stays open for ever, and a
  period past the end of the clock is accepted.
\<close>

section \<open>Cases are read back\<close>










lemma mark_new_vm [simp]:
  "vm_tasks (v\<lparr>vm_chan := s\<rparr>) = vm_tasks v" "vm_joined (v\<lparr>vm_chan := s\<rparr>) = vm_joined v" by simp_all



section \<open>The shape of results\<close>

fun arm_shape :: "arm \<Rightarrow> lua_value list \<Rightarrow> bool" where
  "arm_shape (ArmRecv r) vs = (vs = [VNil, VBoolean False] \<or> (\<exists>x. vs = [x, VBoolean True]))"
| "arm_shape (ArmSend sd) vs = (\<exists>b. vs = [VBoolean b])"
| "arm_shape (ArmTimer t b) vs = (vs = [])"
| "arm_shape (ArmTask ta) vs = True"

text \<open>Polling keeps the kind of an arm.\<close>

lemma arm_poll_shape:
  assumes "arm_poll_take env wk a v = (r, a', v')"
  shows "arm_shape a' = arm_shape a" and "r = Ready (Inr vs) \<Longrightarrow> arm_shape a vs"
proof -
  have rv: "recv_values got = [VNil, VBoolean False] \<or> (\<exists>x. recv_values got = [x, VBoolean True])" for got
    by (cases got) auto
  show "arm_shape a' = arm_shape a"
    using assms by (cases a) (auto simp: arm_poll_take_def fun_eq_iff split: prod.splits if_splits)
  show "arm_shape a vs" if "r = Ready (Inr vs)"
  proof (cases a)
    case (ArmRecv rc)
    obtain got r1 s where g: "receiving_poll env wk rc (vm_chan v) = (got, r1, s)" using prod_cases3 by blast
    with assms that ArmRecv have "map_poll (map_sum id recv_values) got = Ready (Inr vs)" by (simp add: arm_poll_take_def)
    then obtain x where "got = Ready (Inr x)" "vs = recv_values x"
      by (cases got; auto; cases "case got of Ready y \<Rightarrow> y"; auto)
    then show ?thesis using rv [of x] by (auto simp: ArmRecv)
  next
    case (ArmSend sd)
    obtain got s1 s where g: "sending_poll env wk sd (vm_chan v) = (got, s1, s)" using prod_cases3 by blast
    with assms that ArmSend have "map_poll (map_sum id (\<lambda>sent. send_values (\<not> isl sent))) got = Ready (Inr vs)"
      by (simp add: arm_poll_take_def)
    then show ?thesis
      by (cases got; auto simp: ArmSend send_values_def; cases "case got of Ready y \<Rightarrow> y"; auto)
  next
    case (ArmTimer t b)
    then show ?thesis using assms that by (auto simp: arm_poll_take_def split: if_splits)
  qed simp
qed

lemma shapes_update:
  "arm_shape a = arm_shape (arms ! i) \<Longrightarrow> map arm_shape (arms[i := a]) = map arm_shape arms"
  by (metis list_update_beyond list_update_id map_update not_le_imp_less)

lemma withdraw_arm_shape: "arm_withdraw env a v = (a', v') \<Longrightarrow> arm_shape a' = arm_shape a"
  by (cases a) (auto simp: arm_withdraw_def fun_eq_iff split: prod.splits)

lemma withdraw_at_shape: "withdraw_at env js arms v = (arms', v') \<Longrightarrow> map arm_shape arms' = map arm_shape arms"
proof (induction js arbitrary: arms v)
  case (Cons j js)
  obtain a v1 where a: "arm_withdraw env (arms ! j) v = (a, v1)" by fastforce
  then have "map arm_shape arms' = map arm_shape (arms[j := a])" using Cons.IH Cons.prems by simp
  then show ?case using shapes_update [OF withdraw_arm_shape [OF a]] by simp
qed simp

definition shapes :: "select_future \<Rightarrow> (lua_value list \<Rightarrow> bool) list" where
  "shapes f = map arm_shape (sf_arms f)"

lemma shape_nth: "shapes f = S \<Longrightarrow> i < length S \<Longrightarrow> arm_shape (sf_arms f ! i) = S ! i"
  by (auto simp: shapes_def)

lemma sel_loop_shape:
  "sel_loop env wk is f v = (out, f', v') \<Longrightarrow> set is \<subseteq> {..< length (sf_arms f)} \<Longrightarrow>
    (\<forall>i vs. out = Ready (Inr (i, vs)) \<longrightarrow> i < length (shapes f) \<and> (shapes f ! i) vs) \<and>
    (out = Pending \<longrightarrow> shapes f' = shapes f)"
proof (induction "is" arbitrary: f v)
  case (Cons i "is")
  obtain r a v1 where p: "arm_poll_take env wk (sf_arms f ! i) v = (r, a, v1)" using prod_cases3 by blast
  let ?f = "f\<lparr>sf_arms := (sf_arms f)[i := a]\<rparr>"
  have sh: "shapes ?f = shapes f" using shapes_update [OF arm_poll_shape(1) [OF p]] by (simp add: shapes_def)
  show ?case
  proof (cases r)
    case Pending
    then have "sel_loop env wk is ?f v1 = (out, f', v')" using Cons.prems(1) p by simp
    from Cons.IH [OF this] sh Cons.prems(2) show ?thesis by simp
  next
    case (Ready got)
    obtain f1 v2 where "sel_resolve env i ?f v1 = (f1, v2)" by fastforce
    then have "out = Ready (map_sum id (\<lambda>vs. (i, vs)) got)" using Cons.prems(1) p Ready by simp
    moreover have "(shapes f ! i) vs" if "got = Inr vs" for vs
      using arm_poll_shape(2) [OF p, where vs = vs] that Ready Cons.prems(2) by (simp add: shapes_def)
    ultimately show ?thesis using Cons.prems(2) by (cases got) (auto simp: shapes_def)
  qed
qed simp

lemma sel_poll_shape:
  assumes "sel_poll env wk f v = (out, f', v')"
  shows "out = Ready (Inr (i, vs)) \<Longrightarrow> i < length (shapes f) \<and> (shapes f ! i) vs"
    and "out = Pending \<Longrightarrow> shapes f' = shapes f"
proof -
  have "(\<forall>i vs. out = Ready (Inr (i, vs)) \<longrightarrow> i < length (shapes f) \<and> (shapes f ! i) vs) \<and>
    (out = Pending \<longrightarrow> shapes f' = shapes f)"
  proof (cases "position (arm_delivered v) (sf_arms f)")
    case None
    then have "sel_loop env wk (sel_order f) f v = (out, f', v')"
      using assms by (simp add: sel_poll_def take_delivered_def)
    then show ?thesis by (rule sel_loop_shape) (use sel_order_lt in blast)
  next
    case (Some i)
    have "i < length (sf_arms f)" "arm_delivered v (sf_arms f ! i)" using position_Some [OF Some] by auto
    moreover have "out = Ready (Inr (i, send_values True))"
      using assms Some by (auto simp: sel_poll_def take_delivered_def split: prod.splits)
    ultimately show ?thesis by (cases "sf_arms f ! i") (auto simp: arm_delivered_def shapes_def send_values_def)
  qed
  then show "out = Ready (Inr (i, vs)) \<Longrightarrow> i < length (shapes f) \<and> (shapes f ! i) vs"
    and "out = Pending \<Longrightarrow> shapes f' = shapes f" by blast+
qed

lemma wait_select_shape:
  assumes "wait_select_poll env wk tok f v = (out, f', v')"
  shows "out = Ready (Inr (i, vs)) \<Longrightarrow> i < length (shapes f) \<and> (shapes f ! i) vs"
    and "out = Pending \<Longrightarrow> shapes f' = shapes f"
proof -
  have td: "i < length (shapes f) \<and> (shapes f ! i) vs"
    if "take_delivered env f v = (Some (i, vs), f1, v1)" for i vs f1 v1
  proof -
    have "sel_poll env wk f v = (Ready (Inr (i, vs)), f1, v1)" using that by (simp add: sel_poll_def)
    then show ?thesis by (rule sel_poll_shape(1)) simp
  qed
  show "out = Ready (Inr (i, vs)) \<Longrightarrow> i < length (shapes f) \<and> (shapes f ! i) vs"
    using assms sel_poll_shape(1) [where env = env and wk = wk and f = f and v = v] td
    by (fastforce simp: wait_select_poll_def split: option.splits if_splits prod.splits)
  show "out = Pending \<Longrightarrow> shapes f' = shapes f"
    using assms sel_poll_shape(2) [where env = env and wk = wk and f = f and v = v]
    by (auto simp: wait_select_poll_def split: option.splits if_splits prod.splits)
qed

text \<open>The polls of a \<^verbatim>\<open>select_raw\<close>, with whatever happens to the VM before each of them.\<close>

fun raw_polls ::
  "('t, 'q) mpsc_env \<Rightarrow> nat option \<Rightarrow> (waker \<times> ('q vm \<Rightarrow> 'q vm)) list \<Rightarrow> select_future \<Rightarrow> 'q vm \<Rightarrow>
    (mlua_error + lua_value list) option" where
  "raw_polls env tok [] f v = None"
| "raw_polls env tok ((wk, meanwhile) # ps) f v =
    (case select_raw_wait env wk tok f (meanwhile v) of
       (Ready out, f1, v1) \<Rightarrow> Some out
     | (Pending, f1, v1) \<Rightarrow> raw_polls env tok ps f1 v1)"

fun raw_run ::
  "('t, 'q) mpsc_env \<Rightarrow> nat option \<Rightarrow> select_cases \<Rightarrow> (waker \<times> ('q vm \<Rightarrow> 'q vm)) list \<Rightarrow> 'q vm \<Rightarrow>
    (mlua_error + lua_value list) option" where
  "raw_run env tok c [] v = None"
| "raw_run env tok c ((wk, meanwhile) # ps) v =
    (case select_raw_first env wk tok (Inr c) (meanwhile v) of
       (Ready out, f, v1) \<Rightarrow> Some out
     | (Pending, Some f, v1) \<Rightarrow> raw_polls env tok ps f v1
     | (Pending, None, v1) \<Rightarrow> None)"

definition raw_shape :: "(lua_value list \<Rightarrow> bool) list \<Rightarrow> lua_value list \<Rightarrow> bool" where
  "raw_shape S out \<longleftrightarrow> (\<exists>i<length S. \<exists>vs. out = VInteger (int i + 1) # vs \<and> (S ! i) vs)"

lemma raw_wait_shape:
  assumes "select_raw_wait env wk tok f v = (r, f', v')"
  shows "r = Ready (Inr out) \<Longrightarrow> raw_shape (shapes f) out" and "r = Pending \<Longrightarrow> shapes f' = shapes f"
proof -
  obtain w f1 v1 where w: "wait_select_poll env wk tok f v = (w, f1, v1)" using prod_cases3 by blast
  then have r: "r = map_poll (map_sum id raw_values) w" "f' = f1" using assms by (simp_all add: select_raw_wait_def)
  show "raw_shape (shapes f) out" if ready: "r = Ready (Inr out)"
  proof -
    obtain i vs where "w = Ready (Inr (i, vs))" "out = VInteger (int i + 1) # vs"
      using ready r(1) by (cases w; simp; cases "case w of Ready y \<Rightarrow> y"; auto simp: raw_values_def split: prod.splits)
    with wait_select_shape(1) [OF w] show ?thesis by (auto simp: raw_shape_def)
  qed
  show "shapes f' = shapes f" if "r = Pending"
    using that r wait_select_shape(2) [OF w] by (cases w) auto
qed

lemma raw_polls_shape: "raw_polls env tok ps f v = Some (Inr out) \<Longrightarrow> raw_shape (shapes f) out"
proof (induction ps arbitrary: f v)
  case (Cons p ps)
  obtain wk m where p: "p = (wk, m)" by fastforce
  obtain r f1 v1 where w: "select_raw_wait env wk tok f (m v) = (r, f1, v1)" using prod_cases3 by blast
  show ?case
    using Cons.prems Cons.IH [of f1 v1] raw_wait_shape [OF w] w p by (cases r) auto
qed simp

text \<open>The values of a \<^verbatim>\<open>select_raw\<close> that returned, after however many polls and whatever happened between
  them: the index 0 alone, only when a default was given; otherwise an index from 1 to the number of cases and
  after it the values of that kind of case (\<open>v, true\<close> or \<open>nil, false\<close>; a boolean; nothing; what the join
  returns).\<close>

theorem select_raw_result:
  assumes "raw_run env tok c ps v = Some (Inr out)"
  shows "raw_shape (map arm_shape (ca_arms c)) out \<or>
    (out = [VInteger 0] \<and> ca_default c \<in> {RawDefault} \<union> range HandlerDefault)"
proof (cases ps)
  case (Cons p ps')
  obtain wk m where p: "p = (wk, m)" by fastforce
  have sh: "shapes (case_select c) = map arm_shape (ca_arms c)" by (simp add: shapes_def case_select_def)
  show ?thesis
  proof (cases "ca_default c = NoDefault")
    case True
    obtain r f1 v1 where w: "select_raw_wait env wk tok (case_select c) (m v) = (r, f1, v1)" using prod_cases3 by blast
    have "raw_shape (shapes (case_select c)) out"
      using assms raw_wait_shape [OF w] raw_polls_shape [where env = env and tok = tok and f = f1 and v = v1] w True
      by (cases r) (auto simp: Cons p select_raw_first_def)
    then show ?thesis by (simp add: sh)
  next
    case False
    obtain r f1 v1 where w: "sel_poll_now env (case_select c) (m v) = (r, f1, v1)" using prod_cases3 by blast
    have e: "shapes (case_select c\<lparr>sf_arms := map arm_eager (sf_arms (case_select c))\<rparr>) = shapes (case_select c)"
    proof -
      have "arm_shape (arm_eager a) = arm_shape a" for a by (cases a) (auto simp: fun_eq_iff)
      then show ?thesis by (simp add: shapes_def)
    qed
    have d: "ca_default c \<in> {RawDefault} \<union> range HandlerDefault" using False by (cases "ca_default c") auto
    show ?thesis
    proof (cases r)
      case None
      then show ?thesis using assms w False d by (simp add: Cons p select_raw_first_def)
    next
      case (Some got)
      then have s: "sel_poll env NoopWaker (case_select c\<lparr>sf_arms := map arm_eager (sf_arms (case_select c))\<rparr>) (m v)
          = (Ready got, f1, v1)"
        using w by (auto simp: sel_poll_now_def split: prod.splits poll.splits)
      obtain i vs where "got = Inr (i, vs)" "out = VInteger (int i + 1) # vs"
        using assms w False Some
        by (cases got) (auto simp: Cons p select_raw_first_def raw_values_def split: prod.splits)
      with sel_poll_shape(1) [OF s] show ?thesis by (auto simp: raw_shape_def e sh)
    qed
  qed
qed (use assms in simp)

definition demo_cases :: select_cases where
  "demo_cases = \<lparr>ca_arms = sf_arms demo_select, ca_mark = 3, ca_handlers = [], ca_default = NoDefault, ca_start = 1\<rparr>"

lemma select_raw_result_witness:
  "raw_run no_env None demo_cases [(TaskWaker 9, id)] demo_vm = Some (Inr [VInteger 3, VInteger 7, VBoolean True]) \<and>
   raw_shape (map arm_shape (ca_arms demo_cases)) [VInteger 3, VInteger 7, VBoolean True]"
proof -
  have r: "raw_run no_env None demo_cases [(TaskWaker 9, id)] demo_vm = Some (Inr [VInteger 3, VInteger 7, VBoolean True])"
    by code_simp
  from select_raw_result [OF r] r show ?thesis by simp
qed



section \<open>Tickers\<close>

definition ticker_chan_ok :: "'q chan_store \<Rightarrow> nat \<Rightarrow> bool" where
  "ticker_chan_ok s ch \<longleftrightarrow>
    \<not> cc_closed (st_core s ch) \<and> cc_cap (st_core s ch) = 1 \<and> length (cc_buf (st_core s ch)) \<le> 1"

lemma push_tick:
  assumes "ticker_chan_ok s ch"
  obtains s' where "push_newest ch x s = (True, s')" "ticker_chan_ok s' ch" "cc_buf (st_core s' ch) = [x]"
proof -
  have "(if cc_cap (st_core s ch) \<le> length (cc_buf (st_core s ch)) then butlast (cc_buf (st_core s ch))
      else cc_buf (st_core s ch)) = []"
    using assms by (cases "cc_buf (st_core s ch)") (auto simp: ticker_chan_ok_def)
  then have "push_newest ch x s =
      (True, wake_all (fst (receiver_wakers ch (upd_core ch (cc_buf_update (\<lambda>_. [x])) s)))
        (snd (receiver_wakers ch (upd_core ch (cc_buf_update (\<lambda>_. [x])) s))))"
    using assms by (simp add: push_newest_def ticker_chan_ok_def Let_def split_beta)
  moreover from assms have "ticker_chan_ok (wake_all (fst (receiver_wakers ch (upd_core ch (cc_buf_update (\<lambda>_. [x])) s)))
        (snd (receiver_wakers ch (upd_core ch (cc_buf_update (\<lambda>_. [x])) s)))) ch"
    by (simp add: ticker_chan_ok_def receiver_wakers_eq)
  ultimately show ?thesis by (intro that) (auto simp: receiver_wakers_eq)
qed

definition tok_cancelled :: "nat option \<Rightarrow> 'q vm \<Rightarrow> bool" where
  "tok_cancelled tok v \<longleftrightarrow> (case tok of None \<Rightarrow> False | Some t \<Rightarrow> token_cancelled (vm_world v) t)"

lemma tok_cancelled_chan [simp]: "tok_cancelled tok (v\<lparr>vm_chan := s\<rparr>) = tok_cancelled tok v"
  by (simp add: tok_cancelled_def split: option.split)

lemma ticker_loop_newest:
  assumes law: "\<And>t now p. t < ck_next_tick ck t now p"
  shows "sw_now (vm_world v) + 1 - due < fuel \<Longrightarrow> \<not> tok_cancelled tok v \<Longrightarrow> ticker_chan_ok (vm_chan v) (rt_chan rt) \<Longrightarrow>
    due \<le> sw_now (vm_world v) \<Longrightarrow>
    \<exists>last v'. ticker_loop fuel ck env tok due rt v =
        Some (False, rt\<lparr>rt_at := TkNext (ck_next_tick ck last (sw_now (vm_world v)) (rt_period rt))\<rparr>, v') \<and>
      due \<le> last \<and> last \<le> sw_now (vm_world v) \<and> sw_now (vm_world v) < ck_next_tick ck last (sw_now (vm_world v)) (rt_period rt) \<and>
      ticker_chan_ok (vm_chan v') (rt_chan rt) \<and>
      cc_buf (st_core (vm_chan v') (rt_chan rt)) = [VNumber (ck_to_ms ck (last - rt_start rt))]"
proof (induction fuel arbitrary: due v)
  case (Suc fuel)
  let ?now = "sw_now (vm_world v)"
  let ?n = "ck_next_tick ck due ?now (rt_period rt)"
  obtain s' where p: "push_newest (rt_chan rt) (VNumber (ck_to_ms ck (due - rt_start rt))) (vm_chan v) = (True, s')"
      "ticker_chan_ok s' (rt_chan rt)" "cc_buf (st_core s' (rt_chan rt)) = [VNumber (ck_to_ms ck (due - rt_start rt))]"
    using push_tick [OF Suc.prems(3)] by blast
  have loop: "ticker_loop (Suc fuel) ck env tok due rt v = ticker_loop fuel ck env tok ?n rt (v\<lparr>vm_chan := s'\<rparr>)"
    using Suc.prems(2,4) p(1) by (simp add: tok_cancelled_def)
  have inc: "due < ?n" by (rule law)
  show ?case
  proof (cases "?n \<le> ?now")
    case True
    have "?now + 1 - ?n < fuel" using Suc.prems(1,4) inc by linarith
    from Suc.IH [of "v\<lparr>vm_chan := s'\<rparr>" ?n] this Suc.prems(2) p(2) True
    obtain last v' where l: "ticker_loop fuel ck env tok ?n rt (v\<lparr>vm_chan := s'\<rparr>) =
        Some (False, rt\<lparr>rt_at := TkNext (ck_next_tick ck last ?now (rt_period rt))\<rparr>, v')"
      "?n \<le> last" "last \<le> ?now" "?now < ck_next_tick ck last ?now (rt_period rt)"
      "ticker_chan_ok (vm_chan v') (rt_chan rt)"
      "cc_buf (st_core (vm_chan v') (rt_chan rt)) = [VNumber (ck_to_ms ck (last - rt_start rt))]"
      by auto
    moreover have "due \<le> last" using inc l(2) by linarith
    ultimately show ?thesis using loop by (intro exI [of _ last] exI [of _ v']) simp
  next
    case False
    obtain k where "fuel = Suc k" using Suc.prems(1,4) by (cases fuel) auto
    then have "ticker_loop fuel ck env tok ?n rt (v\<lparr>vm_chan := s'\<rparr>) = Some (False, rt\<lparr>rt_at := TkNext ?n\<rparr>, v\<lparr>vm_chan := s'\<rparr>)"
      using False Suc.prems(2) by (cases tok) (simp_all add: tok_cancelled_def)
    moreover have "?now < ?n" using False by linarith
    ultimately show ?thesis using loop Suc.prems(4) p(2,3) by (intro exI [of _ due] exI [of _ "v\<lparr>vm_chan := s'\<rparr>"]) simp
  qed
qed simp

text \<open>C37: A ticker keeps the newest tick.  When ticks are due, one poll of its host task ends after at most one
  round for each instant that passed, and leaves exactly one value in the channel, whatever was unread: the time
  of the last scheduled tick, the one whose successor is still to come.\<close>

theorem ticker_keeps_newest:
  assumes "\<And>t now p. t < ck_next_tick ck t now p" and "rt_at rt = TkNext due" and "due \<le> sw_now (vm_world v)"
    and "\<not> tok_cancelled tok v" and "ticker_chan_ok (vm_chan v) (rt_chan rt)"
    and "sw_now (vm_world v) + 1 - due < fuel"
  shows "\<exists>last v'. run_ticker_poll fuel ck env tok rt v =
      Some (False, rt\<lparr>rt_at := TkNext (ck_next_tick ck last (sw_now (vm_world v)) (rt_period rt))\<rparr>, v') \<and>
    due \<le> last \<and> last \<le> sw_now (vm_world v) \<and>
    sw_now (vm_world v) < ck_next_tick ck last (sw_now (vm_world v)) (rt_period rt) \<and>
    cc_buf (st_core (vm_chan v') (rt_chan rt)) = [VNumber (ck_to_ms ck (last - rt_start rt))]"
  using ticker_loop_newest [OF assms(1,6,4,5,3)] assms(2) unfolding run_ticker_poll_def by fastforce

lemma lib_ticker_fresh:
  assumes "lib_ticker ck ms v = (Inr (ch, tk, rt), v1)"
  shows "st_core (vm_chan v1) ch = (with_cap 1 None)\<lparr>cc_ticker := True\<rparr>" and "rt_chan rt = ch" and "rt_at rt = TkStart"
    and "0 < rt_period rt" and "rt_start rt = sw_now (vm_world v)"
  using assms
  by (auto simp: lib_ticker_def Let_def new_ticker_def alloc_chan_def ticker_period_def
      split: sum.splits option.splits prod.splits f64.splits if_splits)

text \<open>A ticker whose host task is dropped before its first poll (its request was dropped, or had already ended)
  is never closed: the guard that closes the channel is made by that first poll, so a receiver elsewhere
  waits for ever.\<close>

theorem unpolled_ticker_never_closes:
  assumes "lib_ticker ck ms v = (Inr (ch, tk, rt), v1)"
  shows "\<not> cc_closed (st_core (vm_chan (snd (run_ticker_drop env rt v1))) ch) \<and>
    fst (receiving_poll env wk (receiving_new ch None) (vm_chan (snd (run_ticker_drop env rt v1)))) = Pending"
  using lib_ticker_fresh [OF assms]
  by (simp add: run_ticker_drop_def with_cap_def receiving_poll_def receiving_new_def poll_recv_def Let_def split_beta)

text \<open>A period that reaches past the last instant of the clock passes the check of \<^verbatim>\<open>task.ticker\<close>; the host task
  panics in its first poll, and the program sees a closed channel without a tick.\<close>

theorem ticker_past_the_clock:
  assumes "lib_ticker ck ms v = (Inr (ch, tk, rt), v1)" and "ck_latest ck < rt_start rt + rt_period rt"
  shows "\<exists>v'. run_ticker_poll fuel ck env tok rt v1 = Some (True, rt\<lparr>rt_at := TkPanicked\<rparr>, v') \<and>
    cc_closed (st_core (vm_chan v') ch) \<and> cc_buf (st_core (vm_chan v') ch) = []"
proof -
  note f = lib_ticker_fresh [OF assms(1)]
  have "\<not> cc_closed (st_core (vm_chan v1) ch)" by (simp add: f(1) with_cap_def)
  from chan_close_fields [OF this, where env = env] f assms(2) show ?thesis
    by (simp add: run_ticker_poll_def ticker_end_def with_cap_def)
qed

section \<open>Concrete tickers\<close>

text \<open>A clock of one tick a millisecond that ends at 10000, with tokio's \<^verbatim>\<open>Skip\<close>; a request that runs.\<close>

definition demo_clock :: clock_env where
  "demo_clock = \<lparr>ck_from_secs = (\<lambda>x. Some (nat \<lfloor>x * 1000\<rfloor>)),
    ck_next_tick = (\<lambda>t now p. if p = 0 \<or> now < t then Suc t + p else now + p - (now - t) mod p),
    ck_to_ms = (\<lambda>n. FFin (of_nat n)), ck_latest = 10000\<rparr>"

lemma demo_clock_forward: "t < ck_next_tick demo_clock t now p"
proof (cases "p = 0 \<or> now < t")
  case False
  then have "(now - t) mod p < p" "(now - t) mod p \<le> now - t" by simp_all
  with False show ?thesis unfolding demo_clock_def by simp
qed (simp add: demo_clock_def)

definition ticking_vm :: "nat \<Rightarrow> unit vm" where
  "ticking_vm now =
    (let (n, w) = root_new 0 5 (vm_world demo_vm); (prev, w1) = enter_scope n w
     in demo_vm\<lparr>vm_world := w1\<lparr>sw_now := now\<rparr>\<rparr>)"

definition demo_ticker :: "run_ticker \<times> unit vm" where
  "demo_ticker = (case lib_ticker demo_clock (FFin 10) (ticking_vm 0) of
     (Inr (ch, tk, rt), v) \<Rightarrow> (rt, v) | (Inl e, v) \<Rightarrow> (\<lparr>rt_chan = 0, rt_start = 0, rt_period = 0, rt_at = TkDone\<rparr>, v))"

lemma ticker_keeps_newest_witness:
  "\<exists>last v'. run_ticker_poll 100 demo_clock no_env None ((fst demo_ticker)\<lparr>rt_at := TkNext 10\<rparr>)
      ((snd demo_ticker)\<lparr>vm_world := (vm_world (snd demo_ticker))\<lparr>sw_now := 47\<rparr>\<rparr>) =
      Some (False, (fst demo_ticker)\<lparr>rt_at := TkNext (ck_next_tick demo_clock last 47 10)\<rparr>, v') \<and>
    last \<le> 47 \<and> cc_buf (st_core (vm_chan v') (rt_chan (fst demo_ticker))) = [VNumber (FFin (of_nat last))]"
proof -
  let ?rt = "(fst demo_ticker)\<lparr>rt_at := TkNext 10\<rparr>"
  let ?v = "(snd demo_ticker)\<lparr>vm_world := (vm_world (snd demo_ticker))\<lparr>sw_now := 47\<rparr>\<rparr>"
  have c: "rt_start (fst demo_ticker) = 0" "rt_period (fst demo_ticker) = 10"
    "ticker_chan_ok (vm_chan (snd demo_ticker)) (rt_chan (fst demo_ticker))" by code_simp+
  have h: "rt_at ?rt = TkNext 10" "10 \<le> sw_now (vm_world ?v)" "\<not> tok_cancelled None ?v"
    "ticker_chan_ok (vm_chan ?v) (rt_chan ?rt)" "sw_now (vm_world ?v) + 1 - 10 < (100::nat)"
    using c by (simp_all add: tok_cancelled_def)
  have ms: "ck_to_ms demo_clock n = FFin (of_nat n)" for n by (simp add: demo_clock_def)
  from ticker_keeps_newest [OF demo_clock_forward h, where env = no_env] c show ?thesis
    by (auto simp: ms)
qed

lemma demo_ticker_made:
  obtains ch tk rt v where "lib_ticker demo_clock (FFin 10) (ticking_vm 0) = (Inr (ch, tk, rt), v)"
proof -
  have "isl (fst (lib_ticker demo_clock (FFin 10) (ticking_vm 0))) = False" by code_simp
  then show ?thesis using that
    by (cases "lib_ticker demo_clock (FFin 10) (ticking_vm 0)"; cases "fst (lib_ticker demo_clock (FFin 10) (ticking_vm 0))") auto
qed

lemma unpolled_ticker_never_closes_witness:
  "\<exists>ch tk rt v. lib_ticker demo_clock (FFin 10) (ticking_vm 0) = (Inr (ch, tk, rt), v) \<and>
    fst (receiving_poll no_env NoopWaker (receiving_new ch None) (vm_chan (snd (run_ticker_drop no_env rt v)))) = Pending"
proof -
  obtain ch tk rt v where t: "lib_ticker demo_clock (FFin 10) (ticking_vm 0) = (Inr (ch, tk, rt), v)"
    by (rule demo_ticker_made)
  from unpolled_ticker_never_closes [OF t, where env = no_env and wk = NoopWaker] t show ?thesis by blast
qed

lemma ticker_past_the_clock_witness:
  "\<exists>ch tk rt v v'. lib_ticker demo_clock (FFin 20000) (ticking_vm 0) = (Inr (ch, tk, rt), v) \<and>
    run_ticker_poll 1 demo_clock no_env None rt v = Some (True, rt\<lparr>rt_at := TkPanicked\<rparr>, v') \<and>
    cc_closed (st_core (vm_chan v') ch)"
proof -
  have "(case lib_ticker demo_clock (FFin 20000) (ticking_vm 0) of
      (Inr (ch, tk, rt), v) \<Rightarrow> ck_latest demo_clock < rt_start rt + rt_period rt | _ \<Rightarrow> False)" by code_simp
  then obtain ch tk rt v where t: "lib_ticker demo_clock (FFin 20000) (ticking_vm 0) = (Inr (ch, tk, rt), v)"
    "ck_latest demo_clock < rt_start rt + rt_period rt"
    by (auto split: prod.splits sum.splits)
  from ticker_past_the_clock [OF t, where env = no_env and tok = None and fuel = 1] t(1) show ?thesis by blast
qed

end
