(* ===== verification/Isle_Lib_Classes.thy ===== *)
theory Isle_Lib_Classes
  imports Isle_Channel_Lib
begin

text \<open>
  The objects of the Lua \<^verbatim>\<open>task\<close> library: the classes of \<^verbatim>\<open>LIB\<close> (\<^verbatim>\<open>src/task_lib.rs\<close>) with their \<^verbatim>\<open>__index\<close> chains,
  the constructors, and a method call on an object, down to the host function it ends in.

  A \<open>library\<close> is the VM with Lua's tables and userdata, by address: \<open>li_objs\<close> the objects (a table with its
  metatable's class and its own fields), \<open>li_uds\<close> and \<open>li_tickers\<close> what a userdata is, and \<open>li_next\<close> the next
  unused address.  The field \<^verbatim>\<open>_joined\<close> of a handle is \<open>vm_joined\<close> of \<open>Isle_Registry\<close>.
\<close>

section \<open>The classes\<close>

datatype lib_class = TaskClass | ChannelClass | TickerClass | TimerClass | SendChannelClass

datatype lib_fn =
    TaskJoin | TaskCancel | TaskDone | TaskClose | TaskGc | TaskOn | TaskArm
  | ChanSend | ChanTrySend | ChanRecv | ChanTryRecv | ChanClose | ChanClosed | ChanLen | ChanCap
  | ChanOn | ChanArmRecv | ChanOnSend | ChanArmSend
  | TickerStop | TimerWait | TimerOn | TimerArm
  | Refuse string

datatype class_field = Fn lib_fn | Class lib_class

text \<open>The fields of each class's table.\<close>

definition task_table :: "(string \<times> class_field) list" where
  "task_table =
    [(''__index'', Class TaskClass), (''join'', Fn TaskJoin), (''cancel'', Fn TaskCancel), (''done'', Fn TaskDone),
     (''__close'', Fn TaskClose), (''__gc'', Fn TaskGc), (''on'', Fn TaskOn), (''arm'', Fn TaskArm)]"

definition channel_table :: "(string \<times> class_field) list" where
  "channel_table =
    [(''__index'', Class ChannelClass), (''send'', Fn ChanSend), (''try_send'', Fn ChanTrySend), (''recv'', Fn ChanRecv),
     (''try_recv'', Fn ChanTryRecv), (''close'', Fn ChanClose), (''closed'', Fn ChanClosed), (''len'', Fn ChanLen),
     (''cap'', Fn ChanCap), (''on'', Fn ChanOn), (''arm_recv'', Fn ChanArmRecv), (''on_send'', Fn ChanOnSend),
     (''arm_send'', Fn ChanArmSend)]"

definition ticker_table :: "(string \<times> class_field) list" where
  "ticker_table = [(''__index'', Class TickerClass), (''stop'', Fn TickerStop)]"

definition timer_table :: "(string \<times> class_field) list" where
  "timer_table =
    [(''__index'', Class TimerClass), (''wait'', Fn TimerWait), (''on'', Fn TimerOn), (''arm'', Fn TimerArm)]"

definition send_channel_table :: "(string \<times> class_field) list" where
  "send_channel_table =
    [(''__index'', Class SendChannelClass), (''recv'', Fn (Refuse ''ch:recv'')), (''try_recv'', Fn (Refuse ''ch:try_recv'')),
     (''on'', Fn (Refuse ''ch:on'')), (''arm_recv'', Fn (Refuse ''ch:arm_recv''))]"

fun class_table :: "lib_class \<Rightarrow> (string \<times> class_field) list" where
  "class_table TaskClass = task_table"
| "class_table ChannelClass = channel_table"
| "class_table TickerClass = ticker_table"
| "class_table TimerClass = timer_table"
| "class_table SendChannelClass = send_channel_table"

text \<open>\<^verbatim>\<open>setmetatable({}, { __index = Channel })\<close>: where a class looks further.\<close>

fun class_parent :: "lib_class \<Rightarrow> lib_class option" where
  "class_parent TickerClass = Some ChannelClass"
| "class_parent SendChannelClass = Some ChannelClass"
| "class_parent _ = None"

function find_field :: "lib_class \<Rightarrow> string \<Rightarrow> class_field option" where
  "find_field c name =
    (case map_of (class_table c) name of
       Some x \<Rightarrow> Some x
     | None \<Rightarrow> (case class_parent c of None \<Rightarrow> None | Some p \<Rightarrow> find_field p name))"
  by pat_completeness auto
termination
  by (relation "measure (\<lambda>(c, name). case class_parent c of None \<Rightarrow> 0 | Some p \<Rightarrow> 1)") (auto elim: class_parent.elims)

declare find_field.simps [simp del]

section \<open>Objects\<close>

record lib_object =
  ob_class :: lib_class
  ob_fields :: "string \<Rightarrow> lua_value option"

record 'q library =
  li_vm :: "'q vm"
  li_uds :: "nat \<Rightarrow> udata"
  li_tickers :: "nat \<Rightarrow> ticker option"
  li_objs :: "nat \<Rightarrow> lib_object option"
  li_next :: nat

definition new_userdata :: "udata \<Rightarrow> 'q library \<Rightarrow> nat \<times> 'q library" where
  "new_userdata ud L =
    (li_next L, L\<lparr>li_uds := (li_uds L)(li_next L := ud), li_next := Suc (li_next L)\<rparr>)"

definition new_object :: "lib_class \<Rightarrow> (string \<Rightarrow> lua_value option) \<Rightarrow> 'q library \<Rightarrow> nat \<times> 'q library" where
  "new_object c fs L =
    (li_next L, L\<lparr>li_objs := (li_objs L)(li_next L := Some \<lparr>ob_class = c, ob_fields = fs\<rparr>),
                  li_next := Suc (li_next L)\<rparr>)"

text \<open>An index of an object: its own fields, then the \<^verbatim>\<open>__index\<close> of its metatable, which is its class.\<close>

definition index_object :: "lib_object \<Rightarrow> string \<Rightarrow> (lua_value + class_field) option" where
  "index_object ob name =
    (case ob_fields ob name of
       Some x \<Rightarrow> Some (Inl x)
     | None \<Rightarrow>
         (case map_of (class_table (ob_class ob)) ''__index'' of
            Some (Class c) \<Rightarrow> map_option Inr (find_field c name)
          | _ \<Rightarrow> None))"

section \<open>Constructors\<close>

definition task_channel :: "lua_value \<Rightarrow> 'q library \<Rightarrow> (mlua_error + nat) \<times> 'q library" where
  "task_channel cap L =
    (case lib_channel cap (li_vm L) of
       (Inl e, v) \<Rightarrow> (Inl e, L\<lparr>li_vm := v\<rparr>)
     | (Inr ch, v) \<Rightarrow>
         let (u, L1) = new_userdata (UdChan ch) (L\<lparr>li_vm := v\<rparr>);
             (n, L2) = new_object ChannelClass [''_c'' \<mapsto> VUserData u] L1
         in (Inr n, L2))"

definition task_after :: "(rat \<Rightarrow> nat option) \<Rightarrow> f64 \<Rightarrow> 'q library \<Rightarrow> (mlua_error + nat) \<times> 'q library" where
  "task_after from_secs ms L =
    (case lib_after from_secs ms (li_vm L) of
       Inl e \<Rightarrow> (Inl e, L)
     | Inr timer \<Rightarrow>
         let (u, L1) = new_userdata (UdTimer timer) L;
             (n, L2) = new_object TimerClass [''_t'' \<mapsto> VUserData u] L1
         in (Inr n, L2))"

text \<open>The ticker, and the future of its host task.\<close>

definition task_ticker :: "clock_env \<Rightarrow> f64 \<Rightarrow> 'q library \<Rightarrow> (mlua_error + nat \<times> run_ticker) \<times> 'q library" where
  "task_ticker ck ms L =
    (case lib_ticker ck ms (li_vm L) of
       (Inl e, v) \<Rightarrow> (Inl e, L\<lparr>li_vm := v\<rparr>)
     | (Inr (ch, tk, fut), v) \<Rightarrow>
         let (c, L1) = new_userdata (UdChan ch) (L\<lparr>li_vm := v\<rparr>);
             (t, L2) = new_userdata UdOther L1;
             (n, L3) = new_object TickerClass [''_c'' \<mapsto> VUserData c, ''_tk'' \<mapsto> VUserData t]
                         (L2\<lparr>li_tickers := (li_tickers L2)(t := Some tk)\<rparr>)
         in (Inr (n, fut), L3))"

definition task_spawn :: "mlua_error option \<Rightarrow> 'q library \<Rightarrow> (mlua_error + nat) \<times> 'q library" where
  "task_spawn body L =
    (case spawn_raw body (li_vm L) of
       (Inl e, v) \<Rightarrow> (Inl e, L\<lparr>li_vm := v\<rparr>)
     | (Inr i, v) \<Rightarrow>
         let (n, L1) = new_object TaskClass [''_id'' \<mapsto> VInteger (int i)] (L\<lparr>li_vm := set_joined (li_next L) False v\<rparr>)
         in (Inr n, L1))"

definition wrap_channel :: "lua_value \<Rightarrow> bool \<Rightarrow> 'q library \<Rightarrow> nat \<times> 'q library" where
  "wrap_channel c to_host L = new_object (if to_host then SendChannelClass else ChannelClass) [''_c'' \<mapsto> c] L"

text \<open>How \<^verbatim>\<open>runtime::channel\<close> and \<^verbatim>\<open>runtime::channel_to_host\<close> call it.\<close>

definition host_wrap :: "nat \<Rightarrow> bool \<Rightarrow> 'q library \<Rightarrow> nat \<times> 'q library" where
  "host_wrap ch to_host L = (let (u, L1) = new_userdata (UdChan ch) L in wrap_channel (VUserData u) to_host L1)"

section \<open>Calls\<close>

text \<open>What a call returns, raises or waits for; a case is returned as the table it builds.\<close>

datatype call_out =
    Returns "mlua_error + lua_value list"
  | WaitsSend sending
  | WaitsRecv receiving
  | WaitsJoin join_future
  | WaitsTimer nat
  | Builds case_table

definition arg :: "lua_value list \<Rightarrow> nat \<Rightarrow> lua_value" where
  "arg args i = (if i < length args then args ! i else VNil)"

text \<open>\<^verbatim>\<open>self._c\<close> and the like as the argument of a host function: \<open>None\<close> is no userdata.\<close>

definition self_ud :: "lib_object \<Rightarrow> string \<Rightarrow> nat option" where
  "self_ud ob name = (case index_object ob name of Some (Inl (VUserData u)) \<Rightarrow> Some u | _ \<Rightarrow> None)"

definition self_id :: "lib_object \<Rightarrow> nat option" where
  "self_id ob = (case index_object ob ''_id'' of Some (Inl (VInteger i)) \<Rightarrow> if 0 \<le> i then Some (nat i) else None | _ \<Rightarrow> None)"

definition returned :: "('a \<Rightarrow> lua_value list) \<Rightarrow> (mlua_error + 'a) \<times> 'q vm \<Rightarrow> 'q library \<Rightarrow> call_out \<times> 'q library" where
  "returned f r L = (Returns (map_sum id f (fst r)), L\<lparr>li_vm := snd r\<rparr>)"

definition started :: "('a \<Rightarrow> call_out) \<Rightarrow> mlua_error + 'a \<Rightarrow> call_out" where
  "started f r = (case r of Inl e \<Rightarrow> Returns (Inl e) | Inr x \<Rightarrow> f x)"

text \<open>
  \<open>run_fn\<close> is the call of a library function on an object: \<open>n\<close> is its address and \<open>ob\<close> what it is.  \<open>mismatch\<close> is
  mlua's error for an argument of the wrong type, \<open>absent\<close> as in \<open>Isle_Channel_Lib\<close>.
\<close>

definition with_ud :: "mlua_error \<Rightarrow> nat option \<Rightarrow> (nat \<Rightarrow> call_out \<times> 'q library) \<Rightarrow> 'q library \<Rightarrow> call_out \<times> 'q library" where
  "with_ud mismatch u f L = (case u of None \<Rightarrow> (Returns (Inl mismatch), L) | Some x \<Rightarrow> f x)"

definition run_chan_fn ::
  "('t, 'q) mpsc_env \<Rightarrow> mlua_error \<Rightarrow> mlua_error \<Rightarrow> lib_fn \<Rightarrow> nat \<Rightarrow> lua_value list \<Rightarrow> 'q library \<Rightarrow> call_out \<times> 'q library" where
  "run_chan_fn env mismatch absent f c args L =
    (let uds = li_uds L; v = li_vm L
     in case f of
          ChanSend \<Rightarrow> (started WaitsSend (lib_send_start uds mismatch c (arg args 0) v), L)
        | ChanTrySend \<Rightarrow> returned (\<lambda>b. [VBoolean b]) (lib_try_send env uds mismatch c (arg args 0) v) L
        | ChanRecv \<Rightarrow> (started WaitsRecv (lib_recv_start uds mismatch c v), L)
        | ChanTryRecv \<Rightarrow> returned id (lib_try_recv env uds mismatch c v) L
        | ChanClose \<Rightarrow> returned (\<lambda>_. []) (lib_close env uds mismatch c v) L
        | ChanClosed \<Rightarrow> returned (\<lambda>b. [VBoolean b]) (lib_closed env uds mismatch c v, v) L
        | ChanLen \<Rightarrow> returned (\<lambda>k. [VInteger (int k)]) (lib_len env uds mismatch c v, v) L
        | ChanCap \<Rightarrow> returned (\<lambda>k. [VInteger (int k)]) (lib_cap env uds mismatch c v, v) L
        | ChanOn \<Rightarrow> (started Builds (chan_on absent c (arg args 0)), L)
        | ChanArmRecv \<Rightarrow> (Builds (chan_arm_recv absent c), L)
        | ChanOnSend \<Rightarrow> (started Builds (chan_on_send absent c (arg args 0) (arg args 1)), L)
        | ChanArmSend \<Rightarrow> (Builds (chan_arm_send absent c (arg args 0)), L)
        | _ \<Rightarrow> (Returns (Inl mismatch), L))"

definition run_task_fn ::
  "mlua_error \<Rightarrow> mlua_error \<Rightarrow> lib_fn \<Rightarrow> nat \<Rightarrow> nat \<Rightarrow> lua_value list \<Rightarrow> 'q library \<Rightarrow> call_out \<times> 'q library" where
  "run_task_fn mismatch absent f n i args L =
    (let v = li_vm L;
         armed = (\<lambda>r. (started Builds r, if isl r then L else snd (new_userdata (UdTask i) L)))
     in case f of
          TaskJoin \<Rightarrow> (case task_join_start n i v of (r, v1) \<Rightarrow> (started WaitsJoin r, L\<lparr>li_vm := v1\<rparr>))
        | TaskCancel \<Rightarrow> returned (\<lambda>_. []) (task_cancel n i v) L
        | TaskDone \<Rightarrow> returned (\<lambda>b. [VBoolean b]) (task_done n i v, v) L
        | TaskClose \<Rightarrow>
            (case task_close n i v of
               (r, v1) \<Rightarrow> (started (\<lambda>j. case j of None \<Rightarrow> Returns (Inr []) | Some fut \<Rightarrow> WaitsJoin fut) r, L\<lparr>li_vm := v1\<rparr>))
        | TaskGc \<Rightarrow> returned (\<lambda>_. []) (task_gc n i v) L
        | TaskOn \<Rightarrow> armed (task_on absent n i (li_next L) (arg args 0) v)
        | TaskArm \<Rightarrow> armed (task_arm_case absent n i (li_next L) VNil v)
        | _ \<Rightarrow> (Returns (Inl mismatch), L))"

definition ticker_stop ::
  "('t, 'q) mpsc_env \<Rightarrow> mlua_error \<Rightarrow> nat \<Rightarrow> 'q library \<Rightarrow> call_out \<times> 'q library" where
  "ticker_stop env mismatch t L =
    (case li_tickers L t of
       None \<Rightarrow> (Returns (Inl mismatch), L)
     | Some tk \<Rightarrow>
         let (tk1, v1) = lib_stop env tk (li_vm L)
         in (Returns (Inr []), L\<lparr>li_vm := v1, li_tickers := (li_tickers L)(t := Some tk1)\<rparr>))"

definition run_fn ::
  "('t, 'q) mpsc_env \<Rightarrow> mlua_error \<Rightarrow> mlua_error \<Rightarrow> lib_fn \<Rightarrow> nat \<Rightarrow> lib_object \<Rightarrow> lua_value list \<Rightarrow> 'q library \<Rightarrow>
    call_out \<times> 'q library" where
  "run_fn env mismatch absent f n ob args L =
    (let task = with_ud mismatch (self_id ob) (\<lambda>i. run_task_fn mismatch absent f n i args L) L;
         timer = (\<lambda>g. with_ud mismatch (self_ud ob ''_t'') (\<lambda>t. (g t, L)) L)
     in case f of
          TaskJoin \<Rightarrow> task | TaskCancel \<Rightarrow> task | TaskDone \<Rightarrow> task | TaskClose \<Rightarrow> task | TaskGc \<Rightarrow> task
        | TaskOn \<Rightarrow> task | TaskArm \<Rightarrow> task
        | TickerStop \<Rightarrow> with_ud mismatch (self_ud ob ''_tk'') (\<lambda>t. ticker_stop env mismatch t L) L
        | TimerWait \<Rightarrow>
            timer (\<lambda>t. case li_uds L t of UdTimer _ \<Rightarrow> WaitsTimer t | _ \<Rightarrow> Returns (Inl mismatch))
        | TimerOn \<Rightarrow> timer (\<lambda>t. started Builds (timer_on absent t (arg args 0)))
        | TimerArm \<Rightarrow> timer (\<lambda>t. Builds (timer_arm absent t))
        | Refuse meth \<Rightarrow> (Returns (Inl (refuse meth)), L)
        | _ \<Rightarrow> with_ud mismatch (self_ud ob ''_c'') (\<lambda>c. run_chan_fn env mismatch absent f c args L) L)"

text \<open>\<^verbatim>\<open>obj:name(...)\<close>; \<open>None\<close> is Lua's own error, a call of a field that is no function.\<close>

definition object_call ::
  "('t, 'q) mpsc_env \<Rightarrow> mlua_error \<Rightarrow> mlua_error \<Rightarrow> nat \<Rightarrow> string \<Rightarrow> lua_value list \<Rightarrow> 'q library \<Rightarrow>
    (call_out \<times> 'q library) option" where
  "object_call env mismatch absent n name args L =
    (case li_objs L n of
       None \<Rightarrow> None
     | Some ob \<Rightarrow>
         (case index_object ob name of
            Some (Inr (Fn f)) \<Rightarrow> Some (run_fn env mismatch absent f n ob args L)
          | _ \<Rightarrow> None))"

end
