(* ===== verification/Isle_Lib_Classes_Props.thy ===== *)
theory Isle_Lib_Classes_Props
  imports Isle_Lib_Classes Isle_Channel_Lib_Props
begin

text \<open>
  The objects of the Lua library are well typed: over every history of constructors, method calls, writes to fields and
  calls on anything else, an object whose private fields Lua leaves alone keeps its own userdata there, of the kind its
  host functions take, and a class refuses what it has to.
\<close>

section \<open>Lookup\<close>

text \<open>The functions that a class's objects can be asked for.\<close>

definition chan_fns :: "lib_fn set" where
  "chan_fns = {ChanSend, ChanTrySend, ChanRecv, ChanTryRecv, ChanClose, ChanClosed, ChanLen, ChanCap, ChanOn, ChanArmRecv,
     ChanOnSend, ChanArmSend}"

definition task_fns :: "lib_fn set" where
  "task_fns = {TaskJoin, TaskCancel, TaskDone, TaskClose, TaskGc, TaskOn, TaskArm}"

fun serves :: "lib_class \<Rightarrow> lib_fn \<Rightarrow> bool" where
  "serves TaskClass f = (f \<in> task_fns)"
| "serves ChannelClass f = (f \<in> chan_fns)"
| "serves TickerClass f = (f = TickerStop \<or> f \<in> chan_fns)"
| "serves TimerClass f = (f \<in> {TimerWait, TimerOn, TimerArm})"
| "serves SendChannelClass f = ((\<exists>meth. f = Refuse meth) \<or> f \<in> chan_fns)"

lemmas class_tables = task_table_def channel_table_def ticker_table_def timer_table_def send_channel_table_def

lemma find_own: "class_parent c = None \<Longrightarrow> find_field c name = map_of (class_table c) name"
  by (simp add: find_field.simps [of c] split: option.split)

lemma find_inherited:
  assumes "class_parent c = Some p"
  shows "find_field c name = (case map_of (class_table c) name of Some x \<Rightarrow> Some x | None \<Rightarrow> find_field p name)"
  using assms by (simp add: find_field.simps [of c] split: option.split)

lemma find_serves:
  assumes "find_field c name = Some (Fn f)"
  shows "serves c f"
proof -
  have chan: "f \<in> chan_fns" if "find_field ChannelClass name = Some (Fn f)"
    using map_of_SomeD [of channel_table name "Fn f"] that by (auto simp: find_own chan_fns_def class_tables)
  have own: "(name, Fn f) \<in> set (class_table c) \<or> class_parent c = Some ChannelClass \<and> find_field ChannelClass name = Some (Fn f)"
    using assms map_of_SomeD [of "class_table c" name "Fn f"]
    by (cases "class_parent c"; cases c) (auto simp: find_own find_inherited split: option.splits)
  then show ?thesis using chan by (cases c) (auto simp: class_tables chan_fns_def task_fns_def)
qed

lemma own_index: "map_of (class_table c) ''__index'' = Some (Class c)"
  by (cases c) (simp_all add: class_tables)

lemma index_serves:
  assumes "index_object ob name = Some (Inr (Fn f))"
  shows "serves (ob_class ob) f"
  using assms find_serves [of "ob_class ob" name f] by (auto simp: index_object_def own_index split: option.splits)

section \<open>The invariant\<close>

fun object_ok :: "'q library \<Rightarrow> lib_class \<Rightarrow> (string \<Rightarrow> lua_value option) \<Rightarrow> bool" where
  "object_ok L TaskClass fs = (\<exists>i. fs = [''_id'' \<mapsto> VInteger (int i)])"
| "object_ok L TimerClass fs = (\<exists>u t. fs = [''_t'' \<mapsto> VUserData u] \<and> u < li_next L \<and> li_uds L u = UdTimer t)"
| "object_ok L TickerClass fs =
    (\<exists>u t ch. fs = [''_c'' \<mapsto> VUserData u, ''_tk'' \<mapsto> VUserData t] \<and> u < li_next L \<and> t < li_next L \<and>
      li_uds L u = UdChan ch \<and> li_tickers L t \<noteq> None)"
| "object_ok L c fs = (\<exists>u ch. fs = [''_c'' \<mapsto> VUserData u] \<and> u < li_next L \<and> li_uds L u = UdChan ch)"

lemma object_okI:
  "u < li_next L \<Longrightarrow> li_uds L u = UdChan ch \<Longrightarrow> c = ChannelClass \<or> c = SendChannelClass \<Longrightarrow>
    object_ok L c [''_c'' \<mapsto> VUserData u]"
  "u < li_next L \<Longrightarrow> li_uds L u = UdTimer t \<Longrightarrow> object_ok L TimerClass [''_t'' \<mapsto> VUserData u]"
  "object_ok L TaskClass [''_id'' \<mapsto> VInteger (int i)]"
  unfolding object_ok.simps by (elim disjE; simp only: object_ok.simps; blast) blast+

text \<open>The private fields of an object, and what each holds.\<close>

fun private_fields :: "lib_class \<Rightarrow> string list" where
  "private_fields TaskClass = [''_id'']"
| "private_fields TimerClass = [''_t'']"
| "private_fields TickerClass = [''_c'', ''_tk'']"
| "private_fields _ = [''_c'']"

definition field_ok :: "'q library \<Rightarrow> lib_class \<Rightarrow> string \<Rightarrow> lua_value option \<Rightarrow> bool" where
  "field_ok L c name x \<longleftrightarrow>
    (if name \<notin> set (private_fields c) then x = None
     else if name = ''_id'' then \<exists>i. x = Some (VInteger (int i))
     else \<exists>u. x = Some (VUserData u) \<and> u < li_next L \<and>
       (if name = ''_t'' then \<exists>t. li_uds L u = UdTimer t
        else if name = ''_tk'' then li_tickers L u \<noteq> None
        else \<exists>ch. li_uds L u = UdChan ch))"

lemma object_fields:
  assumes "object_ok L c fs"
  shows "field_ok L c name (fs name)"
  using assms by (cases c) (auto simp: field_ok_def)

text \<open>\<open>W\<close>: the fields that Lua wrote to.\<close>

definition library_ok :: "(nat \<times> string) set \<Rightarrow> 'q library \<Rightarrow> bool" where
  "library_ok W L \<longleftrightarrow>
    (\<forall>n ob. li_objs L n = Some ob \<longrightarrow>
      n < li_next L \<and> (\<forall>name. (n, name) \<notin> W \<longrightarrow> field_ok L (ob_class ob) name (ob_fields ob name)))"

lemma library_okD:
  assumes "library_ok W L" and "li_objs L n = Some ob"
  shows "n < li_next L" and "(n, name) \<notin> W \<Longrightarrow> field_ok L (ob_class ob) name (ob_fields ob name)"
  using assms unfolding library_ok_def by blast+

text \<open>A step that leaves what exists as it is.\<close>

definition extends :: "'q library \<Rightarrow> 'q library \<Rightarrow> bool" where
  "extends L L' \<longleftrightarrow>
    li_next L \<le> li_next L' \<and>
    (\<forall>u < li_next L. li_uds L' u = li_uds L u \<and> (li_tickers L u \<noteq> None \<longrightarrow> li_tickers L' u \<noteq> None))"

lemma extends_refl [simp]: "extends L L"
  by (simp add: extends_def)

lemma extends_vm [simp]: "extends L (L\<lparr>li_vm := v\<rparr>)"
  by (simp add: extends_def)

lemma extends_trans: "extends A B \<Longrightarrow> extends B C \<Longrightarrow> extends A C"
  by (simp add: extends_def)

lemma extendsD:
  assumes "extends L L'" and "u < li_next L"
  shows "u < li_next L'" and "li_uds L' u = li_uds L u" and "li_tickers L u \<noteq> None \<Longrightarrow> li_tickers L' u \<noteq> None"
  using assms unfolding extends_def by auto

lemma field_ok_extends:
  assumes "field_ok L c name x" and e: "extends L L'"
  shows "field_ok L' c name x"
  using assms(1) extendsD [OF e] by (fastforce simp: field_ok_def split: if_splits)

lemma library_ok_extends:
  assumes ok: "library_ok W L" and e: "extends L L'" and objs: "li_objs L' = li_objs L"
  shows "library_ok W L'"
  unfolding library_ok_def objs
  using library_okD [OF ok] extendsD(1) [OF e] field_ok_extends [OF _ e] by blast

lemma new_userdata_ok:
  assumes "new_userdata ud L = (u, L')"
  shows "u = li_next L" and "extends L L'" and "li_objs L' = li_objs L" and "li_uds L' u = ud" and "li_next L' = Suc u"
    and "li_tickers L' = li_tickers L"
  using assms by (auto simp: new_userdata_def extends_def)

lemma new_object_ok:
  assumes ok: "library_ok W L" and fs: "object_ok L c fs" and new: "new_object c fs L = (n, L')"
  shows "library_ok W L'"
proof -
  have L': "L' = L\<lparr>li_objs := (li_objs L)(li_next L := Some \<lparr>ob_class = c, ob_fields = fs\<rparr>), li_next := Suc (li_next L)\<rparr>"
    using new by (auto simp: new_object_def)
  have ext: "extends L L'" by (simp add: L' extends_def)
  show ?thesis unfolding library_ok_def
  proof (intro allI impI)
    fix m ob assume "li_objs L' m = Some ob"
    then have "m = li_next L \<and> ob = \<lparr>ob_class = c, ob_fields = fs\<rparr> \<or> li_objs L m = Some ob" by (auto simp: L' split: if_splits)
    then consider "m = li_next L" "ob = \<lparr>ob_class = c, ob_fields = fs\<rparr>" | "li_objs L m = Some ob" by blast
    then show "m < li_next L' \<and> (\<forall>name. (m, name) \<notin> W \<longrightarrow> field_ok L' (ob_class ob) name (ob_fields ob name))"
    proof cases
      case 1
      then show ?thesis using field_ok_extends [OF object_fields [OF fs] ext] by (simp add: L')
    next
      case 2
      note D = library_okD [OF ok 2]
      show ?thesis using D(1) field_ok_extends [OF D(2) ext] by (simp add: L')
    qed
  qed
qed

section \<open>Histories\<close>

text \<open>
  \<open>WrapChannel\<close>: the host wraps one of its channels.  \<open>SetField\<close>: Lua writes any field of an object (\<open>None\<close> is nil; \<^verbatim>\<open>_joined\<close> is
  \<open>vm_joined\<close>).  \<open>CallOn\<close>: Lua calls any library function with any table as self, at \<open>n\<close> with the class and fields \<open>ob\<close>,
  such as \<^verbatim>\<open>ch.send(timer, 1)\<close>.  \<open>OnVm\<close>: whatever else happens to the VM.
\<close>

datatype 'q lib_op =
    NewChannel lua_value
  | NewTimer f64
  | NewTicker f64
  | NewTask "mlua_error option"
  | WrapChannel nat bool
  | CallMethod nat string "lua_value list"
  | CallOn lib_fn nat lib_object "lua_value list"
  | SetField nat string "lua_value option"
  | OnVm "'q vm \<Rightarrow> 'q vm"

record ('t, 'q) lib_env =
  le_chan :: "('t, 'q) mpsc_env"
  le_clock :: clock_env
  le_mismatch :: mlua_error
  le_absent :: mlua_error

fun lib_exec :: "('t, 'q) lib_env \<Rightarrow> 'q lib_op \<Rightarrow> 'q library \<Rightarrow> 'q library" where
  "lib_exec e (NewChannel cap) L = snd (task_channel cap L)"
| "lib_exec e (NewTimer ms) L = snd (task_after (ck_from_secs (le_clock e)) ms L)"
| "lib_exec e (NewTicker ms) L = snd (task_ticker (le_clock e) ms L)"
| "lib_exec e (NewTask body) L = snd (task_spawn body L)"
| "lib_exec e (WrapChannel ch to_host) L = snd (host_wrap ch to_host L)"
| "lib_exec e (CallMethod n name args) L =
    (case object_call (le_chan e) (le_mismatch e) (le_absent e) n name args L of None \<Rightarrow> L | Some (out, L') \<Rightarrow> L')"
| "lib_exec e (CallOn f n ob args) L = snd (run_fn (le_chan e) (le_mismatch e) (le_absent e) f n ob args L)"
| "lib_exec e (SetField n name x) L =
    (case li_objs L n of
       None \<Rightarrow> L
     | Some ob \<Rightarrow>
         if name = ''_joined'' then L\<lparr>li_vm := set_joined n (x \<noteq> None \<and> x \<noteq> Some (VBoolean False)) (li_vm L)\<rparr>
         else L\<lparr>li_objs := (li_objs L)(n \<mapsto> ob\<lparr>ob_fields := (ob_fields ob)(name := x)\<rparr>)\<rparr>)"
| "lib_exec e (OnVm f) L = L\<lparr>li_vm := f (li_vm L)\<rparr>"

definition library_start :: "'q vm \<Rightarrow> 'q library" where
  "library_start v =
    \<lparr>li_vm = v, li_uds = (\<lambda>_. UdOther), li_tickers = (\<lambda>_. None), li_objs = (\<lambda>_. None), li_next = 0\<rparr>"

lemma library_ok_vm: "library_ok W L \<Longrightarrow> library_ok W (L\<lparr>li_vm := v\<rparr>)"
  by (rule library_ok_extends) simp_all

lemma task_channel_ok:
  assumes ok: "library_ok W L"
  shows "library_ok W (snd (task_channel cap L))"
proof -
  obtain r v where r: "lib_channel cap (li_vm L) = (r, v)" by fastforce
  show ?thesis
  proof (cases r)
    case (Inr ch)
    obtain u L1 where u: "new_userdata (UdChan ch) (L\<lparr>li_vm := v\<rparr>) = (u, L1)" by fastforce
    note U = new_userdata_ok [OF u]
    obtain n L2 where n: "new_object ChannelClass [''_c'' \<mapsto> VUserData u] L1 = (n, L2)" by fastforce
    have "library_ok W L1" by (rule library_ok_extends [OF library_ok_vm [OF ok] U(2,3)])
    moreover have "object_ok L1 ChannelClass [''_c'' \<mapsto> VUserData u]" using U(4,5) by (intro object_okI(1)) simp_all
    ultimately have "library_ok W L2" by (rule new_object_ok [OF _ _ n])
    then show ?thesis using r Inr u n by (simp add: task_channel_def)
  qed (simp add: task_channel_def r library_ok_vm ok)
qed

lemma task_after_ok:
  assumes ok: "library_ok W L"
  shows "library_ok W (snd (task_after from_secs ms L))"
proof (cases "lib_after from_secs ms (li_vm L)")
  case (Inr t)
  obtain u L1 where u: "new_userdata (UdTimer t) L = (u, L1)" by fastforce
  note U = new_userdata_ok [OF u]
  obtain n L2 where n: "new_object TimerClass [''_t'' \<mapsto> VUserData u] L1 = (n, L2)" by fastforce
  have "library_ok W L1" by (rule library_ok_extends [OF ok U(2,3)])
  moreover have "object_ok L1 TimerClass [''_t'' \<mapsto> VUserData u]" using U(4,5) by (intro object_okI(2)) simp_all
  ultimately have "library_ok W L2" by (rule new_object_ok [OF _ _ n])
  then show ?thesis using Inr u n by (simp add: task_after_def)
qed (simp add: task_after_def ok)

lemma task_ticker_ok:
  assumes ok: "library_ok W L"
  shows "library_ok W (snd (task_ticker ck ms L))"
proof -
  obtain r v where r: "lib_ticker ck ms (li_vm L) = (r, v)" by fastforce
  show ?thesis
  proof (cases r)
    case (Inr x)
    obtain ch tk fut where x: "x = (ch, tk, fut)" using prod_cases3 by blast
    obtain c L1 where c: "new_userdata (UdChan ch) (L\<lparr>li_vm := v\<rparr>) = (c, L1)" by fastforce
    note C = new_userdata_ok [OF c]
    obtain t L2 where t: "new_userdata UdOther L1 = (t, L2)" by fastforce
    note T = new_userdata_ok [OF t]
    let ?L3 = "L2\<lparr>li_tickers := (li_tickers L2)(t := Some tk)\<rparr>"
    obtain n L4 where n: "new_object TickerClass [''_c'' \<mapsto> VUserData c, ''_tk'' \<mapsto> VUserData t] ?L3 = (n, L4)" by fastforce
    have "extends L2 ?L3" by (simp add: extends_def)
    then have "library_ok W ?L3"
      by (rule library_ok_extends [OF library_ok_extends [OF library_ok_extends [OF library_ok_vm [OF ok] C(2,3)] T(2,3)]]) simp
    moreover have "li_uds L2 c = UdChan ch" using extendsD(2) [OF T(2), of c] C(4,5) by simp
    then have "object_ok ?L3 TickerClass [''_c'' \<mapsto> VUserData c, ''_tk'' \<mapsto> VUserData t]"
      unfolding object_ok.simps using C(5) T(1,5)
      by (intro exI [of _ c] exI [of _ t] exI [of _ ch]) simp
    ultimately have "library_ok W L4" by (rule new_object_ok [OF _ _ n])
    then show ?thesis using r Inr x c t n by (simp add: task_ticker_def)
  qed (simp add: task_ticker_def r library_ok_vm ok)
qed

lemma task_spawn_ok:
  assumes ok: "library_ok W L"
  shows "library_ok W (snd (task_spawn body L))"
proof -
  obtain r v where r: "spawn_raw body (li_vm L) = (r, v)" by fastforce
  show ?thesis
  proof (cases r)
    case (Inr i)
    let ?L1 = "L\<lparr>li_vm := set_joined (li_next L) False v\<rparr>"
    obtain n L2 where n: "new_object TaskClass [''_id'' \<mapsto> VInteger (int i)] ?L1 = (n, L2)" by fastforce
    from new_object_ok [OF library_ok_vm [OF ok] object_okI(3) n] show ?thesis using r Inr n by (simp add: task_spawn_def)
  qed (simp add: task_spawn_def r library_ok_vm ok)
qed

lemma host_wrap_ok:
  assumes ok: "library_ok W L"
  shows "library_ok W (snd (host_wrap ch to_host L))"
proof -
  obtain u L1 where u: "new_userdata (UdChan ch) L = (u, L1)" by fastforce
  note U = new_userdata_ok [OF u]
  let ?c = "if to_host then SendChannelClass else ChannelClass"
  obtain n L2 where n: "new_object ?c [''_c'' \<mapsto> VUserData u] L1 = (n, L2)" by fastforce
  have "library_ok W L1" by (rule library_ok_extends [OF ok U(2,3)])
  moreover have "object_ok L1 ?c [''_c'' \<mapsto> VUserData u]" using U(4,5) by (intro object_okI(1)) simp_all
  ultimately have "library_ok W L2" by (rule new_object_ok [OF _ _ n])
  then show ?thesis using u n by (simp add: host_wrap_def wrap_channel_def)
qed

section \<open>Calls\<close>

lemma run_chan_fn_step: "extends L (snd (run_chan_fn env mm ab f c args L)) \<and> li_objs (snd (run_chan_fn env mm ab f c args L)) = li_objs L"
  by (cases f) (simp_all add: run_chan_fn_def returned_def Let_def)

lemma run_task_fn_step: "extends L (snd (run_task_fn mm ab f n i args L)) \<and> li_objs (snd (run_task_fn mm ab f n i args L)) = li_objs L"
  using new_userdata_ok(2,3) [of "UdTask i" L "fst (new_userdata (UdTask i) L)" "snd (new_userdata (UdTask i) L)"]
  by (cases f) (simp_all add: run_task_fn_def returned_def split_beta Let_def)

lemma ticker_stop_step: "extends L (snd (ticker_stop env mm t L)) \<and> li_objs (snd (ticker_stop env mm t L)) = li_objs L"
  by (auto simp: ticker_stop_def split_beta Let_def extends_def split: option.split)

lemma run_fn_step: "extends L (snd (run_fn env mm ab f n ob args L)) \<and> li_objs (snd (run_fn env mm ab f n ob args L)) = li_objs L"
  by (cases f) (simp_all add: run_fn_def with_ud_def Let_def run_chan_fn_step run_task_fn_step ticker_stop_step split: option.split)

lemma object_call_ok:
  assumes "library_ok W L" and "object_call env mm ab n name args L = Some (out, L')"
  shows "library_ok W L'"
proof -
  obtain ob f where "run_fn env mm ab f n ob args L = (out, L')"
    using assms(2) by (auto simp: object_call_def split: option.splits sum.splits class_field.splits)
  then show ?thesis using library_ok_extends [OF assms(1)] run_fn_step [of L env mm ab f n ob args] by simp
qed

text \<open>A history with the fields it wrote.\<close>

fun writes :: "'q lib_op \<Rightarrow> (nat \<times> string) set" where
  "writes (SetField n name x) = {(n, name)}"
| "writes _ = {}"

definition lib_step :: "('t, 'q) lib_env \<Rightarrow> 'q lib_op \<Rightarrow> (nat \<times> string) set \<times> 'q library \<Rightarrow> (nat \<times> string) set \<times> 'q library" where
  "lib_step e op s = (writes op \<union> fst s, lib_exec e op (snd s))"

lemma set_field_ok:
  assumes "library_ok W L"
  shows "library_ok (insert (n, name) W) (lib_exec e (SetField n name x) L)"
proof (cases "li_objs L n")
  case None
  then show ?thesis using assms by (simp add: library_ok_def)
next
  case (Some ob)
  let ?L = "L\<lparr>li_objs := (li_objs L)(n \<mapsto> ob\<lparr>ob_fields := (ob_fields ob)(name := x)\<rparr>)\<rparr>"
  have same: "field_ok ?L c fld y = field_ok L c fld y" for c fld y by (simp add: field_ok_def)
  have "library_ok (insert (n, name) W) ?L"
    using library_okD [OF assms] Some by (auto simp: library_ok_def same split: if_splits)
  moreover have "library_ok (insert (n, name) W) L" using assms by (simp add: library_ok_def)
  note library_ok_vm [OF this]
  ultimately show ?thesis using Some by (cases "name = ''_joined''") simp_all
qed

lemma lib_exec_ok:
  assumes "library_ok W L"
  shows "library_ok (writes op \<union> W) (lib_exec e op L)"
proof (cases op)
  case (SetField n name x)
  then show ?thesis using set_field_ok [OF assms, of n name e x] by (simp only: writes.simps insert_is_Un [symmetric])
next
  case (CallOn f n ob args)
  have "library_ok W (snd (run_fn (le_chan e) (le_mismatch e) (le_absent e) f n ob args L))"
    using run_fn_step by (intro library_ok_extends [OF assms]) blast+
  then show ?thesis using CallOn by simp
qed (use assms in \<open>auto simp: task_channel_ok task_after_ok task_ticker_ok task_spawn_ok host_wrap_ok library_ok_vm
      intro: object_call_ok split: option.split\<close>)

interpretation library_machine: machine "lib_step e" "\<lambda>s. library_ok (fst s) (snd s)" for e :: "('t, 'q) lib_env"
  by unfold_locales (simp add: lib_step_def lib_exec_ok)

lemma lib_step_run: "fold (lib_step e) ops (W, L) = (\<Union> (writes ` set ops) \<union> W, fold (lib_exec e) ops L)"
  by (induction ops arbitrary: W L) (auto simp: lib_step_def)

lemma library_ok_run: "library_ok (\<Union> (writes ` set ops)) (fold (lib_exec e) ops (library_start v))"
  using library_machine.ok_run [of "({}, library_start v)" e ops]
  by (simp add: lib_step_run library_ok_def library_start_def)

lemma writes_iff: "(n, name) \<in> \<Union> (writes ` set ops) \<longleftrightarrow> (\<exists>x. SetField n name x \<in> set ops)"
proof
  assume "(n, name) \<in> \<Union> (writes ` set ops)"
  then obtain op where "op \<in> set ops" "(n, name) \<in> writes op" by blast
  moreover from this(2) obtain x where "op = SetField n name x" by (cases op) auto
  ultimately show "\<exists>x. SetField n name x \<in> set ops" by blast
qed force

section \<open>No call fails because of what its object is\<close>

text \<open>The private fields of an object are what its class says.\<close>

definition well_typed :: "'q library \<Rightarrow> lib_object \<Rightarrow> bool" where
  "well_typed L ob \<longleftrightarrow> (\<forall>name \<in> set (private_fields (ob_class ob)). field_ok L (ob_class ob) name (ob_fields ob name))"

lemma own_channel:
  assumes "well_typed L ob" and "ob_class ob \<in> {ChannelClass, TickerClass, SendChannelClass}"
  shows "\<exists>u ch. self_ud ob ''_c'' = Some u \<and> li_uds L u = UdChan ch"
proof -
  obtain u ch where "ob_fields ob ''_c'' = Some (VUserData u)" "li_uds L u = UdChan ch"
    using assms by (cases "ob_class ob") (auto simp: well_typed_def field_ok_def)
  then show ?thesis by (auto simp: self_ud_def index_object_def)
qed

lemma run_chan_fn_typed:
  assumes "li_uds L c = UdChan ch" and "f \<in> chan_fns"
  shows "run_chan_fn env mm ab f c args L = run_chan_fn env mm' ab f c args L"
  using assms
  by (auto simp: chan_fns_def run_chan_fn_def lib_send_start_def lib_try_send_def lib_recv_start_def lib_try_recv_def
      lib_close_def lib_closed_def lib_len_def lib_cap_def sendable_chan_def receivable_chan_def chan_of_def Let_def)

lemma run_task_fn_typed: "f \<in> task_fns \<Longrightarrow> run_task_fn mm ab f n i args L = run_task_fn mm' ab f n i args L"
  by (auto simp: task_fns_def run_task_fn_def)

lemma run_fn_typed:
  assumes ok: "well_typed L ob" and s: "serves (ob_class ob) f"
  shows "run_fn env mm ab f n ob args L = run_fn env mm' ab f n ob args L"
proof -
  have chan: ?thesis if c: "ob_class ob \<in> {ChannelClass, TickerClass, SendChannelClass}" and f: "f \<in> chan_fns"
  proof -
    obtain u ch where u: "self_ud ob ''_c'' = Some u" "li_uds L u = UdChan ch"
      using own_channel [OF ok c] by auto
    then show ?thesis using f run_chan_fn_typed [OF u(2) f, of env mm ab args mm']
      by (auto simp: chan_fns_def run_fn_def with_ud_def Let_def)
  qed
  show ?thesis
  proof (cases "ob_class ob")
    case TaskClass
    then obtain i where "ob_fields ob ''_id'' = Some (VInteger (int i))" using ok by (auto simp: well_typed_def field_ok_def)
    then have "self_id ob = Some i" by (simp add: self_id_def index_object_def)
    moreover have "f \<in> task_fns" using s TaskClass by simp
    ultimately show ?thesis using run_task_fn_typed [of f mm ab n i args L mm']
      by (auto simp: task_fns_def run_fn_def with_ud_def Let_def)
  next
    case TimerClass
    then obtain u t where "ob_fields ob ''_t'' = Some (VUserData u)" "li_uds L u = UdTimer t"
      using ok by (auto simp: well_typed_def field_ok_def)
    then have "self_ud ob ''_t'' = Some u" "li_uds L u = UdTimer t" by (simp_all add: self_ud_def index_object_def)
    then show ?thesis using s TimerClass by (auto simp: run_fn_def with_ud_def Let_def)
  next
    case TickerClass
    then obtain t tk where "ob_fields ob ''_tk'' = Some (VUserData t)" "li_tickers L t = Some tk"
      using ok by (auto simp: well_typed_def field_ok_def)
    then have "self_ud ob ''_tk'' = Some t" "li_tickers L t = Some tk" by (simp_all add: self_ud_def index_object_def)
    then show ?thesis using s TickerClass chan by (auto simp: run_fn_def with_ud_def ticker_stop_def Let_def)
  qed (use s chan in \<open>auto simp: run_fn_def\<close>)
qed

text \<open>What a subclass does not define it has from \<^verbatim>\<open>Channel\<close>, on the same userdata.\<close>

lemma inherits:
  assumes "class_parent (ob_class ob) = Some p" and "map_of (class_table (ob_class ob)) name = None"
  shows "index_object ob name = index_object (ob\<lparr>ob_class := p\<rparr>) name"
  using assms(2) by (cases "ob_fields ob name") (simp_all add: index_object_def own_index find_inherited [OF assms(1)])

text \<open>C36: The objects of the library are typed.  Take any history of its constructors and method calls, of library functions
  called on anything else, of writes of Lua to any field of any object, and of whatever else happens to the VM; the
  classes themselves stay as they are.  An object to whose private fields (\<^verbatim>\<open>_c\<close>, \<^verbatim>\<open>_t\<close>, \<^verbatim>\<open>_tk\<close>, \<^verbatim>\<open>_id\<close>) Lua did not write
  still has in them what its class says: its own userdata, of the kind its host functions take.  So a method called on
  it never ends in mlua's error for a wrong type: the outcome does not depend on that error.  Unless Lua gave it a field of
  that name, a channel to the host refuses to receive, by each of the four methods and leaving everything as it is.  And
  what a ticker or a channel to the host does not define itself is what a plain channel does.\<close>

theorem library_objects_are_typed:
  assumes "L = fold (lib_exec e) ops (library_start v)" and "li_objs L n = Some ob"
    and "\<forall>fld \<in> set (private_fields (ob_class ob)). \<forall>x. SetField n fld x \<notin> set ops"
  shows "(\<forall>fld \<in> set (private_fields (ob_class ob)). field_ok L (ob_class ob) fld (ob_fields ob fld)) \<and>
    object_call env mm ab n name args L = object_call env mm' ab n name args L \<and>
    (ob_class ob = SendChannelClass \<and> name \<in> {''recv'', ''try_recv'', ''on'', ''arm_recv''} \<and>
        (\<forall>x. SetField n name x \<notin> set ops) \<longrightarrow>
      object_call env mm ab n name args L = Some (Returns (Inl (refuse (''ch:'' @ name))), L)) \<and>
    (class_parent (ob_class ob) = Some p \<and> name \<notin> fst ` set (class_table (ob_class ob)) \<longrightarrow>
      index_object ob name = index_object (ob\<lparr>ob_class := p\<rparr>) name)"
proof -
  have field: "field_ok L (ob_class ob) fld (ob_fields ob fld)" if "\<forall>x. SetField n fld x \<notin> set ops" for fld
    using library_okD(2) [OF library_ok_run [of ops e v] assms(2) [unfolded assms(1)], of fld] that
    unfolding writes_iff assms(1) [symmetric] by blast
  have ok: "well_typed L ob" unfolding well_typed_def using field assms(3) by blast
  show ?thesis
  proof (intro conjI impI)
    show "\<forall>fld \<in> set (private_fields (ob_class ob)). field_ok L (ob_class ob) fld (ob_fields ob fld)"
      using ok by (simp add: well_typed_def)
  next
    show "object_call env mm ab n name args L = object_call env mm' ab n name args L"
      using run_fn_typed [OF ok index_serves] assms(2)
      by (auto simp: object_call_def split: option.split sum.split class_field.split)
  next
    assume a: "ob_class ob = SendChannelClass \<and> name \<in> {''recv'', ''try_recv'', ''on'', ''arm_recv''} \<and>
      (\<forall>x. SetField n name x \<notin> set ops)"
    then have "ob_fields ob name = None" using field [of name] by (auto simp: field_ok_def)
    then show "object_call env mm ab n name args L = Some (Returns (Inl (refuse (''ch:'' @ name))), L)"
      using assms(2) a
      by (auto simp: object_call_def index_object_def own_index find_inherited [of SendChannelClass] send_channel_table_def
          run_fn_def)
  next
    assume "class_parent (ob_class ob) = Some p \<and> name \<notin> fst ` set (class_table (ob_class ob))"
    then show "index_object ob name = index_object (ob\<lparr>ob_class := p\<rparr>) name"
      by (intro inherits) (simp_all add: map_of_eq_None_iff)
  qed
qed

text \<open>A channel of Lua's, which Lua breaks, and one to the host; and a channel function called on what is no channel.\<close>

definition demo_lib :: "(unit, unit) lib_env" where
  "demo_lib = \<lparr>le_chan = no_env, le_clock = demo_clock, le_mismatch = RuntimeError ''userdata'', le_absent = RuntimeError ''absent''\<rparr>"

definition demo_lib_ops :: "unit lib_op list" where
  "demo_lib_ops =
    [NewChannel (VInteger 1), NewTicker (FFin 5), WrapChannel 3 True, CallMethod 1 ''try_send'' [VInteger 5],
     SetField 1 ''_c'' (Some (VInteger 5)), SetField 3 ''send'' None,
     CallOn ChanSend 9 \<lparr>ob_class = TimerClass, ob_fields = [''_t'' \<mapsto> VUserData 0]\<rparr> []]"

definition demo_library :: "unit library" where
  "demo_library = fold (lib_exec demo_lib) demo_lib_ops (library_start demo_vm)"

lemma library_objects_are_typed_witness:
  "map_option ob_class (li_objs demo_library 3) = Some SendChannelClass \<and>
    object_call no_env (RuntimeError ''x'') (RuntimeError ''y'') 3 ''arm_recv'' [] demo_library =
      Some (Returns (Inl (refuse ''ch:arm_recv'')), demo_library)"
proof -
  have c: "map_option ob_class (li_objs demo_library 3) = Some SendChannelClass" by code_simp
  then obtain ob where ob: "li_objs demo_library 3 = Some ob" "ob_class ob = SendChannelClass" by auto
  have own: "\<forall>fld \<in> set (private_fields (ob_class ob)). \<forall>x. SetField 3 fld x \<notin> set demo_lib_ops"
    and arm: "\<forall>x. SetField 3 ''arm_recv'' x \<notin> set demo_lib_ops"
    by (simp_all add: demo_lib_ops_def ob(2))
  from library_objects_are_typed [OF demo_library_def ob(1) own, of no_env "RuntimeError ''x''" "RuntimeError ''y''" "''arm_recv''" "[]"]
    ob(2) c arm
  show ?thesis by simp
qed

end
