(* ===== verification/Isle_Protect.thy ===== *)
theory Isle_Protect
  imports Isle_Value
begin

text \<open>
  The protected call of \<^verbatim>\<open>src/protect.rs\<close>: the message handler, \<open>take\<close>, the call of a sync request, the
  wrapper of a coroutine, and the error built from a raised value.

  The state is what \<^verbatim>\<open>install\<close> keeps: the captured parts and the registry table of tracebacks, by thread
  (\<open>None\<close>: the registry field is not a table).  Lua is a parameter: what \<^verbatim>\<open>xpcall\<close> returned and did to the
  table meanwhile, \<^verbatim>\<open>tostring\<close>, tracebacks, and whether a C function found stack.  Two error userdata
  with the same contents count as the same value.
\<close>

section \<open>State\<close>

type_synonym traces = "nat \<Rightarrow> (lua_value \<times> string) option"

record protect =
  pr_parts :: "(nat \<times> nat \<times> nat) option"
  pr_traces :: "traces option"

definition protect_init :: protect where
  "protect_init = \<lparr>pr_parts = None, pr_traces = None\<rparr>"

text \<open>\<^verbatim>\<open>lua_rawequal\<close>: numbers by their value, not-a-number equal to nothing.\<close>

fun as_number :: "lua_value \<Rightarrow> f64 option" where
  "as_number (VInteger i) = Some (FFin (of_int i))"
| "as_number (VNumber x) = Some x"
| "as_number _ = None"

definition raw_equal :: "lua_value \<Rightarrow> lua_value \<Rightarrow> bool" where
  "raw_equal a b \<longleftrightarrow>
    (case (as_number a, as_number b) of (Some x, Some y) \<Rightarrow> x = y \<and> x \<noteq> FNan | _ \<Rightarrow> a = b)"

section \<open>Installing\<close>

text \<open>\<open>xp\<close> is the \<^verbatim>\<open>xpcall\<close> global; \<open>table\<close> and \<open>made\<close> are mlua's answers for the table and for the two C
  functions with their registry keys.\<close>

definition install_inner ::
  "mlua_error + lua_value \<Rightarrow> mlua_error + unit \<Rightarrow> mlua_error + nat \<times> nat \<Rightarrow> protect \<Rightarrow>
    (mlua_error + (isle_error + unit)) \<times> protect" where
  "install_inner xp table made p =
    (if pr_parts p \<noteq> None then (Inr (Inr ()), p)
     else case xp of
       Inl e \<Rightarrow> (Inl e, p)
     | Inr (VFunction f) \<Rightarrow>
         (case table of
            Inl e \<Rightarrow> (Inl e, p)
          | Inr ok \<Rightarrow>
              let p1 = p\<lparr>pr_traces := Some (\<lambda>_. None)\<rparr>
              in (case made of
                    Inl e \<Rightarrow> (Inl e, p1)
                  | Inr (handler, tk) \<Rightarrow> (Inr (Inr ()), p1\<lparr>pr_parts := Some (f, handler, tk)\<rparr>)))
     | Inr other \<Rightarrow>
         (Inr (Inl (Init (failure_new KExternal
            (''the `xpcall` global is not a function; '' @ ''attach the VM before sandboxing its globals'')))), p))"

definition protect_install ::
  "(mlua_error \<Rightarrow> string) \<Rightarrow> mlua_error + lua_value \<Rightarrow> mlua_error + unit \<Rightarrow> mlua_error + nat \<times> nat \<Rightarrow>
    protect \<Rightarrow> (isle_error + unit) \<times> protect" where
  "protect_install disp xp table made p =
    (case install_inner xp table made p of
       (Inl e, p1) \<Rightarrow> (Inl (Init (from_mlua disp e)), p1)
     | (Inr r, p1) \<Rightarrow> (r, p1))"

section \<open>The message handler and take\<close>

text \<open>\<^verbatim>\<open>trace_handler\<close> on thread \<open>th\<close>; it returns the error value unchanged.\<close>

definition trace_handler :: "bool \<Rightarrow> nat \<Rightarrow> lua_value \<Rightarrow> string \<Rightarrow> protect \<Rightarrow> lua_value \<times> protect" where
  "trace_handler stack th err tb p =
    (if \<not> stack then (err, p)
     else case pr_traces p of
       None \<Rightarrow> (err, p)
     | Some t \<Rightarrow> (err, p\<lparr>pr_traces := Some (t(th := Some (err, tb)))\<rparr>))"

text \<open>\<^verbatim>\<open>take_handler\<close>: its Lua results.\<close>

definition take_handler :: "bool \<Rightarrow> nat \<Rightarrow> lua_value \<Rightarrow> protect \<Rightarrow> lua_value list \<times> protect" where
  "take_handler stack th err p =
    (if \<not> stack then ([VBoolean False], p)
     else case pr_traces p of
       None \<Rightarrow> ([VBoolean False], p)
     | Some t \<Rightarrow>
         (case t th of
            None \<Rightarrow> ([VBoolean False], p)
          | Some (stored, tb) \<Rightarrow>
              (if raw_equal err stored then [VBoolean True, VString tb] else [VBoolean False],
               p\<lparr>pr_traces := Some (t(th := None))\<rparr>)))"

text \<open>
  How mlua shows values and errors: \<open>ls_tostr\<close> is its \<^verbatim>\<open>Value::to_string\<close>, \<open>ls_debug\<close> its \<^verbatim>\<open>Debug\<close>, \<open>ls_lossy\<close> the
  \<^verbatim>\<open>to_string_lossy\<close> of a Lua string, \<open>ls_disp\<close> and \<open>ls_downcast\<close> those of \<open>Isle_Error\<close>.
\<close>

record lua_show =
  ls_tostr :: "lua_value \<Rightarrow> mlua_error + string"
  ls_debug :: "lua_value \<Rightarrow> string"
  ls_lossy :: "string \<Rightarrow> string"
  ls_disp :: "mlua_error \<Rightarrow> string"
  ls_downcast :: "mlua_error \<Rightarrow> payload option"

text \<open>What Rust reads from the results: \<^verbatim>\<open>(bool, Option<LuaString>)\<close>.\<close>

definition take_trace ::
  "lua_show \<Rightarrow> bool \<Rightarrow> nat \<Rightarrow> lua_value \<Rightarrow> protect \<Rightarrow> (bool \<times> string option) \<times> protect" where
  "take_trace ls stack th err p =
    (let (vs, p1) = take_handler stack th err p
     in ((case vs of
            [VBoolean b, VString tb] \<Rightarrow> (b, Some (ls_lossy ls tb))
          | [VBoolean b] \<Rightarrow> (b, None)
          | _ \<Rightarrow> (False, None)), p1))"

section \<open>The error of a raised value\<close>

definition contains :: "string \<Rightarrow> string \<Rightarrow> bool" where
  "contains pat s \<longleftrightarrow> str_find pat s \<noteq> None"

definition unhandled_kind :: "string \<Rightarrow> lua_error_kind" where
  "unhandled_kind message =
    (if contains ''not enough memory'' message then KMemory
     else if contains ''error in error handling'' message then KOther
     else KRuntime)"

definition value_message :: "lua_show \<Rightarrow> lua_value \<Rightarrow> string" where
  "value_message ls x =
    (case ls_tostr ls x of
       Inr s \<Rightarrow> s
     | Inl e \<Rightarrow> (case x of VString s \<Rightarrow> ls_lossy ls s | _ \<Rightarrow> ls_debug ls x))"

definition error_from_value :: "lua_show \<Rightarrow> lua_value \<Rightarrow> bool \<Rightarrow> string option \<Rightarrow> isle_error" where
  "error_from_value ls x handled trace =
    (case x of
       VError e \<Rightarrow>
         (case isle_of_mlua (ls_disp ls) (ls_downcast ls) e of
            Lua f \<Rightarrow> Lua (if lf_traceback f = None then f\<lparr>lf_traceback := trace\<rparr> else f)
          | other \<Rightarrow> other)
     | _ \<Rightarrow>
         if \<not> handled then Lua (failure_new (unhandled_kind (value_message ls x)) (value_message ls x))
         else Lua ((failure_new KRuntime (value_message ls x))\<lparr>lf_traceback := trace\<rparr>))"

section \<open>The calls\<close>

text \<open>
  What \<^verbatim>\<open>xpcall\<close> does on thread \<open>th\<close>: the message handler and \<open>take\<close> run, on this thread and on others, and then
  it returns; \<open>xpcall\<close> is \<open>events\<close> and results.
\<close>

datatype protect_event =
    HandlerRan nat lua_value string bool
  | TakeRan nat lua_value bool

fun protect_exec :: "protect_event \<Rightarrow> protect \<Rightarrow> protect" where
  "protect_exec (HandlerRan th err tb stack) p = snd (trace_handler stack th err tb p)"
| "protect_exec (TakeRan th err stack) p = snd (take_handler stack th err p)"

record xpcall_run =
  xr_events :: "protect_event list"
  xr_result :: "mlua_error + lua_value list"

definition run_xpcall :: "xpcall_run \<Rightarrow> protect \<Rightarrow> (mlua_error + lua_value list) \<times> protect" where
  "run_xpcall xr p = (xr_result xr, fold protect_exec (xr_events xr) p)"

text \<open>\<^verbatim>\<open>call\<close>, once its parts are there.\<close>

definition protect_call ::
  "lua_show \<Rightarrow> nat \<Rightarrow> xpcall_run \<Rightarrow> protect \<Rightarrow> (isle_error + lua_value list) \<times> protect" where
  "protect_call ls th xr p =
    (let (cleared, p1) = take_trace ls True th VNil p
     in case run_xpcall xr p1 of
          (Inl e, p2) \<Rightarrow> (Inl (isle_of_mlua (ls_disp ls) (ls_downcast ls) e), p2)
        | (Inr (VBoolean True # vs), p2) \<Rightarrow> (Inr vs, p2)
        | (Inr vs, p2) \<Rightarrow>
            let err = or_nil (case tl vs of [] \<Rightarrow> None | e # _ \<Rightarrow> Some e);
                ((handled, trace), p3) = take_trace ls True th err p2
            in (Inl (error_from_value ls err handled trace), p3))"

text \<open>\<^verbatim>\<open>WRAP_CALL\<close>, after \<^verbatim>\<open>mark\<close>, and \<^verbatim>\<open>unwrap_root\<close>.\<close>

definition truthy :: "lua_value \<Rightarrow> bool" where
  "truthy x \<longleftrightarrow> x \<noteq> VNil \<and> x \<noteq> VBoolean False"

definition wrap_call :: "nat \<Rightarrow> xpcall_run \<Rightarrow> protect \<Rightarrow> (mlua_error + lua_value list) \<times> protect" where
  "wrap_call th xr p =
    (let (cleared, p1) = take_handler True th VNil p
     in case run_xpcall xr p1 of
          (Inl e, p2) \<Rightarrow> (Inl e, p2)
        | (Inr vs, p2) \<Rightarrow>
            if vs \<noteq> [] \<and> truthy (hd vs) then (Inr (VBoolean True # tl vs), p2)
            else
              let e = or_nil (case tl vs of [] \<Rightarrow> None | x # _ \<Rightarrow> Some x);
                  (took, p3) = take_handler True th e p2
              in (Inr (VBoolean False # e # took), p3))"

definition unwrap_root :: "lua_show \<Rightarrow> lua_value list \<Rightarrow> isle_error + lua_value list" where
  "unwrap_root ls values =
    (case values of
       VBoolean True # vs \<Rightarrow> Inr vs
     | VBoolean False # vs \<Rightarrow>
         let err = or_nil (case vs of [] \<Rightarrow> None | e # _ \<Rightarrow> Some e);
             rest = tl vs;
             handled = (case rest of VBoolean True # _ \<Rightarrow> True | _ \<Rightarrow> False);
             trace = (case tl rest of VString s # _ \<Rightarrow> Some (ls_lossy ls s) | _ \<Rightarrow> None)
         in Inl (error_from_value ls err handled trace)
     | _ \<Rightarrow>
         Inl (Lua (failure_new KOther
           (''unexpected protected-call result: '' @
            (case values of [] \<Rightarrow> ''None'' | x # _ \<Rightarrow> ''Some('' @ ls_debug ls x @ '')'')))))"

end
