(* ===== verification/Isle_Protect_Props.thy ===== *)
theory Isle_Protect_Props
  imports Isle_Protect
begin

text \<open>
  The protected call against its reference: a failure gets the traceback its own thread recorded last for
  that very value, whatever other threads did and whatever an earlier call left behind; and a request is
  classified the same way on both paths.
\<close>

section \<open>The table as one thread sees it\<close>

fun ev_thread :: "protect_event \<Rightarrow> nat" where
  "ev_thread (HandlerRan th err tb stack) = th"
| "ev_thread (TakeRan th err stack) = th"

fun ev_counts :: "protect_event \<Rightarrow> bool" where
  "ev_counts (HandlerRan th err tb stack) = stack"
| "ev_counts (TakeRan th err stack) = stack"

fun ev_entry :: "protect_event \<Rightarrow> (lua_value \<times> string) option" where
  "ev_entry (HandlerRan th err tb stack) = Some (err, tb)"
| "ev_entry (TakeRan th err stack) = None"

text \<open>The events of a thread that had the stack to do something.\<close>

definition own_events :: "nat \<Rightarrow> protect_event list \<Rightarrow> protect_event list" where
  "own_events th evs = filter (\<lambda>ev. ev_thread ev = th \<and> ev_counts ev) evs"

lemma exec_traces:
  assumes "pr_traces p = Some t"
  shows "\<exists>t'. pr_traces (protect_exec ev p) = Some t' \<and>
    t' th = (if ev_thread ev = th \<and> ev_counts ev then ev_entry ev else t th)"
  using assms by (cases ev) (auto simp: trace_handler_def take_handler_def split: option.split)

lemma run_traces:
  "pr_traces p = Some t \<Longrightarrow>
    \<exists>t'. pr_traces (fold protect_exec evs p) = Some t' \<and>
      t' th = (if own_events th evs = [] then t th else ev_entry (last (own_events th evs)))"
proof (induction evs arbitrary: p t)
  case (Cons ev evs)
  obtain t1 where t1: "pr_traces (protect_exec ev p) = Some t1"
    "t1 th = (if ev_thread ev = th \<and> ev_counts ev then ev_entry ev else t th)"
    using exec_traces [OF Cons.prems] by blast
  from Cons.IH [OF t1(1)] t1(2) show ?case by (auto simp: own_events_def)
qed (simp add: own_events_def)

lemma take_clears:
  assumes "pr_traces p = Some t"
  shows "\<exists>t'. pr_traces (snd (take_handler True th x p)) = Some t' \<and> t' th = None"
  using assms by (auto simp: take_handler_def split: option.split)

section \<open>The reference\<close>

text \<open>The last event of this thread is the handler, for this very value; its traceback as Rust reads it.\<close>

definition own_trace :: "lua_show \<Rightarrow> nat \<Rightarrow> protect_event list \<Rightarrow> lua_value \<Rightarrow> bool \<times> string option" where
  "own_trace ls th evs e =
    (case own_events th evs of
       [] \<Rightarrow> (False, None)
     | _ \<Rightarrow>
         (case last (own_events th evs) of
            HandlerRan t err tb stack \<Rightarrow> if raw_equal e err then (True, Some (ls_lossy ls tb)) else (False, None)
          | TakeRan t err stack \<Rightarrow> (False, None)))"

definition second_value :: "lua_value list \<Rightarrow> lua_value" where
  "second_value vs = or_nil (case tl vs of [] \<Rightarrow> None | e # _ \<Rightarrow> Some e)"

definition reference_call :: "lua_show \<Rightarrow> nat \<Rightarrow> xpcall_run \<Rightarrow> isle_error + lua_value list" where
  "reference_call ls th xr =
    (case xr_result xr of
       Inl e \<Rightarrow> Inl (isle_of_mlua (ls_disp ls) (ls_downcast ls) e)
     | Inr vs \<Rightarrow>
         if vs \<noteq> [] \<and> hd vs = VBoolean True then Inr (tl vs)
         else (case own_trace ls th (xr_events xr) (second_value vs) of
                 (handled, trace) \<Rightarrow> Inl (error_from_value ls (second_value vs) handled trace)))"

lemma take_own_trace:
  assumes "pr_traces p = Some t"
  shows "fst (take_trace ls True th e (fold protect_exec evs (snd (take_handler True th x p)))) = own_trace ls th evs e"
proof -
  obtain t1 where t1: "pr_traces (snd (take_handler True th x p)) = Some t1" "t1 th = None"
    using take_clears [OF assms] by blast
  obtain t2 where t2: "pr_traces (fold protect_exec evs (snd (take_handler True th x p))) = Some t2"
    "t2 th = (if own_events th evs = [] then None else ev_entry (last (own_events th evs)))"
    using run_traces [OF t1(1), where th = th and evs = evs] t1(2) by auto
  show ?thesis
  proof (cases "own_events th evs = []")
    case True
    then show ?thesis using t2 by (simp add: take_trace_def take_handler_def own_trace_def)
  next
    case False
    then show ?thesis using t2
      by (cases "last (own_events th evs)")
        (auto simp: take_trace_def take_handler_def own_trace_def split: list.split)
  qed
qed

lemma take_trace_state: "snd (take_trace ls stack th e p) = snd (take_handler stack th e p)"
  by (simp add: take_trace_def split_beta)

lemma protect_call_refers:
  assumes "pr_traces p \<noteq> None"
  shows "fst (protect_call ls th xr p) = reference_call ls th xr"
proof -
  obtain t where t: "pr_traces p = Some t" using assms by blast
  note own = take_own_trace [OF t, where ls = ls and th = th and x = VNil and evs = "xr_events xr"]
  show ?thesis
  proof (cases "xr_result xr")
    case (Inl e)
    then show ?thesis by (simp add: protect_call_def reference_call_def run_xpcall_def split_beta)
  next
    case (Inr vs)
    show ?thesis
    proof (cases "vs \<noteq> [] \<and> hd vs = VBoolean True")
      case True
      then show ?thesis using Inr
        by (cases vs) (simp_all add: protect_call_def reference_call_def run_xpcall_def split_beta)
    next
      case False
      have "protect_call ls th xr p =
          (let ((handled, trace), p3) = take_trace ls True th (second_value vs)
              (fold protect_exec (xr_events xr) (snd (take_handler True th VNil p)))
           in (Inl (error_from_value ls (second_value vs) handled trace), p3))"
        using False Inr
        by (auto simp: protect_call_def run_xpcall_def take_trace_state second_value_def split_beta Let_def
            split: list.split lua_value.split bool.split)
      then show ?thesis using own [where e = "second_value vs"] False Inr
        by (auto simp: reference_call_def split_beta Let_def)
    qed
  qed
qed

text \<open>C16: A sync request is what the reference says: the values after \<^verbatim>\<open>true\<close>; or the error of the raised value,
  handled exactly when the last thing its own thread did in the table was to record a traceback for that
  value, with that traceback.  An entry left by an earlier call and whatever other threads do in between
  make no difference.\<close>

theorem protect_call_reference:
  assumes "pr_traces p \<noteq> None"
  shows "fst (protect_call ls th xr p) = reference_call ls th xr"
  by (rule protect_call_refers [OF assms])

text \<open>The wrapper of a coroutine, read back by \<^verbatim>\<open>unwrap_root\<close>, against the sync call.\<close>

lemma wrapped_call:
  assumes "case xr_result xr of Inl e \<Rightarrow> True | Inr vs \<Rightarrow> \<exists>b rest. vs = VBoolean b # rest"
  shows "protect_call ls th xr p =
    ((case fst (wrap_call th xr p) of
        Inl e \<Rightarrow> Inl (isle_of_mlua (ls_disp ls) (ls_downcast ls) e)
      | Inr values \<Rightarrow> unwrap_root ls values), snd (wrap_call th xr p))"
proof (cases "xr_result xr")
  case (Inl e)
  then show ?thesis
    by (simp add: wrap_call_def protect_call_def run_xpcall_def take_trace_state split_beta)
next
  case (Inr vs)
  then obtain b rest where vs: "vs = VBoolean b # rest" using assms by auto
  let ?q = "fold protect_exec (xr_events xr) (snd (take_handler True th VNil p))"
  show ?thesis
  proof (cases b)
    case True
    then show ?thesis using Inr vs
      by (simp add: wrap_call_def protect_call_def run_xpcall_def take_trace_state unwrap_root_def truthy_def split_beta)
  next
    case False
    define e where "e = second_value vs"
    obtain took q where tk: "take_handler True th e ?q = (took, q)" by fastforce
    have shape: "took = [VBoolean False] \<or> (\<exists>tb. took = [VBoolean True, VString tb])"
      using tk by (auto simp: take_handler_def split: option.splits if_splits)
    have co: "wrap_call th xr p = (Inr (VBoolean False # e # took), q)"
      using Inr vs False tk
      by (simp add: wrap_call_def run_xpcall_def truthy_def second_value_def e_def split_beta)
    have sy: "protect_call ls th xr p =
        (let ((handled, trace), p3) = take_trace ls True th e ?q in (Inl (error_from_value ls e handled trace), p3))"
      using Inr vs False
      by (simp add: protect_call_def run_xpcall_def take_trace_state second_value_def e_def split_beta Let_def)
    show ?thesis
      using shape unfolding co sy
      by (auto simp: take_trace_def tk unwrap_root_def)
  qed
qed

text \<open>A raised not-a-number loses its traceback: the handler ran for it and recorded one, but the value is not
  raw equal to itself, so it is taken for an error the handler did not see.\<close>

theorem nan_error_loses_traceback:
  assumes "pr_traces p \<noteq> None" and "xr_result xr = Inr [VBoolean False, VNumber FNan]"
    and "own_events th (xr_events xr) \<noteq> []" and "last (own_events th (xr_events xr)) = HandlerRan th (VNumber FNan) tb True"
  shows "fst (protect_call ls th xr p) =
    Inl (Lua (failure_new (unhandled_kind (value_message ls (VNumber FNan))) (value_message ls (VNumber FNan))))"
proof -
  have "own_trace ls th (xr_events xr) (VNumber FNan) = (False, None)"
    using assms(3,4) by (cases "own_events th (xr_events xr)") (auto simp: own_trace_def raw_equal_def)
  then show ?thesis
    using protect_call_refers [OF assms(1), where ls = ls and th = th and xr = xr] assms(2)
    by (simp add: reference_call_def second_value_def error_from_value_def)
qed

section \<open>Concrete calls\<close>

definition demo_show :: lua_show where
  "demo_show = \<lparr>ls_tostr = (\<lambda>v. case v of VString s \<Rightarrow> Inr s | _ \<Rightarrow> Inr ''nan''), ls_debug = (\<lambda>_. []), ls_lossy = id,
    ls_disp = (\<lambda>_. []), ls_downcast = (\<lambda>e. case e of ExternalError p \<Rightarrow> Some p | _ \<Rightarrow> None)\<rparr>"

text \<open>Thread 1 raises and records; thread 2 records and takes in between; an old entry of thread 1 is there.\<close>

definition demo_protect :: protect where
  "demo_protect = \<lparr>pr_parts = Some (0, 1, 2), pr_traces = Some ((\<lambda>_. None)(1 := Some (VNil, ''old'')))\<rparr>"

definition demo_xpcall :: xpcall_run where
  "demo_xpcall = \<lparr>xr_events = [HandlerRan 2 (VString ''other'') ''tb2'' True, HandlerRan 1 (VString ''boom'') ''tb1'' True,
      TakeRan 2 (VString ''other'') True], xr_result = Inr [VBoolean False, VString ''boom'']\<rparr>"

lemma protect_call_reference_witness:
  "fst (protect_call demo_show 1 demo_xpcall demo_protect) =
    Inl (Lua \<lparr>lf_kind = KRuntime, lf_message = ''boom'', lf_traceback = Some ''tb1''\<rparr>)"
proof -
  have "pr_traces demo_protect \<noteq> None" by (simp add: demo_protect_def)
  from protect_call_reference [OF this, where ls = demo_show and th = 1 and xr = demo_xpcall]
  show ?thesis by (simp only:) code_simp
qed

lemma nan_error_loses_traceback_witness:
  "fst (protect_call demo_show 1
      \<lparr>xr_events = [HandlerRan 1 (VNumber FNan) ''tb'' True], xr_result = Inr [VBoolean False, VNumber FNan]\<rparr> demo_protect) =
    Inl (Lua \<lparr>lf_kind = KRuntime, lf_message = ''nan'', lf_traceback = None\<rparr>)"
proof -
  have k: "value_message demo_show (VNumber FNan) = ''nan''" "unhandled_kind ''nan'' = KRuntime" by code_simp+
  have "pr_traces demo_protect \<noteq> None" by (simp add: demo_protect_def)
  from nan_error_loses_traceback [OF this, where th = 1 and tb = "''tb''" and ls = demo_show and
      xr = "\<lparr>xr_events = [HandlerRan 1 (VNumber FNan) ''tb'' True], xr_result = Inr [VBoolean False, VNumber FNan]\<rparr>"]
  show ?thesis by (simp add: own_events_def k failure_new_def)
qed

end
