(* ===== verification/Isle_Runtime.thy ===== *)
theory Isle_Runtime
  imports Isle_Hub Isle_Protect Isle_Cancel
begin

text \<open>
  The state of a VM and the operations of \<^verbatim>\<open>Vm\<close> (\<^verbatim>\<open>src/runtime.rs\<close>): attaching, settings, hooks, the task
  table, and what the actors do before a request; with the way a sync request runs on the VM's thread
  (\<^verbatim>\<open>src/thread.rs\<close>).

  \<open>isle_vm\<close> is the VM: the pieces of \<open>Isle_Protect\<close>, the hub, the \<^verbatim>\<open>Attached\<close> marker with the task table,
  the tokens and the current one, and the rest of the Lua state as an abstract \<open>'u\<close>.  mlua's answers are
  collected in \<open>lua_env\<close>: a Lua function that runs may change the whole VM.
\<close>

section \<open>The VM\<close>

text \<open>\<open>tl_table\<close> and \<open>tl_wrap\<close> are the registry keys of \<^verbatim>\<open>TaskLib\<close>.\<close>

record task_keys =
  tl_table :: nat
  tl_wrap :: nat

record 'u isle_vm =
  iv_protect :: protect
  iv_hub :: hub
  iv_attached :: bool
  iv_task :: "task_keys option"
  iv_heap :: token_heap
  iv_current :: "nat option"
  iv_user :: 'u

record 'u lua_env =
  lu_show :: lua_show
  lu_xpcall_global :: "'u isle_vm \<Rightarrow> mlua_error + lua_value"
  lu_traces :: "'u isle_vm \<Rightarrow> mlua_error + unit"
  lu_handlers :: "'u isle_vm \<Rightarrow> mlua_error + nat \<times> nat"
  lu_set_hook :: "'u isle_vm \<Rightarrow> mlua_error option"
  lu_raw_hook :: "'u isle_vm \<Rightarrow> nat"
  lu_create_lib :: "'u isle_vm \<Rightarrow> (mlua_error + nat \<times> nat) \<times> 'u isle_vm"
  lu_load :: "string \<Rightarrow> string \<Rightarrow> mlua_error + nat"
  lu_global :: "string \<Rightarrow> 'u isle_vm \<Rightarrow> (mlua_error + lua_value) \<times> 'u isle_vm"
  lu_registry :: "nat \<Rightarrow> mlua_error + nat"
  lu_xpcall :: "nat \<Rightarrow> lua_value list \<Rightarrow> 'u isle_vm \<Rightarrow> xpcall_run \<times> 'u isle_vm"

definition from_lua_error :: "'u lua_env \<Rightarrow> mlua_error \<Rightarrow> isle_error" where
  "from_lua_error E e = isle_of_mlua (ls_disp (lu_show E)) (ls_downcast (lu_show E)) e"

section \<open>Attaching\<close>

definition vm_protect :: "'u lua_env \<Rightarrow> 'u isle_vm \<Rightarrow> (isle_error + unit) \<times> 'u isle_vm" where
  "vm_protect E v =
    (let (r, p) = protect_install (ls_disp (lu_show E)) (lu_xpcall_global E v) (lu_traces E v) (lu_handlers E v)
                    (iv_protect v)
     in (r, v\<lparr>iv_protect := p\<rparr>))"

definition vm_hook :: "'u lua_env \<Rightarrow> 'u isle_vm \<Rightarrow> (isle_error + unit) \<times> 'u isle_vm" where
  "vm_hook E v =
    (let (r, h) = install (from_lua_error E) (lu_set_hook E v) (lu_raw_hook E v) (iv_hub v)
     in (r, v\<lparr>iv_hub := h\<rparr>))"

definition vm_set_config :: "config \<Rightarrow> 'u isle_vm \<Rightarrow> 'u isle_vm" where
  "vm_set_config c v = v\<lparr>iv_hub := set_config c (iv_hub v)\<rparr>"

definition vm_config :: "'u isle_vm \<Rightarrow> config" where
  "vm_config v = hb_config (iv_hub v)"

text \<open>\<^verbatim>\<open>Vm::attach\<close>; the first one stores an empty \<^verbatim>\<open>Attached\<close>.\<close>

definition vm_attach :: "'u lua_env \<Rightarrow> config \<Rightarrow> 'u isle_vm \<Rightarrow> (isle_error + unit) \<times> 'u isle_vm" where
  "vm_attach E c v =
    (case vm_protect E v of
       (Inl e, v1) \<Rightarrow> (Inl e, v1)
     | (Inr u, v1) \<Rightarrow>
         (case vm_hook E v1 of
            (Inl e, v2) \<Rightarrow> (Inl e, v2)
          | (Inr u, v2) \<Rightarrow>
              let v3 = vm_set_config c v2
              in (Inr (), if iv_attached v3 then v3 else v3\<lparr>iv_attached := True, iv_task := None\<rparr>)))"

definition vm_of :: "'u isle_vm \<Rightarrow> unit option" where
  "vm_of v = (if iv_attached v then Some () else None)"

definition vm_add_hook ::
  "'u lua_env \<Rightarrow> triggers \<Rightarrow> 'u isle_vm \<Rightarrow> (isle_error + nat) \<times> 'u isle_vm" where
  "vm_add_hook E t v =
    (let (r, h) = add_hook (from_lua_error E) (lu_set_hook E v) (lu_raw_hook E v) t (iv_hub v)
     in (r, v\<lparr>iv_hub := h\<rparr>))"

definition vm_remove_hook ::
  "'u lua_env \<Rightarrow> nat \<Rightarrow> 'u isle_vm \<Rightarrow> (isle_error + bool) \<times> 'u isle_vm" where
  "vm_remove_hook E i v =
    (let (r, h) = remove_hook (from_lua_error E) (lu_set_hook E v) (lu_raw_hook E v) i (iv_hub v)
     in (r, v\<lparr>iv_hub := h\<rparr>))"

text \<open>
  The callback \<^verbatim>\<open>add_hook\<close> registers borrows the user's closure: a call from inside itself fails.  \<open>busy\<close> is
  the borrow.
\<close>

definition hook_callback ::
  "(bool \<Rightarrow> 'w \<Rightarrow> (mlua_error + vm_state) \<times> 'w) \<Rightarrow> bool \<Rightarrow> 'w \<Rightarrow> (mlua_error + vm_state) \<times> 'w" where
  "hook_callback f busy w =
    (if busy then (Inl (OtherMluaError ''mutable callback called recursively''), w) else f True w)"

section \<open>The task table\<close>

definition cached_task_lib :: "'u isle_vm \<Rightarrow> nat option" where
  "cached_task_lib v = map_option tl_table (iv_task v)"

definition channel_ctor :: "'u isle_vm \<Rightarrow> nat option" where
  "channel_ctor v = map_option tl_wrap (iv_task v)"

text \<open>\<^verbatim>\<open>OnceCell::set\<close>: a table stored while the library's chunk ran wins.\<close>

definition store_task :: "task_keys \<Rightarrow> 'u isle_vm \<Rightarrow> 'u isle_vm" where
  "store_task k v = (if iv_task v = None then v\<lparr>iv_task := Some k\<rparr> else v)"

definition vm_task_lib :: "'u lua_env \<Rightarrow> 'u isle_vm \<Rightarrow> (isle_error + nat) \<times> 'u isle_vm" where
  "vm_task_lib E v =
    (case cached_task_lib v of
       Some t \<Rightarrow> (Inr t, v)
     | None \<Rightarrow>
         (case lu_create_lib E v of
            (Inl e, v1) \<Rightarrow> (Inl (from_lua_error E e), v1)
          | (Inr (table, wrap), v1) \<Rightarrow>
              let v2 = store_task \<lparr>tl_table = table, tl_wrap = wrap\<rparr> v1
              in (Inr (the (cached_task_lib v2)), v2)))"

section \<open>Before a request\<close>

definition attach_after_init ::
  "'u lua_env \<Rightarrow> config option \<Rightarrow> 'u isle_vm \<Rightarrow> (isle_error + unit) \<times> 'u isle_vm" where
  "attach_after_init E c v = vm_attach E (case c of Some x \<Rightarrow> x | None \<Rightarrow> vm_config v) v"

definition ensure_attached :: "'u lua_env \<Rightarrow> 'u isle_vm \<Rightarrow> (isle_error + unit) \<times> 'u isle_vm" where
  "ensure_attached E v =
    (if iv_attached v
     then let (r, h) = ensure_installed (from_lua_error E) (lu_set_hook E v) (lu_raw_hook E v) (iv_hub v)
          in (r, v\<lparr>iv_hub := h\<rparr>)
     else attach_after_init E None v)"

definition of_or_attach :: "'u lua_env \<Rightarrow> 'u isle_vm \<Rightarrow> (isle_error + unit) \<times> 'u isle_vm" where
  "of_or_attach E v = (case vm_of v of Some u \<Rightarrow> (Inr (), v) | None \<Rightarrow> attach_after_init E None v)"

section \<open>Sync requests on the VM's thread\<close>

definition vm_cancelled :: "nat \<Rightarrow> 'u isle_vm \<Rightarrow> bool" where
  "vm_cancelled t v = is_cancelled (iv_heap v) t"

definition enter_vm :: "nat \<Rightarrow> 'u isle_vm \<Rightarrow> nat option \<times> 'u isle_vm" where
  "enter_vm t v = (let (prev, cur) = enter_token t (iv_current v) in (prev, v\<lparr>iv_current := cur\<rparr>))"

definition leave_vm :: "nat option \<Rightarrow> 'u isle_vm \<Rightarrow> 'u isle_vm" where
  "leave_vm prev v = v\<lparr>iv_current := leave_token prev (iv_current v)\<rparr>"

definition cancelled_wins :: "isle_error + 'a \<Rightarrow> bool \<Rightarrow> isle_error + 'a" where
  "cancelled_wins result cancelled =
    (case result of Inl e \<Rightarrow> Inl (if cancelled then Cancelled else e) | Inr x \<Rightarrow> Inr x)"

definition eval_chunk :: string where
  "eval_chunk = ''=eval''"

definition load_eval :: "'u lua_env \<Rightarrow> string \<Rightarrow> mlua_error + nat" where
  "load_eval E code =
    (case lu_load E eval_chunk (''return '' @ code) of
       Inr f \<Rightarrow> Inr f
     | Inl e \<Rightarrow> lu_load E eval_chunk code)"

text \<open>\<^verbatim>\<open>protect::call\<close> on the VM; a sync request runs on the main thread, 0.\<close>

definition vm_call ::
  "'u lua_env \<Rightarrow> nat \<Rightarrow> lua_value list \<Rightarrow> 'u isle_vm \<Rightarrow> (isle_error + lua_value list) \<times> 'u isle_vm" where
  "vm_call E f args v =
    (case vm_protect E v of
       (Inl e, v1) \<Rightarrow> (Inl e, v1)
     | (Inr u, v1) \<Rightarrow>
         let (xr, v2) = lu_xpcall E f args v1;
             (r, p) = protect_call (lu_show E) 0 xr (iv_protect v1)
         in (r, v2\<lparr>iv_protect := p\<rparr>))"

text \<open>A conversion between Lua and the host's types: it may run Lua code.\<close>

type_synonym ('u, 'a, 'b) conversion = "'a \<Rightarrow> 'u isle_vm \<Rightarrow> (mlua_error + 'b) \<times> 'u isle_vm"

definition finish_sync ::
  "'u lua_env \<Rightarrow> ('u, lua_value list, 'b) conversion \<Rightarrow> nat \<Rightarrow> isle_error + lua_value list \<Rightarrow> 'u isle_vm \<Rightarrow>
    (isle_error + 'b) \<times> 'u isle_vm" where
  "finish_sync E to_t t result v =
    (case cancelled_wins result (vm_cancelled t v) of
       Inl e \<Rightarrow> (Inl e, v)
     | Inr values \<Rightarrow> let (r, v1) = to_t values v in (map_sum (from_lua_error E) id r, v1))"

definition call_function ::
  "'u lua_env \<Rightarrow> ('u, 'a, lua_value list) conversion \<Rightarrow> ('u, lua_value list, 'b) conversion \<Rightarrow> nat \<Rightarrow> 'a \<Rightarrow> nat \<Rightarrow>
    'u isle_vm \<Rightarrow> (isle_error + 'b) \<times> 'u isle_vm" where
  "call_function E from_a to_t f args t v =
    (case from_a args v of
       (Inl e, v1) \<Rightarrow> (Inl (from_lua_error E e), v1)
     | (Inr multi, v1) \<Rightarrow> let (r, v2) = vm_call E f multi v1 in finish_sync E to_t t r v2)"

text \<open>Under the request's token, after the VM is attached.\<close>

definition under_token ::
  "'u lua_env \<Rightarrow> nat \<Rightarrow> ('u isle_vm \<Rightarrow> (isle_error + 'b) \<times> 'u isle_vm) \<Rightarrow> 'u isle_vm \<Rightarrow>
    (isle_error + 'b) \<times> 'u isle_vm" where
  "under_token E t body v =
    (case ensure_attached E v of
       (Inl e, v1) \<Rightarrow> (Inl e, v1)
     | (Inr u, v1) \<Rightarrow>
         let (prev, v2) = enter_vm t v1; (r, v3) = body v2 in (r, leave_vm prev v3))"

definition execute_eval ::
  "'u lua_env \<Rightarrow> ('u, lua_value list, 'b) conversion \<Rightarrow> string \<Rightarrow> nat \<Rightarrow> 'u isle_vm \<Rightarrow>
    (isle_error + 'b) \<times> 'u isle_vm" where
  "execute_eval E to_t code t v =
    under_token E t (\<lambda>v.
      case load_eval E code of
        Inl e \<Rightarrow> finish_sync E to_t t (Inl (from_lua_error E e)) v
      | Inr f \<Rightarrow> let (r, v1) = vm_call E f [] v in finish_sync E to_t t r v1) v"

definition execute_exec ::
  "'u lua_env \<Rightarrow> ('u isle_vm \<Rightarrow> (isle_error + 'b) \<times> 'u isle_vm) \<Rightarrow> nat \<Rightarrow> 'u isle_vm \<Rightarrow>
    (isle_error + 'b) \<times> 'u isle_vm" where
  "execute_exec E f t v = under_token E t f v"

definition global_function ::
  "'u lua_env \<Rightarrow> string \<Rightarrow> 'u isle_vm \<Rightarrow> (isle_error + nat) \<times> 'u isle_vm" where
  "global_function E name v =
    (let (r, v1) = lu_global E name v
     in (case r of
           Inl e \<Rightarrow> Inl (from_lua_error E e)
         | Inr (VFunction f) \<Rightarrow> Inr f
         | Inr other \<Rightarrow> Inl (NotFound name), v1))"

definition execute_call ::
  "'u lua_env \<Rightarrow> ('u, 'a, lua_value list) conversion \<Rightarrow> ('u, lua_value list, 'b) conversion \<Rightarrow> string \<Rightarrow> 'a \<Rightarrow> nat \<Rightarrow>
    'u isle_vm \<Rightarrow> (isle_error + 'b) \<times> 'u isle_vm" where
  "execute_call E from_a to_t name args t v =
    under_token E t (\<lambda>v.
      case global_function E name v of
        (Inl e, v1) \<Rightarrow> (Inl e, v1)
      | (Inr f, v1) \<Rightarrow> call_function E from_a to_t f args t v1) v"

definition execute_call_fn ::
  "'u lua_env \<Rightarrow> ('u, 'a, lua_value list) conversion \<Rightarrow> ('u, lua_value list, 'b) conversion \<Rightarrow> nat \<Rightarrow> 'a \<Rightarrow> nat \<Rightarrow>
    'u isle_vm \<Rightarrow> (isle_error + 'b) \<times> 'u isle_vm" where
  "execute_call_fn E from_a to_t key args t v =
    under_token E t (\<lambda>v.
      case lu_registry E key of
        Inl e \<Rightarrow> (Inl (from_lua_error E e), v)
      | Inr f \<Rightarrow> call_function E from_a to_t f args t v) v"

end
