(* ===== verification/Isle_Runtime_Props.thy ===== *)
theory Isle_Runtime_Props
  imports Isle_Runtime
begin

text \<open>
  What attaching keeps, and what a sync request leaves: the token that was current before it, and, when it
  was cancelled and failed, the cancellation.
\<close>

section \<open>Attaching\<close>

lemma install_ok:
  assumes "install from err raw h = (Inr u, h')"
  shows "hb_entries h' = hb_entries h" and "hb_config h' = hb_config h" and "hb_raw h' = hb_installed h'"
    and "hb_counted h' = hb_counted h"
  using assms by (auto simp: install_def Let_def split: option.splits)

lemma protect_install_ok:
  assumes "protect_install disp xp tr made p = (Inr u, p')"
  shows "pr_parts p' \<noteq> None" and "pr_parts p \<noteq> None \<Longrightarrow> p' = p"
  using assms
  by (auto simp: protect_install_def install_inner_def Let_def split: if_splits sum.splits lua_value.splits prod.splits)

text \<open>Attaching (again) re-installs the hook and stores the new settings, and keeps what the VM had: its hook
  callbacks with their counts, the task table, and the \<^verbatim>\<open>xpcall\<close> captured by the first attach.\<close>

lemma attach_keeps:
  assumes "vm_attach E c v = (Inr u, v')"
  shows "iv_attached v' \<and> vm_config v' = c \<and> hb_raw (iv_hub v') = hb_installed (iv_hub v') \<and>
    hb_entries (iv_hub v') = hb_entries (iv_hub v) \<and> hb_counted (iv_hub v') = hb_counted (iv_hub v) \<and>
    (iv_attached v \<longrightarrow> iv_task v' = iv_task v) \<and> pr_parts (iv_protect v') \<noteq> None \<and>
    (pr_parts (iv_protect v) \<noteq> None \<longrightarrow> iv_protect v' = iv_protect v)"
proof -
  obtain r1 v1 where p: "vm_protect E v = (r1, v1)" by fastforce
  obtain r2 v2 where h: "vm_hook E v1 = (r2, v2)" by fastforce
  have r: "isl r1 = False" "isl r2 = False" and v': "v' = (if iv_attached v2 then vm_set_config c v2
      else (vm_set_config c v2)\<lparr>iv_attached := True, iv_task := None\<rparr>)"
    using assms p h by (auto simp: vm_attach_def vm_set_config_def Let_def split: sum.splits)
  have p': "protect_install (ls_disp (lu_show E)) (lu_xpcall_global E v) (lu_traces E v) (lu_handlers E v) (iv_protect v)
      = (Inr (), iv_protect v1)" and v1: "v1 = v\<lparr>iv_protect := iv_protect v1\<rparr>"
    using p r(1) by (cases r1; auto simp: vm_protect_def split: prod.splits)+
  have h': "install (from_lua_error E) (lu_set_hook E v1) (lu_raw_hook E v1) (iv_hub v1) = (Inr (), iv_hub v2)"
    and v2: "v2 = v1\<lparr>iv_hub := iv_hub v2\<rparr>"
    using h r(2) by (cases r2; auto simp: vm_hook_def split: prod.splits)+
  have f: "iv_attached v1 = iv_attached v" "iv_task v1 = iv_task v" "iv_hub v1 = iv_hub v"
    by (subst v1, simp)+
  have g: "iv_attached v2 = iv_attached v1" "iv_task v2 = iv_task v1" "iv_protect v2 = iv_protect v1"
    by (subst v2, simp)+
  have q: "iv_attached v'" "iv_hub v' = (iv_hub v2)\<lparr>hb_config := c\<rparr>" "iv_protect v' = iv_protect v2"
    "iv_attached v2 \<longrightarrow> iv_task v' = iv_task v2"
    by (simp_all add: v' vm_set_config_def set_config_def)
  show ?thesis
    using install_ok [OF h'] protect_install_ok [OF p'] f g q by (simp add: vm_config_def)
qed

section \<open>Sync requests\<close>

lemma ensure_attached_frame:
  assumes "ensure_attached E v = (r, v')"
  shows "iv_current v' = iv_current v"
proof -
  have "iv_current v2 = iv_current v" if "vm_attach E c v = (r2, v2)" for c r2 v2
    using that by (auto simp: vm_attach_def vm_protect_def vm_hook_def vm_set_config_def Let_def
        split: prod.splits sum.splits)
  then show ?thesis using assms
    by (auto simp: ensure_attached_def attach_after_init_def split: if_splits prod.splits option.splits)
qed

text \<open>A conversion that runs no Lua code and does not fail.\<close>

definition plain :: "('u, 'a, 'b) conversion \<Rightarrow> bool" where
  "plain to_t \<longleftrightarrow> (\<forall>vs v. \<exists>x. to_t vs v = (Inr x, v))"

lemma finish_sync_plain:
  assumes "plain to_t" and f: "finish_sync E to_t t r v = (w, v')"
  shows "v' = v \<and> (isl w \<longleftrightarrow> isl r) \<and> (isl w \<and> vm_cancelled t v \<longrightarrow> w = Inl Cancelled)"
proof (cases r)
  case (Inl e)
  then show ?thesis using f by (auto simp: finish_sync_def cancelled_wins_def)
next
  case (Inr vs)
  then obtain x where "to_t vs v = (Inr x, v)" using assms(1) unfolding plain_def by blast
  then show ?thesis using f Inr by (auto simp: finish_sync_def cancelled_wins_def)
qed

lemma execute_eval_cancelled:
  assumes "execute_eval E to_t code t v = (r, v')" and "ensure_attached E v = (Inr u, v1)" and "plain to_t"
  shows "iv_current v' = iv_current v \<and> (isl r \<and> vm_cancelled t v' \<longrightarrow> r = Inl Cancelled)"
proof -
  obtain prev v2 where e: "enter_vm t v1 = (prev, v2)" by fastforce
  let ?body = "\<lambda>v. case load_eval E code of
        Inl e \<Rightarrow> finish_sync E to_t t (Inl (from_lua_error E e)) v
      | Inr f \<Rightarrow> let (r, v1) = vm_call E f [] v in finish_sync E to_t t r v1"
  obtain w v3 where b: "?body v2 = (w, v3)" by fastforce
  have r: "r = w" "v' = leave_vm prev v3"
    using assms(1,2) e b by (simp_all add: execute_eval_def under_token_def)
  have "prev = iv_current v1" using e by (auto simp: enter_vm_def enter_token_def)
  then have cur: "iv_current v' = iv_current v"
    using ensure_attached_frame [OF assms(2)] by (simp add: r leave_vm_def leave_token_def)
  have "isl w \<and> vm_cancelled t v3 \<longrightarrow> w = Inl Cancelled"
  proof (cases "load_eval E code")
    case (Inl e)
    with b have "finish_sync E to_t t (Inl (from_lua_error E e)) v2 = (w, v3)" by simp
    from finish_sync_plain [OF assms(3) this] show ?thesis by simp
  next
    case (Inr f)
    obtain r1 v4 where "vm_call E f [] v2 = (r1, v4)" by fastforce
    with b Inr have "finish_sync E to_t t r1 v4 = (w, v3)" by simp
    from finish_sync_plain [OF assms(3) this] show ?thesis by simp
  qed
  then show ?thesis using cur by (simp add: r leave_vm_def vm_cancelled_def)
qed

text \<open>Lua code never takes a cancel back.\<close>

definition keeps_cancelled :: "'u lua_env \<Rightarrow> bool" where
  "keeps_cancelled E \<longleftrightarrow> (\<forall>f args v t. vm_cancelled t v \<longrightarrow> vm_cancelled t (snd (lu_xpcall E f args v)))"

lemma vm_protect_heap: "vm_protect E v = (r, v') \<Longrightarrow> iv_heap v' = iv_heap v"
  by (auto simp: vm_protect_def split: prod.splits)

lemma ensure_attached_heap:
  assumes "ensure_attached E v = (r, v')"
  shows "iv_heap v' = iv_heap v"
proof -
  have "iv_heap v2 = iv_heap v" if "vm_attach E c v = (r2, v2)" for c r2 v2
    using that by (auto simp: vm_attach_def vm_protect_def vm_hook_def vm_set_config_def Let_def
        split: prod.splits sum.splits)
  then show ?thesis using assms
    by (auto simp: ensure_attached_def attach_after_init_def split: if_splits prod.splits option.splits)
qed

lemma execute_eval_keeps_cancelled:
  assumes "keeps_cancelled E" and "plain to_t" and "vm_cancelled t v"
  shows "vm_cancelled t (snd (execute_eval E to_t code t v))"
proof -
  obtain r v1 where a: "ensure_attached E v = (r, v1)" by fastforce
  have 1: "vm_cancelled t v1" using ensure_attached_heap [OF a] assms(3) by (simp add: vm_cancelled_def)
  have fin: "vm_cancelled t (snd (finish_sync E to_t t x w))" if "vm_cancelled t w" for x w
    using finish_sync_plain [OF assms(2), of E t x w] that by (metis prod.collapse)
  have call: "vm_cancelled t (snd (vm_call E f [] w))" if "vm_cancelled t w" for f w
  proof -
    obtain x w1 where p: "vm_protect E w = (x, w1)" by fastforce
    have "vm_cancelled t w1" using vm_protect_heap [OF p] that by (simp add: vm_cancelled_def)
    then have "vm_cancelled t (snd (lu_xpcall E f [] w1))" using assms(1) unfolding keeps_cancelled_def by blast
    then show ?thesis using p \<open>vm_cancelled t w1\<close>
      by (auto simp: vm_call_def vm_cancelled_def split: sum.split prod.split)
  qed
  have "vm_cancelled t (snd (enter_vm t v1))" using 1 by (simp add: enter_vm_def vm_cancelled_def split_beta Let_def)
  then show ?thesis
    using 1 fin call a
    by (auto simp: execute_eval_def under_token_def leave_vm_def vm_cancelled_def split_beta Let_def split: sum.split)
qed

text \<open>A sync \<^verbatim>\<open>eval\<close> leaves the current token as it found it, whatever the Lua code did; and when it fails and its
  token was cancelled meanwhile, it fails with \<^verbatim>\<open>Cancelled\<close>, whatever the Lua code made of the cancel (it may have
  caught it and raised an error of its own, or not even have compiled).\<close>

theorem sync_eval_cancelled:
  assumes "execute_eval E to_t code t v = (r, v')" and "ensure_attached E v = (Inr u, v1)" and "plain to_t"
  shows "iv_current v' = iv_current v \<and> (isl r \<and> vm_cancelled t v' \<longrightarrow> r = Inl Cancelled)"
  by (rule execute_eval_cancelled [OF assms])

section \<open>A concrete VM\<close>

text \<open>A Lua that runs function 7 by cancelling token 0 and raising an error of its own.\<close>

definition demo_lua :: "unit lua_env" where
  "demo_lua =
    \<lparr>lu_show = \<lparr>ls_tostr = (\<lambda>v. case v of VString s \<Rightarrow> Inr s | _ \<Rightarrow> Inr []), ls_debug = (\<lambda>_. []), ls_lossy = id, ls_disp = (\<lambda>_. []),
       ls_downcast = (\<lambda>e. case e of ExternalError p \<Rightarrow> Some p | _ \<Rightarrow> None)\<rparr>,
     lu_xpcall_global = (\<lambda>_. Inr (VFunction 1)), lu_traces = (\<lambda>_. Inr ()), lu_handlers = (\<lambda>_. Inr (2, 3)),
     lu_set_hook = (\<lambda>_. None), lu_raw_hook = (\<lambda>_. 99), lu_create_lib = (\<lambda>v. (Inr (4, 5), v)),
     lu_load = (\<lambda>name code. if take 6 code = ''return'' then Inl (SyntaxError ''x'') else Inr 7),
     lu_global = (\<lambda>name v. (Inr VNil, v)), lu_registry = (\<lambda>k. Inr k),
     lu_xpcall = (\<lambda>f args v. (\<lparr>xr_events = [HandlerRan 0 (VString ''mine'') ''tb'' True],
        xr_result = Inr [VBoolean False, VString ''mine'']\<rparr>, v\<lparr>iv_heap := cancel 0 (iv_heap v)\<rparr>))\<rparr>"

definition demo_isle_vm :: "unit isle_vm" where
  "demo_isle_vm =
    \<lparr>iv_protect = protect_init, iv_hub = hub_default, iv_attached = False, iv_task = None,
     iv_heap = snd (token_new None heap_init), iv_current = None, iv_user = ()\<rparr>"

lemma attach_keeps_witness:
  "\<exists>v'. vm_attach demo_lua \<lparr>cf_grace = 5, cf_preempt = None\<rparr> demo_isle_vm = (Inr (), v') \<and> iv_attached v' \<and>
    cf_grace (vm_config v') = 5 \<and> pr_parts (iv_protect v') \<noteq> None"
proof -
  let ?c = "\<lparr>cf_grace = 5, cf_preempt = None\<rparr>"
  have "isl (fst (vm_attach demo_lua ?c demo_isle_vm)) = False" by code_simp
  then obtain v' where a: "vm_attach demo_lua ?c demo_isle_vm = (Inr (), v')"
    by (cases "vm_attach demo_lua ?c demo_isle_vm"; cases "fst (vm_attach demo_lua ?c demo_isle_vm)") auto
  from attach_keeps [OF a] a show ?thesis by auto
qed

lemma sync_eval_cancelled_witness:
  "fst (execute_eval demo_lua (\<lambda>vs v. (Inr vs, v)) ''x'' 0 demo_isle_vm) = Inl Cancelled"
proof -
  obtain r v' where e: "execute_eval demo_lua (\<lambda>vs v. (Inr vs, v)) ''x'' 0 demo_isle_vm = (r, v')" by fastforce
  have "isl (fst (ensure_attached demo_lua demo_isle_vm)) = False" by code_simp
  then obtain v1 where a: "ensure_attached demo_lua demo_isle_vm = (Inr (), v1)"
    by (cases "ensure_attached demo_lua demo_isle_vm"; cases "fst (ensure_attached demo_lua demo_isle_vm)") auto
  have "isl (fst (execute_eval demo_lua (\<lambda>vs v. (Inr vs, v)) ''x'' 0 demo_isle_vm))"
    "vm_cancelled 0 (snd (execute_eval demo_lua (\<lambda>vs v. (Inr vs, v)) ''x'' 0 demo_isle_vm))" by code_simp+
  with sync_eval_cancelled [OF e a] e show ?thesis by (simp add: plain_def)
qed

end
