(* ===== verification/Isle_Actor.thy ===== *)
theory Isle_Actor
  imports Isle_Runtime
begin

text \<open>
  The blocking actor: \<^verbatim>\<open>Isle\<close> (\<^verbatim>\<open>src/handle.rs\<close>), its thread's loop (\<^verbatim>\<open>src/thread.rs\<close>) and \<^verbatim>\<open>Task\<close>
  (\<^verbatim>\<open>src/task.rs\<close>).

  An \<open>actor\<close> is what the handle, the thread and the tasks share: the request channel (a
  \<^verbatim>\<open>std::sync::mpsc\<close> queue: unbounded, first-in first-out, a send fails exactly when the receiver is gone),
  the thread, and one response channel for each request.  A job is a function on the tokens and the VM \<open>'w\<close>;
  its result is sent, or it panics, which unwinds the thread.  \<open>ac_accepted\<close> and \<open>ac_ran\<close> record the requests the
  channel took and the ones the thread ran.
\<close>

section \<open>State\<close>

datatype 'r job_out = JobSent 'r | JobPanic panic_payload

type_synonym ('w, 'r) job = "nat \<Rightarrow> token_heap \<Rightarrow> 'w \<Rightarrow> 'r job_out \<times> token_heap \<times> 'w"

text \<open>\<^verbatim>\<open>Request\<close>: a job with the number of its response channel and its token.\<close>

datatype ('w, 'r) request = RunJob nat "('w, 'r) job" nat | ShutdownReq

text \<open>A response channel: the result in it, and whether the job still holds the sender.\<close>

record 'r response =
  rs_value :: "'r option"
  rs_sender :: bool

datatype thread_state = Serving | Exited | Panicked panic_payload

record ('w, 'r) actor =
  ac_vm :: 'w
  ac_heap :: token_heap
  ac_queue :: "('w, 'r) request list"
  ac_thread :: thread_state
  ac_handles :: nat
  ac_joined :: bool
  ac_resp :: "nat \<Rightarrow> 'r response"
  ac_fresh :: nat
  ac_accepted :: "nat list"
  ac_ran :: "nat list"

text \<open>\<^verbatim>\<open>Task\<close>: its response channel, its token, and whether dropping it cancels.\<close>

record task =
  tk_resp :: nat
  tk_cancel :: nat
  tk_released :: bool

definition task_of :: "nat \<Rightarrow> nat \<Rightarrow> task" where
  "task_of k t = \<lparr>tk_resp = k, tk_cancel = t, tk_released = False\<rparr>"

section \<open>Spawning\<close>

text \<open>
  What the thread does before it reports: the protected call, the user's \<open>init\<close>, which may panic, and the
  attach.  The settings are those of the async builder; the blocking handle has none.
\<close>

definition setup_vm ::
  "'u lua_env \<Rightarrow> config option \<Rightarrow> ('u isle_vm \<Rightarrow> (mlua_error + 't) job_out \<times> 'u isle_vm) \<Rightarrow> 'u isle_vm \<Rightarrow>
    (isle_error + 't) job_out \<times> 'u isle_vm" where
  "setup_vm E config init v =
    (case vm_protect E v of
       (Inl e, v1) \<Rightarrow> (JobSent (Inl e), v1)
     | (Inr u, v1) \<Rightarrow>
         (case init v1 of
            (JobPanic p, v2) \<Rightarrow> (JobPanic p, v2)
          | (JobSent (Inl e), v2) \<Rightarrow> (JobSent (Inl (Init (from_mlua (ls_disp (lu_show E)) e))), v2)
          | (JobSent (Inr x), v2) \<Rightarrow>
              let (r, v3) = attach_after_init E config v2 in (JobSent (map_sum id (\<lambda>_. x) r), v3)))"

definition actor_new :: "'w \<Rightarrow> token_heap \<Rightarrow> ('w, 'r) actor" where
  "actor_new vm h =
    \<lparr>ac_vm = vm, ac_heap = h, ac_queue = [], ac_thread = Serving, ac_handles = 1, ac_joined = False,
     ac_resp = (\<lambda>_. \<lparr>rs_value = None, rs_sender = False\<rparr>), ac_fresh = 0, ac_accepted = [], ac_ran = []\<rparr>"

text \<open>\<open>refused\<close> is the error of an operating system that starts no thread.\<close>

definition isle_spawn ::
  "'u lua_env \<Rightarrow> string option \<Rightarrow> ('u isle_vm \<Rightarrow> (mlua_error + unit) job_out \<times> 'u isle_vm) \<Rightarrow> 'u isle_vm \<Rightarrow>
    token_heap \<Rightarrow> isle_error + ('u isle_vm, 'r) actor" where
  "isle_spawn E refused init lua h =
    (case refused of
       Some m \<Rightarrow> Inl (Init (from_mlua (ls_disp (lu_show E)) (ExternalError (OtherPayload m))))
     | None \<Rightarrow>
         (case setup_vm E None init lua of
            (JobPanic p, v) \<Rightarrow> Inl (ThreadPanic (panic_message p))
          | (JobSent (Inl e), v) \<Rightarrow> Inl e
          | (JobSent (Inr u), v) \<Rightarrow> Inr (actor_new v h)))"

section \<open>Requests\<close>

definition set_resp :: "nat \<Rightarrow> ('r response \<Rightarrow> 'r response) \<Rightarrow> ('w, 'r) actor \<Rightarrow> ('w, 'r) actor" where
  "set_resp k f a = a\<lparr>ac_resp := (ac_resp a)(k := f (ac_resp a k))\<rparr>"

text \<open>A sender that is dropped with its job.\<close>

definition drop_request :: "('w, 'r) request \<Rightarrow> ('w, 'r) actor \<Rightarrow> ('w, 'r) actor" where
  "drop_request rq a = (case rq of RunJob k job t \<Rightarrow> set_resp k (rs_sender_update (\<lambda>_. False)) a | ShutdownReq \<Rightarrow> a)"

text \<open>\<^verbatim>\<open>submit\<close>.\<close>

definition submit ::
  "('w, isle_error + 'b) job \<Rightarrow> ('w, isle_error + 'b) actor \<Rightarrow> task \<times> ('w, isle_error + 'b) actor" where
  "submit job a =
    (let (t, h) = token_new None (ac_heap a);
         k = ac_fresh a;
         a1 = a\<lparr>ac_heap := h, ac_fresh := Suc k\<rparr>
     in if ac_thread a = Serving
        then (task_of k t,
              (set_resp k (\<lambda>_. \<lparr>rs_value = None, rs_sender = True\<rparr>) a1)
                \<lparr>ac_queue := ac_queue a @ [RunJob k job t], ac_accepted := ac_accepted a @ [k]\<rparr>)
        else (task_of k t, set_resp k (\<lambda>_. \<lparr>rs_value = Some (Inl Shutdown), rs_sender = False\<rparr>) a1))"

text \<open>The end of the thread: the receiver is dropped with the requests in it.\<close>

definition thread_ends :: "thread_state \<Rightarrow> ('w, 'r) actor \<Rightarrow> ('w, 'r) actor" where
  "thread_ends st a = (fold drop_request (ac_queue a) a)\<lparr>ac_queue := [], ac_thread := st\<rparr>"

text \<open>\<^verbatim>\<open>run_loop\<close>: one turn.  With an empty queue it blocks, or ends when every sender is gone.\<close>

definition loop_step :: "('w, 'r) actor \<Rightarrow> ('w, 'r) actor" where
  "loop_step a =
    (if ac_thread a \<noteq> Serving then a
     else case ac_queue a of
       [] \<Rightarrow> if ac_handles a = 0 then thread_ends Exited a else a
     | ShutdownReq # q \<Rightarrow> thread_ends Exited (a\<lparr>ac_queue := q\<rparr>)
     | RunJob k job t # q \<Rightarrow>
         (case job t (ac_heap a) (ac_vm a) of
            (JobSent r, h, w) \<Rightarrow>
              set_resp k (\<lambda>_. \<lparr>rs_value = Some r, rs_sender = False\<rparr>)
                (a\<lparr>ac_vm := w, ac_heap := h, ac_queue := q, ac_ran := ac_ran a @ [k]\<rparr>)
          | (JobPanic p, h, w) \<Rightarrow>
              thread_ends (Panicked p)
                (set_resp k (rs_sender_update (\<lambda>_. False))
                  (a\<lparr>ac_vm := w, ac_heap := h, ac_queue := q, ac_ran := ac_ran a @ [k]\<rparr>))))"

definition send_shutdown :: "('w, 'r) actor \<Rightarrow> ('w, 'r) actor" where
  "send_shutdown a = (if ac_thread a = Serving then a\<lparr>ac_queue := ac_queue a @ [ShutdownReq]\<rparr> else a)"

text \<open>\<^verbatim>\<open>shutdown\<close>: the signal, then the join, which returns once the thread ended (\<open>None\<close>: it still waits).\<close>

definition shutdown_start :: "('w, 'r) actor \<Rightarrow> ('w, 'r) actor" where
  "shutdown_start a = send_shutdown a"

definition shutdown_join :: "('w, 'r) actor \<Rightarrow> (isle_error + unit) option \<times> ('w, 'r) actor" where
  "shutdown_join a =
    (if ac_joined a then (Some (Inr ()), a)
     else case ac_thread a of
       Serving \<Rightarrow> (None, a)
     | Exited \<Rightarrow> (Some (Inr ()), a\<lparr>ac_joined := True\<rparr>)
     | Panicked p \<Rightarrow> (Some (Inl (ThreadPanic (panic_message p))), a\<lparr>ac_joined := True\<rparr>))"

definition isle_alive :: "('w, 'r) actor \<Rightarrow> bool" where
  "isle_alive a \<longleftrightarrow> \<not> ac_joined a \<and> ac_thread a = Serving"

text \<open>Dropping the handle: the signal, without a join, and its sender.\<close>

definition isle_drop :: "('w, 'r) actor \<Rightarrow> ('w, 'r) actor" where
  "isle_drop a = (send_shutdown a)\<lparr>ac_handles := ac_handles a - 1\<rparr>"

section \<open>Tasks\<close>

text \<open>\<^verbatim>\<open>recv\<close> on a response channel: \<open>None\<close> blocks.\<close>

definition response_recv :: "nat \<Rightarrow> ('w, isle_error + 'b) actor \<Rightarrow> (isle_error + 'b) option" where
  "response_recv k a =
    (case rs_value (ac_resp a k) of
       Some r \<Rightarrow> Some r
     | None \<Rightarrow> if rs_sender (ac_resp a k) then None else Some (Inl RecvFailed))"

definition take_response :: "nat \<Rightarrow> ('w, 'r) actor \<Rightarrow> ('w, 'r) actor" where
  "take_response k a = set_resp k (rs_value_update (\<lambda>_. None)) a"

text \<open>\<^verbatim>\<open>wait\<close>: once it returns the task is released.\<close>

definition task_wait ::
  "task \<Rightarrow> ('w, isle_error + 'b) actor \<Rightarrow> (isle_error + 'b) option \<times> task \<times> ('w, isle_error + 'b) actor" where
  "task_wait k a =
    (case response_recv (tk_resp k) a of
       None \<Rightarrow> (None, k, a)
     | Some r \<Rightarrow> (Some r, k\<lparr>tk_released := True\<rparr>, take_response (tk_resp k) a))"

definition task_try_recv ::
  "task \<Rightarrow> ('w, isle_error + 'b) actor \<Rightarrow> (isle_error + 'b) option \<times> task \<times> ('w, isle_error + 'b) actor" where
  "task_try_recv k a =
    (case rs_value (ac_resp a (tk_resp k)) of
       None \<Rightarrow> (None, k, a)
     | Some r \<Rightarrow> (Some r, k\<lparr>tk_released := True\<rparr>, take_response (tk_resp k) a))"

definition task_detach :: "task \<Rightarrow> task" where
  "task_detach k = k\<lparr>tk_released := True\<rparr>"

definition task_cancel_request :: "task \<Rightarrow> ('w, 'r) actor \<Rightarrow> ('w, 'r) actor" where
  "task_cancel_request k a = a\<lparr>ac_heap := cancel (tk_cancel k) (ac_heap a)\<rparr>"

definition task_drop :: "task \<Rightarrow> ('w, 'r) actor \<Rightarrow> ('w, 'r) actor" where
  "task_drop k a = (if tk_released k then a else task_cancel_request k a)"

section \<open>The jobs of the handle\<close>

text \<open>A job on the VM: it reads the tokens the handle made, and may cancel some.\<close>

definition vm_job ::
  "(nat \<Rightarrow> 'u isle_vm \<Rightarrow> 'r job_out \<times> 'u isle_vm) \<Rightarrow> ('u isle_vm, 'r) job" where
  "vm_job body t h v = (let (r, v1) = body t (v\<lparr>iv_heap := h\<rparr>) in (r, iv_heap v1, v1))"

text \<open>\<^verbatim>\<open>spawn_eval\<close>, \<^verbatim>\<open>spawn_call\<close>, \<^verbatim>\<open>spawn_exec\<close>; the closure of \<^verbatim>\<open>exec\<close> may panic.\<close>

definition eval_job ::
  "'u lua_env \<Rightarrow> ('u, lua_value list, 'b) conversion \<Rightarrow> string \<Rightarrow> ('u isle_vm, isle_error + 'b) job" where
  "eval_job E to_t code =
    vm_job (\<lambda>t v. let (r, v1) = execute_eval E to_t code t v in (JobSent r, v1))"

definition call_job ::
  "'u lua_env \<Rightarrow> ('u, 'a, lua_value list) conversion \<Rightarrow> ('u, lua_value list, 'b) conversion \<Rightarrow> string \<Rightarrow> 'a \<Rightarrow>
    ('u isle_vm, isle_error + 'b) job" where
  "call_job E from_a to_t name args =
    vm_job (\<lambda>t v. let (r, v1) = execute_call E from_a to_t name args t v in (JobSent r, v1))"

definition exec_job ::
  "'u lua_env \<Rightarrow> ('u isle_vm \<Rightarrow> (isle_error + 'b) job_out \<times> 'u isle_vm) \<Rightarrow> ('u isle_vm, isle_error + 'b) job" where
  "exec_job E f =
    vm_job (\<lambda>t v.
      case ensure_attached E v of
        (Inl e, v1) \<Rightarrow> (JobSent (Inl e), v1)
      | (Inr u, v1) \<Rightarrow> let (prev, v2) = enter_vm t v1; (r, v3) = f v2 in (r, leave_vm prev v3))"

definition spawn_eval ::
  "'u lua_env \<Rightarrow> ('u, lua_value list, 'b) conversion \<Rightarrow> string \<Rightarrow> ('u isle_vm, isle_error + 'b) actor \<Rightarrow>
    task \<times> ('u isle_vm, isle_error + 'b) actor" where
  "spawn_eval E to_t code a = submit (eval_job E to_t code) a"

definition spawn_call ::
  "'u lua_env \<Rightarrow> ('u, 'a, lua_value list) conversion \<Rightarrow> ('u, lua_value list, 'b) conversion \<Rightarrow> string \<Rightarrow> 'a \<Rightarrow>
    ('u isle_vm, isle_error + 'b) actor \<Rightarrow> task \<times> ('u isle_vm, isle_error + 'b) actor" where
  "spawn_call E from_a to_t name args a = submit (call_job E from_a to_t name args) a"

definition spawn_exec ::
  "'u lua_env \<Rightarrow> ('u isle_vm \<Rightarrow> (isle_error + 'b) job_out \<times> 'u isle_vm) \<Rightarrow> ('u isle_vm, isle_error + 'b) actor \<Rightarrow>
    task \<times> ('u isle_vm, isle_error + 'b) actor" where
  "spawn_exec E f a = submit (exec_job E f) a"

end
