(* ===== verification/Isle_Actor_Props.thy ===== *)
theory Isle_Actor_Props
  imports Isle_Actor Isle_Runtime_Props
begin

text \<open>
  What the blocking actor promises, over every history of its handle, its tasks and its thread: requests run
  in the order they were submitted, and a \<^verbatim>\<open>wait\<close> blocks only while its request is queued.
\<close>

section \<open>Histories\<close>

datatype ('w, 'r) aop =
    Submit "('w, isle_error + 'r) job"
  | Turn
  | SendShutdown
  | DropHandle
  | TakeResponse nat
  | CancelRequest nat

fun aop_exec :: "('w, 'r) aop \<Rightarrow> ('w, isle_error + 'r) actor \<Rightarrow> ('w, isle_error + 'r) actor" where
  "aop_exec (Submit job) a = snd (submit job a)"
| "aop_exec Turn a = loop_step a"
| "aop_exec SendShutdown a = shutdown_start a"
| "aop_exec DropHandle a = isle_drop a"
| "aop_exec (TakeResponse k) a = snd (snd (task_wait \<lparr>tk_resp = k, tk_cancel = 0, tk_released = False\<rparr> a))"
| "aop_exec (CancelRequest t) a = task_cancel_request \<lparr>tk_resp = 0, tk_cancel = t, tk_released = False\<rparr> a"

definition actor_run :: "('w, 'r) aop list \<Rightarrow> ('w, isle_error + 'r) actor \<Rightarrow> ('w, isle_error + 'r) actor" where
  "actor_run ops a = fold aop_exec ops a"

section \<open>The invariant\<close>

fun queued_ids :: "('w, 'r) request list \<Rightarrow> nat list" where
  "queued_ids [] = []"
| "queued_ids (RunJob k job t # q) = k # queued_ids q"
| "queued_ids (ShutdownReq # q) = queued_ids q"

lemma queued_ids_append [simp]: "queued_ids (q @ q') = queued_ids q @ queued_ids q'"
  by (induction q rule: queued_ids.induct) auto

definition actor_ok :: "('w, 'r) actor \<Rightarrow> bool" where
  "actor_ok a \<longleftrightarrow>
    (\<exists>rest. ac_accepted a = ac_ran a @ rest \<and> (ac_thread a = Serving \<longrightarrow> rest = queued_ids (ac_queue a))) \<and>
    (ac_thread a \<noteq> Serving \<longrightarrow> ac_queue a = []) \<and>
    sorted_wrt (<) (ac_accepted a) \<and> (\<forall>k \<in> set (ac_accepted a). k < ac_fresh a) \<and>
    (\<forall>k. rs_sender (ac_resp a k) \<longleftrightarrow> k \<in> set (queued_ids (ac_queue a)))"

lemma drop_requests:
  "fold drop_request q a = a\<lparr>ac_resp := (\<lambda>k. if k \<in> set (queued_ids q) then (ac_resp a k)\<lparr>rs_sender := False\<rparr> else ac_resp a k)\<rparr>"
proof (induction q arbitrary: a)
  case (Cons rq q)
  show ?case
  proof (cases rq)
    case (RunJob k job t)
    have "drop_request rq a = a\<lparr>ac_resp := (ac_resp a)(k := (ac_resp a k)\<lparr>rs_sender := False\<rparr>)\<rparr>"
      by (simp add: RunJob drop_request_def set_resp_def)
    then show ?thesis by (auto simp: RunJob Cons.IH fun_eq_iff intro!: actor.equality)
  next
    case ShutdownReq
    have "drop_request rq a = a" by (simp add: ShutdownReq drop_request_def)
    then show ?thesis by (simp add: ShutdownReq Cons.IH)
  qed
qed simp

lemma thread_ends_eq:
  "thread_ends st a =
    a\<lparr>ac_resp := (\<lambda>k. if k \<in> set (queued_ids (ac_queue a)) then (ac_resp a k)\<lparr>rs_sender := False\<rparr> else ac_resp a k),
      ac_queue := [], ac_thread := st\<rparr>"
  by (simp add: thread_ends_def drop_requests)

lemma actor_ok_ends:
  assumes "actor_ok a" and "ac_thread a = Serving" and "st \<noteq> Serving"
  shows "actor_ok (thread_ends st a)"
  using assms unfolding actor_ok_def thread_ends_eq by auto

lemma actor_ok_submit:
  assumes "actor_ok a"
  shows "actor_ok (snd (submit job a))"
proof -
  have fresh: "ac_fresh a \<notin> set (queued_ids (ac_queue a))" if "ac_thread a = Serving"
    using assms that unfolding actor_ok_def by force
  show ?thesis
  proof (cases "ac_thread a = Serving")
    case True
    then show ?thesis using assms fresh unfolding actor_ok_def
      by (auto simp: submit_def set_resp_def split_beta Let_def sorted_wrt_append less_Suc_eq)
  next
    case False
    then show ?thesis using assms unfolding actor_ok_def
      by (auto simp: submit_def set_resp_def split_beta Let_def less_Suc_eq)
  qed
qed

lemma actor_ok_ran:
  assumes "actor_ok a" and "ac_thread a = Serving" and "ac_queue a = RunJob k job t # q"
  shows "actor_ok (set_resp k (\<lambda>r. \<lparr>rs_value = f r, rs_sender = False\<rparr>)
    (a\<lparr>ac_vm := w, ac_heap := h, ac_queue := q, ac_ran := ac_ran a @ [k]\<rparr>))"
proof -
  have "sorted_wrt (<) (ac_ran a @ queued_ids (ac_queue a))" using assms(1,2) unfolding actor_ok_def by auto
  then have "k \<notin> set (queued_ids q)" using assms(3) by (auto simp: sorted_wrt_append)
  then show ?thesis using assms unfolding actor_ok_def by (auto simp: set_resp_def)
qed

lemma actor_ok_step:
  assumes "actor_ok a"
  shows "actor_ok (loop_step a)"
proof (cases "ac_thread a = Serving")
  case True
  show ?thesis
  proof (cases "ac_queue a")
    case Nil
    then show ?thesis using assms True by (simp add: loop_step_def actor_ok_ends)
  next
    case (Cons rq q)
    show ?thesis
    proof (cases rq)
      case ShutdownReq
      have "actor_ok (a\<lparr>ac_queue := q\<rparr>)" using assms True Cons ShutdownReq unfolding actor_ok_def by auto
      then show ?thesis using True Cons ShutdownReq by (simp add: loop_step_def actor_ok_ends)
    next
      case (RunJob k job t)
      obtain r h w where j: "job t (ac_heap a) (ac_vm a) = (r, h, w)" using prod_cases3 by blast
      note ran = actor_ok_ran [OF assms True Cons [unfolded RunJob]]
      show ?thesis
      proof (cases r)
        case (JobSent x)
        then show ?thesis using ran [where f = "\<lambda>_. Some x"] True Cons RunJob j by (simp add: loop_step_def)
      next
        case (JobPanic p)
        have e: "set_resp k (rs_sender_update (\<lambda>_. False)) b = set_resp k (\<lambda>r. \<lparr>rs_value = rs_value r, rs_sender = False\<rparr>) b" for b
          by (cases "ac_resp b k") (simp add: set_resp_def)
        show ?thesis
          using actor_ok_ends [OF ran [where f = rs_value and w = w and h = h], where st = "Panicked p"] True Cons RunJob j JobPanic
          by (simp add: loop_step_def e) (simp add: set_resp_def)
      qed
    qed
  qed
qed (use assms in \<open>simp add: loop_step_def\<close>)

lemma actor_ok_shutdown: "actor_ok a \<Longrightarrow> actor_ok (send_shutdown a)"
  unfolding actor_ok_def by (auto simp: send_shutdown_def)

lemma actor_ok_exec: "actor_ok a \<Longrightarrow> actor_ok (aop_exec op a)"
proof (cases op)
  case (TakeResponse k)
  assume "actor_ok a"
  then show ?thesis unfolding TakeResponse actor_ok_def
    by (auto simp: task_wait_def take_response_def set_resp_def split: option.split)
next
  case DropHandle
  assume "actor_ok a"
  then have "actor_ok (send_shutdown a)" by (rule actor_ok_shutdown)
  then show ?thesis unfolding DropHandle by (simp add: isle_drop_def actor_ok_def)
qed (simp_all add: actor_ok_submit actor_ok_step shutdown_start_def actor_ok_shutdown,
     simp add: actor_ok_def task_cancel_request_def)

interpretation actor_machine: machine aop_exec actor_ok
  by unfold_locales (rule actor_ok_exec)

lemma actor_ok_run: "actor_ok (actor_run ops (actor_new vm h))"
proof -
  have "actor_ok (actor_new vm h)" by (simp add: actor_new_def actor_ok_def)
  then show ?thesis unfolding actor_run_def by (rule actor_machine.ok_run)
qed

section \<open>Properties\<close>

text \<open>C18: Requests run one after another in the order they were submitted, whatever the handle and the tasks do:
  the requests that ran are a prefix of the accepted ones, and while the thread serves, the others are in the
  queue.\<close>

theorem requests_run_in_order:
  assumes "a = actor_run ops (actor_new vm h)"
  shows "sorted_wrt (<) (ac_accepted a) \<and> take (length (ac_ran a)) (ac_accepted a) = ac_ran a \<and>
    (ac_thread a = Serving \<longrightarrow> ac_accepted a = ac_ran a @ queued_ids (ac_queue a))"
  using actor_ok_run [of ops vm h] unfolding assms actor_ok_def by auto

text \<open>C25: No wait hangs: waiting for a request blocks only while it is in the queue of a serving thread.  Once the
  thread ended, by a shutdown, a dropped handle or a panic, every task has a result, the job's own,
  \<^verbatim>\<open>Shutdown\<close> or \<^verbatim>\<open>RecvFailed\<close>.\<close>

theorem wait_blocks_only_while_queued:
  fixes vm :: 'w
  shows "(response_recv k (actor_run ops (actor_new vm h)) = None) =
    (rs_value (ac_resp (actor_run ops (actor_new vm h)) k) = None \<and>
     k \<in> set (queued_ids (ac_queue (actor_run ops (actor_new vm h)))) \<and>
     ac_thread (actor_run ops (actor_new vm h)) = Serving)"
proof -
  let ?a = "actor_run ops (actor_new vm h)"
  have "rs_sender (ac_resp ?a k) \<longleftrightarrow> k \<in> set (queued_ids (ac_queue ?a))"
    "ac_thread ?a \<noteq> Serving \<Longrightarrow> ac_queue ?a = []"
    using actor_ok_run [of ops vm h] unfolding actor_ok_def by blast+
  then show ?thesis
    by (cases "ac_thread ?a = Serving") (auto simp: response_recv_def split: option.split)
qed

section \<open>Lost requests\<close>

text \<open>The job of the request was dropped without a result.\<close>

definition lost_request :: "nat \<Rightarrow> ('w, 'r) actor \<Rightarrow> bool" where
  "lost_request k a \<longleftrightarrow> k < ac_fresh a \<and> rs_value (ac_resp a k) = None \<and> \<not> rs_sender (ac_resp a k)"

lemma lost_request_exec:
  assumes "actor_ok a" and "lost_request k a"
  shows "lost_request k (aop_exec op a)"
proof (cases op)
  case (Submit job)
  then show ?thesis using assms(2) by (auto simp: submit_def set_resp_def lost_request_def split_beta Let_def)
next
  case Turn
  have q: "j \<noteq> k" if "ac_queue a = RunJob j job t # q" for j job t q
    using assms that unfolding actor_ok_def lost_request_def by (metis queued_ids.simps(2) list.set_intros(1))
  then show ?thesis using assms(2) Turn
    by (auto simp: loop_step_def lost_request_def thread_ends_eq set_resp_def
        split: list.split request.split job_out.split prod.split)
next
  case (TakeResponse j)
  then show ?thesis using assms(2)
    by (auto simp: task_wait_def take_response_def set_resp_def lost_request_def split: option.split)
qed (use assms(2) in \<open>auto simp: shutdown_start_def isle_drop_def send_shutdown_def task_cancel_request_def lost_request_def\<close>)

lemma lost_request_run: "actor_ok a \<Longrightarrow> lost_request k a \<Longrightarrow> lost_request k (actor_run ops a)"
proof (induction ops arbitrary: a)
  case (Cons op ops)
  from Cons.IH [OF actor_ok_exec [OF Cons.prems(1)] lost_request_exec [OF Cons.prems]] show ?case by (simp add: actor_run_def)
qed (simp add: actor_run_def)

text \<open>A lost request is never reported to a task that polls: when the job was dropped without a result (it
  panicked, or was queued behind the end of the thread), \<^verbatim>\<open>wait\<close> returns \<^verbatim>\<open>RecvFailed\<close>, but \<^verbatim>\<open>try_recv\<close> says "not
  yet" then and ever after.\<close>

theorem try_recv_misses_lost_request:
  assumes "a = actor_run before (actor_new vm h)" and "lost_request (tk_resp k) a"
  shows "fst (task_wait k a) = Some (Inl RecvFailed) \<and> fst (task_try_recv k (actor_run later a)) = None"
proof -
  have "actor_ok a" unfolding assms(1) by (rule actor_ok_run)
  from lost_request_run [OF this assms(2)] have "lost_request (tk_resp k) (actor_run later a)" .
  then show ?thesis using assms(2) by (simp add: lost_request_def task_wait_def response_recv_def task_try_recv_def)
qed

section \<open>Spawning\<close>

text \<open>A spawn that succeeds hands out a ready VM: the user's init ran on a VM that had its protected call, and
  after it the VM is attached with the crate's hook in place, the builder's settings (or those the init left, when
  the builder has none), and the hooks, the task table and the captured \<^verbatim>\<open>xpcall\<close> that were there.\<close>

theorem spawned_vm_is_attached:
  assumes "setup_vm E c init v = (JobSent (Inr x), v')"
  shows "\<exists>v1 v2. vm_protect E v = (Inr (), v1) \<and> init v1 = (JobSent (Inr x), v2) \<and>
    iv_attached v' \<and> hb_raw (iv_hub v') = hb_installed (iv_hub v') \<and> pr_parts (iv_protect v') \<noteq> None \<and>
    vm_config v' = (case c of Some k \<Rightarrow> k | None \<Rightarrow> vm_config v2) \<and>
    hb_entries (iv_hub v') = hb_entries (iv_hub v2) \<and> (iv_attached v2 \<longrightarrow> iv_task v' = iv_task v2) \<and>
    (pr_parts (iv_protect v2) \<noteq> None \<longrightarrow> iv_protect v' = iv_protect v2)"
proof -
  obtain r1 v1 where p: "vm_protect E v = (r1, v1)" by fastforce
  with assms have r1: "r1 = Inr ()" by (cases r1) (simp_all add: setup_vm_def)
  obtain o2 v2 where i: "init v1 = (o2, v2)" by fastforce
  obtain r3 v3 where a: "attach_after_init E c v2 = (r3, v3)" by fastforce
  have "o2 = JobSent (Inr x)" "r3 = Inr ()" "v' = v3"
    using assms p i a by (cases r3; auto simp: setup_vm_def r1 split: job_out.splits sum.splits)+
  moreover from this(2) have "vm_attach E (case c of Some x \<Rightarrow> x | None \<Rightarrow> vm_config v2) v2 = (Inr (), v3)"
    using a by (simp add: attach_after_init_def)
  note attach_keeps [OF this]
  ultimately show ?thesis using p i by (auto simp: r1 split: option.split)
qed

section \<open>A concrete actor\<close>

definition answer_job :: "nat \<Rightarrow> (nat, isle_error + nat) job" where
  "answer_job x = (\<lambda>t h w. (JobSent (Inr (w + x)), h, Suc w))"

definition panic_job :: "(nat, isle_error + nat) job" where
  "panic_job = (\<lambda>t h w. (JobPanic (PanicStr ''boom''), h, w))"

definition demo_actor_ops :: "(nat, nat) aop list" where
  "demo_actor_ops = [Submit (answer_job 10), Submit panic_job, Submit (answer_job 20), Turn, Turn]"

definition demo_actor :: "(nat, isle_error + nat) actor" where
  "demo_actor = actor_run demo_actor_ops (actor_new 0 heap_init)"

lemma requests_run_in_order_witness:
  "ac_accepted demo_actor = [0, 1, 2] \<and> ac_ran demo_actor = [0, 1] \<and> take 2 (ac_accepted demo_actor) = [0, 1]"
proof -
  have "ac_accepted demo_actor = [0, 1, 2]" "ac_ran demo_actor = [0, 1]" by code_simp+
  with requests_run_in_order [OF demo_actor_def] show ?thesis by simp
qed

lemma try_recv_misses_lost_request_witness:
  "fst (task_wait (task_of 1 1) demo_actor) = Some (Inl RecvFailed) \<and>
   fst (task_try_recv (task_of 1 1) (actor_run [Turn, SendShutdown, Turn] demo_actor)) = None"
proof (rule try_recv_misses_lost_request [OF demo_actor_def])
  have "ac_fresh demo_actor = 3" "rs_value (ac_resp demo_actor 1) = None" "\<not> rs_sender (ac_resp demo_actor 1)"
    by code_simp+
  then show "lost_request (tk_resp (task_of 1 1)) demo_actor" by (simp add: lost_request_def task_of_def)
qed

text \<open>An init that attaches the VM with settings of its own; the builder's replace them.\<close>

definition demo_init :: "unit isle_vm \<Rightarrow> (mlua_error + nat) job_out \<times> unit isle_vm" where
  "demo_init v = (JobSent (Inr 3), snd (vm_attach demo_lua \<lparr>cf_grace = 7, cf_preempt = Some 1\<rparr> v))"

lemma spawned_vm_is_attached_witness:
  "\<exists>v'. setup_vm demo_lua (Some \<lparr>cf_grace = 5, cf_preempt = None\<rparr>) demo_init demo_isle_vm = (JobSent (Inr 3), v') \<and>
    iv_attached v' \<and> vm_config v' = \<lparr>cf_grace = 5, cf_preempt = None\<rparr>"
proof -
  let ?s = "setup_vm demo_lua (Some \<lparr>cf_grace = 5, cf_preempt = None\<rparr>) demo_init demo_isle_vm"
  have "(case fst ?s of JobSent (Inr n) \<Rightarrow> n = 3 | _ \<Rightarrow> False)" by code_simp
  then obtain v' where s: "?s = (JobSent (Inr 3), v')"
    by (cases ?s) (auto split: job_out.splits sum.splits)
  from spawned_vm_is_attached [OF s] s show ?thesis by auto
qed

end
