(* ===== verification/Isle_Host_Chan.thy ===== *)
theory Isle_Host_Chan
  imports Isle_Chan
begin

text \<open>
  The host side of \<^verbatim>\<open>src/host_chan.rs\<close>: making a host channel or a channel to the host, the \<^verbatim>\<open>Sender\<close> and
  \<^verbatim>\<open>Receiver\<close>, and requests.

  tokio's \<^verbatim>\<open>mpsc\<close> ends and its \<^verbatim>\<open>oneshot\<close> are parameters (\<open>host_env\<close>, \<open>oneshot_env\<close>).  A request is a
  \<open>request\<close>: the state of its userdata and the oneshot channel between Lua and the requester.  Converting
  a reply may run Lua code (a \<^verbatim>\<open>__gc\<close>), which may answer or close the same request: a conversion
  comes with the operations that happen during it.
\<close>

section \<open>Making channels\<close>

definition max_cap :: nat where
  "max_cap = (2 ^ 64 - 1) div 8"

definition setup_error :: "string \<Rightarrow> isle_error" where
  "setup_error m = Init (failure_new KExternal m)"

text \<open>
  \<open>ctor\<close> is what \<^verbatim>\<open>channel_ctor\<close> returned; \<open>mpsc\<close> makes tokio's channel; \<open>wrap\<close> calls the library's
  constructor on the userdata.
\<close>

definition host_channel ::
  "('t, 'q) mpsc_env \<Rightarrow> (mlua_error \<Rightarrow> isle_error) \<Rightarrow> (nat \<Rightarrow> 'q) \<Rightarrow> (nat \<Rightarrow> mlua_error + nat) \<Rightarrow>
    bool \<Rightarrow> isle_error + nat option \<Rightarrow> nat \<Rightarrow> 'q chan_store \<Rightarrow> (isle_error + nat \<times> nat) \<times> 'q chan_store" where
  "host_channel env from mpsc wrap attached ctor cap s =
    (if \<not> attached then
       (Inl (setup_error ''runtime::channel: the VM is not attached (call Vm::attach first)''), s)
     else case ctor of
       Inl e \<Rightarrow> (Inl e, s)
     | Inr None \<Rightarrow>
         (Inl (setup_error
           (''runtime::channel: the VM'' @ [CHR 0x27] @ ''s task library was not created (call Vm::task_lib first)'')), s)
     | Inr (Some f) \<Rightarrow>
         if cap = 0 then
           (Inl (setup_error ''runtime::channel: cap = 0 (rendezvous) is not supported yet''), s)
         else if max_cap < cap then (Inl (setup_error ''runtime::channel: cap is too large''), s)
         else
           let (ch, s1) = new_host env (mpsc cap) s
           in (case wrap ch of Inl e \<Rightarrow> (Inl (from e), s1) | Inr table \<Rightarrow> (Inr (ch, table), s1)))"

definition channel_to_host ::
  "('t, 'q) mpsc_env \<Rightarrow> (mlua_error \<Rightarrow> isle_error) \<Rightarrow> (nat \<Rightarrow> 'q) \<Rightarrow> (nat \<Rightarrow> mlua_error + nat) \<Rightarrow>
    bool \<Rightarrow> isle_error + nat option \<Rightarrow> nat \<Rightarrow> 'q chan_store \<Rightarrow> (isle_error + nat \<times> nat) \<times> 'q chan_store" where
  "channel_to_host env from mpsc wrap attached ctor cap s =
    (if \<not> attached then
       (Inl (setup_error ''runtime::channel_to_host: the VM is not attached (call Vm::attach first)''), s)
     else case ctor of
       Inl e \<Rightarrow> (Inl e, s)
     | Inr None \<Rightarrow>
         (Inl (setup_error
           (''runtime::channel_to_host: the VM'' @ [CHR 0x27] @ ''s task library was not created (call Vm::task_lib first)'')), s)
     | Inr (Some f) \<Rightarrow>
         if cap = 0 then (Inl (setup_error ''runtime::channel_to_host: cap must be >= 1''), s)
         else if max_cap < cap then (Inl (setup_error ''runtime::channel_to_host: cap is too large''), s)
         else
           let (ch, s1) = new_to_host env (mpsc cap) s
           in (case wrap ch of Inl e \<Rightarrow> (Inl (from e), s1) | Inr table \<Rightarrow> (Inr (ch, table), s1)))"

section \<open>Sender and Receiver\<close>

datatype 't mpsc_try_send = MpscFull 't | MpscClosed 't

record ('t, 'q) host_env =
  hs_send_poll :: "'t \<Rightarrow> waker \<Rightarrow> 'q \<Rightarrow> ('t + unit) poll \<times> 'q"
  hs_try_send :: "'t \<Rightarrow> 'q \<Rightarrow> ('t mpsc_try_send + unit) \<times> 'q"
  hs_is_closed :: "'q \<Rightarrow> bool"
  hr_recv_poll :: "waker \<Rightarrow> 'q \<Rightarrow> 't option poll \<times> 'q"
  hr_try_recv :: "'q \<Rightarrow> 't rx_try \<times> 'q"
  hr_close :: "'q \<Rightarrow> 'q"
  hr_is_closed :: "'q \<Rightarrow> bool"

datatype 't send_error = SendError 't

datatype 't try_send_error = TrySendFull 't | TrySendClosed 't

datatype try_recv_error = RecvEmpty | RecvClosed

definition sender_send_poll ::
  "('t, 'q) host_env \<Rightarrow> waker \<Rightarrow> 't \<Rightarrow> 'q \<Rightarrow> ('t send_error + unit) poll \<times> 'q" where
  "sender_send_poll env wk x q =
    (let (r, q1) = hs_send_poll env x wk q in (map_poll (map_sum SendError id) r, q1))"

definition sender_try_send :: "('t, 'q) host_env \<Rightarrow> 't \<Rightarrow> 'q \<Rightarrow> ('t try_send_error + unit) \<times> 'q" where
  "sender_try_send env x q =
    (let (r, q1) = hs_try_send env x q
     in (map_sum (\<lambda>e. case e of MpscFull v \<Rightarrow> TrySendFull v | MpscClosed v \<Rightarrow> TrySendClosed v) id r, q1))"

definition sender_is_closed :: "('t, 'q) host_env \<Rightarrow> 'q \<Rightarrow> bool" where
  "sender_is_closed env q = hs_is_closed env q"

definition receiver_recv_poll :: "('t, 'q) host_env \<Rightarrow> waker \<Rightarrow> 'q \<Rightarrow> 't option poll \<times> 'q" where
  "receiver_recv_poll env wk q = hr_recv_poll env wk q"

definition receiver_try_recv :: "('t, 'q) host_env \<Rightarrow> 'q \<Rightarrow> (try_recv_error + 't) \<times> 'q" where
  "receiver_try_recv env q =
    (let (r, q1) = hr_try_recv env q
     in (case r of RxValue v \<Rightarrow> Inr v | RxEmpty \<Rightarrow> Inl RecvEmpty | RxDisconnected \<Rightarrow> Inl RecvClosed, q1))"

definition receiver_close :: "('t, 'q) host_env \<Rightarrow> 'q \<Rightarrow> 'q" where
  "receiver_close env q = hr_close env q"

definition receiver_is_closed :: "('t, 'q) host_env \<Rightarrow> 'q \<Rightarrow> bool" where
  "receiver_is_closed env q = hr_is_closed env q"

fun send_error_display :: "'t send_error \<Rightarrow> string" where
  "send_error_display (SendError v) = ''host channel is closed''"

fun try_send_into_inner :: "'t try_send_error \<Rightarrow> 't" where
  "try_send_into_inner (TrySendFull v) = v"
| "try_send_into_inner (TrySendClosed v) = v"

fun try_send_display :: "'t try_send_error \<Rightarrow> string" where
  "try_send_display (TrySendFull v) = ''host channel is full''"
| "try_send_display (TrySendClosed v) = ''host channel is closed''"

fun try_recv_display :: "try_recv_error \<Rightarrow> string" where
  "try_recv_display RecvEmpty = ''channel to the host is empty''"
| "try_recv_display RecvClosed = ''channel to the host is closed''"

section \<open>Requests: the Lua side\<close>

text \<open>An answer is \<open>Inr\<close> a reply or \<open>Inl\<close> a rejection.\<close>

record ('a, 'o) oneshot_env =
  os_send :: "'a \<Rightarrow> 'o \<Rightarrow> bool \<times> 'o"
  os_drop_tx :: "'o \<Rightarrow> 'o"
  os_rx_poll :: "'o \<Rightarrow> 'a option poll \<times> 'o"
  os_drop_rx :: "'o \<Rightarrow> 'o"

datatype reply_state = ReplyOpen | ReplyAnswered | ReplyClosed

record 'o request =
  rq_state :: reply_state
  rq_shot :: 'o

definition answered_error :: "string \<Rightarrow> reply_state \<Rightarrow> mlua_error option" where
  "answered_error meth st =
    (case st of
       ReplyOpen \<Rightarrow> None
     | ReplyAnswered \<Rightarrow> Some (RuntimeError (''req:'' @ meth @ '': request already answered''))
     | ReplyClosed \<Rightarrow> Some (RuntimeError (''req:'' @ meth @ '': request is closed'')))"

text \<open>\<^verbatim>\<open>RequestUd::answer\<close>: the state is looked at again, after the conversion.\<close>

definition answer ::
  "('a, 'o) oneshot_env \<Rightarrow> string \<Rightarrow> 'a \<Rightarrow> 'o request \<Rightarrow> (mlua_error + bool) \<times> 'o request" where
  "answer env meth a r =
    (let prev = rq_state r; r1 = r\<lparr>rq_state := ReplyAnswered\<rparr>
     in case prev of
          ReplyOpen \<Rightarrow>
            let (delivered, c) = os_send env a (rq_shot r1) in (Inr delivered, r1\<lparr>rq_shot := c\<rparr>)
        | st \<Rightarrow> (Inl (the (answered_error meth st)), r1\<lparr>rq_state := st\<rparr>))"

text \<open>
  What can happen to a request: \<open>req:reply(v)\<close> and \<open>req:reject(v)\<close> with what happens during the conversion
  and its result, \<open>__close\<close>, its collection, and the requester that stops waiting.
\<close>

datatype ('r, 'e) rop =
    Reply "('r, 'e) rop list" "mlua_error + 'r"
  | Reject "('r, 'e) rop list" "mlua_error + 'e"
  | CloseReq
  | CollectReq
  | StopWaiting

definition close_request :: "('a, 'o) oneshot_env \<Rightarrow> 'o request \<Rightarrow> 'o request" where
  "close_request env r =
    (if rq_state r = ReplyOpen
     then r\<lparr>rq_state := ReplyClosed, rq_shot := os_drop_tx env (rq_shot r)\<rparr> else r)"

definition replied :: "'o request \<Rightarrow> bool" where
  "replied r \<longleftrightarrow> rq_state r = ReplyAnswered"

text \<open>The results of the \<^verbatim>\<open>reply\<close> and \<^verbatim>\<open>reject\<close> calls, in the order they return, each with its answer.\<close>

fun req_exec ::
  "('e + 'r, 'o) oneshot_env \<Rightarrow> ('r, 'e) rop \<Rightarrow> 'o request \<Rightarrow>
    (('e + 'r) \<times> bool) list \<times> (mlua_error + bool) option \<times> 'o request"
and req_run ::
  "('e + 'r, 'o) oneshot_env \<Rightarrow> ('r, 'e) rop list \<Rightarrow> 'o request \<Rightarrow> (('e + 'r) \<times> bool) list \<times> 'o request"
where
  "req_exec env (Reply meanwhile conv) r =
    (case answered_error ''reply'' (rq_state r) of
       Some e \<Rightarrow> ([], Some (Inl e), r)
     | None \<Rightarrow>
         (case req_run env meanwhile r of
            (lg, r1) \<Rightarrow>
              (case conv of
                 Inl e \<Rightarrow> (lg, Some (Inl e), r1)
               | Inr v \<Rightarrow>
                   (case answer env ''reply'' (Inr v) r1 of
                      (Inr b, r2) \<Rightarrow> (lg @ [(Inr v, b)], Some (Inr b), r2)
                    | (Inl e, r2) \<Rightarrow> (lg, Some (Inl e), r2)))))"
| "req_exec env (Reject meanwhile conv) r =
    (case answered_error ''reject'' (rq_state r) of
       Some e \<Rightarrow> ([], Some (Inl e), r)
     | None \<Rightarrow>
         (case req_run env meanwhile r of
            (lg, r1) \<Rightarrow>
              (case conv of
                 Inl e \<Rightarrow> (lg, Some (Inl e), r1)
               | Inr v \<Rightarrow>
                   (case answer env ''reject'' (Inl v) r1 of
                      (Inr b, r2) \<Rightarrow> (lg @ [(Inl v, b)], Some (Inr b), r2)
                    | (Inl e, r2) \<Rightarrow> (lg, Some (Inl e), r2)))))"
| "req_exec env CloseReq r = ([], None, close_request env r)"
| "req_exec env CollectReq r = ([], None, close_request env r)"
| "req_exec env StopWaiting r = ([], None, r\<lparr>rq_shot := os_drop_rx env (rq_shot r)\<rparr>)"
| "req_run env [] r = ([], r)"
| "req_run env (op # ops) r =
    (case req_exec env op r of
       (lg, out, r1) \<Rightarrow> (case req_run env ops r1 of (lg', r2) \<Rightarrow> (lg @ lg', r2)))"

text \<open>
  \<^verbatim>\<open>Request::into_lua\<close>: \<open>conv\<close> is the converted value, \<open>made\<close> and \<open>put\<close> whether mlua could make the userdata
  and set its user value.  The answer channel is dropped with whatever holds it.
\<close>

definition request_into_lua ::
  "('a, 'o) oneshot_env \<Rightarrow> mlua_error + lua_value \<Rightarrow> mlua_error + nat \<Rightarrow> mlua_error + unit \<Rightarrow> 'o \<Rightarrow>
    (mlua_error + lua_value \<times> 'o request) \<times> 'o" where
  "request_into_lua env conv made put c =
    (case conv of
       Inl e \<Rightarrow> (Inl e, os_drop_tx env c)
     | Inr value \<Rightarrow>
         (case made of
            Inl e \<Rightarrow> (Inl e, os_drop_tx env c)
          | Inr u \<Rightarrow>
              (case put of
                 Inl e \<Rightarrow> (Inl e, os_drop_tx env c)
               | Inr ok \<Rightarrow> (Inr (VUserData u, \<lparr>rq_state = ReplyOpen, rq_shot = c\<rparr>), c))))"

section \<open>Requests: the requester\<close>

datatype ('req, 'e) request_error = ReqClosed 'req | NoReply | Rejected 'e

fun request_error_display :: "('e \<Rightarrow> string) \<Rightarrow> ('req, 'e) request_error \<Rightarrow> string" where
  "request_error_display d (ReqClosed v) = ''host channel is closed''"
| "request_error_display d NoReply = ''request was not answered''"
| "request_error_display d (Rejected e) = ''request was rejected: '' @ d e"

text \<open>
  \<^verbatim>\<open>Sender::request\<close>: the wait for room, then the wait for the answer.  The value in the queue is the
  request with its answer channel (here its number \<open>o\<close>).
\<close>

datatype 'req request_call = RqSend 'req nat | RqWait | RqDone

definition rq_answer ::
  "('e + 'r, 'o) oneshot_env \<Rightarrow> 'o \<Rightarrow> (('req, 'e) request_error + 'r) poll \<times> 'req request_call \<times> 'o" where
  "rq_answer env c =
    (case os_rx_poll env c of
       (Pending, c1) \<Rightarrow> (Pending, RqWait, c1)
     | (Ready None, c1) \<Rightarrow> (Ready (Inl NoReply), RqDone, c1)
     | (Ready (Some a), c1) \<Rightarrow> (Ready (map_sum Rejected id a), RqDone, c1))"

definition request_poll ::
  "('req \<times> nat, 'q) host_env \<Rightarrow> ('e + 'r, 'o) oneshot_env \<Rightarrow> waker \<Rightarrow> 'req request_call \<Rightarrow> 'q \<Rightarrow> 'o \<Rightarrow>
    (('req, 'e) request_error + 'r) poll \<times> 'req request_call \<times> 'q \<times> 'o" where
  "request_poll henv env wk call q c =
    (case call of
       RqSend req k \<Rightarrow>
         (case hs_send_poll henv (req, k) wk q of
            (Pending, q1) \<Rightarrow> (Pending, RqSend req k, q1, c)
          | (Ready (Inl (back, k')), q1) \<Rightarrow> (Ready (Inl (ReqClosed back)), RqDone, q1, c)
          | (Ready (Inr u), q1) \<Rightarrow>
              (case rq_answer env c of (r, call1, c1) \<Rightarrow> (r, call1, q1, c1)))
     | RqWait \<Rightarrow> (case rq_answer env c of (r, call1, c1) \<Rightarrow> (r, call1, q, c1))
     | RqDone \<Rightarrow> (Pending, RqDone, q, c))"

end
