(* ===== verification/Isle_Async.thy ===== *)
theory Isle_Async
  imports Isle_Actor Isle_Host_Chan
begin

text \<open>
  The async actor: \<^verbatim>\<open>AsyncIsle\<close>, its builder and its driver (\<^verbatim>\<open>src/async_isle.rs\<close>) and \<^verbatim>\<open>AsyncTask\<close>
  (\<^verbatim>\<open>src/async_task.rs\<close>).

  An \<open>async_actor\<close> is what handles, driver, tasks and the thread share: the bounded request channel, the
  task that receives requests, the coroutine requests that run beside it, and one oneshot channel for each
  request.  tokio's channels are parameters (\<open>async_env\<close>); a \<^verbatim>\<open>LocalSet\<close> polls its tasks in any order,
  one poll at a time, and catches a panic of a task.  A coroutine's future is a value \<open>'c\<close> with its poll
  (\<open>ae_co\<close>; \<open>coroutine_poll\<close> is the one the crate runs).  \<open>aa_accepted\<close>, \<open>aa_started\<close> and \<open>aa_panicked\<close> record the
  requests the channel took, the ones the thread took from it, and the ones whose code panicked.
\<close>

section \<open>State\<close>

datatype ('w, 'r, 'c) async_job = SyncJob "('w, 'r) job" | CoroutineJob "nat \<Rightarrow> 'c"

datatype ('w, 'r, 'c) async_request = AsyncRun nat "('w, 'r, 'c) async_job" nat | AsyncShutdown

datatype ('r, 'c) co_out = CoPending 'c | CoReady 'r | CoPanic

text \<open>tokio's channel, with the ends that are dropped: the receiver with the values still in it.\<close>

record ('t, 'q) request_chan = "('t, 'q) host_env" +
  rc_drop_rx :: "'q \<Rightarrow> 't list \<times> 'q"
  rc_drop_tx :: "'q \<Rightarrow> 'q"
  rc_clone_tx :: "'q \<Rightarrow> 'q"

record ('w, 'r, 'c, 'q, 'o) async_env =
  ae_chan :: "(('w, 'r, 'c) async_request, 'q) request_chan"
  ae_shot :: "('r, 'o) oneshot_env"
  ae_new_shot :: 'o
  ae_co :: "'c \<Rightarrow> token_heap \<Rightarrow> 'w \<Rightarrow> ('r, 'c) co_out \<times> token_heap \<times> 'w"

record ('w, 'c, 'q, 'o) async_actor =
  aa_vm :: 'w
  aa_heap :: token_heap
  aa_chan :: 'q
  aa_loop :: bool
  aa_local :: "(nat \<times> 'c) list"
  aa_thread :: thread_state
  aa_resp :: "nat \<Rightarrow> 'o"
  aa_fresh :: nat
  aa_accepted :: "nat list"
  aa_started :: "nat list"
  aa_panicked :: "nat list"

section \<open>The builder and the spawn\<close>

definition default_channel_capacity :: nat where
  "default_channel_capacity = 256"

text \<open>The factory is what a call of it comes to: a panic, or the new VM.\<close>

record 'v async_builder =
  ab_capacity :: nat
  ab_thread_name :: string
  ab_config :: "config option"
  ab_lua :: "(panic_payload + 'v) option"

definition builder_default :: "'v async_builder" where
  "builder_default =
    \<lparr>ab_capacity = default_channel_capacity, ab_thread_name = ''mlua-isle-async'', ab_config = None, ab_lua = None\<rparr>"

definition channel_capacity :: "nat \<Rightarrow> 'v async_builder \<Rightarrow> 'v async_builder" where
  "channel_capacity c b = b\<lparr>ab_capacity := c\<rparr>"

definition builder_thread_name :: "string \<Rightarrow> 'v async_builder \<Rightarrow> 'v async_builder" where
  "builder_thread_name n b = b\<lparr>ab_thread_name := n\<rparr>"

definition builder_config :: "config \<Rightarrow> 'v async_builder \<Rightarrow> 'v async_builder" where
  "builder_config c b = b\<lparr>ab_config := Some c\<rparr>"

definition builder_lua :: "panic_payload + 'v \<Rightarrow> 'v async_builder \<Rightarrow> 'v async_builder" where
  "builder_lua f b = b\<lparr>ab_lua := Some f\<rparr>"

definition async_actor_new :: "'w \<Rightarrow> token_heap \<Rightarrow> 'q \<Rightarrow> (nat \<Rightarrow> 'o) \<Rightarrow> ('w, 'c, 'q, 'o) async_actor" where
  "async_actor_new vm h q resp =
    \<lparr>aa_vm = vm, aa_heap = h, aa_chan = q, aa_loop = True, aa_local = [], aa_thread = Serving, aa_resp = resp,
     aa_fresh = 0, aa_accepted = [], aa_started = [], aa_panicked = []\<rparr>"

text \<open>
  \<^verbatim>\<open>spawn_inner\<close>: \<open>mk\<close> makes the channel, \<open>None\<close> for the capacities tokio panics on; \<open>refused\<close> is the error of a
  thread that cannot be started, \<open>rt\<close> that of a runtime that cannot be built; \<open>fresh\<close> is the VM of \<^verbatim>\<open>Lua::new\<close>.
\<close>

definition spawn_inner ::
  "'u lua_env \<Rightarrow> (nat \<Rightarrow> 'q option) \<Rightarrow> string option \<Rightarrow> string option \<Rightarrow> 'u isle_vm \<Rightarrow> token_heap \<Rightarrow> (nat \<Rightarrow> 'o) \<Rightarrow>
    ('u isle_vm \<Rightarrow> (mlua_error + 't) job_out \<times> 'u isle_vm) \<Rightarrow> 'u isle_vm async_builder \<Rightarrow>
    (isle_error + ('u isle_vm, 'c, 'q, 'o) async_actor \<times> 't) option" where
  "spawn_inner E mk refused rt fresh h resp init b =
    (case mk (ab_capacity b) of
       None \<Rightarrow> None
     | Some q \<Rightarrow> Some
         (case refused of
            Some m \<Rightarrow> Inl (Init (from_mlua (ls_disp (lu_show E)) (ExternalError (OtherPayload m))))
          | None \<Rightarrow>
              (case rt of
                 Some m \<Rightarrow> Inl (Init (failure_new KExternal (''tokio runtime build failed: '' @ m)))
               | None \<Rightarrow>
                   (case (case ab_lua b of Some made \<Rightarrow> made | None \<Rightarrow> Inr fresh) of
                      Inl p \<Rightarrow> Inl (ThreadPanic (panic_message p))
                    | Inr v \<Rightarrow>
                        (case setup_vm E (ab_config b) init v of
                           (JobPanic p, v1) \<Rightarrow> Inl (ThreadPanic (panic_message p))
                         | (JobSent (Inl e), v1) \<Rightarrow> Inl e
                         | (JobSent (Inr x), v1) \<Rightarrow> Inr (async_actor_new v1 h q resp, x))))))"

text \<open>\<^verbatim>\<open>AsyncIsleBuilder::spawn_with\<close> and \<^verbatim>\<open>spawn\<close>, \<^verbatim>\<open>AsyncIsle::builder\<close> and \<^verbatim>\<open>spawn\<close>.\<close>

definition builder_spawn_with ::
  "'u lua_env \<Rightarrow> (nat \<Rightarrow> 'q option) \<Rightarrow> string option \<Rightarrow> string option \<Rightarrow> 'u isle_vm \<Rightarrow> token_heap \<Rightarrow> (nat \<Rightarrow> 'o) \<Rightarrow>
    ('u isle_vm \<Rightarrow> (mlua_error + 't) job_out \<times> 'u isle_vm) \<Rightarrow> 'u isle_vm async_builder \<Rightarrow>
    (isle_error + ('u isle_vm, 'c, 'q, 'o) async_actor \<times> 't) option" where
  "builder_spawn_with E mk refused rt fresh h resp init b =
    spawn_inner E mk refused rt fresh h resp init
      \<lparr>ab_capacity = ab_capacity b, ab_thread_name = ab_thread_name b, ab_config = ab_config b, ab_lua = ab_lua b\<rparr>"

definition builder_spawn ::
  "'u lua_env \<Rightarrow> (nat \<Rightarrow> 'q option) \<Rightarrow> string option \<Rightarrow> string option \<Rightarrow> 'u isle_vm \<Rightarrow> token_heap \<Rightarrow> (nat \<Rightarrow> 'o) \<Rightarrow>
    ('u isle_vm \<Rightarrow> (mlua_error + unit) job_out \<times> 'u isle_vm) \<Rightarrow> 'u isle_vm async_builder \<Rightarrow>
    (isle_error + ('u isle_vm, 'c, 'q, 'o) async_actor) option" where
  "builder_spawn E mk refused rt fresh h resp init b =
    (case builder_spawn_with E mk refused rt fresh h resp init b of
       None \<Rightarrow> None
     | Some (Inl e) \<Rightarrow> Some (Inl e)
     | Some (Inr (isle, u)) \<Rightarrow> Some (Inr isle))"

definition isle_builder :: "'v async_builder" where
  "isle_builder = builder_default"

definition async_isle_spawn ::
  "'u lua_env \<Rightarrow> (nat \<Rightarrow> 'q option) \<Rightarrow> string option \<Rightarrow> string option \<Rightarrow> 'u isle_vm \<Rightarrow> token_heap \<Rightarrow> (nat \<Rightarrow> 'o) \<Rightarrow>
    ('u isle_vm \<Rightarrow> (mlua_error + unit) job_out \<times> 'u isle_vm) \<Rightarrow>
    (isle_error + ('u isle_vm, 'c, 'q, 'o) async_actor) option" where
  "async_isle_spawn E mk refused rt fresh h resp init = builder_spawn E mk refused rt fresh h resp init isle_builder"

section \<open>Submitting\<close>

record async_task =
  at_resp :: nat
  at_cancel :: nat
  at_released :: bool

definition async_task_new :: "nat \<Rightarrow> nat \<Rightarrow> async_task" where
  "async_task_new k t = \<lparr>at_resp = k, at_cancel = t, at_released = False\<rparr>"

definition put_shot :: "nat \<Rightarrow> 'o \<Rightarrow> ('w, 'c, 'q, 'o) async_actor \<Rightarrow> ('w, 'c, 'q, 'o) async_actor" where
  "put_shot k c a = a\<lparr>aa_resp := (aa_resp a)(k := c)\<rparr>"

definition send_result ::
  "('w, 'r, 'c, 'q, 'o) async_env \<Rightarrow> nat \<Rightarrow> 'r \<Rightarrow> ('w, 'c, 'q, 'o) async_actor \<Rightarrow> ('w, 'c, 'q, 'o) async_actor" where
  "send_result env k r a = put_shot k (snd (os_send (ae_shot env) r (aa_resp a k))) a"

definition drop_sender ::
  "('w, 'r, 'c, 'q, 'o) async_env \<Rightarrow> nat \<Rightarrow> ('w, 'c, 'q, 'o) async_actor \<Rightarrow> ('w, 'c, 'q, 'o) async_actor" where
  "drop_sender env k a = put_shot k (os_drop_tx (ae_shot env) (aa_resp a k)) a"

fun try_send_to_isle_error :: "'t mpsc_try_send \<Rightarrow> isle_error" where
  "try_send_to_isle_error (MpscFull x) = ChannelFull"
| "try_send_to_isle_error (MpscClosed x) = Shutdown"

text \<open>A new channel of a task, with the number \<open>k\<close>, and \<open>make_error_task\<close>.\<close>

definition new_shot ::
  "('w, 'r, 'c, 'q, 'o) async_env \<Rightarrow> ('w, 'c, 'q, 'o) async_actor \<Rightarrow> nat \<times> ('w, 'c, 'q, 'o) async_actor" where
  "new_shot env a = (aa_fresh a, (put_shot (aa_fresh a) (ae_new_shot env) a)\<lparr>aa_fresh := Suc (aa_fresh a)\<rparr>)"

definition make_error_task ::
  "('w, isle_error + 'b, 'c, 'q, 'o) async_env \<Rightarrow> isle_error \<Rightarrow> nat \<Rightarrow> ('w, 'c, 'q, 'o) async_actor \<Rightarrow>
    async_task \<times> ('w, 'c, 'q, 'o) async_actor" where
  "make_error_task env e t a =
    (let (k, a1) = new_shot env a in (async_task_new k t, send_result env k (Inl e) a1))"

text \<open>\<^verbatim>\<open>submit\<close>.  A refused request is dropped with the sender of its channel, which nobody receives from.\<close>

definition async_submit ::
  "('w, isle_error + 'b, 'c, 'q, 'o) async_env \<Rightarrow> ('w, isle_error + 'b, 'c) async_job \<Rightarrow>
    ('w, 'c, 'q, 'o) async_actor \<Rightarrow> async_task \<times> ('w, 'c, 'q, 'o) async_actor" where
  "async_submit env job a =
    (let (t, h) = token_new None (aa_heap a);
         a1 = a\<lparr>aa_heap := h\<rparr>;
         (k, a2) = new_shot env a1
     in case hs_try_send (ae_chan env) (AsyncRun k job t) (aa_chan a2) of
          (Inr u, q) \<Rightarrow> (async_task_new k t, a2\<lparr>aa_chan := q, aa_accepted := aa_accepted a2 @ [k]\<rparr>)
        | (Inl e, q) \<Rightarrow>
            make_error_task env (try_send_to_isle_error e) t (drop_sender env k (a2\<lparr>aa_chan := q\<rparr>)))"

text \<open>\<^verbatim>\<open>IsleFunction\<close>: a registry key and the isle it belongs to; isles are numbered.\<close>

record isle_function =
  if_key :: nat
  if_isle :: nat

definition refuse_foreign ::
  "('w, isle_error + 'b, 'c, 'q, 'o) async_env \<Rightarrow> nat \<Rightarrow> isle_function \<Rightarrow> ('w, 'c, 'q, 'o) async_actor \<Rightarrow>
    (async_task \<times> ('w, 'c, 'q, 'o) async_actor) option" where
  "refuse_foreign env isle func a =
    (if if_isle func = isle then None
     else let (t, h) = token_new None (aa_heap a) in Some (make_error_task env WrongIsle t (a\<lparr>aa_heap := h\<rparr>)))"

definition submit_fn ::
  "('w, isle_error + 'b, 'c, 'q, 'o) async_env \<Rightarrow> nat \<Rightarrow> isle_function \<Rightarrow> (nat \<Rightarrow> ('w, isle_error + 'b, 'c) async_job) \<Rightarrow>
    ('w, 'c, 'q, 'o) async_actor \<Rightarrow> async_task \<times> ('w, 'c, 'q, 'o) async_actor" where
  "submit_fn env isle func job a =
    (case refuse_foreign env isle func a of
       Some r \<Rightarrow> r
     | None \<Rightarrow> async_submit env (job (if_key func)) a)"

definition async_is_alive :: "('w, 'r, 'c, 'q, 'o) async_env \<Rightarrow> ('w, 'c, 'q, 'o) async_actor \<Rightarrow> bool" where
  "async_is_alive env a \<longleftrightarrow> \<not> hs_is_closed (ae_chan env) (aa_chan a)"

section \<open>The thread\<close>

definition drop_async_request ::
  "('w, 'r, 'c, 'q, 'o) async_env \<Rightarrow> ('w, 'r, 'c) async_request \<Rightarrow> ('w, 'c, 'q, 'o) async_actor \<Rightarrow>
    ('w, 'c, 'q, 'o) async_actor" where
  "drop_async_request env rq a = (case rq of AsyncRun k job t \<Rightarrow> drop_sender env k a | AsyncShutdown \<Rightarrow> a)"

text \<open>The end of the receiving task: its receiver is dropped with the requests in it.\<close>

definition loop_end ::
  "('w, 'r, 'c, 'q, 'o) async_env \<Rightarrow> ('w, 'c, 'q, 'o) async_actor \<Rightarrow> ('w, 'c, 'q, 'o) async_actor" where
  "loop_end env a =
    (let (dropped, q) = rc_drop_rx (ae_chan env) (aa_chan a)
     in fold (drop_async_request env) dropped (a\<lparr>aa_chan := q, aa_loop := False\<rparr>))"

text \<open>A poll of the receiving task, up to its \<^verbatim>\<open>recv\<close> or its \<^verbatim>\<open>yield_now\<close>.\<close>

definition loop_poll ::
  "('w, 'r, 'c, 'q, 'o) async_env \<Rightarrow> waker \<Rightarrow> ('w, 'c, 'q, 'o) async_actor \<Rightarrow> ('w, 'c, 'q, 'o) async_actor" where
  "loop_poll env wk a =
    (if \<not> aa_loop a then a
     else case hr_recv_poll (ae_chan env) wk (aa_chan a) of
       (Pending, q) \<Rightarrow> a\<lparr>aa_chan := q\<rparr>
     | (Ready None, q) \<Rightarrow> loop_end env (a\<lparr>aa_chan := q\<rparr>)
     | (Ready (Some AsyncShutdown), q) \<Rightarrow> loop_end env (a\<lparr>aa_chan := q\<rparr>)
     | (Ready (Some (AsyncRun k job t)), q) \<Rightarrow>
         let a1 = a\<lparr>aa_chan := q, aa_started := aa_started a @ [k]\<rparr>
         in (case job of
               CoroutineJob mk \<Rightarrow> a1\<lparr>aa_local := aa_local a1 @ [(k, mk t)]\<rparr>
             | SyncJob run \<Rightarrow>
                 (case run t (aa_heap a1) (aa_vm a1) of
                    (JobSent r, h, w) \<Rightarrow> send_result env k r (a1\<lparr>aa_heap := h, aa_vm := w\<rparr>)
                  | (JobPanic p, h, w) \<Rightarrow>
                      loop_end env (drop_sender env k
                        (a1\<lparr>aa_heap := h, aa_vm := w, aa_panicked := aa_panicked a1 @ [k]\<rparr>)))))"

text \<open>A poll of the \<open>i\<close>-th coroutine request.\<close>

definition local_poll ::
  "('w, 'r, 'c, 'q, 'o) async_env \<Rightarrow> nat \<Rightarrow> ('w, 'c, 'q, 'o) async_actor \<Rightarrow> ('w, 'c, 'q, 'o) async_actor" where
  "local_poll env i a =
    (if length (aa_local a) \<le> i then a
     else let (k, c) = aa_local a ! i; rest = take i (aa_local a) @ drop (Suc i) (aa_local a)
     in case ae_co env c (aa_heap a) (aa_vm a) of
          (CoPending c', h, w) \<Rightarrow> a\<lparr>aa_heap := h, aa_vm := w, aa_local := (aa_local a)[i := (k, c')]\<rparr>
        | (CoReady r, h, w) \<Rightarrow> send_result env k r (a\<lparr>aa_heap := h, aa_vm := w, aa_local := rest\<rparr>)
        | (CoPanic, h, w) \<Rightarrow>
            drop_sender env k (a\<lparr>aa_heap := h, aa_vm := w, aa_local := rest, aa_panicked := aa_panicked a @ [k]\<rparr>))"

text \<open>\<^verbatim>\<open>block_on(local)\<close> returns once every task of the set has ended; then the thread signals and ends.\<close>

definition thread_exit :: "('w, 'c, 'q, 'o) async_actor \<Rightarrow> ('w, 'c, 'q, 'o) async_actor" where
  "thread_exit a =
    (if \<not> aa_loop a \<and> aa_local a = [] \<and> aa_thread a = Serving then a\<lparr>aa_thread := Exited\<rparr> else a)"

section \<open>The driver\<close>

datatype driver_call = DriverSend | DriverWait | DriverDone

fun shutdown_result :: "bool \<Rightarrow> panic_payload option \<Rightarrow> isle_error + unit" where
  "shutdown_result signalled (Some p) = Inl (ThreadPanic (panic_message p))"
| "shutdown_result True None = Inr ()"
| "shutdown_result False None = Inl (ThreadPanic None)"

text \<open>The wait for the signal and the join; the driver's sender is dropped at the end.\<close>

definition driver_wait ::
  "('w, 'r, 'c, 'q, 'o) async_env \<Rightarrow> ('w, 'c, 'q, 'o) async_actor \<Rightarrow>
    (isle_error + unit) poll \<times> driver_call \<times> ('w, 'c, 'q, 'o) async_actor" where
  "driver_wait env a =
    (case aa_thread a of
       Serving \<Rightarrow> (Pending, DriverWait, a)
     | Exited \<Rightarrow> (Ready (shutdown_result True None), DriverDone, a\<lparr>aa_chan := rc_drop_tx (ae_chan env) (aa_chan a)\<rparr>)
     | Panicked p \<Rightarrow>
         (Ready (shutdown_result False (Some p)), DriverDone, a\<lparr>aa_chan := rc_drop_tx (ae_chan env) (aa_chan a)\<rparr>))"

definition driver_poll ::
  "('w, 'r, 'c, 'q, 'o) async_env \<Rightarrow> waker \<Rightarrow> driver_call \<Rightarrow> ('w, 'c, 'q, 'o) async_actor \<Rightarrow>
    (isle_error + unit) poll \<times> driver_call \<times> ('w, 'c, 'q, 'o) async_actor" where
  "driver_poll env wk call a =
    (case call of
       DriverSend \<Rightarrow>
         (case hs_send_poll (ae_chan env) AsyncShutdown wk (aa_chan a) of
            (Pending, q) \<Rightarrow> (Pending, DriverSend, a\<lparr>aa_chan := q\<rparr>)
          | (Ready r, q) \<Rightarrow> driver_wait env (a\<lparr>aa_chan := q\<rparr>))
     | DriverWait \<Rightarrow> driver_wait env a
     | DriverDone \<Rightarrow> (Pending, DriverDone, a))"

definition driver_is_alive :: "('w, 'c, 'q, 'o) async_actor \<Rightarrow> bool" where
  "driver_is_alive a \<longleftrightarrow> aa_thread a = Serving"

section \<open>AsyncTask\<close>

definition async_task_poll ::
  "('w, isle_error + 'b, 'c, 'q, 'o) async_env \<Rightarrow> async_task \<Rightarrow> ('w, 'c, 'q, 'o) async_actor \<Rightarrow>
    (isle_error + 'b) poll \<times> async_task \<times> ('w, 'c, 'q, 'o) async_actor" where
  "async_task_poll env k a =
    (case os_rx_poll (ae_shot env) (aa_resp a (at_resp k)) of
       (Pending, c) \<Rightarrow> (Pending, k, put_shot (at_resp k) c a)
     | (Ready (Some r), c) \<Rightarrow> (Ready r, k\<lparr>at_released := True\<rparr>, put_shot (at_resp k) c a)
     | (Ready None, c) \<Rightarrow> (Ready (Inl RecvFailed), k\<lparr>at_released := True\<rparr>, put_shot (at_resp k) c a))"

definition async_task_cancel :: "async_task \<Rightarrow> ('w, 'c, 'q, 'o) async_actor \<Rightarrow> ('w, 'c, 'q, 'o) async_actor" where
  "async_task_cancel k a = a\<lparr>aa_heap := cancel (at_cancel k) (aa_heap a)\<rparr>"

definition async_task_drop ::
  "('w, 'r, 'c, 'q, 'o) async_env \<Rightarrow> async_task \<Rightarrow> ('w, 'c, 'q, 'o) async_actor \<Rightarrow> ('w, 'c, 'q, 'o) async_actor" where
  "async_task_drop env k a =
    (let a1 = (if at_released k then a else async_task_cancel k a)
     in put_shot (at_resp k) (os_drop_rx (ae_shot env) (aa_resp a1 (at_resp k))) a1)"

definition async_task_detach ::
  "('w, 'r, 'c, 'q, 'o) async_env \<Rightarrow> async_task \<Rightarrow> ('w, 'c, 'q, 'o) async_actor \<Rightarrow> ('w, 'c, 'q, 'o) async_actor" where
  "async_task_detach env k a = async_task_drop env (k\<lparr>at_released := True\<rparr>) a"

section \<open>The requests on the VM\<close>

text \<open>
  The sync requests are those of \<open>Isle_Actor\<close>; \<^verbatim>\<open>call_fn\<close> calls the function under a key.  The future of a
  coroutine request: before its first poll it is what to run; then it is a \<^verbatim>\<open>run_root\<close> future \<open>'f\<close> of its
  own scope, given by \<open>start\<close> and \<open>poll\<close>, which also reports a panic as \<open>None\<close>.
\<close>

definition call_fn_job ::
  "'u lua_env \<Rightarrow> ('u, 'a, lua_value list) conversion \<Rightarrow> ('u, lua_value list, 'b) conversion \<Rightarrow> 'a \<Rightarrow> nat \<Rightarrow>
    ('u isle_vm, isle_error + 'b, 'c) async_job" where
  "call_fn_job E from_a to_t args key =
    SyncJob (vm_job (\<lambda>t v. let (r, v1) = execute_call_fn E from_a to_t key args t v in (JobSent r, v1)))"

datatype ('a, 'f) co_call = CoEval string | CoCall string 'a | CoCallFn nat 'a | CoRun 'f

record ('u, 'f) co_runner =
  cr_start :: "nat \<Rightarrow> nat \<Rightarrow> lua_value list \<Rightarrow> 'u isle_vm \<Rightarrow> 'f \<times> 'u isle_vm"
  cr_poll :: "'f \<Rightarrow> 'u isle_vm \<Rightarrow> ((isle_error + lua_value list) poll option \<times> 'f) \<times> 'u isle_vm"

definition co_convert ::
  "'u lua_env \<Rightarrow> ('u, lua_value list, 'b) conversion \<Rightarrow> nat \<Rightarrow> lua_value list \<Rightarrow> 'u isle_vm \<Rightarrow>
    (isle_error + 'b) \<times> 'u isle_vm" where
  "co_convert E to_t t values v =
    (let (prev, v1) = enter_vm t v; (r, v2) = to_t values v1
     in (map_sum (from_lua_error E) id r, leave_vm prev v2))"

definition co_resume ::
  "'u lua_env \<Rightarrow> ('u, 'f) co_runner \<Rightarrow> ('u, lua_value list, 'b) conversion \<Rightarrow> nat \<Rightarrow> 'f \<Rightarrow> 'u isle_vm \<Rightarrow>
    (isle_error + 'b, ('a, 'f) co_call) co_out \<times> 'u isle_vm" where
  "co_resume E R to_t t f v =
    (case cr_poll R f v of
       ((None, f1), v1) \<Rightarrow> (CoPanic, v1)
     | ((Some Pending, f1), v1) \<Rightarrow> (CoPending (CoRun f1), v1)
     | ((Some (Ready (Inl e)), f1), v1) \<Rightarrow> (CoReady (Inl e), v1)
     | ((Some (Ready (Inr values)), f1), v1) \<Rightarrow> let (r, v2) = co_convert E to_t t values v1 in (CoReady r, v2))"

text \<open>\<^verbatim>\<open>Vm::run\<close>, up to its first poll.\<close>

definition vm_run ::
  "'u lua_env \<Rightarrow> ('u, 'f) co_runner \<Rightarrow> ('u, 'a, lua_value list) conversion \<Rightarrow> nat \<Rightarrow> nat \<Rightarrow> 'a \<Rightarrow> 'u isle_vm \<Rightarrow>
    (isle_error + 'f) \<times> 'u isle_vm" where
  "vm_run E R from_a t func args v =
    (case from_a args v of
       (Inl e, v1) \<Rightarrow> (Inl (from_lua_error E e), v1)
     | (Inr multi, v1) \<Rightarrow> let (f, v2) = cr_start R t func multi v1 in (Inr f, v2))"

text \<open>\<^verbatim>\<open>vm(lua)?.run(cancel, func, args)\<close>, once the function and the arguments are there.\<close>

definition co_begin ::
  "'u lua_env \<Rightarrow> ('u, 'f) co_runner \<Rightarrow> ('u, lua_value list, 'b) conversion \<Rightarrow> nat \<Rightarrow> nat \<Rightarrow> lua_value list \<Rightarrow> 'u isle_vm \<Rightarrow>
    (isle_error + 'b, ('a, 'f) co_call) co_out \<times> 'u isle_vm" where
  "co_begin E R to_t t func args v =
    (case of_or_attach E v of
       (Inl e, v1) \<Rightarrow> (CoReady (Inl e), v1)
     | (Inr u, v1) \<Rightarrow>
         (case vm_run E R (\<lambda>multi w. (Inr multi, w)) t func args v1 of
            (Inl e, v2) \<Rightarrow> (CoReady (Inl e), v2)
          | (Inr f, v2) \<Rightarrow> co_resume E R to_t t f v2))"

definition co_with_args ::
  "'u lua_env \<Rightarrow> ('u, 'f) co_runner \<Rightarrow> ('u, 'a, lua_value list) conversion \<Rightarrow> ('u, lua_value list, 'b) conversion \<Rightarrow>
    nat \<Rightarrow> nat \<Rightarrow> 'a \<Rightarrow> 'u isle_vm \<Rightarrow> (isle_error + 'b, ('a, 'f) co_call) co_out \<times> 'u isle_vm" where
  "co_with_args E R from_a to_t t func args v =
    (case from_a args v of
       (Inl e, v1) \<Rightarrow> (CoReady (Inl (from_lua_error E e)), v1)
     | (Inr multi, v1) \<Rightarrow> co_begin E R to_t t func multi v1)"

definition coroutine_step ::
  "'u lua_env \<Rightarrow> ('u, 'f) co_runner \<Rightarrow> ('u, 'a, lua_value list) conversion \<Rightarrow> ('u, lua_value list, 'b) conversion \<Rightarrow>
    nat \<Rightarrow> ('a, 'f) co_call \<Rightarrow> 'u isle_vm \<Rightarrow> (isle_error + 'b, ('a, 'f) co_call) co_out \<times> 'u isle_vm" where
  "coroutine_step E R from_a to_t t call v =
    (case call of
       CoEval code \<Rightarrow>
         (case lu_load E ''=coroutine_eval'' code of
            Inl e \<Rightarrow> (CoReady (Inl (from_lua_error E e)), v)
          | Inr func \<Rightarrow> co_begin E R to_t t func [] v)
     | CoCall name args \<Rightarrow>
         (case global_function E name v of
            (Inl e, v1) \<Rightarrow> (CoReady (Inl e), v1)
          | (Inr func, v1) \<Rightarrow> co_with_args E R from_a to_t t func args v1)
     | CoCallFn key args \<Rightarrow>
         (case lu_registry E key of
            Inl e \<Rightarrow> (CoReady (Inl (from_lua_error E e)), v)
          | Inr func \<Rightarrow> co_with_args E R from_a to_t t func args v)
     | CoRun f \<Rightarrow> co_resume E R to_t t f v)"

text \<open>The future of the job: what it runs, with its token.\<close>

definition coroutine_poll ::
  "'u lua_env \<Rightarrow> ('u, 'f) co_runner \<Rightarrow> ('u, 'a, lua_value list) conversion \<Rightarrow> ('u, lua_value list, 'b) conversion \<Rightarrow>
    nat \<times> ('a, 'f) co_call \<Rightarrow> token_heap \<Rightarrow> 'u isle_vm \<Rightarrow>
    (isle_error + 'b, nat \<times> ('a, 'f) co_call) co_out \<times> token_heap \<times> 'u isle_vm" where
  "coroutine_poll E R from_a to_t c h v =
    (case coroutine_step E R from_a to_t (fst c) (snd c) (v\<lparr>iv_heap := h\<rparr>) of
       (CoPending call, v1) \<Rightarrow> (CoPending (fst c, call), iv_heap v1, v1)
     | (CoReady r, v1) \<Rightarrow> (CoReady r, iv_heap v1, v1)
     | (CoPanic, v1) \<Rightarrow> (CoPanic, iv_heap v1, v1))"

text \<open>The public requests.\<close>

definition coroutine_job :: "('a, 'f) co_call \<Rightarrow> ('w, 'r, nat \<times> ('a, 'f) co_call) async_job" where
  "coroutine_job call = CoroutineJob (\<lambda>t. (t, call))"

definition spawn_coroutine_eval ::
  "('w, isle_error + 'b, nat \<times> ('a, 'f) co_call, 'q, 'o) async_env \<Rightarrow> string \<Rightarrow>
    ('w, nat \<times> ('a, 'f) co_call, 'q, 'o) async_actor \<Rightarrow> async_task \<times> ('w, nat \<times> ('a, 'f) co_call, 'q, 'o) async_actor" where
  "spawn_coroutine_eval env code a = async_submit env (coroutine_job (CoEval code)) a"

definition spawn_coroutine_call ::
  "('w, isle_error + 'b, nat \<times> ('a, 'f) co_call, 'q, 'o) async_env \<Rightarrow> string \<Rightarrow> 'a \<Rightarrow>
    ('w, nat \<times> ('a, 'f) co_call, 'q, 'o) async_actor \<Rightarrow> async_task \<times> ('w, nat \<times> ('a, 'f) co_call, 'q, 'o) async_actor" where
  "spawn_coroutine_call env name args a = async_submit env (coroutine_job (CoCall name args)) a"

definition spawn_coroutine_call_fn ::
  "('w, isle_error + 'b, nat \<times> ('a, 'f) co_call, 'q, 'o) async_env \<Rightarrow> nat \<Rightarrow> isle_function \<Rightarrow> 'a \<Rightarrow>
    ('w, nat \<times> ('a, 'f) co_call, 'q, 'o) async_actor \<Rightarrow> async_task \<times> ('w, nat \<times> ('a, 'f) co_call, 'q, 'o) async_actor" where
  "spawn_coroutine_call_fn env isle func args a =
    submit_fn env isle func (\<lambda>key. coroutine_job (CoCallFn key args)) a"

definition async_spawn_eval ::
  "'u lua_env \<Rightarrow> ('u, lua_value list, 'b) conversion \<Rightarrow> ('u isle_vm, isle_error + 'b, 'c, 'q, 'o) async_env \<Rightarrow> string \<Rightarrow>
    ('u isle_vm, 'c, 'q, 'o) async_actor \<Rightarrow> async_task \<times> ('u isle_vm, 'c, 'q, 'o) async_actor" where
  "async_spawn_eval E to_t env code a = async_submit env (SyncJob (eval_job E to_t code)) a"

definition async_spawn_call ::
  "'u lua_env \<Rightarrow> ('u, 'a, lua_value list) conversion \<Rightarrow> ('u, lua_value list, 'b) conversion \<Rightarrow>
    ('u isle_vm, isle_error + 'b, 'c, 'q, 'o) async_env \<Rightarrow> string \<Rightarrow> 'a \<Rightarrow>
    ('u isle_vm, 'c, 'q, 'o) async_actor \<Rightarrow> async_task \<times> ('u isle_vm, 'c, 'q, 'o) async_actor" where
  "async_spawn_call E from_a to_t env name args a = async_submit env (SyncJob (call_job E from_a to_t name args)) a"

definition async_spawn_exec ::
  "'u lua_env \<Rightarrow> ('u isle_vm \<Rightarrow> (isle_error + 'b) job_out \<times> 'u isle_vm) \<Rightarrow>
    ('u isle_vm, isle_error + 'b, 'c, 'q, 'o) async_env \<Rightarrow>
    ('u isle_vm, 'c, 'q, 'o) async_actor \<Rightarrow> async_task \<times> ('u isle_vm, 'c, 'q, 'o) async_actor" where
  "async_spawn_exec E f env a = async_submit env (SyncJob (exec_job E f)) a"

definition async_spawn_call_fn ::
  "'u lua_env \<Rightarrow> ('u, 'a, lua_value list) conversion \<Rightarrow> ('u, lua_value list, 'b) conversion \<Rightarrow>
    ('u isle_vm, isle_error + 'b, 'c, 'q, 'o) async_env \<Rightarrow> nat \<Rightarrow> isle_function \<Rightarrow> 'a \<Rightarrow>
    ('u isle_vm, 'c, 'q, 'o) async_actor \<Rightarrow> async_task \<times> ('u isle_vm, 'c, 'q, 'o) async_actor" where
  "async_spawn_call_fn E from_a to_t env isle func args a =
    submit_fn env isle func (call_fn_job E from_a to_t args) a"

text \<open>\<^verbatim>\<open>function\<close>: the exec that stores the function, and the handle made of its key.\<close>

definition function_job ::
  "'u lua_env \<Rightarrow> ('u isle_vm \<Rightarrow> (mlua_error + nat) job_out \<times> 'u isle_vm) \<Rightarrow>
    ('u isle_vm \<Rightarrow> nat \<Rightarrow> (mlua_error + nat) \<times> 'u isle_vm) \<Rightarrow> ('u isle_vm, isle_error + nat, 'c) async_job" where
  "function_job E f store =
    SyncJob (exec_job E (\<lambda>v.
      case f v of
        (JobPanic p, v1) \<Rightarrow> (JobPanic p, v1)
      | (JobSent (Inl e), v1) \<Rightarrow> (JobSent (Inl (from_lua_error E e)), v1)
      | (JobSent (Inr func), v1) \<Rightarrow>
          let (r, v2) = store v1 func in (JobSent (map_sum (from_lua_error E) id r), v2)))"

definition isle_function_of :: "nat \<Rightarrow> isle_error + nat \<Rightarrow> isle_error + isle_function" where
  "isle_function_of isle r = map_sum id (\<lambda>key. \<lparr>if_key = key, if_isle = isle\<rparr>) r"

end
