(* ===== verification/Isle_Host_Chan_Props.thy ===== *)
theory Isle_Host_Chan_Props
  imports Isle_Host_Chan
begin

text \<open>
  A request is answered at most once, whatever Lua does with it and while it converts an answer, and the
  requester gets that answer, or learns that there is none.  tokio's \<^verbatim>\<open>oneshot\<close> is any implementation
  that behaves as documented (\<open>oneshot_ok\<close>).
\<close>

section \<open>The oneshot channel\<close>

datatype 'a shot = ShotEmpty | ShotSent 'a | ShotDropped | ShotGone

text \<open>As documented: a send reaches a receiver that is still there, once; a receiver whose sender was dropped
  gets nothing; a received value is gone.\<close>

definition oneshot_ok :: "('a, 'o) oneshot_env \<Rightarrow> ('o \<Rightarrow> 'a shot) \<Rightarrow> bool" where
  "oneshot_ok env view \<longleftrightarrow>
    (\<forall>c a. view c = ShotEmpty \<longrightarrow> fst (os_send env a c) \<and> view (snd (os_send env a c)) = ShotSent a) \<and>
    (\<forall>c a. view c = ShotGone \<longrightarrow> \<not> fst (os_send env a c) \<and> view (snd (os_send env a c)) = ShotGone) \<and>
    (\<forall>c. view c = ShotEmpty \<longrightarrow> view (os_drop_tx env c) = ShotDropped) \<and>
    (\<forall>c. view c = ShotGone \<longrightarrow> view (os_drop_tx env c) = ShotGone) \<and>
    (\<forall>c. view (os_drop_rx env c) = ShotGone) \<and>
    (\<forall>c. view c = ShotEmpty \<longrightarrow> fst (os_rx_poll env c) = Pending) \<and>
    (\<forall>c a. view c = ShotSent a \<longrightarrow> fst (os_rx_poll env c) = Ready (Some a) \<and> view (snd (os_rx_poll env c)) = ShotGone) \<and>
    (\<forall>c. view c = ShotDropped \<longrightarrow> fst (os_rx_poll env c) = Ready None) \<and>
    (\<forall>c. (\<forall>a. view c \<noteq> ShotSent a) \<longrightarrow> view (snd (os_rx_poll env c)) = view c)"

section \<open>One answer\<close>

text \<open>The answers given so far and the request agree.\<close>

definition served :: "('o \<Rightarrow> 'a shot) \<Rightarrow> ('a \<times> bool) list \<Rightarrow> 'o request \<Rightarrow> bool" where
  "served view lg r \<longleftrightarrow>
    length lg = (if rq_state r = ReplyAnswered then 1 else 0) \<and>
    (view (rq_shot r) = ShotGone \<or>
     view (rq_shot r) =
       (case rq_state r of
          ReplyOpen \<Rightarrow> ShotEmpty | ReplyAnswered \<Rightarrow> ShotSent (fst (hd lg)) | ReplyClosed \<Rightarrow> ShotDropped))"

lemma answer_closed:
  "rq_state r \<noteq> ReplyOpen \<Longrightarrow> answer env meth a r = (Inl (the (answered_error meth (rq_state r))), r)"
  by (cases "rq_state r") (simp_all add: answer_def)

lemma answer_open:
  assumes "oneshot_ok env view" and "served view lg r" and "rq_state r = ReplyOpen"
  shows "\<exists>b r'. answer env meth a r = (Inr b, r') \<and> served view (lg @ [(a, b)]) r'"
proof -
  obtain b c where s: "os_send env a (rq_shot r) = (b, c)" by fastforce
  have "view (rq_shot r) = ShotGone \<or> view (rq_shot r) = ShotEmpty" "lg = []"
    using assms(2,3) by (auto simp: served_def)
  then have "view c = ShotGone \<or> view c = ShotSent a"
    using assms(1) s unfolding oneshot_ok_def by (metis snd_conv)
  then show ?thesis using assms(3) s \<open>lg = []\<close> by (auto simp: answer_def served_def Let_def)
qed

lemma answer_served:
  assumes "oneshot_ok env view" and "served view lg r" and "answer env meth a r = (out, r')"
  shows "served view (lg @ (case out of Inr b \<Rightarrow> [(a, b)] | Inl e \<Rightarrow> [])) r'"
proof (cases "rq_state r = ReplyOpen")
  case True
  from answer_open [OF assms(1,2) True, where meth = meth and a = a] assms(3) show ?thesis by auto
next
  case False
  from answer_closed [OF this, where env = env and meth = meth and a = a] assms(2,3) show ?thesis by auto
qed

lemma close_served: "oneshot_ok env view \<Longrightarrow> served view lg r \<Longrightarrow> served view lg (close_request env r)"
  by (auto simp: close_request_def served_def oneshot_ok_def)

lemma stop_served:
  "oneshot_ok env view \<Longrightarrow> served view lg r \<Longrightarrow> served view lg (r\<lparr>rq_shot := os_drop_rx env (rq_shot r)\<rparr>)"
  by (auto simp: served_def oneshot_ok_def)

lemma req_served:
  fixes env :: "('e + 'r, 'o) oneshot_env"
  shows "oneshot_ok env view \<Longrightarrow> served view lg0 r \<Longrightarrow> req_exec env op r = (lg, out, r') \<Longrightarrow> served view (lg0 @ lg) r'"
    and "oneshot_ok env view \<Longrightarrow> served view lg0 r \<Longrightarrow> req_run env ops r = (lg, r') \<Longrightarrow> served view (lg0 @ lg) r'"
proof (induction env op r and env ops r arbitrary: lg0 lg out r' and lg0 lg r' rule: req_exec_req_run.induct)
  case (1 env meanwhile conv r)
  show ?case
  proof (cases "answered_error ''reply'' (rq_state r)")
    case None
    obtain l1 r1 where m: "req_run env meanwhile r = (l1, r1)" by fastforce
    have s: "served view (lg0 @ l1) r1" using "1.IH" [OF None "1.prems"(1,2) m] .
    show ?thesis
    proof (cases conv)
      case (Inr v)
      obtain o2 r2 where "answer env ''reply'' (Inr v) r1 = (o2, r2)" by fastforce
      with answer_served [OF "1.prems"(1) s this] "1.prems"(3) None m Inr show ?thesis
        by (auto split: sum.splits)
    qed (use "1.prems"(3) None m s in auto)
  qed (use "1.prems" in auto)
next
  case (2 env meanwhile conv r)
  show ?case
  proof (cases "answered_error ''reject'' (rq_state r)")
    case None
    obtain l1 r1 where m: "req_run env meanwhile r = (l1, r1)" by fastforce
    have s: "served view (lg0 @ l1) r1" using "2.IH" [OF None "2.prems"(1,2) m] .
    show ?thesis
    proof (cases conv)
      case (Inr v)
      obtain o2 r2 where "answer env ''reject'' (Inl v) r1 = (o2, r2)" by fastforce
      with answer_served [OF "2.prems"(1) s this] "2.prems"(3) None m Inr show ?thesis
        by (auto split: sum.splits)
    qed (use "2.prems"(3) None m s in auto)
  qed (use "2.prems" in auto)
next
  case (7 env op ops r)
  obtain l1 o1 r1 where e: "req_exec env op r = (l1, o1, r1)" using prod_cases3 by blast
  obtain l2 r2 where t: "req_run env ops r1 = (l2, r2)" by fastforce
  have "served view (lg0 @ l1) r1" using "7.IH"(1) [OF "7.prems"(1,2) e] .
  from "7.IH"(2) [OF e [symmetric] refl "7.prems"(1) this t] show ?case
    using "7.prems"(3) e t by simp
qed (auto intro: close_served stop_served)

text \<open>C17: A request is answered at most once, and the requester gets that answer.  Whatever Lua calls on it, in
  whatever order and also while it converts an answer, at most one \<^verbatim>\<open>reply\<close> or \<^verbatim>\<open>reject\<close> succeeds; a requester
  that still waits gets that reply or rejection, \<^verbatim>\<open>NoReply\<close> once the request was closed or collected, and
  nothing before that.\<close>

theorem request_answered_once:
  assumes "oneshot_ok env view" and "rq_state r = ReplyOpen" and "view (rq_shot r) = ShotEmpty"
    and "req_run env ops r = (lg, r')" and "view (rq_shot r') \<noteq> ShotGone"
  shows "length lg = (if replied r' then 1 else 0) \<and>
    fst (rq_answer env (rq_shot r')) =
      (case rq_state r' of
         ReplyOpen \<Rightarrow> Pending
       | ReplyAnswered \<Rightarrow> Ready (map_sum Rejected id (fst (hd lg)))
       | ReplyClosed \<Rightarrow> Ready (Inl NoReply))"
proof -
  have "served view [] r" using assms(2,3) by (simp add: served_def)
  from req_served(2) [OF assms(1) this assms(4)] have s: "served view lg r'" by simp
  have poll: "fst (rq_answer env c) = (case fst (os_rx_poll env c) of
      Pending \<Rightarrow> Pending | Ready None \<Rightarrow> Ready (Inl NoReply) | Ready (Some a) \<Rightarrow> Ready (map_sum Rejected id a))" for c
    by (auto simp: rq_answer_def split: prod.split poll.split option.split)
  show ?thesis
    using s assms(1,5) unfolding poll served_def oneshot_ok_def
    by (cases "rq_state r'") (simp_all add: replied_def)
qed

definition demo_oneshot :: "('a, 'a shot) oneshot_env" where
  "demo_oneshot =
    \<lparr>os_send = (\<lambda>a c. if c = ShotEmpty then (True, ShotSent a) else (False, c)),
     os_drop_tx = (\<lambda>c. if c = ShotEmpty then ShotDropped else c),
     os_rx_poll = (\<lambda>c. case c of ShotSent a \<Rightarrow> (Ready (Some a), ShotGone) | ShotDropped \<Rightarrow> (Ready None, c)
        | _ \<Rightarrow> (Pending, c)),
     os_drop_rx = (\<lambda>c. ShotGone)\<rparr>"

lemma demo_oneshot_ok: "oneshot_ok demo_oneshot id"
  by (auto simp: oneshot_ok_def demo_oneshot_def split: shot.split)

text \<open>A reply whose conversion runs a \<^verbatim>\<open>reject\<close> of the same request.\<close>

definition reentrant :: "(nat, string) rop list" where
  "reentrant = [Reply [Reject [] (Inr ''busy'')] (Inr 5), CloseReq]"

lemma request_answered_once_witness:
  "\<exists>lg r'. req_run demo_oneshot reentrant \<lparr>rq_state = ReplyOpen, rq_shot = ShotEmpty\<rparr> = (lg, r') \<and> length lg = 1 \<and>
    (fst (rq_answer demo_oneshot (rq_shot r')) :: ((nat, string) request_error + nat) poll) = Ready (Inl (Rejected ''busy''))"
proof -
  let ?r = "\<lparr>rq_state = ReplyOpen, rq_shot = ShotEmpty\<rparr> :: (string + nat) shot request"
  obtain lg r' where r: "req_run demo_oneshot reentrant ?r = (lg, r')" by fastforce
  have e: "req_run demo_oneshot reentrant ?r = ([(Inl ''busy'', True)], \<lparr>rq_state = ReplyAnswered, rq_shot = ShotSent (Inl ''busy'')\<rparr>)"
    by code_simp
  from request_answered_once [OF demo_oneshot_ok _ _ r] show ?thesis using r e by (auto simp: replied_def)
qed

text \<open>An answer that came too late raises and changes nothing: when the request was answered or closed while its
  value was converted, the call returns the error of that state and the request keeps its first answer; a
  conversion that fails leaves an open request open.\<close>

theorem late_answer_raises:
  assumes "rq_state r = ReplyOpen" and "req_run env meanwhile r = (lg, r1)"
  shows "(case conv of Inl e \<Rightarrow> req_exec env (Reply meanwhile conv) r = (lg, Some (Inl e), r1)
    | Inr v \<Rightarrow> (case answered_error ''reply'' (rq_state r1) of
        Some e \<Rightarrow> req_exec env (Reply meanwhile conv) r = (lg, Some (Inl e), r1)
      | None \<Rightarrow> \<exists>b. fst (snd (req_exec env (Reply meanwhile conv) r)) = Some (Inr b)))"
proof (cases conv)
  case (Inr v)
  show ?thesis
  proof (cases "rq_state r1 = ReplyOpen")
    case True
    then show ?thesis using assms Inr by (auto simp: answer_def answered_error_def Let_def split: prod.splits)
  next
    case False
    from answer_closed [OF this, where env = env and meth = "''reply''" and a = "Inr v"] assms Inr False
    show ?thesis by (cases "rq_state r1") (simp_all add: answered_error_def)
  qed
qed (use assms in \<open>simp add: answered_error_def\<close>)

lemma late_answer_raises_witness:
  "fst (snd (req_exec demo_oneshot (Reply [CloseReq] (Inr (5::nat)))
      (\<lparr>rq_state = ReplyOpen, rq_shot = ShotEmpty\<rparr> :: (string + nat) shot request)))
    = Some (Inl (RuntimeError ''req:reply: request is closed''))"
proof -
  let ?r = "\<lparr>rq_state = ReplyOpen, rq_shot = ShotEmpty\<rparr> :: (string + nat) shot request"
  have "req_run demo_oneshot [CloseReq] ?r = ([], \<lparr>rq_state = ReplyClosed, rq_shot = ShotDropped\<rparr>)" by code_simp
  from late_answer_raises [OF _ this, where conv = "Inr 5"] show ?thesis by (simp add: answered_error_def)
qed

end
