(* ===== verification/Isle_Async_Props.thy ===== *)
theory Isle_Async_Props
  imports Isle_Async Isle_Host_Chan_Props
begin

text \<open>
  What the async actor promises over every history of its handles, its driver, its tasks and its thread, for
  any request channel and oneshot channel that behave as tokio documents (\<open>request_chan_ok\<close>, \<open>oneshot_ok\<close>).
\<close>

section \<open>The request channel\<close>

text \<open>\<open>items\<close> are the values in the channel, \<open>gone\<close> whether the receiver was dropped.\<close>

definition try_send_law :: "('q \<Rightarrow> 't list) \<Rightarrow> ('q \<Rightarrow> bool) \<Rightarrow> 't \<Rightarrow> 'q \<Rightarrow> 't mpsc_try_send + unit \<Rightarrow> 'q \<Rightarrow> bool" where
  "try_send_law items gone x q r q' \<longleftrightarrow>
    (case r of
       Inr u \<Rightarrow> \<not> gone q \<and> \<not> gone q' \<and> items q' = items q @ [x]
     | Inl (MpscFull y) \<Rightarrow> \<not> gone q \<and> \<not> gone q' \<and> items q' = items q
     | Inl (MpscClosed y) \<Rightarrow> gone q \<and> gone q' \<and> items q' = items q)"

definition send_law :: "('q \<Rightarrow> 't list) \<Rightarrow> ('q \<Rightarrow> bool) \<Rightarrow> 't \<Rightarrow> 'q \<Rightarrow> ('t + unit) poll \<Rightarrow> 'q \<Rightarrow> bool" where
  "send_law items gone x q r q' \<longleftrightarrow>
    (case r of
       Ready (Inr u) \<Rightarrow> \<not> gone q \<and> \<not> gone q' \<and> items q' = items q @ [x]
     | Ready (Inl y) \<Rightarrow> gone q \<and> gone q' \<and> items q' = items q
     | Pending \<Rightarrow> gone q' = gone q \<and> items q' = items q)"

definition recv_law :: "('q \<Rightarrow> 't list) \<Rightarrow> ('q \<Rightarrow> bool) \<Rightarrow> 'q \<Rightarrow> 't option poll \<Rightarrow> 'q \<Rightarrow> bool" where
  "recv_law items gone q r q' \<longleftrightarrow> gone q' = gone q \<and>
    (case r of
       Ready (Some x) \<Rightarrow> items q = x # items q'
     | Ready None \<Rightarrow> items q = [] \<and> items q' = []
     | Pending \<Rightarrow> items q' = items q)"

definition request_chan_ok :: "('t, 'q) request_chan \<Rightarrow> ('q \<Rightarrow> 't list) \<Rightarrow> ('q \<Rightarrow> bool) \<Rightarrow> bool" where
  "request_chan_ok C items gone \<longleftrightarrow>
    (\<forall>q x. try_send_law items gone x q (fst (hs_try_send C x q)) (snd (hs_try_send C x q))) \<and>
    (\<forall>q x wk. send_law items gone x q (fst (hs_send_poll C x wk q)) (snd (hs_send_poll C x wk q))) \<and>
    (\<forall>q wk. recv_law items gone q (fst (hr_recv_poll C wk q)) (snd (hr_recv_poll C wk q))) \<and>
    (\<forall>q. fst (rc_drop_rx C q) = items q \<and> items (snd (rc_drop_rx C q)) = [] \<and> gone (snd (rc_drop_rx C q))) \<and>
    (\<forall>q. gone (rc_drop_tx C q) = gone q \<and> items (rc_drop_tx C q) = items q) \<and>
    (\<forall>q. gone (rc_clone_tx C q) = gone q \<and> items (rc_clone_tx C q) = items q)"

lemma chan_try_send:
  "request_chan_ok C items gone \<Longrightarrow> hs_try_send C x q = (r, q') \<Longrightarrow> try_send_law items gone x q r q'"
  unfolding request_chan_ok_def by (metis fst_conv snd_conv)

lemma chan_send_poll:
  "request_chan_ok C items gone \<Longrightarrow> hs_send_poll C x wk q = (r, q') \<Longrightarrow> send_law items gone x q r q'"
  unfolding request_chan_ok_def by (metis fst_conv snd_conv)

lemma chan_recv_poll:
  "request_chan_ok C items gone \<Longrightarrow> hr_recv_poll C wk q = (r, q') \<Longrightarrow> recv_law items gone q r q'"
  unfolding request_chan_ok_def by (metis fst_conv snd_conv)

lemma chan_ends:
  assumes "request_chan_ok C items gone"
  shows "fst (rc_drop_rx C q) = items q" and "items (snd (rc_drop_rx C q)) = []" and "gone (snd (rc_drop_rx C q))"
    and "gone (rc_drop_tx C q) = gone q" and "items (rc_drop_tx C q) = items q"
    and "gone (rc_clone_tx C q) = gone q" and "items (rc_clone_tx C q) = items q"
  using assms unfolding request_chan_ok_def by blast+

section \<open>The answer channels\<close>

text \<open>
  \<open>pend\<close> are the requests whose sender is still in the queue or in a running coroutine, \<open>st\<close> the started ones and
  \<open>pk\<close> those that panicked.
\<close>

definition shots_ok :: "('o \<Rightarrow> 'a shot) \<Rightarrow> nat set \<Rightarrow> nat set \<Rightarrow> nat set \<Rightarrow> nat \<Rightarrow> (nat \<Rightarrow> 'o) \<Rightarrow> bool" where
  "shots_ok view pend st pk n resp \<longleftrightarrow>
    (\<forall>k < n. (k \<in> pend \<longrightarrow> view (resp k) = ShotEmpty \<or> view (resp k) = ShotGone) \<and>
      (view (resp k) = ShotEmpty \<longrightarrow> k \<in> pend) \<and> (view (resp k) = ShotDropped \<longrightarrow> k \<notin> st \<or> k \<in> pk))"

lemma shots_send:
  assumes "oneshot_ok env view" and "shots_ok view pend st pk n resp" and "k \<in> pend" and "k < n"
  shows "shots_ok view (pend - {k}) st pk n (resp(k := snd (os_send env r (resp k))))"
proof -
  have "view (resp k) = ShotEmpty \<or> view (resp k) = ShotGone" using assms(2-4) unfolding shots_ok_def by blast
  then have "view (snd (os_send env r (resp k))) = ShotSent r \<or> view (snd (os_send env r (resp k))) = ShotGone"
    using assms(1) unfolding oneshot_ok_def by blast
  then show ?thesis using assms(2) unfolding shots_ok_def by auto
qed

lemma shots_drop:
  assumes "oneshot_ok env view" and "shots_ok view pend st pk n resp" and "k \<in> pend" and "k < n" and "k \<notin> st \<or> k \<in> pk"
  shows "shots_ok view (pend - {k}) st pk n (resp(k := os_drop_tx env (resp k)))"
proof -
  have "view (resp k) = ShotEmpty \<or> view (resp k) = ShotGone" using assms(2-4) unfolding shots_ok_def by blast
  then have "view (os_drop_tx env (resp k)) = ShotDropped \<or> view (os_drop_tx env (resp k)) = ShotGone"
    using assms(1) unfolding oneshot_ok_def by blast
  then show ?thesis using assms(2,5) unfolding shots_ok_def by auto
qed

lemma shots_new:
  assumes "shots_ok view pend st pk n resp" and "view c = ShotEmpty"
  shows "shots_ok view (insert n pend) st pk (Suc n) (resp(n := c))"
  using assms unfolding shots_ok_def by (auto simp: less_Suc_eq)

lemma shots_poll:
  assumes "oneshot_ok env view" and "shots_ok view pend st pk n resp"
  shows "shots_ok view pend st pk n (resp(k := snd (os_rx_poll env (resp k))))"
proof -
  have "view (snd (os_rx_poll env (resp k))) = view (resp k) \<or>
      (view (snd (os_rx_poll env (resp k))) = ShotGone)"
    using assms(1) unfolding oneshot_ok_def by blast
  then show ?thesis using assms(2) unfolding shots_ok_def by auto
qed

lemma shots_drop_rx:
  assumes "oneshot_ok env view" and "shots_ok view pend st pk n resp"
  shows "shots_ok view pend st pk n (resp(k := os_drop_rx env (resp k)))"
proof -
  have "view (os_drop_rx env (resp k)) = ShotGone" using assms(1) unfolding oneshot_ok_def by blast
  then show ?thesis using assms(2) unfolding shots_ok_def by auto
qed

lemma shots_start:
  assumes "shots_ok view pend st pk n resp" and "k \<in> pend"
  shows "shots_ok view pend (insert k st) pk n resp"
  using assms unfolding shots_ok_def by auto

lemma shots_panic: "shots_ok view pend st pk n resp \<Longrightarrow> shots_ok view pend st (insert k pk) n resp"
  unfolding shots_ok_def by auto

section \<open>Histories\<close>

datatype ('w, 'r, 'c) sop =
    SubmitJob "('w, 'r, 'c) async_job"
  | SubmitFn nat isle_function "nat \<Rightarrow> ('w, 'r, 'c) async_job"
  | LoopPoll waker
  | LocalPoll nat
  | ThreadExit
  | DriverPoll waker driver_call
  | CloneHandle
  | DropHandle
  | PollTask async_task
  | CancelTask async_task
  | DropTask async_task
  | DetachTask async_task

fun sop_exec ::
  "('w, isle_error + 'b, 'c, 'q, 'o) async_env \<Rightarrow> ('w, isle_error + 'b, 'c) sop \<Rightarrow> ('w, 'c, 'q, 'o) async_actor \<Rightarrow>
    ('w, 'c, 'q, 'o) async_actor" where
  "sop_exec env (SubmitJob job) a = snd (async_submit env job a)"
| "sop_exec env (SubmitFn isle func job) a = snd (submit_fn env isle func job a)"
| "sop_exec env (LoopPoll wk) a = loop_poll env wk a"
| "sop_exec env (LocalPoll i) a = local_poll env i a"
| "sop_exec env ThreadExit a = thread_exit a"
| "sop_exec env (DriverPoll wk call) a = snd (snd (driver_poll env wk call a))"
| "sop_exec env CloneHandle a = a\<lparr>aa_chan := rc_clone_tx (ae_chan env) (aa_chan a)\<rparr>"
| "sop_exec env DropHandle a = a\<lparr>aa_chan := rc_drop_tx (ae_chan env) (aa_chan a)\<rparr>"
| "sop_exec env (PollTask k) a = snd (snd (async_task_poll env k a))"
| "sop_exec env (CancelTask k) a = async_task_cancel k a"
| "sop_exec env (DropTask k) a = async_task_drop env k a"
| "sop_exec env (DetachTask k) a = async_task_detach env k a"

definition async_run ::
  "('w, isle_error + 'b, 'c, 'q, 'o) async_env \<Rightarrow> ('w, isle_error + 'b, 'c) sop list \<Rightarrow> ('w, 'c, 'q, 'o) async_actor \<Rightarrow>
    ('w, 'c, 'q, 'o) async_actor" where
  "async_run env ops a = fold (sop_exec env) ops a"

section \<open>The invariant\<close>

fun async_ids :: "('w, 'r, 'c) async_request list \<Rightarrow> nat list" where
  "async_ids [] = []"
| "async_ids (AsyncRun k job t # q) = k # async_ids q"
| "async_ids (AsyncShutdown # q) = async_ids q"

lemma async_ids_append [simp]: "async_ids (q @ q') = async_ids q @ async_ids q'"
  by (induction q rule: async_ids.induct) auto

text \<open>The requests whose answer is still to come.\<close>

definition pending_ids :: "(('q) \<Rightarrow> ('w, 'r, 'c) async_request list) \<Rightarrow> ('w, 'c, 'q, 'o) async_actor \<Rightarrow> nat set" where
  "pending_ids items a = set (async_ids (items (aa_chan a))) \<union> fst ` set (aa_local a)"

definition order_ok :: "nat list \<Rightarrow> nat list \<Rightarrow> nat list \<Rightarrow> nat list \<Rightarrow> nat \<Rightarrow> bool \<Rightarrow> bool" where
  "order_ok acc st q loc n loop \<longleftrightarrow>
    (\<exists>rest. acc = st @ rest \<and> (loop \<longrightarrow> rest = q)) \<and> (\<not> loop \<longrightarrow> q = []) \<and> sorted_wrt (<) acc \<and> (\<forall>k \<in> set acc. k < n) \<and>
    distinct loc \<and> set loc \<subseteq> set st"

definition async_ok ::
  "('w, 'r, 'c, 'q, 'o) async_env \<Rightarrow> ('q \<Rightarrow> ('w, 'r, 'c) async_request list) \<Rightarrow> ('q \<Rightarrow> bool) \<Rightarrow> ('o \<Rightarrow> 'r shot) \<Rightarrow>
    ('w, 'c, 'q, 'o) async_actor \<Rightarrow> bool" where
  "async_ok env items gone view a \<longleftrightarrow>
    (gone (aa_chan a) \<longleftrightarrow> \<not> aa_loop a) \<and>
    order_ok (aa_accepted a) (aa_started a) (async_ids (items (aa_chan a))) (map fst (aa_local a)) (aa_fresh a) (aa_loop a) \<and>
    shots_ok view (pending_ids items a) (set (aa_started a)) (set (aa_panicked a)) (aa_fresh a) (aa_resp a) \<and>
    (aa_thread a \<noteq> Serving \<longrightarrow> aa_thread a = Exited \<and> \<not> aa_loop a \<and> aa_local a = [])"

text \<open>The environment as documented.\<close>

definition env_ok ::
  "('w, 'r, 'c, 'q, 'o) async_env \<Rightarrow> ('q \<Rightarrow> ('w, 'r, 'c) async_request list) \<Rightarrow> ('q \<Rightarrow> bool) \<Rightarrow> ('o \<Rightarrow> 'r shot) \<Rightarrow> bool"
where
  "env_ok env items gone view \<longleftrightarrow>
    request_chan_ok (ae_chan env) items gone \<and> oneshot_ok (ae_shot env) view \<and> view (ae_new_shot env) = ShotEmpty"

lemma order_submit:
  "order_ok acc st q loc n True \<Longrightarrow> order_ok (acc @ [n]) st (q @ [n]) loc (Suc n) True"
  unfolding order_ok_def by (auto simp: sorted_wrt_append less_Suc_eq)

lemma order_fresh: "order_ok acc st q loc n l \<Longrightarrow> order_ok acc st q loc (Suc n) l"
  unfolding order_ok_def by (auto simp: less_Suc_eq)

lemma order_end: "order_ok acc st q loc n l \<Longrightarrow> order_ok acc st [] loc n False"
  unfolding order_ok_def by auto

lemma order_queue:
  assumes "order_ok acc st q loc n l"
  shows "distinct q" and "k \<in> set q \<Longrightarrow> k < n" and "set q \<inter> set st = {}" and "set q \<inter> set loc = {}"
    and "k \<in> set loc \<Longrightarrow> k < n" and "k \<in> set st \<Longrightarrow> k < n"
proof -
  obtain rest where r: "acc = st @ rest" "l \<longrightarrow> rest = q" "\<not> l \<longrightarrow> q = []" using assms unfolding order_ok_def by blast
  have "sorted_wrt (<) (st @ rest)" "set q \<subseteq> set rest" "q = rest \<or> q = []" "\<forall>k \<in> set acc. k < n" "set loc \<subseteq> set st"
    using assms r unfolding order_ok_def by auto
  moreover from this(1) have "distinct rest" by (simp add: sorted_wrt_append strict_sorted_iff)
  ultimately show "distinct q" "k \<in> set q \<Longrightarrow> k < n" "set q \<inter> set st = {}" "set q \<inter> set loc = {}"
    "k \<in> set loc \<Longrightarrow> k < n" "k \<in> set st \<Longrightarrow> k < n"
    using r(1) by (auto simp: sorted_wrt_append)
qed

lemma order_start:
  assumes "order_ok acc st (k # q) loc n True"
  shows "order_ok acc (st @ [k]) q loc n True" and "order_ok acc (st @ [k]) q (loc @ [k]) n True"
  using assms order_queue [OF assms] unfolding order_ok_def by auto

lemma order_local:
  assumes "order_ok acc st q loc n l" and "distinct loc'" and "set loc' \<subseteq> set loc"
  shows "order_ok acc st q loc' n l"
  using assms unfolding order_ok_def by auto

lemma drop_requests_frame: "\<exists>R. fold (drop_async_request env) rqs a = a\<lparr>aa_resp := R\<rparr>"
proof (induction rqs arbitrary: a)
  case (Cons rq rqs)
  obtain R where "drop_async_request env rq a = a\<lparr>aa_resp := R\<rparr>"
    by (cases rq) (auto simp: drop_async_request_def drop_sender_def put_shot_def intro: that [of "aa_resp a"])
  moreover obtain S where "fold (drop_async_request env) rqs (a\<lparr>aa_resp := R\<rparr>) = a\<lparr>aa_resp := R, aa_resp := S\<rparr>"
    using Cons.IH by blast
  ultimately show ?case by auto
next
  case (Nil a)
  show ?case by (rule exI [where x = "aa_resp a"], cases a, simp)
qed

lemma drop_requests_shots:
  assumes "oneshot_ok (ae_shot env) view"
  shows "distinct (async_ids rqs) \<Longrightarrow> set (async_ids rqs) \<inter> loc = {} \<Longrightarrow> set (async_ids rqs) \<inter> st = {} \<Longrightarrow>
    \<forall>k \<in> set (async_ids rqs). k < n \<Longrightarrow> shots_ok view (set (async_ids rqs) \<union> loc) st pk n (aa_resp a) \<Longrightarrow>
    shots_ok view loc st pk n (aa_resp (fold (drop_async_request env) rqs a))"
proof (induction rqs arbitrary: a)
  case (Cons rq rqs)
  show ?case
  proof (cases rq)
    case (AsyncRun k job t)
    have "shots_ok view (set (async_ids (rq # rqs)) \<union> loc - {k}) st pk n
        ((aa_resp a)(k := os_drop_tx (ae_shot env) (aa_resp a k)))"
      using shots_drop [OF assms Cons.prems(5), where k = k] Cons.prems AsyncRun by auto
    moreover have "set (async_ids (rq # rqs)) \<union> loc - {k} = set (async_ids rqs) \<union> loc" using Cons.prems AsyncRun by auto
    moreover have "aa_resp (drop_async_request env rq a) = (aa_resp a)(k := os_drop_tx (ae_shot env) (aa_resp a k))"
      by (simp add: AsyncRun drop_async_request_def drop_sender_def put_shot_def)
    ultimately have "shots_ok view (set (async_ids rqs) \<union> loc) st pk n (aa_resp (drop_async_request env rq a))" by simp
    then have "shots_ok view loc st pk n (aa_resp (fold (drop_async_request env) rqs (drop_async_request env rq a)))"
      by (intro Cons.IH) (use Cons.prems AsyncRun in auto)
    then show ?thesis by simp
  qed (use Cons in \<open>simp add: drop_async_request_def\<close>)
qed simp

lemma async_ok_loop_end:
  assumes "env_ok env items gone view" and "aa_thread a = Serving"
    and "order_ok (aa_accepted a) (aa_started a) (async_ids (items (aa_chan a))) (map fst (aa_local a)) (aa_fresh a) True"
    and "shots_ok view (pending_ids items a) (set (aa_started a)) (set (aa_panicked a)) (aa_fresh a) (aa_resp a)"
  shows "async_ok env items gone view (loop_end env a)"
proof -
  note C = chan_ends [of "ae_chan env" items gone] and q = order_queue [OF assms(3)]
  obtain d q' where d: "rc_drop_rx (ae_chan env) (aa_chan a) = (d, q')" by fastforce
  have c: "d = items (aa_chan a)" "items q' = []" "gone q'"
    using C [of "aa_chan a"] assms(1) d unfolding env_ok_def by auto
  let ?b = "a\<lparr>aa_chan := q', aa_loop := False\<rparr>"
  have s: "shots_ok view (set (map fst (aa_local a))) (set (aa_started a)) (set (aa_panicked a)) (aa_fresh a)
      (aa_resp (fold (drop_async_request env) d ?b))"
    using assms(1,4) q unfolding env_ok_def c(1) pending_ids_def
    by (intro drop_requests_shots) auto
  obtain R where R: "fold (drop_async_request env) d ?b = ?b\<lparr>aa_resp := R\<rparr>" using drop_requests_frame by blast
  have e: "loop_end env a = ?b\<lparr>aa_resp := R\<rparr>" by (simp add: loop_end_def d R)
  show ?thesis using c s [unfolded R] assms(2) order_end [OF assms(3)]
    by (simp add: async_ok_def e pending_ids_def)
qed

section \<open>Each operation\<close>

lemma async_ok_error_task:
  assumes "env_ok env items gone view" and "async_ok env items gone view a"
  shows "async_ok env items gone view (snd (make_error_task env e t a))"
proof -
  let ?n = "aa_fresh a"
  have e: "oneshot_ok (ae_shot env) view" "view (ae_new_shot env) = ShotEmpty" using assms(1) unfolding env_ok_def by auto
  have a: "order_ok (aa_accepted a) (aa_started a) (async_ids (items (aa_chan a))) (map fst (aa_local a)) ?n (aa_loop a)"
    "shots_ok view (pending_ids items a) (set (aa_started a)) (set (aa_panicked a)) ?n (aa_resp a)"
    using assms(2) unfolding async_ok_def by auto
  have fresh: "?n \<notin> pending_ids items a" using order_queue(2,5) [OF a(1)] unfolding pending_ids_def by force
  let ?r = "(aa_resp a)(?n := ae_new_shot env)"
  have "shots_ok view (insert ?n (pending_ids items a)) (set (aa_started a)) (set (aa_panicked a)) (Suc ?n) ?r"
    by (rule shots_new [OF a(2) e(2)])
  from shots_send [OF e(1) this, where k = ?n and r = "Inl e"] fresh
  have "shots_ok view (pending_ids items a) (set (aa_started a)) (set (aa_panicked a)) (Suc ?n)
      (?r(?n := snd (os_send (ae_shot env) (Inl e) (?r ?n))))" by simp
  then show ?thesis using assms(2) order_fresh [OF a(1)] unfolding async_ok_def
    by (simp add: make_error_task_def new_shot_def send_result_def put_shot_def pending_ids_def)
qed

lemma async_ok_heap: "async_ok env items gone view a \<Longrightarrow> async_ok env items gone view (a\<lparr>aa_heap := h\<rparr>)"
  by (simp add: async_ok_def pending_ids_def)

text \<open>A new channel whose sender goes nowhere, and one whose sender goes into the queue.\<close>

lemma async_ok_new:
  assumes "env_ok env items gone view" and "async_ok env items gone view a"
    and "new_shot env a = (k, b)"
  shows "gone q = gone (aa_chan a) \<Longrightarrow> items q = items (aa_chan a) \<Longrightarrow>
      async_ok env items gone view (drop_sender env k (b\<lparr>aa_chan := q\<rparr>))"
    and "\<not> gone (aa_chan a) \<Longrightarrow> \<not> gone q \<Longrightarrow> items q = items (aa_chan a) @ [AsyncRun k job t] \<Longrightarrow>
      async_ok env items gone view (b\<lparr>aa_chan := q, aa_accepted := aa_accepted b @ [k]\<rparr>)"
proof -
  let ?n = "aa_fresh a"
  have e: "oneshot_ok (ae_shot env) view" "view (ae_new_shot env) = ShotEmpty" using assms(1) unfolding env_ok_def by auto
  have a: "order_ok (aa_accepted a) (aa_started a) (async_ids (items (aa_chan a))) (map fst (aa_local a)) ?n (aa_loop a)"
    "shots_ok view (pending_ids items a) (set (aa_started a)) (set (aa_panicked a)) ?n (aa_resp a)"
    "gone (aa_chan a) \<longleftrightarrow> \<not> aa_loop a"
    using assms(2) unfolding async_ok_def by auto
  have b: "k = ?n" "b = a\<lparr>aa_resp := (aa_resp a)(?n := ae_new_shot env), aa_fresh := Suc ?n\<rparr>"
    using assms(3) by (auto simp: new_shot_def put_shot_def)
  have fresh: "?n \<notin> pending_ids items a" "?n \<notin> set (aa_started a)"
    using order_queue(2,5,6) [OF a(1)] unfolding pending_ids_def by force+
  let ?r = "(aa_resp a)(?n := ae_new_shot env)"
  have s: "shots_ok view (insert ?n (pending_ids items a)) (set (aa_started a)) (set (aa_panicked a)) (Suc ?n) ?r"
    by (rule shots_new [OF a(2) e(2)])
  show "async_ok env items gone view (drop_sender env k (b\<lparr>aa_chan := q\<rparr>))"
    if q: "gone q = gone (aa_chan a)" "items q = items (aa_chan a)"
  proof -
    from shots_drop [OF e(1) s, where k = ?n] fresh
    have "shots_ok view (pending_ids items a) (set (aa_started a)) (set (aa_panicked a)) (Suc ?n)
        (?r(?n := os_drop_tx (ae_shot env) (?r ?n)))" by simp
    then show ?thesis using assms(2) order_fresh [OF a(1)] q unfolding async_ok_def
      by (simp add: b drop_sender_def put_shot_def pending_ids_def)
  qed
  show "async_ok env items gone view (b\<lparr>aa_chan := q, aa_accepted := aa_accepted b @ [k]\<rparr>)"
    if q: "\<not> gone (aa_chan a)" "\<not> gone q" "items q = items (aa_chan a) @ [AsyncRun k job t]"
  proof -
    have "pending_ids items (a\<lparr>aa_chan := q\<rparr>) = insert ?n (pending_ids items a)" by (simp add: pending_ids_def q b(1))
    moreover have "aa_thread a = Serving" using assms(2) q(1) unfolding async_ok_def by auto
    ultimately show ?thesis using assms(2) s order_submit [of "aa_accepted a" "aa_started a" _ _ ?n] q a(1,3) unfolding async_ok_def
      by (simp add: b pending_ids_def)
  qed
qed

lemma async_ok_submit:
  assumes "env_ok env items gone view" and "async_ok env items gone view a"
  shows "async_ok env items gone view (snd (async_submit env job a))"
proof -
  obtain t h where t: "token_new None (aa_heap a) = (t, h)" by fastforce
  obtain k b where k: "new_shot env (a\<lparr>aa_heap := h\<rparr>) = (k, b)" by fastforce
  obtain r q where r: "hs_try_send (ae_chan env) (AsyncRun k job t) (aa_chan b) = (r, q)" by fastforce
  have b: "aa_chan b = aa_chan a" using k by (auto simp: new_shot_def put_shot_def)
  have law: "try_send_law items gone (AsyncRun k job t) (aa_chan a) r q"
    using chan_try_send [of "ae_chan env" items gone] assms(1) r unfolding env_ok_def b by blast
  note new = async_ok_new [OF assms(1) async_ok_heap [OF assms(2)] k]
  show ?thesis
  proof (cases r)
    case (Inr u)
    then show ?thesis using law new(2) [where q = q and job = job and t = t] t k r
      by (simp add: async_submit_def try_send_law_def)
  next
    case (Inl e)
    then have "async_ok env items gone view (drop_sender env k (b\<lparr>aa_chan := q\<rparr>))"
      using law new(1) [where q = q] by (simp add: try_send_law_def split: mpsc_try_send.splits)
    from async_ok_error_task [OF assms(1) this] show ?thesis using Inl t k r by (simp add: async_submit_def)
  qed
qed

lemma async_ok_submit_fn:
  assumes "env_ok env items gone view" and "async_ok env items gone view a"
  shows "async_ok env items gone view (snd (submit_fn env isle func job a))"
  using async_ok_submit [OF assms] async_ok_error_task [OF assms(1) async_ok_heap [OF assms(2)]]
  by (simp add: submit_fn_def refuse_foreign_def split_beta Let_def)

lemma async_ok_serving: "async_ok env items gone view a \<Longrightarrow> aa_loop a \<Longrightarrow> aa_thread a = Serving"
  unfolding async_ok_def by auto

lemma async_ok_stop:
  assumes "env_ok env items gone view" and "async_ok env items gone view a" and "aa_loop a"
    and "async_ids (items q) = async_ids (items (aa_chan a))"
  shows "async_ok env items gone view (loop_end env (a\<lparr>aa_chan := q\<rparr>))"
  using assms async_ok_serving [OF assms(2,3)] by (intro async_ok_loop_end) (auto simp: async_ok_def pending_ids_def)

lemma async_ok_loop:
  assumes "env_ok env items gone view" and "async_ok env items gone view a"
  shows "async_ok env items gone view (loop_poll env wk a)"
proof (cases "aa_loop a")
  case True
  obtain r q where r: "hr_recv_poll (ae_chan env) wk (aa_chan a) = (r, q)" by fastforce
  have law: "recv_law items gone (aa_chan a) r q"
    using chan_recv_poll [of "ae_chan env" items gone] assms(1) r unfolding env_ok_def by blast
  have e: "oneshot_ok (ae_shot env) view" using assms(1) unfolding env_ok_def by auto
  have a: "order_ok (aa_accepted a) (aa_started a) (async_ids (items (aa_chan a))) (map fst (aa_local a)) (aa_fresh a) True"
    "shots_ok view (pending_ids items a) (set (aa_started a)) (set (aa_panicked a)) (aa_fresh a) (aa_resp a)"
    "\<not> gone (aa_chan a)" "aa_thread a = Serving"
    using assms(2) True unfolding async_ok_def by auto
  consider "r = Pending" | "r = Ready None" | "r = Ready (Some AsyncShutdown)"
    | k job t where "r = Ready (Some (AsyncRun k job t))"
    by (cases r; cases "case r of Ready x \<Rightarrow> x | _ \<Rightarrow> None"; cases "case r of Ready (Some x) \<Rightarrow> x | _ \<Rightarrow> AsyncShutdown") auto
  then show ?thesis
  proof cases
    case 1
    then show ?thesis using assms(2) True r law by (simp add: loop_poll_def async_ok_def pending_ids_def recv_law_def)
  next
    case 2
    then show ?thesis using async_ok_stop [OF assms True, where q = q] True r law by (simp add: loop_poll_def recv_law_def)
  next
    case 3
    then show ?thesis using async_ok_stop [OF assms True, where q = q] True r law by (simp add: loop_poll_def recv_law_def)
  next
    case 4
    let ?S = "aa_started a @ [k]"
    have q: "items (aa_chan a) = AsyncRun k job t # items q" "\<not> gone q" using law 4 a(3) by (auto simp: recv_law_def)
    have o: "order_ok (aa_accepted a) (aa_started a) (k # async_ids (items q)) (map fst (aa_local a)) (aa_fresh a) True"
      using a(1) q(1) by simp
    note start = order_start [OF o] and queue = order_queue [OF o]
    have kk: "k \<in> pending_ids items a" "k < aa_fresh a" "k \<notin> set (async_ids (items q))" "k \<notin> fst ` set (aa_local a)"
      using q(1) queue(1,2,4) unfolding pending_ids_def by auto
    have P: "pending_ids items a - {k} = set (async_ids (items q)) \<union> fst ` set (aa_local a)"
      using kk(3,4) q(1) unfolding pending_ids_def by auto
    have s: "shots_ok view (pending_ids items a) (set ?S) (set (aa_panicked a)) (aa_fresh a) (aa_resp a)"
      using shots_start [OF a(2) kk(1)] by simp
    show ?thesis
    proof (cases job)
      case (CoroutineJob mk)
      have "insert k (set (async_ids (items q)) \<union> fst ` set (aa_local a)) = pending_ids items a"
        using q(1) unfolding pending_ids_def by auto
      then show ?thesis using assms(2) True r 4 CoroutineJob start(2) s q(2)
        by (simp add: loop_poll_def async_ok_def pending_ids_def)
    next
      case (SyncJob run)
      obtain out h w where j: "run t (aa_heap a) (aa_vm a) = (out, h, w)" using prod_cases3 by blast
      show ?thesis
      proof (cases out)
        case (JobSent x)
        then show ?thesis using shots_send [OF e s kk(1,2), where r = x] assms(2) True r 4 SyncJob j start(1) q(2) a(4)
          unfolding P by (simp add: loop_poll_def async_ok_def pending_ids_def send_result_def put_shot_def)
      next
        case (JobPanic p)
        have s': "shots_ok view (pending_ids items a - {k}) (set ?S) (insert k (set (aa_panicked a))) (aa_fresh a)
            ((aa_resp a)(k := os_drop_tx (ae_shot env) (aa_resp a k)))"
          by (rule shots_drop [OF e shots_panic [OF s] kk(1,2)]) simp
        let ?b = "drop_sender env k (a\<lparr>aa_chan := q, aa_started := ?S, aa_heap := h, aa_vm := w,
            aa_panicked := aa_panicked a @ [k]\<rparr>)"
        have "async_ok env items gone view (loop_end env ?b)"
          using s' start(1) a(4) unfolding P
          by (intro async_ok_loop_end [OF assms(1)]) (simp_all add: drop_sender_def put_shot_def pending_ids_def)
        then show ?thesis using True r 4 SyncJob j JobPanic by (simp add: loop_poll_def)
      qed
    qed
  qed
qed (use assms(2) in \<open>simp add: loop_poll_def\<close>)

lemma async_ok_local:
  assumes "env_ok env items gone view" and "async_ok env items gone view a"
  shows "async_ok env items gone view (local_poll env i a)"
proof (cases "i < length (aa_local a)")
  case True
  obtain k c where k: "aa_local a ! i = (k, c)" by fastforce
  obtain out h w where j: "ae_co env c (aa_heap a) (aa_vm a) = (out, h, w)" using prod_cases3 by blast
  let ?rest = "take i (aa_local a) @ drop (Suc i) (aa_local a)"
  have e: "oneshot_ok (ae_shot env) view" using assms(1) unfolding env_ok_def by auto
  have a: "order_ok (aa_accepted a) (aa_started a) (async_ids (items (aa_chan a))) (map fst (aa_local a)) (aa_fresh a) (aa_loop a)"
    "shots_ok view (pending_ids items a) (set (aa_started a)) (set (aa_panicked a)) (aa_fresh a) (aa_resp a)"
    "gone (aa_chan a) \<longleftrightarrow> \<not> aa_loop a" "aa_thread a = Serving"
    using assms(2) True unfolding async_ok_def by auto
  have L: "map fst (aa_local a) = map fst (take i (aa_local a)) @ k # map fst (drop (Suc i) (aa_local a))"
    using id_take_nth_drop [OF True] k by (metis list.map(2) map_append fst_conv)
  have d: "distinct (map fst (aa_local a))" using a(1) unfolding order_ok_def by blast
  have kk: "k \<in> pending_ids items a" "k < aa_fresh a" "k \<notin> set (async_ids (items (aa_chan a)))"
    using order_queue(4,5) [OF a(1)] unfolding pending_ids_def L by (auto simp: L simp flip: set_map)
  have R: "pending_ids items a - {k} = set (async_ids (items (aa_chan a))) \<union> fst ` set ?rest"
    using d kk(3) unfolding pending_ids_def set_map [symmetric] L by auto
  have o: "order_ok (aa_accepted a) (aa_started a) (async_ids (items (aa_chan a))) (map fst ?rest) (aa_fresh a) (aa_loop a)"
    by (rule order_local [OF a(1)]) (use d in \<open>auto simp: L\<close>)
  show ?thesis
  proof (cases out)
    case (CoPending c')
    have "map fst ((aa_local a)[i := (k, c')]) = map fst (aa_local a)"
      using True k by (metis fst_conv list_update_id map_update)
    then show ?thesis using assms(2) True k j CoPending
      by (simp add: local_poll_def async_ok_def pending_ids_def flip: set_map)
  next
    case (CoReady x)
    then show ?thesis using shots_send [OF e a(2) kk(1,2), where r = x] True k j o a(3,4) unfolding R
      by (simp add: local_poll_def async_ok_def pending_ids_def send_result_def put_shot_def)
  next
    case CoPanic
    have "shots_ok view (pending_ids items a - {k}) (set (aa_started a)) (insert k (set (aa_panicked a))) (aa_fresh a)
        ((aa_resp a)(k := os_drop_tx (ae_shot env) (aa_resp a k)))"
      by (rule shots_drop [OF e shots_panic [OF a(2)] kk(1,2)]) simp
    then show ?thesis using True k j o a(3,4) CoPanic unfolding R
      by (simp add: local_poll_def async_ok_def pending_ids_def drop_sender_def put_shot_def)
  qed
qed (use assms(2) in \<open>simp add: local_poll_def\<close>)

lemma async_ok_chan:
  assumes "async_ok env items gone view a" and "gone q = gone (aa_chan a)" and "async_ids (items q) = async_ids (items (aa_chan a))"
  shows "async_ok env items gone view (a\<lparr>aa_chan := q\<rparr>)"
  using assms by (simp add: async_ok_def pending_ids_def)

lemma async_ok_driver_wait:
  assumes "env_ok env items gone view" and "async_ok env items gone view a"
  shows "async_ok env items gone view (snd (snd (driver_wait env a)))"
  using assms async_ok_chan [OF assms(2)] chan_ends(4,5) [of "ae_chan env" items gone "aa_chan a"]
  by (auto simp: driver_wait_def env_ok_def split: thread_state.split)

lemma async_ok_driver:
  assumes "env_ok env items gone view" and "async_ok env items gone view a"
  shows "async_ok env items gone view (snd (snd (driver_poll env wk call a)))"
proof (cases call)
  case DriverSend
  obtain r q where r: "hs_send_poll (ae_chan env) AsyncShutdown wk (aa_chan a) = (r, q)" by fastforce
  have "send_law items gone AsyncShutdown (aa_chan a) r q"
    using chan_send_poll [of "ae_chan env" items gone] assms(1) r unfolding env_ok_def by blast
  then have "async_ok env items gone view (a\<lparr>aa_chan := q\<rparr>)"
    by (intro async_ok_chan [OF assms(2)]) (auto simp: send_law_def split: poll.splits sum.splits)
  then show ?thesis using async_ok_driver_wait [OF assms(1)] DriverSend r by (cases r) (simp_all add: driver_poll_def)
qed (use async_ok_driver_wait [OF assms] assms(2) in \<open>simp_all add: driver_poll_def\<close>)

lemma async_ok_task:
  assumes "env_ok env items gone view" and "async_ok env items gone view a"
  shows "async_ok env items gone view (put_shot k (snd (os_rx_poll (ae_shot env) (aa_resp a k))) a)"
    and "async_ok env items gone view (put_shot k (os_drop_rx (ae_shot env) (aa_resp a k)) a)"
  using assms shots_poll [of "ae_shot env" view] shots_drop_rx [of "ae_shot env" view]
  by (simp_all add: env_ok_def async_ok_def put_shot_def pending_ids_def)

lemma async_ok_exec:
  assumes "env_ok env items gone view" and "async_ok env items gone view a"
  shows "async_ok env items gone view (sop_exec env op a)"
proof -
  note C = chan_ends(4-7) [of "ae_chan env" items gone "aa_chan a"]
  have drop: "async_ok env items gone view (async_task_drop env k a)" for k
    using async_ok_task(2) [OF assms(1) assms(2)] async_ok_task(2) [OF assms(1) async_ok_heap [OF assms(2)], where k = "at_resp k"]
    by (simp add: async_task_drop_def async_task_cancel_def)
  show ?thesis
  proof (cases op)
    case ThreadExit
    then show ?thesis using assms(2) by (auto simp: thread_exit_def async_ok_def pending_ids_def)
  next
    case (PollTask k)
    then show ?thesis using async_ok_task(1) [OF assms, where k = "at_resp k"]
      by (auto simp: async_task_poll_def split: prod.split poll.split option.split)
  next
    case CloneHandle
    then show ?thesis using async_ok_chan [OF assms(2)] C assms(1) by (simp add: env_ok_def)
  next
    case DropHandle
    then show ?thesis using async_ok_chan [OF assms(2)] C assms(1) by (simp add: env_ok_def)
  qed (simp_all add: async_ok_submit async_ok_submit_fn async_ok_loop async_ok_local async_ok_driver async_ok_heap
        async_task_cancel_def async_task_detach_def drop assms)
qed

interpretation async_isle_machine: machine "sop_exec env" "\<lambda>a. env_ok env items gone view \<longrightarrow> async_ok env items gone view a"
  for env :: "('w, isle_error + 'b, 'c, 'q, 'o) async_env" and items gone view
  by unfold_locales (blast intro: async_ok_exec)

lemma async_ok_run:
  assumes "env_ok env items gone view" and "items q = []" and "\<not> gone q"
  shows "async_ok env items gone view (async_run env ops (async_actor_new vm h q resp))"
proof -
  have "async_ok env items gone view (async_actor_new vm h q resp)"
    using assms by (simp add: async_ok_def async_actor_new_def pending_ids_def order_ok_def shots_ok_def)
  then show ?thesis using async_isle_machine.ok_run [of env items gone view] assms(1) unfolding async_run_def by blast
qed

section \<open>Properties\<close>

lemma poll_result:
  assumes "oneshot_ok (ae_shot env) view" and "view (aa_resp a (at_resp k)) \<noteq> ShotGone"
  shows "fst (async_task_poll env k a) =
    (case view (aa_resp a (at_resp k)) of ShotEmpty \<Rightarrow> Pending | ShotSent r \<Rightarrow> Ready r | _ \<Rightarrow> Ready (Inl RecvFailed))"
proof -
  have "fst (async_task_poll env k a) = (case fst (os_rx_poll (ae_shot env) (aa_resp a (at_resp k))) of
      Pending \<Rightarrow> Pending | Ready None \<Rightarrow> Ready (Inl RecvFailed) | Ready (Some r) \<Rightarrow> Ready r)"
    by (auto simp: async_task_poll_def split: prod.split poll.split option.split)
  then show ?thesis using assms unfolding oneshot_ok_def
    by (cases "view (aa_resp a (at_resp k))") simp_all
qed

text \<open>C6: No task of an async isle waits for nothing: over every history, a task that was not dropped is pending
  exactly while its request is in the queue or runs as a coroutine; any other request was answered, or its task
  reports \<^verbatim>\<open>RecvFailed\<close>.  And the requests start in the order they were accepted.\<close>

theorem async_tasks_wait_for_something:
  assumes "env_ok env items gone view" and "items q = []" and "\<not> gone q"
    and "a = async_run env ops (async_actor_new vm h q resp)"
    and "at_resp k < aa_fresh a" and "view (aa_resp a (at_resp k)) \<noteq> ShotGone"
  shows "(fst (async_task_poll env k a) = Pending \<longleftrightarrow> at_resp k \<in> pending_ids items a) \<and>
    take (length (aa_started a)) (aa_accepted a) = aa_started a \<and> sorted_wrt (<) (aa_accepted a)"
proof -
  have ok: "async_ok env items gone view a" unfolding assms(4) by (rule async_ok_run [OF assms(1-3)])
  then have "at_resp k \<in> pending_ids items a \<longleftrightarrow> view (aa_resp a (at_resp k)) = ShotEmpty"
    using assms(5,6) unfolding async_ok_def shots_ok_def by blast
  moreover have "oneshot_ok (ae_shot env) view" using assms(1) unfolding env_ok_def by blast
  note poll_result [OF this assms(6)]
  ultimately show ?thesis using ok assms(6) unfolding async_ok_def order_ok_def
    by (cases "view (aa_resp a (at_resp k))") auto
qed

text \<open>C33: A request that is not accepted fails at once and leaves the queue alone: a function of another isle with
  \<^verbatim>\<open>WrongIsle\<close>, a full channel with \<^verbatim>\<open>ChannelFull\<close>, an isle that stopped serving with \<^verbatim>\<open>Shutdown\<close>; an accepted
  one is the last of the queue, with the token of its task, and its task waits.\<close>

theorem refused_requests_fail_at_once:
  assumes "env_ok env items gone view" and "submit_fn env isle func job a = (k, a')"
  shows "(if if_isle func \<noteq> isle
     then fst (async_task_poll env k a') = Ready (Inl WrongIsle) \<and> items (aa_chan a') = items (aa_chan a)
     else if gone (aa_chan a)
     then fst (async_task_poll env k a') = Ready (Inl Shutdown) \<and> items (aa_chan a') = items (aa_chan a)
     else fst (async_task_poll env k a') = Ready (Inl ChannelFull) \<and> items (aa_chan a') = items (aa_chan a) \<or>
       fst (async_task_poll env k a') = Pending \<and>
       items (aa_chan a') = items (aa_chan a) @ [AsyncRun (at_resp k) (job (if_key func)) (at_cancel k)])"
proof -
  have e: "oneshot_ok (ae_shot env) view" "view (ae_new_shot env) = ShotEmpty" using assms(1) unfolding env_ok_def by auto
  have sent: "fst (async_task_poll env j c') = Ready (Inl x) \<and> aa_chan c' = aa_chan c"
    if "make_error_task env x t c = (j, c')" for x t j c c'
  proof -
    have "view (aa_resp c' (at_resp j)) = ShotSent (Inl x)" "aa_chan c' = aa_chan c"
      using that e unfolding oneshot_ok_def
      by (auto simp: make_error_task_def new_shot_def send_result_def put_shot_def async_task_new_def)
    then show ?thesis using poll_result [OF e(1)] by simp
  qed
  show ?thesis
  proof (cases "if_isle func = isle")
    case False
    then show ?thesis using assms(2) by (auto simp: submit_fn_def refuse_foreign_def split: prod.splits dest: sent)
  next
    case True
    obtain t h where t: "token_new None (aa_heap a) = (t, h)" by fastforce
    obtain n b where n: "new_shot env (a\<lparr>aa_heap := h\<rparr>) = (n, b)" by fastforce
    let ?rq = "AsyncRun n (job (if_key func)) t"
    obtain r q where r: "hs_try_send (ae_chan env) ?rq (aa_chan b) = (r, q)" by fastforce
    have b: "aa_chan b = aa_chan a" "aa_resp b n = ae_new_shot env" using n by (auto simp: new_shot_def put_shot_def)
    have law: "try_send_law items gone ?rq (aa_chan a) r q"
      using chan_try_send [of "ae_chan env" items gone] assms(1) r unfolding env_ok_def b by blast
    have sub: "async_submit env (job (if_key func)) a = (k, a')" using assms(2) True by (simp add: submit_fn_def refuse_foreign_def)
    show ?thesis
    proof (cases r)
      case (Inr u)
      then have "k = async_task_new n t" "a' = b\<lparr>aa_chan := q, aa_accepted := aa_accepted b @ [n]\<rparr>"
        using sub t n r by (simp_all add: async_submit_def)
      moreover from this have "fst (async_task_poll env k a') = Pending"
        using poll_result [OF e(1), where a = a' and k = k] e(2) b(2) by (simp add: async_task_new_def)
      ultimately show ?thesis using law Inr True by (simp add: try_send_law_def async_task_new_def)
    next
      case (Inl x)
      then have "make_error_task env (try_send_to_isle_error x) t (drop_sender env n (b\<lparr>aa_chan := q\<rparr>)) = (k, a')"
        using sub t n r by (simp add: async_submit_def)
      from sent [OF this] show ?thesis using law Inl True
        by (cases x) (simp_all add: try_send_law_def drop_sender_def put_shot_def)
    qed
  qed
qed

section \<open>A concrete isle\<close>

text \<open>A channel of capacity two: its values, its senders, and whether the receiver is gone.\<close>

definition demo_chan :: "('t, 't list \<times> nat \<times> bool) request_chan" where
  "demo_chan =
    \<lparr>hs_send_poll = (\<lambda>x wk q. case q of (xs, n, g) \<Rightarrow>
        if g then (Ready (Inl x), q) else if length xs < 2 then (Ready (Inr ()), (xs @ [x], n, g)) else (Pending, q)),
     hs_try_send = (\<lambda>x q. case q of (xs, n, g) \<Rightarrow>
        if g then (Inl (MpscClosed x), q) else if length xs < 2 then (Inr (), (xs @ [x], n, g)) else (Inl (MpscFull x), q)),
     hs_is_closed = (\<lambda>q. snd (snd q)),
     hr_recv_poll = (\<lambda>wk q. case q of (xs, n, g) \<Rightarrow>
        (case xs of [] \<Rightarrow> if n = 0 then (Ready None, q) else (Pending, q) | x # xs' \<Rightarrow> (Ready (Some x), (xs', n, g)))),
     hr_try_recv = (\<lambda>q. (RxEmpty, q)), hr_close = (\<lambda>q. q), hr_is_closed = (\<lambda>q. snd (snd q)),
     rc_drop_rx = (\<lambda>q. (fst q, ([], fst (snd q), True))),
     rc_drop_tx = (\<lambda>q. (fst q, fst (snd q) - 1, snd (snd q))),
     rc_clone_tx = (\<lambda>q. (fst q, Suc (fst (snd q)), snd (snd q)))\<rparr>"

lemma demo_chan_ok: "request_chan_ok demo_chan fst (\<lambda>q. snd (snd q))"
  unfolding request_chan_ok_def
  by (auto simp: demo_chan_def try_send_law_def send_law_def recv_law_def split: list.split)

text \<open>A coroutine counts its polls down and returns how often it was resumed.\<close>

definition demo_async ::
  "(nat, isle_error + nat, nat, (nat, isle_error + nat, nat) async_request list \<times> nat \<times> bool, (isle_error + nat) shot) async_env"
where
  "demo_async =
    \<lparr>ae_chan = demo_chan, ae_shot = demo_oneshot, ae_new_shot = ShotEmpty,
     ae_co = (\<lambda>c h w. if c = 0 then (CoReady (Inr w), h, w) else (CoPending (c - 1), h, Suc w))\<rparr>"

lemma demo_async_ok: "env_ok demo_async fst (\<lambda>q. snd (snd q)) id"
  by (simp add: env_ok_def demo_async_def demo_chan_ok demo_oneshot_ok)

definition demo_sync_job :: "(nat, isle_error + nat, nat) async_job" where
  "demo_sync_job = SyncJob (\<lambda>t h w. (JobSent (Inr (w + 10)), h, w))"

definition demo_sops :: "(nat, isle_error + nat, nat) sop list" where
  "demo_sops = [SubmitJob (CoroutineJob (\<lambda>t. 1)), SubmitJob demo_sync_job, LoopPoll NoopWaker, LoopPoll NoopWaker, LocalPoll 0]"

definition demo_shutdown_sops :: "(nat, isle_error + nat, nat) sop list" where
  "demo_shutdown_sops = demo_sops @ [DriverPoll NoopWaker DriverSend, LoopPoll NoopWaker, LocalPoll 0, ThreadExit]"

definition demo_async_actor ::
  "(nat, isle_error + nat, nat) sop list \<Rightarrow>
    (nat, nat, (nat, isle_error + nat, nat) async_request list \<times> nat \<times> bool, (isle_error + nat) shot) async_actor"
where
  "demo_async_actor ops = async_run demo_async ops (async_actor_new 0 heap_init ([], 2, False) (\<lambda>_. ShotGone))"

lemma async_tasks_wait_for_something_witness:
  "fst (async_task_poll demo_async (async_task_new 0 1) (demo_async_actor demo_sops)) = Pending \<and>
   0 \<in> pending_ids fst (demo_async_actor demo_sops)"
proof -
  let ?a = "demo_async_actor demo_sops"
  have "aa_fresh ?a = 2" "aa_resp ?a 0 = ShotEmpty" "map fst (aa_local ?a) = [0]" by code_simp+
  moreover from this(3) have "0 \<in> pending_ids fst ?a" by (auto simp: pending_ids_def simp flip: set_map)
  ultimately show ?thesis
    using async_tasks_wait_for_something [OF demo_async_ok _ _ demo_async_actor_def, where k = "async_task_new 0 1" and ops = demo_sops]
    by (simp add: async_task_new_def)
qed

lemma refused_requests_fail_at_once_witness:
  "\<exists>k a'. submit_fn demo_async 0 \<lparr>if_key = 3, if_isle = 1\<rparr> (\<lambda>_. demo_sync_job) (demo_async_actor demo_sops) = (k, a') \<and>
    fst (async_task_poll demo_async k a') = Ready (Inl WrongIsle)"
proof -
  obtain k a' where s: "submit_fn demo_async 0 \<lparr>if_key = 3, if_isle = 1\<rparr> (\<lambda>_. demo_sync_job) (demo_async_actor demo_sops) = (k, a')"
    by fastforce
  from refused_requests_fail_at_once [OF demo_async_ok s] s show ?thesis by simp
qed

end
