(* ===== verification/Isle_Requests.thy ===== *)
theory Isle_Requests
  imports Isle_Actor_Props Isle_Async
begin

text \<open>
  The requests a caller waits for in one go: \<^verbatim>\<open>eval\<close>, \<^verbatim>\<open>call\<close> and \<^verbatim>\<open>exec\<close> of \<^verbatim>\<open>Isle\<close>, which block
  (\<^verbatim>\<open>src/handle.rs\<close>), and those of \<^verbatim>\<open>AsyncIsle\<close>, which are futures (\<^verbatim>\<open>src/async_isle.rs\<close>).

  A blocking call spawns its request and waits while the thread takes \<open>turns\<close> turns of its loop; \<open>None\<close> is a call that
  still blocks.  The future of an async call does nothing before its first poll; then it is the task it spawned.
\<close>

section \<open>Blocking calls\<close>

definition blocking_call ::
  "(('w, isle_error + 'b) actor \<Rightarrow> task \<times> ('w, isle_error + 'b) actor) \<Rightarrow> nat \<Rightarrow> ('w, isle_error + 'b) actor \<Rightarrow>
    (isle_error + 'b) option \<times> ('w, isle_error + 'b) actor" where
  "blocking_call spawn turns a =
    (let (k, a1) = spawn a;
         a2 = (loop_step ^^ turns) a1
     in case task_wait k a2 of
          (None, k1, a3) \<Rightarrow> (None, a3)
        | (Some r, k1, a3) \<Rightarrow> (Some r, task_drop k1 a3))"

definition isle_eval ::
  "'u lua_env \<Rightarrow> ('u, lua_value list, 'b) conversion \<Rightarrow> string \<Rightarrow> nat \<Rightarrow> ('u isle_vm, isle_error + 'b) actor \<Rightarrow>
    (isle_error + 'b) option \<times> ('u isle_vm, isle_error + 'b) actor" where
  "isle_eval E to_t code turns a = blocking_call (spawn_eval E to_t code) turns a"

definition isle_call ::
  "'u lua_env \<Rightarrow> ('u, 'a, lua_value list) conversion \<Rightarrow> ('u, lua_value list, 'b) conversion \<Rightarrow> string \<Rightarrow> 'a \<Rightarrow> nat \<Rightarrow>
    ('u isle_vm, isle_error + 'b) actor \<Rightarrow> (isle_error + 'b) option \<times> ('u isle_vm, isle_error + 'b) actor" where
  "isle_call E from_a to_t name args turns a = blocking_call (spawn_call E from_a to_t name args) turns a"

definition isle_exec ::
  "'u lua_env \<Rightarrow> ('u isle_vm \<Rightarrow> (isle_error + 'b) job_out \<times> 'u isle_vm) \<Rightarrow> nat \<Rightarrow>
    ('u isle_vm, isle_error + 'b) actor \<Rightarrow> (isle_error + 'b) option \<times> ('u isle_vm, isle_error + 'b) actor" where
  "isle_exec E f turns a = blocking_call (spawn_exec E f) turns a"

section \<open>Async calls\<close>

datatype 'k request_future = RqNew | RqTask 'k | RqDone

definition request_poll ::
  "('w, isle_error + 'b, 'c, 'q, 'o) async_env \<Rightarrow>
    (('w, 'c, 'q, 'o) async_actor \<Rightarrow> async_task \<times> ('w, 'c, 'q, 'o) async_actor) \<Rightarrow>
    async_task request_future \<Rightarrow> ('w, 'c, 'q, 'o) async_actor \<Rightarrow>
    (isle_error + 'b) poll \<times> async_task request_future \<times> ('w, 'c, 'q, 'o) async_actor" where
  "request_poll env spawn f a =
    (case f of
       RqDone \<Rightarrow> (Pending, RqDone, a)
     | _ \<Rightarrow>
         let (k, a1) = (case f of RqTask k \<Rightarrow> (k, a) | _ \<Rightarrow> spawn a)
         in (case async_task_poll env k a1 of
               (Pending, k1, a2) \<Rightarrow> (Pending, RqTask k1, a2)
             | (Ready r, k1, a2) \<Rightarrow> (Ready r, RqDone, async_task_drop env k1 a2)))"

definition request_drop ::
  "('w, 'r, 'c, 'q, 'o) async_env \<Rightarrow> async_task request_future \<Rightarrow> ('w, 'c, 'q, 'o) async_actor \<Rightarrow>
    ('w, 'c, 'q, 'o) async_actor" where
  "request_drop env f a = (case f of RqTask k \<Rightarrow> async_task_drop env k a | _ \<Rightarrow> a)"

definition async_eval ::
  "'u lua_env \<Rightarrow> ('u, lua_value list, 'b) conversion \<Rightarrow> ('u isle_vm, isle_error + 'b, 'c, 'q, 'o) async_env \<Rightarrow> string \<Rightarrow>
    async_task request_future \<Rightarrow> ('u isle_vm, 'c, 'q, 'o) async_actor \<Rightarrow>
    (isle_error + 'b) poll \<times> async_task request_future \<times> ('u isle_vm, 'c, 'q, 'o) async_actor" where
  "async_eval E to_t env code f a = request_poll env (async_spawn_eval E to_t env code) f a"

definition async_call ::
  "'u lua_env \<Rightarrow> ('u, 'a, lua_value list) conversion \<Rightarrow> ('u, lua_value list, 'b) conversion \<Rightarrow>
    ('u isle_vm, isle_error + 'b, 'c, 'q, 'o) async_env \<Rightarrow> string \<Rightarrow> 'a \<Rightarrow>
    async_task request_future \<Rightarrow> ('u isle_vm, 'c, 'q, 'o) async_actor \<Rightarrow>
    (isle_error + 'b) poll \<times> async_task request_future \<times> ('u isle_vm, 'c, 'q, 'o) async_actor" where
  "async_call E from_a to_t env name args f a = request_poll env (async_spawn_call E from_a to_t env name args) f a"

definition async_exec_request ::
  "'u lua_env \<Rightarrow> ('u isle_vm \<Rightarrow> (isle_error + 'b) job_out \<times> 'u isle_vm) \<Rightarrow>
    ('u isle_vm, isle_error + 'b, 'c, 'q, 'o) async_env \<Rightarrow>
    async_task request_future \<Rightarrow> ('u isle_vm, 'c, 'q, 'o) async_actor \<Rightarrow>
    (isle_error + 'b) poll \<times> async_task request_future \<times> ('u isle_vm, 'c, 'q, 'o) async_actor" where
  "async_exec_request E g env f a = request_poll env (async_spawn_exec E g env) f a"

definition async_coroutine_eval ::
  "('w, isle_error + 'b, nat \<times> ('a, 'f) co_call, 'q, 'o) async_env \<Rightarrow> string \<Rightarrow>
    async_task request_future \<Rightarrow> ('w, nat \<times> ('a, 'f) co_call, 'q, 'o) async_actor \<Rightarrow>
    (isle_error + 'b) poll \<times> async_task request_future \<times> ('w, nat \<times> ('a, 'f) co_call, 'q, 'o) async_actor" where
  "async_coroutine_eval env code f a = request_poll env (spawn_coroutine_eval env code) f a"

definition async_coroutine_call ::
  "('w, isle_error + 'b, nat \<times> ('a, 'f) co_call, 'q, 'o) async_env \<Rightarrow> string \<Rightarrow> 'a \<Rightarrow>
    async_task request_future \<Rightarrow> ('w, nat \<times> ('a, 'f) co_call, 'q, 'o) async_actor \<Rightarrow>
    (isle_error + 'b) poll \<times> async_task request_future \<times> ('w, nat \<times> ('a, 'f) co_call, 'q, 'o) async_actor" where
  "async_coroutine_call env name args f a = request_poll env (spawn_coroutine_call env name args) f a"

definition async_call_fn ::
  "'u lua_env \<Rightarrow> ('u, 'a, lua_value list) conversion \<Rightarrow> ('u, lua_value list, 'b) conversion \<Rightarrow>
    ('u isle_vm, isle_error + 'b, 'c, 'q, 'o) async_env \<Rightarrow> nat \<Rightarrow> isle_function \<Rightarrow> 'a \<Rightarrow>
    async_task request_future \<Rightarrow> ('u isle_vm, 'c, 'q, 'o) async_actor \<Rightarrow>
    (isle_error + 'b) poll \<times> async_task request_future \<times> ('u isle_vm, 'c, 'q, 'o) async_actor" where
  "async_call_fn E from_a to_t env isle func args f a =
    request_poll env (async_spawn_call_fn E from_a to_t env isle func args) f a"

definition async_coroutine_call_fn ::
  "('w, isle_error + 'b, nat \<times> ('a, 'f) co_call, 'q, 'o) async_env \<Rightarrow> nat \<Rightarrow> isle_function \<Rightarrow> 'a \<Rightarrow>
    async_task request_future \<Rightarrow> ('w, nat \<times> ('a, 'f) co_call, 'q, 'o) async_actor \<Rightarrow>
    (isle_error + 'b) poll \<times> async_task request_future \<times> ('w, nat \<times> ('a, 'f) co_call, 'q, 'o) async_actor" where
  "async_coroutine_call_fn env isle func args f a = request_poll env (spawn_coroutine_call_fn env isle func args) f a"

text \<open>\<^verbatim>\<open>function\<close>: its exec, and the handle made of the key.\<close>

definition async_function ::
  "'u lua_env \<Rightarrow> ('u isle_vm \<Rightarrow> (mlua_error + nat) job_out \<times> 'u isle_vm) \<Rightarrow>
    ('u isle_vm \<Rightarrow> nat \<Rightarrow> (mlua_error + nat) \<times> 'u isle_vm) \<Rightarrow> ('u isle_vm, isle_error + nat, 'c, 'q, 'o) async_env \<Rightarrow> nat \<Rightarrow>
    async_task request_future \<Rightarrow> ('u isle_vm, 'c, 'q, 'o) async_actor \<Rightarrow>
    (isle_error + isle_function) poll \<times> async_task request_future \<times> ('u isle_vm, 'c, 'q, 'o) async_actor" where
  "async_function E g store env isle f a =
    (let (r, f1, a1) = request_poll env (async_submit env (function_job E g store)) f a
     in (map_poll (isle_function_of isle) r, f1, a1))"

end
