(* ===== verification/Isle_Requests_Props.thy ===== *)
theory Isle_Requests_Props
  imports Isle_Requests Isle_Async_Props
begin

text \<open>
  A blocking call returns once the thread has been through the queue before it, with the answer of a reference
  run of that queue; the future of an async call is lazy, and its drop cancels the request.
\<close>

section \<open>The answer of a request\<close>

text \<open>
  The reference: the queue before the request is run on the tokens and the VM, one job after another; a job that
  panics and a shutdown end the thread, and the request is lost.
\<close>

fun answer_of :: "('w, 'r) Isle_Actor.request list \<Rightarrow> ('w, 'r) job \<Rightarrow> nat \<Rightarrow> token_heap \<Rightarrow> 'w \<Rightarrow> 'r option" where
  "answer_of [] job t h w = (case job t h w of (JobSent r, h', w') \<Rightarrow> Some r | (JobPanic p, h', w') \<Rightarrow> None)"
| "answer_of (ShutdownReq # q) job t h w = None"
| "answer_of (RunJob k j u # q) job t h w =
    (case j u h w of (JobSent r, h', w') \<Rightarrow> answer_of q job t h' w' | (JobPanic p, h', w') \<Rightarrow> None)"

lemma loop_step_idle:
  assumes "ac_queue a = [] \<or> ac_thread a \<noteq> Serving"
  shows "ac_resp (loop_step a) = ac_resp a" and "ac_queue (loop_step a) = [] \<or> ac_thread (loop_step a) \<noteq> Serving"
  using assms by (auto simp: loop_step_def thread_ends_def)

lemma loop_steps_idle:
  assumes "ac_queue a = [] \<or> ac_thread a \<noteq> Serving"
  shows "ac_resp ((loop_step ^^ n) a) = ac_resp a"
proof -
  have "ac_resp ((loop_step ^^ n) a) = ac_resp a \<and>
      (ac_queue ((loop_step ^^ n) a) = [] \<or> ac_thread ((loop_step ^^ n) a) \<noteq> Serving)"
    using assms by (induction n) (simp_all add: loop_step_idle)
  then show ?thesis ..
qed

lemma response_idle:
  assumes "ac_queue a = [] \<or> ac_thread a \<noteq> Serving"
  shows "response_recv k ((loop_step ^^ n) a) = response_recv k a"
  by (simp add: response_recv_def loop_steps_idle [OF assms])

lemma served:
  assumes "ac_thread a = Serving" and "ac_queue a = q @ [RunJob k job t]" and "k \<notin> set (queued_ids q)"
    and "ac_resp a k = \<lparr>rs_value = None, rs_sender = True\<rparr>" and "length q < turns"
  shows "response_recv k ((loop_step ^^ turns) a) =
    Some (case answer_of q job t (ac_heap a) (ac_vm a) of Some r \<Rightarrow> r | None \<Rightarrow> Inl RecvFailed)"
  using assms
proof (induction q arbitrary: a turns)
  case Nil
  then obtain n where n: "turns = Suc n" by (cases turns) auto
  obtain out h w where j: "job t (ac_heap a) (ac_vm a) = (out, h, w)" by (cases "job t (ac_heap a) (ac_vm a)")
  have "ac_queue (loop_step a) = [] \<or> ac_thread (loop_step a) \<noteq> Serving"
    using Nil.prems(1,2) j by (cases out) (auto simp: loop_step_def set_resp_def thread_ends_eq)
  moreover have "response_recv k (loop_step a) = Some (case out of JobSent r \<Rightarrow> r | JobPanic p \<Rightarrow> Inl RecvFailed)"
    using Nil.prems(1,2,4) j by (cases out) (auto simp: loop_step_def set_resp_def thread_ends_eq response_recv_def)
  ultimately show ?case
    using j by (simp add: n funpow_swap1 response_idle split: job_out.split)
next
  case (Cons rq q)
  then obtain n where n: "turns = Suc n" "length q < n" by (cases turns) auto
  show ?case
  proof (cases rq)
    case ShutdownReq
    have "ac_thread (loop_step a) \<noteq> Serving" "response_recv k (loop_step a) = Some (Inl RecvFailed)"
      using Cons.prems(1,2,4) by (simp_all add: ShutdownReq loop_step_def thread_ends_eq response_recv_def)
    then show ?thesis by (simp add: n funpow_swap1 response_idle ShutdownReq)
  next
    case (RunJob k' j u)
    obtain out h w where j: "j u (ac_heap a) (ac_vm a) = (out, h, w)" by (cases "j u (ac_heap a) (ac_vm a)")
    have k: "k' \<noteq> k" "k \<notin> set (queued_ids q)" using Cons.prems(3) by (auto simp: RunJob)
    show ?thesis
    proof (cases out)
      case (JobSent r)
      let ?b = "loop_step a"
      have b: "ac_thread ?b = Serving" "ac_queue ?b = q @ [RunJob k job t]" "ac_heap ?b = h" "ac_vm ?b = w"
        "ac_resp ?b k = \<lparr>rs_value = None, rs_sender = True\<rparr>"
        using Cons.prems(1,2,4) j k by (simp_all add: RunJob JobSent loop_step_def set_resp_def)
      have "(loop_step ^^ turns) a = (loop_step ^^ n) ?b" by (simp add: n funpow_swap1)
      then show ?thesis using Cons.IH [OF b(1,2) k(2) b(5) n(2)] j by (simp add: RunJob JobSent b)
    next
      case (JobPanic p)
      have "ac_thread (loop_step a) \<noteq> Serving" "response_recv k (loop_step a) = Some (Inl RecvFailed)"
        using Cons.prems(1,2,4) j k
        by (simp_all add: RunJob JobPanic loop_step_def thread_ends_eq set_resp_def response_recv_def)
      then show ?thesis by (simp add: n funpow_swap1 response_idle RunJob JobPanic j)
    qed
  qed
qed
section \<open>Blocking calls return\<close>

text \<open>What a caller of \<^verbatim>\<open>eval\<close> and its kin must get.\<close>

definition expected_answer :: "('w, isle_error + 'b) actor \<Rightarrow> ('w, isle_error + 'b) job \<Rightarrow> isle_error + 'b" where
  "expected_answer a job =
    (if ac_thread a \<noteq> Serving then Inl Shutdown
     else let (t, h) = token_new None (ac_heap a)
          in case answer_of (ac_queue a) job t h (ac_vm a) of Some r \<Rightarrow> r | None \<Rightarrow> Inl RecvFailed)"

lemma blocking_call_submit:
  assumes ok: "actor_ok a" and n: "length (ac_queue a) < turns"
  shows "fst (blocking_call (submit job) turns a) = Some (expected_answer a job)"
proof -
  obtain t h where t: "token_new None (ac_heap a) = (t, h)" by fastforce
  obtain k a1 where s: "submit job a = (k, a1)" by fastforce
  have "response_recv (tk_resp k) ((loop_step ^^ turns) a1) = Some (expected_answer a job)"
  proof (cases "ac_thread a = Serving")
    case True
    have "ac_fresh a \<notin> set (queued_ids (ac_queue a))" using ok True unfolding actor_ok_def by force
    moreover have "tk_resp k = ac_fresh a" "ac_thread a1 = Serving" "ac_queue a1 = ac_queue a @ [RunJob (ac_fresh a) job t]"
      "ac_resp a1 (ac_fresh a) = \<lparr>rs_value = None, rs_sender = True\<rparr>" "ac_heap a1 = h" "ac_vm a1 = ac_vm a"
      using s True t by (auto simp: submit_def set_resp_def task_of_def Let_def)
    ultimately show ?thesis using served [of a1 "ac_queue a" "ac_fresh a" job t turns] n True
      by (simp add: expected_answer_def t)
  next
    case False
    have "ac_thread a1 \<noteq> Serving" "response_recv (tk_resp k) a1 = Some (Inl Shutdown)"
      using s False t by (auto simp: submit_def set_resp_def task_of_def response_recv_def Let_def)
    then show ?thesis using False by (simp add: response_idle expected_answer_def)
  qed
  then show ?thesis by (simp add: blocking_call_def s task_wait_def split_beta)
qed

text \<open>C19: \<^verbatim>\<open>eval\<close>, \<^verbatim>\<open>call\<close> and \<^verbatim>\<open>exec\<close> return, after one turn of the thread for each request that was queued and one
  for their own, with what the reference run of the queue gives: the result their code produced on the tokens and the VM the
  requests before left, \<^verbatim>\<open>Shutdown\<close> when the thread has ended, and \<^verbatim>\<open>RecvFailed\<close> when a shutdown or a panic
  came first.
\<close>

theorem blocking_calls_answer:
  assumes "a = actor_run ops (actor_new vm h)" and "length (ac_queue a) < turns"
  shows "fst (isle_eval E to_t code turns a) = Some (expected_answer a (eval_job E to_t code)) \<and>
    fst (isle_call E from_a to_t name args turns a) = Some (expected_answer a (call_job E from_a to_t name args)) \<and>
    fst (isle_exec E f turns a) = Some (expected_answer a (exec_job E f))"
proof -
  have "actor_ok a" unfolding assms(1) by (rule actor_ok_run)
  from blocking_call_submit [OF this assms(2)] show ?thesis
    by (simp add: isle_eval_def isle_call_def isle_exec_def spawn_eval_def [abs_def] spawn_call_def [abs_def] spawn_exec_def [abs_def])
qed

text \<open>A VM with one request in its queue, which succeeds.\<close>

definition demo_queue :: "(unit isle_vm, isle_error + lua_value list) actor" where
  "demo_queue = actor_run [Submit (\<lambda>t h w. (JobSent (Inr [VInteger 1]), h, w))]
    (actor_new (snd (vm_attach demo_lua \<lparr>cf_grace = 5, cf_preempt = None\<rparr> demo_isle_vm)) heap_init)"

lemma blocking_calls_answer_witness:
  "fst (isle_exec demo_lua (\<lambda>v. (JobSent (Inr [VInteger 2]), v)) 2 demo_queue) = Some (Inr [VInteger 2])"
proof -
  have "length (ac_queue demo_queue) = 1" "expected_answer demo_queue (exec_job demo_lua (\<lambda>v. (JobSent (Inr [VInteger 2]), v))) = Inr [VInteger 2]"
    by code_simp+
  then show ?thesis
    using blocking_calls_answer [OF demo_queue_def, of 2 demo_lua, THEN conjunct2, THEN conjunct2] by simp
qed
section \<open>Async calls\<close>

text \<open>A call that was not polled has asked for nothing; a waiting one is its task, whose drop cancels the token.\<close>

lemma call_not_polled: "request_drop env RqNew a = a"
  by (simp add: request_drop_def)

lemma call_pending:
  assumes "request_poll env spawn RqNew a = (Pending, f, a1)"
  shows "\<exists>k k1 a0. spawn a = (k, a0) \<and> f = RqTask k1 \<and> async_task_poll env k a0 = (Pending, k1, a1)"
proof -
  obtain k a0 where s: "spawn a = (k, a0)" by fastforce
  then show ?thesis using assms by (auto simp: request_poll_def split: poll.splits prod.splits)
qed

lemma pending_task:
  assumes "async_task_poll env k a = (Pending, k1, a1)"
  shows "k1 = k"
  using assms by (auto simp: async_task_poll_def split: poll.splits prod.splits option.splits)

lemma waiting_call_dropped:
  assumes "request_poll env (async_submit env job) RqNew a = (Pending, f, a1)"
  shows "\<exists>k. f = RqTask k \<and> at_cancel k = fst (token_new None (aa_heap a)) \<and>
    aa_heap (request_drop env f a1) = cancel (at_cancel k) (aa_heap a1)"
proof -
  obtain k k1 a0 where k: "async_submit env job a = (k, a0)" "f = RqTask k1" "async_task_poll env k a0 = (Pending, k1, a1)"
    using call_pending [OF assms] by blast
  have "k1 = k" by (rule pending_task [OF k(3)])
  moreover have "at_cancel k = fst (token_new None (aa_heap a))" "\<not> at_released k"
    using k(1) by (auto simp: async_submit_def async_task_new_def make_error_task_def new_shot_def Let_def split_beta
        split: prod.splits sum.splits)
  ultimately show ?thesis using k(2)
    by (simp add: request_drop_def async_task_drop_def async_task_cancel_def put_shot_def Let_def)
qed

text \<open>The future of a call answers what its task is answered.\<close>

lemma call_answers:
  assumes "request_poll env spawn (RqTask k) a = (Ready r, f, a1)"
  shows "f = RqDone \<and> fst (async_task_poll env k a) = Ready r"
  using assms by (auto simp: request_poll_def split: poll.splits prod.splits)

end
