(* ===== verification/Isle_Registry_Sys.thy ===== *)
theory Isle_Registry_Sys
  imports Isle_Select Isle_Scope_Rel
begin

text \<open>
  The task handles of Lua as a machine: spawns, joins that are polled and dropped, cancels, \<^verbatim>\<open><close>\<close>, the collection
  of handles, select cases that join and give back, and tasks that finish, in any order.

  \<open>ls_own\<close> maps a Lua handle to its id and its task, \<open>ls_live\<close> are the handles Lua still holds, \<open>ls_joins\<close> and
  \<open>ls_arms\<close> the pending joins and the task cases of pending selects.  Two fields are history: \<open>ls_out\<close> is what a
  task had in its result slot when it finished, \<open>ls_log\<close> what every completed join and chosen case returned.
\<close>

section \<open>The machine\<close>

record 'q lib_sys =
  ls_vm :: "'q vm"
  ls_own :: "nat \<Rightarrow> (nat \<times> nat) option"
  ls_live :: "nat set"
  ls_joins :: "(nat \<times> join_future) list"
  ls_arms :: "task_arm list"
  ls_out :: "nat \<Rightarrow> lua_value list option option"
  ls_log :: "(nat \<times> (mlua_error + lua_value list)) list"

definition lib_tasks :: "'q lib_sys \<Rightarrow> nat set" where
  "lib_tasks S = {t. \<exists>h i. ls_own S h = Some (i, t)}"

text \<open>
  What else may happen to the VM: a finished task of the library stays finished, with what is in its result slot
  (only \<^verbatim>\<open>finish\<close> fills the slot, and only the library has the slots of its tasks).
\<close>

definition vm_moves :: "nat set \<Rightarrow> 'q vm \<Rightarrow> 'q vm \<Rightarrow> bool" where
  "vm_moves T v v' \<longleftrightarrow>
    vm_tasks v' = vm_tasks v \<and> vm_next_id v' = vm_next_id v \<and> vm_cancelled v' = vm_cancelled v \<and>
    vm_joined v' = vm_joined v \<and> sw_fresh (vm_world v) \<le> sw_fresh (vm_world v') \<and>
    (\<forall>t \<in> T. vm_done t v \<longrightarrow> vm_done t v' \<and>
      ts_result (sw_task (vm_world v') t) = ts_result (sw_task (vm_world v) t))"

definition finished_with ::
  "'q vm \<Rightarrow> 'q vm \<Rightarrow> (nat \<Rightarrow> lua_value list option option) \<Rightarrow> nat \<Rightarrow> lua_value list option option" where
  "finished_with v v' out t =
    (if vm_done t v \<or> \<not> vm_done t v' then out t else Some (ts_result (sw_task (vm_world v') t)))"

text \<open>The case of a handle, as \<^verbatim>\<open>read_cases\<close> reads it.\<close>

definition handle_case :: "mlua_error \<Rightarrow> nat \<Rightarrow> nat \<Rightarrow> lua_value \<Rightarrow> case_table" where
  "handle_case absent u h f =
    \<lparr>ct_kind = Inr ''task'', ct_target = Inr (VUserData u), ct_value = Inr VNil, ct_handle = Inr h, ct_handler = Inr f\<rparr>"

text \<open>What a poll of a case adds to the history.\<close>

definition log_case ::
  "task_arm \<Rightarrow> (mlua_error + lua_value list) poll \<Rightarrow> (nat \<times> (mlua_error + lua_value list)) list \<Rightarrow>
    (nat \<times> (mlua_error + lua_value list)) list" where
  "log_case a r lg = (case r of Ready (Inr vs) \<Rightarrow> (ta_handle a, Inr vs) # lg | _ \<Rightarrow> lg)"

inductive lib_step :: "'q lib_sys \<Rightarrow> 'q lib_sys \<Rightarrow> bool" where
  spawned: "spawn_raw body (ls_vm S) = (Inr i, v) \<Longrightarrow> vm_tasks v i = Some t \<Longrightarrow>
    ls_own S h = None \<Longrightarrow> \<not> vm_joined (ls_vm S) h \<Longrightarrow>
    lib_step S (S\<lparr>ls_vm := v, ls_own := (ls_own S)(h := Some (i, t)), ls_live := insert h (ls_live S),
      ls_out := (ls_out S)(t := if vm_done t v then Some (ts_result (sw_task (vm_world v) t)) else None)\<rparr>)"
| moved: "vm_moves (lib_tasks S) (ls_vm S) v \<Longrightarrow>
    lib_step S (S\<lparr>ls_vm := v, ls_out := finished_with (ls_vm S) v (ls_out S)\<rparr>)"
| join_started: "h \<in> ls_live S \<Longrightarrow> ls_own S h = Some (i, t) \<Longrightarrow> task_join_start h i (ls_vm S) = (Inr j, v) \<Longrightarrow>
    lib_step S (S\<lparr>ls_vm := v, ls_joins := ls_joins S @ [(h, j)]\<rparr>)"
| join_polled: "ls_joins S = xs @ (h, j) # ys \<Longrightarrow> join_raw_poll j (ls_vm S) = (Pending, j', v) \<Longrightarrow>
    lib_step S (S\<lparr>ls_vm := v, ls_joins := xs @ (h, j') # ys\<rparr>)"
| joined: "ls_joins S = xs @ (h, j) # ys \<Longrightarrow> join_raw_poll j (ls_vm S) = (Ready r, j', v) \<Longrightarrow>
    lib_step S (S\<lparr>ls_vm := v, ls_joins := xs @ ys, ls_log := (h, r) # ls_log S\<rparr>)"
| join_dropped: "ls_joins S = xs @ (h, j) # ys \<Longrightarrow> lib_step S (S\<lparr>ls_joins := xs @ ys\<rparr>)"
| cancelled: "h \<in> ls_live S \<Longrightarrow> ls_own S h = Some (i, t) \<Longrightarrow> task_cancel h i (ls_vm S) = (r, v) \<Longrightarrow>
    lib_step S (S\<lparr>ls_vm := v\<rparr>)"
| closed: "h \<in> ls_live S \<Longrightarrow> ls_own S h = Some (i, t) \<Longrightarrow> task_close h i (ls_vm S) = (Inr js, v) \<Longrightarrow>
    lib_step S (S\<lparr>ls_vm := v, ls_joins := ls_joins S @ (case js of None \<Rightarrow> [] | Some j \<Rightarrow> [(h, j)])\<rparr>)"
| collected: "h \<in> ls_live S \<Longrightarrow> ls_own S h = Some (i, t) \<Longrightarrow> h \<notin> ta_handle ` set (ls_arms S) \<Longrightarrow>
    task_gc h i (ls_vm S) = (r, v) \<Longrightarrow> lib_step S (S\<lparr>ls_vm := v, ls_live := ls_live S - {h}\<rparr>)"
| case_read: "h \<in> ls_live S \<Longrightarrow> ls_own S h = Some (i, t) \<Longrightarrow> uds u = UdTask i \<Longrightarrow>
    read_arm uds name n mark (handle_case absent u h f) (ls_vm S) = Inr (ArmTask a) \<Longrightarrow>
    lib_step S (S\<lparr>ls_arms := ls_arms S @ [a]\<rparr>)"
| case_polled: "ls_arms S = xs @ a # ys \<Longrightarrow> task_arm_poll a (ls_vm S) = (r, a', v) \<Longrightarrow>
    lib_step S (S\<lparr>ls_vm := v, ls_arms := xs @ a' # ys, ls_log := log_case a r (ls_log S)\<rparr>)"
| case_undone: "ls_arms S = xs @ a # ys \<Longrightarrow> ta_taken a \<noteq> None \<Longrightarrow> task_arm_untake a (ls_vm S) = (a', v) \<Longrightarrow>
    lib_step S (S\<lparr>ls_vm := v, ls_arms := xs @ a' # ys,
      ls_log := filter (\<lambda>(h, r). h \<noteq> ta_handle a) (ls_log S)\<rparr>)"
| case_dropped: "ls_arms S = xs @ a # ys \<Longrightarrow> lib_step S (S\<lparr>ls_arms := xs @ ys\<rparr>)"

definition lib_init :: "'q vm \<Rightarrow> 'q lib_sys" where
  "lib_init v = \<lparr>ls_vm = v, ls_own = (\<lambda>_. None), ls_live = {}, ls_joins = [], ls_arms = [], ls_out = (\<lambda>_. None), ls_log = []\<rparr>"

section \<open>What holds of one handle\<close>

record hview =
  hv_live :: bool
  hv_joined :: bool
  hv_joins :: "join_future list"
  hv_taken :: "lua_value list option list"
  hv_log :: "(mlua_error + lua_value list) list"
  hv_reg :: "nat option"
  hv_done :: bool
  hv_result :: "lua_value list option"
  hv_out :: "lua_value list option option"

definition of_handle :: "nat \<Rightarrow> (nat \<times> 'a) list \<Rightarrow> 'a list" where
  "of_handle h xs = map snd (filter (\<lambda>(x, y). x = h) xs)"

definition taken_of :: "nat \<Rightarrow> task_arm list \<Rightarrow> lua_value list option list" where
  "taken_of h arms = map (the \<circ> ta_taken) (filter (\<lambda>a. ta_handle a = h \<and> ta_taken a \<noteq> None) arms)"

lemma of_handle_simps [simp]:
  "of_handle h [] = []" "of_handle h (xs @ ys) = of_handle h xs @ of_handle h ys"
  "of_handle h ((x, y) # xs) = (if x = h then y # of_handle h xs else of_handle h xs)"
  by (simp_all add: of_handle_def)

lemma of_handle_drop: "of_handle h (filter (\<lambda>(x, r). x \<noteq> h') xs) = (if h = h' then [] else of_handle h xs)"
  by (induction xs) (auto simp: of_handle_def)

lemma of_handle_mem: "h \<in> fst ` set xs \<longleftrightarrow> of_handle h xs \<noteq> []"
  by (induction xs) (auto simp: of_handle_def)

lemma taken_of_simps [simp]:
  "taken_of h [] = []" "taken_of h (xs @ ys) = taken_of h xs @ taken_of h ys"
  "taken_of h (a # xs) = (case ta_taken a of Some r \<Rightarrow> if ta_handle a = h then r # taken_of h xs else taken_of h xs
     | None \<Rightarrow> taken_of h xs)"
  by (auto simp: taken_of_def split: option.split)

definition handle_view :: "'q lib_sys \<Rightarrow> nat \<Rightarrow> nat \<Rightarrow> nat \<Rightarrow> hview" where
  "handle_view S h i t =
    \<lparr>hv_live = (h \<in> ls_live S), hv_joined = vm_joined (ls_vm S) h, hv_joins = of_handle h (ls_joins S),
     hv_taken = taken_of h (ls_arms S), hv_log = of_handle h (ls_log S), hv_reg = vm_tasks (ls_vm S) i,
     hv_done = vm_done t (ls_vm S), hv_result = ts_result (sw_task (vm_world (ls_vm S)) t), hv_out = ls_out S t\<rparr>"

text \<open>
  A handle that Lua can still join, and a pending join, find the task in the registry and its result in the slot; a
  pending join and a returned result exclude each other; what was returned is what the task finished with.
\<close>

definition view_ok :: "(lua_value list option \<Rightarrow> lua_value list) \<Rightarrow> nat \<Rightarrow> nat \<Rightarrow> hview \<Rightarrow> bool" where
  "view_ok vals i t x \<longleftrightarrow>
    length (hv_joins x) + length (hv_log x) \<le> 1 \<and>
    (hv_joins x \<noteq> [] \<or> hv_log x \<noteq> [] \<longrightarrow> hv_joined x) \<and>
    (hv_live x \<and> \<not> hv_joined x \<or> hv_joins x \<noteq> [] \<longrightarrow>
      hv_reg x = Some t \<and> (hv_done x \<longrightarrow> hv_out x = Some (hv_result x))) \<and>
    (\<forall>j \<in> set (hv_joins x). jf_id j = i \<and> (jf_task j = None \<or> jf_task j = Some t)) \<and>
    (\<forall>r \<in> set (hv_log x). \<exists>res. hv_out x = Some res \<and> r = Inr (vals res)) \<and>
    (hv_done x \<longleftrightarrow> hv_out x \<noteq> None) \<and>
    length (hv_taken x) \<le> 1 \<and>
    (hv_taken x \<noteq> [] \<longrightarrow> hv_log x \<noteq> []) \<and> (\<forall>res \<in> set (hv_taken x). hv_out x = Some res)"

definition lib_values :: "'q vm \<Rightarrow> lua_value list option \<Rightarrow> lua_value list" where
  "lib_values v out = joined_values out v"

lemma lib_values_cong: "vm_cancelled v = vm_cancelled v' \<Longrightarrow> lib_values v = lib_values v'"
  by (simp add: fun_eq_iff lib_values_def joined_values_def cancelled_values_def split: option.split)

definition lib_ok :: "'q lib_sys \<Rightarrow> bool" where
  "lib_ok S \<longleftrightarrow>
    (\<forall>h i t. ls_own S h = Some (i, t) \<longrightarrow>
      i < vm_next_id (ls_vm S) \<and> t < sw_fresh (vm_world (ls_vm S)) \<and>
      view_ok (lib_values (ls_vm S)) i t (handle_view S h i t)) \<and>
    (\<forall>h. h \<in> ls_live S \<or> h \<in> fst ` set (ls_joins S) \<or> h \<in> fst ` set (ls_log S) \<longrightarrow> ls_own S h \<noteq> None) \<and>
    (\<forall>h h' i t i' t'. ls_own S h = Some (i, t) \<and> ls_own S h' = Some (i', t') \<and> (i = i' \<or> t = t') \<longrightarrow> h = h') \<and>
    (\<forall>a \<in> set (ls_arms S). ta_handle a \<in> ls_live S \<and> ls_own S (ta_handle a) = Some (ta_id a, ta_task a))"


lemma lib_okD:
  assumes "lib_ok S" and "ls_own S h = Some (i, t)"
  shows "i < vm_next_id (ls_vm S)" and "t < sw_fresh (vm_world (ls_vm S))"
    and "view_ok (lib_values (ls_vm S)) i t (handle_view S h i t)"
    and "ls_own S h' = Some (i', t') \<Longrightarrow> i = i' \<or> t = t' \<Longrightarrow> h = h'"
  using assms unfolding lib_ok_def by blast+

lemma lib_ok_owned:
  "lib_ok S \<Longrightarrow> h \<in> ls_live S \<or> h \<in> fst ` set (ls_joins S) \<or> h \<in> fst ` set (ls_log S) \<Longrightarrow> \<exists>i t. ls_own S h = Some (i, t)"
  unfolding lib_ok_def by fast

lemma lib_ok_arm:
  "lib_ok S \<Longrightarrow> a \<in> set (ls_arms S) \<Longrightarrow> ta_handle a \<in> ls_live S \<and> ls_own S (ta_handle a) = Some (ta_id a, ta_task a)"
  unfolding lib_ok_def by blast

lemma lib_okI:
  assumes "\<And>h i t. ls_own S h = Some (i, t) \<Longrightarrow> i < vm_next_id (ls_vm S)"
    and "\<And>h i t. ls_own S h = Some (i, t) \<Longrightarrow> t < sw_fresh (vm_world (ls_vm S))"
    and "\<And>h i t. ls_own S h = Some (i, t) \<Longrightarrow> view_ok (lib_values (ls_vm S)) i t (handle_view S h i t)"
    and "\<And>h. h \<in> ls_live S \<or> h \<in> fst ` set (ls_joins S) \<or> h \<in> fst ` set (ls_log S) \<Longrightarrow> ls_own S h \<noteq> None"
    and "\<And>h h' i t i' t'. ls_own S h = Some (i, t) \<Longrightarrow> ls_own S h' = Some (i', t') \<Longrightarrow> i = i' \<or> t = t' \<Longrightarrow> h = h'"
    and "\<And>a. a \<in> set (ls_arms S) \<Longrightarrow> ta_handle a \<in> ls_live S \<and> ls_own S (ta_handle a) = Some (ta_id a, ta_task a)"
  shows "lib_ok S"
  unfolding lib_ok_def
  by (intro conjI allI ballI impI; (elim conjE)?)
    (erule assms(1), erule assms(2), erule assms(3), erule assms(4), erule (2) assms(5),
      erule assms(6) [THEN conjunct1], erule assms(6) [THEN conjunct2])

text \<open>A step that concerns one handle: the others see nothing of it.\<close>

lemma lib_ok_step:
  assumes S: "lib_ok S" and h: "ls_own S h = Some (i, t)"
    and own: "ls_own S' = ls_own S" "vm_next_id (ls_vm S') = vm_next_id (ls_vm S)"
      "sw_fresh (vm_world (ls_vm S')) = sw_fresh (vm_world (ls_vm S))" "vm_cancelled (ls_vm S') = vm_cancelled (ls_vm S)"
    and frame: "\<And>h' i' t'. h' \<noteq> h \<Longrightarrow> i' \<noteq> i \<Longrightarrow> t' \<noteq> t \<Longrightarrow> handle_view S' h' i' t' = handle_view S h' i' t'"
    and mine: "view_ok (lib_values (ls_vm S)) i t (handle_view S' h i t)"
    and names: "ls_live S' \<subseteq> ls_live S" "fst ` set (ls_joins S') \<subseteq> insert h (fst ` set (ls_joins S))"
      "fst ` set (ls_log S') \<subseteq> insert h (fst ` set (ls_log S))"
    and arms: "\<And>a. a \<in> set (ls_arms S') \<Longrightarrow> ta_handle a \<in> ls_live S' \<and> ls_own S (ta_handle a) = Some (ta_id a, ta_task a)"
  shows "lib_ok S'"
proof -
  note D = lib_okD [OF S]
  have v: "lib_values (ls_vm S') = lib_values (ls_vm S)" by (rule lib_values_cong) (rule own(4))
  have views: "view_ok (lib_values (ls_vm S)) i' t' (handle_view S' h' i' t')" if h': "ls_own S h' = Some (i', t')" for h' i' t'
  proof (cases "h' = h")
    case True
    then show ?thesis using mine h h' by simp
  next
    case False
    then have "i' \<noteq> i" "t' \<noteq> t" using D(4) [OF h' h] by auto
    then show ?thesis using frame [OF False] D(3) [OF h'] by simp
  qed
  have named: "ls_own S x \<noteq> None" if "x \<in> ls_live S' \<or> x \<in> fst ` set (ls_joins S') \<or> x \<in> fst ` set (ls_log S')" for x
  proof -
    have "x = h \<or> x \<in> ls_live S \<or> x \<in> fst ` set (ls_joins S) \<or> x \<in> fst ` set (ls_log S)" 
      using that names [THEN subsetD, of x] by (elim disjE) (simp_all add: disj_imp)
    then show ?thesis
    proof
      assume "x \<in> ls_live S \<or> x \<in> fst ` set (ls_joins S) \<or> x \<in> fst ` set (ls_log S)"
      from lib_ok_owned [OF S this] show ?thesis by force
    qed (use h in simp)
  qed
  show ?thesis
    by (rule lib_okI; unfold own v)
      (erule D(1), erule D(2), erule views, erule named, erule (2) D(4), erule arms)
qed

section \<open>The invariant is kept\<close>

lemmas lib_ops = set_joined_def reg_forget_def reg_restore_def vm_take_result_def take_result_def vm_put_result_def
  vm_cancel_task_def upd_task_def cancel_token_def vm_done_def is_done_def

lemma joined_values_fields [simp]:
  "joined_values out (v\<lparr>vm_world := w\<rparr>) = joined_values out v" "joined_values out (v\<lparr>vm_tasks := f\<rparr>) = joined_values out v"
  "joined_values out (v\<lparr>vm_joined := g\<rparr>) = joined_values out v"
  by (simp_all add: joined_values_def cancelled_values_def split: option.split)

lemma lib_values_eq: "lib_values v out = joined_values out v"
  by (simp add: lib_values_def)

lemma join_started_ok:
  assumes S: "lib_ok S" and h: "h \<in> ls_live S" "ls_own S h = Some (i, t)" "task_join_start h i (ls_vm S) = (Inr j, v)"
  shows "lib_ok (S\<lparr>ls_vm := v, ls_joins := ls_joins S @ [(h, j)]\<rparr>)"
proof -
  have v: "\<not> vm_joined (ls_vm S) h" "j = \<lparr>jf_id = i, jf_task = None\<rparr>" "v = set_joined h True (ls_vm S)"
    using h(3) by (auto simp: task_join_start_def split: if_splits)
  note V = lib_okD(3) [OF S h(2)]
  show ?thesis
    by (rule lib_ok_step [OF S h(2)])
      (use V v h lib_ok_arm [OF S] in \<open>auto simp: handle_view_def lib_ops view_ok_def\<close>)
qed

text \<open>A pending join knows its task, and the registry has it.\<close>

lemma pending_join:
  assumes S: "lib_ok S" and j: "ls_joins S = xs @ (h, j) # ys"
  shows "\<exists>i t. ls_own S h = Some (i, t) \<and> jf_id j = i \<and> vm_tasks (ls_vm S) i = Some t \<and>
    join_raw_poll j (ls_vm S) = join_wait i t (ls_vm S) \<and> vm_joined (ls_vm S) h \<and>
    of_handle h xs = [] \<and> of_handle h ys = [] \<and> of_handle h (ls_log S) = [] \<and> taken_of h (ls_arms S) = [] \<and>
    (vm_done t (ls_vm S) \<longrightarrow> ls_out S t = Some (ts_result (sw_task (vm_world (ls_vm S)) t)))"
proof -
  have "h \<in> fst ` set (ls_joins S)" by (simp add: j)
  then obtain i t where own: "ls_own S h = Some (i, t)" using lib_ok_owned [OF S, of h] by blast
  show ?thesis using lib_okD(3) [OF S own] own
    by (auto simp: view_ok_def handle_view_def j join_raw_poll_def reg_get_def)
qed

lemma join_polled_ok:
  assumes S: "lib_ok S" and j: "ls_joins S = xs @ (h, j) # ys" and p: "join_raw_poll j (ls_vm S) = (Pending, j', v)"
  shows "lib_ok (S\<lparr>ls_vm := v, ls_joins := xs @ (h, j') # ys\<rparr>)"
proof -
  obtain i t where own: "ls_own S h = Some (i, t)" "jf_id j = i" "join_raw_poll j (ls_vm S) = join_wait i t (ls_vm S)"
    using pending_join [OF S j] by blast
  then have v: "v = ls_vm S" "j' = \<lparr>jf_id = i, jf_task = Some t\<rparr>"
    using p by (auto simp: join_wait_def split: if_splits prod.splits)
  note V = lib_okD(3) [OF S own(1)]
  show ?thesis
    by (rule lib_ok_step [OF S own(1)])
      (use V v j lib_ok_arm [OF S] in \<open>auto simp: handle_view_def view_ok_def\<close>)
qed

lemma joined_ok:
  assumes S: "lib_ok S" and j: "ls_joins S = xs @ (h, j) # ys" and p: "join_raw_poll j (ls_vm S) = (Ready r, j', v)"
  shows "lib_ok (S\<lparr>ls_vm := v, ls_joins := xs @ ys, ls_log := (h, r) # ls_log S\<rparr>)"
proof -
  obtain i t where own: "ls_own S h = Some (i, t)" "join_raw_poll j (ls_vm S) = join_wait i t (ls_vm S)"
    "vm_joined (ls_vm S) h" "of_handle h xs = []" "of_handle h ys = []" "of_handle h (ls_log S) = []"
    "taken_of h (ls_arms S) = []"
    "vm_done t (ls_vm S) \<longrightarrow> ls_out S t = Some (ts_result (sw_task (vm_world (ls_vm S)) t))"
    using pending_join [OF S j] by blast
  then have v: "v = snd (vm_take_result t (reg_forget i (ls_vm S)))" "vm_done t (ls_vm S)"
    "r = Inr (joined_values (ts_result (sw_task (vm_world (ls_vm S)) t)) (ls_vm S))"
    using p by (auto simp: join_wait_def lib_ops split: if_splits prod.splits)
  note V = lib_okD(3) [OF S own(1)]
  show ?thesis
    by (rule lib_ok_step [OF S own(1)])
      (use V v own j lib_ok_arm [OF S] in \<open>auto simp: handle_view_def view_ok_def lib_ops lib_values_eq\<close>)
qed

lemma join_dropped_ok:
  assumes S: "lib_ok S" and j: "ls_joins S = xs @ (h, j) # ys"
  shows "lib_ok (S\<lparr>ls_joins := xs @ ys\<rparr>)"
proof -
  obtain i t where own: "ls_own S h = Some (i, t)" "vm_joined (ls_vm S) h" "of_handle h xs = []" "of_handle h ys = []"
    using pending_join [OF S j] by blast
  note V = lib_okD(3) [OF S own(1)]
  show ?thesis
    by (rule lib_ok_step [OF S own(1)])
      (use V own j lib_ok_arm [OF S] in \<open>auto simp: handle_view_def view_ok_def\<close>)
qed

text \<open>A cancel changes nothing a handle sees.\<close>

lemma cancel_view: "cancel_raw i v = (r, v') \<Longrightarrow>
    vm_tasks v' = vm_tasks v \<and> vm_next_id v' = vm_next_id v \<and> vm_cancelled v' = vm_cancelled v \<and>
    vm_joined v' = vm_joined v \<and> sw_task (vm_world v') = sw_task (vm_world v) \<and> sw_fresh (vm_world v') = sw_fresh (vm_world v)"
  by (auto simp: cancel_raw_def lib_ops split: sum.splits)

lemma lib_ok_same:
  assumes S: "lib_ok S" and "vm_tasks v = vm_tasks (ls_vm S)" "vm_next_id v = vm_next_id (ls_vm S)"
    "vm_cancelled v = vm_cancelled (ls_vm S)" "vm_joined v = vm_joined (ls_vm S)"
    "sw_task (vm_world v) = sw_task (vm_world (ls_vm S))" "sw_fresh (vm_world v) = sw_fresh (vm_world (ls_vm S))"
  shows "lib_ok (S\<lparr>ls_vm := v\<rparr>)"
proof -
  have "handle_view (S\<lparr>ls_vm := v\<rparr>) = handle_view S" "lib_values v = lib_values (ls_vm S)"
    using assms lib_values_cong [of v "ls_vm S"] by (simp_all add: fun_eq_iff handle_view_def vm_done_def is_done_def)
  then have "lib_ok (S\<lparr>ls_vm := v\<rparr>) = lib_ok S" using assms(2-) by (simp add: lib_ok_def)
  then show ?thesis using S by (rule iffD2)
qed

lemma cancelled_ok:
  assumes S: "lib_ok S" and c: "task_cancel h i (ls_vm S) = (r, v)"
  shows "lib_ok (S\<lparr>ls_vm := v\<rparr>)"
proof (cases "vm_joined (ls_vm S) h")
  case False
  then have "cancel_raw i (ls_vm S) = (r, v)" using c by (simp add: task_cancel_def)
  from cancel_view [OF this] show ?thesis by (intro lib_ok_same [OF S]) simp_all
qed (use S c in \<open>auto simp: task_cancel_def\<close>)

lemma closed_ok:
  assumes S: "lib_ok S" and h: "h \<in> ls_live S" "ls_own S h = Some (i, t)" and c: "task_close h i (ls_vm S) = (Inr js, v)"
  shows "lib_ok (S\<lparr>ls_vm := v, ls_joins := ls_joins S @ (case js of None \<Rightarrow> [] | Some j \<Rightarrow> [(h, j)])\<rparr>)"
proof (cases "vm_joined (ls_vm S) h")
  case True
  then show ?thesis using S c by (auto simp: task_close_def)
next
  case False
  obtain u v1 where c1: "cancel_raw i (ls_vm S) = (Inr u, v1)"
    using False c by (cases "cancel_raw i (ls_vm S)") (auto simp: task_close_def split: sum.splits)
  then obtain j where j: "js = Some j" "task_join_start h i v1 = (Inr j, v)"
    using False c by (auto simp: task_close_def map_sum_def split: prod.splits sum.splits)
  have "lib_ok (S\<lparr>ls_vm := v1\<rparr>)" using cancel_view [OF c1] by (intro lib_ok_same [OF S]) simp_all
  from join_started_ok [OF this, of h i t j v] show ?thesis using h j by simp
qed

lemma collected_ok:
  assumes S: "lib_ok S" and h: "h \<in> ls_live S" "ls_own S h = Some (i, t)" "h \<notin> ta_handle ` set (ls_arms S)"
    and c: "task_gc h i (ls_vm S) = (r, v)"
  shows "lib_ok (S\<lparr>ls_vm := v, ls_live := ls_live S - {h}\<rparr>)"
proof -
  note V = lib_okD(3) [OF S h(2)]
  have v: "vm_tasks v = (if vm_joined (ls_vm S) h then vm_tasks (ls_vm S) else (vm_tasks (ls_vm S))(i := None))"
    "vm_next_id v = vm_next_id (ls_vm S)" "vm_cancelled v = vm_cancelled (ls_vm S)" "vm_joined v = vm_joined (ls_vm S)"
    "sw_task (vm_world v) = sw_task (vm_world (ls_vm S))" "sw_fresh (vm_world v) = sw_fresh (vm_world (ls_vm S))"
    using c V h by (auto simp: task_gc_def release_raw_def lib_ops view_ok_def handle_view_def split: if_splits option.splits)
  show ?thesis
    by (rule lib_ok_step [OF S h(2)])
      (use V v h lib_ok_arm [OF S] in \<open>auto simp: handle_view_def view_ok_def vm_done_def is_done_def\<close>)
qed

lemma case_read_ok:
  assumes S: "lib_ok S" and h: "h \<in> ls_live S" "ls_own S h = Some (i, t)" "uds u = UdTask i"
    and a: "read_arm uds name n mark (handle_case absent u h f) (ls_vm S) = Inr (ArmTask a)"
  shows "lib_ok (S\<lparr>ls_arms := ls_arms S @ [a]\<rparr>)"
proof -
  note V = lib_okD(3) [OF S h(2)]
  have a': "\<not> vm_joined (ls_vm S) h" "vm_tasks (ls_vm S) i = Some (ta_task a)" "ta_id a = i" "ta_handle a = h" "ta_taken a = None"
    using a h(3) by (auto simp: read_arm_def handle_case_def target_udata_def reg_get_def map_sum_def split: if_splits option.splits sum.splits)
  have "ta_task a = t" using V a' h(1) by (simp add: view_ok_def handle_view_def)
  then show ?thesis
    by (intro lib_ok_step [OF S h(2)])
      (use V a' h lib_ok_arm [OF S] in \<open>auto simp: handle_view_def view_ok_def\<close>)
qed

lemma case_polled_ok:
  assumes S: "lib_ok S" and a: "ls_arms S = xs @ a # ys" and p: "task_arm_poll a (ls_vm S) = (r, a', v)"
  shows "lib_ok (S\<lparr>ls_vm := v, ls_arms := xs @ a' # ys, ls_log := log_case a r (ls_log S)\<rparr>)"
proof -
  have own: "ls_own S (ta_handle a) = Some (ta_id a, ta_task a)" "ta_handle a \<in> ls_live S"
    using lib_ok_arm [OF S, of a] a by simp_all
  note V = lib_okD(3) [OF S own(1)]
  have id: "ta_id a' = ta_id a" "ta_task a' = ta_task a" "ta_handle a' = ta_handle a"
    using p by (auto simp: task_arm_poll_def arm_join_def split: if_splits prod.splits)
  show ?thesis
  proof (cases "vm_done (ta_task a) (ls_vm S) \<and> \<not> vm_joined (ls_vm S) (ta_handle a)")
    case True
    let ?out = "ts_result (sw_task (vm_world (ls_vm S)) (ta_task a))"
    have v: "v = snd (vm_take_result (ta_task a) (reg_forget (ta_id a) (set_joined (ta_handle a) True (ls_vm S))))"
      "r = Ready (Inr (joined_values ?out (ls_vm S)))" "ta_taken a' = Some ?out"
      using p True by (auto simp: task_arm_poll_def arm_join_def lib_ops split: prod.splits)
    show ?thesis
      by (rule lib_ok_step [OF S own(1)])
        (use V v id own a True lib_ok_arm [OF S] in
          \<open>auto simp: handle_view_def view_ok_def lib_ops lib_values_eq log_case_def split: option.splits\<close>)
  next
    case False
    then have v: "v = ls_vm S" "ta_taken a' = ta_taken a" "log_case a r lg = lg" for lg
      using p by (auto simp: task_arm_poll_def arm_join_def log_case_def split: if_splits prod.splits)
    have "taken_of h (xs @ a' # ys) = taken_of h (ls_arms S)" for h by (simp add: a v id split: option.split)
    then have "handle_view (S\<lparr>ls_vm := v, ls_arms := xs @ a' # ys, ls_log := log_case a r (ls_log S)\<rparr>) = handle_view S"
      by (simp add: fun_eq_iff handle_view_def v)
    then show ?thesis
      using V by (intro lib_ok_step [OF S own(1)]) (use v id own a lib_ok_arm [OF S] in auto)
  qed
qed

lemma case_undone_ok:
  assumes S: "lib_ok S" and a: "ls_arms S = xs @ a # ys" "ta_taken a \<noteq> None" and p: "task_arm_untake a (ls_vm S) = (a', v)"
  shows "lib_ok (S\<lparr>ls_vm := v, ls_arms := xs @ a' # ys, ls_log := filter (\<lambda>(h, r). h \<noteq> ta_handle a) (ls_log S)\<rparr>)"
proof -
  have own: "ls_own S (ta_handle a) = Some (ta_id a, ta_task a)" "ta_handle a \<in> ls_live S"
    using lib_ok_arm [OF S, of a] a by simp_all
  note V = lib_okD(3) [OF S own(1)]
  obtain out where out: "ta_taken a = Some out" using a(2) by blast
  have v: "v = set_joined (ta_handle a) False (reg_restore (ta_id a) (ta_task a) (vm_put_result (ta_task a) out (ls_vm S)))"
    "a' = a\<lparr>ta_taken := None\<rparr>"
    using p out by (auto simp: task_arm_untake_def)
  have log: "of_handle (ta_handle a) (ls_log S) \<noteq> []" "length (of_handle (ta_handle a) (ls_joins S)) + length (of_handle (ta_handle a) (ls_log S)) \<le> 1"
    "taken_of (ta_handle a) xs = []" "taken_of (ta_handle a) ys = []" "ls_out S (ta_task a) = Some out"
    using V out by (simp_all add: handle_view_def view_ok_def a(1))
  then have "of_handle (ta_handle a) (ls_joins S) = []" by (cases "of_handle (ta_handle a) (ls_log S)") simp_all
  note log = log this
  show ?thesis
    by (rule lib_ok_step [OF S own(1)])
      (use V v out log own a lib_ok_arm [OF S] in
        \<open>auto simp: handle_view_def view_ok_def lib_ops of_handle_drop split: option.splits\<close>)
qed

lemma view_ok_taken:
  assumes "view_ok vals i t x" and "length tk \<le> length (hv_taken x)" and "set tk \<subseteq> set (hv_taken x)"
  shows "view_ok vals i t (x\<lparr>hv_taken := tk\<rparr>)"
proof -
  have "tk \<noteq> [] \<Longrightarrow> hv_taken x \<noteq> []" using assms(2) by auto
  moreover have "length (hv_taken x) \<le> 1 \<Longrightarrow> length tk \<le> 1" using assms(2) by simp
  ultimately show ?thesis using assms(1,3) unfolding view_ok_def by (simp add: subset_eq)
qed

lemma case_dropped_ok:
  assumes S: "lib_ok S" and a: "ls_arms S = xs @ a # ys"
  shows "lib_ok (S\<lparr>ls_arms := xs @ ys\<rparr>)"
proof -
  have own: "ls_own S (ta_handle a) = Some (ta_id a, ta_task a)" "ta_handle a \<in> ls_live S"
    using lib_ok_arm [OF S, of a] a by simp_all
  note V = lib_okD(3) [OF S own(1)]
  let ?T = "S\<lparr>ls_arms := xs @ ys\<rparr>"
  have "length (taken_of h (xs @ ys)) \<le> length (taken_of h (ls_arms S))"
    "set (taken_of h (xs @ ys)) \<subseteq> set (taken_of h (ls_arms S))" for h
    by (auto simp: a split: option.split)
  moreover have "handle_view ?T h i t = handle_view S h i t\<lparr>hv_taken := taken_of h (xs @ ys)\<rparr>" for h i t
    by (simp add: handle_view_def)
  ultimately have mine: "view_ok (lib_values (ls_vm S)) (ta_id a) (ta_task a) (handle_view ?T (ta_handle a) (ta_id a) (ta_task a))"
    using view_ok_taken [OF V] by (simp add: handle_view_def)
  show ?thesis
    by (rule lib_ok_step [OF S own(1)])
      (use mine own a lib_ok_arm [OF S] in \<open>auto simp: handle_view_def split: option.split\<close>)
qed

text \<open>The rest of the VM goes on: a task that finishes has its result in the slot.\<close>

lemma moved_ok:
  assumes S: "lib_ok S" and m: "vm_moves (lib_tasks S) (ls_vm S) v"
  shows "lib_ok (S\<lparr>ls_vm := v, ls_out := finished_with (ls_vm S) v (ls_out S)\<rparr>)"
proof -
  let ?T = "S\<lparr>ls_vm := v, ls_out := finished_with (ls_vm S) v (ls_out S)\<rparr>"
  have M: "vm_tasks v = vm_tasks (ls_vm S)" "vm_next_id v = vm_next_id (ls_vm S)" "vm_joined v = vm_joined (ls_vm S)"
    "vm_cancelled v = vm_cancelled (ls_vm S)" "sw_fresh (vm_world (ls_vm S)) \<le> sw_fresh (vm_world v)"
    using m by (simp_all add: vm_moves_def)
  have val: "lib_values v = lib_values (ls_vm S)" by (rule lib_values_cong) (rule M(4))
  have views: "view_ok (lib_values (ls_vm S)) i t (handle_view ?T h i t)" if own: "ls_own S h = Some (i, t)" for h i t
  proof -
    have "t \<in> lib_tasks S" using own by (auto simp: lib_tasks_def)
    then have d: "vm_done t (ls_vm S) \<Longrightarrow> vm_done t v \<and>
        ts_result (sw_task (vm_world v) t) = ts_result (sw_task (vm_world (ls_vm S)) t)"
      using m by (simp add: vm_moves_def)
    show ?thesis using lib_okD(3) [OF S own] d
      by (cases "vm_done t (ls_vm S)") (auto simp: handle_view_def view_ok_def finished_with_def M)
  qed
  have fresh: "t < sw_fresh (vm_world v)" if "ls_own S h = Some (i, t)" for h i t
    using lib_okD(2) [OF S that] M(5) by simp
  have named: "ls_own S x \<noteq> None" if "x \<in> ls_live S \<or> x \<in> fst ` set (ls_joins S) \<or> x \<in> fst ` set (ls_log S)" for x
    using lib_ok_owned [OF S that] by force
  have F: "ls_vm ?T = v" "ls_own ?T = ls_own S" "ls_live ?T = ls_live S" "ls_joins ?T = ls_joins S"
    "ls_arms ?T = ls_arms S" "ls_log ?T = ls_log S"
    by simp_all
  show ?thesis
    by (rule lib_okI; unfold F val M(2))
      (erule lib_okD(1) [OF S], erule fresh, erule views, erule named, erule (2) lib_okD(4) [OF S], erule lib_ok_arm [OF S])
qed

text \<open>A spawn makes a handle with an id and a task of its own.\<close>

lemma spawn_raw_view:
  assumes "spawn_raw body v = (Inr i, v')" and "vm_tasks v' i = Some t"
  shows "i = vm_next_id v" "t = sw_fresh (vm_world v)" "vm_next_id v' = Suc i" "vm_tasks v' = (vm_tasks v)(i := Some t)"
    "sw_fresh (vm_world v') = Suc t" "vm_joined v' = vm_joined v" "vm_cancelled v' = vm_cancelled v"
    "x \<noteq> t \<Longrightarrow> sw_task (vm_world v') x = sw_task (vm_world v) x"
  using assms by (auto simp: spawn_raw_def Let_def split_beta spawn_tasks split: option.splits)

lemma spawned_ok:
  assumes S: "lib_ok S" and sp: "spawn_raw body (ls_vm S) = (Inr i, v)" "vm_tasks v i = Some t"
    and h: "ls_own S h = None" "\<not> vm_joined (ls_vm S) h"
  shows "lib_ok (S\<lparr>ls_vm := v, ls_own := (ls_own S)(h := Some (i, t)), ls_live := insert h (ls_live S),
    ls_out := (ls_out S)(t := if vm_done t v then Some (ts_result (sw_task (vm_world v) t)) else None)\<rparr>)"
    (is "lib_ok ?T")
proof -
  note N = spawn_raw_view [OF sp] and D = lib_okD [OF S]
  have val: "lib_values v = lib_values (ls_vm S)" by (rule lib_values_cong) (rule N(7))
  have new: "h \<notin> ls_live S" "of_handle h (ls_joins S) = []" "of_handle h (ls_log S) = []"
    using lib_ok_owned [OF S, of h] h(1) by (auto simp: of_handle_mem)
  have arms: "ta_handle a \<noteq> h" if "a \<in> set (ls_arms S)" for a using lib_ok_arm [OF S that] h(1) by auto
  then have taken: "taken_of h (ls_arms S) = []" unfolding taken_of_def by (auto intro: filter_False)
  have below: "i' < i" "t' < t" if "ls_own S h' = Some (i', t')" for h' i' t' using D(1,2) [OF that] N(1,2) by simp_all
  have views: "view_ok (lib_values (ls_vm S)) i' t' (handle_view ?T h' i' t')" if own: "ls_own ?T h' = Some (i', t')" for h' i' t'
  proof (cases "h' = h")
    case True
    then have "i' = i" "t' = t" using own by simp_all
    then show ?thesis using True new taken h(2) by (simp add: handle_view_def view_ok_def N(4,6))
  next
    case False
    then have own': "ls_own S h' = Some (i', t')" using own by simp
    have "handle_view ?T h' i' t' = handle_view S h' i' t'"
      using below [OF own'] False by (simp add: handle_view_def vm_done_def is_done_def N(4,6,8))
    then show ?thesis using D(3) [OF own'] by simp
  qed
  have named: "ls_own ?T x \<noteq> None" if "x \<in> ls_live ?T \<or> x \<in> fst ` set (ls_joins ?T) \<or> x \<in> fst ` set (ls_log ?T)" for x
    using that lib_ok_owned [OF S, of x] by (cases "x = h") auto
  show ?thesis
  proof (rule lib_okI [OF _ _ _ named])
    fix h' i' t' assume own: "ls_own ?T h' = Some (i', t')"
    show "i' < vm_next_id (ls_vm ?T)" "t' < sw_fresh (vm_world (ls_vm ?T))"
      using own below [of h' i' t'] by (auto simp: N(3,5) split: if_splits)
    show "view_ok (lib_values (ls_vm ?T)) i' t' (handle_view ?T h' i' t')" using views [OF own] val by simp
  next
    fix h1 h2 i1 t1 i2 t2
    assume "ls_own ?T h1 = Some (i1, t1)" "ls_own ?T h2 = Some (i2, t2)" "i1 = i2 \<or> t1 = t2"
    then show "h1 = h2" using D(4) [of h1 i1 t1 h2 i2 t2] below [of h1 i1 t1] below [of h2 i2 t2]
      by (cases "h1 = h"; cases "h2 = h") auto
  next
    fix a assume "a \<in> set (ls_arms ?T)"
    then show "ta_handle a \<in> ls_live ?T \<and> ls_own ?T (ta_handle a) = Some (ta_id a, ta_task a)"
      using arms lib_ok_arm [OF S, of a] by auto
  qed
qed

lemma lib_ok_init: "lib_ok (lib_init v)"
  by (simp add: lib_ok_def lib_init_def)

theorem lib_step_ok:
  assumes "lib_step S S'" and "lib_ok S"
  shows "lib_ok S'"
  using assms
proof (induction rule: lib_step.induct)
  case (spawned body S i v t h)
  then show ?case by (intro spawned_ok)
next
  case (closed h S i t js v)
  then show ?case by (intro closed_ok)
next
  case (collected h S i t r v)
  then show ?case by (intro collected_ok)
next
  case (case_undone S xs a ys a' v)
  then show ?case by (intro case_undone_ok)
qed (simp_all only: moved_ok join_started_ok join_polled_ok joined_ok join_dropped_ok cancelled_ok
  case_read_ok case_polled_ok case_dropped_ok)

lemma lib_reach_ok: "lib_step\<^sup>*\<^sup>* S S' \<Longrightarrow> lib_ok S \<Longrightarrow> lib_ok S'"
  by (induction rule: rtranclp_induct) (auto intro: lib_step_ok)

end
