(* ===== verification/Isle_Registry_Props.thy ===== *)
theory Isle_Registry_Props
  imports Isle_Registry_Sys Isle_Select_Props
begin

text \<open>
  What the task handles of Lua promise: a handle that was not joined finds its task, and the result of a task is
  returned once, as the task left it.  And where they keep less than they promise: a join that is dropped leaves its
  task in the registry for good, and \<^verbatim>\<open>done\<close> answers for the handle, not for the task.
\<close>

section \<open>The scopes move the library along\<close>

text \<open>Whatever happens to the scopes (\<open>scope_exec\<close>) is a \<open>moved\<close> step, as the library has the results of its tasks.\<close>

lemma scope_moves:
  assumes S: "lib_ok S" and ok: "world_ok (vm_world (ls_vm S))" and x: "sop_spares (lib_tasks S) x"
  shows "vm_moves (lib_tasks S) (ls_vm S) ((ls_vm S)\<lparr>vm_world := scope_exec x (vm_world (ls_vm S))\<rparr>)"
proof -
  have "t < sw_fresh (vm_world (ls_vm S))" if "t \<in> lib_tasks S" for t
    using that lib_okD(2) [OF S] by (auto simp: lib_tasks_def)
  then show ?thesis using exec_keeps_results [OF ok x] exec_fresh [of "vm_world (ls_vm S)" x]
    by (simp add: vm_moves_def vm_done_def)
qed

section \<open>Results are returned once\<close>

lemma distinct_handles: "(\<And>h. length (of_handle h xs) \<le> 1) \<Longrightarrow> distinct (map fst xs)"
proof (induction xs)
  case (Cons x xs)
  obtain h y where x: "x = (h, y)" by (cases x)
  have "length (of_handle h' xs) \<le> 1" for h' using Cons.prems [of h'] by (simp add: x split: if_splits)
  moreover have "of_handle h xs = []" using Cons.prems [of h] by (simp add: x)
  ultimately show ?case using Cons.IH of_handle_mem [of h xs] by (simp add: x)
qed simp

lemma log_at_most_once:
  assumes S: "lib_ok S"
  shows "length (of_handle h (ls_log S)) \<le> 1"
proof (cases "ls_own S h")
  case None
  then have "of_handle h (ls_log S) = []" using lib_ok_owned [OF S, of h] by (auto simp: of_handle_mem)
  then show ?thesis by simp
next
  case (Some it)
  obtain i t where "it = (i, t)" by (cases it)
  then show ?thesis using lib_okD(3) [OF S, of h i t] Some by (simp add: view_ok_def handle_view_def)
qed

text \<open>C20: Over every history of the task handles of Lua (spawns, joins that are polled or dropped, cancels, closes,
  collections, select cases that join and give back, tasks that finish), a handle Lua holds that was not joined has
  its task in the registry, so that no method of it fails with \<^verbatim>\<open>unknown task\<close>; and joins and chosen cases
  returned at most one result for each handle: what its task finished with, or \<^verbatim>\<open>false, task.CANCELLED\<close> when the
  task was cancelled.\<close>

theorem task_results_returned_once:
  assumes "lib_step\<^sup>*\<^sup>* (lib_init v) S"
  shows "(\<forall>h. h \<in> ls_live S \<longrightarrow> (\<exists>i t. ls_own S h = Some (i, t) \<and>
      (vm_joined (ls_vm S) h \<or> reg_get i (ls_vm S) = Inr t))) \<and>
    distinct (map fst (ls_log S)) \<and>
    (\<forall>h r. (h, r) \<in> set (ls_log S) \<longrightarrow> vm_joined (ls_vm S) h \<and>
      (\<exists>i t out. ls_own S h = Some (i, t) \<and> ls_out S t = Some out \<and> r = Inr (joined_values out (ls_vm S))))"
proof (intro conjI allI impI)
  have S: "lib_ok S" by (rule lib_reach_ok [OF assms lib_ok_init])
  show "distinct (map fst (ls_log S))" by (rule distinct_handles) (rule log_at_most_once [OF S])
  fix h
  show "\<exists>i t. ls_own S h = Some (i, t) \<and> (vm_joined (ls_vm S) h \<or> reg_get i (ls_vm S) = Inr t)" if h: "h \<in> ls_live S"
  proof -
    obtain i t where own: "ls_own S h = Some (i, t)" using lib_ok_owned [OF S] h by blast
    then show ?thesis using lib_okD(3) [OF S own] h by (auto simp: view_ok_def handle_view_def reg_get_def)
  qed
  fix r assume log: "(h, r) \<in> set (ls_log S)"
  then have "h \<in> fst ` set (ls_log S)" and r: "r \<in> set (of_handle h (ls_log S))" by (force simp: of_handle_def)+
  then obtain i t where own: "ls_own S h = Some (i, t)" using lib_ok_owned [OF S] by blast
  have V: "view_ok (lib_values (ls_vm S)) i t (handle_view S h i t)" by (rule lib_okD(3) [OF S own])
  show "vm_joined (ls_vm S) h" using V r by (auto simp: view_ok_def handle_view_def)
  show "\<exists>i t out. ls_own S h = Some (i, t) \<and> ls_out S t = Some out \<and> r = Inr (joined_values out (ls_vm S))"
    using V r own by (auto simp: view_ok_def handle_view_def lib_values_eq)
qed

section \<open>A dropped join\<close>

text \<open>A handle that is marked joined, with no join left that could return: nothing forgets its task.\<close>

definition abandoned :: "nat \<Rightarrow> nat \<Rightarrow> nat \<Rightarrow> 'q lib_sys \<Rightarrow> bool" where
  "abandoned h i t S \<longleftrightarrow> ls_own S h = Some (i, t) \<and> vm_joined (ls_vm S) h \<and>
    of_handle h (ls_joins S) = [] \<and> of_handle h (ls_log S) = [] \<and> vm_tasks (ls_vm S) i = Some t"

lemma abandoned_step:
  assumes "lib_step S S'" and "lib_ok S" and "abandoned h i t S"
  shows "abandoned h i t S'"
  using assms
proof (induction rule: lib_step.induct)
  case (spawned body S i' v t' h')
  note N = spawn_raw_view [OF spawned(1,2)]
  have "i \<noteq> i'" using lib_okD(1) [OF spawned(5)] spawned(6) N(1) by (auto simp: abandoned_def)
  moreover have "h \<noteq> h'" using spawned(3,6) by (auto simp: abandoned_def)
  ultimately show ?case using spawned(6) N by (simp add: abandoned_def)
next
  case (moved S v)
  then show ?case by (simp add: abandoned_def vm_moves_def)
next
  case (join_started h' S i' t' j v)
  then show ?case by (auto simp: abandoned_def task_join_start_def set_joined_def split: if_splits)
next
  case (join_polled S xs h' j ys j' v)
  obtain i' t' where "join_raw_poll j (ls_vm S) = join_wait i' t' (ls_vm S)"
    using pending_join [OF join_polled(3,1)] by blast
  then have "v = ls_vm S" using join_polled(2) by (auto simp: join_wait_def split: if_splits prod.splits)
  then show ?case using join_polled(1,4) by (auto simp: abandoned_def split: if_splits)
next
  case (joined S xs h' j ys r j' v)
  obtain i' t' where p: "join_raw_poll j (ls_vm S) = join_wait i' t' (ls_vm S)" "ls_own S h' = Some (i', t')"
    using pending_join [OF joined(3,1)] by blast
  have "h \<noteq> h'" using joined(1,4) by (auto simp: abandoned_def)
  then have "i \<noteq> i'" using lib_okD(4) [OF joined(3) p(2), of h i t] joined(4) by (auto simp: abandoned_def)
  then show ?case using joined(1,2,4) p \<open>h \<noteq> h'\<close>
    by (auto simp: abandoned_def join_wait_def lib_ops split: if_splits prod.splits)
next
  case (join_dropped S xs h' j ys)
  then show ?case by (auto simp: abandoned_def split: if_splits)
next
  case (cancelled h' S i' t' r v)
  have "vm_tasks v = vm_tasks (ls_vm S) \<and> vm_joined v = vm_joined (ls_vm S)"
    using cancelled(3) cancel_view [of i' "ls_vm S" r v] by (cases "vm_joined (ls_vm S) h'") (auto simp: task_cancel_def)
  then show ?case using cancelled(5) by (simp add: abandoned_def)
next
  case (closed h' S i' t' js v)
  show ?case
  proof (cases "vm_joined (ls_vm S) h'")
    case False
    then obtain u v1 where c: "cancel_raw i' (ls_vm S) = (Inr u, v1)" "\<exists>j. js = Some j \<and> task_join_start h' i' v1 = (Inr j, v)"
      using closed(3) by (cases "cancel_raw i' (ls_vm S)") (auto simp: task_close_def map_sum_def split: prod.splits sum.splits)
    have "h \<noteq> h'" using False closed(5) by (auto simp: abandoned_def)
    then show ?thesis using c(2) cancel_view [OF c(1)] closed(5) False
      by (auto simp: abandoned_def task_join_start_def set_joined_def split: if_splits)
  qed (use closed in \<open>auto simp: task_close_def\<close>)
next
  case (collected h' S i' t' r v)
  have "h' = h \<or> i' \<noteq> i" using lib_okD(4) [OF collected(5,2), of h i t] collected(6) by (auto simp: abandoned_def)
  then show ?case using collected(4,6)
    by (auto simp: abandoned_def task_gc_def release_raw_def lib_ops split: if_splits option.splits)
next
  case (case_read h' S i' t' uds u name n mark absent f a)
  then show ?case by (simp add: abandoned_def)
next
  case (case_polled S xs a ys r a' v)
  have own: "ls_own S (ta_handle a) = Some (ta_id a, ta_task a)" using lib_ok_arm [OF case_polled(3), of a] case_polled(1) by simp
  have "ta_handle a = h \<or> ta_id a \<noteq> i"
    using lib_okD(4) [OF case_polled(3) own, of h i t] case_polled(4) by (auto simp: abandoned_def)
  then show ?case using case_polled(2,4)
    by (auto simp: abandoned_def task_arm_poll_def arm_join_def lib_ops log_case_def split: if_splits prod.splits)
next
  case (case_undone S xs a ys a' v)
  have own: "ls_own S (ta_handle a) = Some (ta_id a, ta_task a)" using lib_ok_arm [OF case_undone(4), of a] case_undone(1) by simp
  have "taken_of (ta_handle a) (ls_arms S) \<noteq> []" using case_undone(1,2) by auto
  then have "of_handle (ta_handle a) (ls_log S) \<noteq> []"
    using lib_okD(3) [OF case_undone(4) own] by (simp add: view_ok_def handle_view_def)
  then have "ta_handle a \<noteq> h" using case_undone(5) by (auto simp: abandoned_def)
  moreover from this have "ta_id a \<noteq> i"
    using lib_okD(4) [OF case_undone(4) own, of h i t] case_undone(5) by (auto simp: abandoned_def)
  ultimately show ?case using case_undone(2,3,5)
    by (auto simp: abandoned_def task_arm_untake_def lib_ops of_handle_drop)
next
  case (case_dropped S xs a ys)
  then show ?case by (simp add: abandoned_def)
qed

text \<open>
  So a join that is dropped before its task finished (its coroutine is dropped at the end of its grace, say) leaves
  the task in the registry for as long as the VM lives: the handle is marked joined, and neither a method of it nor
  its collection forgets the task.
\<close>

theorem dropped_join_leaks:
  assumes "lib_step\<^sup>*\<^sup>* (lib_init v) S" and j: "ls_joins S = xs @ (h, j) # ys"
    and "lib_step\<^sup>*\<^sup>* (S\<lparr>ls_joins := xs @ ys\<rparr>) S'"
  shows "vm_tasks (ls_vm S') (jf_id j) \<noteq> None"
proof -
  have S: "lib_ok S" by (rule lib_reach_ok [OF assms(1) lib_ok_init])
  obtain i t where p: "ls_own S h = Some (i, t)" "jf_id j = i" "vm_tasks (ls_vm S) i = Some t" "vm_joined (ls_vm S) h"
    "of_handle h xs = []" "of_handle h ys = []" "of_handle h (ls_log S) = []"
    using pending_join [OF S j] by blast
  from assms(3) have "lib_ok S' \<and> abandoned h i t S'"
  proof (induction rule: rtranclp_induct)
    case base
    show ?case using p join_dropped_ok [OF S j] by (simp add: abandoned_def)
  next
    case (step A B)
    then show ?case using lib_step_ok [OF step(2)] abandoned_step [OF step(2)] by blast
  qed
  then show ?thesis using p(2) by (simp add: abandoned_def)
qed

text \<open>\<^verbatim>\<open>done\<close> says \<^verbatim>\<open>true\<close> as soon as a join has started, also while the task runs.\<close>

lemma done_while_running:
  assumes "task_join_start h i v = (Inr j, v')" and "vm_tasks v i = Some t"
  shows "task_done h i v' = Inr True \<and> (vm_done t v' \<longleftrightarrow> vm_done t v)"
  using assms by (auto simp: task_join_start_def task_done_def lib_ops split: if_splits)

section \<open>A run\<close>

text \<open>A request spawns a task, the task finishes, and its handle 7 is joined.\<close>

definition handle_vm :: "unit vm" where
  "handle_vm = demo_vm\<lparr>vm_world := (snd (root_new 0 5 (world_init (snd (token_new None heap_init)))))\<lparr>sw_current := Some 0\<rparr>,
    vm_tasks := (\<lambda>_. None), vm_next_id := 0, vm_joined := (\<lambda>_. False)\<rparr>"

definition handle_vm_spawned :: "unit vm" where
  "handle_vm_spawned = snd (spawn_raw None handle_vm)"

definition handle_vm_finished :: "unit vm" where
  "handle_vm_finished = handle_vm_spawned\<lparr>vm_world :=
    scope_exec (PollFut 1 [] (Some (Inr [VBoolean True, VInteger 5]))) (vm_world handle_vm_spawned)\<rparr>"

definition handle_vm_joined :: "unit vm" where
  "handle_vm_joined = snd (task_join_start 7 0 handle_vm_finished)"

lemma task_results_returned_once_witness:
  "\<exists>S. lib_step\<^sup>*\<^sup>* (lib_init handle_vm) S \<and> ls_log S = [(7, Inr [VBoolean True, VInteger 5])] \<and>
    vm_joined (ls_vm S) 7 \<and> (\<exists>i t out. ls_own S 7 = Some (i, t) \<and> ls_out S t = Some out \<and>
      joined_values out (ls_vm S) = [VBoolean True, VInteger 5])"
proof -
  have c: "fst (spawn_raw None handle_vm) = Inr 0" "vm_tasks handle_vm_spawned 0 = Some 1" "vm_done 1 handle_vm_spawned = False"
    "\<not> vm_joined handle_vm 7" "sw_fresh (vm_world handle_vm_spawned) = 2" "sw_fresh (vm_world handle_vm_finished) = 2"
    "fst (task_join_start 7 0 handle_vm_finished) = Inr \<lparr>jf_id = 0, jf_task = None\<rparr>"
    "fst (join_raw_poll \<lparr>jf_id = 0, jf_task = None\<rparr> handle_vm_joined) = Ready (Inr [VBoolean True, VInteger 5])"
    by code_simp+
  let ?j = "\<lparr>jf_id = 0, jf_task = None\<rparr>"
  let ?S0 = "lib_init handle_vm"
  let ?S1 = "?S0\<lparr>ls_vm := handle_vm_spawned, ls_own := (ls_own ?S0)(7 := Some (0, 1)), ls_live := insert 7 (ls_live ?S0),
    ls_out := (ls_out ?S0)(1 := if vm_done 1 handle_vm_spawned then Some (ts_result (sw_task (vm_world handle_vm_spawned) 1)) else None)\<rparr>"
  let ?S2 = "?S1\<lparr>ls_vm := handle_vm_finished, ls_out := finished_with (ls_vm ?S1) handle_vm_finished (ls_out ?S1)\<rparr>"
  let ?S3 = "?S2\<lparr>ls_vm := handle_vm_joined, ls_joins := ls_joins ?S2 @ [(7, ?j)]\<rparr>"
  obtain j' v where p: "join_raw_poll ?j handle_vm_joined = (Ready (Inr [VBoolean True, VInteger 5]), j', v)"
    using c(8) by (cases "join_raw_poll ?j handle_vm_joined") auto
  let ?S4 = "?S3\<lparr>ls_vm := v, ls_joins := [] @ [], ls_log := (7, Inr [VBoolean True, VInteger 5]) # ls_log ?S3\<rparr>"
  have "lib_step ?S0 ?S1"
    by (rule lib_step.spawned [of None]) (use c in \<open>simp_all add: handle_vm_spawned_def lib_init_def prod_eq_iff\<close>)
  moreover have "lib_step ?S1 ?S2"
    by (rule lib_step.moved) (use c in \<open>simp add: vm_moves_def lib_tasks_def lib_init_def handle_vm_finished_def\<close>)
  moreover have "lib_step ?S2 ?S3"
    by (rule lib_step.join_started) (use c in \<open>simp_all add: handle_vm_joined_def prod_eq_iff\<close>)
  moreover have "lib_step ?S3 ?S4"
    by (rule lib_step.joined) (use p in \<open>simp_all add: lib_init_def\<close>)
  ultimately have run: "lib_step\<^sup>*\<^sup>* ?S0 ?S4" by (meson rtranclp.rtrancl_refl rtranclp.rtrancl_into_rtrancl)
  have log: "ls_log ?S4 = [(7, Inr [VBoolean True, VInteger 5])]" by (simp add: lib_init_def)
  have "(7, Inr [VBoolean True, VInteger 5]) \<in> set (ls_log ?S4)" by (simp add: log)
  with task_results_returned_once [OF run] run log show ?thesis by (metis sum.inject(2))
qed

end
