(* ===== verification/Isle_Root.thy ===== *)
theory Isle_Root
  imports Isle_Scope_Props Isle_Scope_Rel
begin

text \<open>
  The future of a coroutine request, \<^verbatim>\<open>run_root\<close> (\<^verbatim>\<open>src/scope.rs\<close>, the body of \<^verbatim>\<open>Vm::run\<close>): the run of its scope,
  and the look at the token once that is over.  \<open>from\<close> is \<^verbatim>\<open>IsleError::from\<close> and \<open>unwrap\<close> is \<^verbatim>\<open>unwrap_root\<close>.
\<close>

definition run_root_poll ::
  "(mlua_error \<Rightarrow> isle_error) \<Rightarrow> ('a \<Rightarrow> isle_error + 'b) \<Rightarrow>
    ((mlua_error + 'a, 'v) scope_world \<Rightarrow> (mlua_error + 'a) poll \<times> (mlua_error + 'a, 'v) scope_world) \<Rightarrow> nat \<Rightarrow>
    (mlua_error + 'a, 'v) scope_world \<Rightarrow> (isle_error + 'b) poll \<times> (mlua_error + 'a, 'v) scope_world" where
  "run_root_poll from unwrap body n w =
    (let (r, w1) = run_in_poll body n w
     in (map_poll (root_result from unwrap (token_cancelled w1 (sc_token (sw_scope w n)))) r, w1))"

section \<open>What lasts\<close>

text \<open>A cancel stays, and a future keeps its scope's token and what it is (a request or a task).\<close>

definition lasting :: "('o, 'v) scope_world \<Rightarrow> ('o, 'v) scope_world \<Rightarrow> bool" where
  "lasting w w' \<longleftrightarrow>
    th_fresh (sw_heap w) \<le> th_fresh (sw_heap w') \<and> sw_fresh w \<le> sw_fresh w' \<and>
    (\<forall>n. sw_fut w n \<noteq> None \<longrightarrow> sw_fut w' n \<noteq> None) \<and>
    (\<forall>n < sw_fresh w. sc_token (sw_scope w' n) = sc_token (sw_scope w n) \<and>
      map_option rf_task (sw_fut w' n) = map_option rf_task (sw_fut w n)) \<and>
    (\<forall>t < th_fresh (sw_heap w). token_cancelled w t \<longrightarrow> token_cancelled w' t)"

lemma lastingD:
  assumes "lasting w w'"
  shows "th_fresh (sw_heap w) \<le> th_fresh (sw_heap w')" and "sw_fresh w \<le> sw_fresh w'"
    and "sw_fut w n \<noteq> None \<Longrightarrow> sw_fut w' n \<noteq> None"
    and "n < sw_fresh w \<Longrightarrow> sc_token (sw_scope w' n) = sc_token (sw_scope w n)"
    and "n < sw_fresh w \<Longrightarrow> map_option rf_task (sw_fut w' n) = map_option rf_task (sw_fut w n)"
    and "t < th_fresh (sw_heap w) \<Longrightarrow> token_cancelled w t \<Longrightarrow> token_cancelled w' t"
  using assms unfolding lasting_def by blast+

lemma lastingI:
  assumes "\<And>n. map_option rf_task (sw_fut w' n) = map_option rf_task (sw_fut w n)"
    and "\<And>n. sc_token (sw_scope w' n) = sc_token (sw_scope w n)" and "sw_fresh w' = sw_fresh w"
    and "sw_heap w' = sw_heap w"
  shows "lasting w w'"
proof -
  have "sw_fut w' n \<noteq> None" if "sw_fut w n \<noteq> None" for n using assms(1) [of n] that by (cases "sw_fut w' n") auto
  then show ?thesis using assms by (simp add: lasting_def token_cancelled_def)
qed

lemma lasting_trans:
  assumes ab: "lasting a b" and bc: "lasting b c"
  shows "lasting a c"
proof -
  note A = lastingD [OF ab] and B = lastingD [OF bc]
  have "n < sw_fresh b" if "n < sw_fresh a" for n using that A(2) by simp
  moreover have "t < th_fresh (sw_heap b)" if "t < th_fresh (sw_heap a)" for t using that A(1) by simp
  moreover have "th_fresh (sw_heap a) \<le> th_fresh (sw_heap c)" "sw_fresh a \<le> sw_fresh c" using A(1,2) B(1,2) by simp_all
  ultimately show ?thesis unfolding lasting_def using A(3-6) B(3-6) by simp
qed

lemma cancel_keeps: "is_cancelled h x \<Longrightarrow> is_cancelled (cancel t h) x"
  by (simp add: is_cancelled_def cancel_def cancel_all_flags)

lemma child_token_keeps:
  assumes "x < th_fresh h" and "is_cancelled h x"
  shows "is_cancelled (snd (child_token t h)) x"
proof -
  have "is_cancelled (snd (token_new (Some t) h)) x" using assms by (simp add: token_new_def is_cancelled_def)
  moreover have "is_cancelled g x \<Longrightarrow> is_cancelled (upd_token t (\<lambda>k. k\<lparr>tk_children := f k\<rparr>) (sweep t g)) x" for g f
    by (auto simp: is_cancelled_def upd_token_def sweep_def Let_def)
  ultimately show ?thesis by (simp add: child_token_def split_beta Let_def cancel_keeps)
qed

lemma spawn_heap:
  assumes "x < th_fresh (sw_heap w)" and "token_cancelled w x"
  shows "token_cancelled (snd (spawn g c s w)) x"
  using child_token_keeps [OF assms(1) assms(2) [unfolded token_cancelled_def], of "sc_token (sw_scope w s)"]
  by (simp add: spawn_def Let_def split_beta token_cancelled_def cancel_keeps add_child_def finish_def)

lemma spawn_heap_fresh: "th_fresh (sw_heap (snd (spawn g c s w))) = Suc (th_fresh (sw_heap w))"
  by (simp add: spawn_def Let_def split_beta child_token_fresh cancel_def cancel_all_fresh add_child_def finish_def)

interpretation lasting: scope_relation lasting
proof unfold_locales
  show "lasting a c" if "lasting a b" "lasting b c" for a b c using lasting_trans [OF that] .
  show "lasting w (cancel_token t w)" for w t
    by (simp add: lasting_def token_cancelled_def cancel_keeps) (simp add: cancel_def cancel_all_fresh)
  show "lasting w (abort_task t w)" for w t
    by (simp add: lasting_def token_cancelled_def abort_task_def Let_def cancel_keeps) (simp add: cancel_def cancel_all_fresh)
  show "lasting w (snd (spawn g cv s w))" if "sw_fut w s \<noteq> None" for w s g cv
  proof -
    have "sc_token (sw_scope (snd (spawn g cv s w)) n) = sc_token (sw_scope w n)"
      "map_option rf_task (sw_fut (snd (spawn g cv s w)) n) = map_option rf_task (sw_fut w n)" if "n \<noteq> sw_fresh w" for n
      using that by (simp_all add: spawn_def Let_def split_beta add_child_def upd_scope_def upd_task_def finish_def cancel_token_def)
    moreover have "sw_fut (snd (spawn g cv s w)) n \<noteq> None" if "sw_fut w n \<noteq> None" for n
      using that by (auto simp: spawn_def Let_def split_beta add_child_def upd_scope_def upd_task_def finish_def cancel_token_def)
    ultimately show ?thesis by (auto simp: lasting_def spawn_heap spawn_heap_fresh spawn_tasks)
  qed
  show "sw_fut b n \<noteq> None" if "lasting a b" "sw_fut a n \<noteq> None" for a b n using lastingD(3) [OF that] .
  show "lasting w (snd (root_new tok g w))" for w tok g
    by (auto simp: lasting_def root_new_def token_cancelled_def Let_def)
qed (rule lastingI; simp add: set_deadline_def finish_def option.map_comp comp_def)+

section \<open>Where an outcome comes from\<close>

text \<open>\<open>A\<close>: the bodies' outputs; \<open>c\<close>: the token is cancelled.  A future in its grace, or over without an output, was cancelled.\<close>

fun origin :: "('o \<Rightarrow> bool) \<Rightarrow> bool \<Rightarrow> 'o run_state \<Rightarrow> bool" where
  "origin A c (Waiting out) = (case out of Some res \<Rightarrow> A res | None \<Rightarrow> c)"
| "origin A c (Ended out) = (case out of Some res \<Rightarrow> A res | None \<Rightarrow> c)"
| "origin A c (InGrace d) = c"
| "origin A c _ = True"

lemma origin_mono:
  assumes "origin A c st" and "\<And>res. A res \<Longrightarrow> B res" and "c \<Longrightarrow> d"
  shows "origin B d st"
  using assms by (cases st) (auto split: option.splits)

definition has_origin :: "('o \<Rightarrow> bool) \<Rightarrow> bool \<Rightarrow> ('o, 'v) scope_world \<Rightarrow> nat \<Rightarrow> bool" where
  "has_origin A c w n \<longleftrightarrow> (case sw_fut w n of None \<Rightarrow> True | Some f \<Rightarrow> origin A c (rf_state f))"

lemma wait_all_origin:
  assumes "case out of Some res \<Rightarrow> A res | None \<Rightarrow> c"
  shows "has_origin A c (snd (wait_all n out w)) n"
  using assms by (auto simp: wait_all_def has_origin_def split: option.split)

lemma drain_origin:
  assumes "case out of Some res \<Rightarrow> A res | None \<Rightarrow> c"
  shows "has_origin A c (snd (drain n out w)) n"
  unfolding drain_def Let_def by (rule wait_all_origin [OF assms])

lemma set_state_origin: "origin A c st \<Longrightarrow> has_origin A c (set_state n st w) n"
  by (auto simp: has_origin_def split: option.split)

lemma grace_origin:
  assumes "\<And>w res. fst (body w) = Ready res \<Longrightarrow> A res" and c
  shows "has_origin A c (snd (grace_poll body n d w)) n"
proof -
  obtain r w1 where p: "scoped_poll body n w = (r, w1)" by fastforce
  then have "A res" if "r = Ready res" for res
    using assms(1) that by (auto simp: scoped_poll_def split_beta Let_def)
  then show ?thesis using assms(2)
    by (cases r) (auto simp: grace_poll_def p intro: drain_origin set_state_origin)
qed

lemma run_in_origin:
  assumes body: "\<And>w res. fst (body w) = Ready res \<Longrightarrow> A res"
    and c: "token_cancelled w (sc_token (sw_scope w n)) \<Longrightarrow> c" and o: "has_origin A c w n"
  shows "has_origin A c (snd (run_in_poll body n w)) n"
proof -
  have "has_origin A c (snd (body_poll body n w)) n"
  proof (cases "token_cancelled w (sc_token (sw_scope w n))")
    case True
    then show ?thesis using grace_origin [of body A c, OF body c] by (simp add: body_poll_def)
  next
    case False
    obtain r w1 where p: "scoped_poll body n w = (r, w1)" by fastforce
    then have "A res" if "r = Ready res" for res
      using body that by (auto simp: scoped_poll_def split_beta Let_def)
    then show ?thesis using False by (cases r) (auto simp: body_poll_def p intro: drain_origin set_state_origin)
  qed
  then show ?thesis using o grace_origin [of body A c, OF body] wait_all_origin
    by (auto simp: run_in_poll_def has_origin_def [of A c w] split: option.split run_state.split)
qed

lemma fut_drop_origin:
  assumes "has_origin A c w n"
  shows "has_origin A c (fut_drop n w) n"
proof (cases "sw_fut w n")
  case (Some f)
  have a: "sw_fut (abort_on_drop n v) = sw_fut v" for v :: "('a, 'b) scope_world"
    using same_world_abort_all [of "upd_scope n (sc_phase_update (\<lambda>_. Closed)) v" n]
    by (simp add: abort_on_drop_def same_world_def)
  show ?thesis using assms Some
    by (auto simp: fut_drop_def has_origin_def Let_def a split: run_state.split)
qed (use assms in \<open>simp add: fut_drop_def\<close>)

lemma fut_poll_origin:
  assumes "has_origin A c (snd (run_in_poll body n w)) n"
  shows "has_origin A c (fut_poll body n w) n"
proof -
  obtain r w1 where "run_in_poll body n w = (r, w1)" by fastforce
  then show ?thesis using assms
    by (auto simp: fut_poll_def has_origin_def finish_task_fut split: poll.split option.split)
qed

lemma has_origin_mono:
  assumes "has_origin A c w n" and "sw_fut w' n = sw_fut w n" and "\<And>res. A res \<Longrightarrow> B res" and "c \<Longrightarrow> d"
  shows "has_origin B d w' n"
  using assms(1,2) origin_mono [OF _ assms(3,4)] by (auto simp: has_origin_def split: option.splits)

definition output_of :: "('o, 'v) sop list \<Rightarrow> nat \<Rightarrow> 'o \<Rightarrow> bool" where
  "output_of ops n res \<longleftrightarrow> (\<exists>acts. PollFut n acts (Some res) \<in> set ops)"

text \<open>Over a history: a request's outcome is what its body returned, or its token was cancelled.\<close>

lemma exec_origin:
  assumes ok: "world_ok w" and n: "sw_fut w n \<noteq> None"
    and o: "has_origin (output_of ops n) (token_cancelled w t) w n"
    and t: "t = sc_token (sw_scope w n)" "t < th_fresh (sw_heap w)"
  shows "has_origin (output_of (ops @ [x]) n) (token_cancelled (scope_exec x w) t) (scope_exec x w) n"
proof -
  have n': "n < sw_fresh w" using n world_okD(1) [OF ok] by blast
  have L: "token_cancelled w t \<Longrightarrow> token_cancelled (scope_exec x w) t"
    by (rule lastingD(6) [OF lasting.R_exec t(2)])
  have A: "output_of ops n res \<Longrightarrow> output_of (ops @ [x]) n res" for res by (auto simp: output_of_def)
  note same = has_origin_mono [OF o _ A L]
  have o': "has_origin (output_of (ops @ [x]) n) (token_cancelled (scope_exec x w) t) w n" by (rule same) simp
  show ?thesis
  proof (cases x)
    case (Request tok g)
    then show ?thesis using n' by (intro same) (simp_all add: root_new_def Let_def)
  next
    case (Act a)
    then show ?thesis using growsD(3) [OF act_ok [OF ok, THEN conjunct2] n'] by (intro same) simp_all
  next
    case (PollFut m acts out)
    show ?thesis
    proof (cases "m = n")
      case False
      then have "sw_fut (fut_poll (run_body acts out) m w) n = sw_fut w n" "sw_fut (fut_drop m w) n = sw_fut w n"
        using onlyD(2) [OF only_fut_poll [OF run_body_ok ok] n'] onlyD(2) [OF only_fut_drop n'] by simp_all
      then show ?thesis by (intro same) (simp_all add: PollFut)
    next
      case True
      have "output_of (ops @ [x]) n res" if "fst (run_body acts out v) = Ready res" for v :: "('a, 'b) scope_world" and res
        using that by (auto simp: run_body_def output_of_def PollFut True split: option.splits)
      then have "has_origin (output_of (ops @ [x]) n) (token_cancelled (scope_exec x w) t) (fut_poll (run_body acts out) n w) n"
        using L o' by (intro fut_poll_origin run_in_origin) (simp_all add: t(1) [symmetric])
      then show ?thesis using fut_drop_origin [OF o'] by (cases "sw_aborted w n") (simp_all add: PollFut True)
    qed
  next
    case (DropFut m)
    show ?thesis
    proof (cases "m = n")
      case False
      then have "sw_fut (fut_drop m w) n = sw_fut w n" using onlyD(2) [OF only_fut_drop n'] by simp
      then show ?thesis by (intro same) (simp_all add: DropFut)
    qed (use fut_drop_origin [OF o'] DropFut in simp)
  next
    case (FreeScope m)
    then show ?thesis by (intro same) simp_all
  qed
qed

lemma run_origin:
  assumes ok: "world_ok w" and f: "sw_fut w n = Some f" "rf_state f = Unstarted"
    and t: "t = sc_token (sw_scope w n)" "t < th_fresh (sw_heap w)"
  shows "world_ok (scope_run ops w) \<and> lasting w (scope_run ops w) \<and>
    has_origin (output_of ops n) (token_cancelled (scope_run ops w) t) (scope_run ops w) n"
proof (induction ops rule: rev_induct)
  case Nil
  then show ?case using ok f by (simp add: scope_run_def has_origin_def lasting.R_refl)
next
  case (snoc x ops)
  let ?v = "scope_run ops w"
  have n: "n < sw_fresh w" using world_okD(1) [OF ok f(1)] .
  have v: "world_ok ?v" "lasting w ?v" using snoc by simp_all
  have "has_origin (output_of (ops @ [x]) n) (token_cancelled (scope_exec x ?v) t) (scope_exec x ?v) n"
    using snoc lastingD(1,3,4) [OF v(2)] n f(1) t by (intro exec_origin) auto
  moreover have "scope_run (ops @ [x]) w = scope_exec x ?v" by (simp add: scope_run_def)
  ultimately show ?case using scope_exec_ok [OF v(1)] lasting.R_trans [OF v(2) lasting.R_exec] by simp
qed

section \<open>The contract of a request\<close>

text \<open>The contract of \<^verbatim>\<open>Vm::run\<close>, and so of every coroutine request.  Whatever happened on the VM's thread before the
  request began and since (other requests, spawns, polls, cancels, time), when its future resolves, every task of
  its tree is finished, unless a future of the tree was dropped from outside; it resolves to \<^verbatim>\<open>Cancelled\<close> when its
  token was cancelled, whatever its code returned, and otherwise to what its own code returned in some poll, as an
  error or as the unwrapped values.\<close>

theorem root_request_contract:
  assumes w0: "w0 = scope_run ops0 (world_init h)" and t: "t < th_fresh (sw_heap w0)"
    and root: "root_new t g w0 = (n, w1)" and w: "w = scope_run ops w1"
    and p: "run_root_poll from unwrap (run_body acts out) n w = (Ready r, w')"
    and no: "\<And>m f. (n, m) \<in> (under w')\<^sup>+ \<Longrightarrow> sw_fut w' m = Some f \<Longrightarrow> rf_state f \<noteq> Dropped"
  shows "(\<forall>m. (n, m) \<in> (under w')\<^sup>+ \<longrightarrow> is_done w' m) \<and>
    (if token_cancelled w' t then r = Inl Cancelled
     else \<exists>res acts'. PollFut n acts' (Some res) \<in> set (ops @ [PollFut n acts out]) \<and>
       r = (case res of Inl e \<Rightarrow> Inl (from e) | Inr values \<Rightarrow> unwrap values))"
proof -
  have n: "n = sw_fresh w0" and w1: "w1 = snd (root_new t g w0)" using root by (auto simp: root_new_def Let_def)
  have ok1: "world_ok w1" unfolding w1 by (rule root_new_ok) (simp add: w0 run_init_ok)
  have "sw_fut w1 n = Some \<lparr>rf_task = False, rf_conv = (\<lambda>_ _. None), rf_state = Unstarted\<rparr>"
    by (simp add: w1 n root_new_def Let_def)
  then obtain f where f: "sw_fut w1 n = Some f" "rf_state f = Unstarted" by auto
  have t1: "t = sc_token (sw_scope w1 n)" "t < th_fresh (sw_heap w1)"
    using t by (simp_all add: w1 n root_new_def Let_def scope_new_def)
  have W: "world_ok w" "lasting w1 w" "has_origin (output_of ops n) (token_cancelled w t) w n"
    using run_origin [OF ok1 f t1, of ops] by (simp_all add: w)
  have n1: "n < sw_fresh w1" using world_okD(1) [OF ok1 f(1)] .
  have tw: "t = sc_token (sw_scope w n)" "t < th_fresh (sw_heap w)" using lastingD(1,4) [OF W(2)] n1 t1 by auto
  obtain o1 where q: "run_in_poll (run_body acts out) n w = (Ready o1, w')"
    and r: "r = root_result from unwrap (token_cancelled w' t) o1"
    using p by (cases "run_in_poll (run_body acts out) n w"; cases "fst (run_in_poll (run_body acts out) n w)")
      (auto simp: run_root_poll_def tw(1) [symmetric])
  obtain f' where f': "sw_fut w' n = Some f'" "rf_state f' = Ended o1"
    using run_in_ready [OF run_body_ok W(1), of acts out n o1] q by auto
  have ok': "world_ok w'" using run_in_poll_ok [OF run_body_ok W(1), of acts out n] q by simp
  have all_done: "is_done w' m" if "(n, m) \<in> (under w')\<^sup>+" for m by (rule tree_done [OF ok' that f' no])
  have "lasting w w'" using lasting.R_run_in [OF lasting.R_body [where acts = acts and out = out], where w = w and s = n] q by simp
  then have c: "token_cancelled w t \<Longrightarrow> token_cancelled w' t" using lastingD(6) tw(2) by blast
  have "has_origin (output_of (ops @ [PollFut n acts out]) n) (token_cancelled w' t) (snd (run_in_poll (run_body acts out) n w)) n"
  proof (rule run_in_origin)
    show "output_of (ops @ [PollFut n acts out]) n res"
      if "fst (run_body acts out v) = Ready res" for v res
      using that by (auto simp: run_body_def output_of_def split: option.splits)
    show "has_origin (output_of (ops @ [PollFut n acts out]) n) (token_cancelled w' t) w n"
      by (rule has_origin_mono [OF W(3) refl _ c]) (auto simp: output_of_def)
  qed (use c tw(1) in simp)
  then have "case o1 of Some res \<Rightarrow> output_of (ops @ [PollFut n acts out]) n res | None \<Rightarrow> token_cancelled w' t"
    by (simp add: has_origin_def q f')
  then have "if token_cancelled w' t then r = Inl Cancelled
     else \<exists>res acts'. PollFut n acts' (Some res) \<in> set (ops @ [PollFut n acts out]) \<and>
       r = (case res of Inl e \<Rightarrow> Inl (from e) | Inr values \<Rightarrow> unwrap values)"
    unfolding r by (cases "token_cancelled w' t"; cases o1; cases "the o1") (auto simp: output_of_def)
  then show ?thesis using all_done by blast
qed

text \<open>A request that spawns a task and returns 7 in its first poll, and resolves once the task has finished.\<close>

definition root_demo_start :: "(mlua_error + nat list, nat) scope_world" where
  "root_demo_start = snd (root_new 0 5 (world_init demo_heap))"

definition root_demo_ops :: "(mlua_error + nat list, nat) sop list" where
  "root_demo_ops = [PollFut 0 [SpawnHere 5 (\<lambda>_ _. None)] (Some (Inr [7])), PollFut 1 [] (Some (Inr [1]))]"

definition root_demo_poll :: "(isle_error + nat list) poll \<times> (mlua_error + nat list, nat) scope_world" where
  "root_demo_poll = run_root_poll (\<lambda>_. RecvFailed) Inr (run_body [] None) 0 (scope_run root_demo_ops root_demo_start)"

lemma root_demo:
  "fst root_demo_poll = Ready (Inr [7])" "sw_fresh (snd root_demo_poll) = 2"
  "map_option rf_state (sw_fut (snd root_demo_poll) 0) = Some (Ended (Some (Inr [7])))"
  "map_option rf_state (sw_fut (snd root_demo_poll) 1) = Some (Ended (Some (Inr [1])))"
  "(0, 1) \<in> under (snd root_demo_poll)" "token_cancelled (snd root_demo_poll) 0 = False"
  unfolding under_def mem_Collect_eq case_prod_conv by code_simp+

lemma root_request_contract_witness:
  "fst root_demo_poll = Ready (Inr [7]) \<and> is_done (snd root_demo_poll) 1 \<and>
    (\<exists>res acts. PollFut 0 acts (Some res) \<in> set (root_demo_ops @ [PollFut 0 [] None]) \<and>
      (Inr [7] :: isle_error + nat list) = (case res of Inl e \<Rightarrow> Inl RecvFailed | Inr values \<Rightarrow> Inr values))"
proof -
  let ?w' = "snd root_demo_poll" and ?w0 = "scope_run [] (world_init demo_heap) :: (mlua_error + nat list, nat) scope_world"
  have t: "0 < th_fresh (sw_heap ?w0)" by code_simp
  have root: "root_new 0 5 ?w0 = (0, root_demo_start)"
    by (simp add: root_demo_start_def scope_run_def root_new_def world_init_def Let_def)
  have p: "run_root_poll (\<lambda>_. RecvFailed) Inr (run_body [] None) 0 (scope_run root_demo_ops root_demo_start) = (Ready (Inr [7]), ?w')"
    using root_demo(1) unfolding root_demo_poll_def by (simp add: prod_eq_iff)
  have ok: "world_ok ?w'"
  proof -
    have "world_ok (scope_run root_demo_ops root_demo_start)"
      unfolding root_demo_start_def by (intro scope_run_ok root_new_ok world_ok_init)
    from run_in_poll_ok [OF run_body_ok this, of "[]" None 0] show ?thesis
      by (simp add: root_demo_poll_def run_root_poll_def split_beta Let_def)
  qed
  have no: "rf_state g \<noteq> Dropped" if "(0, m) \<in> (under ?w')\<^sup>+" "sw_fut ?w' m = Some g" for m g
  proof -
    have "m = 0 \<or> m = 1" using world_okD(1) [OF ok that(2)] root_demo(2) by auto
    then show ?thesis using root_demo(3,4) that(2) by auto
  qed
  have c: "(\<forall>m. (0, m) \<in> (under ?w')\<^sup>+ \<longrightarrow> is_done ?w' m) \<and>
      (if token_cancelled ?w' 0 then (Inr [7] :: isle_error + nat list) = Inl Cancelled
       else \<exists>res acts. PollFut 0 acts (Some res) \<in> set (root_demo_ops @ [PollFut 0 [] None]) \<and>
         Inr [7] = (case res of Inl e \<Rightarrow> Inl RecvFailed | Inr values \<Rightarrow> Inr values))"
    by (rule root_request_contract [OF refl t root refl p]) (fact no)
  from c [THEN conjunct1] root_demo(5) have "is_done ?w' 1" by blast
  moreover from c [THEN conjunct2] root_demo(6) have "\<exists>res acts. PollFut 0 acts (Some res) \<in> set (root_demo_ops @ [PollFut 0 [] None]) \<and>
      (Inr [7] :: isle_error + nat list) = (case res of Inl e \<Rightarrow> Inl RecvFailed | Inr values \<Rightarrow> Inr values)"
    by simp
  ultimately show ?thesis using root_demo(1) by blast
qed

end
