(* ===== verification/Isle_Root_Async.thy ===== *)
theory Isle_Root_Async
  imports Isle_Root Isle_Async_Props
begin

text \<open>
  A coroutine request on the VM: \<^verbatim>\<open>run_root\<close> (\<^verbatim>\<open>src/scope.rs\<close>) with its setup, as the future the async actor polls
  (the \<open>co_runner\<close> of \<open>Isle_Async\<close>).

  The scopes are the user part of the VM; they share its tokens.  Lua's part is a parameter: \<open>lb\<close> is what building the
  coroutine fails with, and \<open>bp n v\<close> is a poll of the coroutine of request \<open>n\<close> (\<open>None\<close>: it panicked).
\<close>

section \<open>The VM and its scopes\<close>

type_synonym 'v root_vm = "(mlua_error + lua_value list, 'v) scope_world isle_vm"

definition world_of :: "'v root_vm \<Rightarrow> (mlua_error + lua_value list, 'v) scope_world" where
  "world_of v = (iv_user v)\<lparr>sw_heap := iv_heap v\<rparr>"

definition with_world :: "(mlua_error + lua_value list, 'v) scope_world \<Rightarrow> 'v root_vm \<Rightarrow> 'v root_vm" where
  "with_world w v = v\<lparr>iv_user := w, iv_heap := sw_heap w\<rparr>"

lemma world_of_with [simp]: "world_of (with_world w v) = w"
  by (simp add: world_of_def with_world_def)

lemma with_world_heap [simp]: "iv_heap (with_world w v) = sw_heap w"
  by (simp add: with_world_def)

text \<open>The state in which a poll of \<^verbatim>\<open>run_in\<close> polls its body, if it does.\<close>

definition body_world :: "nat \<Rightarrow> ('o, 'v) scope_world \<Rightarrow> ('o, 'v) scope_world option" where
  "body_world n w =
    (let first = snd (enter_scope n
           (if token_cancelled w (sc_token (sw_scope w n)) then set_deadline n w else w))
     in case sw_fut w n of
          None \<Rightarrow> None
        | Some f \<Rightarrow>
            (case rf_state f of
               Unstarted \<Rightarrow> Some first
             | InBody \<Rightarrow> Some first
             | InGrace d \<Rightarrow> Some (snd (enter_scope n w))
             | _ \<Rightarrow> None))"

lemma body_world_Some:
  assumes "body_world n w = Some w0"
  shows "run_in_poll body n w = run_in_poll (\<lambda>_. body w0) n w"
  using assms
  by (auto simp: body_world_def run_in_poll_def body_poll_def grace_poll_def scoped_poll_def Let_def split_beta
      split: option.splits run_state.splits if_splits)

lemma body_world_None:
  assumes "body_world n w = None"
  shows "run_in_poll body n w = run_in_poll body' n w"
  using assms by (auto simp: body_world_def run_in_poll_def Let_def split: option.splits run_state.splits)

section \<open>The future of a request\<close>

datatype root_future = RootNew nat nat "lua_value list" | RootRun nat | RootOver

text \<open>\<^verbatim>\<open>run_root\<close> up to its scope: the hook, the protected call, the coroutine.\<close>

definition root_setup ::
  "(mlua_error + lua_value list, 'v) scope_world lua_env \<Rightarrow> (nat \<Rightarrow> lua_value list \<Rightarrow> 'v root_vm \<Rightarrow> mlua_error option) \<Rightarrow>
    nat \<Rightarrow> nat \<Rightarrow> lua_value list \<Rightarrow> 'v root_vm \<Rightarrow> (isle_error + nat) \<times> 'v root_vm" where
  "root_setup E lb t func args v =
    (let (r, hub) = ensure_installed (from_lua_error E) (lu_set_hook E v) (lu_raw_hook E v) (iv_hub v);
         v1 = v\<lparr>iv_hub := hub\<rparr>
     in case r of
          Inl e \<Rightarrow> (Inl e, v1)
        | Inr u \<Rightarrow>
            let grace = cf_grace (hb_config (iv_hub v1))
            in (case vm_protect E v1 of
                  (Inl e, v2) \<Rightarrow> (Inl e, v2)
                | (Inr u, v2) \<Rightarrow>
                    (case lb func args v2 of
                       Some e \<Rightarrow> (Inl (from_lua_error E e), v2)
                     | None \<Rightarrow> let (n, w) = root_new t grace (world_of v2) in (Inr n, with_world w v2))))"

text \<open>\<^verbatim>\<open>Scoped::poll\<close> makes the token current too.  A panic of the coroutine unwinds through the future, which drops it.\<close>

definition root_resume ::
  "(mlua_error + lua_value list, 'v) scope_world lua_env \<Rightarrow>
    (nat \<Rightarrow> 'v root_vm \<Rightarrow> (mlua_error + lua_value list) poll option \<times> 'v root_vm) \<Rightarrow> nat \<Rightarrow> 'v root_vm \<Rightarrow>
    ((isle_error + lua_value list) poll option \<times> root_future) \<times> 'v root_vm" where
  "root_resume E bp n v =
    (let w = world_of v;
         run = (\<lambda>body v1.
           let (r, w1) = run_root_poll (from_lua_error E) (unwrap_root (lu_show E)) body n w
           in ((Some r, case r of Pending \<Rightarrow> RootRun n | Ready x \<Rightarrow> RootOver), with_world w1 v1))
     in case body_world n w of
          None \<Rightarrow> run (\<lambda>w. (Pending, w)) v
        | Some w0 \<Rightarrow>
            let (prev, v1) = enter_vm (sc_token (sw_scope w n)) (with_world w0 v);
                (out, v2) = bp n v1;
                v3 = leave_vm prev v2
            in (case out of
                  Some r \<Rightarrow> run (\<lambda>_. (r, world_of v3)) v3
                | None \<Rightarrow>
                    ((None, RootOver),
                     with_world (fut_drop n (set_state n InBody (leave_scope (sw_current w) (world_of v3)))) v3)))"

definition root_runner ::
  "(mlua_error + lua_value list, 'v) scope_world lua_env \<Rightarrow> (nat \<Rightarrow> lua_value list \<Rightarrow> 'v root_vm \<Rightarrow> mlua_error option) \<Rightarrow>
    (nat \<Rightarrow> 'v root_vm \<Rightarrow> (mlua_error + lua_value list) poll option \<times> 'v root_vm) \<Rightarrow>
    ((mlua_error + lua_value list, 'v) scope_world, root_future) co_runner" where
  "root_runner E lb bp =
    \<lparr>cr_start = (\<lambda>t func args v. (RootNew t func args, v)),
     cr_poll = (\<lambda>f v.
       case f of
         RootNew t func args \<Rightarrow>
           (case root_setup E lb t func args v of
              (Inl e, v1) \<Rightarrow> ((Some (Ready (Inl e)), RootOver), v1)
            | (Inr n, v1) \<Rightarrow> root_resume E bp n v1)
       | RootRun n \<Rightarrow> root_resume E bp n v
       | RootOver \<Rightarrow> ((Some Pending, RootOver), v))\<rparr>"

section \<open>A cancel is reported\<close>

interpretation flags: scope_steps "\<lambda>w w'. token_cancelled w t \<longrightarrow> token_cancelled w' t" for t
  by unfold_locales
    (simp_all add: token_cancelled_def cancel_keeps set_deadline_def abort_task_def Let_def upd_scope_def set_state_def cancel_token_def upd_task_def)

lemma body_world_cancelled:
  assumes "body_world n w = Some w0" and "token_cancelled w t"
  shows "token_cancelled w0 t"
  using assms
  by (auto simp: body_world_def Let_def enter_scope_def set_deadline_def token_cancelled_def split: option.splits run_state.splits if_splits)

lemma vm_cancelled_world: "vm_cancelled t v \<longleftrightarrow> token_cancelled (world_of v) t"
  by (simp add: vm_cancelled_def world_of_def token_cancelled_def)

lemma run_root_cancelled:
  assumes p: "run_root_poll from unwrap body n w = (Ready r, w')" and c: "token_cancelled w (sc_token (sw_scope w n))"
    and b: "\<And>v. token_cancelled (snd (body v)) (sc_token (sw_scope w n))"
  shows "r = Inl Cancelled"
proof -
  obtain out where q: "run_in_poll body n w = (Ready out, w')"
    and r: "r = root_result from unwrap (token_cancelled w' (sc_token (sw_scope w n))) out"
    using p by (cases "run_in_poll body n w"; cases "fst (run_in_poll body n w)") (auto simp: run_root_poll_def)
  have "token_cancelled w' (sc_token (sw_scope w n))"
    using flags.R_run_in [of "sc_token (sw_scope w n)" body w n] b c q by simp
  then show ?thesis by (simp add: r)
qed

lemma root_resume_cancelled:
  assumes keep: "\<And>m u. vm_cancelled t u \<Longrightarrow> vm_cancelled t (snd (bp m u))" and calm: "\<And>m u. fst (bp m u) \<noteq> None"
    and t: "t = sc_token (sw_scope (iv_user v) n)" "vm_cancelled t v"
    and p: "root_resume E bp n v = ((s, f), v')"
  shows "s = Some Pending \<and> f = RootRun n \<or> s = Some (Ready (Inl Cancelled)) \<and> f = RootOver"
proof -
  let ?w = "world_of v" and ?run = "run_root_poll (from_lua_error E) (unwrap_root (lu_show E))"
  have tw: "sc_token (sw_scope ?w n) = t" "token_cancelled ?w t" using t by (simp_all add: world_of_def vm_cancelled_def token_cancelled_def)
  show ?thesis
  proof (cases "body_world n ?w")
    case None
    obtain r w1 where q: "?run (\<lambda>w. (Pending, w)) n ?w = (r, w1)" by fastforce
    have run: "?run body n ?w = (r, w1)" for body
      using q body_world_None [OF None, of body "\<lambda>w. (Pending, w)"] by (simp add: run_root_poll_def)
    have "x = Inl Cancelled" if r: "r = Ready x" for x
      by (rule run_root_cancelled [OF run [of "\<lambda>_. (Pending, ?w)", unfolded r]]) (simp_all add: tw)
    then show ?thesis using p q by (cases r) (auto simp: root_resume_def None Let_def)
  next
    case (Some w0)
    obtain prev v1 where e: "enter_vm t (with_world w0 v) = (prev, v1)" by fastforce
    obtain out v2 where b: "bp n v1 = (Some out, v2)" using calm [of n v1] by (cases "bp n v1") auto
    have "vm_cancelled t v1"
      using e body_world_cancelled [OF Some tw(2)]
      by (auto simp: enter_vm_def enter_token_def Let_def split_beta vm_cancelled_def with_world_def token_cancelled_def)
    then have "vm_cancelled t v2" using keep [of v1 n] b by simp
    then have c: "token_cancelled (world_of (leave_vm prev v2)) t"
      by (simp add: vm_cancelled_def world_of_def leave_vm_def token_cancelled_def)
    obtain r w1 where q: "?run (\<lambda>_. (out, world_of (leave_vm prev v2))) n ?w = (r, w1)" by fastforce
    have "x = Inl Cancelled" if "r = Ready x" for x
      using run_root_cancelled [OF q [unfolded that]] tw c by simp
    then show ?thesis using p q e b by (cases r) (auto simp: root_resume_def Some Let_def tw(1))
  qed
qed

text \<open>A coroutine request whose token was cancelled ends with \<^verbatim>\<open>Cancelled\<close>, whatever its code does: a poll of it by
  the async actor, through the run of its scope, its body under its token and the conversion of its values, either
  leaves it waiting or answers its task with \<^verbatim>\<open>Cancelled\<close>.  (The code cannot take the cancel back, and does not panic.)\<close>

theorem cancelled_coroutine_reports_cancelled:
  assumes env: "ae_co env = coroutine_poll E (root_runner E lb bp) from_a to_t"
    and i: "i < length (aa_local a)" "aa_local a ! i = (k, (t, CoRun (RootRun n)))"
    and t: "sc_token (sw_scope (iv_user (aa_vm a)) n) = t" "is_cancelled (aa_heap a) t"
    and keep: "\<And>m v. vm_cancelled t v \<Longrightarrow> vm_cancelled t (snd (bp m v))" and calm: "\<And>m v. fst (bp m v) \<noteq> None"
  shows "aa_local (local_poll env i a) = aa_local a \<and> aa_resp (local_poll env i a) = aa_resp a \<or>
    aa_local (local_poll env i a) = take i (aa_local a) @ drop (Suc i) (aa_local a) \<and>
    aa_resp (local_poll env i a) k = snd (os_send (ae_shot env) (Inl Cancelled) (aa_resp a k))"
proof -
  let ?v = "(aa_vm a)\<lparr>iv_heap := aa_heap a\<rparr>"
  obtain s f v where r: "root_resume E bp n ?v = ((s, f), v)" by (metis surj_pair)
  have "t = sc_token (sw_scope (iv_user ?v) n)" "vm_cancelled t ?v" using t by (simp_all add: vm_cancelled_def)
  from root_resume_cancelled [of t bp, OF keep calm this r]
  show ?thesis
  proof
    assume "s = Some Pending \<and> f = RootRun n"
    then have "ae_co env (t, CoRun (RootRun n)) (aa_heap a) (aa_vm a) = (CoPending (t, CoRun (RootRun n)), iv_heap v, v)"
      using r by (simp add: env coroutine_poll_def coroutine_step_def co_resume_def root_runner_def)
    then show ?thesis using i by (simp add: local_poll_def list_update_id [of "aa_local a" i, unfolded i(2)])
  next
    assume "s = Some (Ready (Inl Cancelled)) \<and> f = RootOver"
    then have "ae_co env (t, CoRun (RootRun n)) (aa_heap a) (aa_vm a) = (CoReady (Inl Cancelled), iv_heap v, v)"
      using r by (simp add: env coroutine_poll_def coroutine_step_def co_resume_def root_runner_def)
    then show ?thesis using i by (simp add: local_poll_def send_result_def put_shot_def)
  qed
qed

section \<open>A cancelled request that raises an error of its own\<close>

definition root_demo_lua :: "(mlua_error + lua_value list, nat) scope_world lua_env" where
  "root_demo_lua =
    \<lparr>lu_show = \<lparr>ls_tostr = (\<lambda>_. Inr []), ls_debug = (\<lambda>_. []), ls_lossy = id, ls_disp = (\<lambda>_. []), ls_downcast = (\<lambda>_. None)\<rparr>,
     lu_xpcall_global = (\<lambda>_. Inr (VFunction 1)), lu_traces = (\<lambda>_. Inr ()), lu_handlers = (\<lambda>_. Inr (2, 3)),
     lu_set_hook = (\<lambda>_. None), lu_raw_hook = (\<lambda>_. 99), lu_create_lib = (\<lambda>v. (Inr (4, 5), v)),
     lu_load = (\<lambda>name code. Inr 7), lu_global = (\<lambda>name v. (Inr VNil, v)), lu_registry = (\<lambda>k. Inr k),
     lu_xpcall = (\<lambda>f args v. (\<lparr>xr_events = [], xr_result = Inr []\<rparr>, v))\<rparr>"

definition root_demo_env where
  "root_demo_env =
    \<lparr>ae_chan = demo_chan, ae_shot = demo_oneshot, ae_new_shot = ShotEmpty,
     ae_co = coroutine_poll root_demo_lua
       (root_runner root_demo_lua (\<lambda>_ _ _. None) (\<lambda>_ v. (Some (Ready (Inl (RuntimeError ''mine''))), v)))
       (\<lambda>args v. (Inr args, v)) (\<lambda>vs v. (Inr vs, v))\<rparr>"

definition root_demo_actor where
  "root_demo_actor =
    \<lparr>aa_vm = \<lparr>iv_protect = protect_init, iv_hub = hub_default, iv_attached = True, iv_task = None, iv_heap = demo_heap,
       iv_current = None, iv_user = snd (root_new 0 5 (world_init demo_heap))\<rparr>,
     aa_heap = cancel 0 demo_heap, aa_chan = ([], 2, False), aa_loop = True,
     aa_local = [(4, (0, CoRun (RootRun 0)))], aa_thread = Serving, aa_resp = (\<lambda>_. ShotEmpty),
     aa_fresh = 5, aa_accepted = [4], aa_started = [4], aa_panicked = []\<rparr>"

lemma cancelled_coroutine_reports_cancelled_witness:
  "aa_resp (local_poll root_demo_env 0 root_demo_actor) 4 = snd (os_send demo_oneshot (Inl Cancelled) ShotEmpty)"
proof -
  have over: "length (aa_local (local_poll root_demo_env 0 root_demo_actor)) = 0" by code_simp
  have c: "is_cancelled (aa_heap root_demo_actor) 0"
    "sc_token (sw_scope (iv_user (aa_vm root_demo_actor)) 0) = 0" by code_simp+
  have "ae_co root_demo_env = coroutine_poll root_demo_lua
      (root_runner root_demo_lua (\<lambda>_ _ _. None) (\<lambda>_ v. (Some (Ready (Inl (RuntimeError ''mine''))), v)))
      (\<lambda>args v. (Inr args, v)) (\<lambda>vs v. (Inr vs, v))"
    by (simp add: root_demo_env_def)
  from cancelled_coroutine_reports_cancelled [OF this, of 0 root_demo_actor 4 0 0] over c
  show ?thesis by (simp add: root_demo_env_def root_demo_actor_def)
qed

end
