(* ===== verification/Isle_Coroutine_Steps.thy ===== *)
theory Isle_Coroutine_Steps
  imports Isle_Root_Async
begin

text \<open>
  One poll of a coroutine request by the async actor (\<^verbatim>\<open>src/async_isle.rs\<close>), seen from its scope (\<^verbatim>\<open>src/scope.rs\<close>):
  what the poll keeps of the scopes on its VM, and where its outcome comes from.

  Code on the VM's thread (Lua, and the host's functions it calls) works on the scopes by the operations of
  \<open>code_act\<close> in any number: what the library and \<^verbatim>\<open>CancelToken\<close> offer.
\<close>

section \<open>What code does to the scopes\<close>

datatype ('o, 'v) code_act = LibAct "('o, 'v) act" | NewToken | ChildToken nat

fun exec_code :: "('o, 'v) code_act \<Rightarrow> ('o, 'v) scope_world \<Rightarrow> ('o, 'v) scope_world" where
  "exec_code (LibAct a) w = exec_act a w"
| "exec_code NewToken w = w\<lparr>sw_heap := snd (token_new None (sw_heap w))\<rparr>"
| "exec_code (ChildToken t) w = w\<lparr>sw_heap := snd (child_token t (sw_heap w))\<rparr>"

text \<open>A step that leaves the futures that exist where they are.\<close>

definition keeps :: "('o, 'v) scope_world \<Rightarrow> ('o, 'v) scope_world \<Rightarrow> bool" where
  "keeps w w' \<longleftrightarrow> lasting w w' \<and> (world_ok w \<longrightarrow> world_ok w' \<and> (\<forall>n < sw_fresh w. sw_fut w' n = sw_fut w n))"

lemma keepsD:
  assumes "keeps w w'"
  shows "lasting w w'" and "world_ok w \<Longrightarrow> world_ok w'"
    and "world_ok w \<Longrightarrow> n < sw_fresh w \<Longrightarrow> sw_fut w' n = sw_fut w n"
  using assms unfolding keeps_def by blast+

lemma keeps_refl [simp]: "keeps w w"
  by (simp add: keeps_def lasting.R_refl)

lemma keeps_trans: "keeps a b \<Longrightarrow> keeps b c \<Longrightarrow> keeps a c"
  using lasting_trans [of a b c] lastingD(2) [of a b] unfolding keeps_def by (simp add: less_le_trans)

lemma keeps_fold: "(\<And>x w. keeps w (f x w)) \<Longrightarrow> keeps w (fold f xs w)"
  by (induction xs arbitrary: w) (auto intro: keeps_trans)

lemma keeps_grows: "lasting w w' \<Longrightarrow> (world_ok w \<Longrightarrow> world_ok w' \<and> grows w w') \<Longrightarrow> keeps w w'"
  using growsD(3) [of w w'] unfolding keeps_def by blast

lemma same_world_heap: "same_world w (w\<lparr>sw_heap := h\<rparr>)"
  by (simp add: same_world_def)

lemma keeps_heap:
  assumes "th_fresh (sw_heap w) \<le> th_fresh h" and "\<And>t. t < th_fresh (sw_heap w) \<Longrightarrow> is_cancelled (sw_heap w) t \<Longrightarrow> is_cancelled h t"
  shows "keeps w (w\<lparr>sw_heap := h\<rparr>)"
proof (rule keeps_grows)
  show "world_ok w \<Longrightarrow> world_ok (w\<lparr>sw_heap := h\<rparr>) \<and> grows w (w\<lparr>sw_heap := h\<rparr>)"
    by (simp add: grows_same [OF same_world_heap] world_ok_same [OF same_world_heap])
qed (use assms in \<open>simp add: lasting_def token_cancelled_def\<close>)

lemma keeps_token_new: "keeps w (w\<lparr>sw_heap := snd (token_new None (sw_heap w))\<rparr>)"
  by (rule keeps_heap) (auto simp: token_new_def is_cancelled_def)

lemma keeps_cancel: "keeps w (w\<lparr>sw_heap := cancel t (sw_heap w)\<rparr>)"
  by (rule keeps_heap) (simp add: cancel_def cancel_all_fresh, rule cancel_keeps)

lemma keeps_code: "keeps w (exec_code a w)"
proof (cases a)
  case (LibAct b)
  then show ?thesis using act_ok [of w b] by (simp add: keeps_grows lasting.R_act)
next
  case (ChildToken t)
  then show ?thesis using child_token_keeps [of _ "sw_heap w" t] child_token_fresh [of t "sw_heap w"] by (auto intro!: keeps_heap)
qed (simp add: keeps_token_new)

text \<open>The VM before and after some code ran on it.\<close>

definition by_acts :: "'v root_vm \<Rightarrow> 'v root_vm \<Rightarrow> bool" where
  "by_acts v v' \<longleftrightarrow> (\<exists>acts. world_of v' = fold exec_code acts (world_of v))"

lemma by_acts_keeps: "by_acts v v' \<Longrightarrow> keeps (world_of v) (world_of v')"
  unfolding by_acts_def using keeps_fold [of exec_code, OF keeps_code] by metis

section \<open>The scope of a request\<close>

text \<open>\<open>returns bp n res\<close>: the coroutine of request \<open>n\<close> returns \<open>res\<close> in some poll.\<close>

definition returns :: "(nat \<Rightarrow> 'w \<Rightarrow> 'o poll option \<times> 'w) \<Rightarrow> nat \<Rightarrow> 'o \<Rightarrow> bool" where
  "returns bp n res \<longleftrightarrow> (\<exists>v. fst (bp n v) = Some (Ready res))"

definition root_ok ::
  "(nat \<Rightarrow> 'w \<Rightarrow> 'o poll option \<times> 'w) \<Rightarrow> nat \<Rightarrow> nat \<Rightarrow> ('o, 'v) scope_world \<Rightarrow> bool" where
  "root_ok bp t n w \<longleftrightarrow>
    sw_fut w n \<noteq> None \<and> n < sw_fresh w \<and> sc_token (sw_scope w n) = t \<and> t < th_fresh (sw_heap w) \<and>
    has_origin (returns bp n) (token_cancelled w t) w n"

lemma root_okD:
  assumes "root_ok bp t n w"
  shows "sw_fut w n \<noteq> None" and "n < sw_fresh w" and "sc_token (sw_scope w n) = t" and "t < th_fresh (sw_heap w)"
    and "has_origin (returns bp n) (token_cancelled w t) w n"
  using assms unfolding root_ok_def by blast+

lemma root_ok_step:
  assumes r: "root_ok bp t n w" and l: "lasting w w'"
    and o: "has_origin (returns bp n) (token_cancelled w' t) w' n"
  shows "root_ok bp t n w'"
  using root_okD [OF r] lastingD(1-4) [OF l] o unfolding root_ok_def by auto

lemma root_ok_frame:
  assumes "root_ok bp t n w" and "lasting w w'" and "sw_fut w' n = sw_fut w n"
  shows "root_ok bp t n w'"
  using assms root_okD(4) [OF assms(1)] lastingD(6) [OF assms(2)]
  by (intro root_ok_step [OF assms(1,2)] has_origin_mono [OF root_okD(5) [OF assms(1)] assms(3)]) auto

lemma root_ok_keeps:
  assumes "root_ok bp t n w" and "world_ok w" and "keeps w w'"
  shows "root_ok bp t n w'"
  using root_ok_frame [OF assms(1) keepsD(1) [OF assms(3)]] keepsD(3) [OF assms(3,2)] root_okD(2) [OF assms(1)] by simp

section \<open>A poll of a request\<close>

definition code_body :: "'o poll \<Rightarrow> ('o, 'v) code_act list \<Rightarrow> ('o, 'v) scope_world \<Rightarrow> 'o poll \<times> ('o, 'v) scope_world" where
  "code_body r acts w = (r, fold exec_code acts w)"

lemma code_body_idle: "code_body Pending [] = (\<lambda>w. (Pending, w))"
  by (simp add: code_body_def fun_eq_iff)

lemma code_body_lasting: "lasting w (snd (code_body r acts w))"
  unfolding code_body_def using keepsD(1) [OF keeps_fold [of exec_code, OF keeps_code]] by simp

lemma code_ok: "world_ok w \<Longrightarrow> world_ok (exec_code a w) \<and> grows w (exec_code a w)"
  using act_ok [of w] by (cases a) (auto simp: grows_same [OF same_world_heap] world_ok_same [OF same_world_heap])

lemma codes_ok: "world_ok w \<Longrightarrow> world_ok (fold exec_code acts w) \<and> grows w (fold exec_code acts w)"
proof (induction acts arbitrary: w)
  case (Cons a acts)
  then show ?case using code_ok [of w a] by (auto intro: grows_trans)
qed simp

lemma code_body_ok: "body_ok (code_body r acts)"
  by (simp add: body_ok_def code_body_def codes_ok)

text \<open>The run of the scope with a body that returns only what \<open>bp\<close> does.\<close>

lemma run_root_ok:
  assumes ok: "world_ok w" and r: "root_ok bp t n w" and out: "\<And>res. r0 = Ready res \<Longrightarrow> returns bp n res"
    and p: "run_root_poll from unwrap (code_body r0 acts) n w = (q, w')"
  shows "world_ok w'" and "lasting w w'" and "only n w w'" and "root_ok bp t n w'"
    and "q = Ready x \<Longrightarrow> \<exists>out. map_option rf_state (sw_fut w' n) = Some (Ended out) \<and>
      x = root_result from unwrap (token_cancelled w' t) out"
proof -
  let ?B = "code_body r0 acts"
  note R = root_okD [OF r]
  obtain o1 where q: "run_in_poll ?B n w = (o1, w')"
    by (rule that [of "fst (run_in_poll ?B n w)"]) (use p in \<open>simp add: run_root_poll_def split: prod.splits\<close>)
  have x: "q = map_poll (root_result from unwrap (token_cancelled w' t)) o1"
    using p R(3) by (simp add: run_root_poll_def q)
  have w': "w' = snd (run_in_poll ?B n w)" by (simp add: q)
  show ok': "world_ok w'" unfolding w' by (rule run_in_poll_ok [OF code_body_ok ok])
  show l: "lasting w w'" unfolding w' by (rule lasting.R_run_in) (rule code_body_lasting)
  show "only n w w'" unfolding w' by (rule only_run_in [OF code_body_ok ok])
  have c: "token_cancelled w t \<Longrightarrow> token_cancelled w' t" using lastingD(6) [OF l R(4)] .
  have "has_origin (returns bp n) (token_cancelled w' t) (snd (run_in_poll ?B n w)) n"
  proof (rule run_in_origin)
    show "returns bp n res" if "fst (?B v) = Ready res" for v res
      using that out by (simp add: code_body_def)
    show "token_cancelled w (sc_token (sw_scope w n)) \<Longrightarrow> token_cancelled w' t" using c R(3) by simp
    show "has_origin (returns bp n) (token_cancelled w' t) w n" by (rule has_origin_mono [OF R(5) refl _ c])
  qed
  then show "root_ok bp t n w'" using root_ok_step [OF r l] q by simp
  show "\<exists>out. map_option rf_state (sw_fut w' n) = Some (Ended out) \<and>
      x = root_result from unwrap (token_cancelled w' t) out" if r: "q = Ready x"
  proof -
    obtain out where o1: "o1 = Ready out" using x r by (cases o1) auto
    have "fst (run_in_poll ?B n w) = Ready out" using q o1 by simp
    from run_in_ready [OF code_body_ok ok this] show ?thesis using q x r o1 by auto
  qed
qed

lemma body_world_ok:
  assumes ok: "world_ok w" and s: "body_world n w = Some w0"
  shows "world_ok w0" and "lasting w w0" and "sw_fresh w0 = sw_fresh w" and "sw_fut w0 = sw_fut w" and "is_done w0 = is_done w"
    and "\<exists>f. sw_fut w n = Some f \<and> running (rf_state f)"
proof -
  obtain f where f: "sw_fut w n = Some f" using s by (auto simp: body_world_def Let_def split: option.splits)
  have w0: "w0 = snd (enter_scope n w) \<or> w0 = snd (enter_scope n (set_deadline n w))"
    using s f by (auto simp: body_world_def Let_def split: run_state.splits if_splits)
  have e: "lasting v (snd (enter_scope n v))" for v :: "('a, 'b) scope_world"
    by (rule lastingI) (simp_all add: enter_scope_def)
  have d: "lasting w (set_deadline n w)" by (rule lastingI) (simp_all add: set_deadline_def)
  show "world_ok w0"
    using w0 ok set_deadline_ok [OF ok, of n] world_ok_same [OF same_world_enter(1)] by metis
  show "lasting w w0" using w0 e lasting_trans [OF d e] by metis
  show "sw_fresh w0 = sw_fresh w" "sw_fut w0 = sw_fut w" "is_done w0 = is_done w"
    using w0 by (auto simp: enter_scope_def set_deadline_def)
  show "\<exists>f. sw_fut w n = Some f \<and> running (rf_state f)"
    using s f by (auto simp: body_world_def Let_def running_def split: run_state.splits)
qed

lemma lasting_same:
  assumes "sw_fut w' = sw_fut w" and "sw_scope w' = sw_scope w" and "sw_fresh w' = sw_fresh w" and "sw_heap w' = sw_heap w"
  shows "lasting w w'"
  by (rule lastingI) (simp_all add: assms)

text \<open>A body that panics: its future unwinds.\<close>

lemma root_panic_ok:
  assumes ok: "world_ok w" and r: "root_ok bp t n w" and s: "body_world n w = Some w0"
    and w': "w' = fut_drop n (set_state n InBody (leave_scope cu (fold exec_code acts w0)))"
  shows "world_ok w'" and "lasting w w'" and "only n w w'" and "root_ok bp t n w'"
proof -
  note B = body_world_ok [OF ok s]
  obtain f where f: "sw_fut w n = Some f" "running (rf_state f)" using B(6) by blast
  let ?w1 = "fold exec_code acts w0" and ?w2 = "leave_scope cu (fold exec_code acts w0)"
  have k: "world_ok ?w1" "grows w0 ?w1" "lasting w0 ?w1"
    using codes_ok [OF B(1)] keepsD(1) [OF keeps_fold [of exec_code, OF keeps_code]] by auto
  have ok2: "world_ok ?w2" using k(1) by (simp add: world_ok_same [OF same_world_enter(2)])
  have f2: "sw_fut ?w2 n = Some f"
    using growsD(3) [OF k(2)] root_okD(2) [OF r] f(1) by (simp add: leave_scope_def B(3,4))
  have ph: "phase_fits InBody (sc_phase (sw_scope ?w2 n))" using running_phase [OF ok2 f2 f(2)] by simp
  have ok3: "world_ok (set_state n InBody ?w2)" by (rule set_state_ok [OF ok2 f2 running_not_over [OF f(2)] ph]) simp
  then show "world_ok w'" unfolding w' by (rule fut_drop_ok)
  have "lasting ?w1 ?w2" by (rule lasting_same) (simp_all add: leave_scope_def)
  then show l: "lasting w w'" unfolding w'
    by (intro lasting_trans [OF B(2)] lasting_trans [OF k(3)] lasting_trans [OF _ lasting_trans [OF lasting.R_state lasting.R_fut_drop]])
  have "only n w w0" by (simp add: only_def B(3,4,5))
  moreover have "only n ?w1 ?w2" by (rule only_same) simp
  moreover have "only n ?w2 (set_state n InBody ?w2)" by (simp add: only_def)
  ultimately show "only n w w'" unfolding w'
    by (blast intro: only_trans only_grows [OF k(2)] only_fut_drop)
  have "has_origin (returns bp n) (token_cancelled w' t) (set_state n InBody ?w2) n"
    by (rule set_state_origin) simp
  then have "has_origin (returns bp n) (token_cancelled w' t) w' n" unfolding w' by (rule fut_drop_origin)
  then show "root_ok bp t n w'" by (rule root_ok_step [OF r l])
qed

lemma root_resume_ok:
  assumes acts: "\<And>m u. by_acts u (snd (bp m u))" and ok: "world_ok (world_of v)" and r: "root_ok bp t n (world_of v)"
    and p: "root_resume E bp n v = ((s, f), v')"
  shows "world_ok (world_of v')" and "lasting (world_of v) (world_of v')" and "only n (world_of v) (world_of v')"
    and "root_ok bp t n (world_of v')" and "s = Some Pending \<Longrightarrow> f = RootRun n"
    and "s = Some (Ready x) \<Longrightarrow> \<exists>out. map_option rf_state (sw_fut (world_of v') n) = Some (Ended out) \<and>
      x = root_result (from_lua_error E) (unwrap_root (lu_show E)) (token_cancelled (world_of v') t) out"
proof -
  let ?w = "world_of v" and ?run = "run_root_poll (from_lua_error E) (unwrap_root (lu_show E))"
  have "world_ok (world_of v') \<and> lasting ?w (world_of v') \<and> only n ?w (world_of v') \<and> root_ok bp t n (world_of v') \<and>
    (s = Some Pending \<longrightarrow> f = RootRun n) \<and>
    (\<forall>x. s = Some (Ready x) \<longrightarrow> (\<exists>out. map_option rf_state (sw_fut (world_of v') n) = Some (Ended out) \<and>
      x = root_result (from_lua_error E) (unwrap_root (lu_show E)) (token_cancelled (world_of v') t) out))"
  proof (cases "body_world n ?w")
    case None
    obtain q w1 where q: "?run (\<lambda>w. (Pending, w)) n ?w = (q, w1)" by fastforce
    have q': "?run (code_body Pending []) n ?w = (q, w1)" using q by (simp add: code_body_idle)
    have e: "s = Some q" "f = (case q of Pending \<Rightarrow> RootRun n | Ready x \<Rightarrow> RootOver)" "world_of v' = w1"
      using p q by (auto simp: root_resume_def None Let_def)
    show ?thesis unfolding e using run_root_ok [OF ok r _ q'] by (cases q) auto
  next
    case (Some w0)
    obtain prev v1 where v1: "enter_vm (sc_token (sw_scope ?w n)) (with_world w0 v) = (prev, v1)" by fastforce
    obtain out v2 where b: "bp n v1 = (out, v2)" by fastforce
    have "world_of v1 = w0" using v1 by (auto simp: enter_vm_def world_of_def with_world_def Let_def split: prod.splits)
    then obtain as where as: "world_of v2 = fold exec_code as w0" using acts [of v1 n] b by (auto simp: by_acts_def)
    have v3: "world_of (leave_vm prev v2) = fold exec_code as w0" using as by (simp add: leave_vm_def world_of_def)
    show ?thesis
    proof (cases out)
      case None
      have "s = None" "world_of v' = fut_drop n (set_state n InBody (leave_scope (sw_current ?w) (fold exec_code as w0)))"
        using p v1 b None by (auto simp: root_resume_def Some Let_def v3)
      then show ?thesis using root_panic_ok [OF ok r Some] by simp
    next
      case (Some r0)
      obtain q w1 where q: "?run (\<lambda>_. (r0, fold exec_code as w0)) n ?w = (q, w1)" by fastforce
      then have q': "?run (code_body r0 as) n ?w = (q, w1)"
        using body_world_Some [OF \<open>body_world n ?w = Some w0\<close>, of "code_body r0 as"] by (simp add: run_root_poll_def code_body_def)
      have e: "s = Some q" "f = (case q of Pending \<Rightarrow> RootRun n | Ready x \<Rightarrow> RootOver)" "world_of v' = w1"
        using p q v1 b Some by (auto simp: root_resume_def \<open>body_world n ?w = Some w0\<close> Let_def v3)
      have "returns bp n res" if "r0 = Ready res" for res
        using b Some that unfolding returns_def by (metis fst_conv)
      from run_root_ok [OF ok r this q'] show ?thesis unfolding e by (cases q) auto
    qed
  qed
  then show "world_ok (world_of v')" "lasting ?w (world_of v')" "only n ?w (world_of v')" "root_ok bp t n (world_of v')"
    "s = Some Pending \<Longrightarrow> f = RootRun n"
    "s = Some (Ready x) \<Longrightarrow> \<exists>out. map_option rf_state (sw_fut (world_of v') n) = Some (Ended out) \<and>
      x = root_result (from_lua_error E) (unwrap_root (lu_show E)) (token_cancelled (world_of v') t) out"
    by blast+
qed

section \<open>A poll of a coroutine request\<close>

text \<open>What the first poll does before the request has a scope; a later one finds its scope.\<close>

definition co_scope ::
  "(mlua_error + lua_value list, 'v) scope_world lua_env \<Rightarrow> (nat \<Rightarrow> lua_value list \<Rightarrow> 'v root_vm \<Rightarrow> mlua_error option) \<Rightarrow>
    nat \<Rightarrow> nat \<Rightarrow> lua_value list \<Rightarrow> 'v root_vm \<Rightarrow> (isle_error + nat) \<times> 'v root_vm" where
  "co_scope E lb t func args v =
    (case of_or_attach E v of (Inl e, v1) \<Rightarrow> (Inl e, v1) | (Inr u, v1) \<Rightarrow> root_setup E lb t func args v1)"

definition co_scope_args ::
  "(mlua_error + lua_value list, 'v) scope_world lua_env \<Rightarrow> (nat \<Rightarrow> lua_value list \<Rightarrow> 'v root_vm \<Rightarrow> mlua_error option) \<Rightarrow>
    ((mlua_error + lua_value list, 'v) scope_world, 'a, lua_value list) conversion \<Rightarrow> nat \<Rightarrow> nat \<Rightarrow> 'a \<Rightarrow> 'v root_vm \<Rightarrow>
    (isle_error + nat) \<times> 'v root_vm" where
  "co_scope_args E lb from_a t func args v =
    (case from_a args v of (Inl e, v1) \<Rightarrow> (Inl (from_lua_error E e), v1) | (Inr multi, v1) \<Rightarrow> co_scope E lb t func multi v1)"

fun co_setup ::
  "(mlua_error + lua_value list, 'v) scope_world lua_env \<Rightarrow> (nat \<Rightarrow> lua_value list \<Rightarrow> 'v root_vm \<Rightarrow> mlua_error option) \<Rightarrow>
    ((mlua_error + lua_value list, 'v) scope_world, 'a, lua_value list) conversion \<Rightarrow> nat \<Rightarrow> ('a, root_future) co_call \<Rightarrow>
    'v root_vm \<Rightarrow> (isle_error + nat) \<times> 'v root_vm" where
  "co_setup E lb from_a t (CoEval code) v =
    (case lu_load E ''=coroutine_eval'' code of
       Inl e \<Rightarrow> (Inl (from_lua_error E e), v) | Inr func \<Rightarrow> co_scope E lb t func [] v)"
| "co_setup E lb from_a t (CoCall name args) v =
    (case global_function E name v of
       (Inl e, v1) \<Rightarrow> (Inl e, v1) | (Inr func, v1) \<Rightarrow> co_scope_args E lb from_a t func args v1)"
| "co_setup E lb from_a t (CoCallFn key args) v =
    (case lu_registry E key of
       Inl e \<Rightarrow> (Inl (from_lua_error E e), v) | Inr func \<Rightarrow> co_scope_args E lb from_a t func args v)"
| "co_setup E lb from_a t (CoRun f) v = (Inr (case f of RootRun n \<Rightarrow> n | _ \<Rightarrow> 0), v)"

text \<open>The calls a request can be: not begun, or with a scope.\<close>

fun call_live :: "('a, root_future) co_call \<Rightarrow> bool" where
  "call_live (CoRun (RootRun n)) = True"
| "call_live (CoRun f) = False"
| "call_live _ = True"

definition co_finish ::
  "'u lua_env \<Rightarrow> ('u, lua_value list, 'b) conversion \<Rightarrow> nat \<Rightarrow> isle_error + lua_value list \<Rightarrow> 'u isle_vm \<Rightarrow>
    (isle_error + 'b) \<times> 'u isle_vm" where
  "co_finish E to_t t r1 v = (case r1 of Inl e \<Rightarrow> (Inl e, v) | Inr values \<Rightarrow> co_convert E to_t t values v)"

lemma co_begin_scope:
  "co_begin E (root_runner E lb bp) to_t t func args v =
    (case co_scope E lb t func args v of
       (Inl e, v1) \<Rightarrow> (CoReady (Inl e), v1)
     | (Inr n, v1) \<Rightarrow> co_resume E (root_runner E lb bp) to_t t (RootRun n) v1)"
  by (auto simp: co_begin_def co_scope_def vm_run_def root_runner_def co_resume_def split: prod.split sum.split)

lemma coroutine_step_setup:
  assumes "call_live call"
  shows "coroutine_step E (root_runner E lb bp) from_a to_t t call v =
    (case co_setup E lb from_a t call v of
       (Inl e, v1) \<Rightarrow> (CoReady (Inl e), v1)
     | (Inr n, v1) \<Rightarrow> co_resume E (root_runner E lb bp) to_t t (RootRun n) v1)"
proof (cases call)
  case (CoRun f)
  then show ?thesis using assms by (cases f) (simp_all add: coroutine_step_def)
qed (auto simp: coroutine_step_def co_begin_scope co_with_args_def co_scope_args_def split: prod.split sum.split)

lemma co_resume_root:
  "co_resume E (root_runner E lb bp) to_t t (RootRun n) v =
    (case root_resume E bp n v of
       ((None, f), v1) \<Rightarrow> (CoPanic, v1)
     | ((Some Pending, f), v1) \<Rightarrow> (CoPending (CoRun f), v1)
     | ((Some (Ready r1), f), v1) \<Rightarrow> (case co_finish E to_t t r1 v1 of (r, v2) \<Rightarrow> (CoReady r, v2)))"
  by (auto simp: co_resume_def root_runner_def co_finish_def split: prod.split sum.split option.split poll.split)

text \<open>The code that runs on the VM: Lua's lookup of globals, conversions, and the coroutines.\<close>

definition code_by_acts ::
  "(mlua_error + lua_value list, 'v) scope_world lua_env \<Rightarrow> ((mlua_error + lua_value list, 'v) scope_world, 'a, lua_value list) conversion \<Rightarrow>
    ((mlua_error + lua_value list, 'v) scope_world, lua_value list, 'b) conversion \<Rightarrow>
    (nat \<Rightarrow> 'v root_vm \<Rightarrow> (mlua_error + lua_value list) poll option \<times> 'v root_vm) \<Rightarrow> bool" where
  "code_by_acts E from_a to_t bp \<longleftrightarrow>
    (\<forall>name v. by_acts v (snd (lu_global E name v))) \<and> (\<forall>args v. by_acts v (snd (from_a args v))) \<and>
    (\<forall>vs v. by_acts v (snd (to_t vs v))) \<and> (\<forall>n v. by_acts v (snd (bp n v)))"

lemma code_by_actsD:
  assumes "code_by_acts E from_a to_t bp"
  shows "by_acts v (snd (lu_global E name v))" and "by_acts v (snd (from_a args v))"
    and "by_acts v (snd (to_t vs v))" and "by_acts v (snd (bp n v))"
  using assms unfolding code_by_acts_def by blast+

lemma world_of_attach: "world_of (snd (of_or_attach E v)) = world_of v"
  by (auto simp: of_or_attach_def attach_after_init_def vm_attach_def vm_protect_def vm_hook_def vm_set_config_def world_of_def
      Let_def split: prod.split sum.split option.split)

lemma keeps_root_new: "keeps w (snd (root_new t g w))"
  using root_new_ok [of w t g] lasting.R_root [of w t g] unfolding keeps_def by (simp add: root_new_def Let_def)

lemma root_new_root_ok:
  assumes "t < th_fresh (sw_heap w)" and "root_new t g w = (n, w')"
  shows "keeps w w' \<and> root_ok bp t n w'"
proof -
  have w': "w' = snd (root_new t g w)" "n = sw_fresh w" using assms(2) by (auto simp: root_new_def Let_def)
  have "root_ok bp t n w'"
    using assms(1) by (simp add: w' root_ok_def root_new_def Let_def scope_new_def has_origin_def)
  then show ?thesis using keeps_root_new [of w t g] by (simp add: w')
qed

lemma root_setup_ok:
  assumes t: "t < th_fresh (sw_heap (world_of v))" and s: "root_setup E lb t func args v = (r, v')"
  shows "keeps (world_of v) (world_of v')" and "r = Inr n \<Longrightarrow> root_ok bp t n (world_of v')"
proof -
  obtain q hub where h: "ensure_installed (from_lua_error E) (lu_set_hook E v) (lu_raw_hook E v) (iv_hub v) = (q, hub)" by fastforce
  obtain q2 v2 where p: "vm_protect E (v\<lparr>iv_hub := hub\<rparr>) = (q2, v2)" by fastforce
  have w: "world_of v2 = world_of v" "world_of (v\<lparr>iv_hub := hub\<rparr>) = world_of v"
    using p by (auto simp: vm_protect_def world_of_def Let_def split_beta)
  have "world_of v' = world_of v \<and> isl r \<or> (\<exists>n g. r = Inr n \<and> (n, world_of v') = root_new t g (world_of v))"
    using s h p w by (auto simp: root_setup_def Let_def split_beta split: sum.splits option.splits)
  then have "keeps (world_of v) (world_of v') \<and> (r = Inr n \<longrightarrow> root_ok bp t n (world_of v'))"
  proof
    assume "\<exists>m g. r = Inr m \<and> (m, world_of v') = root_new t g (world_of v)"
    then obtain m g where m: "r = Inr m" "root_new t g (world_of v) = (m, world_of v')" by metis
    from root_new_root_ok [OF t m(2), of bp] m(1) show ?thesis by auto
  qed auto
  then show "keeps (world_of v) (world_of v')" "r = Inr n \<Longrightarrow> root_ok bp t n (world_of v')" by blast+
qed

lemma co_scope_ok:
  assumes t: "t < th_fresh (sw_heap (world_of v))" and c: "co_scope E lb t func args v = (r, v')"
  shows "keeps (world_of v) (world_of v')" and "r = Inr n \<Longrightarrow> root_ok bp t n (world_of v')"
proof -
  obtain q v1 where q: "of_or_attach E v = (q, v1)" by fastforce
  then have w: "world_of v1 = world_of v" using world_of_attach [of E v] by simp
  have "keeps (world_of v) (world_of v') \<and> (r = Inr n \<longrightarrow> root_ok bp t n (world_of v'))"
  proof (cases q)
    case (Inl e)
    then have "r = Inl e" "v' = v1" using c q by (simp_all add: co_scope_def)
    then show ?thesis by (simp add: w)
  next
    case (Inr u)
    then have s: "root_setup E lb t func args v1 = (r, v')" using c q by (simp add: co_scope_def)
    have "t < th_fresh (sw_heap (world_of v1))" unfolding w by (rule t)
    from root_setup_ok [OF this s] show ?thesis unfolding w by blast
  qed
  then show "keeps (world_of v) (world_of v')" "r = Inr n \<Longrightarrow> root_ok bp t n (world_of v')" by blast+
qed

lemma co_scope_args_ok:
  assumes code: "code_by_acts E from_a to_t bp" and t: "t < th_fresh (sw_heap (world_of v))"
    and c: "co_scope_args E lb from_a t func args v = (r, v')"
  shows "keeps (world_of v) (world_of v')" and "r = Inr n \<Longrightarrow> root_ok bp t n (world_of v')"
proof -
  obtain q v1 where q: "from_a args v = (q, v1)" by fastforce
  then have k: "keeps (world_of v) (world_of v1)" using by_acts_keeps [OF code_by_actsD(2) [OF code, of v args]] by simp
  then have t1: "t < th_fresh (sw_heap (world_of v1))" using lastingD(1) [OF keepsD(1)] t by (meson less_le_trans)
  have "keeps (world_of v) (world_of v') \<and> (r = Inr n \<longrightarrow> root_ok bp t n (world_of v'))"
  proof (cases q)
    case (Inl e)
    then show ?thesis using c q k by (auto simp: co_scope_args_def)
  next
    case (Inr multi)
    then have "co_scope E lb t func multi v1 = (r, v')" using c q by (simp add: co_scope_args_def)
    from co_scope_ok [OF t1 this] show ?thesis using keeps_trans [OF k] by blast
  qed
  then show "keeps (world_of v) (world_of v')" "r = Inr n \<Longrightarrow> root_ok bp t n (world_of v')" by blast+
qed

text \<open>What is known of a request between its polls.\<close>

definition call_ok ::
  "(nat \<Rightarrow> 'w \<Rightarrow> 'o poll option \<times> 'w) \<Rightarrow> nat \<Rightarrow> ('a, root_future) co_call \<Rightarrow> ('o, 'v) scope_world \<Rightarrow> bool" where
  "call_ok bp t call w \<longleftrightarrow> call_live call \<and> t < th_fresh (sw_heap w) \<and>
    (case call of CoRun (RootRun n) \<Rightarrow> root_ok bp t n w | _ \<Rightarrow> True)"

lemma co_setup_ok:
  assumes code: "code_by_acts E from_a to_t bp" and c: "call_ok bp t call (world_of v)"
    and s: "co_setup E lb from_a t call v = (r, v')"
  shows "keeps (world_of v) (world_of v')" and "r = Inr n \<Longrightarrow> root_ok bp t n (world_of v')"
proof -
  have t: "t < th_fresh (sw_heap (world_of v))" using c unfolding call_ok_def by blast
  have "keeps (world_of v) (world_of v') \<and> (r = Inr n \<longrightarrow> root_ok bp t n (world_of v'))"
  proof (cases call)
    case (CoEval x)
    then show ?thesis using s co_scope_ok [OF t] by (auto split: sum.splits)
  next
    case (CoCall name args)
    obtain q v1 where q: "global_function E name v = (q, v1)" by fastforce
    have k: "keeps (world_of v) (world_of v1)"
      using q by_acts_keeps [OF code_by_actsD(1) [OF code, of v name]] by (auto simp: global_function_def Let_def split_beta)
    then have t1: "t < th_fresh (sw_heap (world_of v1))" using lastingD(1) [OF keepsD(1)] t by (meson less_le_trans)
    show ?thesis
    proof (cases q)
      case (Inr func)
      then have "co_scope_args E lb from_a t func args v1 = (r, v')" using s q CoCall by simp
      from co_scope_args_ok [OF code t1 this] show ?thesis using keeps_trans [OF k] by blast
    qed (use s q CoCall k in auto)
  next
    case (CoCallFn key args)
    then show ?thesis using s co_scope_args_ok [OF code t] by (auto split: sum.splits)
  next
    case (CoRun f)
    then show ?thesis using c s by (cases f) (auto simp: call_ok_def)
  qed
  then show "keeps (world_of v) (world_of v')" "r = Inr n \<Longrightarrow> root_ok bp t n (world_of v')" by blast+
qed

lemma co_finish_keeps:
  assumes "code_by_acts E from_a to_t bp"
  shows "keeps (world_of v) (world_of (snd (co_finish E to_t t r1 v)))"
proof -
  have "keeps (world_of v) (world_of (snd (co_convert E to_t t xs v)))" for xs
  proof -
    obtain prev v1 where e: "enter_vm t v = (prev, v1)" by fastforce
    have "world_of v1 = world_of v" using e by (auto simp: enter_vm_def world_of_def Let_def split_beta)
    moreover have "keeps (world_of v1) (world_of (snd (to_t xs v1)))"
      by (rule by_acts_keeps [OF code_by_actsD(3) [OF assms]])
    moreover have "world_of (leave_vm prev u) = world_of u" for u :: "'a root_vm" by (simp add: leave_vm_def world_of_def)
    ultimately show ?thesis by (simp add: co_convert_def e split_beta Let_def)
  qed
  then show ?thesis by (simp add: co_finish_def split: sum.split)
qed

text \<open>The requests other than the one that is polled stay as they are.\<close>

definition roots_kept ::
  "(nat \<Rightarrow> 'w \<Rightarrow> 'o poll option \<times> 'w) \<Rightarrow> ('o, 'v) scope_world \<Rightarrow> ('o, 'v) scope_world \<Rightarrow> bool" where
  "roots_kept bp w w' \<longleftrightarrow> world_ok w' \<and> lasting w w' \<and> (\<forall>t n. root_ok bp t n w \<longrightarrow> root_ok bp t n w')"

lemma roots_keptD:
  assumes "roots_kept bp w w'"
  shows "world_ok w'" and "lasting w w'" and "root_ok bp t n w \<Longrightarrow> root_ok bp t n w'"
  using assms unfolding roots_kept_def by blast+

lemma roots_kept_trans: "roots_kept bp a b \<Longrightarrow> roots_kept bp b c \<Longrightarrow> roots_kept bp a c"
  unfolding roots_kept_def using lasting_trans by blast

lemma roots_kept_keeps: "world_ok w \<Longrightarrow> keeps w w' \<Longrightarrow> roots_kept bp w w'"
  unfolding roots_kept_def using keepsD(1,2) root_ok_keeps by blast

lemma roots_kept_only:
  assumes "world_ok w'" and "lasting w w'" and "only n w w'" and "root_ok bp t n w \<Longrightarrow> root_ok bp t n w'" and "root_ok bp t n w"
  shows "roots_kept bp w w'"
proof -
  have "root_ok bp u m w'" if r: "root_ok bp u m w" for u m
  proof (cases "m = n")
    case True
    then have "u = t" using root_okD(3) [OF r] root_okD(3) [OF assms(5)] by simp
    then show ?thesis using assms(4,5) True by simp
  next
    case False
    then show ?thesis using root_ok_frame [OF r assms(2)] onlyD(2) [OF assms(3)] root_okD(2) [OF r] by simp
  qed
  then show ?thesis using assms(1,2) unfolding roots_kept_def by blast
qed

lemma call_ok_kept:
  assumes "call_ok bp t call w" and "roots_kept bp w w'"
  shows "call_ok bp t call w'"
proof -
  have "t < th_fresh (sw_heap w')"
    using assms(1) lastingD(1) [OF roots_keptD(2) [OF assms(2)]] unfolding call_ok_def by simp
  then show ?thesis using assms(1) roots_keptD(3) [OF assms(2)]
    unfolding call_ok_def by (auto split: co_call.split root_future.split)
qed

lemma co_step_ok:
  assumes code: "code_by_acts E from_a to_t bp" and ok: "world_ok (world_of v)" and c: "call_ok bp t call (world_of v)"
    and p: "coroutine_step E (root_runner E lb bp) from_a to_t t call v = (out, v')"
  shows "roots_kept bp (world_of v) (world_of v')" and "out = CoPending call' \<Longrightarrow> call_ok bp t call' (world_of v')"
    and "out = CoReady r \<Longrightarrow>
      (\<exists>e v1. co_setup E lb from_a t call v = (Inl e, v1) \<and> r = Inl e) \<or>
      (\<exists>n v1 r1 f v2 res. co_setup E lb from_a t call v = (Inr n, v1) \<and>
        root_resume E bp n v1 = ((Some (Ready r1), f), v2) \<and> world_ok (world_of v2) \<and> root_ok bp t n (world_of v2) \<and>
        lasting (world_of v) (world_of v2) \<and> map_option rf_state (sw_fut (world_of v2) n) = Some (Ended res) \<and>
        r1 = root_result (from_lua_error E) (unwrap_root (lu_show E)) (token_cancelled (world_of v2) t) res \<and>
        co_finish E to_t t r1 v2 = (r, v'))"
proof -
  have live: "call_live call" using c unfolding call_ok_def by blast
  obtain q v1 where s: "co_setup E lb from_a t call v = (q, v1)" by fastforce
  note S = co_setup_ok [OF code c s]
  have k1: "roots_kept bp (world_of v) (world_of v1)" by (rule roots_kept_keeps [OF ok S(1)])
  have "roots_kept bp (world_of v) (world_of v') \<and> (\<forall>call'. out = CoPending call' \<longrightarrow> call_ok bp t call' (world_of v')) \<and>
    (\<forall>r. out = CoReady r \<longrightarrow> (\<exists>e. q = Inl e \<and> r = Inl e) \<or>
      (\<exists>n r1 f v2 res. q = Inr n \<and> root_resume E bp n v1 = ((Some (Ready r1), f), v2) \<and> world_ok (world_of v2) \<and>
        root_ok bp t n (world_of v2) \<and> lasting (world_of v) (world_of v2) \<and>
        map_option rf_state (sw_fut (world_of v2) n) = Some (Ended res) \<and>
        r1 = root_result (from_lua_error E) (unwrap_root (lu_show E)) (token_cancelled (world_of v2) t) res \<and>
        co_finish E to_t t r1 v2 = (r, v')))"
  proof (cases q)
    case (Inl e)
    then have "out = CoReady (Inl e)" "v' = v1" using p s by (simp_all add: coroutine_step_setup [OF live])
    then show ?thesis using k1 Inl by simp
  next
    case (Inr n)
    have r: "root_ok bp t n (world_of v1)" by (rule S(2) [OF Inr])
    obtain st f v2 where u: "root_resume E bp n v1 = ((st, f), v2)" by (metis surj_pair)
    note R = root_resume_ok [OF code_by_actsD(4) [OF code] roots_keptD(1) [OF k1] r u]
    have k2: "roots_kept bp (world_of v) (world_of v2)"
      by (rule roots_kept_trans [OF k1 roots_kept_only [OF R(1,2,3) _ r]]) (rule R(4))
    have p2: "co_resume E (root_runner E lb bp) to_t t (RootRun n) v1 = (out, v')"
      using p s Inr by (simp add: coroutine_step_setup [OF live])
    consider "st = None" | "st = Some Pending" | r1 where "st = Some (Ready r1)" by (cases st; cases "the st") auto
    then show ?thesis
    proof cases
      case 1
      then have "out = CoPanic" "v' = v2" using p2 u by (simp_all add: co_resume_root)
      then show ?thesis using k2 by simp
    next
      case 2
      then have e: "out = CoPending (CoRun (RootRun n))" "v' = v2" using p2 u R(5) by (simp_all add: co_resume_root)
      have "call_ok bp t (CoRun (RootRun n)) (world_of v2)" using R(4) root_okD(4) [OF R(4)] by (simp add: call_ok_def)
      then show ?thesis using k2 e by simp
    next
      case 3
      obtain r0 v3 where f: "co_finish E to_t t r1 v2 = (r0, v3)" by fastforce
      have e: "out = CoReady r0" "v' = v3" using p2 u f 3 by (simp_all add: co_resume_root)
      have "keeps (world_of v2) (world_of v3)" using co_finish_keeps [OF code, of v2 t r1] f by simp
      then have "roots_kept bp (world_of v) (world_of v3)"
        by (rule roots_kept_trans [OF k2 roots_kept_keeps [OF R(1)]])
      then show ?thesis using e f u 3 Inr R(1,4) R(6) [OF 3] roots_keptD(2) [OF k2] by auto
    qed
  qed
  then show "roots_kept bp (world_of v) (world_of v')" "out = CoPending call' \<Longrightarrow> call_ok bp t call' (world_of v')"
    "out = CoReady r \<Longrightarrow>
      (\<exists>e v1. co_setup E lb from_a t call v = (Inl e, v1) \<and> r = Inl e) \<or>
      (\<exists>n v1 r1 f v2 res. co_setup E lb from_a t call v = (Inr n, v1) \<and>
        root_resume E bp n v1 = ((Some (Ready r1), f), v2) \<and> world_ok (world_of v2) \<and> root_ok bp t n (world_of v2) \<and>
        lasting (world_of v) (world_of v2) \<and> map_option rf_state (sw_fut (world_of v2) n) = Some (Ended res) \<and>
        r1 = root_result (from_lua_error E) (unwrap_root (lu_show E)) (token_cancelled (world_of v2) t) res \<and>
        co_finish E to_t t r1 v2 = (r, v'))"
    unfolding s by auto
qed

section \<open>Code that works through the library\<close>

lemma by_acts_world: "world_of v' = world_of v \<Longrightarrow> by_acts v v'"
  unfolding by_acts_def by (rule exI [of _ "[]"]) simp

lemma by_acts_trans: "by_acts a b \<Longrightarrow> by_acts b c \<Longrightarrow> by_acts a c"
proof -
  assume "by_acts a b" "by_acts b c"
  then obtain xs ys where "world_of b = fold exec_code xs (world_of a)" "world_of c = fold exec_code ys (world_of b)"
    unfolding by_acts_def by blast
  then have "world_of c = fold exec_code (xs @ ys) (world_of a)" by simp
  then show "by_acts a c" unfolding by_acts_def by blast
qed

lemma by_acts_under:
  assumes body: "\<And>v. by_acts v (snd (body v))"
  shows "by_acts v (snd (under_token E t body v))"
proof -
  obtain q v1 where q: "ensure_attached E v = (q, v1)" by fastforce
  have w: "world_of v1 = world_of v"
    using q by (auto simp: ensure_attached_def attach_after_init_def vm_attach_def vm_protect_def vm_hook_def vm_set_config_def
        world_of_def Let_def split_beta split: if_splits sum.splits)
  obtain prev v2 where e: "enter_vm t v1 = (prev, v2)" by fastforce
  then have "by_acts v v2" using w by (intro by_acts_world) (auto simp: enter_vm_def world_of_def Let_def split_beta)
  moreover have "by_acts (snd (body v2)) (leave_vm prev (snd (body v2)))"
    by (rule by_acts_world) (simp add: leave_vm_def world_of_def)
  ultimately have "by_acts v (leave_vm prev (snd (body v2)))" using body by_acts_trans by blast
  then show ?thesis using q e w by (auto simp: under_token_def split_beta Let_def intro: by_acts_world split: sum.split)
qed

lemma by_acts_finish:
  assumes to_t: "\<And>vs v. by_acts v (snd (to_t vs v))"
  shows "by_acts v (snd (finish_sync E to_t t r v))"
  using to_t [of v] by (auto simp: finish_sync_def split_beta Let_def intro: by_acts_world split: sum.split)

lemma by_acts_call:
  assumes xp: "\<And>f args v. by_acts v (snd (lu_xpcall E f args v))"
  shows "by_acts v (snd (vm_call E f args v))"
proof -
  obtain q v1 where q: "vm_protect E v = (q, v1)" by fastforce
  then have p: "by_acts v v1" by (intro by_acts_world) (auto simp: vm_protect_def world_of_def Let_def split_beta)
  have "by_acts (snd (lu_xpcall E f args v1)) ((snd (lu_xpcall E f args v1))\<lparr>iv_protect := p\<rparr>)" for p
    by (rule by_acts_world) (simp add: world_of_def)
  then have "by_acts v ((snd (lu_xpcall E f args v1))\<lparr>iv_protect := p\<rparr>)" for p using xp p by_acts_trans by blast
  then show ?thesis using q p by (cases q) (simp_all add: vm_call_def split_beta Let_def)
qed

text \<open>The sync requests of the API are such code, when Lua and the conversions are.\<close>

lemma eval_by_acts:
  assumes xp: "\<And>f args v. by_acts v (snd (lu_xpcall E f args v))" and to_t: "\<And>vs v. by_acts v (snd (to_t vs v))"
  shows "by_acts v (snd (execute_eval E to_t code t v))"
proof -
  have "by_acts v (snd (case load_eval E code of Inl e \<Rightarrow> finish_sync E to_t t (Inl (from_lua_error E e)) v
      | Inr f \<Rightarrow> let (r, v1) = vm_call E f [] v in finish_sync E to_t t r v1))" for v
    using by_acts_finish [of to_t, OF to_t] by_acts_trans [OF by_acts_call [of E, OF xp] by_acts_finish [of to_t, OF to_t]]
    by (auto simp: split_beta Let_def split: sum.split)
  then show ?thesis unfolding execute_eval_def by (rule by_acts_under)
qed

lemma call_by_acts:
  assumes xp: "\<And>f args v. by_acts v (snd (lu_xpcall E f args v))" and to_t: "\<And>vs v. by_acts v (snd (to_t vs v))"
    and from_a: "\<And>args v. by_acts v (snd (from_a args v))" and global: "\<And>name v. by_acts v (snd (lu_global E name v))"
  shows "by_acts v (snd (execute_call E from_a to_t name args t v))" and "by_acts v (snd (execute_call_fn E from_a to_t key args t v))"
proof -
  have f: "by_acts v (snd (call_function E from_a to_t f args t v))" for f v
  proof -
    obtain q v1 where q: "from_a args v = (q, v1)" by fastforce
    then have "by_acts v v1" using from_a [of v args] by simp
    then show ?thesis using q by_acts_trans [OF _ by_acts_trans [OF by_acts_call [of E, OF xp] by_acts_finish [of to_t, OF to_t]]]
      by (cases q) (auto simp: call_function_def split_beta Let_def)
  qed
  have g: "by_acts v (snd (global_function E name v))" for v using global by (simp add: global_function_def split_beta Let_def)
  have c: "by_acts v (snd (case global_function E name v of (Inl e, v1) \<Rightarrow> (Inl e, v1)
      | (Inr f, v1) \<Rightarrow> call_function E from_a to_t f args t v1))" for v
    using g [of v] by_acts_trans [OF g f] by (auto simp: split_beta split: sum.split)
  show "by_acts v (snd (execute_call E from_a to_t name args t v))"
    unfolding execute_call_def by (rule by_acts_under) (use c in \<open>simp add: split_beta\<close>)
  have k: "by_acts v (snd (case lu_registry E key of Inl e \<Rightarrow> (Inl (from_lua_error E e), v)
      | Inr f \<Rightarrow> call_function E from_a to_t f args t v))" for v
    using f by (auto intro: by_acts_world split: sum.split)
  show "by_acts v (snd (execute_call_fn E from_a to_t key args t v))"
    unfolding execute_call_fn_def by (rule by_acts_under) (rule k)
qed

end
