(* ===== verification/Isle_Coroutines.thy ===== *)
theory Isle_Coroutines
  imports Isle_Coroutine_Steps
begin

text \<open>
  The async actor with the scopes of its VM as one machine: its handles, driver, tasks and thread
  (\<^verbatim>\<open>src/async_isle.rs\<close>), and beside its coroutine requests the futures of the tasks they spawned
  (\<^verbatim>\<open>src/scope.rs\<close>), polled in any order.  Over every history, an answer meets the contract of \<^verbatim>\<open>Vm::run\<close>.
\<close>

section \<open>The actor with its scopes\<close>

type_synonym ('a, 'v, 'q, 'o) root_actor = "('v root_vm, nat \<times> ('a, root_future) co_call, 'q, 'o) async_actor"

definition actor_world :: "('a, 'v, 'q, 'o) root_actor \<Rightarrow> (mlua_error + lua_value list, 'v) scope_world" where
  "actor_world a = (iv_user (aa_vm a))\<lparr>sw_heap := aa_heap a\<rparr>"

definition with_actor_world ::
  "(mlua_error + lua_value list, 'v) scope_world \<Rightarrow> ('a, 'v, 'q, 'o) root_actor \<Rightarrow> ('a, 'v, 'q, 'o) root_actor" where
  "with_actor_world w a = a\<lparr>aa_vm := with_world w (aa_vm a), aa_heap := sw_heap w\<rparr>"

text \<open>A step is one of the actor, or one of the scopes; only the actor polls the scope of a request it holds.\<close>

definition held :: "('a, 'v, 'q, 'o) root_actor \<Rightarrow> nat \<Rightarrow> bool" where
  "held a n \<longleftrightarrow> list_ex (\<lambda>(k, t, call). case call of CoRun (RootRun m) \<Rightarrow> m = n | _ \<Rightarrow> False) (aa_local a)"

fun polled :: "('o, 'v) Isle_Scope_Sys.sop \<Rightarrow> nat option" where
  "polled (PollFut n acts out) = Some n"
| "polled (DropFut n) = Some n"
| "polled _ = None"

datatype ('v, 'r, 'c) isle_op =
    IsleOp "('v root_vm, 'r, 'c) Isle_Async_Props.sop"
  | ScopeOp "(mlua_error + lua_value list, 'v) Isle_Scope_Sys.sop"

fun isle_exec ::
  "('v root_vm, isle_error + 'b, nat \<times> ('a, root_future) co_call, 'q, 'o) async_env \<Rightarrow>
    ('v, isle_error + 'b, nat \<times> ('a, root_future) co_call) isle_op \<Rightarrow> ('a, 'v, 'q, 'o) root_actor \<Rightarrow> ('a, 'v, 'q, 'o) root_actor"
where
  "isle_exec env (IsleOp op) a = sop_exec env op a"
| "isle_exec env (ScopeOp x) a =
    (if (case polled x of None \<Rightarrow> False | Some n \<Rightarrow> held a n) then a
     else with_actor_world (scope_exec x (actor_world a)) a)"

definition isle_run ::
  "('v root_vm, isle_error + 'b, nat \<times> ('a, root_future) co_call, 'q, 'o) async_env \<Rightarrow>
    ('v, isle_error + 'b, nat \<times> ('a, root_future) co_call) isle_op list \<Rightarrow> ('a, 'v, 'q, 'o) root_actor \<Rightarrow> ('a, 'v, 'q, 'o) root_actor"
where
  "isle_run env ops a = fold (isle_exec env) ops a"

text \<open>The jobs of the API: a sync request runs code on the VM, a coroutine request starts without a scope.\<close>

fun job_ok :: "('v root_vm, 'r, nat \<times> ('a, root_future) co_call) async_job \<Rightarrow> bool" where
  "job_ok (SyncJob run) \<longleftrightarrow>
    (\<forall>t h v. by_acts (v\<lparr>iv_heap := h\<rparr>) ((snd (snd (run t h v)))\<lparr>iv_heap := fst (snd (run t h v))\<rparr>))"
| "job_ok (CoroutineJob mk) \<longleftrightarrow> (\<exists>call. mk = (\<lambda>t. (t, call)) \<and> (\<forall>f. call \<noteq> CoRun f))"

fun op_ok :: "('v, 'r, nat \<times> ('a, root_future) co_call) isle_op \<Rightarrow> bool" where
  "op_ok (IsleOp (SubmitJob job)) = job_ok job"
| "op_ok (IsleOp (SubmitFn isle func job)) = (\<forall>key. job_ok (job key))"
| "op_ok _ = True"

fun queued_ok :: "token_heap \<Rightarrow> ('v root_vm, 'r, nat \<times> ('a, root_future) co_call) async_request \<Rightarrow> bool" where
  "queued_ok h (AsyncRun k job t) = (t < th_fresh h \<and> job_ok job)"
| "queued_ok h AsyncShutdown = True"

definition isle_ok ::
  "(nat \<Rightarrow> 'v root_vm \<Rightarrow> (mlua_error + lua_value list) poll option \<times> 'v root_vm) \<Rightarrow>
    ('q \<Rightarrow> ('v root_vm, 'r, nat \<times> ('a, root_future) co_call) async_request list) \<Rightarrow> ('a, 'v, 'q, 'o) root_actor \<Rightarrow> bool" where
  "isle_ok bp items a \<longleftrightarrow>
    world_ok (actor_world a) \<and> (\<forall>(k, t, call) \<in> set (aa_local a). call_ok bp t call (actor_world a)) \<and>
    (\<forall>rq \<in> set (items (aa_chan a)). queued_ok (aa_heap a) rq)"

lemma job_ok_coroutine:
  assumes "\<And>f. call \<noteq> CoRun f"
  shows "job_ok (coroutine_job call)"
  unfolding coroutine_job_def job_ok.simps using assms by blast

lemma job_ok_vm:
  assumes "\<And>t v. by_acts v (snd (body t v))"
  shows "job_ok (SyncJob (vm_job body))"
proof -
  have "v\<lparr>iv_heap := iv_heap v\<rparr> = v" for v :: "'a root_vm" by simp
  then show ?thesis using assms by (simp add: vm_job_def split_beta Let_def)
qed

text \<open>So the requests of the API are such jobs, when Lua and the conversions work through the library.\<close>

lemma api_jobs_ok:
  assumes xp: "\<And>f args v. by_acts v (snd (lu_xpcall E f args v))" and code: "code_by_acts E from_a to_t bp"
  shows "job_ok (SyncJob (eval_job E to_t txt))" and "job_ok (SyncJob (call_job E from_a to_t name args))"
    and "job_ok (call_fn_job E from_a to_t args key)"
  unfolding eval_job_def call_job_def call_fn_job_def
  using eval_by_acts [of E to_t, OF xp code_by_actsD(3) [OF code]]
    call_by_acts [of E to_t from_a, OF xp code_by_actsD(3,2,1) [OF code]]
  by (auto intro!: job_ok_vm simp: split_beta Let_def simp del: job_ok.simps)

lemma isle_okD:
  assumes "isle_ok bp items a"
  shows "world_ok (actor_world a)" and "(k, t, call) \<in> set (aa_local a) \<Longrightarrow> call_ok bp t call (actor_world a)"
    and "rq \<in> set (items (aa_chan a)) \<Longrightarrow> queued_ok (aa_heap a) rq"
  using assms unfolding isle_ok_def by blast+

lemma actor_world_heap [simp]: "sw_heap (actor_world a) = aa_heap a"
  by (simp add: actor_world_def)

lemma queued_ok_kept: "queued_ok h rq \<Longrightarrow> th_fresh h \<le> th_fresh h' \<Longrightarrow> queued_ok h' rq"
  by (cases rq) auto

text \<open>A step that keeps the roots: new requests are those that were there, or are known to be good.\<close>

lemma isle_okI:
  assumes ok: "isle_ok bp items a" and w: "world_ok (actor_world b)" "lasting (actor_world a) (actor_world b)"
    and loc: "\<And>j t call. (j, t, call) \<in> set (aa_local b) \<Longrightarrow> call_ok bp t call (actor_world b)"
    and chan: "\<And>rq. rq \<in> set (items (aa_chan b)) \<Longrightarrow> rq \<in> set (items (aa_chan a)) \<or> queued_ok (aa_heap b) rq"
  shows "isle_ok bp items b \<and> lasting (actor_world a) (actor_world b)"
proof -
  have "th_fresh (aa_heap a) \<le> th_fresh (aa_heap b)" using lastingD(1) [OF w(2)] by simp
  then have "queued_ok (aa_heap b) rq" if "rq \<in> set (items (aa_chan b))" for rq
    using chan [OF that] isle_okD(3) [OF ok] queued_ok_kept by blast
  then show ?thesis using w loc unfolding isle_ok_def by auto
qed

lemma isle_ok_step:
  assumes ok: "isle_ok bp items a" and k: "roots_kept bp (actor_world a) (actor_world b)"
    and loc: "\<And>j t call. (j, t, call) \<in> set (aa_local b) \<Longrightarrow>
      (j, t, call) \<in> set (aa_local a) \<or> call_ok bp t call (actor_world b)"
    and chan: "\<And>rq. rq \<in> set (items (aa_chan b)) \<Longrightarrow> rq \<in> set (items (aa_chan a)) \<or> queued_ok (aa_heap b) rq"
  shows "isle_ok bp items b \<and> lasting (actor_world a) (actor_world b)"
proof (rule isle_okI [OF ok roots_keptD(1,2) [OF k] _ chan])
  show "call_ok bp t call (actor_world b)" if "(j, t, call) \<in> set (aa_local b)" for j t call
    using loc [OF that] isle_okD(2) [OF ok] call_ok_kept [OF _ k] by blast
qed

lemma isle_ok_frame:
  assumes ok: "isle_ok bp items a" and k: "keeps (actor_world a) (actor_world b)" and loc: "set (aa_local b) \<subseteq> set (aa_local a)"
    and chan: "\<And>rq. rq \<in> set (items (aa_chan b)) \<Longrightarrow> rq \<in> set (items (aa_chan a)) \<or> queued_ok (aa_heap b) rq"
  shows "isle_ok bp items b \<and> lasting (actor_world a) (actor_world b)"
  by (rule isle_ok_step [OF ok roots_kept_keeps [OF isle_okD(1) [OF ok] k] _ chan]) (use loc in blast)

lemma actor_world_fields [simp]:
  "actor_world (a\<lparr>aa_chan := q\<rparr>) = actor_world a" "actor_world (a\<lparr>aa_loop := l\<rparr>) = actor_world a"
  "actor_world (a\<lparr>aa_local := xs\<rparr>) = actor_world a" "actor_world (a\<lparr>aa_thread := th\<rparr>) = actor_world a"
  "actor_world (a\<lparr>aa_resp := R\<rparr>) = actor_world a" "actor_world (a\<lparr>aa_fresh := k\<rparr>) = actor_world a"
  "actor_world (a\<lparr>aa_accepted := ks\<rparr>) = actor_world a" "actor_world (a\<lparr>aa_started := ks\<rparr>) = actor_world a"
  "actor_world (a\<lparr>aa_panicked := ks\<rparr>) = actor_world a"
  "actor_world (a\<lparr>aa_heap := h\<rparr>) = (actor_world a)\<lparr>sw_heap := h\<rparr>"
  "actor_world (a\<lparr>aa_heap := h, aa_vm := v\<rparr>) = world_of (v\<lparr>iv_heap := h\<rparr>)"
  "actor_world (put_shot k c a) = actor_world a" "actor_world (send_result env k r a) = actor_world a"
  "actor_world (drop_sender env k a) = actor_world a"
  by (simp_all add: actor_world_def world_of_def put_shot_def send_result_def drop_sender_def)

lemma shot_fields [simp]:
  "aa_chan (put_shot k c a) = aa_chan a" "aa_local (put_shot k c a) = aa_local a" "aa_heap (put_shot k c a) = aa_heap a"
  "aa_chan (send_result env k r a) = aa_chan a" "aa_local (send_result env k r a) = aa_local a"
  "aa_heap (send_result env k r a) = aa_heap a"
  "aa_chan (drop_sender env k a) = aa_chan a" "aa_local (drop_sender env k a) = aa_local a"
  "aa_heap (drop_sender env k a) = aa_heap a"
  by (simp_all add: put_shot_def send_result_def drop_sender_def)

lemma error_task_frame:
  "actor_world (snd (make_error_task env e t a)) = actor_world a" "aa_chan (snd (make_error_task env e t a)) = aa_chan a"
  "aa_local (snd (make_error_task env e t a)) = aa_local a" "aa_heap (snd (make_error_task env e t a)) = aa_heap a"
  by (simp_all add: make_error_task_def new_shot_def)

lemma isle_ok_token_new:
  assumes ok: "isle_ok bp items a" and h: "token_new None (aa_heap a) = (t, h)" and b: "actor_world b = (actor_world a)\<lparr>sw_heap := h\<rparr>"
    and loc: "aa_local b = aa_local a"
    and chan: "\<And>rq. rq \<in> set (items (aa_chan b)) \<Longrightarrow> rq \<in> set (items (aa_chan a)) \<or> queued_ok h rq"
  shows "isle_ok bp items b \<and> lasting (actor_world a) (actor_world b)"
proof (rule isle_ok_frame [OF ok])
  show "keeps (actor_world a) (actor_world b)" using keeps_token_new [of "actor_world a"] h b by simp
  have "aa_heap b = h" using b actor_world_heap [of b] by simp
  then show "rq \<in> set (items (aa_chan a)) \<or> queued_ok (aa_heap b) rq" if "rq \<in> set (items (aa_chan b))" for rq
    using chan [OF that] by simp
qed (simp add: loc)

lemma isle_ok_submit:
  assumes env: "request_chan_ok (ae_chan env) items gone" and ok: "isle_ok bp items a" and job: "job_ok job"
  shows "isle_ok bp items (snd (async_submit env job a)) \<and> lasting (actor_world a) (actor_world (snd (async_submit env job a)))"
proof -
  obtain t h where t: "token_new None (aa_heap a) = (t, h)" by fastforce
  then have th: "t < th_fresh h" by (auto simp: token_new_def)
  obtain k b where k: "new_shot env (a\<lparr>aa_heap := h\<rparr>) = (k, b)" by fastforce
  then have b: "aa_chan b = aa_chan a" "aa_local b = aa_local a" "actor_world b = (actor_world a)\<lparr>sw_heap := h\<rparr>"
    by (auto simp: new_shot_def)
  obtain r q where r: "hs_try_send (ae_chan env) (AsyncRun k job t) (aa_chan b) = (r, q)" by fastforce
  note law = chan_try_send [OF env r, unfolded b(1)]
  show ?thesis
  proof (cases r)
    case (Inl e)
    then have "items q = items (aa_chan a)" using law by (auto simp: try_send_law_def split: mpsc_try_send.splits)
    then show ?thesis using t k r b Inl
      by (intro isle_ok_token_new [OF ok t]) (simp_all add: async_submit_def error_task_frame)
  next
    case (Inr u)
    then have "items q = items (aa_chan a) @ [AsyncRun k job t]" using law by (simp add: try_send_law_def)
    then show ?thesis using t k r b Inr th job
      by (intro isle_ok_token_new [OF ok t]) (auto simp: async_submit_def)
  qed
qed

lemma isle_ok_submit_fn:
  assumes env: "request_chan_ok (ae_chan env) items gone" and ok: "isle_ok bp items a" and job: "\<And>key. job_ok (job key)"
  shows "isle_ok bp items (snd (submit_fn env isle func job a)) \<and> lasting (actor_world a) (actor_world (snd (submit_fn env isle func job a)))"
proof (cases "if_isle func = isle")
  case True
  then show ?thesis using isle_ok_submit [OF env ok job] by (simp add: submit_fn_def refuse_foreign_def)
next
  case False
  obtain t h where t: "token_new None (aa_heap a) = (t, h)" by fastforce
  show ?thesis using False t
    by (intro isle_ok_token_new [OF ok t]) (simp_all add: submit_fn_def refuse_foreign_def error_task_frame)
qed

lemma loop_end_frame:
  assumes "request_chan_ok (ae_chan env) items gone"
  shows "actor_world (loop_end env a) = actor_world a" and "aa_local (loop_end env a) = aa_local a"
    and "items (aa_chan (loop_end env a)) = []"
proof -
  obtain d q where d: "rc_drop_rx (ae_chan env) (aa_chan a) = (d, q)" by fastforce
  obtain R where R: "fold (drop_async_request env) d (a\<lparr>aa_chan := q, aa_loop := False\<rparr>) = a\<lparr>aa_chan := q, aa_loop := False, aa_resp := R\<rparr>"
    using drop_requests_frame by blast
  show "actor_world (loop_end env a) = actor_world a" "aa_local (loop_end env a) = aa_local a"
    by (simp_all add: loop_end_def d R)
  show "items (aa_chan (loop_end env a)) = []"
    using chan_ends(2) [OF assms, of "aa_chan a"] by (simp add: loop_end_def d R)
qed

lemma isle_ok_loop_end:
  assumes env: "request_chan_ok (ae_chan env) items gone" and ok: "isle_ok bp items a" and k: "keeps (actor_world a) (actor_world b)"
    and loc: "aa_local b = aa_local a"
  shows "isle_ok bp items (loop_end env b) \<and> lasting (actor_world a) (actor_world (loop_end env b))"
  using isle_ok_frame [OF ok, of "loop_end env b"] k loc loop_end_frame [OF env, of b] by simp

lemma actor_world_vm: "actor_world a = world_of ((aa_vm a)\<lparr>iv_heap := aa_heap a\<rparr>)"
  by (simp add: actor_world_def world_of_def)

lemma isle_ok_loop:
  assumes env: "request_chan_ok (ae_chan env) items gone" and ok: "isle_ok bp items a"
  shows "isle_ok bp items (loop_poll env wk a) \<and> lasting (actor_world a) (actor_world (loop_poll env wk a))"
proof (cases "aa_loop a")
  case True
  obtain r q where r: "hr_recv_poll (ae_chan env) wk (aa_chan a) = (r, q)" by fastforce
  note law = chan_recv_poll [OF env r]
  consider "r = Pending" | "r = Ready None" | "r = Ready (Some AsyncShutdown)"
    | k job t where "r = Ready (Some (AsyncRun k job t))"
    by (cases r; cases "case r of Ready x \<Rightarrow> x | _ \<Rightarrow> None"; cases "case r of Ready (Some x) \<Rightarrow> x | _ \<Rightarrow> AsyncShutdown") auto
  then show ?thesis
  proof cases
    case 1
    then have "items q = items (aa_chan a)" using law by (simp add: recv_law_def)
    then show ?thesis using True r 1 by (intro isle_ok_frame [OF ok]) (simp_all add: loop_poll_def)
  next
    case 2
    then show ?thesis using True r isle_ok_loop_end [OF env ok, of "a\<lparr>aa_chan := q\<rparr>"] by (simp add: loop_poll_def)
  next
    case 3
    then show ?thesis using True r isle_ok_loop_end [OF env ok, of "a\<lparr>aa_chan := q\<rparr>"] by (simp add: loop_poll_def)
  next
    case 4
    have q: "items (aa_chan a) = AsyncRun k job t # items q" using law 4 by (simp add: recv_law_def)
    then have j: "t < th_fresh (aa_heap a)" "job_ok job" using isle_okD(3) [OF ok, of "AsyncRun k job t"] by simp_all
    show ?thesis
    proof (cases job)
      case (CoroutineJob mk)
      then obtain call where call: "mk = (\<lambda>t. (t, call))" "\<forall>f. call \<noteq> CoRun f" using j(2) by auto
      have "call_live call" using call(2) by (cases call) auto
      then have "call_ok bp t call (actor_world a)" using call(2) j(1) by (auto simp: call_ok_def split: co_call.split)
      then show ?thesis using True r 4 CoroutineJob call(1) q
        by (intro isle_ok_step [OF ok roots_kept_keeps [OF isle_okD(1) [OF ok]]]) (auto simp: loop_poll_def)
    next
      case (SyncJob run)
      obtain out h w where s: "run t (aa_heap a) (aa_vm a) = (out, h, w)" using prod_cases3 by blast
      have "by_acts ((aa_vm a)\<lparr>iv_heap := aa_heap a\<rparr>) (w\<lparr>iv_heap := h\<rparr>)"
        using j(2) [unfolded SyncJob job_ok.simps, THEN spec [where x = t], THEN spec [where x = "aa_heap a"],
            THEN spec [where x = "aa_vm a"]] s by simp
      then have k: "keeps (actor_world a) (world_of (w\<lparr>iv_heap := h\<rparr>))" unfolding actor_world_vm by (rule by_acts_keeps)
      show ?thesis
      proof (cases out)
        case (JobSent x)
        have "queued_ok h rq" if "rq \<in> set (items q)" for rq
        proof -
          have "queued_ok (aa_heap a) rq" using isle_okD(3) [OF ok, of rq] that q by simp
          moreover have "th_fresh (aa_heap a) \<le> th_fresh h" using lastingD(1) [OF keepsD(1) [OF k]] by (simp add: world_of_def)
          ultimately show ?thesis by (rule queued_ok_kept)
        qed
        then show ?thesis using True r 4 SyncJob s JobSent k
          by (intro isle_ok_frame [OF ok]) (simp_all add: loop_poll_def)
      next
        case (JobPanic p)
        then show ?thesis using True r 4 SyncJob s k
            isle_ok_loop_end [OF env ok, of "drop_sender env k (a\<lparr>aa_chan := q, aa_started := aa_started a @ [k],
              aa_heap := h, aa_vm := w, aa_panicked := aa_panicked a @ [k]\<rparr>)"]
          by (simp add: loop_poll_def)
      qed
    qed
  qed
qed (simp add: loop_poll_def ok lasting.R_refl)

lemma isle_ok_local:
  assumes code: "code_by_acts E from_a to_t bp" and co: "ae_co env = coroutine_poll E (root_runner E lb bp) from_a to_t"
    and ok: "isle_ok bp items a"
  shows "isle_ok bp items (local_poll env i a) \<and> lasting (actor_world a) (actor_world (local_poll env i a))"
proof (cases "i < length (aa_local a)")
  case True
  obtain k t call where k: "aa_local a ! i = (k, t, call)" using prod_cases3 by blast
  let ?v = "(aa_vm a)\<lparr>iv_heap := aa_heap a\<rparr>" and ?rest = "take i (aa_local a) @ drop (Suc i) (aa_local a)"
  obtain out v' where s: "coroutine_step E (root_runner E lb bp) from_a to_t t call ?v = (out, v')" by fastforce
  have v': "world_of (v'\<lparr>iv_heap := iv_heap v'\<rparr>) = world_of v'" by simp
  have "(k, t, call) \<in> set (aa_local a)" using True k by (metis nth_mem)
  then have c: "call_ok bp t call (world_of ?v)" using isle_okD(2) [OF ok] unfolding actor_world_vm by blast
  note S = co_step_ok [OF code isle_okD(1) [OF ok, unfolded actor_world_vm] c s]
  have kept: "roots_kept bp (actor_world a) (world_of v')" unfolding actor_world_vm by (rule S(1))
  have rest: "set ?rest \<subseteq> set (aa_local a)" using set_take_subset set_drop_subset by fastforce
  have Q: "rq \<in> set (items (aa_chan a)) \<or> queued_ok h rq" if "rq \<in> set (items (aa_chan a))" for rq h using that by blast
  show ?thesis
  proof (cases out)
    case (CoPending call')
    have e: "local_poll env i a = a\<lparr>aa_heap := iv_heap v', aa_vm := v', aa_local := (aa_local a)[i := (k, t, call')]\<rparr>"
      using True k s CoPending by (simp add: local_poll_def co coroutine_poll_def)
    show ?thesis unfolding e
      by (rule isle_ok_step [OF ok]) (use kept S(2) [OF CoPending] in \<open>auto dest!: set_update_subset_insert [THEN subsetD]\<close>)
  next
    case (CoReady r)
    have e: "local_poll env i a = send_result env k r (a\<lparr>aa_heap := iv_heap v', aa_vm := v', aa_local := ?rest\<rparr>)"
      using True k s CoReady by (simp add: local_poll_def co coroutine_poll_def)
    show ?thesis unfolding e by (rule isle_ok_step [OF ok]) (use kept rest in auto)
  next
    case CoPanic
    have e: "local_poll env i a = drop_sender env k
        (a\<lparr>aa_heap := iv_heap v', aa_vm := v', aa_local := ?rest, aa_panicked := aa_panicked a @ [k]\<rparr>)"
      using True k s CoPanic by (simp add: local_poll_def co coroutine_poll_def)
    show ?thesis unfolding e by (rule isle_ok_step [OF ok]) (use kept rest in auto)
  qed
qed (simp add: local_poll_def ok lasting.R_refl)

lemma isle_ok_chan:
  assumes ok: "isle_ok bp items a" and q: "set (items q) \<subseteq> insert AsyncShutdown (set (items (aa_chan a)))"
  shows "isle_ok bp items (a\<lparr>aa_chan := q\<rparr>)"
proof -
  have "rq \<in> set (items (aa_chan a)) \<or> queued_ok (aa_heap (a\<lparr>aa_chan := q\<rparr>)) rq"
    if "rq \<in> set (items (aa_chan (a\<lparr>aa_chan := q\<rparr>)))" for rq
    using that q by (cases rq) auto
  from isle_ok_frame [OF ok _ _ this] show ?thesis by simp
qed

lemma isle_ok_tx:
  assumes env: "request_chan_ok (ae_chan env) items gone" and ok: "isle_ok bp items a"
  shows "isle_ok bp items (a\<lparr>aa_chan := rc_drop_tx (ae_chan env) (aa_chan a)\<rparr>)"
    and "isle_ok bp items (a\<lparr>aa_chan := rc_clone_tx (ae_chan env) (aa_chan a)\<rparr>)"
  by (rule isle_ok_chan [OF ok], simp add: chan_ends(5,7) [OF env], blast)+

lemma isle_ok_driver_wait:
  assumes env: "request_chan_ok (ae_chan env) items gone" and ok: "isle_ok bp items a"
  shows "isle_ok bp items (snd (snd (driver_wait env a))) \<and> actor_world (snd (snd (driver_wait env a))) = actor_world a"
  using isle_ok_tx(1) [OF env ok] ok by (simp add: driver_wait_def split: thread_state.split)

lemma isle_ok_driver:
  assumes env: "request_chan_ok (ae_chan env) items gone" and ok: "isle_ok bp items a"
  shows "isle_ok bp items (snd (snd (driver_poll env wk call a))) \<and>
    actor_world (snd (snd (driver_poll env wk call a))) = actor_world a"
proof -
  note w = isle_ok_driver_wait [OF env]
  show ?thesis
  proof (cases call)
    case DriverSend
    obtain r q where r: "hs_send_poll (ae_chan env) AsyncShutdown wk (aa_chan a) = (r, q)" by fastforce
    have "set (items q) \<subseteq> insert AsyncShutdown (set (items (aa_chan a)))"
      using chan_send_poll [OF env r] by (auto simp: send_law_def split: poll.splits sum.splits)
    from isle_ok_chan [OF ok this] show ?thesis using w [of bp "a\<lparr>aa_chan := q\<rparr>"] r DriverSend
      by (cases r) (simp_all add: driver_poll_def)
  qed (use w [OF ok] ok in \<open>simp_all add: driver_poll_def\<close>)
qed

text \<open>A step of the scopes that is not a poll of \<open>n\<close> leaves its future alone.\<close>

lemma exec_other:
  assumes ok: "world_ok w" and n: "n < sw_fresh w" and x: "polled x \<noteq> Some n"
  shows "sw_fut (scope_exec x w) n = sw_fut w n"
proof (cases x)
  case (Request tok g)
  then show ?thesis using n by (simp add: root_new_def Let_def)
next
  case (Act a)
  then show ?thesis using growsD(3) [OF act_ok [OF ok, THEN conjunct2] n] by simp
next
  case (PollFut m acts out)
  then show ?thesis using x onlyD(2) [OF only_fut_poll [OF run_body_ok ok] n] onlyD(2) [OF only_fut_drop n] by simp
next
  case (DropFut m)
  then show ?thesis using x onlyD(2) [OF only_fut_drop n] by simp
qed simp

lemma isle_ok_scope:
  assumes ok: "isle_ok bp items a" and x: "\<And>n. held a n \<Longrightarrow> polled x \<noteq> Some n"
    and b: "b = with_actor_world (scope_exec x (actor_world a)) a"
  shows "isle_ok bp items b \<and> lasting (actor_world a) (actor_world b)"
proof -
  let ?w = "actor_world a"
  have w: "actor_world b = scope_exec x ?w"
    by (simp add: b with_actor_world_def actor_world_vm world_of_def with_world_def)
  have l: "lasting ?w (actor_world b)" unfolding w by (rule lasting.R_exec)
  show ?thesis
  proof (rule isle_okI [OF ok _ l])
    show "world_ok (actor_world b)" unfolding w by (rule scope_exec_ok [OF isle_okD(1) [OF ok]])
    show "rq \<in> set (items (aa_chan a)) \<or> queued_ok (aa_heap b) rq" if "rq \<in> set (items (aa_chan b))" for rq
      using that by (simp add: b with_actor_world_def)
    show "call_ok bp t call (actor_world b)" if "(j, t, call) \<in> set (aa_local b)" for j t call
    proof -
      have i: "(j, t, call) \<in> set (aa_local a)" using that by (simp add: b with_actor_world_def)
      then have c: "call_ok bp t call ?w" by (rule isle_okD(2) [OF ok])
      then have live: "call_live call" and t: "t < th_fresh (sw_heap (actor_world b))"
        using lastingD(1) [OF l] unfolding call_ok_def by auto
      show ?thesis
      proof (cases "\<exists>n. call = CoRun (RootRun n)")
        case True
        then obtain n where n: "call = CoRun (RootRun n)" by blast
        then have "held a n" using i by (auto simp: held_def list_ex_iff intro!: bexI [OF _ i])
        moreover have r: "root_ok bp t n ?w" using c n unfolding call_ok_def by simp
        ultimately have "root_ok bp t n (actor_world b)"
          using root_ok_frame [OF r l] exec_other [OF isle_okD(1) [OF ok] root_okD(2) [OF r]] x unfolding w by blast
        then show ?thesis using t n by (simp add: call_ok_def)
      next
        case False
        then show ?thesis using live t by (auto simp: call_ok_def split: co_call.split root_future.split)
      qed
    qed
  qed
qed

lemma isle_ok_heap_cancel:
  assumes "isle_ok bp items a"
  shows "isle_ok bp items (a\<lparr>aa_heap := cancel t (aa_heap a)\<rparr>) \<and>
    lasting (actor_world a) (actor_world (a\<lparr>aa_heap := cancel t (aa_heap a)\<rparr>))"
  using isle_ok_frame [OF assms, of "a\<lparr>aa_heap := cancel t (aa_heap a)\<rparr>"] keeps_cancel [of "actor_world a" t] by simp

lemma isle_ok_shot:
  assumes "isle_ok bp items a"
  shows "isle_ok bp items (put_shot k c a) \<and> lasting (actor_world a) (actor_world (put_shot k c a))"
  using isle_ok_frame [OF assms, of "put_shot k c a"] by (simp add: lasting.R_refl)

lemma isle_ok_task_drop:
  assumes "isle_ok bp items a"
  shows "isle_ok bp items (async_task_drop env k a) \<and> lasting (actor_world a) (actor_world (async_task_drop env k a))"
proof (cases "at_released k")
  case True
  then show ?thesis using isle_ok_shot [OF assms] by (simp add: async_task_drop_def)
next
  case False
  note c = isle_ok_heap_cancel [OF assms, of "at_cancel k"]
  show ?thesis using isle_ok_shot [OF conjunct1 [OF c]] lasting_trans [OF conjunct2 [OF c]] False
    by (simp add: async_task_drop_def async_task_cancel_def)
qed

section \<open>Every history\<close>

text \<open>The environment: tokio's channel as documented, the crate's futures of requests, and code that works on the
  scopes through the library.\<close>

definition root_env_ok ::
  "(mlua_error + lua_value list, 'v) scope_world lua_env \<Rightarrow> (nat \<Rightarrow> lua_value list \<Rightarrow> 'v root_vm \<Rightarrow> mlua_error option) \<Rightarrow>
    (nat \<Rightarrow> 'v root_vm \<Rightarrow> (mlua_error + lua_value list) poll option \<times> 'v root_vm) \<Rightarrow>
    ((mlua_error + lua_value list, 'v) scope_world, 'a, lua_value list) conversion \<Rightarrow>
    ((mlua_error + lua_value list, 'v) scope_world, lua_value list, 'b) conversion \<Rightarrow>
    ('v root_vm, isle_error + 'b, nat \<times> ('a, root_future) co_call, 'q, 'o) async_env \<Rightarrow>
    ('q \<Rightarrow> ('v root_vm, isle_error + 'b, nat \<times> ('a, root_future) co_call) async_request list) \<Rightarrow> ('q \<Rightarrow> bool) \<Rightarrow> bool" where
  "root_env_ok E lb bp from_a to_t env items gone \<longleftrightarrow>
    request_chan_ok (ae_chan env) items gone \<and> ae_co env = coroutine_poll E (root_runner E lb bp) from_a to_t \<and>
    code_by_acts E from_a to_t bp"

lemma isle_ok_exec:
  assumes env: "root_env_ok E lb bp from_a to_t env items gone" and ok: "isle_ok bp items a" and op: "op_ok x"
  shows "isle_ok bp items (isle_exec env x a) \<and> lasting (actor_world a) (actor_world (isle_exec env x a))"
proof -
  have C: "request_chan_ok (ae_chan env) items gone" and co: "ae_co env = coroutine_poll E (root_runner E lb bp) from_a to_t"
    and code: "code_by_acts E from_a to_t bp"
    using env unfolding root_env_ok_def by blast+
  note L = lasting.R_refl
  show ?thesis
  proof (cases x)
    case (ScopeOp y)
    show ?thesis
    proof (cases "case polled y of None \<Rightarrow> False | Some n \<Rightarrow> held a n")
      case False
      then have "held a n \<Longrightarrow> polled y \<noteq> Some n" for n by auto
      from isle_ok_scope [OF ok this refl] show ?thesis using ScopeOp False by simp
    qed (simp add: ScopeOp ok L)
  next
    case (IsleOp p)
    show ?thesis
    proof (cases p)
      case (SubmitJob job)
      then show ?thesis using isle_ok_submit [OF C ok] op IsleOp by simp
    next
      case (SubmitFn isle func job)
      then show ?thesis using isle_ok_submit_fn [OF C ok, of job isle func] op IsleOp by simp
    next
      case (LoopPoll wk)
      then show ?thesis using isle_ok_loop [OF C ok] IsleOp by simp
    next
      case (LocalPoll i)
      then show ?thesis using isle_ok_local [OF code co ok] IsleOp by simp
    next
      case ThreadExit
      then show ?thesis using isle_ok_frame [OF ok, of "a\<lparr>aa_thread := Exited\<rparr>"] IsleOp by (simp add: thread_exit_def L ok)
    next
      case (DriverPoll wk call)
      then show ?thesis using isle_ok_driver [OF C ok, of wk call] IsleOp by (simp add: L)
    next
      case CloneHandle
      then show ?thesis using isle_ok_tx(2) [OF C ok] IsleOp by (simp add: L)
    next
      case DropHandle
      then show ?thesis using isle_ok_tx(1) [OF C ok] IsleOp by (simp add: L)
    next
      case (PollTask k)
      then show ?thesis using isle_ok_shot [OF ok] IsleOp
        by (auto simp: async_task_poll_def split: prod.split poll.split option.split)
    next
      case (CancelTask k)
      then show ?thesis using isle_ok_heap_cancel [OF ok] IsleOp by (simp add: async_task_cancel_def)
    next
      case (DropTask k)
      then show ?thesis using isle_ok_task_drop [OF ok] IsleOp by simp
    next
      case (DetachTask k)
      then show ?thesis using isle_ok_task_drop [OF ok] IsleOp by (simp add: async_task_detach_def)
    qed
  qed
qed

lemma isle_ok_run:
  assumes env: "root_env_ok E lb bp from_a to_t env items gone"
  shows "isle_ok bp items a \<Longrightarrow> list_all op_ok ops \<Longrightarrow>
    isle_ok bp items (isle_run env ops a) \<and> lasting (actor_world a) (actor_world (isle_run env ops a))"
proof (induction ops arbitrary: a)
  case (Cons x ops)
  have x: "isle_ok bp items (isle_exec env x a)" "lasting (actor_world a) (actor_world (isle_exec env x a))"
    using isle_ok_exec [OF env Cons.prems(1), of x] Cons.prems(2) by simp_all
  from Cons.IH [OF x(1)] Cons.prems(2) lasting_trans [OF x(2)] show ?case by (simp add: isle_run_def)
qed (simp add: isle_run_def lasting.R_refl)

text \<open>What a request that resolved to \<open>x\<close> owes its caller: every task of its tree has finished but those
  below a future that was dropped from outside, and \<open>x\<close> is \<^verbatim>\<open>Cancelled\<close> when its token was cancelled, else what its
  coroutine returned.\<close>

definition contract_met ::
  "(mlua_error + lua_value list, 'v) scope_world lua_env \<Rightarrow>
    (nat \<Rightarrow> 'v root_vm \<Rightarrow> (mlua_error + lua_value list) poll option \<times> 'v root_vm) \<Rightarrow> nat \<Rightarrow> nat \<Rightarrow>
    (mlua_error + lua_value list, 'v) scope_world \<Rightarrow> isle_error + lua_value list \<Rightarrow> bool" where
  "contract_met E bp t n w x \<longleftrightarrow>
    (\<forall>m. (n, m) \<in> (under w)\<^sup>+ \<longrightarrow> is_done w m \<or>
      (\<exists>d f. (n, d) \<in> (under w)\<^sup>+ \<and> (d, m) \<in> (under w)\<^sup>+ \<and> sw_fut w d = Some f \<and> rf_state f = Dropped)) \<and>
    (if token_cancelled w t then x = Inl Cancelled
     else \<exists>res. returns bp n res \<and>
       x = (case res of Inl e \<Rightarrow> Inl (from_lua_error E e) | Inr xs \<Rightarrow> unwrap_root (lu_show E) xs))"

lemma contract_metI:
  assumes ok: "world_ok w" and r: "root_ok bp t n w" and f: "map_option rf_state (sw_fut w n) = Some (Ended res)"
    and x: "x = root_result (from_lua_error E) (unwrap_root (lu_show E)) (token_cancelled w t) res"
  shows "contract_met E bp t n w x"
proof -
  obtain g where g: "sw_fut w n = Some g" "rf_state g = Ended res" using f by auto
  have "case res of Some out \<Rightarrow> returns bp n out | None \<Rightarrow> token_cancelled w t"
    using root_okD(5) [OF r] g by (simp add: has_origin_def)
  then have "if token_cancelled w t then x = Inl Cancelled
     else \<exists>res. returns bp n res \<and> x = (case res of Inl e \<Rightarrow> Inl (from_lua_error E e) | Inr xs \<Rightarrow> unwrap_root (lu_show E) xs)"
    unfolding x by (cases "token_cancelled w t"; cases res; cases "the res") auto
  then show ?thesis using tree_done_or_dropped [OF ok _ g] unfolding contract_met_def by blast
qed

text \<open>A VM before its actor serves it: whatever happened to its scopes.\<close>

lemma isle_ok_new:
  assumes "items q = []" and "iv_user v = scope_run ops (world_init h')"
  shows "isle_ok bp items (async_actor_new v h q resp)"
proof -
  have "world_ok ((iv_user v)\<lparr>sw_heap := h\<rparr>)"
    using run_init_ok [of ops h'] by (simp add: assms(2) world_ok_same [OF same_world_heap])
  then show ?thesis using assms(1) by (simp add: isle_ok_def async_actor_new_def actor_world_def)
qed

lemma coroutine_answer:
  assumes env: "root_env_ok E lb bp from_a to_t env items gone" and ok: "isle_ok bp items a"
    and i: "(k, t, call) \<in> set (aa_local a)" and p: "ae_co env (t, call) (aa_heap a) (aa_vm a) = (CoReady r, h', v')"
    and s: "co_setup E lb from_a t call ((aa_vm a)\<lparr>iv_heap := aa_heap a\<rparr>) = (q, v1)"
  shows "case q of
      Inl e \<Rightarrow> r = Inl e
    | Inr n \<Rightarrow> \<exists>x f v2. root_resume E bp n v1 = ((Some (Ready x), f), v2) \<and> contract_met E bp t n (world_of v2) x \<and>
        lasting (actor_world a) (world_of v2) \<and> co_finish E to_t t x v2 = (r, v')"
proof -
  let ?v = "(aa_vm a)\<lparr>iv_heap := aa_heap a\<rparr>"
  have co: "ae_co env = coroutine_poll E (root_runner E lb bp) from_a to_t" and code: "code_by_acts E from_a to_t bp"
    using env unfolding root_env_ok_def by blast+
  obtain out v'' where c: "coroutine_step E (root_runner E lb bp) from_a to_t t call ?v = (out, v'')" by fastforce
  then have e: "out = CoReady r" "v'' = v'" using p by (auto simp: co coroutine_poll_def split: co_out.splits)
  note W = isle_okD(1,2) [OF ok, unfolded actor_world_vm]
  note S = co_step_ok(3) [OF code W(1) W(2) [OF i] c e(1), unfolded s e(2)]
  show ?thesis
  proof (cases q)
    case (Inl e)
    then show ?thesis using S by auto
  next
    case (Inr n)
    then obtain x f v2 res where u: "root_resume E bp n v1 = ((Some (Ready x), f), v2)" "world_ok (world_of v2)"
      "root_ok bp t n (world_of v2)" "lasting (world_of ?v) (world_of v2)"
      "map_option rf_state (sw_fut (world_of v2) n) = Some (Ended res)"
      "x = root_result (from_lua_error E) (unwrap_root (lu_show E)) (token_cancelled (world_of v2) t) res"
      "co_finish E to_t t x v2 = (r, v')"
      using S by auto
    have "contract_met E bp t n (world_of v2) x" by (rule contract_metI [OF u(2,3,5,6)])
    then show ?thesis using u(1,4,7) Inr by (auto simp: actor_world_vm)
  qed
qed

text \<open>C1: Whenever the async actor answers a coroutine request, over every history of its handles, its driver, its tasks,
  its thread and the futures of the spawned tasks, polled in any order: when the request could not be set up, the answer
  is that error; otherwise its scope resolved in this poll and met the contract of \<^verbatim>\<open>Vm::run\<close>: every task of its
  tree has finished, except that nothing is promised of the tasks below a future of the tree that was dropped from
  outside; and the answer is the conversion of the scope's result, which is \<^verbatim>\<open>Cancelled\<close> if the request's token was
  cancelled and what its own coroutine returned if it was not.\<close>

theorem coroutine_answers_meet_contract:
  assumes env: "root_env_ok E lb bp from_a to_t env items gone"
    and init: "items q = []" "iv_user v0 = scope_run ops0 (world_init h0)" and ops: "list_all op_ok ops"
    and a: "a = isle_run env ops (async_actor_new v0 h q resp)" and i: "(k, t, call) \<in> set (aa_local a)"
    and p: "ae_co env (t, call) (aa_heap a) (aa_vm a) = (CoReady r, h', v')"
  shows "case co_setup E lb from_a t call ((aa_vm a)\<lparr>iv_heap := aa_heap a\<rparr>) of
      (Inl e, v1) \<Rightarrow> r = Inl e
    | (Inr n, v1) \<Rightarrow> \<exists>x f v2. root_resume E bp n v1 = ((Some (Ready x), f), v2) \<and>
        contract_met E bp t n (world_of v2) x \<and> co_finish E to_t t x v2 = (r, v')"
proof -
  have "isle_ok bp items a" using isle_ok_run [OF env isle_ok_new [where items = items and q = q, OF init] ops] a by simp
  note A = coroutine_answer [OF env this i p]
  obtain y v1 where s: "co_setup E lb from_a t call ((aa_vm a)\<lparr>iv_heap := aa_heap a\<rparr>) = (y, v1)" by fastforce
  show ?thesis using A [OF s] unfolding s by (cases y) auto
qed

text \<open>C9: A cancel of a coroutine request reaches its caller: once its token is cancelled, before its first poll or at any
  time after, and whatever the thread, the tasks, the handles and its own code do from then on, the answer it gets is
  \<^verbatim>\<open>Cancelled\<close>, if it has a scope in which to run at all.\<close>

theorem cancelled_coroutine_answers_cancelled:
  assumes env: "root_env_ok E lb bp from_a to_t env items gone"
    and init: "items q = []" "iv_user v0 = scope_run ops0 (world_init h0)" and ops: "list_all op_ok (ops1 @ ops2)"
    and a: "a1 = isle_run env ops1 (async_actor_new v0 h q resp)" "a = isle_run env ops2 a1"
    and t: "t < th_fresh (aa_heap a1)" "is_cancelled (aa_heap a1) t"
    and i: "i < length (aa_local a)" "aa_local a ! i = (k, t, call)"
    and p: "ae_co env (t, call) (aa_heap a) (aa_vm a) = (CoReady r, h', v')"
    and s: "co_setup E lb from_a t call ((aa_vm a)\<lparr>iv_heap := aa_heap a\<rparr>) = (Inr n, v1)"
  shows "r = Inl Cancelled \<and> aa_resp (local_poll env i a) k = snd (os_send (ae_shot env) (Inl Cancelled) (aa_resp a k))"
proof -
  have ok1: "isle_ok bp items a1" using isle_ok_run [OF env isle_ok_new [where items = items and q = q, OF init], of ops1] ops a(1) by simp
  have ok: "isle_ok bp items a" and l: "lasting (actor_world a1) (actor_world a)"
    using isle_ok_run [OF env ok1, of ops2] ops a(2) by simp_all
  have "(k, t, call) \<in> set (aa_local a)" using i by (metis nth_mem)
  from coroutine_answer [OF env ok this p s] obtain x v2 where
    x: "contract_met E bp t n (world_of v2) x" "lasting (actor_world a) (world_of v2)" "co_finish E to_t t x v2 = (r, v')"
    by auto
  have "token_cancelled (world_of v2) t"
    using lastingD(6) [OF lasting_trans [OF l x(2)], of t] t by (simp add: token_cancelled_def)
  then have "r = Inl Cancelled" using x(1,3) by (simp add: contract_met_def co_finish_def)
  then show ?thesis using i p by (simp add: local_poll_def send_result_def put_shot_def)
qed

section \<open>A request that is cancelled while it is queued\<close>

definition demo_root_bp :: "nat \<Rightarrow> nat root_vm \<Rightarrow> (mlua_error + lua_value list) poll option \<times> nat root_vm" where
  "demo_root_bp = (\<lambda>n v. (Some (Ready (Inl (RuntimeError ''mine''))), v))"

definition demo_root_env where
  "demo_root_env =
    \<lparr>ae_chan = demo_chan, ae_shot = demo_oneshot, ae_new_shot = ShotEmpty,
     ae_co = coroutine_poll root_demo_lua (root_runner root_demo_lua (\<lambda>_ _ _. None) demo_root_bp)
       (\<lambda>args v. (Inr args, v)) (\<lambda>vs v. (Inr vs, v))\<rparr>"

definition demo_root_vm :: "nat root_vm" where
  "demo_root_vm =
    \<lparr>iv_protect = protect_init, iv_hub = hub_default, iv_attached = True, iv_task = None, iv_heap = heap_init,
     iv_current = None, iv_user = scope_run [] (world_init heap_init)\<rparr>"

definition demo_root_start where
  "demo_root_start = async_actor_new demo_root_vm heap_init ([], 2, False) (\<lambda>_. ShotEmpty)"

definition demo_submit_ops where
  "demo_submit_ops = [IsleOp (SubmitJob (coroutine_job (CoEval ''x'')))]"

definition demo_start_ops where
  "demo_start_ops = [ScopeOp (Act (Elapse 1)), IsleOp (LoopPoll NoopWaker)]"

definition demo_cancel_ops where
  "demo_cancel_ops = demo_submit_ops @ [IsleOp (CancelTask (async_task_new 0 0))]"

lemma demo_root_env_ok:
  "root_env_ok root_demo_lua (\<lambda>_ _ _. None) demo_root_bp (\<lambda>args v. (Inr args, v)) (\<lambda>vs v. (Inr vs, v)) demo_root_env
    fst (\<lambda>q. snd (snd q))"
proof -
  have "by_acts v v" for v :: "nat root_vm" unfolding by_acts_def by (rule exI [of _ "[]"]) simp
  then show ?thesis
    by (simp add: root_env_ok_def demo_root_env_def demo_chan_ok code_by_acts_def demo_root_bp_def root_demo_lua_def)
qed

lemma demo_ops_ok: "list_all op_ok demo_submit_ops" "list_all op_ok demo_start_ops" "list_all op_ok demo_cancel_ops"
  by (simp_all add: demo_submit_ops_def demo_start_ops_def demo_cancel_ops_def job_ok_coroutine del: job_ok.simps)

definition demo_root_actor where
  "demo_root_actor = isle_run demo_root_env (demo_submit_ops @ demo_start_ops) demo_root_start"

definition demo_cancelled_actor where
  "demo_cancelled_actor = isle_run demo_root_env demo_start_ops (isle_run demo_root_env demo_cancel_ops demo_root_start)"

lemma demo_root_runs:
  "aa_local demo_root_actor = [(0, 0, CoEval ''x'')]" "aa_local demo_cancelled_actor = [(0, 0, CoEval ''x'')]"
  by code_simp+

lemma demo_root_init: "fst ([], 2 :: nat, False) = []" "iv_user demo_root_vm = scope_run [] (world_init heap_init)"
  by (simp_all add: demo_root_vm_def)

lemma coroutine_answers_meet_contract_witness:
  "fst (ae_co demo_root_env (0, CoEval ''x'') (aa_heap demo_root_actor) (aa_vm demo_root_actor)) =
      CoReady (Inl (from_lua_error root_demo_lua (RuntimeError ''mine''))) \<and>
    (\<exists>v2. contract_met root_demo_lua demo_root_bp 0 0 (world_of v2) (Inl (from_lua_error root_demo_lua (RuntimeError ''mine''))))"
proof -
  let ?v = "(aa_vm demo_root_actor)\<lparr>iv_heap := aa_heap demo_root_actor\<rparr>" and ?e = "from_lua_error root_demo_lua (RuntimeError ''mine'')"
  obtain out h v where p: "ae_co demo_root_env (0, CoEval ''x'') (aa_heap demo_root_actor) (aa_vm demo_root_actor) = (out, h, v)"
    using prod_cases3 by blast
  obtain y v1 where s: "co_setup root_demo_lua (\<lambda>_ _ _. None) (\<lambda>args v. (Inr args, v)) 0 (CoEval ''x'') ?v = (y, v1)" by fastforce
  have "(case fst (ae_co demo_root_env (0, CoEval ''x'') (aa_heap demo_root_actor) (aa_vm demo_root_actor)) of
      CoReady r \<Rightarrow> r = Inl ?e | _ \<Rightarrow> False)" by code_simp
  then have out: "out = CoReady (Inl ?e)" using p by (auto split: co_out.splits)
  have "fst (co_setup root_demo_lua (\<lambda>_ _ _. None) (\<lambda>args v. (Inr args, v)) 0 (CoEval ''x'') ?v) = Inr 0" by code_simp
  then have y: "y = Inr 0" using s by simp
  have "(0, 0, CoEval ''x'') \<in> set (aa_local demo_root_actor)" by (simp add: demo_root_runs)
  note A = coroutine_answers_meet_contract [OF demo_root_env_ok demo_root_init _ demo_root_actor_def [unfolded demo_root_start_def] this p [unfolded out],
      unfolded s y]
  obtain x v2 where x: "contract_met root_demo_lua demo_root_bp 0 0 (world_of v2) x"
    "co_finish root_demo_lua (\<lambda>vs v. (Inr vs, v)) 0 x v2 = (Inl ?e, v)"
    using A by (auto simp: demo_ops_ok)
  then have "x = Inl ?e" by (cases x) (auto simp: co_finish_def co_convert_def split: prod.splits)
  then show ?thesis using x(1) p out by auto
qed

lemma cancelled_coroutine_answers_cancelled_witness:
  "aa_resp (local_poll demo_root_env 0 demo_cancelled_actor) 0 = ShotSent (Inl Cancelled)"
proof -
  let ?a = "demo_cancelled_actor" and ?a1 = "isle_run demo_root_env demo_cancel_ops demo_root_start"
  let ?v = "(aa_vm ?a)\<lparr>iv_heap := aa_heap ?a\<rparr>"
  have a1: "?a1 = isle_run demo_root_env demo_cancel_ops (async_actor_new demo_root_vm heap_init ([], 2, False) (\<lambda>_. ShotEmpty))"
    by (simp add: demo_root_start_def)
  have t: "0 < th_fresh (aa_heap ?a1)" "is_cancelled (aa_heap ?a1) 0" by code_simp+
  obtain out h v where p: "ae_co demo_root_env (0, CoEval ''x'') (aa_heap ?a) (aa_vm ?a) = (out, h, v)" using prod_cases3 by blast
  have "(case fst (ae_co demo_root_env (0, CoEval ''x'') (aa_heap ?a) (aa_vm ?a)) of CoReady r \<Rightarrow> True | _ \<Rightarrow> False)" by code_simp
  then obtain r where r: "out = CoReady r" using p by (cases out) auto
  obtain y v1 where s: "co_setup root_demo_lua (\<lambda>_ _ _. None) (\<lambda>args v. (Inr args, v)) 0 (CoEval ''x'') ?v = (y, v1)" by fastforce
  have "fst (co_setup root_demo_lua (\<lambda>_ _ _. None) (\<lambda>args v. (Inr args, v)) 0 (CoEval ''x'') ?v) = Inr 0" by code_simp
  then have y: "y = Inr 0" using s by simp
  have "aa_resp ?a 0 = ShotEmpty" by code_simp
  moreover have "aa_resp (local_poll demo_root_env 0 ?a) 0 = snd (os_send demo_oneshot (Inl Cancelled) (aa_resp ?a 0))"
    using cancelled_coroutine_answers_cancelled [OF demo_root_env_ok demo_root_init _ a1 demo_cancelled_actor_def t _ _ p [unfolded r] s [unfolded y], where i = 0 and k = 0]
      demo_root_runs(2)
    by (simp add: demo_ops_ok demo_root_env_def)
  ultimately show ?thesis by (simp add: demo_oneshot_def)
qed

end
