(* ===== verification/Isle_Spawn_Props.thy ===== *)
theory Isle_Spawn_Props
  imports Isle_Async Isle_Actor_Props
begin

text \<open>
  What a spawn of an async isle comes to: with a result, a serving isle whose VM went through every step of the
  setup; without one, an error that says which step failed.
\<close>

section \<open>The errors of the steps\<close>

lemma protect_error: "vm_protect E v = (Inl e, v') \<Longrightarrow> \<exists>f. e = Init f"
  by (auto simp: vm_protect_def protect_install_def install_inner_def Let_def
      split: prod.splits sum.splits option.splits lua_value.splits if_splits)

lemma attach_error:
  assumes "vm_attach E c v = (Inl e, v')"
  shows "(\<exists>f. e = Init f) \<or> (\<exists>u m. lu_set_hook E u = Some m \<and> e = from_lua_error E m)"
  using assms
  by (auto simp: vm_attach_def vm_hook_def install_def Let_def dest: protect_error split: prod.splits sum.splits option.splits)

lemma setup_error:
  assumes "setup_vm E c init v = (JobSent (Inl e), v')"
  shows "(\<exists>f. e = Init f) \<or> (\<exists>u m. lu_set_hook E u = Some m \<and> e = from_lua_error E m)"
proof -
  obtain r1 v1 where p: "vm_protect E v = (r1, v1)" by fastforce
  show ?thesis
  proof (cases r1)
    case (Inl e1)
    with p assms show ?thesis using protect_error [of E v e1 v1] by (simp add: setup_vm_def)
  next
    case (Inr u)
    obtain o2 v2 where i: "init v1 = (o2, v2)" by fastforce
    obtain r3 v3 where a: "attach_after_init E c v2 = (r3, v3)" by fastforce
    show ?thesis
      using assms p i a attach_error [of E _ v2 e v3]
      by (cases r3) (auto simp: setup_vm_def Inr attach_after_init_def split: job_out.splits sum.splits)
  qed
qed

lemma setup_panic:
  assumes "setup_vm E c init v = (JobPanic p, v')"
  shows "\<exists>v1 v2. vm_protect E v = (Inr (), v1) \<and> init v1 = (JobPanic p, v2)"
proof -
  obtain r1 v1 where r: "vm_protect E v = (r1, v1)" by fastforce
  obtain o2 v2 where "init v1 = (o2, v2)" by fastforce
  with r assms show ?thesis
    by (cases r1; cases o2) (auto simp: setup_vm_def split_beta split: sum.splits)
qed

lemma setup_ok:
  assumes "setup_vm E c init v = (JobSent (Inr x), v')"
  shows "\<exists>v1 v2. vm_protect E v = (Inr (), v1) \<and> init v1 = (JobSent (Inr x), v2) \<and> attach_after_init E c v2 = (Inr (), v')"
proof -
  obtain r1 v1 where p: "vm_protect E v = (r1, v1)" by fastforce
  with assms have r1: "r1 = Inr ()" by (cases r1) (simp_all add: setup_vm_def)
  obtain o2 v2 where i: "init v1 = (o2, v2)" by fastforce
  obtain r3 v3 where a: "attach_after_init E c v2 = (r3, v3)" by fastforce
  have "o2 = JobSent (Inr x)" "r3 = Inr ()" "v' = v3"
    using assms p i a by (cases r3; auto simp: setup_vm_def r1 split: job_out.splits sum.splits)+
  with p i a r1 show ?thesis by blast
qed

section \<open>A spawn\<close>

text \<open>C34: A spawn through the builder either hands out a serving isle or says what failed.  The isle has the channel of
  the builder's capacity and a ready VM: the one the factory made (or a new one), protected before the user's init
  ran on it, attached after it with the crate's hook in place, the builder's settings (or those the init left, when
  the builder has none), and the hooks, the task table and the captured \<^verbatim>\<open>xpcall\<close> that the init left.  The error
  is \<^verbatim>\<open>Init\<close>, the one of the hook that could not be set, or \<^verbatim>\<open>ThreadPanic\<close> with the message of a panic of the factory
  or the init, and only of theirs.\<close>

theorem spawn_outcome:
  assumes "builder_spawn_with E mk refused rt fresh h resp init b = Some r"
  shows "case r of
      Inl e \<Rightarrow> (\<exists>f. e = Init f) \<or> (\<exists>u m. lu_set_hook E u = Some m \<and> e = from_lua_error E m) \<or>
        (\<exists>p. e = ThreadPanic (panic_message p) \<and>
          (ab_lua b = Some (Inl p) \<or> (\<exists>v v1 v2. vm_protect E v = (Inr (), v1) \<and> init v1 = (JobPanic p, v2))))
    | Inr (a, x) \<Rightarrow> refused = None \<and> rt = None \<and> mk (ab_capacity b) = Some (aa_chan a) \<and>
        aa_thread a = Serving \<and> aa_loop a \<and>
        (\<exists>v v1 v2. (case ab_lua b of None \<Rightarrow> v = fresh | Some made \<Rightarrow> made = Inr v) \<and>
          vm_protect E v = (Inr (), v1) \<and> init v1 = (JobSent (Inr x), v2) \<and>
          iv_attached (aa_vm a) \<and> hb_raw (iv_hub (aa_vm a)) = hb_installed (iv_hub (aa_vm a)) \<and>
          pr_parts (iv_protect (aa_vm a)) \<noteq> None \<and>
          vm_config (aa_vm a) = (case ab_config b of Some c \<Rightarrow> c | None \<Rightarrow> vm_config v2) \<and>
          hb_entries (iv_hub (aa_vm a)) = hb_entries (iv_hub v2) \<and>
          (iv_attached v2 \<longrightarrow> iv_task (aa_vm a) = iv_task v2) \<and>
          (pr_parts (iv_protect v2) \<noteq> None \<longrightarrow> iv_protect (aa_vm a) = iv_protect v2))"
proof -
  have inner: "spawn_inner E mk refused rt fresh h resp init b = Some r"
    using assms by (cases b) (simp add: builder_spawn_with_def)
  then obtain q where q: "mk (ab_capacity b) = Some q" by (auto simp: spawn_inner_def split: option.splits)
  let ?made = "case ab_lua b of Some made \<Rightarrow> made | None \<Rightarrow> Inr fresh"
  show ?thesis
  proof (cases "refused = None \<and> rt = None")
    case False
    then show ?thesis using inner q by (cases refused) (auto simp: spawn_inner_def)
  next
    case started: True
    show ?thesis
    proof (cases ?made)
      case (Inl p)
      then have "ab_lua b = Some (Inl p)" by (auto split: option.splits)
      then show ?thesis using inner q started by (auto simp: spawn_inner_def)
    next
      case (Inr v)
      then have made: "case ab_lua b of None \<Rightarrow> v = fresh | Some made \<Rightarrow> made = Inr v" by (auto split: option.splits)
      obtain out v' where s: "setup_vm E (ab_config b) init v = (out, v')" by fastforce
      show ?thesis
      proof (cases out)
        case (JobPanic p)
        then have "r = Inl (ThreadPanic (panic_message p))" using inner q started Inr s by (simp add: spawn_inner_def)
        then show ?thesis using setup_panic [OF s [unfolded JobPanic]] by auto
      next
        case (JobSent res)
        show ?thesis
        proof (cases res)
          case err: (Inl e)
          then have "r = Inl e" using inner q started Inr s JobSent by (simp add: spawn_inner_def)
          then show ?thesis using setup_error [OF s [unfolded JobSent err]] by auto
        next
          case ok: (Inr x)
          then have r: "r = Inr (async_actor_new v' h q resp, x)"
            using inner q started Inr s JobSent by (simp add: spawn_inner_def)
          obtain v1 v2 where st: "vm_protect E v = (Inr (), v1)" "init v1 = (JobSent (Inr x), v2)"
            "attach_after_init E (ab_config b) v2 = (Inr (), v')"
            using setup_ok [OF s [unfolded JobSent ok]] by blast
          from attach_keeps [OF st(3) [unfolded attach_after_init_def]] st(1,2) made q started
          show ?thesis by (auto simp: r async_actor_new_def split: option.splits)
        qed
      qed
    qed
  qed
qed

definition demo_builder :: "unit isle_vm async_builder" where
  "demo_builder = builder_lua (Inr demo_isle_vm) (builder_config \<lparr>cf_grace = 5, cf_preempt = None\<rparr> isle_builder)"

text \<open>The init attaches the VM with settings of its own; the builder's replace them.  The channel is its capacity.\<close>

lemma spawn_outcome_witness:
  "\<exists>a :: (unit isle_vm, unit, nat, unit) async_actor.
    builder_spawn_with demo_lua Some None None demo_isle_vm heap_init (\<lambda>_. ()) demo_init demo_builder = Some (Inr (a, 3)) \<and>
    aa_chan a = 256 \<and> iv_attached (aa_vm a) \<and> vm_config (aa_vm a) = \<lparr>cf_grace = 5, cf_preempt = None\<rparr>"
proof -
  let ?s = "builder_spawn_with demo_lua Some None None demo_isle_vm heap_init (\<lambda>_. ()) demo_init demo_builder
    :: (isle_error + (unit isle_vm, unit, nat, unit) async_actor \<times> _) option"
  have "(case ?s of Some (Inr (a, n)) \<Rightarrow> n = 3 | _ \<Rightarrow> False)" by code_simp
  then obtain a where s: "?s = Some (Inr (a, 3))" by (auto split: option.splits sum.splits)
  have b: "ab_capacity demo_builder = 256" "ab_config demo_builder = Some \<lparr>cf_grace = 5, cf_preempt = None\<rparr>" by code_simp+
  from spawn_outcome [OF s] b
  have "aa_chan a = 256 \<and> iv_attached (aa_vm a) \<and> vm_config (aa_vm a) = \<lparr>cf_grace = 5, cf_preempt = None\<rparr>" by auto
  with s show ?thesis by blast
qed

end
