(* ===== verification/Isle_Async_Answers.thy ===== *)
theory Isle_Async_Answers
  imports Isle_Async_Props
begin

text \<open>
  The answers of the async actor are what the requests' code returned.  \<open>code_result\<close> reads off a step which request's
  code returned in it and what, from the code's own run and not from what is sent; \<open>returned\<close> collects that
  over a history.
\<close>

section \<open>What the code returned\<close>

fun code_result ::
  "('w, isle_error + 'b, 'c, 'q, 'o) async_env \<Rightarrow> ('w, isle_error + 'b, 'c) sop \<Rightarrow> ('w, 'c, 'q, 'o) async_actor \<Rightarrow>
    (nat \<times> (isle_error + 'b)) option" where
  "code_result env (LoopPoll wk) a =
    (if \<not> aa_loop a then None
     else case fst (hr_recv_poll (ae_chan env) wk (aa_chan a)) of
       Ready (Some (AsyncRun k (SyncJob run) t)) \<Rightarrow>
         (case fst (run t (aa_heap a) (aa_vm a)) of JobSent r \<Rightarrow> Some (k, r) | JobPanic p \<Rightarrow> None)
     | _ \<Rightarrow> None)"
| "code_result env (LocalPoll i) a =
    (if length (aa_local a) \<le> i then None
     else case aa_local a ! i of
       (k, c) \<Rightarrow> (case fst (ae_co env c (aa_heap a) (aa_vm a)) of CoReady r \<Rightarrow> Some (k, r) | _ \<Rightarrow> None))"
| "code_result env _ a = None"

fun note_result :: "(nat \<times> 'r) option \<Rightarrow> (nat \<Rightarrow> 'r option) \<Rightarrow> nat \<Rightarrow> 'r option" where
  "note_result None m = m"
| "note_result (Some (k, r)) m = m(k \<mapsto> r)"

fun returned ::
  "('w, isle_error + 'b, 'c, 'q, 'o) async_env \<Rightarrow> ('w, isle_error + 'b, 'c) sop list \<Rightarrow> ('w, 'c, 'q, 'o) async_actor \<Rightarrow>
    (nat \<Rightarrow> (isle_error + 'b) option) \<Rightarrow> nat \<Rightarrow> (isle_error + 'b) option" where
  "returned env [] a m = m"
| "returned env (op # ops) a m = returned env ops (sop_exec env op a) (note_result (code_result env op a) m)"

section \<open>One step\<close>

text \<open>The answers sent so far to requests that started are what their code returned.\<close>

definition answers_ok ::
  "('o \<Rightarrow> (isle_error + 'b) shot) \<Rightarrow> ('w, 'c, 'q, 'o) async_actor \<Rightarrow> (nat \<Rightarrow> (isle_error + 'b) option) \<Rightarrow> bool" where
  "answers_ok view a m \<longleftrightarrow> (\<forall>k < aa_fresh a. \<forall>r. view (aa_resp a k) = ShotSent r \<and> k \<in> set (aa_started a) \<longrightarrow> m k = Some r)"

text \<open>A step that sends nothing for the code: what is in an answer channel after it was there before.\<close>

definition silent ::
  "('o \<Rightarrow> 'r shot) \<Rightarrow> ('w, 'c, 'q, 'o) async_actor \<Rightarrow> ('w, 'c, 'q, 'o) async_actor \<Rightarrow> bool" where
  "silent view a b \<longleftrightarrow>
    (\<forall>k < aa_fresh b. \<forall>r. view (aa_resp b k) = ShotSent r \<and> k \<in> set (aa_started b) \<longrightarrow>
      k < aa_fresh a \<and> view (aa_resp a k) = ShotSent r \<and> k \<in> set (aa_started a))"

lemma answers_silent: "answers_ok view a m \<Longrightarrow> silent view a b \<Longrightarrow> answers_ok view b m"
  unfolding answers_ok_def silent_def by blast

lemma silent_refl: "silent view a a"
  by (simp add: silent_def)

lemma silent_trans: "silent view a b \<Longrightarrow> silent view b c \<Longrightarrow> silent view a c"
  unfolding silent_def by blast

lemma silent_same:
  "aa_resp b = aa_resp a \<Longrightarrow> aa_started b = aa_started a \<Longrightarrow> aa_fresh b = aa_fresh a \<Longrightarrow> silent view a b"
  by (simp add: silent_def)

text \<open>Only answer channels of requests that did not start change, or channels that hold no answer afterwards.\<close>

lemma silent_others:
  assumes "aa_started b = aa_started a" and "\<forall>k \<in> set (aa_started a). k < aa_fresh a"
    and "\<And>k. k \<in> set (aa_started a) \<Longrightarrow> aa_resp b k = aa_resp a k"
  shows "silent view a b"
  using assms by (auto simp: silent_def)

lemma silent_put:
  assumes "\<And>r. view c = ShotSent r \<Longrightarrow> view (aa_resp a k) = ShotSent r"
  shows "silent view a (put_shot k c a)"
  using assms by (auto simp: silent_def put_shot_def)

lemma poll_silent:
  assumes "oneshot_ok S view" and "view (snd (os_rx_poll S c)) = ShotSent r"
  shows "view c = ShotSent r"
proof (cases "\<exists>a. view c = ShotSent a")
  case True
  then show ?thesis using assms unfolding oneshot_ok_def by fastforce
next
  case False
  then show ?thesis using assms unfolding oneshot_ok_def by metis
qed

lemma drop_rx_silent:
  assumes "oneshot_ok S view"
  shows "view (os_drop_rx S c) \<noteq> ShotSent r"
proof -
  have "view (os_drop_rx S c) = ShotGone" using assms unfolding oneshot_ok_def by blast
  then show ?thesis by simp
qed

lemma drop_tx_silent:
  assumes "oneshot_ok S view" and "view c = ShotEmpty \<or> view c = ShotGone"
  shows "view (os_drop_tx S c) \<noteq> ShotSent r"
proof -
  have "view (os_drop_tx S c) = ShotDropped \<or> view (os_drop_tx S c) = ShotGone" using assms unfolding oneshot_ok_def by blast
  then show ?thesis by auto
qed

lemma send_answers:
  assumes "oneshot_ok S view" and "view c = ShotEmpty \<or> view c = ShotGone" and "view (snd (os_send S x c)) = ShotSent r"
  shows "r = x"
proof -
  have "view (snd (os_send S x c)) = ShotSent x \<or> view (snd (os_send S x c)) = ShotGone"
    using assms(1,2) unfolding oneshot_ok_def by blast
  then show ?thesis using assms(3) by auto
qed

section \<open>Each operation\<close>

lemma started_fresh:
  assumes "async_ok env items gone view a"
  shows "\<forall>k \<in> set (aa_started a). k < aa_fresh a"
  using assms order_queue(6) unfolding async_ok_def by blast

lemma pending_view:
  assumes "async_ok env items gone view a" and "k \<in> pending_ids items a" and "k < aa_fresh a"
  shows "view (aa_resp a k) = ShotEmpty \<or> view (aa_resp a k) = ShotGone"
  using assms unfolding async_ok_def shots_ok_def by blast

lemma drop_requests_resp:
  "k \<notin> set (async_ids rqs) \<Longrightarrow> aa_resp (fold (drop_async_request env) rqs a) k = aa_resp a k"
proof (induction rqs arbitrary: a)
  case (Cons rq rqs)
  then show ?case by (cases rq) (simp_all add: drop_async_request_def drop_sender_def put_shot_def)
qed simp

lemma silent_loop_end:
  assumes "request_chan_ok (ae_chan env) items gone" and "set (async_ids (items (aa_chan a))) \<inter> set (aa_started a) = {}"
    and "\<forall>k \<in> set (aa_started a). k < aa_fresh a"
  shows "silent view a (loop_end env a)"
proof -
  obtain d q where d: "rc_drop_rx (ae_chan env) (aa_chan a) = (d, q)" by fastforce
  have "d = items (aa_chan a)" using chan_ends(1) [OF assms(1), of "aa_chan a"] d by simp
  moreover obtain R where R: "fold (drop_async_request env) d (a\<lparr>aa_chan := q, aa_loop := False\<rparr>) =
      a\<lparr>aa_chan := q, aa_loop := False, aa_resp := R\<rparr>" using drop_requests_frame by metis
  ultimately have "R k = aa_resp a k" if "k \<in> set (aa_started a)" for k
    using drop_requests_resp [of k d env "a\<lparr>aa_chan := q, aa_loop := False\<rparr>"] that assms(2) by auto
  then show ?thesis using assms(3) R by (intro silent_others) (simp_all add: loop_end_def d)
qed

lemma submit_resp:
  assumes "k < aa_fresh a"
  shows "aa_resp (snd (make_error_task env e t a)) k = aa_resp a k" and "aa_resp (snd (async_submit env job a)) k = aa_resp a k"
  using assms
  by (auto simp: make_error_task_def new_shot_def send_result_def put_shot_def async_submit_def drop_sender_def split_beta Let_def
      split: sum.split prod.split)

lemma submit_started:
  "aa_started (snd (make_error_task env e t a)) = aa_started a" "aa_started (snd (async_submit env job a)) = aa_started a"
  by (auto simp: make_error_task_def new_shot_def send_result_def put_shot_def async_submit_def drop_sender_def split_beta Let_def
      split: sum.split prod.split)

lemma driver_silent: "silent view a (snd (snd (driver_poll env wk call a)))"
  by (rule silent_same)
    (auto simp: driver_poll_def driver_wait_def split: driver_call.split thread_state.split prod.split poll.split)

lemma answers_loop:
  assumes env: "env_ok env items gone view" and ok: "async_ok env items gone view a" and m: "answers_ok view a m"
  shows "answers_ok view (loop_poll env wk a) (note_result (code_result env (LoopPoll wk) a) m)"
proof (cases "aa_loop a")
  case True
  obtain r q where r: "hr_recv_poll (ae_chan env) wk (aa_chan a) = (r, q)" by fastforce
  have C: "request_chan_ok (ae_chan env) items gone" and S: "oneshot_ok (ae_shot env) view"
    using env unfolding env_ok_def by auto
  have law: "recv_law items gone (aa_chan a) r q" using chan_recv_poll [OF C r] .
  have o: "order_ok (aa_accepted a) (aa_started a) (async_ids (items (aa_chan a))) (map fst (aa_local a)) (aa_fresh a) True"
    using ok True unfolding async_ok_def by auto
  note fresh = started_fresh [OF ok] and disj = order_queue(3) [OF o]
  have stop: "answers_ok view (loop_end env (a\<lparr>aa_chan := q\<rparr>)) m" if "set (async_ids (items q)) \<subseteq> set (async_ids (items (aa_chan a)))"
  proof -
    have "silent view (a\<lparr>aa_chan := q\<rparr>) (loop_end env (a\<lparr>aa_chan := q\<rparr>))"
      using silent_loop_end [OF C, of "a\<lparr>aa_chan := q\<rparr>"] disj fresh that by auto
    moreover have "answers_ok view (a\<lparr>aa_chan := q\<rparr>) m" using m by (simp add: answers_ok_def)
    ultimately show ?thesis by (rule answers_silent [rotated])
  qed
  consider "r = Pending" | "r = Ready None" | "r = Ready (Some AsyncShutdown)"
    | k job t where "r = Ready (Some (AsyncRun k job t))"
    by (cases r; cases "case r of Ready x \<Rightarrow> x | _ \<Rightarrow> None"; cases "case r of Ready (Some x) \<Rightarrow> x | _ \<Rightarrow> AsyncShutdown") auto
  then show ?thesis
  proof cases
    case 1
    then show ?thesis using m True r by (simp add: loop_poll_def answers_ok_def)
  next
    case 2
    then show ?thesis using stop True r law by (simp add: loop_poll_def recv_law_def)
  next
    case 3
    then show ?thesis using stop True r law by (simp add: loop_poll_def recv_law_def)
  next
    case 4
    have items: "items (aa_chan a) = AsyncRun k job t # items q" using law 4 by (auto simp: recv_law_def)
    then have k: "k \<in> pending_ids items a" "k < aa_fresh a" "k \<notin> set (async_ids (items q))"
      using order_queue(1,2) [OF o] unfolding pending_ids_def by auto
    note v = pending_view [OF ok k(1,2)]
    have none: "view (aa_resp a k) \<noteq> ShotSent x" for x using v by auto
    show ?thesis
    proof (cases job)
      case (CoroutineJob mk)
      then show ?thesis using m none True r 4 by (auto simp: loop_poll_def answers_ok_def)
    next
      case (SyncJob run)
      obtain out h w where j: "run t (aa_heap a) (aa_vm a) = (out, h, w)" using prod_cases3 by blast
      show ?thesis
      proof (cases out)
        case (JobSent x)
        then show ?thesis using m True r 4 SyncJob j send_answers [OF S v, of x]
          by (auto simp: loop_poll_def answers_ok_def send_result_def put_shot_def)
      next
        case (JobPanic p)
        let ?b = "drop_sender env k (a\<lparr>aa_chan := q, aa_started := aa_started a @ [k], aa_heap := h, aa_vm := w,
            aa_panicked := aa_panicked a @ [k]\<rparr>)"
        have "answers_ok view ?b m"
          using m drop_tx_silent [OF S v] by (auto simp: answers_ok_def drop_sender_def put_shot_def)
        moreover have "silent view ?b (loop_end env ?b)"
          using disj fresh k items by (intro silent_loop_end [OF C]) (auto simp: drop_sender_def put_shot_def)
        ultimately have "answers_ok view (loop_end env ?b) m" by (rule answers_silent)
        then show ?thesis using True r 4 SyncJob j JobPanic by (simp add: loop_poll_def)
      qed
    qed
  qed
qed (use m in \<open>simp add: loop_poll_def\<close>)

lemma answers_local:
  assumes env: "env_ok env items gone view" and ok: "async_ok env items gone view a" and m: "answers_ok view a m"
  shows "answers_ok view (local_poll env i a) (note_result (code_result env (LocalPoll i) a) m)"
proof (cases "i < length (aa_local a)")
  case True
  obtain k c where k: "aa_local a ! i = (k, c)" by fastforce
  obtain out h w where j: "ae_co env c (aa_heap a) (aa_vm a) = (out, h, w)" using prod_cases3 by blast
  have S: "oneshot_ok (ae_shot env) view" using env unfolding env_ok_def by auto
  have "k \<in> fst ` set (aa_local a)" using True k by (metis fst_conv image_eqI nth_mem)
  moreover have "order_ok (aa_accepted a) (aa_started a) (async_ids (items (aa_chan a))) (map fst (aa_local a)) (aa_fresh a) (aa_loop a)"
    using ok unfolding async_ok_def by blast
  note order_queue(5) [OF this, of k]
  ultimately have "k \<in> pending_ids items a" "k < aa_fresh a" by (auto simp: pending_ids_def)
  note v = pending_view [OF ok this]
  show ?thesis
  proof (cases out)
    case (CoPending c')
    then show ?thesis using True k j m by (simp add: local_poll_def answers_ok_def)
  next
    case (CoReady x)
    then show ?thesis using True k j m send_answers [OF S v, of x]
      by (auto simp: local_poll_def answers_ok_def send_result_def put_shot_def)
  next
    case CoPanic
    then show ?thesis using True k j m drop_tx_silent [OF S v]
      by (auto simp: local_poll_def answers_ok_def drop_sender_def put_shot_def)
  qed
qed (use m in \<open>simp add: local_poll_def\<close>)

lemma answers_step:
  assumes env: "env_ok env items gone view" and ok: "async_ok env items gone view a" and m: "answers_ok view a m"
  shows "answers_ok view (sop_exec env op a) (note_result (code_result env op a) m)"
proof -
  have S: "oneshot_ok (ae_shot env) view" using env unfolding env_ok_def by auto
  note fresh = started_fresh [OF ok] and keep = answers_silent [OF m]
  have drop: "silent view a (async_task_drop env k a)" for k
    using silent_put [of view "os_drop_rx (ae_shot env) (aa_resp a (at_resp k))" a "at_resp k"] drop_rx_silent [OF S]
    by (simp add: async_task_drop_def async_task_cancel_def put_shot_def silent_def)
  show ?thesis
  proof (cases op)
    case (SubmitJob job)
    have "silent view a (snd (async_submit env job a))"
      by (rule silent_others) (use fresh in \<open>simp_all add: submit_started submit_resp\<close>)
    then show ?thesis using keep SubmitJob by simp
  next
    case (SubmitFn isle func job)
    have "silent view a (snd (submit_fn env isle func job a))"
      by (rule silent_others)
        (use fresh in \<open>simp_all add: submit_fn_def refuse_foreign_def split_beta Let_def submit_started submit_resp\<close>)
    then show ?thesis using keep SubmitFn by simp
  next
    case (PollTask k)
    have "silent view a (put_shot (at_resp k) (snd (os_rx_poll (ae_shot env) (aa_resp a (at_resp k)))) a)"
      by (rule silent_put) (rule poll_silent [OF S])
    then show ?thesis using keep PollTask
      by (auto simp: async_task_poll_def split: prod.split poll.split option.split)
  next
    case (DriverPoll wk call)
    then show ?thesis using keep [OF driver_silent] by simp
  next
    case (DropTask k)
    then show ?thesis using keep [OF drop] by simp
  next
    case (DetachTask k)
    then show ?thesis using keep [OF drop] by (simp add: async_task_detach_def)
  next
    case (LoopPoll wk)
    then show ?thesis using answers_loop [OF env ok m, of wk] by (simp del: code_result.simps)
  next
    case (LocalPoll i)
    then show ?thesis using answers_local [OF env ok m, of i] by (simp del: code_result.simps)
  qed (use m in \<open>simp_all add: thread_exit_def async_task_cancel_def answers_ok_def\<close>)
qed

lemma answers_run:
  assumes env: "env_ok env items gone view"
  shows "async_ok env items gone view a \<Longrightarrow> answers_ok view a m \<Longrightarrow>
    answers_ok view (async_run env ops a) (returned env ops a m)"
proof (induction ops arbitrary: a m)
  case (Cons op ops)
  from Cons.IH [OF async_ok_exec [OF env Cons.prems(1), of op] answers_step [OF env Cons.prems, of op]]
  show ?case by (simp add: async_run_def)
qed (simp add: async_run_def)

section \<open>The property\<close>

text \<open>C7: A shutdown drains: once the driver's \<^verbatim>\<open>shutdown\<close> returned it returned \<^verbatim>\<open>Ok\<close>, whatever panicked in the requests,
  and every task that was not dropped has its result: a started request that did not panic has exactly what its
  code returned when it ran, coroutine requests included.\<close>

theorem shutdown_drains:
  assumes "env_ok env items gone view" and "items q = []" and "\<not> gone q"
    and "a = async_run env ops (async_actor_new vm h q resp)"
    and "driver_poll env wk call a = (Ready r, call', a')"
    and "at_resp k < aa_fresh a" and "view (aa_resp a (at_resp k)) \<noteq> ShotGone"
  shows "r = Inr () \<and> fst (async_task_poll env k a') \<noteq> Pending \<and>
    (at_resp k \<in> set (aa_started a) - set (aa_panicked a) \<longrightarrow>
      (\<exists>x. returned env ops (async_actor_new vm h q resp) (\<lambda>_. None) (at_resp k) = Some x \<and>
        view (aa_resp a' (at_resp k)) = ShotSent x \<and> fst (async_task_poll env k a') = Ready x))"
proof -
  have ok: "async_ok env items gone view a" unfolding assms(4) by (rule async_ok_run [OF assms(1-3)])
  have ok': "async_ok env items gone view a'" using async_ok_driver [OF assms(1) ok, of wk call] assms(5) by simp
  have w: "r = Inr () \<and> aa_thread b = Exited \<and> a' = b\<lparr>aa_chan := rc_drop_tx (ae_chan env) (aa_chan b)\<rparr>"
    if "driver_wait env b = (Ready r, call', a')" "aa_thread b = Serving \<or> aa_thread b = Exited" for b
    using that by (auto simp: driver_wait_def split: thread_state.splits)
  have "aa_thread a = Serving \<or> aa_thread a = Exited" using ok unfolding async_ok_def by blast
  then have e: "r = Inr ()" "aa_thread a = Exited" "aa_resp a' = aa_resp a" "aa_thread a' = Exited"
    "aa_started a' = aa_started a" "aa_panicked a' = aa_panicked a" "aa_fresh a' = aa_fresh a"
    using assms(5) by (auto simp: driver_poll_def split: driver_call.splits prod.splits poll.splits dest!: w)
  have "pending_ids items a' = {}"
    using ok' e(4) unfolding async_ok_def order_ok_def pending_ids_def by auto
  then have "view (aa_resp a' (at_resp k)) \<noteq> ShotEmpty"
    "at_resp k \<in> set (aa_started a) - set (aa_panicked a) \<Longrightarrow> view (aa_resp a' (at_resp k)) \<noteq> ShotDropped"
    using ok' assms(6) unfolding async_ok_def shots_ok_def e by auto
  moreover have "oneshot_ok (ae_shot env) view" using assms(1) unfolding env_ok_def by blast
  moreover have "view (aa_resp a' (at_resp k)) \<noteq> ShotGone" using assms(7) e(3) by simp
  note poll_result [OF calculation(3) this]
  moreover have "answers_ok view a (returned env ops (async_actor_new vm h q resp) (\<lambda>_. None))"
    unfolding assms(4)
    by (rule answers_run [OF assms(1)]) (use async_ok_run [OF assms(1-3), of "[]" vm h resp] in
      \<open>simp_all add: async_run_def answers_ok_def async_actor_new_def\<close>)
  ultimately show ?thesis using e(1,3) assms(6,7)
    by (cases "view (aa_resp a' (at_resp k))") (auto simp: answers_ok_def)
qed

lemma shutdown_drains_witness:
  "returned demo_async demo_shutdown_sops (async_actor_new 0 heap_init ([], 2, False) (\<lambda>_. ShotGone)) (\<lambda>_. None) 0 = Some (Inr 1) \<and>
  (\<exists>a'. driver_poll demo_async NoopWaker DriverWait (demo_async_actor demo_shutdown_sops) = (Ready (Inr ()), DriverDone, a') \<and>
    fst (async_task_poll demo_async (async_task_new 0 1) a') = Ready (Inr 1))"
proof -
  let ?a = "demo_async_actor demo_shutdown_sops"
  obtain r c a' where d: "driver_poll demo_async NoopWaker DriverWait ?a = (r, c, a')" using prod_cases3 by blast
  have v: "aa_fresh ?a = 2" "aa_resp ?a 0 = ShotSent (Inr 1)" "aa_started ?a = [0, 1]" "aa_panicked ?a = []"
    "aa_thread ?a = Exited" by code_simp+
  then have r: "\<exists>x. r = Ready x" "c = DriverDone" "aa_resp a' = aa_resp ?a"
    using d by (auto simp: driver_poll_def driver_wait_def)
  then obtain x where "r = Ready x" by blast
  with d have d': "driver_poll demo_async NoopWaker DriverWait ?a = (Ready x, c, a')" by simp
  show ?thesis
    using shutdown_drains [OF demo_async_ok _ _ demo_async_actor_def d', where k = "async_task_new 0 1"] v r d'
    by (simp add: async_task_new_def)
qed

end
