(* ===== verification/Isle_Cancelled_Eval.thy ===== *)
theory Isle_Cancelled_Eval
  imports Isle_Actor_Props Isle_Scope_Props
begin

text \<open>
  What becomes of an \<^verbatim>\<open>eval\<close> whose token was cancelled before its turn, from the handle through the queue, the thread,
  the hook's token and the protected call to \<^verbatim>\<open>wait\<close> on the task.
\<close>

section \<open>On the VM\<close>

lemma ensure_attached_error:
  assumes "ensure_attached E v = (Inl e, v')" and "iv_attached v"
  shows "\<exists>m. lu_set_hook E v = Some m \<and> e = from_lua_error E m"
  using assms
  by (auto simp: ensure_attached_def ensure_installed_def install_def Let_def split: prod.splits if_splits option.splits)

lemma vm_call_keeps:
  assumes "keeps_cancelled E" and "vm_cancelled t v"
  shows "vm_cancelled t (snd (vm_call E f args v))"
proof -
  obtain x w where p: "vm_protect E v = (x, w)" by fastforce
  have "vm_cancelled t w" using vm_protect_heap [OF p] assms(2) by (simp add: vm_cancelled_def)
  moreover from this have "vm_cancelled t (snd (lu_xpcall E f args w))" using assms(1) unfolding keeps_cancelled_def by blast
  ultimately show ?thesis using p by (auto simp: vm_call_def vm_cancelled_def split: sum.split prod.split)
qed

text \<open>
  Where the answer of an eval comes from: the VM on which its code runs, under its token, and the conversion of the
  values that the code returned there, on the VM as the code left it.
\<close>

definition eval_vm :: "'u lua_env \<Rightarrow> nat \<Rightarrow> 'u isle_vm \<Rightarrow> 'u isle_vm" where
  "eval_vm E t v = snd (enter_vm t (snd (ensure_attached E v)))"

definition converted ::
  "'u lua_env \<Rightarrow> ('u, lua_value list, 'b) conversion \<Rightarrow> string \<Rightarrow> nat \<Rightarrow> 'u isle_vm \<Rightarrow> mlua_error + 'b \<Rightarrow> bool" where
  "converted E to_t code t v r \<longleftrightarrow>
    (\<exists>f values w. load_eval E code = Inr f \<and> vm_call E f [] (eval_vm E t v) = (Inr values, w) \<and> fst (to_t values w) = r)"

text \<open>The answer of an eval on \<open>v\<close> under a cancelled token: its values, or \<open>Cancelled\<close>, or the error of a hook that
  could not be set before the code ran, or that of the conversion.\<close>

definition cancelled_answer ::
  "'u lua_env \<Rightarrow> ('u, lua_value list, 'b) conversion \<Rightarrow> string \<Rightarrow> nat \<Rightarrow> 'u isle_vm \<Rightarrow> isle_error + 'b \<Rightarrow> bool" where
  "cancelled_answer E to_t code t v r \<longleftrightarrow>
    (case r of
       Inr x \<Rightarrow> converted E to_t code t v (Inr x)
     | Inl e \<Rightarrow>
         e = Cancelled \<or>
         fst (ensure_attached E v) = Inl e \<and> (\<exists>w m. lu_set_hook E w = Some m \<and> e = from_lua_error E m) \<or>
         (\<exists>m. converted E to_t code t v (Inl m) \<and> e = from_lua_error E m))"

lemma execute_eval_answer:
  assumes ex: "execute_eval E to_t code t v = (r, v')" and att: "iv_attached v"
    and lua: "keeps_cancelled E" and c: "vm_cancelled t v"
  shows "iv_current v' = iv_current v \<and> cancelled_answer E to_t code t v r"
proof (cases "ensure_attached E v")
  case (Pair a v1)
  note cur = ensure_attached_frame [OF Pair]
  show ?thesis
  proof (cases a)
    case (Inl e)
    with Pair have "ensure_attached E v = (Inl e, v1)" by simp
    then have "r = Inl e" "v' = v1" using ex by (simp_all add: execute_eval_def under_token_def)
    moreover from ensure_attached_error [OF \<open>ensure_attached E v = (Inl e, v1)\<close> att]
    have "cancelled_answer E to_t code t v (Inl e)" unfolding cancelled_answer_def by (auto simp: Pair Inl)
    ultimately show ?thesis using cur by simp
  next
    case (Inr u)
    obtain prev v2 where e: "enter_vm t v1 = (prev, v2)" by fastforce
    have prev: "prev = iv_current v1" and c2: "vm_cancelled t v2"
      using e ensure_attached_heap [OF Pair] c by (auto simp: enter_vm_def enter_token_def vm_cancelled_def)
    show ?thesis
    proof (cases "load_eval E code")
      case (Inl x)
      then show ?thesis using ex Pair Inr e prev cur c2
        by (auto simp: execute_eval_def under_token_def finish_sync_def cancelled_wins_def leave_vm_def leave_token_def
            cancelled_answer_def)
    next
      case f: (Inr f)
      obtain r1 v3 where call: "vm_call E f [] v2 = (r1, v3)" by fastforce
      have c3: "vm_cancelled t v3" using vm_call_keeps [OF lua c2, of f "[]"] call by simp
      show ?thesis
      proof (cases r1)
        case (Inl x)
        then show ?thesis using ex Pair Inr e prev cur c3 f call
          by (auto simp: execute_eval_def under_token_def finish_sync_def cancelled_wins_def leave_vm_def leave_token_def
              cancelled_answer_def)
      next
        case vs: (Inr vs)
        obtain y v4 where y: "to_t vs v3 = (y, v4)" by fastforce
        have "converted E to_t code t v y" using Pair e f call vs y by (simp add: converted_def eval_vm_def)
        moreover have "r = map_sum (from_lua_error E) id y" "v' = leave_vm prev v4"
          using ex Pair Inr e f call vs y
          by (simp_all add: execute_eval_def under_token_def finish_sync_def cancelled_wins_def)
        ultimately show ?thesis using prev cur
          by (cases y) (auto simp: cancelled_answer_def leave_vm_def leave_token_def)
      qed
    qed
  qed
qed

section \<open>In the queue\<close>

text \<open>Every entry of the queue under \<open>n\<close> is this job with this token.\<close>

definition job_queued :: "nat \<Rightarrow> ('w, 'r) job \<Rightarrow> nat \<Rightarrow> ('w, 'r) actor \<Rightarrow> bool" where
  "job_queued n job t a \<longleftrightarrow> n < ac_fresh a \<and> (\<forall>j s. RunJob n j s \<in> set (ac_queue a) \<longrightarrow> j = job \<and> s = t)"

lemma job_queued_exec:
  assumes "job_queued n job t a"
  shows "job_queued n job t (aop_exec op a)"
proof (cases op)
  case (Submit j)
  then show ?thesis using assms by (auto simp: job_queued_def submit_def set_resp_def split_beta Let_def)
next
  case Turn
  then show ?thesis using assms
    by (auto simp: job_queued_def loop_step_def thread_ends_eq set_resp_def split: list.split request.split job_out.split prod.split)
next
  case (TakeResponse k)
  then show ?thesis using assms
    by (auto simp: job_queued_def task_wait_def take_response_def set_resp_def split: option.split)
qed (use assms in \<open>auto simp: job_queued_def shutdown_start_def isle_drop_def send_shutdown_def task_cancel_request_def\<close>)

interpretation queued_job_machine: machine aop_exec "job_queued n job t" for n job t
  by unfold_locales (rule job_queued_exec)

lemma queued_idsI: "RunJob n j t \<in> set q \<Longrightarrow> n \<in> set (queued_ids q)"
  by (induction q rule: queued_ids.induct) auto

lemma submit_queued:
  assumes "a = actor_run ops (actor_new vm h)" and "submit job a = (k, b)"
  shows "job_queued (tk_resp k) job (tk_cancel k) b"
proof -
  have "n < ac_fresh a" if "RunJob n j t \<in> set (ac_queue a)" for n j t
  proof -
    have "n \<in> set (queued_ids (ac_queue a))" by (rule queued_idsI [OF that])
    then show ?thesis using actor_ok_run [of ops vm h] unfolding assms(1) [symmetric] actor_ok_def
      by (metis (no_types, lifting) UnI2 empty_iff list.set(1) queued_ids.simps(1) set_append)
  qed
  then have "RunJob (ac_fresh a) j t \<notin> set (ac_queue a)" for j t by blast
  then show ?thesis using assms(2)
    by (auto simp: job_queued_def submit_def set_resp_def task_of_def split_beta Let_def split: if_splits)
qed

section \<open>The property\<close>

text \<open>C8: A request that is cancelled before its turn never ends with an error its Lua code made of the cancel, from
  \<^verbatim>\<open>spawn_eval\<close> on the handle of an isle, whatever the handle, its tasks and the requests before it did meanwhile, through
  the queue, the thread, the hook's token and the protected call to \<^verbatim>\<open>wait\<close> on the task.  It ends with the conversion of
  what its code returned on that VM, with \<^verbatim>\<open>Cancelled\<close>, or with an error in which its code has no part: that of the
  conversion of those values, or of a hook that could not be set before it ran.  And it leaves the current token of the
  VM as it was, and the thread serving.  The isle is attached; and Lua code may cancel tokens, but takes no cancel
  back (\<open>keeps_cancelled\<close>).\<close>

theorem cancelled_eval_reports_cancelled:
  assumes a: "a = actor_run ops0 (actor_new vm h)" and k: "spawn_eval E to_t code a = (k, a1)"
    and b: "b = actor_run ops a1" "ac_thread b = Serving" "ac_queue b = RunJob (tk_resp k) job t # q"
    and c: "is_cancelled (ac_heap b) (tk_cancel k)" and att: "iv_attached (ac_vm b)" and lua: "keeps_cancelled E"
    and b': "b' = loop_step b"
  shows "\<exists>r. fst (task_wait k b') = Some r \<and> cancelled_answer E to_t code (tk_cancel k) ((ac_vm b)\<lparr>iv_heap := ac_heap b\<rparr>) r \<and>
    iv_current (ac_vm b') = iv_current (ac_vm b) \<and> ac_thread b' = Serving"
proof -
  have "job_queued (tk_resp k) (eval_job E to_t code) (tk_cancel k) a1"
    using submit_queued [OF a] k by (simp add: spawn_eval_def)
  then have "job_queued (tk_resp k) (eval_job E to_t code) (tk_cancel k) b"
    unfolding b(1) actor_run_def by (rule queued_job_machine.ok_run)
  then have j: "job = eval_job E to_t code" "t = tk_cancel k" unfolding job_queued_def b(3) by auto
  let ?v = "(ac_vm b)\<lparr>iv_heap := ac_heap b\<rparr>"
  obtain r v' where e: "execute_eval E to_t code t ?v = (r, v')" by fastforce
  have "iv_attached ?v" "vm_cancelled t ?v" using att c by (simp_all add: vm_cancelled_def j(2))
  from execute_eval_answer [OF e this(1) lua this(2)]
  have "iv_current v' = iv_current (ac_vm b)" "cancelled_answer E to_t code (tk_cancel k) ?v r" by (simp_all add: j(2))
  moreover have "b' = set_resp (tk_resp k) (\<lambda>_. \<lparr>rs_value = Some r, rs_sender = False\<rparr>)
      (b\<lparr>ac_vm := v', ac_heap := iv_heap v', ac_queue := q, ac_ran := ac_ran b @ [tk_resp k]\<rparr>)"
    using e unfolding b' by (simp add: loop_step_def b(2,3) j(1) eval_job_def vm_job_def)
  ultimately show ?thesis using b(2) by (simp add: task_wait_def response_recv_def set_resp_def)
qed

text \<open>The Lua of \<open>demo_lua\<close> catches the cancel and raises an error of its own.\<close>

definition demo_isle :: "(unit isle_vm, isle_error + lua_value list) actor" where
  "demo_isle = actor_new (snd (vm_attach demo_lua \<lparr>cf_grace = 5, cf_preempt = None\<rparr> demo_isle_vm)) heap_init"

definition demo_eval :: "task \<times> (unit isle_vm, isle_error + lua_value list) actor" where
  "demo_eval = spawn_eval demo_lua (\<lambda>vs v. (Inr vs, v)) ''x'' demo_isle"

definition demo_cancelled :: "(unit isle_vm, isle_error + lua_value list) actor" where
  "demo_cancelled = actor_run [CancelRequest (tk_cancel (fst demo_eval))] (snd demo_eval)"

lemma cancelled_eval_reports_cancelled_witness:
  "fst (task_wait (fst demo_eval) (loop_step demo_cancelled)) = Some (Inl Cancelled)"
proof -
  let ?b = demo_cancelled
  have start: "demo_isle = actor_run [] (actor_new (snd (vm_attach demo_lua \<lparr>cf_grace = 5, cf_preempt = None\<rparr> demo_isle_vm)) heap_init)"
    by (simp add: demo_isle_def actor_run_def)
  have serving: "ac_thread ?b = Serving" "iv_attached (ac_vm ?b)"
    "is_cancelled (ac_heap ?b) (tk_cancel (fst demo_eval))" by code_simp+
  have "(case ac_queue ?b of [RunJob n j t] \<Rightarrow> n = tk_resp (fst demo_eval) | _ \<Rightarrow> False)" by code_simp
  then obtain j t where q: "ac_queue ?b = RunJob (tk_resp (fst demo_eval)) j t # []"
    by (auto split: list.splits request.splits)
  have flags: "is_cancelled h t \<Longrightarrow> is_cancelled (cancel c h) t" for h t c
    using cancel_all_flags unfolding is_cancelled_def cancel_def by blast
  have keep: "keeps_cancelled demo_lua"
    unfolding keeps_cancelled_def by (simp add: demo_lua_def vm_cancelled_def flags)
  have hook: "lu_set_hook demo_lua v = None" for v by (simp add: demo_lua_def)
  have failed: "map_option isl (fst (task_wait (fst demo_eval) (loop_step ?b))) = Some True" by code_simp
  have "spawn_eval demo_lua (\<lambda>vs v. (Inr vs, v)) ''x'' demo_isle = (fst demo_eval, snd demo_eval)" by (simp add: demo_eval_def)
  from cancelled_eval_reports_cancelled [OF start this demo_cancelled_def serving(1) q serving(3,2) keep refl]
  obtain r where r: "fst (task_wait (fst demo_eval) (loop_step ?b)) = Some r"
    "cancelled_answer demo_lua (\<lambda>vs v. (Inr vs, v)) ''x'' (tk_cancel (fst demo_eval))
      ((ac_vm ?b)\<lparr>iv_heap := ac_heap ?b\<rparr>) r" by blast
  with failed hook show ?thesis by (auto simp: cancelled_answer_def converted_def split: sum.splits)
qed

end
