(* ===== verification/Isle_Scope_Respawn.thy ===== *)
theory Isle_Scope_Respawn
  imports Isle_Scope_Props
begin

text \<open>
  Tasks that spawn their successor into their own scope keep a request draining: the scopes from the request to
  the newest task, each waiting for the next, grow by one with every task, and a poll of any of them ends pending.
\<close>

section \<open>Scopes that wait for each other\<close>

text \<open>\<open>newest w m\<close>: \<open>m\<close> is the newest number, and its future waits for its first poll.\<close>

definition newest :: "('o, 'v) scope_world \<Rightarrow> nat \<Rightarrow> bool" where
  "newest w m \<longleftrightarrow>
    world_ok w \<and> sw_fresh w = Suc m \<and> \<not> is_done w m \<and> (\<forall>n \<ge> m. \<not> sw_aborted w n) \<and>
    (\<exists>f. sw_fut w m = Some f \<and> rf_state f = Unstarted)"

text \<open>The future of \<open>a\<close> is in its \<^verbatim>\<open>wait_all\<close>, and \<open>b\<close> is an unfinished task of its scope.\<close>

definition waits_on :: "('o, 'v) scope_world \<Rightarrow> nat \<Rightarrow> nat \<Rightarrow> bool" where
  "waits_on w a b \<longleftrightarrow>
    b \<in> set (sc_children (sw_scope w a)) \<and> \<not> is_done w b \<and> \<not> sw_aborted w a \<and>
    (\<exists>f out. sw_fut w a = Some f \<and> rf_state f = Waiting out)"

fun waiting_path :: "('o, 'v) scope_world \<Rightarrow> nat list \<Rightarrow> nat \<Rightarrow> bool" where
  "waiting_path w [] m = True"
| "waiting_path w [a] m = waits_on w a m"
| "waiting_path w (a # b # ns) m = (waits_on w a b \<and> waiting_path w (b # ns) m)"

lemma waiting_path_waits: "waiting_path w ns m \<Longrightarrow> n \<in> set ns \<Longrightarrow> \<exists>b. waits_on w n b"
  by (induction w ns m rule: waiting_path.induct) auto

lemma waiting_path_append: "waiting_path w (ns @ [m]) m' \<longleftrightarrow> waiting_path w ns m \<and> waits_on w m m'"
  by (induction w ns m rule: waiting_path.induct) auto

lemma waiting_path_cong:
  assumes "waiting_path w ns m" and "\<And>a b. a \<in> set ns \<Longrightarrow> b \<in> set ns \<union> {m} \<Longrightarrow> waits_on w a b \<Longrightarrow> waits_on w' a b"
  shows "waiting_path w' ns m"
  using assms
proof (induction w ns m rule: waiting_path.induct)
  case (3 w a b ns m)
  have "waiting_path w' (b # ns) m" by (rule "3.IH") (use "3.prems" in auto)
  then show ?case using "3.prems" by simp
qed simp_all

text \<open>A poll of a future that waits for an unfinished task changes nothing.\<close>

lemma waits_on_pending:
  assumes "waits_on w a b"
  shows "run_in_poll body a w = (Pending, w)"
proof -
  obtain f out where f: "sw_fut w a = Some f" "rf_state f = Waiting out" using assms unfolding waits_on_def by blast
  obtain c where c: "find (\<lambda>c. \<not> is_done w c) (sc_children (sw_scope w a)) = Some c"
    using assms find_None [of "\<lambda>c. \<not> is_done w c" "sc_children (sw_scope w a)"] unfolding waits_on_def by blast
  have "set_state a (Waiting out) w = w" using f by (cases w, cases f) (auto simp: set_state_def fun_eq_iff)
  then show ?thesis by (simp add: run_in_poll_def f wait_all_def c)
qed

lemma waits_on_poll:
  assumes "waits_on w a b"
  shows "scope_exec (PollFut a acts out) w = w"
  using assms waits_on_pending [OF assms, of "run_body acts out"] by (simp add: fut_poll_def waits_on_def)

lemma waiting_polls:
  assumes "\<And>n. n \<in> set qs \<Longrightarrow> \<exists>b. waits_on w n b"
  shows "scope_run (map (\<lambda>n. PollFut n [] None) qs) w = w"
  using assms
proof (induction qs)
  case (Cons n qs)
  then obtain b where "waits_on w n b" by auto
  from waits_on_poll [OF this, of "[]" None] Cons show ?case by (simp add: scope_run_def)
qed (simp add: scope_run_def)

section \<open>One task\<close>

text \<open>The newest task is polled: its body spawns its successor into its own scope and returns.\<close>

lemma spawn_aborted: "sw_aborted (snd (spawn g c s w)) = sw_aborted w"
  by (simp add: spawn_def split_beta Let_def add_child_def)

lemma cancel_children_aborted: "sw_aborted (cancel_children s w) = sw_aborted w"
proof -
  have "sw_aborted (fold (\<lambda>c. cancel_token (t c)) xs v) = sw_aborted v" for t xs and v :: "('o, 'v) scope_world"
    by (induction xs arbitrary: v) simp_all
  then show ?thesis by (simp add: cancel_children_def)
qed

lemma cancel_children_same:
  "sw_fresh (cancel_children s w) = sw_fresh w" "sw_scope (cancel_children s w) = sw_scope w"
  "is_done (cancel_children s w) = is_done w" "sw_now (cancel_children s w) = sw_now w"
  using same_world_cancel_children [of w s] by (simp_all add: same_world_def)

text \<open>What a step leaves as it is but for the scope and the future of \<open>m\<close>, and what is newer.\<close>

definition spares :: "nat \<Rightarrow> ('o, 'v) scope_world \<Rightarrow> ('o, 'v) scope_world \<Rightarrow> bool" where
  "spares m w w' \<longleftrightarrow>
    sw_now w' = sw_now w \<and> sw_aborted w' = sw_aborted w \<and>
    (\<forall>n \<le> m. is_done w' n = is_done w n \<and> (n \<noteq> m \<longrightarrow> sw_fut w' n = sw_fut w n \<and> sw_scope w' n = sw_scope w n))"

lemma spares_trans: "spares m a b \<Longrightarrow> spares m b c \<Longrightarrow> spares m a c"
  by (simp add: spares_def)

lemma spares_set_deadline: "spares m w (set_deadline m w)"
  by (simp add: spares_def set_deadline_def)

lemma drain_waits:
  assumes "c \<in> set (sc_children (sw_scope w m))" and "\<not> is_done w c" and "sw_fut w m = Some f"
  shows "fst (drain m out w) = Pending" "sw_fresh (snd (drain m out w)) = sw_fresh w" "spares m w (snd (drain m out w))"
    "is_done (snd (drain m out w)) = is_done w" "sw_aborted (snd (drain m out w)) = sw_aborted w"
    "n \<noteq> m \<Longrightarrow> sw_fut (snd (drain m out w)) n = sw_fut w n"
    "waits_on (snd (drain m out w)) m c \<longleftrightarrow> \<not> sw_aborted w m"
proof -
  obtain x where x: "find (\<lambda>c. \<not> is_done w c) (sc_children (sw_scope w m)) = Some x"
    using assms find_None [of "\<lambda>c. \<not> is_done w c" "sc_children (sw_scope w m)"] by blast
  obtain k where d: "drain m out w = (Pending, set_state m (Waiting out) (cancel_children m (upd_scope m k w)))"
    and k: "\<And>x. sc_children (k x) = sc_children x"
  proof (cases "sc_deadline (sw_scope w m)")
    case None
    show ?thesis
    proof (rule that)
      show "drain m out w = (Pending, set_state m (Waiting out) (cancel_children m (upd_scope m
          (\<lambda>x. x\<lparr>sc_deadline := Some (own_deadline w m), sc_phase := Draining\<rparr>) w)))"
        using None x by (simp add: drain_def wait_all_def cancel_children_same set_deadline_def Let_def upd_scope_def)
    qed simp
  next
    case (Some y)
    show ?thesis
    proof (rule that)
      show "drain m out w = (Pending, set_state m (Waiting out) (cancel_children m (upd_scope m (sc_phase_update (\<lambda>_. Draining)) w)))"
        using Some x by (simp add: drain_def wait_all_def cancel_children_same Let_def)
    qed simp
  qed
  note defs = d cancel_children_same cancel_children_fut cancel_children_aborted spares_def waits_on_def k assms
  show "fst (drain m out w) = Pending" "sw_fresh (snd (drain m out w)) = sw_fresh w" "spares m w (snd (drain m out w))"
    "is_done (snd (drain m out w)) = is_done w" "sw_aborted (snd (drain m out w)) = sw_aborted w"
    "n \<noteq> m \<Longrightarrow> sw_fut (snd (drain m out w)) n = sw_fut w n"
    "waits_on (snd (drain m out w)) m c \<longleftrightarrow> \<not> sw_aborted w m"
    by (simp_all add: defs)
qed

text \<open>The body: the new task is on the list of its scope, unfinished.\<close>

lemma respawn_body:
  fixes w :: "('o, 'v) scope_world" and g conv r
  assumes new: "newest w m" and f: "sw_fut w m = Some f" "rf_state f = Unstarted"
  defines "w1 \<equiv> snd (scoped_poll (run_body [SpawnHere g conv] (Some r)) m w)"
  shows "fst (scoped_poll (run_body [SpawnHere g conv] (Some r)) m w) = Ready r" "sw_fut w1 m = Some f"
    "sw_fresh w1 = Suc (Suc m)" "\<not> is_done w1 (Suc m)" "Suc m \<in> set (sc_children (sw_scope w1 m))" "spares m w w1"
    "\<exists>h. sw_fut w1 (Suc m) = Some h \<and> rf_state h = Unstarted"
proof -
  let ?v = "snd (enter_scope m w)"
  have ok: "world_ok w" "sw_fresh w = Suc m" using new by (simp_all add: newest_def)
  have F: "sw_fut ?v = sw_fut w" "sw_scope ?v = sw_scope w" "sw_fresh ?v = Suc m" "sw_current ?v = Some m"
    "sw_aborted ?v = sw_aborted w" "sw_now ?v = sw_now w" "is_done ?v = is_done w"
    using ok by (simp_all add: enter_scope_def)
  have "sc_phase (sw_scope w m) = Running" using world_okD(2) [OF ok(1) f(1)] f(2) by simp
  then have t: "\<not> out_of_time ?v m" by (simp add: out_of_time_def F)
  have ne: "m \<noteq> sw_fresh ?v" by (simp add: F)
  have w1: "w1 = leave_scope (sw_current w) (snd (spawn g conv m ?v))"
    using f(1) F(1,4) by (simp add: w1_def scoped_poll_def split_beta Let_def run_body_def) (simp add: enter_scope_def)
  note S = spawn_in [OF t ne, of g conv]
  show "fst (scoped_poll (run_body [SpawnHere g conv] (Some r)) m w) = Ready r"
    by (simp add: scoped_poll_def split_beta Let_def run_body_def)
  show "sw_fut w1 m = Some f" "sw_fresh w1 = Suc (Suc m)" "\<not> is_done w1 (Suc m)"
    "Suc m \<in> set (sc_children (sw_scope w1 m))" "\<exists>h. sw_fut w1 (Suc m) = Some h \<and> rf_state h = Unstarted"
    by (simp_all add: w1 leave_scope_def S F f(1))
  show "spares m w w1" by (simp add: w1 leave_scope_def S F spares_def spawn_aborted)
qed

lemma respawn_poll:
  fixes w :: "('o, 'v) scope_world" and g conv r
  assumes new: "newest w m"
  defines "w' \<equiv> scope_exec (PollFut m [SpawnHere g conv] (Some r)) w"
  shows "newest w' (Suc m)" and "waits_on w' m (Suc m)" and "spares m w w'"
proof -
  let ?b = "run_body [SpawnHere g conv] (Some r)"
  obtain f where f: "sw_fut w m = Some f" "rf_state f = Unstarted" using new by (auto simp: newest_def)
  have ok: "world_ok w" "\<forall>n \<ge> m. \<not> sw_aborted w n" using new by (simp_all add: newest_def)
  obtain v where v: "newest v m" "sw_fut v m = Some f" "spares m w v"
    and poll: "body_poll ?b m w = drain m (Some r) (snd (scoped_poll ?b m v))"
  proof (cases "token_cancelled w (sc_token (sw_scope w m))")
    case True
    have sd: "newest (set_deadline m w) m" "sw_fut (set_deadline m w) m = Some f"
      using set_deadline_ok [OF ok(1)] new f by (simp_all add: newest_def set_deadline_def)
    show ?thesis
      by (rule that [OF sd spares_set_deadline]) (use True respawn_body(1) [OF sd f(2)] in
        \<open>simp add: body_poll_def grace_poll_def split_beta Let_def\<close>)
  next
    case False
    show ?thesis
      by (rule that [OF new f(1)]) (use False respawn_body(1) [OF new f] in
        \<open>simp_all add: body_poll_def split_beta Let_def spares_def\<close>)
  qed
  note R = respawn_body [OF v(1,2) f(2), where g = g and conv = conv and r = r]
  note D = drain_waits [OF R(5,4,2), where out = "Some r"]
  have w': "w' = snd (drain m (Some r) (snd (scoped_poll ?b m v)))"
    using D(1) ok(2) by (simp add: w'_def fut_poll_def run_in_poll_def f poll split_beta split: poll.split)
  have "world_ok w'" unfolding w'_def by (rule scope_exec_ok [OF ok(1)])
  moreover have ab: "sw_aborted (snd (scoped_poll ?b m v)) = sw_aborted w" using R(6) v(3) by (simp add: spares_def)
  ultimately show "newest w' (Suc m)" "waits_on w' m (Suc m)"
    using R(3,4,7) D(2,4-7) ok(2) by (simp_all add: newest_def w')
  show "spares m w w'" unfolding w' by (rule spares_trans [OF spares_trans [OF v(3) R(6)] D(3)])
qed

lemma waits_on_spares:
  assumes "waits_on w a b" and "spares m w w'" and "a < m" and "b \<le> m"
  shows "waits_on w' a b"
  using assms by (simp add: waits_on_def spares_def)

section \<open>Rounds\<close>

text \<open>
  In round \<open>i\<close> the futures \<open>qs i\<close> are polled, time passes, and the newest task runs: it spawns the next one and
  returns.
\<close>

definition round_ops ::
  "nat \<Rightarrow> ('o option \<Rightarrow> bool \<Rightarrow> 'v option) \<Rightarrow> 'o \<Rightarrow> nat list \<Rightarrow> nat \<Rightarrow> nat \<Rightarrow> ('o, 'v) sop list" where
  "round_ops g conv r qs d n =
    map (\<lambda>n. PollFut n [] None) qs @ [Act (Elapse d), PollFut n [SpawnHere g conv] (Some r)]"

definition respawn ::
  "nat \<Rightarrow> ('o option \<Rightarrow> bool \<Rightarrow> 'v option) \<Rightarrow> 'o \<Rightarrow> (nat \<Rightarrow> nat list) \<Rightarrow> (nat \<Rightarrow> nat) \<Rightarrow> nat \<Rightarrow> nat \<Rightarrow> ('o, 'v) sop list" where
  "respawn g conv r qs ds m k = concat (map (\<lambda>i. round_ops g conv r (qs i) (ds i) (m + i)) [0 ..< k])"

lemma scope_run_append: "scope_run (ops @ ops') w = scope_run ops' (scope_run ops w)"
  by (simp add: scope_run_def)

lemma newest_elapse: "newest w m \<Longrightarrow> newest (scope_exec (Act (Elapse d)) w) m"
  using scope_exec_ok [of w "Act (Elapse d)"] by (auto simp: newest_def is_done_def)

lemma round_run:
  fixes w :: "('o, 'v) scope_world" and g conv r d
  assumes new: "newest w m" and path: "waiting_path w ns m" and below: "\<forall>n \<in> set ns. n < m" and qs: "set qs \<subseteq> set ns"
  defines "w' \<equiv> scope_run (round_ops g conv r qs d m) w"
  shows "newest w' (Suc m)" and "waiting_path w' (ns @ [m]) (Suc m)" and "sw_now w' = sw_now w + d"
    and "n < m \<Longrightarrow> sw_scope w' n = sw_scope w n" and "n < m \<Longrightarrow> sw_fut w' n = sw_fut w n"
proof -
  let ?v = "scope_exec (Act (Elapse d)) w"
  have "scope_run (map (\<lambda>n. PollFut n [] None) qs) w = w"
    using waiting_path_waits [OF path] qs by (intro waiting_polls) blast
  then have w': "w' = scope_exec (PollFut m [SpawnHere g conv] (Some r)) ?v"
    by (simp add: w'_def round_ops_def scope_run_append) (simp add: scope_run_def)
  note P = respawn_poll [OF newest_elapse [OF new], where g = g and conv = conv and r = r, of d, folded w']
  show "newest w' (Suc m)" by (rule P(1))
  have "waits_on w' a b" if "a \<in> set ns" "b \<in> set ns \<union> {m}" "waits_on w a b" for a b
  proof (rule waits_on_spares [OF _ P(3)])
    show "waits_on ?v a b" using that(3) by (simp add: waits_on_def is_done_def)
  qed (use that(1,2) below in auto)
  from waiting_path_cong [OF path this] P(2)
  show "waiting_path w' (ns @ [m]) (Suc m)" by (simp add: waiting_path_append)
  show "sw_now w' = sw_now w + d" "n < m \<Longrightarrow> sw_scope w' n = sw_scope w n" "n < m \<Longrightarrow> sw_fut w' n = sw_fut w n"
    using P(3) by (simp_all add: spares_def)
qed

lemma respawn_run:
  assumes new: "newest w m" and path: "waiting_path w ns m" and below: "\<forall>n \<in> set ns. n < m"
    and qs: "\<And>i. set (qs i) \<subseteq> set ns \<union> {m ..< m + i}"
  shows "newest (scope_run (respawn g conv r qs ds m k) w) (m + k) \<and>
    waiting_path (scope_run (respawn g conv r qs ds m k) w) (ns @ [m ..< m + k]) (m + k) \<and>
    sw_now (scope_run (respawn g conv r qs ds m k) w) = sw_now w + (\<Sum>i < k. ds i) \<and>
    (\<forall>n < m. sw_scope (scope_run (respawn g conv r qs ds m k) w) n = sw_scope w n \<and>
      sw_fut (scope_run (respawn g conv r qs ds m k) w) n = sw_fut w n)"
proof (induction k)
  case 0
  then show ?case using new path by (simp add: respawn_def scope_run_def)
next
  case (Suc k)
  let ?v = "scope_run (respawn g conv r qs ds m k) w" and ?ns = "ns @ [m ..< m + k]"
  have eq: "scope_run (respawn g conv r qs ds m (Suc k)) w = scope_run (round_ops g conv r (qs k) (ds k) (m + k)) ?v"
    by (simp add: respawn_def scope_run_append)
  have "\<forall>n \<in> set ?ns. n < m + k" "set (qs k) \<subseteq> set ?ns" using below qs [of k] by auto
  note R = round_run [OF conjunct1 [OF Suc.IH] conjunct1 [OF conjunct2 [OF Suc.IH]] this, where d = "ds k" and g = g and conv = conv and r = r]
  show ?case unfolding eq using R Suc.IH by (simp add: lessThan_Suc upt_Suc_append)
qed

section \<open>The property\<close>

text \<open>C40: Tasks that spawn their successor into their own scope outlive every deadline.  Take any state in which a request
  is past its deadline and waits, directly or through tasks that wait for each other, for a task that was not
  polled yet.  In each round let any time pass, poll the request and the tasks below it in any order and as often
  as one likes, and poll the newest task once, late as it is: its body spawns its successor and returns.  Then after
  any number of rounds a poll of the request is still pending: its tree has grown by one task for each round, every
  one of them waits for the next, and the newest is unfinished.\<close>

theorem respawning_outlives_the_deadline:
  assumes w: "w = scope_run ops (world_init h)" and new: "newest w m"
    and path: "waiting_path w (p # ns) m" and below: "\<forall>n \<in> set (p # ns). n < m"
    and late: "sc_deadline (sw_scope w p) = Some d" "d \<le> sw_now w"
    and qs: "\<And>i. set (qs i) \<subseteq> set (p # ns) \<union> {m ..< m + i}"
    and w': "w' = scope_run (respawn g conv r qs ds m k) w"
  shows "run_in_poll body p w' = (Pending, w') \<and> \<not> is_done w' (m + k) \<and>
    waiting_path w' (p # ns @ [m ..< m + k]) (m + k) \<and>
    sc_deadline (sw_scope w' p) = Some d \<and> d + (\<Sum>i < k. ds i) \<le> sw_now w'"
proof -
  note R = respawn_run [OF new path below qs, where g = g and conv = conv and r = r and ds = ds and k = k, folded w']
  obtain b where "waits_on w' p b" using waiting_path_waits [of w' "(p # ns) @ [m ..< m + k]" "m + k" p] R by auto
  note waits_on_pending [OF this, of body]
  with R below late show ?thesis by (simp add: newest_def)
qed

text \<open>Only a drop aborts.\<close>

lemma act_aborted: "sw_aborted (exec_act a w) = sw_aborted w"
  by (cases a) (simp_all add: spawn_aborted take_result_def split: option.split)

lemma scoped_poll_aborted: "sw_aborted (snd (scoped_poll (run_body acts out) s w)) = sw_aborted w"
proof -
  have "sw_aborted (fold exec_act acts v) = sw_aborted v" for v :: "('a, 'b) scope_world"
    by (induction acts arbitrary: v) (simp_all add: act_aborted)
  then show ?thesis by (simp add: scoped_poll_def split_beta Let_def run_body_def leave_scope_def) (simp add: enter_scope_def)
qed

lemma wait_all_aborted: "sw_aborted (snd (wait_all s out w)) = sw_aborted w"
  by (simp add: wait_all_def split: option.split)

lemma drain_aborted: "sw_aborted (snd (drain s out w)) = sw_aborted w"
  by (simp add: drain_def Let_def wait_all_aborted cancel_children_aborted set_deadline_def)

lemma poll_aborted: "sw_aborted (fut_poll (run_body acts out) n w) = sw_aborted w"
proof -
  have g: "sw_aborted (snd (grace_poll (run_body acts out) n d v)) = sw_aborted v" for d v
    by (simp add: grace_poll_def split_beta Let_def drain_aborted scoped_poll_aborted split: poll.split)
  have "sw_aborted (snd (body_poll (run_body acts out) n w)) = sw_aborted w"
    by (simp add: body_poll_def split_beta Let_def drain_aborted scoped_poll_aborted g set_deadline_def split: poll.split)
  then have "sw_aborted (snd (run_in_poll (run_body acts out) n w)) = sw_aborted w"
    by (simp add: run_in_poll_def g wait_all_aborted split: option.split run_state.split)
  then show ?thesis by (simp add: fut_poll_def split_beta split: poll.split option.split)
qed

fun no_drop :: "('o, 'v) sop \<Rightarrow> bool" where
  "no_drop (DropFut n) = False"
| "no_drop _ = True"

lemma run_aborted:
  "sw_aborted w = (\<lambda>_. False) \<Longrightarrow> list_all no_drop ops \<Longrightarrow> sw_aborted (scope_run ops w) = (\<lambda>_. False)"
proof (induction ops arbitrary: w)
  case (Cons op ops)
  then have "sw_aborted (scope_exec op w) = (\<lambda>_. False)"
    by (cases op) (simp_all add: act_aborted poll_aborted root_new_def Let_def)
  then show ?case using Cons by (simp add: scope_run_def)
qed (simp add: scope_run_def)

text \<open>A request with a grace of 5 is cancelled at time 0 with one task running, and dropped at time 6; then 10 pass in each
  round, in which everything that waits is polled.\<close>

definition demo_overdue :: "(nat, nat) sop list" where
  "demo_overdue =
    [Request 0 5, PollFut 0 [SpawnHere 5 demo_conv] None, Act (CancelScope 0), PollFut 0 [] None,
     Act (Elapse 6), PollFut 0 [] None]"

definition demo_rounds :: "nat \<Rightarrow> (nat, nat) scope_world" where
  "demo_rounds k =
    scope_run (respawn 5 demo_conv 1 (\<lambda>i. [0 ..< 1 + i]) (\<lambda>_. 10) 1 k) (scope_run demo_overdue (world_init demo_heap))"

lemma respawning_outlives_the_deadline_witness:
  "sc_deadline (sw_scope (demo_rounds 0) 0) = Some 5 \<and>
    (\<forall>k. 5 + 10 * k \<le> sw_now (demo_rounds k) \<and> fst (run_in_poll (run_body [] (Some 0)) 0 (demo_rounds k)) = Pending)"
proof -
  let ?w = "scope_run demo_overdue (world_init demo_heap)"
  have c: "sc_deadline (sw_scope ?w 0) = Some 5" "sw_now ?w = 6" "sw_fresh ?w = Suc 1" "\<not> is_done ?w 1"
    "map_option rf_state (sw_fut ?w 1) = Some Unstarted" "map_option rf_state (sw_fut ?w 0) = Some (Waiting None)"
    "sc_children (sw_scope ?w 0) = [1]" by code_simp+
  have ab: "sw_aborted ?w = (\<lambda>_. False)"
    by (rule run_aborted) (simp_all add: demo_overdue_def world_init_def)
  have new: "newest ?w 1" using c(3,4,5) ab run_init_ok [of demo_overdue demo_heap] by (auto simp: newest_def)
  have "waits_on ?w 0 1" using c(4,6,7) ab by (auto simp: waits_on_def)
  then have path: "waiting_path ?w [0] 1" by simp
  have q: "set [0 ..< 1 + i] \<subseteq> set [0] \<union> {1 ..< 1 + i}" for i by auto
  have "\<forall>n \<in> set [0]. n < (1::nat)" "5 \<le> sw_now ?w" using c(2) by simp_all
  note T = respawning_outlives_the_deadline [OF refl new path this(1) c(1) this(2) q demo_rounds_def]
  have "5 + 10 * k \<le> sw_now (demo_rounds k) \<and> fst (run_in_poll (run_body [] (Some 0)) 0 (demo_rounds k)) = Pending" for k
    using T [of "run_body [] (Some 0)" k] by (simp add: mult.commute)
  moreover have "demo_rounds 0 = ?w" by (simp add: demo_rounds_def respawn_def scope_run_def [of "[]"])
  ultimately show ?thesis using c(1) by simp
qed

end
