(* ===== verification/Spec2Isabelle.thy ===== *)
theory Spec2Isabelle
  imports Isle_Error_Props Isle_Chan_Props Isle_Cancel_Props Isle_Cancel_Race Isle_Scope_Props
    Isle_Scope_Time Isle_Scope_Wait_Props Isle_Pool_Wake Isle_Pool_Guard Isle_Pool_Async_Props Isle_Hub_Props
    Isle_Marks Isle_Channel_Lib_Props Isle_Lib_Classes_Props Isle_Protect_Props Isle_Runtime_Props Isle_Actor_Props Isle_Async_Props
    Isle_Requests_Props Isle_Registry_Props Isle_Coroutines
    Isle_Spawn_Props Isle_Async_Answers Isle_Cancelled_Eval Isle_Scope_Respawn
begin

text \<open>
  A verification library for \<^verbatim>\<open>mlua-isle\<close>, a Rust crate that runs Lua VMs each on a thread of
  its own, with cancellation, structured tasks, channels, select and pools.

  \<^bold>\<open>The program.\<close>  An actor (\<^verbatim>\<open>src/handle.rs\<close>, \<^verbatim>\<open>src/async_isle.rs\<close>, \<^verbatim>\<open>src/thread.rs\<close>) owns a VM
  and answers requests; every request carries a cancel token (\<^verbatim>\<open>src/hook.rs\<close>) that a debug hook
  (\<^verbatim>\<open>src/hub.rs\<close>) looks at.  Inside the VM a scope tree (\<^verbatim>\<open>src/scope.rs\<close>) runs tasks, the task
  library (\<^verbatim>\<open>src/task_lib.rs\<close>) gives Lua spawn, join, channels (\<^verbatim>\<open>src/chan.rs\<close>), select
  (\<^verbatim>\<open>src/select.rs\<close>) and tickers, and host channels (\<^verbatim>\<open>src/host_chan.rs\<close>) connect them to the
  host.  Errors cross the boundary as values (\<^verbatim>\<open>src/error.rs\<close>).  Pools (\<^verbatim>\<open>src/pool.rs\<close>,
  \<^verbatim>\<open>src/async_pool.rs\<close>) share actors between callers.

  \<^bold>\<open>What is modelled where.\<close>
  \<^item> \<open>Isle_Prelude\<close>: polls, wakers, the code's vector operations, and the locale \<open>machine\<close>, the
    induction over histories every invariant below uses.
  \<^item> \<open>Isle_Value\<close>: Lua values, as far as the code looks into them.
  \<^item> \<open>Isle_Error\<close>, \<open>Isle_Error_Props\<close>: \<^verbatim>\<open>src/error.rs\<close>.  mlua's \<^verbatim>\<open>Display\<close> and \<^verbatim>\<open>downcast_ref\<close> are
    parameters with the behaviour the code cites.
  \<^item> \<open>Isle_Chan\<close>: \<^verbatim>\<open>src/chan.rs\<close>, every operation on an explicit store of channels, offers,
    waiters and select marks; tokio's mpsc channel is the parameter \<open>mpsc_env\<close>.
  \<^item> \<open>Isle_Chan_Inv\<close>, \<open>Isle_Chan_Steps\<close>: the invariant \<open>store_ok\<close> of the store, and \<open>frame\<close>, what a step
    leaves to the futures of others; one lemma for each operation.
  \<^item> \<open>Isle_Chan_Sys\<close>: the channels with the futures that wait on them, as a machine over all the
    operations in any order; \<open>Isle_Chan_Flow\<close>: where every value is; \<open>Isle_Queue\<close>: the contract of a
    queue; \<open>Isle_Chan_Props\<close>: the properties.
  \<^item> \<open>Isle_Cancel\<close>, \<open>Isle_Cancel_Props\<close>: \<^verbatim>\<open>src/hook.rs\<close>, the tree of tokens in a heap, where a weak
    pointer upgrades exactly while a handle or a live child holds the token.
  \<^item> \<open>Isle_Cancel_Race\<close>: \<^verbatim>\<open>cancel\<close>, \<^verbatim>\<open>child_token\<close> and \<^verbatim>\<open>cancelled\<close> on many threads, as a step relation
    with one step for each access to the shared state.
  \<^item> \<open>Isle_Pool\<close>, \<open>Isle_Pool_Props\<close>: \<^verbatim>\<open>src/pool.rs\<close> and \<^verbatim>\<open>src/async_pool.rs\<close>, one operation for each
    critical section of the mutex; both meet the contract \<open>bounded_pool\<close>.  \<open>Isle_Pool_Guard\<close>: the guards,
    which give their isle back once, and the helpers of the async pool.  \<open>Isle_Pool_Wake\<close>: the
    threads that sleep in a checkout of the blocking pool.  \<open>Isle_Pool_Async\<close>, \<open>Isle_Pool_Async_Props\<close>:
    the checkouts of the async pool as futures, one step for each access to what threads share.
  \<^item> \<open>Isle_Scope\<close>: \<^verbatim>\<open>src/scope.rs\<close>, the tree of scopes, task states and the run futures, poll by poll;
    \<open>Isle_Scope_Sys\<close>: its histories and their invariant; \<open>Isle_Scope_Props\<close>, \<open>Isle_Scope_Time\<close>: what a
    scope waits for, and when it ends; \<open>Isle_Scope_Respawn\<close>: the tasks that outlive a deadline; \<open>Isle_Scope_Wait\<close>, \<open>Isle_Scope_Wait_Props\<close>: the waits for tasks with
    their wakers, whose polls agree with the waits of \<open>Isle_Scope\<close>; \<open>Isle_Scope_Rel\<close>: the locale for
    relations that the steps of the scopes respect; \<open>Isle_Root\<close>: the future of a coroutine request and its contract;
    \<open>Isle_Root_Async\<close>: its setup on the VM, and the polls of the async actor; \<open>Isle_Coroutine_Steps\<close>,
    \<open>Isle_Coroutines\<close>: the async actor with the scopes of its VM as one machine, over all histories.
  \<^item> \<open>Isle_Hub\<close>, \<open>Isle_Hub_Props\<close>: \<^verbatim>\<open>src/hub.rs\<close>, the one debug hook of a VM, with its counters as 32-bit words.
  \<^item> \<open>Isle_Marks\<close>: the marks of the coroutines the crate made (\<^verbatim>\<open>RootMark\<close> in \<^verbatim>\<open>src/scope.rs\<close>, \<^verbatim>\<open>ROOTS\<close> in
    \<^verbatim>\<open>src/hub.rs\<close>), which tell preemption what it may yield.
  \<^item> \<open>Isle_Registry\<close>: the tasks of \<^verbatim>\<open>src/task_lib.rs\<close>; \<open>Isle_Registry_Sys\<close>, \<open>Isle_Registry_Props\<close>: the handles
    that Lua has of them, as a machine; \<open>Isle_Select\<close>, \<open>Isle_Select_Props\<close>: \<^verbatim>\<open>src/select.rs\<close>, the arms,
    the select future and the reading of its cases; \<open>Isle_Channel_Lib\<close>, \<open>Isle_Channel_Lib_Props\<close>: the
    channels, timers, tickers and selects that Lua sees; \<open>Isle_Lib_Classes\<close>, \<open>Isle_Lib_Classes_Props\<close>: its
    classes, constructors and method calls, on a heap of objects.
  \<^item> \<open>Isle_Host_Chan\<close>, \<open>Isle_Host_Chan_Props\<close>: \<^verbatim>\<open>src/host_chan.rs\<close>, with requests and what Lua does while it
    converts an answer.
  \<^item> \<open>Isle_Protect\<close>, \<open>Isle_Protect_Props\<close>: \<^verbatim>\<open>src/protect.rs\<close>, the table of tracebacks as an explicit state.
  \<^item> \<open>Isle_Runtime\<close>, \<open>Isle_Runtime_Props\<close>: the state of a VM, \<^verbatim>\<open>Vm\<close> (\<^verbatim>\<open>src/runtime.rs\<close>), and sync requests on the
    VM's thread (\<^verbatim>\<open>src/thread.rs\<close>).
  \<^item> \<open>Isle_Actor\<close>, \<open>Isle_Actor_Props\<close>: \<^verbatim>\<open>src/handle.rs\<close>, the loop of its thread and \<^verbatim>\<open>src/task.rs\<close>;
    \<open>Isle_Cancelled_Eval\<close>: what becomes of an eval cancelled in the queue, from its handle to its task.
  \<^item> \<open>Isle_Async\<close>, \<open>Isle_Async_Props\<close>: \<^verbatim>\<open>src/async_isle.rs\<close> and \<^verbatim>\<open>src/async_task.rs\<close>, the requests, the coroutines
    beside them, shutdown; \<open>Isle_Async_Answers\<close>: a record of what each request's code returned, next to the answers;
    \<open>Isle_Spawn_Props\<close>: what a spawn comes to.
  \<^item> \<open>Isle_Requests\<close>, \<open>Isle_Requests_Props\<close>: the calls a caller waits for in one go, blocking (\<^verbatim>\<open>src/handle.rs\<close>) or
    as futures (\<^verbatim>\<open>src/async_isle.rs\<close>), against a reference run of the queue (\<open>expected_answer\<close>).

  \<^bold>\<open>How they interact.\<close>  A handle puts a job into the request channel of its actor (\<open>submit\<close>,
  \<open>async_submit\<close>); the thread runs it on the VM (\<open>loop_step\<close>, \<open>loop_poll\<close>) under the request's token
  (\<open>under_token\<close>, \<open>enter_vm\<close>), through the protected call (\<open>vm_call\<close>, \<open>protect_call\<close>), watched by the hook
  (\<open>dispatch\<close>).  A coroutine request runs a root scope (\<open>root_new\<close>, \<open>run_in_poll\<close>), whose tasks the task
  library spawns (\<open>spawn_raw\<close>) and joins; select polls channels (\<open>arm_poll_take\<close>), timers and tasks.
  An error goes through \<open>isle_of_mlua\<close> and \<open>mlua_of_isle\<close> wherever it crosses between Rust and Lua.

  \<^bold>\<open>What is shown.\<close>  Over every history of the channels: well-formedness, conservation of values, one
  delivery for each select; a buffered channel is a queue.  A poll of a select is a sequence of channel
  operations, and a resolved select holds nothing.  The result of a task is returned once, by the join or the
  case that marked its handle.  A cancel survives Lua and is recognised by value, never by message; messages and
  tracebacks survive, and a failure has the traceback its own thread recorded for it; a coroutine and a sync request report a call alike but
  under a cancelled token.  A cancel reaches its
  live subtree and nothing else, under any interleaving; the hook raises it within seventeen checks.  A scope
  that waited has no unfinished task in its tree but those below a future dropped from outside, and deadlines nest;
  whatever else the async actor did, a coroutine
  request is answered with \<open>Cancelled\<close> or with what its code returned, after its scope has waited.  No method of a
  library object fails for a wrong type as long as Lua leaves the object's private fields alone, and a channel to the
  host refuses to receive.  A spawn
  gives a ready VM or says which step failed.  Requests run in order, an async
  shutdown drains and gives each request what its code returned, and no task of either actor waits for nothing; a blocking call returns what a reference run of
  the queue gives; a request to the host is answered once.
  Pools stay within their limit and give an isle to one user at a time, and no thread sleeps for nothing.
  Some theorems show where the code does not do what it means to: a dropped checkout leaks its place in the
  async pool; an async checkout can sleep beside an idle VM; a task that was never polled is never finished;
  tasks that respawn outlive a deadline; a dropped join leaves its task in the registry; the widest count hook never
  fires.

  \<^bold>\<open>Bounds.\<close>  No definition needs fuel but the loop of a ticker (\<open>ticker_loop\<close>), which gets the number of
  ticks that can be due, one for each instant up to now, and is shown to end before.  The other recursions are
  structural or end by a measure (the cancel of a tree by the number of tokens not yet cancelled).  The waits of
  \<open>Isle_Scope_Wait\<close> are partial functions (\<open>None\<close> is a poll that does not return) and are shown to return.  The
  counters of the hook and the turn of a select are words of their width; addresses, instants and other counts
  are natural numbers that come nowhere near it.

  \<^bold>\<open>Not modelled.\<close>  Lua itself, mlua and tokio are libraries the code calls: what they do is a parameter, with
  the behaviour they document as a named hypothesis where a property needs it (\<open>oneshot_ok\<close>,
  \<open>request_chan_ok\<close>, \<open>notify_ok\<close>, \<open>wait_env_ok\<close>).  The load of the library's Lua chunk and the \<^verbatim>\<open>create_function\<close> calls that bind its
  host functions, \<^verbatim>\<open>Debug\<close> output, accessors that return a field, and the values of errors under the \<^verbatim>\<open>serde\<close> feature are
  left out: they have no part in what is shown.  The declarations of traits and types that a definition does not need, the crate
  root's re-exports and the tests are the rest of the code without a definition.
\<close>

section \<open>One call, two ways to run it\<close>

text \<open>C28: A call made by a coroutine request (the wrapper of \<^verbatim>\<open>protect.rs\<close>, read back by \<^verbatim>\<open>unwrap_root\<close> when its
  scope resolves, under the request's token) and the same call made by a sync request (\<^verbatim>\<open>Parts::call\<close>, then the look at
  the token) agree, for any run of the code.  They leave the same table of tracebacks.  With the token uncancelled, they
  report the same values or the same error.  With it cancelled, the coroutine reports \<^verbatim>\<open>Cancelled\<close> always, and the sync
  request when the call failed, else the values.  It is about what the call reports, before its values are
  converted; and \<^verbatim>\<open>xpcall\<close> answers as Lua documents it, a boolean first.\<close>

theorem coroutine_and_sync_agree:
  fixes ls :: lua_show and th :: nat and xr :: xpcall_run and p :: protect
  assumes "case xr_result xr of Inl e \<Rightarrow> True | Inr vs \<Rightarrow> \<exists>b rest. vs = VBoolean b # rest"
  shows "let (out, left) = wrap_call th xr p;
      coroutine = (\<lambda>cancelled.
        root_result (isle_of_mlua (ls_disp ls) (ls_downcast ls)) (unwrap_root ls) cancelled (Some out));
      sync = cancelled_wins (fst (protect_call ls th xr p))
    in left = snd (protect_call ls th xr p) \<and> coroutine False = sync False \<and> coroutine True = Inl Cancelled \<and>
      sync True = (if isl (sync False) then Inl Cancelled else sync False)"
  unfolding wrapped_call [OF assms, of ls th p] split_beta Let_def
  by (cases "fst (wrap_call th xr p)") (auto simp: cancelled_wins_def split: sum.split)

text \<open>The run of \<^term>\<open>demo_xpcall\<close>: both report the message with the traceback of its own thread; under a cancelled
  token, both report \<^verbatim>\<open>Cancelled\<close>.\<close>

lemma coroutine_and_sync_agree_witness:
  "root_result (isle_of_mlua (ls_disp demo_show) (ls_downcast demo_show)) (unwrap_root demo_show) False
      (Some (fst (wrap_call 1 demo_xpcall demo_protect))) =
    Inl (Lua \<lparr>lf_kind = KRuntime, lf_message = ''boom'', lf_traceback = Some ''tb1''\<rparr>) \<and>
   cancelled_wins (fst (protect_call demo_show 1 demo_xpcall demo_protect)) True = Inl Cancelled"
proof -
  have "case xr_result demo_xpcall of Inl e \<Rightarrow> True | Inr vs \<Rightarrow> \<exists>b rest. vs = VBoolean b # rest"
    by (simp add: demo_xpcall_def) (rule exI [of _ False], simp)
  note A = coroutine_and_sync_agree [OF this, where ls = demo_show and th = 1 and p = demo_protect]
  have s: "cancelled_wins (fst (protect_call demo_show 1 demo_xpcall demo_protect)) False =
    Inl (Lua \<lparr>lf_kind = KRuntime, lf_message = ''boom'', lf_traceback = Some ''tb1''\<rparr>)"
    by code_simp
  show ?thesis using A unfolding Let_def split_beta s by simp
qed

end
